(* ===== verification/Prelude.thy ===== *)
theory Prelude
  imports Main "HOL-Library.AList" "HOL-Library.List_Lexorder" "HOL-Library.Char_ord"
    "HOL-Library.Signed_Division"
begin

text \<open>
  What every component of the development shares: the sentinel errors the Go code wraps with
  \<open>%w\<close>, the two error shapes (a Go \<open>error\<close> result is an \<open>err option\<close>, a
  \<open>(T, error)\<close> result is an \<open>err + T\<close>), Go's named-string enumerations, keyed SQL tables
  and stored histories.

  Error messages are not modelled: a value of \<open>err\<close> is the sentinel that \<open>errors.Is\<close>
  finds in the chain, which is what callers test. \<open>Panic\<close> stands for a run-time panic (a nil
  dereference, an integer division by zero), so that the absence of panics is a theorem about the
  model and not an assumption of it. \<open>ErrText\<close> stands for an error without a sentinel.
\<close>

named_theorems validation \<open>rewrite rules that turn a validator's verdict into its conditions\<close>
named_theorems sum_results \<open>rewrite rules for (T, error) results\<close>

section \<open>Errors\<close>

datatype err =
    ErrNotFound | ErrImmutableTransition | ErrStaleTransition | ErrImmutableConflict | ErrStaleWrite
  | ErrStaleConsumption | ErrPairingRejected | ErrDeviceNotActive | ErrMarshal | ErrRowInconsistent
  | Sentinel string | ErrText string | Panic string

text \<open>The sentinels no modelled code tests for.\<close>

abbreviation ErrEmptyID :: err where "ErrEmptyID \<equiv> Sentinel ''ErrEmptyID''"
abbreviation ErrEmptyField :: err where "ErrEmptyField \<equiv> Sentinel ''ErrEmptyField''"
abbreviation ErrNonPositive :: err where "ErrNonPositive \<equiv> Sentinel ''ErrNonPositive''"
abbreviation ErrParentKeyMismatch :: err where "ErrParentKeyMismatch \<equiv> Sentinel ''ErrParentKeyMismatch''"
abbreviation ErrMissingTimestamp :: err where "ErrMissingTimestamp \<equiv> Sentinel ''ErrMissingTimestamp''"
abbreviation ErrTimestampOutOfOrder :: err where "ErrTimestampOutOfOrder \<equiv> Sentinel ''ErrTimestampOutOfOrder''"
abbreviation ErrTimestampNotUTC :: err where "ErrTimestampNotUTC \<equiv> Sentinel ''ErrTimestampNotUTC''"
abbreviation ErrInvalidScheduleKind :: err where "ErrInvalidScheduleKind \<equiv> Sentinel ''ErrInvalidScheduleKind''"
abbreviation ErrInvalidScheduleStatus :: err where "ErrInvalidScheduleStatus \<equiv> Sentinel ''ErrInvalidScheduleStatus''"
abbreviation ErrInvalidScheduleSubjectType :: err where "ErrInvalidScheduleSubjectType \<equiv> Sentinel ''ErrInvalidScheduleSubjectType''"
abbreviation ErrInvalidScheduleResolution :: err where "ErrInvalidScheduleResolution \<equiv> Sentinel ''ErrInvalidScheduleResolution''"
abbreviation ErrInvalidScheduleOccurrenceStatus :: err where "ErrInvalidScheduleOccurrenceStatus \<equiv> Sentinel ''ErrInvalidScheduleOccurrenceStatus''"
abbreviation ErrInvalidScheduleOccurrenceOutcome :: err where "ErrInvalidScheduleOccurrenceOutcome \<equiv> Sentinel ''ErrInvalidScheduleOccurrenceOutcome''"
abbreviation ErrScheduleDetailMismatch :: err where "ErrScheduleDetailMismatch \<equiv> Sentinel ''ErrScheduleDetailMismatch''"
abbreviation ErrPlaintextCredential :: err where "ErrPlaintextCredential \<equiv> Sentinel ''ErrPlaintextCredential''"
abbreviation ErrInvalidDeviceStatus :: err where "ErrInvalidDeviceStatus \<equiv> Sentinel ''ErrInvalidDeviceStatus''"
abbreviation ErrInvalidCredentialKind :: err where "ErrInvalidCredentialKind \<equiv> Sentinel ''ErrInvalidCredentialKind''"
abbreviation ErrStatusTimestampTooStrong :: err where "ErrStatusTimestampTooStrong \<equiv> Sentinel ''ErrStatusTimestampTooStrong''"
abbreviation ErrStatusMissingTimestamp :: err where "ErrStatusMissingTimestamp \<equiv> Sentinel ''ErrStatusMissingTimestamp''"
abbreviation ErrConsumptionInconsistent :: err where "ErrConsumptionInconsistent \<equiv> Sentinel ''ErrConsumptionInconsistent''"
abbreviation ErrInvalidDeliveryStatus :: err where "ErrInvalidDeliveryStatus \<equiv> Sentinel ''ErrInvalidDeliveryStatus''"
abbreviation ErrInconsistentTiming :: err where "ErrInconsistentTiming \<equiv> Sentinel ''ErrInconsistentTiming''"
abbreviation ErrDuplicate :: err where "ErrDuplicate \<equiv> Sentinel ''ErrDuplicate''"
abbreviation ErrInvalidAuthor :: err where "ErrInvalidAuthor \<equiv> Sentinel ''ErrInvalidAuthor''"

text \<open>
  A validator is a sequence of checks with early returns. \<open>require\<close> is one
  \<open>if !cond \<lbrace> return err \<rbrace>\<close>; \<open>first_error\<close> returns the first failing check of a
  sequence; \<open>deref\<close> is a check that dereferences a pointer (and panics on nil), and
  \<open>when_ptr\<close> one guarded by \<open>p != nil\<close>.
\<close>

definition require :: "bool \<Rightarrow> 'e \<Rightarrow> 'e option" where
  "require b e = (if b then None else Some e)"

fun first_error :: "'e option list \<Rightarrow> 'e option" where
  "first_error [] = None"
| "first_error (x # xs) = (case x of None \<Rightarrow> first_error xs | Some e \<Rightarrow> Some e)"

definition deref :: "'a option \<Rightarrow> ('a \<Rightarrow> err option) \<Rightarrow> err option" where
  "deref p k = (case p of None \<Rightarrow> Some (Panic ''nil dereference'') | Some x \<Rightarrow> k x)"

definition when_ptr :: "'a option \<Rightarrow> ('a \<Rightarrow> 'e option) \<Rightarrow> 'e option" where
  "when_ptr p k = (case p of None \<Rightarrow> None | Some x \<Rightarrow> k x)"

lemma require_None [simp, validation]: "require b e = None \<longleftrightarrow> b"
  by (simp add: require_def)

lemma require_Some [validation]: "require b e = Some e' \<longleftrightarrow> \<not> b \<and> e' = e"
  by (auto simp: require_def)

lemma first_error_Cons_None [validation]:
  "first_error (x # xs) = None \<longleftrightarrow> x = None \<and> first_error xs = None"
  by (cases x) auto

lemma first_error_Cons_Some [validation]:
  "first_error (x # xs) = Some e \<longleftrightarrow> x = Some e \<or> (x = None \<and> first_error xs = Some e)"
  by (cases x) auto

lemma first_error_None_iff: "first_error xs = None \<longleftrightarrow> (\<forall>x \<in> set xs. x = None)"
  by (induction xs) (auto split: option.splits)

lemma first_error_map_None: "first_error (map f xs) = None \<longleftrightarrow> (\<forall>x \<in> set xs. f x = None)"
  by (induction xs) (auto split: option.splits)

lemma first_error_append [validation]:
  "first_error (xs @ ys) = (case first_error xs of None \<Rightarrow> first_error ys | Some e \<Rightarrow> Some e)"
  by (induction xs) (auto split: option.splits)

lemma first_error_SomeD: "first_error xs = Some e \<Longrightarrow> Some e \<in> set xs"
  by (induction xs) (auto split: option.splits)

lemma deref_None [validation]: "deref p k = None \<longleftrightarrow> (\<exists>x. p = Some x \<and> k x = None)"
  by (cases p) (auto simp: deref_def)

lemma deref_Some [simp, validation]: "deref (Some x) k = k x"
  by (simp add: deref_def)

lemma when_ptr_None [validation]: "when_ptr p k = None \<longleftrightarrow> (\<forall>x. p = Some x \<longrightarrow> k x = None)"
  by (cases p) (auto simp: when_ptr_def)

lemma when_ptr_simps [simp]: "when_ptr None k = None" "when_ptr (Some x) k = k x"
  by (simp_all add: when_ptr_def)

declare first_error.simps(2) [simp del]

text \<open>Whether an error is a panic; a validator that never panics never answers with one.\<close>

fun is_panic :: "err \<Rightarrow> bool" where
  "is_panic (Panic _) = True"
| "is_panic _ = False"

definition no_panic :: "err option \<Rightarrow> bool" where
  "no_panic r \<longleftrightarrow> (\<forall>e. r = Some e \<longrightarrow> \<not> is_panic e)"

lemma no_panic_simps [simp]:
  "no_panic None"
  "no_panic (Some e) \<longleftrightarrow> \<not> is_panic e"
  "no_panic (require b e) \<longleftrightarrow> b \<or> \<not> is_panic e"
  by (auto simp: no_panic_def require_def)

lemma no_panic_when_ptr [intro]:
  "(\<And>x. p = Some x \<Longrightarrow> no_panic (k x)) \<Longrightarrow> no_panic (when_ptr p k)"
  by (cases p) auto

text \<open>A dereference that an earlier check of the same sequence guards never panics.\<close>

lemma no_panic_first_error_Cons [simp]:
  "no_panic (first_error (x # xs)) \<longleftrightarrow> no_panic x \<and> (x = None \<longrightarrow> no_panic (first_error xs))"
  by (cases x) (auto simp: no_panic_def first_error.simps)

section \<open>Results with a value\<close>

definition of_err :: "'e option \<Rightarrow> 'a \<Rightarrow> 'e + 'a" where
  "of_err r x = (case r of None \<Rightarrow> Inr x | Some e \<Rightarrow> Inl e)"

definition ebind :: "'e + 'a \<Rightarrow> ('a \<Rightarrow> 'e + 'b) \<Rightarrow> 'e + 'b" where
  "ebind m f = (case m of Inl e \<Rightarrow> Inl e | Inr x \<Rightarrow> f x)"

lemma ebind_simps [simp]: "ebind (Inl e) f = Inl e" "ebind (Inr x) f = f x"
  by (simp_all add: ebind_def)

lemma ebind_Inr_iff [sum_results]:
  "ebind m f = Inr y \<longleftrightarrow> (\<exists>x. m = Inr x \<and> f x = Inr y)"
  by (cases m) auto

lemma of_err_Inr_iff [sum_results]: "of_err r x = Inr y \<longleftrightarrow> r = None \<and> y = x"
  by (cases r) (auto simp: of_err_def)

lemma of_err_simps [simp]: "of_err None x = Inr x" "of_err (Some e) x = Inl e"
  by (simp_all add: of_err_def)

section \<open>Named-string enumerations\<close>

text \<open>
  A Go enumeration is a named string type with registered members; a variable of the type can hold
  any string. It is modelled by a datatype with one constructor per member and one more,
  \<open>...Other s\<close>, for a string that is no member (the zero value \<open>''''\<close> included).
  \<open>enum_parse\<close> is the value that stands for a string.
\<close>

definition enum_parse :: "('a \<Rightarrow> string) \<Rightarrow> 'a list \<Rightarrow> (string \<Rightarrow> 'a) \<Rightarrow> string \<Rightarrow> 'a" where
  "enum_parse render members other s =
     (case find (\<lambda>k. render k = s) members of Some k \<Rightarrow> k | None \<Rightarrow> other s)"

locale string_enum =
  fixes render :: "'a \<Rightarrow> string"
    and members :: "'a list"
    and other :: "string \<Rightarrow> 'a"
  assumes render_other: "render (other s) = s"
    and distinct_render: "distinct (map render members)"
    and exhaust: "k \<in> set members \<or> (\<exists>s. k = other s)"
    and other_not_member: "other s \<notin> set members"
begin

lemma render_parse: "render (enum_parse render members other s) = s"
  by (auto simp: enum_parse_def render_other find_Some_iff split: option.splits)

lemma parse_render: "k \<in> set members \<Longrightarrow> enum_parse render members other (render k) = k"
proof -
  assume k: "k \<in> set members"
  then have "find (\<lambda>j. render j = render k) members \<noteq> None"
    by (auto simp: find_None_iff)
  then obtain j where j: "find (\<lambda>j. render j = render k) members = Some j" by blast
  then have "j \<in> set members" and "render j = render k"
    by (auto simp: find_Some_iff in_set_conv_nth)
  with k distinct_render have "j = k" by (auto simp: distinct_map dest: inj_onD)
  with j show ?thesis by (simp add: enum_parse_def)
qed

lemma parse_member_iff:
  "enum_parse render members other s \<in> set members \<longleftrightarrow> s \<in> render ` set members"
proof
  assume "enum_parse render members other s \<in> set members"
  then show "s \<in> render ` set members" using render_parse by (metis imageI)
next
  assume "s \<in> render ` set members"
  then show "enum_parse render members other s \<in> set members" by (auto simp: parse_render)
qed

end

section \<open>Keyed tables\<close>

text \<open>
  A SQL table with a primary key: lookup by key, insert-or-replace, delete. The store's tables are
  association lists in insertion order; the laws below are what their clients use.
\<close>

locale keyed_table =
  fixes lookup :: "'t \<Rightarrow> 'k \<Rightarrow> 'v option"
    and upsert :: "'k \<Rightarrow> 'v \<Rightarrow> 't \<Rightarrow> 't"
    and remove :: "'k \<Rightarrow> 't \<Rightarrow> 't"
    and keyed :: "'t \<Rightarrow> bool"
  assumes lookup_upsert: "lookup (upsert k v t) j = (if j = k then Some v else lookup t j)"
    and lookup_remove: "lookup (remove k t) j = (if j = k then None else lookup t j)"
    and keyed_upsert: "keyed t \<Longrightarrow> keyed (upsert k v t)"
    and keyed_remove: "keyed t \<Longrightarrow> keyed (remove k t)"
begin

lemma lookup_upsert_same: "lookup (upsert k v t) k = Some v"
  by (simp add: lookup_upsert)

lemma lookup_upsert_other: "j \<noteq> k \<Longrightarrow> lookup (upsert k v t) j = lookup t j"
  by (simp add: lookup_upsert)

lemma lookup_remove_same: "lookup (remove k t) k = None"
  by (simp add: lookup_remove)

lemma lookup_remove_other: "j \<noteq> k \<Longrightarrow> lookup (remove k t) j = lookup t j"
  by (simp add: lookup_remove)

lemma upsert_upsert_lookup: "lookup (upsert k w (upsert k v t)) = lookup (upsert k w t)"
  by (auto simp: lookup_upsert)

end

abbreviation distinct_keys :: "('k \<times> 'v) list \<Rightarrow> bool" where
  "distinct_keys t \<equiv> distinct (map fst t)"

interpretation tbl: keyed_table map_of AList.update AList.delete distinct_keys
  by unfold_locales (auto simp: update_conv delete_conv distinct_update distinct_delete)

lemma in_table_iff: "distinct_keys t \<Longrightarrow> (k, v) \<in> set t \<longleftrightarrow> map_of t k = Some v"
  by (auto intro: map_of_is_SomeI dest: map_of_SomeD)

section \<open>Stored histories\<close>

text \<open>
  The versions of an aggregate a store has accepted: each is checked by a transition validator
  against the one before it. What one accepted transition keeps, the whole history keeps.
\<close>

fun history :: "('a \<Rightarrow> 'a \<Rightarrow> 'e option) \<Rightarrow> 'a \<Rightarrow> 'a list \<Rightarrow> bool" where
  "history validate a [] = True"
| "history validate a (b # bs) = (validate a b = None \<and> history validate b bs)"

locale stored_aggregate =
  fixes validate :: "'a \<Rightarrow> 'a \<Rightarrow> 'e option"
    and key :: "'a \<Rightarrow> 'k"
    and extends :: "'a \<Rightarrow> 'a \<Rightarrow> bool"
  assumes key_fixed: "validate a b = None \<Longrightarrow> key b = key a"
    and step_extends: "validate a b = None \<Longrightarrow> extends a b"
    and extends_refl: "extends a a"
    and extends_trans: "extends a b \<Longrightarrow> extends b c \<Longrightarrow> extends a c"
begin

lemma history_key: "history validate a bs \<Longrightarrow> b \<in> set bs \<Longrightarrow> key b = key a"
  by (induction bs arbitrary: a) (auto dest: key_fixed)

lemma history_extends: "history validate a bs \<Longrightarrow> b \<in> set bs \<Longrightarrow> extends a b"
proof (induction bs arbitrary: a)
  case (Cons c bs)
  then show ?case
    using step_extends extends_trans by (cases "b = c") (auto, blast)
qed simp

end

section \<open>At-most-once ledgers\<close>

text \<open>
  A ledger holds one row per key; a row is inserted open, once, and settled once. The laws are the
  affected-row results of the two statements; the client's lemmas hold over any sequence of them.
\<close>

datatype ('k, 'v, 'x) ledger_op = Insert 'k 'v | Settle 'k 'x

text \<open>What any later state of a ledger keeps: every row, and a settled row as it is.\<close>

definition ledger_grows :: "('v \<Rightarrow> bool) \<Rightarrow> ('k \<Rightarrow> 'v option) \<Rightarrow> ('k \<Rightarrow> 'v option) \<Rightarrow> bool" where
  "ledger_grows is_open m m' \<longleftrightarrow> (\<forall>k v. m k = Some v \<longrightarrow>
     (\<exists>v'. m' k = Some v' \<and> (v' = v \<or> is_open v \<and> \<not> is_open v')))"

lemma ledger_grows_refl [simp]: "ledger_grows is_open m m"
  by (simp add: ledger_grows_def)

lemma ledger_grows_trans:
  "ledger_grows is_open a b \<Longrightarrow> ledger_grows is_open b c \<Longrightarrow> ledger_grows is_open a c"
  unfolding ledger_grows_def by metis

lemma ledger_grows_settled:
  "ledger_grows is_open m m' \<Longrightarrow> m k = Some v \<Longrightarrow> \<not> is_open v \<Longrightarrow> m' k = Some v"
  unfolding ledger_grows_def by metis

text \<open>The affected-row results of a sequence of statements, and the ledger they leave.\<close>

fun ledger_step where
  "ledger_step ins sett (Insert k v) l = ins k v l"
| "ledger_step ins sett (Settle k x) l = sett k x l"

fun ledger_run ::
  "('k \<Rightarrow> 'v \<Rightarrow> 'l \<Rightarrow> bool \<times> 'l) \<Rightarrow> ('k \<Rightarrow> 'x \<Rightarrow> 'l \<Rightarrow> bool \<times> 'l) \<Rightarrow> ('k, 'v, 'x) ledger_op list \<Rightarrow> 'l
   \<Rightarrow> bool list \<times> 'l" where
  "ledger_run ins sett [] l = ([], l)"
| "ledger_run ins sett (p # ps) l = (let (b, l1) = ledger_step ins sett p l;
     (bs, l2) = ledger_run ins sett ps l1 in (b # bs, l2))"

lemma ledger_run_Cons:
  "ledger_run ins sett (p # ps) l = (bs, l') \<longleftrightarrow>
     (\<exists>bs1. bs = fst (ledger_step ins sett p l) # bs1
        \<and> ledger_run ins sett ps (snd (ledger_step ins sett p l)) = (bs1, l'))"
  by (auto simp: case_prod_unfold Let_def prod_eq_iff)

locale once_ledger =
  fixes row :: "'l \<Rightarrow> 'k \<Rightarrow> 'v option"
    and is_open :: "'v \<Rightarrow> bool"
    and stamp :: "'x \<Rightarrow> 'v \<Rightarrow> 'v"
    and insert_row :: "'k \<Rightarrow> 'v \<Rightarrow> 'l \<Rightarrow> bool \<times> 'l"
    and settle_row :: "'k \<Rightarrow> 'x \<Rightarrow> 'l \<Rightarrow> bool \<times> 'l"
  assumes insert_result: "fst (insert_row k v l) \<longleftrightarrow> row l k = None"
    and insert_row: "row (snd (insert_row k v l)) = (if row l k = None then (row l)(k \<mapsto> v) else row l)"
    and settle_result: "fst (settle_row k x l) \<longleftrightarrow> (\<exists>v. row l k = Some v \<and> is_open v)"
    and settle_row: "row (snd (settle_row k x l)) =
      (case row l k of Some v \<Rightarrow> if is_open v then (row l)(k \<mapsto> stamp x v) else row l | None \<Rightarrow> row l)"
    and stamp_closes: "\<not> is_open (stamp x v)"
begin

lemma insert_grows: "ledger_grows is_open (row l) (row (snd (insert_row k v l)))"
  by (auto simp: ledger_grows_def insert_row)

lemma settle_grows: "ledger_grows is_open (row l) (row (snd (settle_row k x l)))"
  by (auto simp: ledger_grows_def settle_row stamp_closes split: option.splits)

abbreviation step where "step \<equiv> ledger_step insert_row settle_row"
abbreviation run where "run \<equiv> ledger_run insert_row settle_row"

lemma step_grows: "ledger_grows is_open (row l) (row (snd (step o' l)))"
  by (cases o') (simp_all add: insert_grows settle_grows)

lemma run_grows: "ledger_grows is_open (row l) (row (snd (run os l)))"
proof (induction os arbitrary: l)
  case (Cons o' os)
  show ?case
    using ledger_grows_trans [OF step_grows [of l o'] Cons [of "snd (step o' l)"]]
    by (simp add: case_prod_unfold Let_def)
qed simp

text \<open>Once a key is settled, no later operation on it succeeds.\<close>

lemma settled_blocks:
  "row l k = Some v \<Longrightarrow> \<not> is_open v \<Longrightarrow> run os l = (bs, l') \<Longrightarrow>
     (o', True) \<in> set (zip os bs) \<Longrightarrow> o' \<noteq> Settle k x \<and> o' \<noteq> Insert k w"
proof (induction os arbitrary: l bs)
  case (Cons p os)
  let ?l1 = "snd (step p l)"
  obtain bs1 where r: "run os ?l1 = (bs1, l')" and bs: "bs = fst (step p l) # bs1"
    using Cons.prems(3) by (auto simp: ledger_run_Cons simp del: ledger_run.simps)
  have l1: "row ?l1 k = Some v"
    by (rule ledger_grows_settled [OF step_grows Cons.prems(1,2)])
  have "fst (step p l) \<Longrightarrow> p \<noteq> Settle k x \<and> p \<noteq> Insert k w"
    using Cons.prems(1,2) by (auto simp: insert_result settle_result)
  with Cons.IH [OF l1 Cons.prems(2) r] Cons.prems(4) bs show ?case by auto
qed simp

lemma settle_succeeds_closes:
  "fst (settle_row k x l) \<Longrightarrow> \<exists>v. row (snd (settle_row k x l)) k = Some v \<and> \<not> is_open v"
  by (auto simp: settle_result settle_row stamp_closes)

text \<open>Over any run, at most one settlement of a key succeeds.\<close>

lemma settle_at_most_once:
  "run os l = (bs, l') \<Longrightarrow>
     length (filter (\<lambda>(o', b). b \<and> (\<exists>x. o' = Settle k x)) (zip os bs)) \<le> 1"
proof (induction os arbitrary: l bs)
  case (Cons p os)
  let ?l1 = "snd (step p l)"
  obtain bs1 where r: "run os ?l1 = (bs1, l')" and bs: "bs = fst (step p l) # bs1"
    using Cons.prems by (auto simp: ledger_run_Cons simp del: ledger_run.simps)
  show ?case
  proof (cases "fst (step p l) \<and> (\<exists>x. p = Settle k x)")
    case True
    then obtain x where p: "p = Settle k x" by blast
    with True obtain v where "row ?l1 k = Some v" "\<not> is_open v"
      using settle_succeeds_closes [of k x l] by auto
    from settled_blocks [OF this r]
    have "filter (\<lambda>(o', b). b \<and> (\<exists>x. o' = Settle k x)) (zip os bs1) = []"
      unfolding filter_empty_conv by fastforce
    then show ?thesis by (simp add: bs)
  next
    case False
    with Cons.IH [OF r] show ?thesis by (auto simp: bs)
  qed
qed simp

end

end
