(* ===== verification/GoStrings.thy ===== *)
theory GoStrings
  imports Prelude
begin

text \<open>
  The parts of Go's \<open>strings\<close>, \<open>slices\<close> and \<open>encoding/hex\<close> packages that the modelled code
  uses. A Go string is a \<open>string\<close> whose characters are its bytes.
\<close>

section \<open>Prefixes and cuts\<close>

definition HasPrefix :: "string \<Rightarrow> string \<Rightarrow> bool" where
  "HasPrefix s p \<longleftrightarrow> take (length p) s = p"

definition CutPrefix :: "string \<Rightarrow> string \<Rightarrow> string \<times> bool" where
  "CutPrefix s p = (if HasPrefix s p then (drop (length p) s, True) else (s, False))"

definition HasSuffix :: "string \<Rightarrow> string \<Rightarrow> bool" where
  "HasSuffix s p \<longleftrightarrow> HasPrefix (rev s) (rev p)"

text \<open>\<open>strings.Cut\<close> around a one-byte separator.\<close>

fun Cut :: "string \<Rightarrow> char \<Rightarrow> string \<times> string \<times> bool" where
  "Cut [] c = ([], [], False)"
| "Cut (x # xs) c = (if x = c then ([], xs, True)
     else (let (a, b, found) = Cut xs c in (x # a, b, found)))"

lemma HasPrefix_append [simp]: "HasPrefix (p @ s) p"
  by (simp add: HasPrefix_def)

lemma HasPrefix_iff: "HasPrefix s p \<longleftrightarrow> (\<exists>t. s = p @ t)"
  by (metis HasPrefix_append HasPrefix_def append_take_drop_id)

lemma HasSuffix_iff: "HasSuffix s p \<longleftrightarrow> (\<exists>t. s = t @ p)"
  by (auto simp: HasSuffix_def HasPrefix_iff) (metis rev_append rev_rev_ident)+

lemma CutPrefix_append [simp]: "CutPrefix (p @ s) p = (s, True)"
  by (simp add: CutPrefix_def)

lemma CutPrefix_True: "CutPrefix s p = (t, True) \<longleftrightarrow> s = p @ t"
  by (auto simp: CutPrefix_def HasPrefix_def) (metis append_take_drop_id)

lemma Cut_absent: "c \<notin> set s \<Longrightarrow> Cut s c = (s, [], False)"
  by (induction s) auto

lemma Cut_present: "c \<notin> set a \<Longrightarrow> Cut (a @ c # b) c = (a, b, True)"
  by (induction a) auto

lemma Cut_found: "Cut s c = (a, b, True) \<Longrightarrow> s = a @ c # b \<and> c \<notin> set a"
  by (induction s arbitrary: a) (auto split: if_split_asm prod.split_asm)

lemma Cut_not_found: "Cut s c = (a, b, False) \<Longrightarrow> a = s \<and> b = [] \<and> c \<notin> set s"
  by (induction s arbitrary: a) (auto split: if_split_asm prod.split_asm)

section \<open>Comparison\<close>

text \<open>\<open>strings.Compare\<close> compares by bytes.\<close>

definition Compare :: "string \<Rightarrow> string \<Rightarrow> int" where
  "Compare a b = (if a = b then 0 else if a < b then - 1 else 1)"

lemma Compare_zero [simp]: "Compare a b = 0 \<longleftrightarrow> a = b"
  by (simp add: Compare_def)

section \<open>Trimming\<close>

text \<open>
  The UTF-8 encodings of the runes \<open>unicode.IsSpace\<close> accepts: tab to carriage return and space,
  U+0085, U+00A0, U+1680, U+2000 to U+200A, U+2028, U+2029, U+202F, U+205F and U+3000.
\<close>

definition space_runes :: "string list" where
  "space_runes = map (map char_of) ([[9], [10], [11], [12], [13], [32], [0xC2, 0x85], [0xC2, 0xA0],
     [0xE1, 0x9A, 0x80]] @ map (\<lambda>b. [0xE2, 0x80, b]) ([0x80..<0x8B] @ [0xA8, 0xA9, 0xAF])
     @ [[0xE2, 0x81, 0x9F], [0xE3, 0x80, 0x80 :: nat]])"

fun strip_rune :: "string list \<Rightarrow> string \<Rightarrow> string option" where
  "strip_rune [] s = None"
| "strip_rune (r # rs) s = (if r \<noteq> [] \<and> HasPrefix s r then Some (drop (length r) s) else strip_rune rs s)"

lemma strip_rune_shorter: "strip_rune rs s = Some t \<Longrightarrow> length t < length s"
proof (induction rs)
  case (Cons r rs)
  show ?case
  proof (cases "r \<noteq> [] \<and> HasPrefix s r")
    case True
    with Cons.prems have "t = drop (length r) s" and "length r \<le> length s" and "0 < length r"
      by (auto simp: HasPrefix_iff)
    then show ?thesis unfolding \<open>t = drop (length r) s\<close> length_drop by arith
  qed (use Cons in auto)
qed simp

function trim_left :: "string list \<Rightarrow> string \<Rightarrow> string" where
  "trim_left rs s = (case strip_rune rs s of None \<Rightarrow> s | Some t \<Rightarrow> trim_left rs t)"
  by pat_completeness auto
termination by (relation "measure (\<lambda>(rs, s). length s)") (auto dest: strip_rune_shorter)

declare trim_left.simps [simp del]

definition TrimSpace :: "string \<Rightarrow> string" where
  "TrimSpace s = rev (trim_left (map rev space_runes) (rev (trim_left space_runes s)))"

lemma strip_rune_suffix: "strip_rune rs s = Some t \<Longrightarrow> \<exists>p. s = p @ t"
  by (induction rs) (auto simp: HasPrefix_iff split: if_split_asm)

lemma trim_left_fixed: "strip_rune rs (trim_left rs s) = None"
proof (induction rs s rule: trim_left.induct)
  case (1 rs s)
  show ?case by (cases "strip_rune rs s") (simp_all add: 1 trim_left.simps [of rs s])
qed

lemma trim_left_id: "strip_rune rs s = None \<Longrightarrow> trim_left rs s = s"
  by (simp add: trim_left.simps [of rs s])

lemma trim_left_suffix: "\<exists>p. s = p @ trim_left rs s"
proof (induction rs s rule: trim_left.induct)
  case (1 rs s)
  show ?case
  proof (cases "strip_rune rs s")
    case None
    then show ?thesis by (simp add: trim_left_id)
  next
    case (Some t)
    with strip_rune_suffix [OF Some] 1 [OF Some] show ?thesis
      by (metis append_assoc option.simps(5) trim_left.simps)
  qed
qed

lemma length_trim_left: "length (trim_left rs s) \<le> length s"
  using trim_left_suffix [of s rs] by (metis le_add2 length_append)

lemma length_TrimSpace: "length (TrimSpace s) \<le> length s"
  using length_trim_left [of "map rev space_runes" "rev (trim_left space_runes s)"]
    length_trim_left [of space_runes s] by (simp add: TrimSpace_def)

section \<open>Hexadecimal\<close>

definition hex_digits :: string where "hex_digits = ''0123456789abcdef''"

text \<open>\<open>hex.EncodeToString\<close>; a byte is a number below 256.\<close>

fun EncodeToString :: "nat list \<Rightarrow> string" where
  "EncodeToString [] = []"
| "EncodeToString (b # bs) = hex_digits ! (b div 16 mod 16) # hex_digits ! (b mod 16) # EncodeToString bs"

definition is_lower_hex :: "char \<Rightarrow> bool" where
  "is_lower_hex c \<longleftrightarrow> (CHR ''0'' \<le> c \<and> c \<le> CHR ''9'') \<or> (CHR ''a'' \<le> c \<and> c \<le> CHR ''f'')"

lemma hex_digits_props: "length hex_digits = 16" "distinct hex_digits" "\<forall>c \<in> set hex_digits. is_lower_hex c"
  by code_simp+

lemma length_EncodeToString [simp]: "length (EncodeToString bs) = 2 * length bs"
  by (induction bs) simp_all

lemma hex_digit_nth: "n < 16 \<Longrightarrow> is_lower_hex (hex_digits ! n)"
  using hex_digits_props by (metis nth_mem)

lemma EncodeToString_lower_hex: "c \<in> set (EncodeToString bs) \<Longrightarrow> is_lower_hex c"
  by (induction bs) (auto simp: hex_digit_nth)

lemma EncodeToString_inj:
  "\<forall>b \<in> set bs. b < 256 \<Longrightarrow> \<forall>b \<in> set cs. b < 256 \<Longrightarrow> EncodeToString bs = EncodeToString cs \<Longrightarrow> bs = cs"
proof (induction bs arbitrary: cs)
  case Nil
  then show ?case by (cases cs) simp_all
next
  case (Cons b bs)
  then obtain c cs' where cs: "cs = c # cs'" by (cases cs) auto
  have nth: "hex_digits ! i = hex_digits ! j \<longleftrightarrow> i = j" if "i < 16" "j < 16" for i j
    using hex_digits_props(1,2) that nth_eq_iff_index_eq by metis
  from Cons.prems cs have d: "b div 16 mod 16 = c div 16 mod 16" "b mod 16 = c mod 16"
    and bs: "EncodeToString bs = EncodeToString cs'"
    by (simp_all add: nth)
  from Cons.prems(1,2) cs have "b < 256" "c < 256" by simp_all
  then have "b div 16 mod 16 = b div 16" "c div 16 mod 16 = c div 16" by simp_all
  with d have "b = c" by (metis div_mult_mod_eq)
  with Cons.IH [OF _ _ bs] Cons.prems cs show ?case by simp
qed

end
