(* ===== verification/ContentAddr.thy ===== *)
theory ContentAddr
  imports GoStrings
begin

text \<open>
  \<open>daemon/internal/contentaddr/contentaddr.go\<close>: the strict parser of content addresses,
  \<open>sha256:\<close> and 64 lowercase hex digits. \<open>Sum\<close> is \<open>Format\<close> after SHA-256, which belongs to
  the standard library and is a parameter where it is used. A byte is a number below 256.
\<close>

definition prefix :: string where "prefix = ''sha256:''"

definition sha256_Size :: nat where "sha256_Size = 32"

definition hexLen :: nat where "hexLen = sha256_Size * 2"

text \<open>The range loop over the payload; for the bytes the loop accepts a rune is a byte.\<close>

fun all_lower_hex :: "string \<Rightarrow> bool" where
  "all_lower_hex [] = True"
| "all_lower_hex (c # s) = (if (c < CHR ''0'' \<or> CHR ''9'' < c) \<and> (c < CHR ''a'' \<or> CHR ''f'' < c)
     then False else all_lower_hex s)"

definition Parse :: "string \<Rightarrow> string \<times> bool" where
  "Parse raw = (let (s, ok) = CutPrefix raw prefix in
     if \<not> ok \<or> length s \<noteq> hexLen then ([], False)
     else if \<not> all_lower_hex s then ([], False)
     else (s, True))"

definition Valid :: "string \<Rightarrow> bool" where
  "Valid raw = snd (Parse raw)"

definition Format :: "nat list \<Rightarrow> err + string" where
  "Format digest = (if length digest \<noteq> sha256_Size
     then Inl (Panic ''contentaddr: sha256 sum must be exactly 32 bytes'')
     else Inr (prefix @ EncodeToString digest))"

definition Hex :: "string \<Rightarrow> string" where
  "Hex addr = fst (Parse addr)"

definition FromHex :: "string \<Rightarrow> string \<times> bool" where
  "FromHex digits = (let addr = prefix @ digits in if \<not> Valid addr then ([], False) else (addr, True))"

text \<open>\<open>isSHA256Digest\<close> of \<open>domain\<close> is \<open>Valid\<close>.\<close>

section \<open>Properties\<close>

lemma all_lower_hex_iff: "all_lower_hex s \<longleftrightarrow> (\<forall>c \<in> set s. is_lower_hex c)"
  by (induction s) (auto simp: is_lower_hex_def not_less)

lemma Parse_iff:
  "Parse raw = (h, True) \<longleftrightarrow> raw = prefix @ h \<and> length h = 64 \<and> (\<forall>c \<in> set h. is_lower_hex c)"
proof -
  obtain s ok where c: "CutPrefix raw prefix = (s, ok)" by fastforce
  show ?thesis
  proof (cases ok)
    case True
    with c have "raw = prefix @ s" by (simp add: CutPrefix_True)
    with c True show ?thesis
      by (auto simp: Parse_def hexLen_def sha256_Size_def all_lower_hex_iff)
  next
    case False
    with c have "raw \<noteq> prefix @ h" using CutPrefix_True [of raw prefix h] by auto
    with c False show ?thesis by (simp add: Parse_def)
  qed
qed

lemma Valid_iff: "Valid raw \<longleftrightarrow> (\<exists>h. raw = prefix @ h \<and> length h = 64 \<and> (\<forall>c \<in> set h. is_lower_hex c))"
proof -
  have "Valid raw \<longleftrightarrow> (\<exists>h. Parse raw = (h, True))"
    by (cases "Parse raw") (simp add: Valid_def)
  then show ?thesis by (simp only: Parse_iff)
qed

lemma Parse_False: "\<not> Valid raw \<Longrightarrow> Parse raw = ([], False)"
  by (auto simp: Valid_def Parse_def Let_def split: prod.splits if_splits)

text \<open>
  The accepted set is exactly \<open>sha256:\<close> followed by 64 lowercase hex digits; \<open>Hex\<close> and
  \<open>FromHex\<close> are inverse on it, and the hex of a rejected address is empty.
\<close>

theorem contentaddr_roundtrip:
  "(Valid addr \<longleftrightarrow> FromHex (Hex addr) = (addr, True))
   \<and> (FromHex h = (a, True) \<longleftrightarrow> Parse a = (h, True))
   \<and> Hex addr = (if Valid addr then fst (Parse addr) else [])"
proof (intro conjI)
  show "Valid addr \<longleftrightarrow> FromHex (Hex addr) = (addr, True)"
  proof
    assume v: "Valid addr"
    then obtain h where p: "Parse addr = (h, True)" by (cases "Parse addr") (simp add: Valid_def)
    then have "addr = prefix @ h" by (simp add: Parse_iff)
    with p v show "FromHex (Hex addr) = (addr, True)" by (simp add: FromHex_def Hex_def)
  qed (auto simp: FromHex_def Let_def split: if_splits)
  show "FromHex h = (a, True) \<longleftrightarrow> Parse a = (h, True)"
    by (auto simp: FromHex_def Let_def Parse_iff Valid_iff)
  show "Hex addr = (if Valid addr then fst (Parse addr) else [])"
    by (simp add: Hex_def Parse_False)
qed

text \<open>
  \<open>Format\<close> yields an address \<open>Parse\<close> accepts, for every 32-byte sum and no other, and two
  sums with one address are equal.
\<close>

theorem Format_canonical:
  assumes "Format digest = Inr addr" and "\<forall>b \<in> set digest. b < 256"
  shows "Parse addr = (EncodeToString digest, True) \<and> length digest = 32
    \<and> (\<forall>digest2. (\<forall>b \<in> set digest2. b < 256) \<longrightarrow> Format digest2 = Inr addr \<longrightarrow> digest2 = digest)"
  using assms by (auto simp: Format_def Parse_iff sha256_Size_def EncodeToString_lower_hex
      intro: EncodeToString_inj split: if_splits)

theorem Format_canonical_witness:
  "\<exists>addr. Format (replicate 32 171) = Inr addr \<and> Valid addr"
proof -
  have f: "Format (replicate 32 171) = Inr (prefix @ EncodeToString (replicate 32 171))"
    by (simp add: Format_def sha256_Size_def)
  from Format_canonical [OF this] f show ?thesis by (simp add: Valid_def)
qed

end
