(* ===== verification/GoTime.thy ===== *)
theory GoTime
  imports Prelude
begin

text \<open>
  The parts of Go's \<open>int64\<close> and \<open>time\<close> package that the modelled code uses. An
  \<open>int64\<close> is an \<open>int\<close> and every operation that can leave the range wraps explicitly
  (\<open>wrap64\<close>). A \<open>time.Time\<close> is an instant (nanoseconds since the Unix epoch, unbounded:
  Go keeps seconds and nanoseconds apart and covers every instant the code can name) and whether its
  location is \<open>time.UTC\<close>.
\<close>

named_theorems go_time \<open>unfoldings of time operations\<close>

section \<open>64-bit integers\<close>

definition max_int64 :: int where "max_int64 = 2 ^ 63 - 1"
definition min_int64 :: int where "min_int64 = - (2 ^ 63)"

definition wrap64 :: "int \<Rightarrow> int" where
  "wrap64 x = (x + 2 ^ 63) mod 2 ^ 64 - 2 ^ 63"

definition clamp64 :: "int \<Rightarrow> int" where
  "clamp64 x = (if x < min_int64 then min_int64 else if max_int64 < x then max_int64 else x)"

abbreviation is_int64 :: "int \<Rightarrow> bool" where
  "is_int64 x \<equiv> min_int64 \<le> x \<and> x \<le> max_int64"

lemma wrap64_id [simp]: "is_int64 x \<Longrightarrow> wrap64 x = x"
  by (simp add: wrap64_def min_int64_def max_int64_def)

lemma clamp64_id [simp]: "is_int64 x \<Longrightarrow> clamp64 x = x"
  by (simp add: clamp64_def)

lemma wrap64_range: "is_int64 (wrap64 x)"
proof -
  have "0 \<le> (x + 2 ^ 63) mod 2 ^ 64" "(x + 2 ^ 63) mod 2 ^ 64 < 2 ^ 64" by simp_all
  then show ?thesis unfolding wrap64_def min_int64_def max_int64_def by auto
qed

lemma wrap64_idem [simp]: "wrap64 (wrap64 x) = wrap64 x"
  by (rule wrap64_id [OF wrap64_range])

lemma clamp64_range: "is_int64 (clamp64 x)"
  by (simp add: clamp64_def min_int64_def max_int64_def)

lemma wrap64_inj_on: "is_int64 x \<Longrightarrow> is_int64 y \<Longrightarrow> wrap64 x = wrap64 y \<longleftrightarrow> x = y"
  by simp

section \<open>Instants\<close>

record gotime =
  unix_ns :: int
  is_utc :: bool

abbreviation second_ns :: int where "second_ns \<equiv> 1000000000"

text \<open>The zero \<open>time.Time\<close> is January 1, year 1, 00:00:00 UTC.\<close>

definition zero_ns :: int where "zero_ns = - 62135596800 * second_ns"

definition IsZero :: "gotime \<Rightarrow> bool" where "IsZero t \<longleftrightarrow> unix_ns t = zero_ns"

definition UTC :: "gotime \<Rightarrow> gotime" where "UTC t = t\<lparr>is_utc := True\<rparr>"

definition Equal :: "gotime \<Rightarrow> gotime \<Rightarrow> bool" where "Equal t u \<longleftrightarrow> unix_ns t = unix_ns u"
definition Before :: "gotime \<Rightarrow> gotime \<Rightarrow> bool" where "Before t u \<longleftrightarrow> unix_ns t < unix_ns u"
definition After :: "gotime \<Rightarrow> gotime \<Rightarrow> bool" where "After t u \<longleftrightarrow> unix_ns u < unix_ns t"

text \<open>\<open>Add\<close> keeps the location; \<open>Sub\<close> saturates at the \<open>Duration\<close> range.\<close>

definition Add :: "gotime \<Rightarrow> int \<Rightarrow> gotime" where "Add t d = t\<lparr>unix_ns := unix_ns t + d\<rparr>"
definition Sub :: "gotime \<Rightarrow> gotime \<Rightarrow> int" where "Sub t u = clamp64 (unix_ns t - unix_ns u)"

text \<open>
  \<open>UnixNano\<close> of an instant outside 1678..2262 is documented as undefined; the implementation
  wraps. \<open>UnixZero n\<close> is \<open>time.Unix(0, n).UTC()\<close>.
\<close>

definition UnixNano :: "gotime \<Rightarrow> int" where "UnixNano t = wrap64 (unix_ns t)"
definition UnixZero :: "int \<Rightarrow> gotime" where "UnixZero n = \<lparr>unix_ns = n, is_utc = True\<rparr>"

text \<open>\<open>MarshalJSON\<close> and RFC 3339 text cover the years 0 to 9999 and keep the instant.\<close>

definition rfc3339_ok :: "gotime \<Rightarrow> bool" where
  "rfc3339_ok t \<longleftrightarrow> - 62167219200 * second_ns \<le> unix_ns t \<and> unix_ns t < 253402300800 * second_ns"

lemma UTC_simps [simp]:
  "unix_ns (UTC t) = unix_ns t" "is_utc (UTC t)" "UTC (UTC t) = UTC t"
  by (simp_all add: UTC_def)

lemma UTC_id [simp]: "is_utc t \<Longrightarrow> UTC t = t"
  by (cases t) (simp add: UTC_def)

lemma Add_simps [simp]: "unix_ns (Add t d) = unix_ns t + d" "is_utc (Add t d) = is_utc t"
  by (simp_all add: Add_def)

lemma UnixZero_simps [simp]: "unix_ns (UnixZero n) = n" "is_utc (UnixZero n)"
  by (simp_all add: UnixZero_def)

lemma IsZero_UTC [simp]: "IsZero (UTC t) = IsZero t"
  by (simp add: IsZero_def)

lemma Equal_UTC [simp]: "Equal (UTC t) u = Equal t u" "Equal t (UTC u) = Equal t u"
  by (simp_all add: Equal_def)

lemma Equal_refl [simp]: "Equal t t"
  by (simp add: Equal_def)

lemma Equal_sym: "Equal t u \<Longrightarrow> Equal u t"
  by (simp add: Equal_def)

lemma Equal_trans: "Equal t u \<Longrightarrow> Equal u v \<Longrightarrow> Equal t v"
  by (simp add: Equal_def)

lemma Equal_utc_eq: "is_utc t \<Longrightarrow> is_utc u \<Longrightarrow> Equal t u \<longleftrightarrow> t = u"
  by (cases t; cases u) (simp add: Equal_def)

text \<open>Storing an instant as \<open>UnixNano\<close> and reading it back is exact in the representable range.\<close>

definition nano_range :: "gotime \<Rightarrow> bool" where
  "nano_range t \<longleftrightarrow> is_int64 (unix_ns t)"

lemma UnixZero_UnixNano: "nano_range t \<Longrightarrow> is_utc t \<Longrightarrow> UnixZero (UnixNano t) = t"
  by (cases t) (simp add: UnixZero_def UnixNano_def nano_range_def)

lemma UnixNano_UTC [simp]: "UnixNano (UTC t) = UnixNano t"
  by (simp add: UnixNano_def)

lemma nano_range_UTC [simp]: "nano_range (UTC t) = nano_range t"
  by (simp add: nano_range_def)

lemma UnixNano_le_iff:
  "nano_range t \<Longrightarrow> nano_range u \<Longrightarrow> UnixNano t \<le> UnixNano u \<longleftrightarrow> \<not> After t u"
  by (simp add: UnixNano_def nano_range_def After_def not_less)

lemma UnixNano_eq_iff:
  "nano_range t \<Longrightarrow> nano_range u \<Longrightarrow> UnixNano t = UnixNano u \<longleftrightarrow> Equal t u"
  by (simp add: UnixNano_def nano_range_def Equal_def)

lemmas time_order = Equal_def Before_def After_def
declare time_order [go_time] Add_def [go_time] IsZero_def [go_time]

section \<open>Pointers\<close>

text \<open>
  \<open>ptrEqual\<close> compares two optional values; \<open>timesEqual\<close> and \<open>timePtrEqual\<close> compare
  optional instants. A pointer is an \<open>option\<close>; \<open>clonePtr\<close> copies what it points to, which
  is the identity on values.
\<close>

definition ptrEqual :: "'a option \<Rightarrow> 'a option \<Rightarrow> bool" where
  "ptrEqual a b = (if (a = None) \<noteq> (b = None) then False
     else (case (a, b) of (Some x, Some y) \<Rightarrow> x = y | _ \<Rightarrow> True))"

definition timePtrEqual :: "gotime option \<Rightarrow> gotime option \<Rightarrow> bool" where
  "timePtrEqual a b = (if (a = None) \<noteq> (b = None) then False
     else (case (a, b) of (Some x, Some y) \<Rightarrow> Equal x y | _ \<Rightarrow> True))"

definition clonePtr :: "'a option \<Rightarrow> 'a option" where
  "clonePtr p = (case p of None \<Rightarrow> None | Some v \<Rightarrow> Some v)"

definition cloneUTC :: "gotime option \<Rightarrow> gotime option" where
  "cloneUTC p = (case p of None \<Rightarrow> None | Some t \<Rightarrow> Some (UTC t))"

lemma ptrEqual_iff [simp]: "ptrEqual a b \<longleftrightarrow> a = b"
  by (auto simp: ptrEqual_def split: option.splits)

lemma clonePtr_id [simp]: "clonePtr p = p"
  by (simp add: clonePtr_def split: option.splits)

lemma cloneUTC_map: "cloneUTC p = map_option UTC p"
  by (simp add: cloneUTC_def split: option.splits)

lemma timePtrEqual_simps [simp]:
  "timePtrEqual None b \<longleftrightarrow> b = None" "timePtrEqual a None \<longleftrightarrow> a = None"
  "timePtrEqual (Some x) (Some y) \<longleftrightarrow> Equal x y"
  by (auto simp: timePtrEqual_def split: option.splits)

lemma timePtrEqual_refl [simp]: "timePtrEqual a a"
  by (cases a) simp_all

lemma timePtrEqual_sym: "timePtrEqual a b \<Longrightarrow> timePtrEqual b a"
  by (cases a; cases b) (auto intro: Equal_sym)

lemma timePtrEqual_trans: "timePtrEqual a b \<Longrightarrow> timePtrEqual b c \<Longrightarrow> timePtrEqual a c"
  by (cases a; cases b; cases c) (auto intro: Equal_trans)

end
