(* ===== verification/ScheduleDomain.thy ===== *)
theory ScheduleDomain
  imports GoTime
begin

text \<open>
  \<open>daemon/internal/domain/schedule.go\<close>: the durable scheduler's vocabulary. A schedule is one
  durable deferred check; it is created armed at generation one (\<open>NewSchedule\<close>), ends a
  generation through \<open>Concluded\<close>, starts the next through \<open>ReArmed\<close>, and a stored schedule is
  only ever replaced by one that \<open>ValidateScheduleTransition\<close> accepts. An occurrence is one fire
  of a schedule, an event what a handler is given.

  Correspondence: the Go struct \<open>Schedule\<close> is the record \<open>schedule\<close> (field \<open>FireAt\<close> is
  \<open>sched_fire_at\<close> and so on), a pointer field is an option. Where \<open>Validate\<close> ranges over a Go
  map of named fields, the model checks the fields in source order: the iteration order decides only
  which sentinel is reported when several fields are bad, never whether one is
  (\<open>check_times_perm\<close>).
\<close>

section \<open>Enumerations\<close>

datatype ScheduleKind =
    SchedulePRChecksDeadline | ScheduleReviewWaitThreshold | ScheduleInstallationPoll
  | ScheduleDoctor | ScheduleJanitor | ScheduleImageUpkeep
  | ScheduleKindOther string

fun ScheduleKind_text :: "ScheduleKind \<Rightarrow> string" where
  "ScheduleKind_text SchedulePRChecksDeadline = ''pr_checks_deadline''"
| "ScheduleKind_text ScheduleReviewWaitThreshold = ''review_wait_threshold''"
| "ScheduleKind_text ScheduleInstallationPoll = ''installation_poll''"
| "ScheduleKind_text ScheduleDoctor = ''doctor''"
| "ScheduleKind_text ScheduleJanitor = ''janitor''"
| "ScheduleKind_text ScheduleImageUpkeep = ''image_upkeep''"
| "ScheduleKind_text (ScheduleKindOther s) = s"

definition AllScheduleKinds :: "ScheduleKind list" where
  "AllScheduleKinds = [SchedulePRChecksDeadline, ScheduleReviewWaitThreshold,
     ScheduleInstallationPoll, ScheduleDoctor, ScheduleJanitor, ScheduleImageUpkeep]"

fun ScheduleKind_valid :: "ScheduleKind \<Rightarrow> bool" where
  "ScheduleKind_valid (ScheduleKindOther _) = False"
| "ScheduleKind_valid _ = True"

interpretation kind_enum: string_enum ScheduleKind_text AllScheduleKinds ScheduleKindOther
proof
  fix k show "k \<in> set AllScheduleKinds \<or> (\<exists>s. k = ScheduleKindOther s)"
    by (cases k) (simp_all add: AllScheduleKinds_def)
qed (simp_all add: AllScheduleKinds_def)

fun TrustedConfigJob :: "ScheduleKind \<Rightarrow> bool" where
  "TrustedConfigJob ScheduleDoctor = True"
| "TrustedConfigJob ScheduleJanitor = True"
| "TrustedConfigJob ScheduleImageUpkeep = True"
| "TrustedConfigJob SchedulePRChecksDeadline = False"
| "TrustedConfigJob ScheduleReviewWaitThreshold = False"
| "TrustedConfigJob ScheduleInstallationPoll = False"
| "TrustedConfigJob (ScheduleKindOther _) = False"

fun OneShot :: "ScheduleKind \<Rightarrow> bool" where
  "OneShot SchedulePRChecksDeadline = True"
| "OneShot ScheduleReviewWaitThreshold = True"
| "OneShot ScheduleInstallationPoll = False"
| "OneShot ScheduleDoctor = False"
| "OneShot ScheduleJanitor = False"
| "OneShot ScheduleImageUpkeep = False"
| "OneShot (ScheduleKindOther _) = False"

datatype OperatingMode = ModeAttendedDev | ModeUnattended | OperatingModeOther string

fun OperatingMode_valid :: "OperatingMode \<Rightarrow> bool" where
  "OperatingMode_valid ModeAttendedDev = True"
| "OperatingMode_valid ModeUnattended = True"
| "OperatingMode_valid (OperatingModeOther _) = False"

definition EligibleIn :: "ScheduleKind \<Rightarrow> OperatingMode \<Rightarrow> bool" where
  "EligibleIn k mode = (if \<not> OperatingMode_valid mode then False else
     (case k of ScheduleDoctor \<Rightarrow> True | ScheduleJanitor \<Rightarrow> True | ScheduleImageUpkeep \<Rightarrow> True
      | SchedulePRChecksDeadline \<Rightarrow> True | ScheduleReviewWaitThreshold \<Rightarrow> True
      | ScheduleInstallationPoll \<Rightarrow> True
      | ScheduleKindOther _ \<Rightarrow> False))"

datatype ScheduleStatus =
    ScheduleArmed | ScheduleFired | ScheduleResolved | ScheduleExpired
  | ScheduleStatusOther string

fun ScheduleStatus_text :: "ScheduleStatus \<Rightarrow> string" where
  "ScheduleStatus_text ScheduleArmed = ''armed''"
| "ScheduleStatus_text ScheduleFired = ''fired''"
| "ScheduleStatus_text ScheduleResolved = ''resolved''"
| "ScheduleStatus_text ScheduleExpired = ''expired''"
| "ScheduleStatus_text (ScheduleStatusOther s) = s"

definition AllScheduleStatuses :: "ScheduleStatus list" where
  "AllScheduleStatuses = [ScheduleArmed, ScheduleFired, ScheduleResolved, ScheduleExpired]"

fun ScheduleStatus_valid :: "ScheduleStatus \<Rightarrow> bool" where
  "ScheduleStatus_valid (ScheduleStatusOther _) = False"
| "ScheduleStatus_valid _ = True"

interpretation status_enum: string_enum ScheduleStatus_text AllScheduleStatuses ScheduleStatusOther
proof
  fix k show "k \<in> set AllScheduleStatuses \<or> (\<exists>s. k = ScheduleStatusOther s)"
    by (cases k) (simp_all add: AllScheduleStatuses_def)
qed (simp_all add: AllScheduleStatuses_def)

fun Terminal :: "ScheduleStatus \<Rightarrow> bool" where
  "Terminal ScheduleFired = True"
| "Terminal ScheduleResolved = True"
| "Terminal ScheduleExpired = True"
| "Terminal ScheduleArmed = False"
| "Terminal (ScheduleStatusOther _) = False"

datatype ScheduleResolutionReason =
    ResolutionDeadlineElapsed | ResolutionConditionSatisfied | ResolutionSubjectConcluded
  | ResolutionIntentExpired | ResolutionReasonOther string

fun ScheduleResolutionReason_valid :: "ScheduleResolutionReason \<Rightarrow> bool" where
  "ScheduleResolutionReason_valid (ResolutionReasonOther _) = False"
| "ScheduleResolutionReason_valid _ = True"

definition allowedFor :: "ScheduleResolutionReason \<Rightarrow> ScheduleStatus \<Rightarrow> bool" where
  "allowedFor r status = (case status of
     ScheduleFired \<Rightarrow> r = ResolutionDeadlineElapsed
   | ScheduleResolved \<Rightarrow> r = ResolutionConditionSatisfied \<or> r = ResolutionSubjectConcluded
   | ScheduleExpired \<Rightarrow> r = ResolutionIntentExpired
   | ScheduleArmed \<Rightarrow> False
   | ScheduleStatusOther _ \<Rightarrow> False)"

record ScheduleResolution =
  res_reason :: ScheduleResolutionReason
  res_recorded_at :: gotime

datatype ScheduleSubjectType =
    ScheduleSubjectAttentionItem | ScheduleSubjectInstallationIntent
  | ScheduleSubjectTrustedConfig | ScheduleSubjectOther string

fun ScheduleSubjectType_valid :: "ScheduleSubjectType \<Rightarrow> bool" where
  "ScheduleSubjectType_valid (ScheduleSubjectOther _) = False"
| "ScheduleSubjectType_valid _ = True"

definition subjectType :: "ScheduleKind \<Rightarrow> ScheduleSubjectType" where
  "subjectType k = (case k of
     SchedulePRChecksDeadline \<Rightarrow> ScheduleSubjectAttentionItem
   | ScheduleReviewWaitThreshold \<Rightarrow> ScheduleSubjectAttentionItem
   | ScheduleInstallationPoll \<Rightarrow> ScheduleSubjectInstallationIntent
   | ScheduleDoctor \<Rightarrow> ScheduleSubjectTrustedConfig
   | ScheduleJanitor \<Rightarrow> ScheduleSubjectTrustedConfig
   | ScheduleImageUpkeep \<Rightarrow> ScheduleSubjectTrustedConfig
   | ScheduleKindOther _ \<Rightarrow> ScheduleSubjectOther [])"

section \<open>Subjects\<close>

record ScheduleSubject =
  subj_type :: ScheduleSubjectType
  subj_item_id :: "string option"
  subj_item_version :: "int option"
  subj_registration_id :: "int option"
  subj_active_epoch :: "int option"
  subj_durable_intent_revision :: "int option"

text \<open>\<open>requireDetail\<close>: a field is present exactly when its class wants it.\<close>

definition requireDetail :: "bool \<Rightarrow> bool \<Rightarrow> err option" where
  "requireDetail present want = (if present = want then None
     else if want then Some ErrScheduleDetailMismatch else Some ErrScheduleDetailMismatch)"

lemma requireDetail_None [simp, validation]: "requireDetail present want = None \<longleftrightarrow> present = want"
  by (simp add: requireDetail_def)

lemma no_panic_requireDetail [simp]: "no_panic (requireDetail p w)"
  by (simp add: requireDetail_def)

definition check_subject_fields :: "ScheduleSubject \<Rightarrow> bool \<Rightarrow> bool \<Rightarrow> err option" where
  "check_subject_fields s wantItem wantIntent = first_error [
     requireDetail (subj_item_id s \<noteq> None) wantItem,
     requireDetail (subj_item_version s \<noteq> None) wantItem,
     requireDetail (subj_registration_id s \<noteq> None) wantIntent,
     requireDetail (subj_active_epoch s \<noteq> None) wantIntent,
     requireDetail (subj_durable_intent_revision s \<noteq> None) wantIntent]"

definition ScheduleSubject_Validate :: "ScheduleSubject \<Rightarrow> err option" where
  "ScheduleSubject_Validate s = (case subj_type s of
     ScheduleSubjectAttentionItem \<Rightarrow> first_error [
       check_subject_fields s True False,
       deref (subj_item_id s) (\<lambda>i. require (i \<noteq> []) ErrEmptyID),
       deref (subj_item_version s) (\<lambda>v. require (1 \<le> v) ErrNonPositive)]
   | ScheduleSubjectInstallationIntent \<Rightarrow> first_error [
       check_subject_fields s False True,
       deref (subj_registration_id s) (\<lambda>v. require (0 < v) ErrNonPositive),
       deref (subj_active_epoch s) (\<lambda>v. require (0 < v) ErrNonPositive),
       deref (subj_durable_intent_revision s) (\<lambda>v. require (0 < v) ErrNonPositive)]
   | ScheduleSubjectTrustedConfig \<Rightarrow> check_subject_fields s False False
   | ScheduleSubjectOther _ \<Rightarrow> Some ErrInvalidScheduleSubjectType)"

definition cloneSubject :: "ScheduleSubject \<Rightarrow> ScheduleSubject" where
  "cloneSubject s = s\<lparr>subj_item_id := clonePtr (subj_item_id s),
     subj_item_version := clonePtr (subj_item_version s),
     subj_registration_id := clonePtr (subj_registration_id s),
     subj_active_epoch := clonePtr (subj_active_epoch s),
     subj_durable_intent_revision := clonePtr (subj_durable_intent_revision s)\<rparr>"

definition subjectsEqual :: "ScheduleSubject \<Rightarrow> ScheduleSubject \<Rightarrow> bool" where
  "subjectsEqual a b \<longleftrightarrow> subj_type a = subj_type b
     \<and> ptrEqual (subj_item_id a) (subj_item_id b)
     \<and> ptrEqual (subj_item_version a) (subj_item_version b)
     \<and> ptrEqual (subj_registration_id a) (subj_registration_id b)
     \<and> ptrEqual (subj_active_epoch a) (subj_active_epoch b)
     \<and> ptrEqual (subj_durable_intent_revision a) (subj_durable_intent_revision b)"

lemma cloneSubject_id [simp]: "cloneSubject s = s"
  by (simp add: cloneSubject_def)

lemma subjectsEqual_iff [simp]: "subjectsEqual a b \<longleftrightarrow> a = b"
  by (cases a; cases b) (auto simp: subjectsEqual_def)

section \<open>Schedules\<close>

record Schedule =
  sched_id :: string
  sched_project_id :: string
  sched_kind :: ScheduleKind
  sched_subject :: ScheduleSubject
  sched_run_id :: "string option"
  sched_policy_digest :: "string option"
  sched_generation :: int
  sched_created_at :: gotime
  sched_fire_at :: "gotime option"
  sched_interval_seconds :: "int option"
  sched_expires_at :: "gotime option"
  sched_status :: ScheduleStatus
  sched_resolution :: "ScheduleResolution option"

definition requireOptionalBinding :: "bool \<Rightarrow> bool \<Rightarrow> err option" where
  "requireOptionalBinding present want = (if present = want then None
     else if want then Some ErrScheduleDetailMismatch else Some ErrScheduleDetailMismatch)"

lemma requireOptionalBinding_None [simp, validation]:
  "requireOptionalBinding present want = None \<longleftrightarrow> present = want"
  by (simp add: requireOptionalBinding_def)

lemma no_panic_requireOptionalBinding [simp]: "no_panic (requireOptionalBinding p w)"
  by (simp add: requireOptionalBinding_def)

definition check_time :: "gotime \<Rightarrow> err option" where
  "check_time t = first_error [require (\<not> IsZero t) ErrMissingTimestamp,
     require (is_utc t) ErrTimestampNotUTC]"

text \<open>The loop over a map of named optional timestamps.\<close>

definition check_times :: "gotime option list \<Rightarrow> err option" where
  "check_times ts = first_error (map (\<lambda>t. when_ptr t check_time) ts)"

definition requiresPolicy :: "ScheduleKind \<Rightarrow> bool" where
  "requiresPolicy k = (case k of
     SchedulePRChecksDeadline \<Rightarrow> True | ScheduleReviewWaitThreshold \<Rightarrow> True
   | ScheduleInstallationPoll \<Rightarrow> False | ScheduleDoctor \<Rightarrow> False | ScheduleJanitor \<Rightarrow> False
   | ScheduleImageUpkeep \<Rightarrow> False | ScheduleKindOther _ \<Rightarrow> False)"

definition check_expiry :: "Schedule \<Rightarrow> err option" where
  "check_expiry s = (case sched_kind s of
     ScheduleInstallationPoll \<Rightarrow> require (sched_expires_at s \<noteq> None) ErrScheduleDetailMismatch
   | SchedulePRChecksDeadline \<Rightarrow> require (sched_expires_at s = None) ErrScheduleDetailMismatch
   | ScheduleReviewWaitThreshold \<Rightarrow> require (sched_expires_at s = None) ErrScheduleDetailMismatch
   | ScheduleDoctor \<Rightarrow> require (sched_expires_at s = None) ErrScheduleDetailMismatch
   | ScheduleJanitor \<Rightarrow> require (sched_expires_at s = None) ErrScheduleDetailMismatch
   | ScheduleImageUpkeep \<Rightarrow> require (sched_expires_at s = None) ErrScheduleDetailMismatch
   | ScheduleKindOther _ \<Rightarrow> None)"

definition Schedule_Validate :: "Schedule \<Rightarrow> err option" where
  "Schedule_Validate s = first_error [
     require (sched_id s \<noteq> []) ErrEmptyID,
     require (sched_project_id s \<noteq> []) ErrEmptyID,
     require (ScheduleKind_valid (sched_kind s)) ErrInvalidScheduleKind,
     ScheduleSubject_Validate (sched_subject s),
     require (subj_type (sched_subject s) = subjectType (sched_kind s)) ErrScheduleDetailMismatch,
     requireOptionalBinding (sched_run_id s \<noteq> None) (requiresPolicy (sched_kind s)),
     requireOptionalBinding (sched_policy_digest s \<noteq> None) (requiresPolicy (sched_kind s)),
     when_ptr (sched_run_id s) (\<lambda>r. require (r \<noteq> []) ErrEmptyID),
     when_ptr (sched_policy_digest s) (\<lambda>d. require (d \<noteq> []) ErrEmptyField),
     require (1 \<le> sched_generation s) ErrNonPositive,
     require (ScheduleStatus_valid (sched_status s)) ErrInvalidScheduleStatus,
     check_times [Some (sched_created_at s), sched_fire_at s, sched_expires_at s],
     requireDetail (sched_fire_at s \<noteq> None) (OneShot (sched_kind s)),
     requireDetail (sched_interval_seconds s \<noteq> None) (\<not> OneShot (sched_kind s)),
     when_ptr (sched_interval_seconds s) (\<lambda>i. require (0 < i) ErrNonPositive),
     check_expiry s,
     require (Terminal (sched_status s) = (sched_resolution s \<noteq> None)) ErrScheduleDetailMismatch,
     when_ptr (sched_resolution s) (\<lambda>r. first_error [
       require (ScheduleResolutionReason_valid (res_reason r)) ErrInvalidScheduleResolution,
       require (allowedFor (res_reason r) (sched_status s)) ErrInvalidScheduleResolution,
       require (\<not> IsZero (res_recorded_at r)) ErrMissingTimestamp,
       require (is_utc (res_recorded_at r)) ErrTimestampNotUTC]),
     require (\<not> (sched_status s = ScheduleFired \<and> \<not> OneShot (sched_kind s)))
       ErrInvalidScheduleStatus,
     require (\<not> (sched_status s = ScheduleExpired \<and> OneShot (sched_kind s)))
       ErrInvalidScheduleStatus,
     require (\<not> (Terminal (sched_status s) \<and> TrustedConfigJob (sched_kind s)))
       ErrInvalidScheduleStatus]"

record ScheduleInput =
  in_id :: string
  in_project_id :: string
  in_kind :: ScheduleKind
  in_subject :: ScheduleSubject
  in_run_id :: "string option"
  in_policy_digest :: "string option"
  in_created_at :: gotime
  in_fire_at :: "gotime option"
  in_interval_seconds :: "int option"
  in_expires_at :: "gotime option"

definition NewSchedule :: "ScheduleInput \<Rightarrow> err + Schedule" where
  "NewSchedule i = (let s = \<lparr>sched_id = in_id i, sched_project_id = in_project_id i,
       sched_kind = in_kind i, sched_subject = cloneSubject (in_subject i),
       sched_run_id = clonePtr (in_run_id i), sched_policy_digest = clonePtr (in_policy_digest i),
       sched_generation = 1, sched_created_at = UTC (in_created_at i),
       sched_fire_at = cloneUTC (in_fire_at i),
       sched_interval_seconds = clonePtr (in_interval_seconds i),
       sched_expires_at = cloneUTC (in_expires_at i),
       sched_status = ScheduleArmed, sched_resolution = None\<rparr>
     in of_err (Schedule_Validate s) s)"

definition Concluded ::
  "Schedule \<Rightarrow> ScheduleStatus \<Rightarrow> ScheduleResolutionReason \<Rightarrow> gotime \<Rightarrow> err + Schedule" where
  "Concluded s status reason recordedAt =
     (if Terminal (sched_status s) then Inl ErrImmutableTransition
      else let out = s\<lparr>sched_status := status,
             sched_resolution := Some \<lparr>res_reason = reason, res_recorded_at = UTC recordedAt\<rparr>\<rparr>
        in of_err (Schedule_Validate out) out)"

definition ReArmed ::
  "Schedule \<Rightarrow> ScheduleSubject \<Rightarrow> gotime option \<Rightarrow> gotime \<Rightarrow> err + Schedule" where
  "ReArmed s subject fireAt armedAt =
     (let out = s\<lparr>sched_generation := wrap64 (sched_generation s + 1),
        sched_subject := cloneSubject subject, sched_fire_at := cloneUTC fireAt,
        sched_created_at := UTC armedAt, sched_status := ScheduleArmed,
        sched_resolution := None\<rparr>
      in of_err (Schedule_Validate out) out)"

definition resolutionEqual :: "ScheduleResolution option \<Rightarrow> ScheduleResolution option \<Rightarrow> bool" where
  "resolutionEqual a b = (if (a = None) \<noteq> (b = None) then False
     else (case (a, b) of (Some x, Some y) \<Rightarrow>
             res_reason x = res_reason y \<and> Equal (res_recorded_at x) (res_recorded_at y)
           | _ \<Rightarrow> True))"

definition schedulesEqual :: "Schedule \<Rightarrow> Schedule \<Rightarrow> bool" where
  "schedulesEqual a b \<longleftrightarrow> sched_id a = sched_id b \<and> sched_project_id a = sched_project_id b
     \<and> sched_kind a = sched_kind b \<and> subjectsEqual (sched_subject a) (sched_subject b)
     \<and> ptrEqual (sched_run_id a) (sched_run_id b)
     \<and> ptrEqual (sched_policy_digest a) (sched_policy_digest b)
     \<and> sched_generation a = sched_generation b
     \<and> Equal (sched_created_at a) (sched_created_at b)
     \<and> timePtrEqual (sched_fire_at a) (sched_fire_at b)
     \<and> ptrEqual (sched_interval_seconds a) (sched_interval_seconds b)
     \<and> timePtrEqual (sched_expires_at a) (sched_expires_at b)
     \<and> sched_status a = sched_status b
     \<and> resolutionEqual (sched_resolution a) (sched_resolution b)"

definition ValidateScheduleTransition :: "Schedule \<Rightarrow> Schedule \<Rightarrow> err option" where
  "ValidateScheduleTransition old new =
     (if sched_id old \<noteq> sched_id new \<or> sched_kind old \<noteq> sched_kind new
        \<or> sched_project_id old \<noteq> sched_project_id new
        \<or> subj_type (sched_subject old) \<noteq> subj_type (sched_subject new)
        \<or> \<not> ptrEqual (sched_run_id old) (sched_run_id new)
        \<or> \<not> ptrEqual (sched_policy_digest old) (sched_policy_digest new)
      then Some ErrImmutableTransition
      else if sched_generation new = sched_generation old then
        (if schedulesEqual old new then None
         else if Terminal (sched_status old) then Some ErrImmutableTransition
         else if \<not> Terminal (sched_status new) then Some ErrStaleTransition
         else let armed = new\<lparr>sched_status := sched_status old,
                sched_resolution := sched_resolution old\<rparr>
           in if \<not> schedulesEqual old armed then Some ErrImmutableTransition else None)
      else if sched_generation new = wrap64 (sched_generation old + 1) then
        (if sched_status new \<noteq> ScheduleArmed then Some ErrStaleTransition else None)
      else Some ErrStaleTransition)"

section \<open>Occurrences and events\<close>

record ScheduleFireGap =
  gap_missed_occurrences :: int
  gap_earliest_missed_at :: gotime

definition ScheduleFireGap_Validate :: "ScheduleFireGap \<Rightarrow> err option" where
  "ScheduleFireGap_Validate g = first_error [
     require (1 \<le> gap_missed_occurrences g) ErrNonPositive,
     require (\<not> IsZero (gap_earliest_missed_at g)) ErrMissingTimestamp,
     require (is_utc (gap_earliest_missed_at g)) ErrTimestampNotUTC]"

datatype ScheduleOccurrenceStatus =
    OccurrencePending | OccurrenceConsumed | OccurrenceStatusOther string

fun ScheduleOccurrenceStatus_valid :: "ScheduleOccurrenceStatus \<Rightarrow> bool" where
  "ScheduleOccurrenceStatus_valid OccurrencePending = True"
| "ScheduleOccurrenceStatus_valid OccurrenceConsumed = True"
| "ScheduleOccurrenceStatus_valid (OccurrenceStatusOther _) = False"

datatype ScheduleOccurrenceOutcome =
    OutcomeHandled | OutcomeConditionNoLongerApplies | OutcomeReArmed | OutcomeCoalesced
  | OutcomeStaleGeneration | OutcomeObserveFailed | OutcomeOther string

fun ScheduleOccurrenceOutcome_valid :: "ScheduleOccurrenceOutcome \<Rightarrow> bool" where
  "ScheduleOccurrenceOutcome_valid (OutcomeOther _) = False"
| "ScheduleOccurrenceOutcome_valid _ = True"

record ScheduleOccurrence =
  occ_schedule_id :: string
  occ_generation :: int
  occ_nominal_fire_at :: gotime
  occ_gap :: "ScheduleFireGap option"
  occ_status :: ScheduleOccurrenceStatus
  occ_created_at :: gotime
  occ_consumed_at :: "gotime option"
  occ_outcome :: "ScheduleOccurrenceOutcome option"

definition ScheduleOccurrence_Validate :: "ScheduleOccurrence \<Rightarrow> err option" where
  "ScheduleOccurrence_Validate o' = first_error [
     require (occ_schedule_id o' \<noteq> []) ErrEmptyID,
     require (1 \<le> occ_generation o') ErrNonPositive,
     require (ScheduleOccurrenceStatus_valid (occ_status o')) ErrInvalidScheduleOccurrenceStatus,
     check_times [Some (occ_nominal_fire_at o'), Some (occ_created_at o'), occ_consumed_at o'],
     when_ptr (occ_gap o') (\<lambda>g. first_error [
       ScheduleFireGap_Validate g,
       require (Before (gap_earliest_missed_at g) (occ_nominal_fire_at o')) ErrTimestampOutOfOrder]),
     require ((occ_consumed_at o' \<noteq> None) = (occ_status o' = OccurrenceConsumed)
         \<and> (occ_outcome o' \<noteq> None) = (occ_status o' = OccurrenceConsumed))
       ErrScheduleDetailMismatch,
     when_ptr (occ_outcome o')
       (\<lambda>out. require (ScheduleOccurrenceOutcome_valid out) ErrInvalidScheduleOccurrenceOutcome)]"

record ScheduleEvent =
  ev_schedule_id :: string
  ev_project_id :: string
  ev_kind :: ScheduleKind
  ev_generation :: int
  ev_subject :: ScheduleSubject
  ev_nominal_fire_at :: gotime
  ev_fired_at :: gotime
  ev_gap :: "ScheduleFireGap option"

definition ScheduleEvent_Validate :: "ScheduleEvent \<Rightarrow> err option" where
  "ScheduleEvent_Validate e = first_error [
     require (ev_schedule_id e \<noteq> []) ErrEmptyID,
     require (ev_project_id e \<noteq> []) ErrEmptyID,
     require (ScheduleKind_valid (ev_kind e)) ErrInvalidScheduleKind,
     require (1 \<le> ev_generation e) ErrNonPositive,
     ScheduleSubject_Validate (ev_subject e),
     require (subj_type (ev_subject e) = subjectType (ev_kind e)) ErrScheduleDetailMismatch,
     check_times [Some (ev_nominal_fire_at e), Some (ev_fired_at e)],
     when_ptr (ev_gap e) ScheduleFireGap_Validate]"

definition NewScheduleEvent ::
  "Schedule \<Rightarrow> ScheduleOccurrence \<Rightarrow> gotime \<Rightarrow> err + ScheduleEvent" where
  "NewScheduleEvent s o' firedAt =
     (let ev = \<lparr>ev_schedule_id = sched_id s, ev_project_id = sched_project_id s,
        ev_kind = sched_kind s, ev_generation = sched_generation s,
        ev_subject = cloneSubject (sched_subject s), ev_nominal_fire_at = occ_nominal_fire_at o',
        ev_fired_at = UTC firedAt, ev_gap = clonePtr (occ_gap o')\<rparr>
      in of_err (first_error [
           Schedule_Validate s,
           ScheduleOccurrence_Validate o',
           require (sched_status s = ScheduleArmed) ErrInvalidScheduleStatus,
           require (\<not> (occ_schedule_id o' \<noteq> sched_id s \<or> occ_generation o' \<noteq> sched_generation s))
             ErrParentKeyMismatch,
           require (occ_status o' = OccurrencePending) ErrInvalidScheduleOccurrenceStatus,
           ScheduleEvent_Validate ev]) ev)"

section \<open>Validity\<close>

lemmas schedule_validation =
  Schedule_Validate_def ScheduleSubject_Validate_def check_subject_fields_def check_times_def
  check_time_def check_expiry_def

lemma check_times_None [validation]:
  "check_times ts = None \<longleftrightarrow> (\<forall>t. Some t \<in> set ts \<longrightarrow> \<not> IsZero t \<and> is_utc t)"
  by (auto simp: check_times_def check_time_def first_error_None_iff when_ptr_def
      first_error_Cons_None split: option.splits)

text \<open>Whether a set of named timestamps passes does not depend on the iteration order.\<close>

lemma check_times_perm: "set ts = set us \<Longrightarrow> check_times ts = None \<longleftrightarrow> check_times us = None"
  by (simp add: check_times_None)

lemma no_panic_check_times [simp]: "no_panic (check_times ts)"
  by (induction ts)
    (auto simp: check_times_def check_time_def when_ptr_def no_panic_def first_error_Cons_Some
      validation split: option.splits)

lemma no_panic_check_subject_fields [simp]: "no_panic (check_subject_fields s a b)"
  by (simp add: check_subject_fields_def)

lemma check_subject_fields_None [validation]:
  "check_subject_fields s a b = None \<longleftrightarrow>
     (subj_item_id s \<noteq> None) = a \<and> (subj_item_version s \<noteq> None) = a
     \<and> (subj_registration_id s \<noteq> None) = b \<and> (subj_active_epoch s \<noteq> None) = b
     \<and> (subj_durable_intent_revision s \<noteq> None) = b"
  by (simp add: check_subject_fields_def validation)

lemma no_panic_subject: "no_panic (ScheduleSubject_Validate s)"
  by (auto simp: ScheduleSubject_Validate_def validation split: ScheduleSubjectType.split)

lemma subject_valid_type: "ScheduleSubject_Validate s = None \<Longrightarrow> ScheduleSubjectType_valid (subj_type s)"
  by (cases "subj_type s") (simp_all add: ScheduleSubject_Validate_def)

lemma ScheduleKind_valid_iff: "ScheduleKind_valid k \<longleftrightarrow> k \<in> set AllScheduleKinds"
  by (cases k) (simp_all add: AllScheduleKinds_def)

lemma ScheduleStatus_valid_iff: "ScheduleStatus_valid k \<longleftrightarrow> k \<in> set AllScheduleStatuses"
  by (cases k) (simp_all add: AllScheduleStatuses_def)

lemma allowedFor_valid: "allowedFor r st \<Longrightarrow> ScheduleResolutionReason_valid r"
  by (cases r) (auto simp: allowedFor_def split: ScheduleStatus.splits)

lemma allowedFor_Terminal: "allowedFor r st \<Longrightarrow> Terminal st"
  by (cases st) (auto simp: allowedFor_def)

text \<open>The verdict of \<open>Validate\<close> as one conjunction.\<close>

lemma Schedule_Validate_None: 
  "Schedule_Validate s = None \<longleftrightarrow> 
   (sched_id s \<noteq> [] \<and> sched_project_id s \<noteq> [] \<and> ScheduleKind_valid (sched_kind s)
    \<and> ScheduleSubject_Validate (sched_subject s) = None
    \<and> subj_type (sched_subject s) = subjectType (sched_kind s)
    \<and> (sched_run_id s \<noteq> None) = requiresPolicy (sched_kind s)
    \<and> (sched_policy_digest s \<noteq> None) = requiresPolicy (sched_kind s)
    \<and> (\<forall>r. sched_run_id s = Some r \<longrightarrow> r \<noteq> []) \<and> (\<forall>d. sched_policy_digest s = Some d \<longrightarrow> d \<noteq> [])
    \<and> 1 \<le> sched_generation s \<and> ScheduleStatus_valid (sched_status s)
    \<and> (\<forall>t. t = sched_created_at s \<or> Some t = sched_fire_at s \<or> Some t = sched_expires_at s
         \<longrightarrow> \<not> IsZero t \<and> is_utc t)
    \<and> (sched_fire_at s \<noteq> None) = OneShot (sched_kind s)
    \<and> (sched_interval_seconds s \<noteq> None) = (\<not> OneShot (sched_kind s))
    \<and> (\<forall>i. sched_interval_seconds s = Some i \<longrightarrow> 0 < i)
    \<and> check_expiry s = None
    \<and> Terminal (sched_status s) = (sched_resolution s \<noteq> None)
    \<and> (\<forall>r. sched_resolution s = Some r \<longrightarrow> ScheduleResolutionReason_valid (res_reason r)
         \<and> allowedFor (res_reason r) (sched_status s) \<and> \<not> IsZero (res_recorded_at r)
         \<and> is_utc (res_recorded_at r))
    \<and> \<not> (sched_status s = ScheduleFired \<and> \<not> OneShot (sched_kind s))
    \<and> \<not> (sched_status s = ScheduleExpired \<and> OneShot (sched_kind s))
    \<and> \<not> (Terminal (sched_status s) \<and> TrustedConfigJob (sched_kind s)))"
  unfolding Schedule_Validate_def first_error_Cons_None require_None when_ptr_None
     requireDetail_None requireOptionalBinding_None check_times_None first_error.simps(1) simp_thms
  by (simp only: list.set insert_iff empty_iff option.inject simp_thms)

text \<open>
  The facts of a valid schedule that the scheduler and the store use.
\<close>

lemma valid_scheduleD:
  assumes "Schedule_Validate s = None"
  shows "sched_id s \<noteq> []" "sched_project_id s \<noteq> []" "ScheduleKind_valid (sched_kind s)"
    "ScheduleSubject_Validate (sched_subject s) = None"
    "subj_type (sched_subject s) = subjectType (sched_kind s)"
    "1 \<le> sched_generation s" "ScheduleStatus_valid (sched_status s)"
    "\<not> IsZero (sched_created_at s)" "is_utc (sched_created_at s)"
    "sched_fire_at s \<noteq> None \<longleftrightarrow> OneShot (sched_kind s)"
    "sched_interval_seconds s \<noteq> None \<longleftrightarrow> \<not> OneShot (sched_kind s)"
    "sched_run_id s \<noteq> None \<longleftrightarrow> requiresPolicy (sched_kind s)"
    "sched_policy_digest s \<noteq> None \<longleftrightarrow> requiresPolicy (sched_kind s)"
    "Terminal (sched_status s) \<longleftrightarrow> sched_resolution s \<noteq> None"
    "\<And>t. sched_fire_at s = Some t \<Longrightarrow> \<not> IsZero t \<and> is_utc t"
    "\<And>t. sched_expires_at s = Some t \<Longrightarrow> \<not> IsZero t \<and> is_utc t"
    "\<And>i. sched_interval_seconds s = Some i \<Longrightarrow> 0 < i"
    "\<And>r. sched_resolution s = Some r \<Longrightarrow>
       allowedFor (res_reason r) (sched_status s) \<and> \<not> IsZero (res_recorded_at r)
       \<and> is_utc (res_recorded_at r)"
    "\<not> (Terminal (sched_status s) \<and> TrustedConfigJob (sched_kind s))"
  using assms by (simp_all only: Schedule_Validate_None) blast+

text \<open>
  One table says what every kind of schedule may carry: its subject class, whether it is bound to a
  run's policy, whether it is a deadline (one fire) or a cadence, whether it expires, and the pairs
  of terminal status and reason that can end it. The code spreads this over seven switches.
\<close>

record kind_contract =
  kc_subject :: ScheduleSubjectType
  kc_policy_bound :: bool
  kc_deadline :: bool
  kc_expiring :: bool
  kc_endings :: "(ScheduleStatus \<times> ScheduleResolutionReason) list"

fun contract_of :: "ScheduleKind \<Rightarrow> kind_contract option" where
  "contract_of (ScheduleKindOther _) = None"
| "contract_of ScheduleInstallationPoll = Some \<lparr>kc_subject = ScheduleSubjectInstallationIntent,
     kc_policy_bound = False, kc_deadline = False, kc_expiring = True,
     kc_endings = [(ScheduleResolved, ResolutionConditionSatisfied),
       (ScheduleResolved, ResolutionSubjectConcluded), (ScheduleExpired, ResolutionIntentExpired)]\<rparr>"
| "contract_of k = (if k = SchedulePRChecksDeadline \<or> k = ScheduleReviewWaitThreshold
     then Some \<lparr>kc_subject = ScheduleSubjectAttentionItem, kc_policy_bound = True,
       kc_deadline = True, kc_expiring = False,
       kc_endings = [(ScheduleFired, ResolutionDeadlineElapsed),
         (ScheduleResolved, ResolutionConditionSatisfied),
         (ScheduleResolved, ResolutionSubjectConcluded)]\<rparr>
     else Some \<lparr>kc_subject = ScheduleSubjectTrustedConfig, kc_policy_bound = False,
       kc_deadline = False, kc_expiring = False, kc_endings = []\<rparr>)"

definition stamped :: "gotime \<Rightarrow> bool" where
  "stamped t \<longleftrightarrow> \<not> IsZero t \<and> is_utc t"

definition conforms :: "kind_contract \<Rightarrow> Schedule \<Rightarrow> bool" where
  "conforms c s \<longleftrightarrow> sched_id s \<noteq> [] \<and> sched_project_id s \<noteq> [] \<and> 1 \<le> sched_generation s
     \<and> subj_type (sched_subject s) = kc_subject c \<and> ScheduleSubject_Validate (sched_subject s) = None
     \<and> (if kc_policy_bound c
        then (\<exists>r d. sched_run_id s = Some r \<and> r \<noteq> [] \<and> sched_policy_digest s = Some d \<and> d \<noteq> [])
        else sched_run_id s = None \<and> sched_policy_digest s = None)
     \<and> stamped (sched_created_at s)
     \<and> (if kc_deadline c
        then (\<exists>t. sched_fire_at s = Some t \<and> stamped t) \<and> sched_interval_seconds s = None
        else sched_fire_at s = None \<and> (\<exists>i. sched_interval_seconds s = Some i \<and> 0 < i))
     \<and> (if kc_expiring c then (\<exists>t. sched_expires_at s = Some t \<and> stamped t)
        else sched_expires_at s = None)
     \<and> (sched_status s = ScheduleArmed \<and> sched_resolution s = None
        \<or> (\<exists>r. sched_resolution s = Some r \<and> (sched_status s, res_reason r) \<in> set (kc_endings c)
             \<and> stamped (res_recorded_at r)))"

lemma subjectType_contract:
  "contract_of k = Some c \<Longrightarrow> subjectType k = kc_subject c \<and> OneShot k = kc_deadline c
     \<and> requiresPolicy k = kc_policy_bound c \<and> ScheduleKind_valid k
     \<and> TrustedConfigJob k = (kc_endings c = [])"
  by (cases k) (auto simp: subjectType_def requiresPolicy_def)

lemma check_expiry_contract:
  "contract_of (sched_kind s) = Some c \<Longrightarrow>
     check_expiry s = None \<longleftrightarrow> (sched_expires_at s \<noteq> None) = kc_expiring c"
  by (cases "sched_kind s") (auto simp: check_expiry_def)

lemma endings_contract:
  "contract_of k = Some c \<Longrightarrow> (st, r) \<in> set (kc_endings c) \<longleftrightarrow>
     allowedFor r st \<and> \<not> (st = ScheduleFired \<and> \<not> OneShot k) \<and> \<not> (st = ScheduleExpired \<and> OneShot k)
     \<and> \<not> TrustedConfigJob k"
  by (cases k; cases st) (auto simp: allowedFor_def)

lemma contract_of_valid: "ScheduleKind_valid k \<longleftrightarrow> contract_of k \<noteq> None"
  by (cases k) auto

lemma status_armed_iff: "ScheduleStatus_valid st \<Longrightarrow> \<not> Terminal st \<longleftrightarrow> st = ScheduleArmed"
  by (cases st) auto

lemma ending_condition:
  assumes "contract_of k = Some c"
  shows "(ScheduleStatus_valid st \<and> (Terminal st \<longleftrightarrow> res \<noteq> None)
      \<and> (\<forall>r. res = Some r \<longrightarrow> ScheduleResolutionReason_valid (res_reason r)
           \<and> allowedFor (res_reason r) st \<and> stamped (res_recorded_at r))
      \<and> (st = ScheduleFired \<longrightarrow> OneShot k) \<and> (st = ScheduleExpired \<longrightarrow> \<not> OneShot k)
      \<and> (Terminal st \<longrightarrow> \<not> TrustedConfigJob k))
    \<longleftrightarrow> (st = ScheduleArmed \<and> res = None
        \<or> (\<exists>r. res = Some r \<and> (st, res_reason r) \<in> set (kc_endings c) \<and> stamped (res_recorded_at r)))"
proof (cases res)
  case None
  then show ?thesis by (cases st) auto
next
  case (Some r)
  have "allowedFor (res_reason r) st \<Longrightarrow> ScheduleStatus_valid st"
    by (cases st) (simp_all add: allowedFor_def)
  with Some show ?thesis
    using endings_contract [OF assms, of st "res_reason r"] allowedFor_valid [of "res_reason r" st]
      allowedFor_Terminal [of "res_reason r" st]
    by auto
qed

lemma policy_group:
  "((r \<noteq> None) = b \<and> (d \<noteq> None) = b \<and> (\<forall>x. r = Some x \<longrightarrow> x \<noteq> []) \<and> (\<forall>x. d = Some x \<longrightarrow> x \<noteq> []))
   \<longleftrightarrow> (if b then (\<exists>x y. r = Some x \<and> x \<noteq> [] \<and> d = Some y \<and> y \<noteq> []) else r = None \<and> d = None)"
  by (cases r; cases d) auto

lemma cadence_group:
  "((f \<noteq> None) = b \<and> (i \<noteq> None) = (\<not> b) \<and> (\<forall>x. i = Some x \<longrightarrow> 0 < x) \<and> (\<forall>t. f = Some t \<longrightarrow> stamped t))
   \<longleftrightarrow> (if b then (\<exists>t. f = Some t \<and> stamped t) \<and> i = None
       else f = None \<and> (\<exists>x. i = Some (x::int) \<and> 0 < x))"
  by (cases f; cases i) auto

lemma expiry_group:
  "((e \<noteq> None) = b \<and> (\<forall>t. e = Some t \<longrightarrow> stamped t))
   \<longleftrightarrow> (if b then (\<exists>t. e = Some t \<and> stamped t) else e = None)"
  by (cases e) auto

lemma times_group:
  "(\<forall>t. t = a \<or> Some t = f \<or> Some t = e \<longrightarrow> Q t)
   \<longleftrightarrow> Q a \<and> (\<forall>t. f = Some t \<longrightarrow> Q t) \<and> (\<forall>t. e = Some t \<longrightarrow> Q t)"
  by auto

lemma contract_regroup:
  "k \<Longrightarrow> (a \<and> b \<and> k \<and> sv \<and> st \<and> p1 \<and> p2 \<and> p3 \<and> p4 \<and> g \<and> ss \<and> (c1 \<and> f \<and> e) \<and> d1 \<and> d2 \<and> d3 \<and> x
      \<and> t1 \<and> t2 \<and> \<not> (u \<and> \<not> o1) \<and> \<not> (v \<and> o1) \<and> \<not> (w \<and> j))
    \<longleftrightarrow> (a \<and> b \<and> g \<and> st \<and> sv \<and> (p1 \<and> p2 \<and> p3 \<and> p4) \<and> c1 \<and> (d1 \<and> d2 \<and> d3 \<and> f) \<and> (x \<and> e)
      \<and> ss \<and> t1 \<and> t2 \<and> (u \<longrightarrow> o1) \<and> (v \<longrightarrow> \<not> o1) \<and> (w \<longrightarrow> \<not> j))"
  by argo

text \<open>
  A schedule passes \<open>Validate\<close> exactly when its kind is registered and it conforms to that
  kind's contract: subject class, policy binding, deadline or cadence, expiry, and the permitted
  endings, each with set UTC instants.
\<close>

theorem Schedule_Validate_contract:
  "Schedule_Validate s = None \<longleftrightarrow> (\<exists>c. contract_of (sched_kind s) = Some c \<and> conforms c s)"
proof (cases "contract_of (sched_kind s)")
  case None
  then have "\<not> ScheduleKind_valid (sched_kind s)" by (simp add: contract_of_valid)
  with None show ?thesis by (simp add: Schedule_Validate_None)
next
  case (Some c)
  from subjectType_contract [OF Some]
  have c: "subjectType (sched_kind s) = kc_subject c" "OneShot (sched_kind s) = kc_deadline c"
      "requiresPolicy (sched_kind s) = kc_policy_bound c" and v: "ScheduleKind_valid (sched_kind s)"
    by simp_all
  have "Schedule_Validate s = None \<longleftrightarrow> conforms c s"
    unfolding conforms_def ending_condition [OF Some, symmetric] policy_group [symmetric]
      cadence_group [symmetric] expiry_group [symmetric] Schedule_Validate_None times_group
    unfolding stamped_def c check_expiry_contract [OF Some]
    by (rule contract_regroup [OF v])
  with Some show ?thesis by simp
qed

text \<open>
  \<open>Validate\<close> never dereferences a nil pointer, whatever the schedule carries: each
  dereference is behind a check of the same pointer.
\<close>

theorem Schedule_Validate_no_panic: "no_panic (Schedule_Validate s)"
  by (auto simp: Schedule_Validate_def no_panic_subject check_expiry_def
      split: ScheduleKind.split)

section \<open>Constructors and transitions\<close>

lemma resolutionEqual_refl [simp]: "resolutionEqual a a"
  by (cases a) (simp_all add: resolutionEqual_def)

lemma schedulesEqual_refl [simp]: "schedulesEqual a a"
  by (simp add: schedulesEqual_def)

lemma resolutionEqual_sym: "resolutionEqual a b \<Longrightarrow> resolutionEqual b a"
  by (cases a; cases b) (auto simp: resolutionEqual_def Equal_def)

lemma resolutionEqual_trans: "resolutionEqual a b \<Longrightarrow> resolutionEqual b c \<Longrightarrow> resolutionEqual a c"
  by (cases a; cases b; cases c) (auto simp: resolutionEqual_def Equal_def)

lemma schedulesEqual_trans: "schedulesEqual a b \<Longrightarrow> schedulesEqual b c \<Longrightarrow> schedulesEqual a c"
  by (auto simp: schedulesEqual_def intro: Equal_trans timePtrEqual_trans resolutionEqual_trans)

lemma timePtrEqual_utc_eq:
  "(\<And>t. a = Some t \<Longrightarrow> is_utc t) \<Longrightarrow> (\<And>t. b = Some t \<Longrightarrow> is_utc t) \<Longrightarrow>
     timePtrEqual a b \<longleftrightarrow> a = b"
  by (cases a; cases b) (auto simp: Equal_utc_eq)

lemma resolutionEqual_utc_eq:
  "(\<And>t. a = Some t \<Longrightarrow> is_utc (res_recorded_at t)) \<Longrightarrow>
   (\<And>t. b = Some t \<Longrightarrow> is_utc (res_recorded_at t)) \<Longrightarrow> resolutionEqual a b \<longleftrightarrow> a = b"
  by (cases a; cases b) (auto simp: resolutionEqual_def Equal_utc_eq)

text \<open>On valid schedules the code's \<open>schedulesEqual\<close> is equality.\<close>

lemma schedulesEqual_valid_eq:
  assumes "Schedule_Validate a = None" and "Schedule_Validate b = None"
  shows "schedulesEqual a b \<longleftrightarrow> a = b"
proof
  assume eq: "schedulesEqual a b"
  note va = valid_scheduleD [OF assms(1)] and vb = valid_scheduleD [OF assms(2)]
  have "sched_created_at a = sched_created_at b" "sched_fire_at a = sched_fire_at b"
    "sched_expires_at a = sched_expires_at b" "sched_resolution a = sched_resolution b"
    using eq va(9) vb(9) timePtrEqual_utc_eq [of "sched_fire_at a" "sched_fire_at b"] va(15) vb(15)
      timePtrEqual_utc_eq [of "sched_expires_at a" "sched_expires_at b"] va(16) vb(16)
      resolutionEqual_utc_eq [of "sched_resolution a" "sched_resolution b"] va(18) vb(18)
    by (auto simp: schedulesEqual_def Equal_utc_eq)
  with eq show "a = b" by (cases a; cases b) (simp add: schedulesEqual_def)
qed simp

lemma Concluded_Inr:
  "Concluded s st r t = Inr s' \<longleftrightarrow> \<not> Terminal (sched_status s)
     \<and> s' = s\<lparr>sched_status := st,
             sched_resolution := Some \<lparr>res_reason = r, res_recorded_at = UTC t\<rparr>\<rparr>
     \<and> Schedule_Validate s' = None"
  by (auto simp: Concluded_def Let_def of_err_Inr_iff)

lemma ReArmed_Inr:
  "ReArmed s subj f t = Inr s' \<longleftrightarrow>
     s' = s\<lparr>sched_generation := wrap64 (sched_generation s + 1), sched_subject := subj,
            sched_fire_at := map_option UTC f, sched_created_at := UTC t,
            sched_status := ScheduleArmed, sched_resolution := None\<rparr>
     \<and> Schedule_Validate s' = None"
  by (auto simp: ReArmed_def Let_def of_err_Inr_iff cloneUTC_map)

text \<open>
  \<open>NewSchedule\<close> only ever returns a valid, armed, generation-one schedule without a
  resolution, for the instants the caller named whatever their location.
\<close>

theorem NewSchedule_armed:
  assumes "NewSchedule i = Inr s"
  shows "Schedule_Validate s = None \<and> sched_status s = ScheduleArmed \<and> sched_generation s = 1
    \<and> sched_resolution s = None \<and> sched_id s = in_id i \<and> sched_kind s = in_kind i
    \<and> Equal (sched_created_at s) (in_created_at i) \<and> timePtrEqual (sched_fire_at s) (in_fire_at i)"
proof -
  have "timePtrEqual (map_option UTC p) p" for p by (cases p) simp_all
  with assms show ?thesis
    by (auto simp: NewSchedule_def Let_def of_err_Inr_iff cloneUTC_map)
qed

text \<open>
  \<open>Concluded\<close> ends the current generation of an armed schedule with a valid terminal value
  that the transition validator accepts; it never ends a schedule twice.
\<close>

theorem Concluded_accepted:
  assumes "Schedule_Validate s = None" and "Concluded s st r t = Inr s'"
  shows "sched_status s = ScheduleArmed \<and> Schedule_Validate s' = None
    \<and> Terminal (sched_status s') \<and> sched_generation s' = sched_generation s
    \<and> ValidateScheduleTransition s s' = None"
proof -
  from assms(2) have s': "s' = s\<lparr>sched_status := st,
      sched_resolution := Some \<lparr>res_reason = r, res_recorded_at = UTC t\<rparr>\<rparr>"
    and v': "Schedule_Validate s' = None" and nt: "\<not> Terminal (sched_status s)"
    unfolding Concluded_Inr by blast+
  from nt valid_scheduleD(7) [OF assms(1)] have a: "sched_status s = ScheduleArmed"
    by (simp add: status_armed_iff)
  from nt valid_scheduleD(14) [OF assms(1)] have n: "sched_resolution s = None" by simp
  have t': "Terminal (sched_status s')" using valid_scheduleD(14) [OF v'] s' by simp
  have e: "s'\<lparr>sched_status := sched_status s, sched_resolution := sched_resolution s\<rparr> = s"
    using s' a n by simp
  have "ValidateScheduleTransition s s' = None"
    unfolding ValidateScheduleTransition_def Let_def e using nt t' by (simp add: s')
  then show ?thesis using a v' t' s' by simp
qed

lemma wrap64_Suc_ge: "is_int64 g \<Longrightarrow> 1 \<le> wrap64 (g + 1) \<Longrightarrow> wrap64 (g + 1) = g + 1"
  by (cases "g = max_int64") (auto simp: wrap64_def min_int64_def max_int64_def)

text \<open>
  \<open>ReArmed\<close> starts exactly the next generation, armed and valid, and the transition validator
  accepts it; at the largest \<open>int64\<close> generation it is refused instead of wrapping round.
\<close>

theorem ReArmed_accepted:
  assumes "Schedule_Validate s = None" and "is_int64 (sched_generation s)"
    and "ReArmed s subj f t = Inr s'"
  shows "Schedule_Validate s' = None \<and> sched_status s' = ScheduleArmed
    \<and> sched_generation s' = sched_generation s + 1
    \<and> ValidateScheduleTransition s s' = None"
proof -
  from assms(3) have s': "s' = s\<lparr>sched_generation := wrap64 (sched_generation s + 1),
      sched_subject := subj, sched_fire_at := map_option UTC f, sched_created_at := UTC t,
      sched_status := ScheduleArmed, sched_resolution := None\<rparr>"
    and v': "Schedule_Validate s' = None" unfolding ReArmed_Inr by blast+
  have g: "wrap64 (sched_generation s + 1) = sched_generation s + 1"
    using wrap64_Suc_ge [OF assms(2)] valid_scheduleD(6) [OF v'] s' by simp
  have "subj_type subj = subj_type (sched_subject s)"
    using valid_scheduleD(5) [OF v'] valid_scheduleD(5) [OF assms(1)] s' by simp
  with g s' v' show ?thesis by (simp add: ValidateScheduleTransition_def)
qed

text \<open>The armed fields a conclusion must keep.\<close>

lemma conclusion_shape:
  assumes "schedulesEqual old (new\<lparr>sched_status := sched_status old, sched_resolution := sched_resolution old\<rparr>)"
    and "Schedule_Validate old = None" and "Schedule_Validate new = None"
  shows "new = old\<lparr>sched_status := sched_status new, sched_resolution := sched_resolution new\<rparr>"
proof -
  note vo = valid_scheduleD [OF assms(2)] and vn = valid_scheduleD [OF assms(3)]
  have "sched_created_at old = sched_created_at new" "sched_fire_at old = sched_fire_at new"
    "sched_expires_at old = sched_expires_at new"
    using assms(1) vo(9) vn(9)
      timePtrEqual_utc_eq [of "sched_fire_at old" "sched_fire_at new"] vo(15) vn(15)
      timePtrEqual_utc_eq [of "sched_expires_at old" "sched_expires_at new"] vo(16) vn(16)
    by (auto simp: schedulesEqual_def Equal_utc_eq)
  with assms(1) show ?thesis by (cases old; cases new) (simp add: schedulesEqual_def)
qed

text \<open>
  C36: between valid values the transition validator accepts nothing but an identical replay, a
  conclusion \<open>Concluded\<close> could have made, or a re-arm \<open>ReArmed\<close> could have made of the same
  schedule with another interval or expiry.
\<close>

theorem ValidateScheduleTransition_complete:
  assumes "Schedule_Validate old = None" and "Schedule_Validate new = None"
    and "ValidateScheduleTransition old new = None"
  shows "new = old
    \<or> (\<exists>st r t. Concluded old st r t = Inr new)
    \<or> (sched_generation new = wrap64 (sched_generation old + 1) \<and> sched_status new = ScheduleArmed
       \<and> (\<exists>i e. ReArmed (old\<lparr>sched_interval_seconds := i, sched_expires_at := e\<rparr>)
            (sched_subject new) (sched_fire_at new) (sched_created_at new) = Inr new))"
proof (cases "sched_generation new = sched_generation old")
  case True
  with assms(3) consider (same) "schedulesEqual old new"
    | (concl) "\<not> Terminal (sched_status old)" "Terminal (sched_status new)"
        "schedulesEqual old (new\<lparr>sched_status := sched_status old, sched_resolution := sched_resolution old\<rparr>)"
    by (auto simp: ValidateScheduleTransition_def Let_def split: if_splits)
  then show ?thesis
  proof cases
    case same
    with schedulesEqual_valid_eq [OF assms(1,2)] show ?thesis by simp
  next
    case concl
    note vn = valid_scheduleD [OF assms(2)]
    from concl(2) vn(14) obtain r where r: "sched_resolution new = Some r" by auto
    with vn(18) have "r = \<lparr>res_reason = res_reason r, res_recorded_at = UTC (res_recorded_at r)\<rparr>"
      by (cases r) auto
    with r conclusion_shape [OF concl(3) assms(1,2)] concl(1) assms(2)
    have "Concluded old (sched_status new) (res_reason r) (res_recorded_at r) = Inr new"
      by (simp add: Concluded_Inr)
    then show ?thesis by blast
  qed
next
  case False
  note vn = valid_scheduleD [OF assms(2)]
  from False assms(3) have g: "sched_generation new = wrap64 (sched_generation old + 1)"
    and st: "sched_status new = ScheduleArmed" and ids: "sched_id old = sched_id new"
      "sched_kind old = sched_kind new" "sched_project_id old = sched_project_id new"
      "sched_run_id old = sched_run_id new" "sched_policy_digest old = sched_policy_digest new"
    by (auto simp: ValidateScheduleTransition_def split: if_splits)
  have res: "sched_resolution new = None" using vn(14) st by simp
  have utc: "map_option UTC (sched_fire_at new) = sched_fire_at new"
    "UTC (sched_created_at new) = sched_created_at new"
    using vn(9,15) by (cases "sched_fire_at new"; simp)+
  have "ReArmed (old\<lparr>sched_interval_seconds := sched_interval_seconds new,
      sched_expires_at := sched_expires_at new\<rparr>) (sched_subject new) (sched_fire_at new)
      (sched_created_at new) = Inr new"
    unfolding ReArmed_Inr using g st res utc ids assms(2) by (cases old; cases new) simp
  with g st show ?thesis by blast
qed

lemma occurrence_valid_None:
  "ScheduleOccurrence_Validate oc = None \<longleftrightarrow>
     occ_schedule_id oc \<noteq> [] \<and> 1 \<le> occ_generation oc
     \<and> ScheduleOccurrenceStatus_valid (occ_status oc)
     \<and> (\<forall>t. t = occ_nominal_fire_at oc \<or> t = occ_created_at oc \<or> Some t = occ_consumed_at oc
          \<longrightarrow> \<not> IsZero t \<and> is_utc t)
     \<and> (\<forall>g. occ_gap oc = Some g \<longrightarrow> ScheduleFireGap_Validate g = None
          \<and> Before (gap_earliest_missed_at g) (occ_nominal_fire_at oc))
     \<and> (occ_consumed_at oc \<noteq> None) = (occ_status oc = OccurrenceConsumed)
     \<and> (occ_outcome oc \<noteq> None) = (occ_status oc = OccurrenceConsumed)
     \<and> (\<forall>u. occ_outcome oc = Some u \<longrightarrow> ScheduleOccurrenceOutcome_valid u)"
  unfolding ScheduleOccurrence_Validate_def first_error_Cons_None require_None when_ptr_None
    check_times_None first_error.simps(1) simp_thms
  by (simp only: list.set insert_iff empty_iff option.inject simp_thms conj_assoc)

lemma event_valid_None:
  "ScheduleEvent_Validate e = None \<longleftrightarrow>
     ev_schedule_id e \<noteq> [] \<and> ev_project_id e \<noteq> [] \<and> ScheduleKind_valid (ev_kind e)
     \<and> 1 \<le> ev_generation e \<and> ScheduleSubject_Validate (ev_subject e) = None
     \<and> subj_type (ev_subject e) = subjectType (ev_kind e)
     \<and> (\<forall>t. t = ev_nominal_fire_at e \<or> t = ev_fired_at e \<longrightarrow> \<not> IsZero t \<and> is_utc t)
     \<and> (\<forall>g. ev_gap e = Some g \<longrightarrow> ScheduleFireGap_Validate g = None)"
  unfolding ScheduleEvent_Validate_def first_error_Cons_None require_None when_ptr_None
    check_times_None first_error.simps(1) simp_thms
  by (simp only: list.set insert_iff empty_iff option.inject simp_thms)

text \<open>
  The trusted constructor builds an event exactly from a valid armed schedule and its own valid
  pending occurrence, at a set instant; nothing else yields one.
\<close>

theorem NewScheduleEvent_iff:
  "NewScheduleEvent s oc firedAt = Inr ev \<longleftrightarrow>
     Schedule_Validate s = None \<and> ScheduleOccurrence_Validate oc = None
     \<and> sched_status s = ScheduleArmed \<and> occ_status oc = OccurrencePending
     \<and> occ_schedule_id oc = sched_id s \<and> occ_generation oc = sched_generation s
     \<and> \<not> IsZero firedAt
     \<and> ev = \<lparr>ev_schedule_id = sched_id s, ev_project_id = sched_project_id s,
         ev_kind = sched_kind s, ev_generation = sched_generation s, ev_subject = sched_subject s,
         ev_nominal_fire_at = occ_nominal_fire_at oc, ev_fired_at = UTC firedAt,
         ev_gap = occ_gap oc\<rparr>"
    (is "_ \<longleftrightarrow> ?v \<and> ?o \<and> ?a \<and> ?p \<and> ?i \<and> ?g \<and> ?z \<and> ev = ?ev")
proof -
  have ev: "ScheduleEvent_Validate ?ev = None \<longleftrightarrow> ?z" if v: ?v and o': ?o
  proof -
    from o' have gap: "\<forall>g. occ_gap oc = Some g \<longrightarrow> ScheduleFireGap_Validate g = None"
      and nom: "\<not> IsZero (occ_nominal_fire_at oc) \<and> is_utc (occ_nominal_fire_at oc)"
      unfolding occurrence_valid_None by blast+
    show ?thesis
      unfolding event_valid_None using gap nom valid_scheduleD(1-6) [OF v] by simp
  qed
  have "NewScheduleEvent s oc firedAt = Inr ev \<longleftrightarrow>
      ?v \<and> ?o \<and> ?a \<and> (?i \<and> ?g) \<and> ?p \<and> ScheduleEvent_Validate ?ev = None \<and> ev = ?ev"
    unfolding NewScheduleEvent_def Let_def of_err_Inr_iff first_error_Cons_None require_None
      cloneSubject_id clonePtr_id first_error.simps(1) simp_thms de_Morgan_disj not_not conj_assoc ..
  with ev show ?thesis by metis
qed

section \<open>Examples\<close>

text \<open>A one-shot deadline and a recurring poll, for the witnesses here and in the scheduler.\<close>

definition example_deadline :: Schedule where
  "example_deadline = \<lparr>sched_id = ''pr-checks/item-1'', sched_project_id = ''project-1'',
     sched_kind = SchedulePRChecksDeadline,
     sched_subject = \<lparr>subj_type = ScheduleSubjectAttentionItem, subj_item_id = Some ''item-1'',
       subj_item_version = Some 1, subj_registration_id = None, subj_active_epoch = None,
       subj_durable_intent_revision = None\<rparr>,
     sched_run_id = Some ''run-1'', sched_policy_digest = Some ''sha256:ab'',
     sched_generation = 1, sched_created_at = UnixZero 0, sched_fire_at = Some (UnixZero 3600),
     sched_interval_seconds = None, sched_expires_at = None,
     sched_status = ScheduleArmed, sched_resolution = None\<rparr>"

definition example_poll :: Schedule where
  "example_poll = \<lparr>sched_id = ''installation/1'', sched_project_id = ''project-1'',
     sched_kind = ScheduleInstallationPoll,
     sched_subject = \<lparr>subj_type = ScheduleSubjectInstallationIntent, subj_item_id = None,
       subj_item_version = None, subj_registration_id = Some 7, subj_active_epoch = Some 1,
       subj_durable_intent_revision = Some 3\<rparr>,
     sched_run_id = None, sched_policy_digest = None,
     sched_generation = 1, sched_created_at = UnixZero 0, sched_fire_at = None,
     sched_interval_seconds = Some 30, sched_expires_at = Some (UnixZero (86400 * second_ns)),
     sched_status = ScheduleArmed, sched_resolution = None\<rparr>"

lemma example_valid: "Schedule_Validate example_deadline = None" "Schedule_Validate example_poll = None"
  by code_simp+
lemma example_concluded:
  "Concluded example_deadline ScheduleFired ResolutionDeadlineElapsed (UnixZero 3700) =
   Inr (example_deadline\<lparr>sched_status := ScheduleFired, sched_resolution :=
      Some \<lparr>res_reason = ResolutionDeadlineElapsed, res_recorded_at = UnixZero 3700\<rparr>\<rparr>)"
  by code_simp
lemma example_rearmed: "ReArmed example_poll (sched_subject example_poll) None (UnixZero 5) =
   Inr (example_poll\<lparr>sched_generation := 2, sched_created_at := UnixZero 5\<rparr>)"
  by code_simp

theorem NewSchedule_armed_witness:
  "\<exists>i s. NewSchedule i = Inr s \<and> sched_status s = ScheduleArmed \<and> sched_generation s = 1"
proof -
  have "\<not> isl (NewSchedule \<lparr>in_id = ''d'', in_project_id = ''p'', in_kind = ScheduleDoctor,
      in_subject = \<lparr>subj_type = ScheduleSubjectTrustedConfig, subj_item_id = None,
        subj_item_version = None, subj_registration_id = None, subj_active_epoch = None,
        subj_durable_intent_revision = None\<rparr>,
      in_run_id = None, in_policy_digest = None,
      in_created_at = \<lparr>unix_ns = 5, is_utc = False\<rparr>, in_fire_at = None,
      in_interval_seconds = Some 60, in_expires_at = None\<rparr>)" (is "\<not> isl (NewSchedule ?i)")
    by code_simp
  then obtain s where "NewSchedule ?i = Inr s" by (cases "NewSchedule ?i") auto
  from this NewSchedule_armed [OF this] show ?thesis by blast
qed

theorem Concluded_accepted_witness:
  "\<exists>s'. Concluded example_deadline ScheduleFired ResolutionDeadlineElapsed (UnixZero 3700) = Inr s'
     \<and> ValidateScheduleTransition example_deadline s' = None"
  using Concluded_accepted [OF example_valid(1) example_concluded] example_concluded by blast

theorem ReArmed_accepted_witness:
  "\<exists>s'. ReArmed example_poll (sched_subject example_poll) None (UnixZero 5) = Inr s'
     \<and> sched_generation s' = 2"
proof -
  have "is_int64 (sched_generation example_poll)" by code_simp
  from ReArmed_accepted [OF example_valid(2) this example_rearmed] example_rearmed
  show ?thesis by (simp add: example_poll_def)
qed

theorem ValidateScheduleTransition_complete_witness:
  "\<exists>s'. ValidateScheduleTransition example_deadline s' = None \<and> s' \<noteq> example_deadline
     \<and> (\<exists>st r t. Concluded example_deadline st r t = Inr s')"
proof -
  let ?s' = "example_deadline\<lparr>sched_status := ScheduleFired, sched_resolution :=
      Some \<lparr>res_reason = ResolutionDeadlineElapsed, res_recorded_at = UnixZero 3700\<rparr>\<rparr>"
  have v: "Schedule_Validate ?s' = None" and t: "ValidateScheduleTransition example_deadline ?s' = None"
    and d: "?s' \<noteq> example_deadline"
    by code_simp+
  have g: "sched_generation ?s' \<noteq> wrap64 (sched_generation example_deadline + 1)" by code_simp
  from ValidateScheduleTransition_complete [OF example_valid(1) v t] d g t show ?thesis by blast
qed

end
