(* ===== verification/StoreKernel.thy ===== *)
theory StoreKernel
  imports GoTime
begin

text \<open>
  \<open>daemon/internal/store/kernel.go\<close> and the transaction kernel of \<open>tx.go\<close>: encoding and decoding
  of bodies, the mapping of transition errors, row scans, write-once rows and timestamp columns.

  A body is the value it encodes: marshalling fails for a value outside what \<open>encoding/json\<close> and
  RFC 3339 represent (the predicate \<open>marshals\<close> of each aggregate) and otherwise two bodies are
  byte-identical exactly when the values are equal. A timestamp column holds the instant
  \<open>formatTime\<close> wrote.
\<close>

section \<open>Bodies\<close>

definition encode :: "('a \<Rightarrow> err option) \<Rightarrow> ('a \<Rightarrow> bool) \<Rightarrow> 'a \<Rightarrow> err option" where
  "encode validate marshals v = first_error [validate v, require (marshals v) ErrMarshal]"

definition decode :: "('a \<Rightarrow> err option) \<Rightarrow> 'a \<Rightarrow> err + 'a" where
  "decode validate body = of_err (validate body) body"

fun mapTransition :: "err \<Rightarrow> err" where
  "mapTransition ErrImmutableTransition = ErrImmutableConflict"
| "mapTransition ErrStaleTransition = ErrStaleWrite"
| "mapTransition e = e"

text \<open>\<open>queryAll\<close>: scan every row in query order, failing with the first scan error.\<close>

fun queryAll :: "('r \<Rightarrow> err + 'a) \<Rightarrow> 'r list \<Rightarrow> err + 'a list" where
  "queryAll scan [] = Inr []"
| "queryAll scan (r # rs) = ebind (scan r) (\<lambda>x. ebind (queryAll scan rs) (\<lambda>xs. Inr (x # xs)))"

text \<open>
  \<open>putImmutable\<close>: insert a row, converge on a byte-identical replay, refuse different content
  under the same key. \<open>same\<close> compares the stored body with the new one.
\<close>

definition putImmutableInserted ::
  "('r \<Rightarrow> bool) \<Rightarrow> 'k \<Rightarrow> 'r \<Rightarrow> ('k \<times> 'r) list \<Rightarrow> err + (bool \<times> ('k \<times> 'r) list)" where
  "putImmutableInserted same k row t = (case map_of t k of
     None \<Rightarrow> Inr (True, AList.update k row t)
   | Some existing \<Rightarrow> if \<not> same existing then Inl ErrImmutableConflict else Inr (False, t))"

definition putImmutable ::
  "('r \<Rightarrow> bool) \<Rightarrow> 'k \<Rightarrow> 'r \<Rightarrow> ('k \<times> 'r) list \<Rightarrow> err + ('k \<times> 'r) list" where
  "putImmutable same k row t = ebind (putImmutableInserted same k row t) (\<lambda>(_, t'). Inr t')"

section \<open>Sync metadata and timestamp columns\<close>

record Snapshot =
  EntityVersion :: int
  AsOfRevision :: int

definition formatTime :: "gotime \<Rightarrow> gotime" where
  "formatTime t = UTC t"

definition formatTimePtr :: "gotime option \<Rightarrow> gotime option" where
  "formatTimePtr p = (case p of None \<Rightarrow> None | Some t \<Rightarrow> Some (formatTime t))"

definition parseTime :: "gotime \<Rightarrow> err + gotime" where
  "parseTime col = (if rfc3339_ok col then Inr (UTC col) else Inl (ErrText ''parse RFC3339Nano timestamp''))"

definition timeColumnEqual :: "gotime \<Rightarrow> gotime \<Rightarrow> bool" where
  "timeColumnEqual col want = (case parseTime col of Inl _ \<Rightarrow> False | Inr parsed \<Rightarrow> Equal parsed want)"

definition optionalTimeColumnEqual :: "gotime option \<Rightarrow> gotime option \<Rightarrow> bool" where
  "optionalTimeColumnEqual col want = (case (col, want) of
     (Some c, Some w) \<Rightarrow> timeColumnEqual c w
   | _ \<Rightarrow> col = None \<and> want = None)"

section \<open>Properties\<close>

lemma encode_None: "encode validate marshals s = None \<longleftrightarrow> validate s = None \<and> marshals s"
  by (simp add: encode_def validation)

lemma decode_Inr [simp]: "decode validate s = Inr s' \<longleftrightarrow> validate s = None \<and> s' = s"
  by (auto simp: decode_def of_err_Inr_iff)

lemma queryAll_map: "\<forall>r \<in> set rs. scan r = Inr (f r) \<Longrightarrow> queryAll scan rs = Inr (map f rs)"
proof (induction rs)
  case (Cons r rs)
  from Cons.prems have "scan r = Inr (f r)" and "queryAll scan rs = Inr (map f rs)"
    using Cons.IH by simp_all
  then show ?case by (simp only: queryAll.simps ebind_simps list.map)
qed simp

lemma queryAll_all: "queryAll scan rs = Inr xs \<Longrightarrow> r \<in> set rs \<Longrightarrow> \<exists>x \<in> set xs. scan r = Inr x"
proof (induction rs arbitrary: xs)
  case (Cons a rs)
  then show ?case by (cases "scan a"; cases "queryAll scan rs") auto
qed simp

lemma queryAll_ex: "queryAll scan rs = Inr xs \<Longrightarrow> x \<in> set xs \<Longrightarrow> \<exists>r \<in> set rs. scan r = Inr x"
proof (induction rs arbitrary: xs)
  case (Cons a rs)
  then show ?case by (cases "scan a"; cases "queryAll scan rs") auto
qed simp

lemma formatTimePtr_map: "formatTimePtr p = map_option UTC p"
  by (simp add: formatTimePtr_def formatTime_def split: option.split)

lemma rfc3339_UTC [simp]: "rfc3339_ok (UTC t) = rfc3339_ok t"
  by (simp add: rfc3339_ok_def)

lemma timeColumnEqual_formatTime [simp]:
  "timeColumnEqual (formatTime t) u \<longleftrightarrow> rfc3339_ok t \<and> Equal t u"
  by (simp add: timeColumnEqual_def formatTime_def parseTime_def rfc3339_UTC)

lemma optionalTimeColumnEqual_refl:
  "(\<And>t. p = Some t \<Longrightarrow> rfc3339_ok t) \<Longrightarrow> optionalTimeColumnEqual (formatTimePtr p) p"
  by (cases p) (simp_all add: optionalTimeColumnEqual_def formatTimePtr_def)

text \<open>A write-once row is never replaced: the laws the immutable tables rest on.\<close>

locale write_once =
  fixes lookup :: "'t \<Rightarrow> 'k \<Rightarrow> 'r option"
    and put :: "('r \<Rightarrow> bool) \<Rightarrow> 'k \<Rightarrow> 'r \<Rightarrow> 't \<Rightarrow> err + 't"
  assumes put_fresh: "lookup t k = None \<Longrightarrow> \<exists>t'. put same k r t = Inr t' \<and> lookup t' = (lookup t)(k \<mapsto> r)"
    and put_same: "lookup t k = Some r0 \<Longrightarrow> same r0 \<Longrightarrow> put same k r t = Inr t"
    and put_conflict: "lookup t k = Some r0 \<Longrightarrow> \<not> same r0 \<Longrightarrow> put same k r t = Inl ErrImmutableConflict"
begin

lemma put_result:
  assumes "put same k r t = Inr t'"
  shows "lookup t' = (case lookup t k of None \<Rightarrow> (lookup t)(k \<mapsto> r) | Some _ \<Rightarrow> lookup t)"
proof (cases "lookup t k")
  case None
  from put_fresh [OF this, of same r] assms None show ?thesis by auto
next
  case (Some r0)
  with put_same [OF Some, of same r] put_conflict [OF Some, of same r] assms show ?thesis
    by (cases "same r0") auto
qed

lemma put_keeps: "put same k r t = Inr t' \<Longrightarrow> lookup t j = Some r0 \<Longrightarrow> lookup t' j = Some r0"
  by (drule put_result) (auto split: option.split_asm)

end

interpretation immutable_rows: write_once map_of putImmutable
  by unfold_locales (auto simp: putImmutable_def putImmutableInserted_def update_conv')

lemma putImmutable_distinct: "putImmutable same k r t = Inr t' \<Longrightarrow> distinct_keys t \<Longrightarrow> distinct_keys t'"
  by (auto simp: putImmutable_def putImmutableInserted_def ebind_Inr_iff tbl.keyed_upsert
      split: option.split_asm if_split_asm)

end
