(* ===== verification/ScheduleStore.thy ===== *)
theory ScheduleStore
  imports ScheduleDomain StoreKernel
begin

text \<open>
  \<open>daemon/internal/store/schedule.go\<close> with the parts of \<open>kernel.go\<close> and \<open>tx.go\<close> it uses:
  the durable tables behind the scheduler and the operations on them.

  A table is an association list in insertion order (SQLite's \<open>ORDER BY id\<close> on the occurrence
  ledger is creation order; \<open>ORDER BY\<close> on a text key sorts by bytes). A schedule row keeps the
  extracted columns beside the JSON body; the JSON codec is the identity on the body's fields, and
  marshalling fails exactly for an instant outside the years 0 to 9999. \<open>entity_version\<close> and
  \<open>as_of_revision\<close> are the sync metadata the store stamps. The record \<open>db\<close> also holds what a
  fire-time check reads of other tables (items, runs, resolved policies), as the results of those
  reads. Strings are valid UTF-8, as \<open>encoding/json\<close> needs to round-trip them.
\<close>

section \<open>Tables\<close>

record schedule_row =
  row_id :: string
  row_project_id :: string
  row_kind :: string
  row_status :: string
  row_generation :: int
  row_run_id :: "string option"
  row_policy_digest :: "string option"
  row_fire_at :: "int option"
  row_entity_version :: int
  row_as_of_revision :: int
  row_body :: Schedule

text \<open>An occurrence's identity: schedule, generation and nominal instant in Unix nanoseconds.\<close>

type_synonym occurrence_key = "string \<times> int \<times> int"

record occurrence_row =
  orow_status :: string
  orow_gap_missed :: "int option"
  orow_gap_earliest :: "int option"
  orow_created_at :: gotime
  orow_consumed_at :: "gotime option"
  orow_outcome :: "string option"

text \<open>What a fire-time check reads of an attention item, a run and a resolved policy.\<close>

record item_view =
  item_project_id :: string
  item_subject_is_run :: bool
  item_subject_id :: string
  item_subject_run_id :: "string option"
  item_open :: bool

record run_view =
  run_id :: string
  run_project_id :: string
  run_policy_digest :: string

record policy_view =
  policy_run_id :: string
  policy_digest :: string

record db =
  db_schedules :: "(string \<times> schedule_row) list"
  db_timers :: "(string \<times> (int \<times> int)) list"
  db_occurrences :: "(occurrence_key \<times> occurrence_row) list"
  db_revision :: int
  db_items :: "string \<Rightarrow> err + item_view"
  db_runs :: "string \<Rightarrow> err + run_view"
  db_policies :: "string \<Rightarrow> err + policy_view"

section \<open>The kernel\<close>

definition json_ok :: "Schedule \<Rightarrow> bool" where
  "json_ok s \<longleftrightarrow> rfc3339_ok (sched_created_at s)
     \<and> (\<forall>t \<in> set_option (sched_fire_at s). rfc3339_ok t)
     \<and> (\<forall>t \<in> set_option (sched_expires_at s). rfc3339_ok t)
     \<and> (\<forall>r \<in> set_option (sched_resolution s). rfc3339_ok (res_recorded_at r))"

abbreviation encode_schedule :: "Schedule \<Rightarrow> err option" where
  "encode_schedule \<equiv> encode Schedule_Validate json_ok"

abbreviation decode_schedule :: "Schedule \<Rightarrow> err + Schedule" where
  "decode_schedule \<equiv> decode Schedule_Validate"

text \<open>
  A synchronized write transaction: roll back on error (the caller keeps the old state), otherwise
  commit and advance the revision. A write stamps rows with the revision it will commit as.
\<close>

definition Write :: "(db \<Rightarrow> err + db) \<Rightarrow> db \<Rightarrow> err + db" where
  "Write f d = ebind (f d) (\<lambda>d'. Inr (d'\<lparr>db_revision := db_revision d' + 1\<rparr>))"

section \<open>Schedules\<close>

definition schedule_columns :: "Schedule \<Rightarrow> int \<Rightarrow> int \<Rightarrow> schedule_row" where
  "schedule_columns s version revision = \<lparr>row_id = sched_id s, row_project_id = sched_project_id s,
     row_kind = ScheduleKind_text (sched_kind s), row_status = ScheduleStatus_text (sched_status s),
     row_generation = sched_generation s, row_run_id = sched_run_id s,
     row_policy_digest = sched_policy_digest s, row_fire_at = map_option UnixNano (sched_fire_at s),
     row_entity_version = version, row_as_of_revision = revision, row_body = s\<rparr>"

definition PutSchedule :: "Schedule \<Rightarrow> db \<Rightarrow> err + db" where
  "PutSchedule s d = (let upsert = (\<lambda>v. d\<lparr>db_schedules := AList.update (sched_id s)
        (schedule_columns s v (db_revision d + 1)) (db_schedules d)\<rparr>) in
     case encode_schedule s of
       Some e \<Rightarrow> Inl e
     | None \<Rightarrow> (case map_of (db_schedules d) (sched_id s) of
         None \<Rightarrow> Inr (upsert 1)
       | Some row \<Rightarrow> (case decode_schedule (row_body row) of
           Inl e \<Rightarrow> Inl e
         | Inr old \<Rightarrow> (case ValidateScheduleTransition old s of
             Some e \<Rightarrow> Inl (mapTransition e)
           | None \<Rightarrow> Inr (upsert (row_entity_version row + 1))))))"

definition scanScheduleSnapshot :: "schedule_row \<Rightarrow> err + (Schedule \<times> Snapshot)" where
  "scanScheduleSnapshot r = ebind (decode_schedule (row_body r)) (\<lambda>s.
     if sched_id s \<noteq> row_id r \<or> sched_project_id s \<noteq> row_project_id r
        \<or> sched_kind s \<noteq> enum_parse ScheduleKind_text AllScheduleKinds ScheduleKindOther (row_kind r)
        \<or> sched_status s \<noteq>
            enum_parse ScheduleStatus_text AllScheduleStatuses ScheduleStatusOther (row_status r)
        \<or> sched_generation s \<noteq> row_generation r
        \<or> (sched_run_id s \<noteq> None) \<noteq> (row_run_id r \<noteq> None)
        \<or> (sched_policy_digest s \<noteq> None) \<noteq> (row_policy_digest r \<noteq> None)
        \<or> (sched_run_id s \<noteq> None \<and> sched_run_id s \<noteq> row_run_id r)
        \<or> (sched_policy_digest s \<noteq> None \<and> sched_policy_digest s \<noteq> row_policy_digest r)
        \<or> (sched_fire_at s \<noteq> None) \<noteq> (row_fire_at r \<noteq> None)
        \<or> (sched_fire_at s \<noteq> None \<and> map_option UnixNano (sched_fire_at s) \<noteq> row_fire_at r)
        \<or> row_entity_version r < 1 \<or> row_as_of_revision r < 1
     then Inl ErrRowInconsistent
     else Inr (s, \<lparr>EntityVersion = row_entity_version r, AsOfRevision = row_as_of_revision r\<rparr>))"

definition GetScheduleSnapshot :: "string \<Rightarrow> db \<Rightarrow> err + (Schedule \<times> Snapshot)" where
  "GetScheduleSnapshot i d = (case map_of (db_schedules d) i of
     None \<Rightarrow> Inl ErrNotFound | Some r \<Rightarrow> scanScheduleSnapshot r)"

definition GetSchedule :: "string \<Rightarrow> db \<Rightarrow> err + Schedule" where
  "GetSchedule i d = ebind (GetScheduleSnapshot i d) (\<lambda>(s, _). Inr s)"

definition ListSchedules :: "db \<Rightarrow> err + (Schedule \<times> Snapshot) list" where
  "ListSchedules d = queryAll scanScheduleSnapshot (map snd (sort_key fst (db_schedules d)))"

record DueSchedule =
  due_schedule :: Schedule
  due_nominal_fire_at :: gotime

definition dueOneShotRows :: "int \<Rightarrow> db \<Rightarrow> schedule_row list" where
  "dueOneShotRows now d = map snd (sort_key fst (filter (\<lambda>(i, r).
     row_status r = ''armed'' \<and> (case row_fire_at r of None \<Rightarrow> False | Some n \<Rightarrow> n \<le> now))
     (db_schedules d)))"

text \<open>The join of armed schedules with their timers, by schedule id.\<close>

definition dueRecurringRows :: "int \<Rightarrow> db \<Rightarrow> (schedule_row \<times> int \<times> int) list" where
  "dueRecurringRows now d = List.map_filter (\<lambda>(i, r).
     (case map_of (db_timers d) i of
        None \<Rightarrow> None
      | Some (g, n) \<Rightarrow> if row_status r = ''armed'' \<and> n \<le> now then Some (r, g, n) else None))
     (sort_key fst (db_schedules d))"

definition ListDueSchedules :: "gotime \<Rightarrow> db \<Rightarrow> err + DueSchedule list" where
  "ListDueSchedules now d =
     ebind (queryAll (\<lambda>r. ebind (scanScheduleSnapshot r) (\<lambda>(s, _).
         case sched_fire_at s of
           None \<Rightarrow> Inl (Panic ''nil dereference'')
         | Some t \<Rightarrow> Inr \<lparr>due_schedule = s, due_nominal_fire_at = t\<rparr>))
       (dueOneShotRows (UnixNano (UTC now)) d)) (\<lambda>due.
     ebind (queryAll (\<lambda>(r, g, n). ebind (scanScheduleSnapshot r) (\<lambda>(s, _).
         Inr (\<lparr>due_schedule = s, due_nominal_fire_at = UnixZero n\<rparr>, g)))
       (dueRecurringRows (UnixNano (UTC now)) d)) (\<lambda>timers.
     Inr (due @ map fst (filter (\<lambda>(x, g). g = sched_generation (due_schedule x)) timers))))"

section \<open>Timers\<close>

definition SetScheduleTimer :: "string \<Rightarrow> int \<Rightarrow> gotime \<Rightarrow> db \<Rightarrow> err + db" where
  "SetScheduleTimer i generation next d =
     (if i = [] then Inl (ErrText ''set schedule timer: empty schedule id'')
      else if generation < 1 then Inl (ErrText ''set schedule timer: generation'')
      else Inr (d\<lparr>db_timers := AList.update i (generation, UnixNano (UTC next)) (db_timers d)\<rparr>))"

definition DeleteScheduleTimer :: "string \<Rightarrow> db \<Rightarrow> err + db" where
  "DeleteScheduleTimer i d =
     (if i = [] then Inl (ErrText ''delete schedule timer: empty schedule id'')
      else Inr (d\<lparr>db_timers := AList.delete i (db_timers d)\<rparr>))"

definition GetScheduleTimer :: "string \<Rightarrow> db \<Rightarrow> err + (int \<times> gotime) option" where
  "GetScheduleTimer i d =
     (if i = [] then Inl (ErrText ''get schedule timer: empty schedule id'')
      else Inr (case map_of (db_timers d) i of
        None \<Rightarrow> None | Some (g, n) \<Rightarrow> Some (g, UnixZero n)))"

section \<open>The occurrence ledger\<close>

fun outcome_text :: "ScheduleOccurrenceOutcome \<Rightarrow> string" where
  "outcome_text OutcomeHandled = ''handled''"
| "outcome_text OutcomeConditionNoLongerApplies = ''condition_no_longer_applies''"
| "outcome_text OutcomeReArmed = ''re_armed''"
| "outcome_text OutcomeCoalesced = ''coalesced''"
| "outcome_text OutcomeStaleGeneration = ''stale_generation''"
| "outcome_text OutcomeObserveFailed = ''observe_failed''"
| "outcome_text (OutcomeOther s) = s"

definition AllScheduleOccurrenceOutcomes :: "ScheduleOccurrenceOutcome list" where
  "AllScheduleOccurrenceOutcomes = [OutcomeHandled, OutcomeConditionNoLongerApplies,
     OutcomeReArmed, OutcomeCoalesced, OutcomeStaleGeneration, OutcomeObserveFailed]"

interpretation outcome_enum: string_enum outcome_text AllScheduleOccurrenceOutcomes OutcomeOther
proof
  fix k show "k \<in> set AllScheduleOccurrenceOutcomes \<or> (\<exists>s. k = OutcomeOther s)"
    by (cases k) (simp_all add: AllScheduleOccurrenceOutcomes_def)
qed (simp_all add: AllScheduleOccurrenceOutcomes_def)

fun occurrence_status_text :: "ScheduleOccurrenceStatus \<Rightarrow> string" where
  "occurrence_status_text OccurrencePending = ''pending''"
| "occurrence_status_text OccurrenceConsumed = ''consumed''"
| "occurrence_status_text (OccurrenceStatusOther s) = s"

definition AllScheduleOccurrenceStatuses :: "ScheduleOccurrenceStatus list" where
  "AllScheduleOccurrenceStatuses = [OccurrencePending, OccurrenceConsumed]"

interpretation occ_status_enum:
  string_enum occurrence_status_text AllScheduleOccurrenceStatuses OccurrenceStatusOther
proof
  fix k show "k \<in> set AllScheduleOccurrenceStatuses \<or> (\<exists>s. k = OccurrenceStatusOther s)"
    by (cases k) (simp_all add: AllScheduleOccurrenceStatuses_def)
qed (simp_all add: AllScheduleOccurrenceStatuses_def)

text \<open>
  The two statements on the ledger and their affected-row result: insert-or-ignore of a pending row,
  and the update of a row that is still pending.
\<close>

definition insertPending ::
  "occurrence_key \<Rightarrow> occurrence_row \<Rightarrow> (occurrence_key \<times> occurrence_row) list
   \<Rightarrow> bool \<times> (occurrence_key \<times> occurrence_row) list" where
  "insertPending k row t = (case map_of t k of
     None \<Rightarrow> (True, AList.update k row t) | Some _ \<Rightarrow> (False, t))"

definition consumePending ::
  "occurrence_key \<Rightarrow> gotime \<Rightarrow> string \<Rightarrow> (occurrence_key \<times> occurrence_row) list
   \<Rightarrow> bool \<times> (occurrence_key \<times> occurrence_row) list" where
  "consumePending k at outcome t = (case map_of t k of
     None \<Rightarrow> (False, t)
   | Some row \<Rightarrow> if orow_status row = ''pending''
       then (True, AList.update k (row\<lparr>orow_status := ''consumed'', orow_consumed_at := Some (UTC at),
              orow_outcome := Some outcome\<rparr>) t)
       else (False, t))"

definition occurrence_key_of :: "string \<Rightarrow> int \<Rightarrow> gotime \<Rightarrow> occurrence_key" where
  "occurrence_key_of i g t = (i, g, UnixNano (UTC t))"

definition CreatePendingScheduleOccurrence :: "ScheduleOccurrence \<Rightarrow> db \<Rightarrow> err + (bool \<times> db)" where
  "CreatePendingScheduleOccurrence oc d = (case ScheduleOccurrence_Validate oc of
     Some e \<Rightarrow> Inl e
   | None \<Rightarrow> if occ_status oc \<noteq> OccurrencePending then Inl (ErrText ''create schedule occurrence: status'')
     else let (inserted, t) = insertPending
            (occ_schedule_id oc, occ_generation oc, UnixNano (occ_nominal_fire_at oc))
            \<lparr>orow_status = ''pending'', orow_gap_missed = map_option gap_missed_occurrences (occ_gap oc),
             orow_gap_earliest = map_option (\<lambda>g. UnixNano (gap_earliest_missed_at g)) (occ_gap oc),
             orow_created_at = UTC (occ_created_at oc), orow_consumed_at = None, orow_outcome = None\<rparr>
            (db_occurrences d)
       in Inr (inserted, d\<lparr>db_occurrences := t\<rparr>))"

definition gap_of_columns :: "int option \<Rightarrow> int option \<Rightarrow> ScheduleFireGap option" where
  "gap_of_columns missed earliest = (case (missed, earliest) of
     (Some m, Some e) \<Rightarrow> Some \<lparr>gap_missed_occurrences = m, gap_earliest_missed_at = UnixZero e\<rparr>
   | _ \<Rightarrow> None)"

definition scanOccurrence :: "occurrence_key \<times> occurrence_row \<Rightarrow> err + ScheduleOccurrence" where
  "scanOccurrence kr = (case kr of ((i, g, n), r) \<Rightarrow>
     if (orow_gap_missed r \<noteq> None) \<noteq> (orow_gap_earliest r \<noteq> None) then Inl ErrRowInconsistent
     else ebind (parseTime (orow_created_at r)) (\<lambda>created.
       ebind (case orow_consumed_at r of
           None \<Rightarrow> Inr None | Some c \<Rightarrow> ebind (parseTime c) (\<lambda>t. Inr (Some t))) (\<lambda>consumed.
       let oc = \<lparr>occ_schedule_id = i, occ_generation = g, occ_nominal_fire_at = UnixZero n,
           occ_gap = gap_of_columns (orow_gap_missed r) (orow_gap_earliest r),
           occ_status = enum_parse occurrence_status_text AllScheduleOccurrenceStatuses
             OccurrenceStatusOther (orow_status r),
           occ_created_at = created, occ_consumed_at = consumed,
           occ_outcome = map_option (enum_parse outcome_text AllScheduleOccurrenceOutcomes OutcomeOther)
             (orow_outcome r)\<rparr>
       in of_err (ScheduleOccurrence_Validate oc) oc)))"

definition ListPendingScheduleOccurrences :: "db \<Rightarrow> err + ScheduleOccurrence list" where
  "ListPendingScheduleOccurrences d =
     queryAll scanOccurrence (filter (\<lambda>(_, r). orow_status r = ''pending'') (db_occurrences d))"

definition GetScheduleOccurrence ::
  "string \<Rightarrow> int \<Rightarrow> gotime \<Rightarrow> db \<Rightarrow> err + ScheduleOccurrence" where
  "GetScheduleOccurrence i g t d =
     (case map_of (db_occurrences d) (occurrence_key_of i g t) of
        None \<Rightarrow> Inl ErrNotFound
      | Some r \<Rightarrow> scanOccurrence (occurrence_key_of i g t, r))"

definition ConsumeScheduleOccurrence ::
  "string \<Rightarrow> int \<Rightarrow> gotime \<Rightarrow> ScheduleOccurrenceOutcome \<Rightarrow> gotime \<Rightarrow> db \<Rightarrow> err + (bool \<times> db)" where
  "ConsumeScheduleOccurrence i g nominal outcome consumedAt d =
     (if i = [] then Inl (ErrText ''consume schedule occurrence: empty schedule id'')
      else let oc = \<lparr>occ_schedule_id = i, occ_generation = g, occ_nominal_fire_at = UTC nominal,
             occ_gap = None, occ_status = OccurrenceConsumed, occ_created_at = UTC consumedAt,
             occ_consumed_at = Some (UTC consumedAt), occ_outcome = Some outcome\<rparr>
        in case ScheduleOccurrence_Validate oc of
             Some e \<Rightarrow> Inl e
           | None \<Rightarrow> let (affected, t) = consumePending (occurrence_key_of i g nominal) consumedAt
                 (outcome_text outcome) (db_occurrences d)
               in Inr (affected, d\<lparr>db_occurrences := t\<rparr>))"

section \<open>The store's invariant\<close>

text \<open>
  A stored schedule row is the image of a valid body under the column extraction, keyed by its id,
  with stamped metadata; every table has one row per key.
\<close>

definition schedule_row_ok :: "string \<Rightarrow> schedule_row \<Rightarrow> bool" where
  "schedule_row_ok i r \<longleftrightarrow> i = sched_id (row_body r) \<and> Schedule_Validate (row_body r) = None
     \<and> 1 \<le> row_entity_version r \<and> 1 \<le> row_as_of_revision r
     \<and> r = schedule_columns (row_body r) (row_entity_version r) (row_as_of_revision r)"

text \<open>The nominal instant of an occurrence's key is an \<open>int64\<close> column.\<close>

definition keys_ok :: "(occurrence_key \<times> occurrence_row) list \<Rightarrow> bool" where
  "keys_ok t \<longleftrightarrow> (\<forall>(i, g, n) \<in> fst ` set t. is_int64 n)"

lemma keys_ok_Nil [simp]: "keys_ok []"
  by (simp add: keys_ok_def)

lemma keys_ok_update: "keys_ok t \<Longrightarrow> is_int64 (snd (snd k)) \<Longrightarrow> keys_ok (AList.update k v t)"
  unfolding keys_ok_def dom_update by auto

lemma keys_ok_lookup: "keys_ok t \<Longrightarrow> map_of t (i, g, n) = Some r \<Longrightarrow> is_int64 n"
  by (drule map_of_SomeD) (fastforce simp: keys_ok_def)

definition db_ok :: "db \<Rightarrow> bool" where
  "db_ok d \<longleftrightarrow> distinct_keys (db_schedules d) \<and> distinct_keys (db_timers d)
     \<and> distinct_keys (db_occurrences d) \<and> 0 \<le> db_revision d
     \<and> keys_ok (db_occurrences d)
     \<and> (\<forall>i r. map_of (db_schedules d) i = Some r \<longrightarrow> schedule_row_ok i r)"

lemma schedule_columns_simps [simp]:
  "row_id (schedule_columns s v r) = sched_id s"
  "row_body (schedule_columns s v r) = s"
  "row_status (schedule_columns s v r) = ScheduleStatus_text (sched_status s)"
  "row_fire_at (schedule_columns s v r) = map_option UnixNano (sched_fire_at s)"
  "row_entity_version (schedule_columns s v r) = v"
  "row_as_of_revision (schedule_columns s v r) = r"
  by (simp_all add: schedule_columns_def)

lemma scan_columns:
  assumes "Schedule_Validate s = None" and "1 \<le> v" and "1 \<le> r"
  shows "scanScheduleSnapshot (schedule_columns s v r) = Inr (s, \<lparr>EntityVersion = v, AsOfRevision = r\<rparr>)"
proof -
  note va = valid_scheduleD [OF assms(1)]
  have k: "enum_parse ScheduleKind_text AllScheduleKinds ScheduleKindOther
      (ScheduleKind_text (sched_kind s)) = sched_kind s"
    using va(3) by (intro kind_enum.parse_render) (simp add: ScheduleKind_valid_iff)
  have st: "enum_parse ScheduleStatus_text AllScheduleStatuses ScheduleStatusOther
      (ScheduleStatus_text (sched_status s)) = sched_status s"
    using va(7) by (intro status_enum.parse_render) (simp add: ScheduleStatus_valid_iff)
  show ?thesis
    using assms k st by (auto simp: scanScheduleSnapshot_def schedule_columns_def decode_def)
qed

lemma scan_row_ok:
  assumes "schedule_row_ok i r"
  shows "scanScheduleSnapshot r = Inr (row_body r,
    \<lparr>EntityVersion = row_entity_version r, AsOfRevision = row_as_of_revision r\<rparr>)"
proof -
  from assms have r: "r = schedule_columns (row_body r) (row_entity_version r) (row_as_of_revision r)"
    and v: "Schedule_Validate (row_body r) = None" "1 \<le> row_entity_version r" "1 \<le> row_as_of_revision r"
    by (simp_all add: schedule_row_ok_def)
  from scan_columns [OF v] r show ?thesis by simp
qed

lemma db_ok_row: "db_ok d \<Longrightarrow> map_of (db_schedules d) i = Some r \<Longrightarrow> schedule_row_ok i r"
  by (simp add: db_ok_def)

lemma db_ok_row_facts:
  assumes "db_ok d" and "map_of (db_schedules d) i = Some r"
  shows "sched_id (row_body r) = i" "Schedule_Validate (row_body r) = None"
    "1 \<le> row_entity_version r" "1 \<le> row_as_of_revision r"
  using db_ok_row [OF assms] by (simp_all add: schedule_row_ok_def)

lemma GetSchedule_ok:
  "db_ok d \<Longrightarrow> GetSchedule i d =
     (case map_of (db_schedules d) i of None \<Rightarrow> Inl ErrNotFound | Some r \<Rightarrow> Inr (row_body r))"
  by (cases "map_of (db_schedules d) i")
    (auto simp: GetSchedule_def GetScheduleSnapshot_def dest: scan_row_ok [OF db_ok_row])

lemma GetSchedule_Inr:
  "db_ok d \<Longrightarrow> GetSchedule i d = Inr s \<longleftrightarrow> (\<exists>r. map_of (db_schedules d) i = Some r \<and> row_body r = s)"
  by (auto simp: GetSchedule_ok split: option.splits)

lemma GetSchedule_valid:
  "db_ok d \<Longrightarrow> GetSchedule i d = Inr s \<Longrightarrow> Schedule_Validate s = None \<and> sched_id s = i"
  by (auto simp: GetSchedule_Inr db_ok_row_facts)

definition next_version :: "db \<Rightarrow> string \<Rightarrow> int" where
  "next_version d i =
     (case map_of (db_schedules d) i of None \<Rightarrow> 1 | Some r \<Rightarrow> row_entity_version r + 1)"

lemma next_version_pos: "db_ok d \<Longrightarrow> 1 \<le> next_version d i"
proof (cases "map_of (db_schedules d) i")
  case (Some r)
  moreover assume "db_ok d"
  ultimately show ?thesis using db_ok_row_facts(3) [of d i r] by (simp add: next_version_def)
qed (simp add: next_version_def)

text \<open>What \<open>PutSchedule\<close> checks of a replacement, and what it writes.\<close>

definition put_check :: "Schedule \<Rightarrow> Schedule \<Rightarrow> err option" where
  "put_check old s = first_error [encode_schedule s, ValidateScheduleTransition old s]"

lemma PutSchedule_Inr:
  assumes "db_ok d"
  shows "PutSchedule s d = Inr d' \<longleftrightarrow>
     encode_schedule s = None
     \<and> (\<forall>r. map_of (db_schedules d) (sched_id s) = Some r \<longrightarrow>
          ValidateScheduleTransition (row_body r) s = None)
     \<and> d' = d\<lparr>db_schedules := AList.update (sched_id s)
         (schedule_columns s (next_version d (sched_id s)) (db_revision d + 1)) (db_schedules d)\<rparr>"
  using assms db_ok_row_facts(2) [OF assms, of "sched_id s"]
  by (cases "map_of (db_schedules d) (sched_id s)"; cases "encode_schedule s")
    (auto simp: PutSchedule_def Let_def decode_def next_version_def split: option.splits)

lemma PutSchedule_db_ok:
  assumes "db_ok d" and "PutSchedule s d = Inr d'"
  shows "db_ok d'"
proof -
  from assms(2) have v: "Schedule_Validate s = None"
    and d': "d' = d\<lparr>db_schedules := AList.update (sched_id s)
         (schedule_columns s (next_version d (sched_id s)) (db_revision d + 1)) (db_schedules d)\<rparr>"
    by (simp_all add: PutSchedule_Inr [OF assms(1)] encode_None)
  have "schedule_row_ok (sched_id s) (schedule_columns s
      (next_version d (sched_id s))
      (db_revision d + 1))"
    using v assms(1) next_version_pos [OF assms(1)] by (simp add: schedule_row_ok_def db_ok_def)
  with assms(1) d' show ?thesis
    unfolding db_ok_def by (auto simp: tbl.keyed_upsert tbl.lookup_upsert simp del: map_of_eq_Some_iff)
qed

lemma PutSchedule_frame:
  "PutSchedule s d = Inr d' \<Longrightarrow> db_timers d' = db_timers d \<and> db_occurrences d' = db_occurrences d
     \<and> db_revision d' = db_revision d \<and> db_items d' = db_items d \<and> db_runs d' = db_runs d
     \<and> db_policies d' = db_policies d"
  by (auto simp: PutSchedule_def Let_def split: option.splits sum.splits)

text \<open>
  A stored schedule reads back as itself, at the next entity version and the committing
  revision, and no other schedule is touched.
\<close>

theorem PutSchedule_GetSchedule:
  assumes "db_ok d" and "PutSchedule s d = Inr d'"
  shows "GetScheduleSnapshot (sched_id s) d' = Inr (s,
      \<lparr>EntityVersion = next_version d (sched_id s), AsOfRevision = db_revision d + 1\<rparr>)
    \<and> (\<forall>i. i \<noteq> sched_id s \<longrightarrow> GetScheduleSnapshot i d' = GetScheduleSnapshot i d)"
proof -
  have ok': "db_ok d'" by (rule PutSchedule_db_ok [OF assms])
  from assms(2) have d': "map_of (db_schedules d') = (map_of (db_schedules d))(sched_id s \<mapsto>
      schedule_columns s (next_version d (sched_id s)) (db_revision d + 1))" (is "_ = _(_ \<mapsto> ?r)")
    by (simp add: PutSchedule_Inr [OF assms(1)] update_conv')
  from db_ok_row [OF ok', of "sched_id s" ?r] d' have "schedule_row_ok (sched_id s) ?r" by simp
  from scan_row_ok [OF this] show ?thesis by (simp add: GetScheduleSnapshot_def d')
qed

section \<open>A schedule's stored history\<close>

lemma put_check_None:
  "put_check old s = None \<longleftrightarrow> Schedule_Validate s = None \<and> json_ok s
     \<and> ValidateScheduleTransition old s = None"
  by (simp add: put_check_def encode_None validation)

text \<open>
  What a later version keeps of an earlier one: the generation never falls, a terminal generation
  is frozen, and within a generation the deadline does not move.
\<close>

definition schedule_extends :: "Schedule \<Rightarrow> Schedule \<Rightarrow> bool" where
  "schedule_extends a b \<longleftrightarrow> (is_int64 (sched_generation a) \<longrightarrow>
     is_int64 (sched_generation b) \<and> sched_generation a \<le> sched_generation b
     \<and> (sched_generation a = sched_generation b \<longrightarrow>
          timePtrEqual (sched_fire_at a) (sched_fire_at b)
          \<and> (Terminal (sched_status a) \<longrightarrow> schedulesEqual a b)))"

definition schedule_key where
  "schedule_key s = (sched_id s, sched_kind s, sched_project_id s, subj_type (sched_subject s),
     sched_run_id s, sched_policy_digest s)"

lemma put_check_extends: "put_check a b = None \<Longrightarrow> schedule_extends a b"
proof -
  assume p: "put_check a b = None"
  then have t: "ValidateScheduleTransition a b = None" and g: "1 \<le> sched_generation b"
    using valid_scheduleD(6) by (simp_all add: put_check_None)
  show "schedule_extends a b"
  proof (cases "sched_generation b = sched_generation a")
    case True
    with t show ?thesis
      by (auto simp: schedule_extends_def ValidateScheduleTransition_def Let_def schedulesEqual_def
          split: if_splits)
  next
    case False
    with t have "sched_generation b = wrap64 (sched_generation a + 1)"
      by (auto simp: ValidateScheduleTransition_def split: if_splits)
    with g wrap64_Suc_ge [of "sched_generation a"] wrap64_range [of "sched_generation a + 1"]
    show ?thesis by (auto simp: schedule_extends_def)
  qed
qed

lemma schedule_extends_trans:
  assumes ab: "schedule_extends a b" and bc: "schedule_extends b c"
  shows "schedule_extends a c"
  unfolding schedule_extends_def
proof (intro impI conjI)
  assume i: "is_int64 (sched_generation a)"
  with ab have ib: "is_int64 (sched_generation b)" and le: "sched_generation a \<le> sched_generation b"
    by (simp_all add: schedule_extends_def)
  with bc have le2: "sched_generation b \<le> sched_generation c" by (simp add: schedule_extends_def)
  from ib bc show "min_int64 \<le> sched_generation c" "sched_generation c \<le> max_int64"
    by (simp_all add: schedule_extends_def)
  from le le2 show "sched_generation a \<le> sched_generation c" by simp
  assume "sched_generation a = sched_generation c"
  with le le2 have e: "sched_generation a = sched_generation b" "sched_generation b = sched_generation c"
    by simp_all
  with i ib ab bc show "timePtrEqual (sched_fire_at a) (sched_fire_at c)"
    by (auto simp: schedule_extends_def intro: timePtrEqual_trans)
  assume t: "Terminal (sched_status a)"
  with i e ab have eq: "schedulesEqual a b" by (simp add: schedule_extends_def)
  then have "Terminal (sched_status b)" using t by (simp add: schedulesEqual_def)
  with ib e bc have "schedulesEqual b c" by (simp add: schedule_extends_def)
  with eq show "schedulesEqual a c" by (rule schedulesEqual_trans)
qed

interpretation schedule_history: stored_aggregate put_check schedule_key schedule_extends
proof
  show "put_check a b = None \<Longrightarrow> schedule_key b = schedule_key a" for a b
    by (auto simp: put_check_None schedule_key_def ValidateScheduleTransition_def split: if_splits)
  show "schedule_extends a a" for a
    by (simp add: schedule_extends_def)
qed (rule put_check_extends, assumption, rule schedule_extends_trans)

text \<open>
  Over any history of accepted writes a schedule keeps its identity, kind, project and policy
  binding; its generation never falls; a deadline is fixed within its generation; and a generation
  that has ended is never changed or reopened.
\<close>

theorem schedule_history_safe:
  assumes "history put_check a bs" and "b \<in> set bs" and "is_int64 (sched_generation a)"
  shows "sched_id b = sched_id a \<and> sched_kind b = sched_kind a \<and> sched_project_id b = sched_project_id a
    \<and> sched_run_id b = sched_run_id a \<and> sched_policy_digest b = sched_policy_digest a
    \<and> sched_generation a \<le> sched_generation b
    \<and> (sched_generation b = sched_generation a \<longrightarrow> timePtrEqual (sched_fire_at a) (sched_fire_at b)
        \<and> (Terminal (sched_status a) \<longrightarrow> schedulesEqual a b))"
  using schedule_history.history_key [OF assms(1,2)] schedule_history.history_extends [OF assms(1,2)]
    assms(3) by (auto simp: schedule_key_def schedule_extends_def)

text \<open>A database with nothing in it, and one with the example deadline stored.\<close>

definition empty_db :: db where
  "empty_db = \<lparr>db_schedules = [], db_timers = [], db_occurrences = [], db_revision = 0,
     db_items = (\<lambda>_. Inl ErrNotFound), db_runs = (\<lambda>_. Inl ErrNotFound),
     db_policies = (\<lambda>_. Inl ErrNotFound)\<rparr>"

lemma empty_db_ok: "db_ok empty_db"
  by (simp add: empty_db_def db_ok_def)

theorem PutSchedule_GetSchedule_witness:
  "\<exists>d'. PutSchedule example_deadline empty_db = Inr d'
     \<and> GetScheduleSnapshot ''pr-checks/item-1'' d' =
         Inr (example_deadline, \<lparr>EntityVersion = 1, AsOfRevision = 1\<rparr>)"
proof -
  have "\<not> isl (PutSchedule example_deadline empty_db)" by code_simp
  then obtain d' where d': "PutSchedule example_deadline empty_db = Inr d'"
    by (cases "PutSchedule example_deadline empty_db") auto
  have "sched_id example_deadline = ''pr-checks/item-1''" "next_version empty_db (sched_id example_deadline) = 1"
    "db_revision empty_db = 0"
    by code_simp+
  with PutSchedule_GetSchedule [OF empty_db_ok d'] d' show ?thesis by auto
qed

definition example_fired :: Schedule where
  "example_fired = example_deadline\<lparr>sched_status := ScheduleFired, sched_resolution :=
     Some \<lparr>res_reason = ResolutionDeadlineElapsed, res_recorded_at = UnixZero 3700\<rparr>\<rparr>"

definition example_second :: Schedule where
  "example_second = example_deadline\<lparr>sched_generation := 2, sched_fire_at := Some (UnixZero 7200)\<rparr>"

theorem schedule_history_safe_witness:
  "history put_check example_deadline [example_fired, example_second]
   \<and> sched_generation example_deadline \<le> sched_generation example_second"
proof -
  have h: "history put_check example_deadline [example_fired, example_second]"
    and i: "is_int64 (sched_generation example_deadline)" by code_simp+
  have "example_second \<in> set [example_fired, example_second]" by simp
  from schedule_history_safe [OF h this i] h show ?thesis by blast
qed

section \<open>The occurrence ledger consumes once\<close>

abbreviation row_pending :: "occurrence_row \<Rightarrow> bool" where
  "row_pending r \<equiv> orow_status r = ''pending''"

definition stamp_consumed :: "gotime \<times> string \<Rightarrow> occurrence_row \<Rightarrow> occurrence_row" where
  "stamp_consumed x r = r\<lparr>orow_status := ''consumed'', orow_consumed_at := Some (UTC (fst x)),
     orow_outcome := Some (snd x)\<rparr>"

abbreviation settle_occurrence where
  "settle_occurrence k x t \<equiv> consumePending k (fst x) (snd x) t"

interpretation occ_ledger:
  once_ledger map_of row_pending stamp_consumed insertPending settle_occurrence
  by unfold_locales
    (auto simp: insertPending_def consumePending_def stamp_consumed_def update_conv' split: option.splits)

abbreviation occurrences_grow :: "db \<Rightarrow> db \<Rightarrow> bool" where
  "occurrences_grow d d' \<equiv>
     ledger_grows row_pending (map_of (db_occurrences d)) (map_of (db_occurrences d'))"


definition example_ledger_ops :: "(occurrence_key, occurrence_row, gotime \<times> string) ledger_op list" where
  "example_ledger_ops = [Insert (''s'', 1, 7) \<lparr>orow_status = ''pending'', orow_gap_missed = None,
       orow_gap_earliest = None, orow_created_at = UnixZero 7, orow_consumed_at = None,
       orow_outcome = None\<rparr>,
     Settle (''s'', 1, 7) (UnixZero 8, ''handled''), Settle (''s'', 1, 7) (UnixZero 9, ''coalesced'')]"

lemma example_ledger_run:
  "fst (ledger_run insertPending settle_occurrence example_ledger_ops []) = [True, True, False]"
  by code_simp


text \<open>What consuming an occurrence checks of its arguments.\<close>

lemma ConsumeScheduleOccurrence_Inr:
  "ConsumeScheduleOccurrence i g nominal outcome at d = Inr (b, d') \<longleftrightarrow>
     i \<noteq> [] \<and> 1 \<le> g \<and> \<not> IsZero nominal \<and> \<not> IsZero at \<and> ScheduleOccurrenceOutcome_valid outcome
     \<and> b = fst (consumePending (occurrence_key_of i g nominal) at (outcome_text outcome) (db_occurrences d))
     \<and> d' = d\<lparr>db_occurrences := snd (consumePending (occurrence_key_of i g nominal) at
          (outcome_text outcome) (db_occurrences d))\<rparr>"
proof -
  have v: "ScheduleOccurrence_Validate \<lparr>occ_schedule_id = i, occ_generation = g,
      occ_nominal_fire_at = UTC nominal, occ_gap = None, occ_status = OccurrenceConsumed,
      occ_created_at = UTC at, occ_consumed_at = Some (UTC at), occ_outcome = Some outcome\<rparr> = None
    \<longleftrightarrow> i \<noteq> [] \<and> 1 \<le> g \<and> \<not> IsZero nominal \<and> \<not> IsZero at \<and> ScheduleOccurrenceOutcome_valid outcome"
    by (auto simp: occurrence_valid_None)
  show ?thesis
    unfolding ConsumeScheduleOccurrence_def Let_def
    using v by (auto simp: case_prod_unfold split: option.splits)
qed

text \<open>
  Consuming an occurrence succeeds exactly when its row is pending; then the row carries the
  consumed mark, the instant and the outcome, every other row and table is as it was, and a second
  consumption of it changes nothing.
\<close>

theorem ConsumeScheduleOccurrence_spec:
  assumes "ConsumeScheduleOccurrence i g nominal outcome at d = Inr (b, d')"
    and "k = occurrence_key_of i g nominal"
  shows "(b \<longleftrightarrow> (\<exists>r. map_of (db_occurrences d) k = Some r \<and> orow_status r = ''pending''))
    \<and> (b \<longrightarrow> (\<exists>r. map_of (db_occurrences d) k = Some r
         \<and> map_of (db_occurrences d') k = Some (r\<lparr>orow_status := ''consumed'',
             orow_consumed_at := Some (UTC at), orow_outcome := Some (outcome_text outcome)\<rparr>)))
    \<and> (\<not> b \<longrightarrow> d' = d)
    \<and> (\<forall>j. j \<noteq> k \<longrightarrow> map_of (db_occurrences d') j = map_of (db_occurrences d) j)
    \<and> d' = d\<lparr>db_occurrences := db_occurrences d'\<rparr>
    \<and> (\<forall>out2 at2 b2 d2. ConsumeScheduleOccurrence i g nominal out2 at2 d' = Inr (b2, d2) \<longrightarrow>
         \<not> b2 \<and> d2 = d')"
  using assms by (auto simp: ConsumeScheduleOccurrence_Inr consumePending_def update_conv'
      split: option.splits)

lemma CreatePending_Inr:
  "CreatePendingScheduleOccurrence oc d = Inr (b, d') \<longleftrightarrow>
     ScheduleOccurrence_Validate oc = None \<and> occ_status oc = OccurrencePending
     \<and> (let r = insertPending (occ_schedule_id oc, occ_generation oc, UnixNano (occ_nominal_fire_at oc))
            \<lparr>orow_status = ''pending'', orow_gap_missed = map_option gap_missed_occurrences (occ_gap oc),
             orow_gap_earliest = map_option (\<lambda>g. UnixNano (gap_earliest_missed_at g)) (occ_gap oc),
             orow_created_at = UTC (occ_created_at oc), orow_consumed_at = None, orow_outcome = None\<rparr>
            (db_occurrences d)
        in b = fst r \<and> d' = d\<lparr>db_occurrences := snd r\<rparr>)"
  by (auto simp: CreatePendingScheduleOccurrence_def Let_def case_prod_unfold split: option.splits)

text \<open>Instants the ledger stores exactly: nanosecond columns in range, text columns in range.\<close>

definition storable :: "ScheduleOccurrence \<Rightarrow> bool" where
  "storable oc \<longleftrightarrow> nano_range (occ_nominal_fire_at oc) \<and> rfc3339_ok (occ_created_at oc)
     \<and> (case occ_gap oc of None \<Rightarrow> True | Some g \<Rightarrow> nano_range (gap_earliest_missed_at g))"

lemma enum_parse_pending [simp]:
  "enum_parse occurrence_status_text AllScheduleOccurrenceStatuses OccurrenceStatusOther ''pending''
     = OccurrencePending"
  by code_simp

lemma enum_parse_consumed [simp]:
  "enum_parse occurrence_status_text AllScheduleOccurrenceStatuses OccurrenceStatusOther ''consumed''
     = OccurrenceConsumed"
  by code_simp

lemma valid_occurrenceD:
  assumes "ScheduleOccurrence_Validate oc = None"
  shows "occ_schedule_id oc \<noteq> []" "1 \<le> occ_generation oc"
    "is_utc (occ_nominal_fire_at oc)" "\<not> IsZero (occ_nominal_fire_at oc)"
    "is_utc (occ_created_at oc)" "\<not> IsZero (occ_created_at oc)"
    "\<And>g. occ_gap oc = Some g \<Longrightarrow> ScheduleFireGap_Validate g = None
       \<and> Before (gap_earliest_missed_at g) (occ_nominal_fire_at oc)"
    "occ_consumed_at oc \<noteq> None \<longleftrightarrow> occ_status oc = OccurrenceConsumed"
    "occ_outcome oc \<noteq> None \<longleftrightarrow> occ_status oc = OccurrenceConsumed"
  using assms by (simp_all only: occurrence_valid_None) blast+

text \<open>
  A pending occurrence that was created reads back as it was written: identity, gap, creation
  instant and pending status.
\<close>

theorem CreatePending_roundtrip:
  assumes "CreatePendingScheduleOccurrence oc d = Inr (True, d')" and "storable oc"
  shows "GetScheduleOccurrence (occ_schedule_id oc) (occ_generation oc) (occ_nominal_fire_at oc) d'
    = Inr oc"
proof -
  from assms(1) have v: "ScheduleOccurrence_Validate oc = None" and p: "occ_status oc = OccurrencePending"
    by (simp_all add: CreatePending_Inr)
  note va = valid_occurrenceD [OF v]
  have n: "UnixZero (UnixNano (occ_nominal_fire_at oc)) = occ_nominal_fire_at oc"
    using assms(2) va(3) by (simp add: storable_def UnixZero_UnixNano)
  have c: "occ_consumed_at oc = None" "occ_outcome oc = None" using va(8,9) p by simp_all
  have g: "gap_of_columns (map_option gap_missed_occurrences (occ_gap oc))
      (map_option (\<lambda>g. UnixNano (gap_earliest_missed_at g)) (occ_gap oc)) = occ_gap oc"
  proof (cases "occ_gap oc")
    case (Some g)
    with va(7) have "is_utc (gap_earliest_missed_at g)"
      by (simp add: ScheduleFireGap_Validate_def validation)
    with Some assms(2) show ?thesis by (cases g) (simp add: storable_def gap_of_columns_def UnixZero_UnixNano)
  qed (simp add: gap_of_columns_def)
  have oc: "\<lparr>occ_schedule_id = occ_schedule_id oc, occ_generation = occ_generation oc,
      occ_nominal_fire_at = occ_nominal_fire_at oc, occ_gap = occ_gap oc,
      occ_status = OccurrencePending, occ_created_at = occ_created_at oc, occ_consumed_at = None,
      occ_outcome = None\<rparr> = oc"
    using c p by (cases oc) simp
  have row: "map_of (db_occurrences d') (occ_schedule_id oc, occ_generation oc,
       UnixNano (occ_nominal_fire_at oc)) =
     Some \<lparr>orow_status = ''pending'', orow_gap_missed = map_option gap_missed_occurrences (occ_gap oc),
       orow_gap_earliest = map_option (\<lambda>g. UnixNano (gap_earliest_missed_at g)) (occ_gap oc),
       orow_created_at = UTC (occ_created_at oc), orow_consumed_at = None, orow_outcome = None\<rparr>"
    using assms(1) by (auto simp: CreatePending_Inr insertPending_def Let_def
        update_conv' split: option.splits)
  have "rfc3339_ok (occ_created_at oc)" using assms(2) by (simp add: storable_def)
  then show ?thesis
    using va(3,5) v by (simp add: GetScheduleOccurrence_def row scanOccurrence_def parseTime_def
        occurrence_key_of_def n g oc)
qed

section \<open>The due lists\<close>

lemma in_map_filter: "y \<in> set (List.map_filter f xs) \<longleftrightarrow> (\<exists>x \<in> set xs. f x = Some y)"
  by (induction xs) (auto simp: map_filter_simps split: option.splits)

lemma db_ok_in_set:
  "db_ok d \<Longrightarrow> (i, r) \<in> set (db_schedules d) \<longleftrightarrow> map_of (db_schedules d) i = Some r"
  unfolding db_ok_def by (elim conjE) (rule in_table_iff)

lemma row_armed_iff: "schedule_row_ok i r \<Longrightarrow> row_status r = ''armed'' \<longleftrightarrow> sched_status (row_body r) = ScheduleArmed"
proof -
  assume ok: "schedule_row_ok i r"
  then have "row_status r = row_status (schedule_columns (row_body r) (row_entity_version r) (row_as_of_revision r))"
    and v: "Schedule_Validate (row_body r) = None"
    unfolding schedule_row_ok_def by auto
  then show ?thesis using valid_scheduleD(7) [OF v] by (cases "sched_status (row_body r)") auto
qed

lemma row_fire_at_eq: "schedule_row_ok i r \<Longrightarrow> row_fire_at r = map_option UnixNano (sched_fire_at (row_body r))"
  using schedule_columns_simps(4) unfolding schedule_row_ok_def by metis

text \<open>Every stored deadline is in the range a nanosecond column represents.\<close>

definition deadlines_in_range :: "db \<Rightarrow> bool" where
  "deadlines_in_range d \<longleftrightarrow> (\<forall>i r t. map_of (db_schedules d) i = Some r \<longrightarrow>
     sched_fire_at (row_body r) = Some t \<longrightarrow> nano_range t)"

lemma dueOneShotRows_iff:
  assumes "db_ok d"
  shows "r \<in> set (dueOneShotRows now d) \<longleftrightarrow>
    (\<exists>i. map_of (db_schedules d) i = Some r \<and> sched_status (row_body r) = ScheduleArmed
       \<and> (\<exists>t. sched_fire_at (row_body r) = Some t \<and> UnixNano t \<le> now))"
proof -
  have "row_status r = ''armed'' \<and> (case row_fire_at r of None \<Rightarrow> False | Some n \<Rightarrow> n \<le> now)
    \<longleftrightarrow> sched_status (row_body r) = ScheduleArmed
       \<and> (\<exists>t. sched_fire_at (row_body r) = Some t \<and> UnixNano t \<le> now)"
    if "map_of (db_schedules d) i = Some r" for i
    using row_armed_iff [OF db_ok_row [OF assms that]] row_fire_at_eq [OF db_ok_row [OF assms that]]
    by (auto split: option.splits)
  then show ?thesis
    by (auto simp: dueOneShotRows_def db_ok_in_set [OF assms] image_iff)
qed

lemma dueRecurringRows_iff:
  assumes "db_ok d"
  shows "(r, g, n) \<in> set (dueRecurringRows now d) \<longleftrightarrow>
    (\<exists>i. map_of (db_schedules d) i = Some r \<and> sched_status (row_body r) = ScheduleArmed
       \<and> map_of (db_timers d) i = Some (g, n) \<and> n \<le> now)"
proof -
  have "(r, g, n) \<in> set (dueRecurringRows now d) \<longleftrightarrow> (\<exists>i. map_of (db_schedules d) i = Some r
      \<and> map_of (db_timers d) i = Some (g, n) \<and> row_status r = ''armed'' \<and> n \<le> now)"
  proof
    assume "(r, g, n) \<in> set (dueRecurringRows now d)"
    then obtain i b where "(i, b) \<in> set (db_schedules d)" and
      "(case map_of (db_timers d) i of None \<Rightarrow> None
        | Some (g, n) \<Rightarrow> if row_status b = ''armed'' \<and> n \<le> now then Some (b, g, n) else None) = Some (r, g, n)"
      unfolding dueRecurringRows_def in_map_filter by auto
    then show "\<exists>i. map_of (db_schedules d) i = Some r \<and> map_of (db_timers d) i = Some (g, n)
        \<and> row_status r = ''armed'' \<and> n \<le> now"
      unfolding db_ok_in_set [OF assms] by (auto split: option.splits if_splits)
  next
    assume "\<exists>i. map_of (db_schedules d) i = Some r \<and> map_of (db_timers d) i = Some (g, n)
        \<and> row_status r = ''armed'' \<and> n \<le> now"
    then obtain i where "(i, r) \<in> set (db_schedules d)" "map_of (db_timers d) i = Some (g, n)"
        "row_status r = ''armed''" "n \<le> now"
      unfolding db_ok_in_set [OF assms, symmetric] by blast
    then show "(r, g, n) \<in> set (dueRecurringRows now d)"
      by (auto simp: dueRecurringRows_def in_map_filter intro!: bexI [of _ "(i, r)"])
  qed
  then show ?thesis using row_armed_iff [OF db_ok_row [OF assms]] by blast
qed

definition is_due :: "gotime \<Rightarrow> db \<Rightarrow> DueSchedule \<Rightarrow> bool" where
  "is_due now d x \<longleftrightarrow> (let s = due_schedule x in
     GetSchedule (sched_id s) d = Inr s \<and> sched_status s = ScheduleArmed
     \<and> (sched_fire_at s = Some (due_nominal_fire_at x) \<and> \<not> After (due_nominal_fire_at x) now
        \<or> (\<exists>n. map_of (db_timers d) (sched_id s) = Some (sched_generation s, n)
             \<and> n \<le> UnixNano now \<and> due_nominal_fire_at x = UnixZero n)))"

definition one_shot_due :: "schedule_row \<Rightarrow> DueSchedule" where
  "one_shot_due r = \<lparr>due_schedule = row_body r, due_nominal_fire_at = the (sched_fire_at (row_body r))\<rparr>"

definition recurring_due :: "schedule_row \<times> int \<times> int \<Rightarrow> DueSchedule \<times> int" where
  "recurring_due = (\<lambda>(r, g, n). (\<lparr>due_schedule = row_body r, due_nominal_fire_at = UnixZero n\<rparr>, g))"

lemma one_shot_due_iff:
  assumes ok: "db_ok d" and range: "deadlines_in_range d" and now: "nano_range now"
  shows "x \<in> one_shot_due ` set (dueOneShotRows (UnixNano now) d) \<longleftrightarrow>
     (\<exists>r. map_of (db_schedules d) (sched_id (due_schedule x)) = Some r
        \<and> row_body r = due_schedule x \<and> sched_status (due_schedule x) = ScheduleArmed
        \<and> sched_fire_at (due_schedule x) = Some (due_nominal_fire_at x)
        \<and> \<not> After (due_nominal_fire_at x) now)" (is "?l \<longleftrightarrow> ?r")
proof -
  have "?l \<longleftrightarrow> (\<exists>r i t. map_of (db_schedules d) i = Some r
      \<and> sched_status (row_body r) = ScheduleArmed \<and> sched_fire_at (row_body r) = Some t
      \<and> \<not> After t now \<and> x = \<lparr>due_schedule = row_body r, due_nominal_fire_at = t\<rparr>)"
    using range UnixNano_le_iff [OF _ now]
    unfolding image_iff Bex_def dueOneShotRows_iff [OF ok] one_shot_due_def deadlines_in_range_def
    by (metis option.sel)
  also have "\<dots> \<longleftrightarrow> ?r" by (cases x) (auto dest: db_ok_row_facts(1) [OF ok])
  finally show ?thesis .
qed

lemma recurring_due_iff:
  assumes ok: "db_ok d"
  shows "(\<exists>g. (x, g) \<in> recurring_due ` set (dueRecurringRows (UnixNano now) d)
        \<and> g = sched_generation (due_schedule x)) \<longleftrightarrow>
     (\<exists>r n. map_of (db_schedules d) (sched_id (due_schedule x)) = Some r
        \<and> row_body r = due_schedule x \<and> sched_status (due_schedule x) = ScheduleArmed
        \<and> map_of (db_timers d) (sched_id (due_schedule x)) = Some (sched_generation (due_schedule x), n)
        \<and> n \<le> UnixNano now \<and> due_nominal_fire_at x = UnixZero n)" (is "?l \<longleftrightarrow> ?r")
proof -
  have "?l \<longleftrightarrow> (\<exists>r n. (r, sched_generation (row_body r), n) \<in> set (dueRecurringRows (UnixNano now) d)
      \<and> x = \<lparr>due_schedule = row_body r, due_nominal_fire_at = UnixZero n\<rparr>)"
    by (force simp: recurring_due_def image_iff Bex_def)
  also have "\<dots> \<longleftrightarrow> ?r"
    unfolding dueRecurringRows_iff [OF ok] by (cases x) (auto dest: db_ok_row_facts(1) [OF ok])
  finally show ?thesis .
qed

lemma ListDueSchedules_eq:
  assumes ok: "db_ok d"
  shows "ListDueSchedules now d = Inr (map one_shot_due (dueOneShotRows (UnixNano now) d) @ 
    map fst (filter (\<lambda>(x, g). g = sched_generation (due_schedule x))
      (map recurring_due (dueRecurringRows (UnixNano now) d))))"
proof -
  let ?A = "dueOneShotRows (UnixNano now) d" and ?B = "dueRecurringRows (UnixNano now) d"
  have "queryAll (\<lambda>r. ebind (scanScheduleSnapshot r) (\<lambda>(s, _). case sched_fire_at s of
       None \<Rightarrow> Inl (Panic ''nil dereference'')
     | Some t \<Rightarrow> Inr \<lparr>due_schedule = s, due_nominal_fire_at = t\<rparr>)) ?A = Inr (map one_shot_due ?A)"
    by (rule queryAll_map)
      (auto simp: dueOneShotRows_iff [OF ok] one_shot_due_def dest!: scan_row_ok [OF db_ok_row [OF ok]])
  moreover have "queryAll (\<lambda>(r, g, n). ebind (scanScheduleSnapshot r) (\<lambda>(s, _).
      Inr (\<lparr>due_schedule = s, due_nominal_fire_at = UnixZero n\<rparr>, g))) ?B = Inr (map recurring_due ?B)"
    by (rule queryAll_map)
      (auto simp: dueRecurringRows_iff [OF ok] recurring_due_def dest!: scan_row_ok [OF db_ok_row [OF ok]])
  ultimately show ?thesis by (simp add: ListDueSchedules_def)
qed

text \<open>
  The due list never fails on a well-formed store, and holds exactly the armed schedules whose
  deadline, or whose timer of the current generation, is at or before now.
\<close>

theorem ListDueSchedules_exact:
  assumes ok: "db_ok d" and range: "deadlines_in_range d" and now: "nano_range now"
  shows "\<exists>due. ListDueSchedules now d = Inr due \<and> (\<forall>x. x \<in> set due \<longleftrightarrow> is_due now d x)"
proof -
  have m: "x \<in> set (map fst (filter (\<lambda>(x, g). g = sched_generation (due_schedule x)) xs)) \<longleftrightarrow>
      (\<exists>g. (x, g) \<in> set xs \<and> g = sched_generation (due_schedule x))" for x and xs :: "(DueSchedule \<times> int) list"
    by force
  have "x \<in> set (map one_shot_due (dueOneShotRows (UnixNano now) d) @
      map fst (filter (\<lambda>(x, g). g = sched_generation (due_schedule x))
        (map recurring_due (dueRecurringRows (UnixNano now) d)))) \<longleftrightarrow> is_due now d x" for x
    unfolding set_append Un_iff set_map [of one_shot_due] one_shot_due_iff [OF assms]
      m set_map [of recurring_due] recurring_due_iff [OF ok] is_due_def Let_def GetSchedule_Inr [OF ok]
    by blast
  with ListDueSchedules_eq [OF ok] show ?thesis by blast
qed

definition example_occurrence :: ScheduleOccurrence where
  "example_occurrence = \<lparr>occ_schedule_id = ''pr-checks/item-1'', occ_generation = 1,
     occ_nominal_fire_at = UnixZero 3600,
     occ_gap = Some \<lparr>gap_missed_occurrences = 2, gap_earliest_missed_at = UnixZero 1200\<rparr>,
     occ_status = OccurrencePending, occ_created_at = UnixZero 3700, occ_consumed_at = None,
     occ_outcome = None\<rparr>"

definition example_db :: db where
  "example_db = empty_db\<lparr>db_schedules := [(sched_id example_deadline, schedule_columns example_deadline 1 1)],
     db_occurrences := snd (insertPending (''pr-checks/item-1'', 1, 3600)
       \<lparr>orow_status = ''pending'', orow_gap_missed = Some 2, orow_gap_earliest = Some 1200,
        orow_created_at = UnixZero 3700, orow_consumed_at = None, orow_outcome = None\<rparr> []),
     db_revision := 1\<rparr>"

lemma example_db_ok: "db_ok example_db"
  using example_valid(1)
  by (simp add: example_db_def empty_db_def db_ok_def insertPending_def schedule_row_ok_def
      keys_ok_def min_int64_def max_int64_def)

lemma example_create:
  "CreatePendingScheduleOccurrence example_occurrence empty_db =
   Inr (True, empty_db\<lparr>db_occurrences := db_occurrences example_db\<rparr>)"
proof -
  have "ScheduleOccurrence_Validate example_occurrence = None"
    and "occ_status example_occurrence = OccurrencePending" by code_simp+
  then show ?thesis
    by (simp add: CreatePending_Inr Let_def insertPending_def example_occurrence_def example_db_def
        empty_db_def UnixNano_def max_int64_def min_int64_def)
qed

theorem CreatePending_roundtrip_witness:
  "\<exists>d'. CreatePendingScheduleOccurrence example_occurrence empty_db = Inr (True, d')
     \<and> GetScheduleOccurrence ''pr-checks/item-1'' 1 (UnixZero 3600) d' = Inr example_occurrence"
proof -
  have "storable example_occurrence" by code_simp
  from CreatePending_roundtrip [OF example_create this] example_create show ?thesis
    by (simp add: example_occurrence_def)
qed

theorem ConsumeScheduleOccurrence_spec_witness:
  "\<exists>d'. ConsumeScheduleOccurrence ''pr-checks/item-1'' 1 (UnixZero 3600) OutcomeHandled (UnixZero 3800)
      example_db = Inr (True, d')
    \<and> (\<exists>r. map_of (db_occurrences d') (''pr-checks/item-1'', 1, 3600) = Some r
         \<and> orow_status r = ''consumed'' \<and> orow_outcome r = Some ''handled'')"
proof -
  let ?c = "ConsumeScheduleOccurrence ''pr-checks/item-1'' 1 (UnixZero 3600) OutcomeHandled (UnixZero 3800)
      example_db"
  have "\<not> isl ?c" "fst (projr ?c)" by code_simp+
  then obtain d' where d': "?c = Inr (True, d')" by (cases ?c) auto
  have k: "(''pr-checks/item-1'', 1, 3600) = occurrence_key_of ''pr-checks/item-1'' 1 (UnixZero 3600)"
    by code_simp
  from ConsumeScheduleOccurrence_spec [OF d' k] d' show ?thesis by auto
qed

theorem ListDueSchedules_exact_witness:
  "\<exists>due. ListDueSchedules (UnixZero 3600) example_db = Inr due
     \<and> \<lparr>due_schedule = example_deadline, due_nominal_fire_at = UnixZero 3600\<rparr> \<in> set due"
proof -
  have r: "deadlines_in_range example_db" and n: "nano_range (UnixZero 3600)"
    by (auto simp: deadlines_in_range_def example_db_def empty_db_def example_deadline_def
        schedule_columns_def nano_range_def min_int64_def max_int64_def split: if_splits)
  have "is_due (UnixZero 3600) example_db
      \<lparr>due_schedule = example_deadline, due_nominal_fire_at = UnixZero 3600\<rparr>"
    by (auto simp: is_due_def Let_def GetSchedule_Inr [OF example_db_ok] After_def)
      (simp_all add: example_db_def example_deadline_def schedule_columns_def)
  with ListDueSchedules_exact [OF example_db_ok r n] show ?thesis by blast
qed

section \<open>What every operation keeps\<close>

lemma db_ok_frame:
  "db_ok d \<Longrightarrow> db_schedules d' = db_schedules d \<Longrightarrow> distinct_keys (db_timers d') \<Longrightarrow>
     distinct_keys (db_occurrences d') \<Longrightarrow> keys_ok (db_occurrences d') \<Longrightarrow> 0 \<le> db_revision d' \<Longrightarrow> db_ok d'"
  by (simp add: db_ok_def)

lemma consumePending_distinct: "distinct_keys t \<Longrightarrow> distinct_keys (snd (consumePending k at out t))"
  by (auto simp: consumePending_def tbl.keyed_upsert split: option.splits)

lemma insertPending_distinct: "distinct_keys t \<Longrightarrow> distinct_keys (snd (insertPending k row t))"
  by (auto simp: insertPending_def tbl.keyed_upsert split: option.splits)

lemma consumePending_keys: "keys_ok t \<Longrightarrow> keys_ok (snd (consumePending k at out t))"
  by (cases k) (auto simp: consumePending_def intro!: keys_ok_update dest: keys_ok_lookup
      split: option.split)

lemma insertPending_keys: "keys_ok t \<Longrightarrow> is_int64 (snd (snd k)) \<Longrightarrow> keys_ok (snd (insertPending k row t))"
  by (auto simp: insertPending_def intro!: keys_ok_update split: option.split)

lemma UnixNano_range: "is_int64 (UnixNano t)"
  unfolding UnixNano_def by (rule wrap64_range)

text \<open>An operation keeps the store well formed and never reopens or drops an occurrence.\<close>

definition sound_op :: "db \<Rightarrow> db \<Rightarrow> bool" where
  "sound_op d d' \<longleftrightarrow> (db_ok d \<longrightarrow> db_ok d') \<and> occurrences_grow d d'"

lemma sound_op_refl [simp]: "sound_op d d"
  by (simp add: sound_op_def)

lemma sound_op_trans: "sound_op a b \<Longrightarrow> sound_op b c \<Longrightarrow> sound_op a c"
  unfolding sound_op_def by (blast intro: ledger_grows_trans)

named_theorems sound_ops \<open>every store operation is a sound operation\<close>

lemma PutSchedule_sound [sound_ops]: "PutSchedule s d = Inr d' \<Longrightarrow> sound_op d d'"
  using PutSchedule_db_ok PutSchedule_frame [of s d d'] by (auto simp: sound_op_def)

lemma SetScheduleTimer_sound [sound_ops]: "SetScheduleTimer i g n d = Inr d' \<Longrightarrow> sound_op d d'"
  by (auto simp: SetScheduleTimer_def sound_op_def db_ok_def tbl.keyed_upsert split: if_splits)

lemma DeleteScheduleTimer_sound [sound_ops]: "DeleteScheduleTimer i d = Inr d' \<Longrightarrow> sound_op d d'"
  by (auto simp: DeleteScheduleTimer_def sound_op_def db_ok_def tbl.keyed_remove split: if_splits)

lemma ConsumeScheduleOccurrence_sound [sound_ops]:
  "ConsumeScheduleOccurrence i g n out at d = Inr (b, d') \<Longrightarrow> sound_op d d'"
  using occ_ledger.settle_grows [of "db_occurrences d" "occurrence_key_of i g n" "(at, outcome_text out)"]
  by (auto simp: ConsumeScheduleOccurrence_Inr sound_op_def db_ok_def consumePending_distinct
      consumePending_keys)

lemma CreatePending_sound [sound_ops]:
  "CreatePendingScheduleOccurrence oc d = Inr (b, d') \<Longrightarrow> sound_op d d'"
  using occ_ledger.insert_grows [of "db_occurrences d"]
  by (auto simp: CreatePending_Inr Let_def sound_op_def db_ok_def insertPending_distinct
      insertPending_keys UnixNano_range)

lemma Write_sound [sound_ops]:
  assumes "\<And>e. f d = Inr e \<Longrightarrow> sound_op d e" and "Write f d = Inr d'"
  shows "sound_op d d'"
proof -
  from assms(2) obtain e where e: "f d = Inr e" and d': "d' = e\<lparr>db_revision := db_revision e + 1\<rparr>"
    by (auto simp: Write_def ebind_Inr_iff)
  have "sound_op e d'" by (auto simp: d' sound_op_def db_ok_def)
  with assms(1) [OF e] show ?thesis by (rule sound_op_trans)
qed

end
