(* ===== verification/Scheduler.thy ===== *)
theory Scheduler
  imports ScheduleStore
begin

text \<open>
  \<open>daemon/internal/scheduler/scheduler.go\<close>: the loop that drives the durable schedules. A pass
  redelivers pending occurrences and fires due schedules; a fire validates authority, expiry and
  subject, converges the pending occurrence onto the latest nominal instant, and dispatches the
  registered handler; consuming a handler's answer commits its outcome and the occurrence's consumed
  mark in one transaction.

  Handlers, subject checks and a consumption's \<open>Commit\<close> are parameters (they belong to other
  components). A function with several transactions returns its error beside the database it leaves,
  since an early transaction stays committed; a single transaction returns the error alone. The
  goroutine a fire starts is the job it dispatches, run later (\<open>runJob\<close>), in any order
  relative to other work.
\<close>

section \<open>Configuration and state\<close>

record Consumption =
  con_outcome :: ScheduleOccurrenceOutcome
  con_schedule :: "Schedule option"
  con_commit :: "(db \<Rightarrow> err + db) option"

record Registration =
  reg_handle :: "ScheduleEvent \<Rightarrow> Schedule \<Rightarrow> err + Consumption"
  reg_subject_live :: "(Schedule \<Rightarrow> err + bool) option"

record config =
  cfg_mode :: OperatingMode
  cfg_kinds :: "(ScheduleKind \<times> Registration) list"

record job =
  job_schedule :: Schedule
  job_occurrence :: ScheduleOccurrence
  job_event :: ScheduleEvent

record scheduler =
  sch_db :: db
  sch_in_flight :: "string list"
  sch_jobs :: "job list"
  sch_errs :: "err option"

text \<open>\<open>New\<close> requires handlers to be present by type; it checks the rest.\<close>

definition New :: "OperatingMode \<Rightarrow> (ScheduleKind \<times> Registration) list \<Rightarrow> err + config" where
  "New mode kinds =
     (if kinds = [] then Inl (ErrText ''scheduler: no registered kinds'')
      else if \<exists>(k, r) \<in> set kinds. k = ScheduleInstallationPoll \<and> reg_subject_live r = None
      then Inl (ErrText ''scheduler: kind requires an activation-state check'')
      else Inr \<lparr>cfg_mode = mode, cfg_kinds = kinds\<rparr>)"

section \<open>Settling and arming\<close>

fun consumeAll ::
  "ScheduleOccurrence list \<Rightarrow> string \<Rightarrow> ScheduleOccurrenceOutcome \<Rightarrow> gotime \<Rightarrow> db \<Rightarrow> err + db" where
  "consumeAll [] i outcome now d = Inr d"
| "consumeAll (oc # ocs) i outcome now d =
     (if occ_schedule_id oc \<noteq> i then consumeAll ocs i outcome now d
      else ebind (ConsumeScheduleOccurrence (occ_schedule_id oc) (occ_generation oc)
             (occ_nominal_fire_at oc) outcome (UTC now) d)
           (\<lambda>(_, d'). consumeAll ocs i outcome now d'))"

definition settlePending ::
  "string \<Rightarrow> ScheduleOccurrenceOutcome \<Rightarrow> gotime \<Rightarrow> db \<Rightarrow> err + db" where
  "settlePending i outcome now d =
     ebind (ListPendingScheduleOccurrences d) (\<lambda>pending. consumeAll pending i outcome now d)"

definition seedTimer :: "Schedule \<Rightarrow> gotime \<Rightarrow> db \<Rightarrow> err + db" where
  "seedTimer s firstFireAt d =
     (if OneShot (sched_kind s) then DeleteScheduleTimer (sched_id s) d
      else SetScheduleTimer (sched_id s) (sched_generation s) firstFireAt d)"

definition normalizeShape :: "Schedule \<Rightarrow> Schedule" where
  "normalizeShape s = s\<lparr>sched_generation := 1, sched_created_at := \<lparr>unix_ns = zero_ns, is_utc = True\<rparr>,
     sched_status := ScheduleArmed, sched_resolution := None\<rparr>"

definition sameShape :: "Schedule \<Rightarrow> Schedule \<Rightarrow> bool" where
  "sameShape a b =
     (if \<not> json_ok (normalizeShape a) \<or> \<not> json_ok (normalizeShape b) then False
      else normalizeShape a = normalizeShape b)"

definition Converge :: "Schedule \<Rightarrow> gotime \<Rightarrow> db \<Rightarrow> err + db" where
  "Converge desired firstFireAt d =
     (case Schedule_Validate desired of
        Some e \<Rightarrow> Inl e
      | None \<Rightarrow>
     if sched_status desired \<noteq> ScheduleArmed then Inl (ErrText ''arm schedule: status'')
     else case GetSchedule (sched_id desired) d of
        Inl ErrNotFound \<Rightarrow>
          ebind (PutSchedule desired d) (seedTimer desired firstFireAt)
      | Inl e \<Rightarrow> Inl e
      | Inr existing \<Rightarrow>
          if sched_status existing = ScheduleArmed \<and> sameShape existing desired
          then (if OneShot (sched_kind existing) then Inr d
                else ebind (GetScheduleTimer (sched_id existing) d) (\<lambda>timer. case timer of
                    Some _ \<Rightarrow> Inr d
                  | None \<Rightarrow> SetScheduleTimer (sched_id existing) (sched_generation existing)
                      firstFireAt d))
          else ebind (ReArmed existing (sched_subject desired) (sched_fire_at desired)
                        (sched_created_at desired)) (\<lambda>rearmed.
               let reArmed = rearmed\<lparr>sched_interval_seconds := sched_interval_seconds desired,
                     sched_expires_at := sched_expires_at desired\<rparr>
               in case Schedule_Validate reArmed of
                    Some e \<Rightarrow> Inl e
                  | None \<Rightarrow> ebind (PutSchedule reArmed d) (\<lambda>d'.
                      ebind (settlePending (sched_id reArmed) OutcomeStaleGeneration
                               (sched_created_at desired) d')
                        (seedTimer reArmed firstFireAt))))"

definition Arm :: "Schedule \<Rightarrow> gotime \<Rightarrow> db \<Rightarrow> err + db" where
  "Arm desired firstFireAt = Write (Converge desired firstFireAt)"

section \<open>The latest nominal fire\<close>

text \<open>\<open>time.Duration(secs) * time.Second\<close> and Go's truncating division, which panics on zero.\<close>

definition interval_of :: "int \<Rightarrow> int" where
  "interval_of secs = wrap64 (secs * second_ns)"

definition go_div :: "int \<Rightarrow> int \<Rightarrow> err + int" where
  "go_div a b = (if b = 0 then Inl (Panic ''integer divide by zero'') else Inr (wrap64 (a sdiv b)))"

definition cloneGap :: "ScheduleOccurrence option \<Rightarrow> ScheduleFireGap option" where
  "cloneGap oc = (case oc of None \<Rightarrow> None | Some x \<Rightarrow> occ_gap x)"

record nominal_fire =
  nf_nominal :: gotime
  nf_gap :: "ScheduleFireGap option"
  nf_next :: "gotime option"

definition coalesce ::
  "gotime \<Rightarrow> int \<Rightarrow> ScheduleOccurrence option \<Rightarrow> gotime \<Rightarrow> err + nominal_fire" where
  "coalesce base interval redelivered now =
     ebind (if interval \<le> Sub now base then go_div (Sub now base) interval else Inr 0) (\<lambda>missed.
       let nominal = Add base (wrap64 (missed * interval));
           gap = (if 0 < missed
             then (case cloneGap redelivered of
                 Some g \<Rightarrow> Some \<lparr>gap_missed_occurrences = wrap64 (missed + gap_missed_occurrences g),
                    gap_earliest_missed_at = gap_earliest_missed_at g\<rparr>
               | None \<Rightarrow> Some \<lparr>gap_missed_occurrences = missed, gap_earliest_missed_at = base\<rparr>)
             else cloneGap redelivered)
       in Inr \<lparr>nf_nominal = nominal, nf_gap = gap, nf_next = Some (Add nominal interval)\<rparr>)"

text \<open>\<open>None\<close> is the code's \<open>live = false\<close>: the clock no longer belongs to this generation.\<close>

definition latestNominal ::
  "Schedule \<Rightarrow> ScheduleOccurrence option \<Rightarrow> gotime \<Rightarrow> db \<Rightarrow> err + nominal_fire option" where
  "latestNominal s redelivered now d =
     (if OneShot (sched_kind s)
      then (case sched_fire_at s of
          None \<Rightarrow> Inl (Panic ''nil dereference'')
        | Some t \<Rightarrow> Inr (Some \<lparr>nf_nominal = t, nf_gap = cloneGap redelivered, nf_next = None\<rparr>))
      else case sched_interval_seconds s of
          None \<Rightarrow> Inl (Panic ''nil dereference'')
        | Some secs \<Rightarrow>
            (case redelivered of
               Some oc \<Rightarrow> map_sum id Some
                 (coalesce (occ_nominal_fire_at oc) (interval_of secs) redelivered now)
             | None \<Rightarrow> ebind (GetScheduleTimer (sched_id s) d) (\<lambda>timer. case timer of
                   None \<Rightarrow> Inl (ErrText ''recurring schedule has no timer'')
                 | Some (g, next) \<Rightarrow>
                     if g \<noteq> sched_generation s \<or> After next now then Inr None
                     else map_sum id Some (coalesce next (interval_of secs) redelivered now))))"

section \<open>Converging the pending occurrence\<close>

text \<open>The transaction of \<open>convergeOccurrence\<close>; \<open>None\<close> is \<open>deliverable = false\<close>.\<close>

definition convergeTx ::
  "Schedule \<Rightarrow> ScheduleOccurrence option \<Rightarrow> ScheduleOccurrence \<Rightarrow> gotime option \<Rightarrow> gotime \<Rightarrow> db
   \<Rightarrow> err + (ScheduleOccurrence option \<times> db)" where
  "convergeTx s redelivered oc next now d =
     ebind (case next of
         None \<Rightarrow> Inr True
       | Some _ \<Rightarrow> ebind (GetScheduleTimer (sched_id s) d) (\<lambda>timer. case timer of
             None \<Rightarrow> Inr False
           | Some (g, timerNext) \<Rightarrow> Inr (\<not> (g \<noteq> sched_generation s \<or> After timerNext now)))) (\<lambda>live.
     if \<not> live then Inr (None, d) else
     ebind (case redelivered of
         None \<Rightarrow> Inr d
       | Some r \<Rightarrow> ebind (ConsumeScheduleOccurrence (occ_schedule_id r) (occ_generation r)
             (occ_nominal_fire_at r) OutcomeCoalesced now d) (\<lambda>(_, d'). Inr d')) (\<lambda>d1.
     ebind (CreatePendingScheduleOccurrence oc d1) (\<lambda>(created, d2).
     ebind (if created then Inr (Some oc)
        else ebind (GetScheduleOccurrence (occ_schedule_id oc) (occ_generation oc)
               (occ_nominal_fire_at oc) d2) (\<lambda>existing.
             if occ_status existing \<noteq> OccurrencePending then Inr None else Inr (Some existing)))
       (\<lambda>deliver. case deliver of
           None \<Rightarrow> Inr (None, d2)
         | Some oc' \<Rightarrow> (case next of
               None \<Rightarrow> Inr (Some oc', d2)
             | Some n \<Rightarrow> ebind (SetScheduleTimer (sched_id s) (sched_generation s) n d2)
                 (\<lambda>d3. Inr (Some oc', d3)))))))"

definition convergeOccurrence ::
  "Schedule \<Rightarrow> ScheduleOccurrence option \<Rightarrow> gotime \<Rightarrow> db \<Rightarrow> err + (ScheduleOccurrence option \<times> db)" where
  "convergeOccurrence s redelivered now d =
     ebind (latestNominal s redelivered now d) (\<lambda>nominal. case nominal of
         None \<Rightarrow> Inr (None, d)
       | Some nf \<Rightarrow>
           if (case redelivered of None \<Rightarrow> False | Some r \<Rightarrow> Equal (occ_nominal_fire_at r) (nf_nominal nf))
           then Inr (redelivered, d)
           else convergeTx s redelivered
             \<lparr>occ_schedule_id = sched_id s, occ_generation = sched_generation s,
              occ_nominal_fire_at = nf_nominal nf, occ_gap = nf_gap nf,
              occ_status = OccurrencePending, occ_created_at = now, occ_consumed_at = None,
              occ_outcome = None\<rparr> (nf_next nf) now d)"

section \<open>Fire-time validation\<close>

definition validateResolvedPolicy :: "Schedule \<Rightarrow> db \<Rightarrow> err option" where
  "validateResolvedPolicy s d = deref (subj_item_id (sched_subject s)) (\<lambda>item_id.
     case db_items d item_id of Inl e \<Rightarrow> Some e | Inr item \<Rightarrow> first_error [
       require (item_project_id item = sched_project_id s) (ErrText ''project binding''),
       require (item_subject_is_run item \<and> item_subject_run_id item = Some (item_subject_id item))
         (ErrText ''item does not identify one exact run''),
       deref (item_subject_run_id item) (\<lambda>r. deref (sched_run_id s) (\<lambda>sr. first_error [
         require (r = sr) (ErrText ''item retargeted''),
         (case db_runs d r of Inl e \<Rightarrow> Some e | Inr run \<Rightarrow> first_error [
            require (run_project_id run = sched_project_id s) (ErrText ''run project binding''),
            (case db_policies d (run_id run) of Inl e \<Rightarrow> Some e | Inr policy \<Rightarrow>
              deref (sched_policy_digest s) (\<lambda>pd.
                require (policy_run_id policy = run_id run
                  \<and> policy_digest policy = run_policy_digest run
                  \<and> run_policy_digest run = pd) (ErrText ''policy binding mismatch'')))])]))])"

definition validateFireAuthority :: "Schedule \<Rightarrow> db \<Rightarrow> err option" where
  "validateFireAuthority s d = (case sched_kind s of
     SchedulePRChecksDeadline \<Rightarrow> validateResolvedPolicy s d
   | ScheduleReviewWaitThreshold \<Rightarrow> validateResolvedPolicy s d
   | ScheduleInstallationPoll \<Rightarrow> None
   | ScheduleDoctor \<Rightarrow> None | ScheduleJanitor \<Rightarrow> None | ScheduleImageUpkeep \<Rightarrow> None
   | ScheduleKindOther _ \<Rightarrow> Some (ErrText ''kind has no authority class''))"

definition subjectLive :: "Registration \<Rightarrow> Schedule \<Rightarrow> db \<Rightarrow> err + bool" where
  "subjectLive reg s d = (case reg_subject_live reg of
     Some live \<Rightarrow> live s
   | None \<Rightarrow> (case subj_type (sched_subject s) of
       ScheduleSubjectTrustedConfig \<Rightarrow> Inr True
     | ScheduleSubjectAttentionItem \<Rightarrow> (case subj_item_id (sched_subject s) of
         None \<Rightarrow> Inl (Panic ''nil dereference'')
       | Some item_id \<Rightarrow> (case db_items d item_id of
           Inl ErrNotFound \<Rightarrow> Inr False
         | Inl e \<Rightarrow> Inl e
         | Inr item \<Rightarrow> if item_project_id item \<noteq> sched_project_id s
             then Inl (ErrText ''project binding'') else Inr (item_open item)))
     | ScheduleSubjectInstallationIntent \<Rightarrow>
         Inl (ErrText ''installation_intent subject requires a registered activation check'')
     | ScheduleSubjectOther _ \<Rightarrow> Inl (ErrText ''subject type'')))"

definition concludeTx :: "Schedule \<Rightarrow> gotime \<Rightarrow> db \<Rightarrow> err + db" where
  "concludeTx concluded now d = (case GetSchedule (sched_id concluded) d of
     Inl ErrNotFound \<Rightarrow> Inr d
   | Inl e \<Rightarrow> Inl e
   | Inr current \<Rightarrow>
       if sched_generation current \<noteq> sched_generation concluded \<or> sched_status current \<noteq> ScheduleArmed
       then Inr d
       else ebind (PutSchedule concluded d) (\<lambda>d1.
            ebind (DeleteScheduleTimer (sched_id concluded) d1) (\<lambda>d2.
            settlePending (sched_id concluded) OutcomeConditionNoLongerApplies now d2)))"

definition conclude :: "Schedule \<Rightarrow> gotime \<Rightarrow> db \<Rightarrow> err + db" where
  "conclude concluded now = Write (concludeTx concluded now)"

section \<open>Fire\<close>

text \<open>A transaction whose error leaves the database as it was.\<close>

definition commit :: "(db \<Rightarrow> err + db) \<Rightarrow> scheduler \<Rightarrow> err option \<times> scheduler" where
  "commit tx st = (case tx (sch_db st) of
     Inl e \<Rightarrow> (Some e, st) | Inr d \<Rightarrow> (None, st\<lparr>sch_db := d\<rparr>))"

definition dispatch :: "Schedule \<Rightarrow> ScheduleOccurrence \<Rightarrow> ScheduleEvent \<Rightarrow> scheduler \<Rightarrow> scheduler" where
  "dispatch s oc ev st = st\<lparr>sch_in_flight := sched_id s # sch_in_flight st,
     sch_jobs := sch_jobs st @ [\<lparr>job_schedule = s, job_occurrence = oc, job_event = ev\<rparr>]\<rparr>"

definition fire ::
  "config \<Rightarrow> Schedule \<Rightarrow> ScheduleOccurrence option \<Rightarrow> gotime \<Rightarrow> scheduler \<Rightarrow> err option \<times> scheduler" where
  "fire cfg s redelivered now st =
     (case map_of (cfg_kinds cfg) (sched_kind s) of
        None \<Rightarrow> (Some (Panic ''nil handler''), st)
      | Some reg \<Rightarrow>
     if \<not> EligibleIn (sched_kind s) (cfg_mode cfg) then (None, st)
     else case validateFireAuthority s (sch_db st) of Some e \<Rightarrow> (Some e, st) | None \<Rightarrow>
     if (case sched_expires_at s of None \<Rightarrow> False | Some t \<Rightarrow> \<not> Before now t)
     then (case Concluded s ScheduleExpired ResolutionIntentExpired now of
         Inl e \<Rightarrow> (Some e, st) | Inr expired \<Rightarrow> commit (conclude expired now) st)
     else case subjectLive reg s (sch_db st) of Inl e \<Rightarrow> (Some e, st) | Inr live \<Rightarrow>
     if \<not> live
     then (case Concluded s ScheduleResolved ResolutionSubjectConcluded now of
         Inl e \<Rightarrow> (Some e, st) | Inr resolved \<Rightarrow> commit (conclude resolved now) st)
     else case convergeOccurrence s redelivered now (sch_db st) of
         Inl e \<Rightarrow> (Some e, st)
       | Inr (None, d) \<Rightarrow> (None, st\<lparr>sch_db := d\<rparr>)
       | Inr (Some oc, d) \<Rightarrow> (case NewScheduleEvent s oc now of
             Inl e \<Rightarrow> (Some e, st\<lparr>sch_db := d\<rparr>)
           | Inr ev \<Rightarrow> (None, dispatch s oc ev (st\<lparr>sch_db := d\<rparr>))))"

section \<open>Consumption\<close>

text \<open>The \<open>c.Schedule != nil\<close> block of the transaction: write the new value, then drop the timer
  of an ended schedule or restart that of a re-armed one, and settle what is still pending.\<close>

definition applyConsumedSchedule :: "Schedule \<Rightarrow> Schedule \<Rightarrow> gotime \<Rightarrow> db \<Rightarrow> err + db" where
  "applyConsumedSchedule s s' now d = ebind (PutSchedule s' d) (\<lambda>d1.
     if Terminal (sched_status s')
     then ebind (DeleteScheduleTimer (sched_id s') d1)
       (settlePending (sched_id s') OutcomeConditionNoLongerApplies now)
     else if sched_generation s' \<noteq> sched_generation s
     then ebind (settlePending (sched_id s') OutcomeStaleGeneration now d1) (\<lambda>d2.
       if OneShot (sched_kind s') then Inr d2
       else case sched_interval_seconds s' of
           None \<Rightarrow> Inl (Panic ''nil dereference'')
         | Some secs \<Rightarrow> SetScheduleTimer (sched_id s') (sched_generation s')
             (Add (sched_created_at s') (interval_of secs)) d2)
     else Inr d1)"

definition consumeTx ::
  "Schedule \<Rightarrow> ScheduleOccurrence \<Rightarrow> Consumption \<Rightarrow> gotime \<Rightarrow> db \<Rightarrow> err + db" where
  "consumeTx s oc c now d =
     (let settle = (\<lambda>outcome. ConsumeScheduleOccurrence (occ_schedule_id oc) (occ_generation oc)
            (occ_nominal_fire_at oc) outcome now d);
          run_commit = (\<lambda>d'. case con_commit c of None \<Rightarrow> Inr d' | Some f \<Rightarrow> f d')
      in case GetSchedule (sched_id s) d of
           Inl ErrNotFound \<Rightarrow> ebind (settle OutcomeConditionNoLongerApplies) (\<lambda>(_, d'). Inr d')
         | Inl e \<Rightarrow> Inl e
         | Inr current \<Rightarrow>
             if sched_generation current \<noteq> sched_generation s \<or> sched_status current \<noteq> ScheduleArmed
             then ebind (settle OutcomeStaleGeneration) (\<lambda>(_, d'). Inr d')
             else ebind (settle (con_outcome c)) (\<lambda>(consumed, d1).
               if \<not> consumed then Inr d1
               else ebind (case con_schedule c of
                   None \<Rightarrow> Inr d1
                 | Some s' \<Rightarrow> applyConsumedSchedule s s' now d1) run_commit))"

definition consume ::
  "Schedule \<Rightarrow> ScheduleOccurrence \<Rightarrow> Consumption \<Rightarrow> gotime \<Rightarrow> db \<Rightarrow> err + db" where
  "consume s oc c now d =
     (if OneShot (sched_kind s) \<and> (case con_schedule c of None \<Rightarrow> True
          | Some s' \<Rightarrow> \<not> Terminal (sched_status s') \<and> sched_generation s' = sched_generation s)
      then Inl (ErrText ''one-shot consumption must conclude or re-arm its schedule'')
      else if con_schedule c = None \<and> con_commit c = None
      then ebind (ConsumeScheduleOccurrence (occ_schedule_id oc) (occ_generation oc)
             (occ_nominal_fire_at oc) (con_outcome c) now d) (\<lambda>(_, d'). Inr d')
      else case Write (consumeTx s oc c now) d of
          Inl e \<Rightarrow> if e = ErrStaleConsumption then Inr d else Inl e
        | Inr d' \<Rightarrow> Inr d')"

text \<open>The goroutine of a fire: run the handler, consume its answer, clear the in-flight mark, and
  report an error on the one-slot channel.\<close>

definition report :: "err \<Rightarrow> scheduler \<Rightarrow> scheduler" where
  "report e st = (case sch_errs st of None \<Rightarrow> st\<lparr>sch_errs := Some e\<rparr> | Some _ \<Rightarrow> st)"

definition runJob :: "config \<Rightarrow> job \<Rightarrow> gotime \<Rightarrow> scheduler \<Rightarrow> scheduler" where
  "runJob cfg j now st =
     (let st' = (case map_of (cfg_kinds cfg) (sched_kind (job_schedule j)) of
            None \<Rightarrow> st
          | Some reg \<Rightarrow> (case reg_handle reg (job_event j) (job_schedule j) of
              Inl e \<Rightarrow> report e st
            | Inr c \<Rightarrow> (case consume (job_schedule j) (job_occurrence j) c (UTC now) (sch_db st) of
                Inl e \<Rightarrow> report e st | Inr d \<Rightarrow> st\<lparr>sch_db := d\<rparr>)))
      in st'\<lparr>sch_jobs := remove1 j (sch_jobs st'),
           sch_in_flight := filter (\<lambda>i. i \<noteq> sched_id (job_schedule j)) (sch_in_flight st')\<rparr>)"

section \<open>A pass\<close>

record pendingState =
  ps_occurrence :: ScheduleOccurrence
  ps_schedule :: "Schedule option"

definition isInFlight :: "string \<Rightarrow> scheduler \<Rightarrow> bool" where
  "isInFlight i st \<longleftrightarrow> i \<in> set (sch_in_flight st)"

definition settleOne ::
  "ScheduleOccurrence \<Rightarrow> ScheduleOccurrenceOutcome \<Rightarrow> gotime \<Rightarrow> scheduler \<Rightarrow> err option \<times> scheduler" where
  "settleOne oc outcome now = commit (\<lambda>d. ebind (ConsumeScheduleOccurrence (occ_schedule_id oc)
     (occ_generation oc) (occ_nominal_fire_at oc) outcome now d) (\<lambda>(_, d'). Inr d'))"

definition redeliverOne :: "config \<Rightarrow> pendingState \<Rightarrow> gotime \<Rightarrow> scheduler \<Rightarrow> err option \<times> scheduler" where
  "redeliverOne cfg p now st =
     (if isInFlight (occ_schedule_id (ps_occurrence p)) st then (None, st)
      else case ps_schedule p of
          None \<Rightarrow> settleOne (ps_occurrence p) OutcomeConditionNoLongerApplies now st
        | Some s \<Rightarrow>
            if map_of (cfg_kinds cfg) (sched_kind s) = None then (None, st)
            else if sched_generation s \<noteq> occ_generation (ps_occurrence p)
              \<or> sched_status s \<noteq> ScheduleArmed
            then settleOne (ps_occurrence p) OutcomeStaleGeneration now st
            else fire cfg s (Some (ps_occurrence p)) now st)"

fun redeliverAll :: "config \<Rightarrow> pendingState list \<Rightarrow> gotime \<Rightarrow> scheduler \<Rightarrow> err option \<times> scheduler" where
  "redeliverAll cfg [] now st = (None, st)"
| "redeliverAll cfg (p # ps) now st = (case redeliverOne cfg p now st of
     (Some e, st') \<Rightarrow> (Some e, st') | (None, st') \<Rightarrow> redeliverAll cfg ps now st')"

definition fireDueOne ::
  "config \<Rightarrow> string list \<Rightarrow> DueSchedule \<Rightarrow> gotime \<Rightarrow> scheduler \<Rightarrow> err option \<times> scheduler" where
  "fireDueOne cfg handled x now st =
     (if sched_id (due_schedule x) \<in> set handled \<or> isInFlight (sched_id (due_schedule x)) st
      then (None, st)
      else if map_of (cfg_kinds cfg) (sched_kind (due_schedule x)) = None then (None, st)
      else fire cfg (due_schedule x) None now st)"

fun fireDueAll ::
  "config \<Rightarrow> string list \<Rightarrow> DueSchedule list \<Rightarrow> gotime \<Rightarrow> scheduler \<Rightarrow> err option \<times> scheduler" where
  "fireDueAll cfg handled [] now st = (None, st)"
| "fireDueAll cfg handled (x # xs) now st = (case fireDueOne cfg handled x now st of
     (Some e, st') \<Rightarrow> (Some e, st') | (None, st') \<Rightarrow> fireDueAll cfg handled xs now st')"

definition readPending :: "db \<Rightarrow> err + pendingState list" where
  "readPending d = ebind (ListPendingScheduleOccurrences d) (queryAll (\<lambda>oc.
     case GetSchedule (occ_schedule_id oc) d of
       Inl ErrNotFound \<Rightarrow> Inr \<lparr>ps_occurrence = oc, ps_schedule = None\<rparr>
     | Inl e \<Rightarrow> Inl e
     | Inr s \<Rightarrow> Inr \<lparr>ps_occurrence = oc, ps_schedule = Some s\<rparr>))"

definition pass :: "config \<Rightarrow> gotime \<Rightarrow> scheduler \<Rightarrow> err option \<times> scheduler" where
  "pass cfg clock st = (let now = UTC clock in
     case readPending (sch_db st) of Inl e \<Rightarrow> (Some e, st) | Inr pending \<Rightarrow>
     case ListDueSchedules now (sch_db st) of Inl e \<Rightarrow> (Some e, st) | Inr due \<Rightarrow>
     case redeliverAll cfg pending now st of (Some e, st') \<Rightarrow> (Some e, st') | (None, st') \<Rightarrow>
       fireDueAll cfg (map (\<lambda>p. occ_schedule_id (ps_occurrence p)) pending) due now st')"

fun runJobs :: "config \<Rightarrow> job list \<Rightarrow> gotime \<Rightarrow> scheduler \<Rightarrow> scheduler" where
  "runJobs cfg [] now st = st"
| "runJobs cfg (j # js) now st = runJobs cfg js now (runJob cfg j now st)"

text \<open>\<open>RunOnce\<close> with the dispatched jobs completed in dispatch order at one clock reading.\<close>

definition RunOnce :: "config \<Rightarrow> gotime \<Rightarrow> scheduler \<Rightarrow> err option \<times> scheduler" where
  "RunOnce cfg clock st = (case pass cfg clock st of
     (Some e, st') \<Rightarrow> (Some e, st')
   | (None, st') \<Rightarrow> let st'' = runJobs cfg (sch_jobs st') clock st'
       in (sch_errs st'', st''\<lparr>sch_errs := None\<rparr>))"

section \<open>Every step is sound\<close>

text \<open>
  A handler's \<open>Commit\<close> writes other tables through the store's operations; the hypothesis on it is
  the contract every store operation has: the store stays well formed and the ledger only grows.
\<close>

definition sound_consumption :: "Consumption \<Rightarrow> bool" where
  "sound_consumption c \<longleftrightarrow> (\<forall>f d d'. con_commit c = Some f \<longrightarrow> f d = Inr d' \<longrightarrow> sound_op d d')"

definition sound_config :: "config \<Rightarrow> bool" where
  "sound_config cfg \<longleftrightarrow> (\<forall>k reg ev s c. map_of (cfg_kinds cfg) k = Some reg \<longrightarrow>
     reg_handle reg ev s = Inr c \<longrightarrow> sound_consumption c)"

lemma sound_op_comp: "sound_op a b \<Longrightarrow> f b = Inr c \<Longrightarrow> (\<And>x y. f x = Inr y \<Longrightarrow> sound_op x y) \<Longrightarrow> sound_op a c"
  by (blast intro: sound_op_trans)

lemma consumeAll_sound [sound_ops]: "consumeAll ocs i out now d = Inr d' \<Longrightarrow> sound_op d d'"
proof (induction ocs arbitrary: d)
  case (Cons oc ocs)
  then show ?case
    by (auto simp: ebind_Inr_iff split: if_splits dest!: ConsumeScheduleOccurrence_sound
        intro: sound_op_trans)
qed simp

lemma settlePending_sound [sound_ops]: "settlePending i out now d = Inr d' \<Longrightarrow> sound_op d d'"
  by (auto simp: settlePending_def ebind_Inr_iff intro: consumeAll_sound)

lemma seedTimer_sound [sound_ops]: "seedTimer s t d = Inr d' \<Longrightarrow> sound_op d d'"
  by (auto simp: seedTimer_def intro: sound_ops split: if_splits)

lemma Converge_sound [sound_ops]: "Converge s t d = Inr d' \<Longrightarrow> sound_op d d'"
  by (auto simp: Converge_def Let_def ebind_Inr_iff split: option.splits if_splits sum.splits err.splits
      dest!: sound_ops intro: sound_op_trans)

lemma Arm_sound [sound_ops]: "Arm s t d = Inr d' \<Longrightarrow> sound_op d d'"
  unfolding Arm_def by (rule Write_sound [OF Converge_sound])

lemma concludeTx_sound [sound_ops]: "concludeTx s now d = Inr d' \<Longrightarrow> sound_op d d'"
  by (auto simp: concludeTx_def ebind_Inr_iff split: option.splits if_splits sum.splits err.splits
      dest!: sound_ops intro: sound_op_trans)

lemma conclude_sound [sound_ops]: "conclude s now d = Inr d' \<Longrightarrow> sound_op d d'"
  unfolding conclude_def by (rule Write_sound [OF concludeTx_sound])

lemma convergeTx_sound [sound_ops]: "convergeTx s re oc nxt now d = Inr (r, d') \<Longrightarrow> sound_op d d'"
  by (auto simp: convergeTx_def ebind_Inr_iff split: option.splits if_splits
      dest!: sound_ops intro: sound_op_trans)

lemma convergeOccurrence_sound [sound_ops]:
  "convergeOccurrence s re now d = Inr (r, d') \<Longrightarrow> sound_op d d'"
proof -
  assume c: "convergeOccurrence s re now d = Inr (r, d')"
  then obtain n where n: "latestNominal s re now d = Inr n"
    by (cases "latestNominal s re now d") (auto simp: convergeOccurrence_def)
  show ?thesis
  proof (cases n)
    case None
    with c n show ?thesis by (auto simp: convergeOccurrence_def)
  next
    case (Some nf)
    with c n show ?thesis
      by (simp add: convergeOccurrence_def split: if_split_asm) (erule convergeTx_sound)
  qed
qed

lemma applyConsumedSchedule_sound [sound_ops]:
  "applyConsumedSchedule s s' now d = Inr d' \<Longrightarrow> sound_op d d'"
  by (auto simp: applyConsumedSchedule_def ebind_Inr_iff split: if_split_asm option.split_asm
      dest!: sound_ops intro: sound_op_trans)

lemma consumeTx_sound:
  assumes "consumeTx s oc c now d = Inr d'" and "sound_consumption c"
  shows "sound_op d d'"
proof -
  have cm: "f a = Inr b \<Longrightarrow> con_commit c = Some f \<Longrightarrow> sound_op a b" for f a b
    using assms(2) by (auto simp: sound_consumption_def)
  show ?thesis
    using assms(1)
    by (auto simp: consumeTx_def Let_def ebind_Inr_iff
        split: option.split_asm if_split_asm sum.split_asm err.split_asm
        dest!: sound_ops intro: sound_op_trans)
      (blast intro: sound_op_trans dest: cm)+
qed

lemma consume_sound:
  assumes "consume s oc c now d = Inr d'" and "sound_consumption c"
  shows "sound_op d d'"
proof -
  have w: "sound_op d d'" if "Write (consumeTx s oc c now) d = Inr d'" for d'
    using that consumeTx_sound [OF _ assms(2)] by (blast intro: Write_sound)
  from assms(1) show ?thesis
    by (auto simp: consume_def ebind_Inr_iff split: if_split_asm sum.split_asm
        dest!: ConsumeScheduleOccurrence_sound dest: w)
qed

text \<open>A step of the scheduler, with the database it leaves whether or not it failed.\<close>

abbreviation sound_step :: "scheduler \<Rightarrow> scheduler \<Rightarrow> bool" where
  "sound_step st st' \<equiv> sound_op (sch_db st) (sch_db st')"

lemma commit_sound:
  "commit tx st = (r, st') \<Longrightarrow> (\<And>d. tx (sch_db st) = Inr d \<Longrightarrow> sound_op (sch_db st) d) \<Longrightarrow> sound_step st st'"
  by (auto simp: commit_def split: sum.split_asm)

lemma fire_sound: "fire cfg s re now st = (r, st') \<Longrightarrow> sound_step st st'"
  by (auto simp: fire_def dispatch_def split: option.split_asm if_split_asm sum.split_asm
      dest!: convergeOccurrence_sound elim!: commit_sound [OF _ conclude_sound])

lemma settleOne_sound: "settleOne oc out now st = (r, st') \<Longrightarrow> sound_step st st'"
  unfolding settleOne_def
  by (erule commit_sound) (auto simp: ebind_Inr_iff dest!: ConsumeScheduleOccurrence_sound)

lemma redeliverOne_sound: "redeliverOne cfg p now st = (r, st') \<Longrightarrow> sound_step st st'"
  by (auto simp: redeliverOne_def split: option.split_asm if_split_asm
      dest!: fire_sound settleOne_sound)

lemma redeliverAll_sound: "redeliverAll cfg ps now st = (r, st') \<Longrightarrow> sound_step st st'"
  by (induction ps arbitrary: st)
    (auto split: prod.split_asm option.split_asm dest!: redeliverOne_sound intro: sound_op_trans)

lemma fireDueOne_sound: "fireDueOne cfg h x now st = (r, st') \<Longrightarrow> sound_step st st'"
  by (auto simp: fireDueOne_def split: if_split_asm dest!: fire_sound)

lemma fireDueAll_sound: "fireDueAll cfg h xs now st = (r, st') \<Longrightarrow> sound_step st st'"
  by (induction xs arbitrary: st)
    (auto split: prod.split_asm option.split_asm dest!: fireDueOne_sound intro: sound_op_trans)

lemma pass_sound: "pass cfg clock st = (r, st') \<Longrightarrow> sound_step st st'"
  by (auto simp: pass_def Let_def split: sum.split_asm prod.split_asm option.split_asm
      dest!: redeliverAll_sound fireDueAll_sound intro: sound_op_trans)

lemma report_db [simp]: "sch_db (report e st) = sch_db st"
  by (simp add: report_def split: option.split)

lemma runJob_sound: "sound_config cfg \<Longrightarrow> sound_step st (runJob cfg j now st)"
  by (auto simp: runJob_def Let_def sound_config_def split: option.split sum.split
      intro!: consume_sound)

section \<open>Runs of the scheduler\<close>

text \<open>
  Everything that can happen to the scheduler and its store, in any order: a pass at any clock
  reading, the completion of any dispatched job, an arming, a sound transaction of another component
  or process, and a crash with a restart, which forgets the in-memory state and keeps the database.
\<close>

inductive sched_step :: "config \<Rightarrow> scheduler \<Rightarrow> scheduler \<Rightarrow> bool" for cfg where
  step_pass: "pass cfg clock st = (r, st') \<Longrightarrow> sched_step cfg st st'"
| step_job: "j \<in> set (sch_jobs st) \<Longrightarrow> sched_step cfg st (runJob cfg j now st)"
| step_arm: "Arm s t (sch_db st) = Inr d \<Longrightarrow> sched_step cfg st (st\<lparr>sch_db := d\<rparr>)"
| step_other: "sound_op (sch_db st) d \<Longrightarrow> sched_step cfg st (st\<lparr>sch_db := d\<rparr>)"
| step_restart: "sched_step cfg st (st\<lparr>sch_in_flight := [], sch_jobs := [], sch_errs := None\<rparr>)"

inductive sched_steps :: "config \<Rightarrow> scheduler \<Rightarrow> scheduler \<Rightarrow> bool" for cfg where
  steps_refl: "sched_steps cfg st st"
| steps_step: "sched_step cfg st st1 \<Longrightarrow> sched_steps cfg st1 st2 \<Longrightarrow> sched_steps cfg st st2"

lemma sched_step_sound: "sched_step cfg st st' \<Longrightarrow> sound_config cfg \<Longrightarrow> sound_step st st'"
  by (induction rule: sched_step.induct) (auto intro: pass_sound runJob_sound Arm_sound)

lemma sched_steps_sound: "sched_steps cfg st st' \<Longrightarrow> sound_config cfg \<Longrightarrow> sound_step st st'"
  by (induction rule: sched_steps.induct) (auto intro: sched_step_sound sound_op_trans)

text \<open>
  C1: however passes, handler completions, armings, other transactions and crashes interleave, the
  store stays well formed, no occurrence disappears, and one that was consumed keeps its row (its
  outcome and instant) for good.
\<close>

theorem scheduler_run_safe:
  assumes "sched_steps cfg st st'" and "sound_config cfg" and "db_ok (sch_db st)"
  shows "db_ok (sch_db st')
    \<and> (\<forall>k r. map_of (db_occurrences (sch_db st)) k = Some r \<longrightarrow>
         (\<exists>r'. map_of (db_occurrences (sch_db st')) k = Some r'
            \<and> (orow_status r \<noteq> ''pending'' \<longrightarrow> r' = r)))"
proof -
  from sched_steps_sound [OF assms(1,2)] assms(3)
  have "db_ok (sch_db st')" and g: "occurrences_grow (sch_db st) (sch_db st')"
    by (simp_all add: sound_op_def)
  then show ?thesis unfolding ledger_grows_def by blast
qed

section \<open>Settling leaves nothing pending\<close>

definition pending_keys :: "db \<Rightarrow> occurrence_key set" where
  "pending_keys d = {k. \<exists>r. map_of (db_occurrences d) k = Some r \<and> row_pending r}"

lemma pending_keys_consume:
  assumes "ConsumeScheduleOccurrence i g n out at d = Inr (b, d')"
  shows "pending_keys d' = pending_keys d - {occurrence_key_of i g n}"
  using assms by (auto simp: ConsumeScheduleOccurrence_Inr consumePending_def pending_keys_def
      update_conv' split: option.split_asm if_split_asm)

lemma pending_keys_consumeAll:
  "consumeAll ocs i out now d = Inr d' \<Longrightarrow> pending_keys d' = pending_keys d -
     {occurrence_key_of (occ_schedule_id oc) (occ_generation oc) (occ_nominal_fire_at oc)
      | oc. oc \<in> set ocs \<and> occ_schedule_id oc = i}"
proof (induction ocs arbitrary: d)
  case (Cons oc ocs)
  show ?case
  proof (cases "occ_schedule_id oc = i")
    case True
    with Cons.prems obtain b d1 where
      c: "ConsumeScheduleOccurrence i (occ_generation oc) (occ_nominal_fire_at oc) out (UTC now) d = Inr (b, d1)"
      and r: "consumeAll ocs i out now d1 = Inr d'"
      by (auto simp: ebind_Inr_iff)
    from pending_keys_consume [OF c] Cons.IH [OF r] True show ?thesis by auto
  next
    case False
    with Cons show ?thesis by auto
  qed
qed simp

lemma scanOccurrence_key:
  assumes "scanOccurrence ((i, g, n), r) = Inr oc"
  shows "occ_schedule_id oc = i \<and> occ_generation oc = g \<and> occ_nominal_fire_at oc = UnixZero n"
proof -
  obtain created where c: "parseTime (orow_created_at r) = Inr created"
    using assms by (cases "parseTime (orow_created_at r)") (auto simp: scanOccurrence_def split: if_split_asm)
  show ?thesis
  proof (cases "case orow_consumed_at r of None \<Rightarrow> Inr None | Some c \<Rightarrow> ebind (parseTime c) (\<lambda>t. Inr (Some t))")
    case (Inl e)
    with assms c show ?thesis by (simp add: scanOccurrence_def split: if_split_asm)
  next
    case (Inr w)
    with assms c show ?thesis
      by (auto simp: scanOccurrence_def Let_def of_err_Inr_iff split: if_split_asm)
  qed
qed

text \<open>
  Settling a schedule's pending occurrences leaves none of them pending, and touches no
  occurrence of another schedule.
\<close>

theorem settlePending_clears:
  assumes "settlePending i out now d = Inr d'" and "db_ok d"
  shows "pending_keys d' = {k \<in> pending_keys d. fst k \<noteq> i}"
proof -
  from assms(1) obtain ps where ps: "ListPendingScheduleOccurrences d = Inr ps"
    and c: "consumeAll ps i out now d = Inr d'"
    by (cases "ListPendingScheduleOccurrences d") (auto simp: settlePending_def)
  have k: "distinct_keys (db_occurrences d)" "keys_ok (db_occurrences d)"
    using assms(2) by (simp_all add: db_ok_def)
  have ex: "\<exists>oc \<in> set ps. occ_schedule_id oc = fst q
      \<and> occurrence_key_of (occ_schedule_id oc) (occ_generation oc) (occ_nominal_fire_at oc) = q"
    if "q \<in> pending_keys d" for q
  proof -
    obtain i' g n where q: "q = (i', g, n)" by (cases q)
    from that obtain r where m: "map_of (db_occurrences d) q = Some r" and p: "row_pending r"
      by (auto simp: pending_keys_def)
    have "(q, r) \<in> set (filter (\<lambda>(_, r). orow_status r = ''pending'') (db_occurrences d))"
      using map_of_SomeD [OF m] p by simp
    from queryAll_all [OF ps [unfolded ListPendingScheduleOccurrences_def] this]
    obtain oc where oc: "oc \<in> set ps" and s: "scanOccurrence (q, r) = Inr oc" by blast
    from scanOccurrence_key [OF s [unfolded q]] keys_ok_lookup [OF k(2) m [unfolded q]] oc q
    show ?thesis by (auto simp: occurrence_key_of_def UnixNano_def)
  qed
  have f: "fst (occurrence_key_of a b t) = a" for a b t
    by (simp add: occurrence_key_of_def)
  show ?thesis
    unfolding pending_keys_consumeAll [OF c]
  proof (intro equalityI subsetI)
    fix q assume q: "q \<in> {k \<in> pending_keys d. fst k \<noteq> i}"
    then show "q \<in> pending_keys d - {occurrence_key_of (occ_schedule_id oc) (occ_generation oc)
        (occ_nominal_fire_at oc) |oc. oc \<in> set ps \<and> occ_schedule_id oc = i}"
      by (auto simp: f)
  qed (use ex in blast)
qed

section \<open>A fire's effects are committed at most once\<close>

lemma consume_settled:
  assumes "\<not> (occurrence_key_of i g n) \<in> pending_keys d"
    and "ConsumeScheduleOccurrence i g n out at d = Inr (b, d')"
  shows "\<not> b \<and> d' = d"
  using assms by (auto simp: ConsumeScheduleOccurrence_Inr consumePending_def pending_keys_def
      split: option.split_asm if_split_asm)

definition occurrence_key :: "ScheduleOccurrence \<Rightarrow> occurrence_key" where
  "occurrence_key oc = occurrence_key_of (occ_schedule_id oc) (occ_generation oc) (occ_nominal_fire_at oc)"

lemma consumeTx_settled:
  assumes "occurrence_key oc \<notin> pending_keys d" and "consumeTx s oc c now d = Inr d'"
  shows "d' = d"
  using assms(2) consume_settled [OF assms(1) [unfolded occurrence_key_def]]
  by (auto simp: consumeTx_def Let_def ebind_Inr_iff
      split: sum.split_asm err.split_asm if_split_asm)

text \<open>
  Consuming a fire whose occurrence is no longer pending (a raced, replayed or superseded
  handler answer) writes nothing: neither its schedule transition nor its commit is applied, at most
  an empty transaction advances the revision.
\<close>

theorem consume_replay_is_noop:
  assumes "consume s oc c now d = Inr d'" and "occurrence_key oc \<notin> pending_keys d"
  shows "d' = d \<or> d' = d\<lparr>db_revision := db_revision d + 1\<rparr>"
proof -
  have "Write (consumeTx s oc c now) d = Inr e \<Longrightarrow> e = d\<lparr>db_revision := db_revision d + 1\<rparr>" for e
    by (auto simp: Write_def ebind_Inr_iff dest: consumeTx_settled [OF assms(2)])
  with assms(1) consume_settled [OF assms(2) [unfolded occurrence_key_def]] show ?thesis
    by (auto simp: consume_def ebind_Inr_iff split: if_split_asm sum.split_asm)
qed

section \<open>The fire that is delivered is recorded first\<close>

lemma pending_keys_create:
  assumes "CreatePendingScheduleOccurrence oc d = Inr (b, d')"
  shows "(b \<longrightarrow> pending_keys d' = insert (occurrence_key oc) (pending_keys d)) \<and> (\<not> b \<longrightarrow> d' = d)"
proof -
  from assms have "UTC (occ_nominal_fire_at oc) = occ_nominal_fire_at oc"
    using valid_occurrenceD(3) [of oc] by (simp add: CreatePending_Inr)
  with assms show ?thesis
    by (auto simp: CreatePending_Inr Let_def insertPending_def pending_keys_def update_conv'
        occurrence_key_def occurrence_key_of_def split: option.split_asm if_split_asm)
qed

lemma pending_keys_timer [simp]:
  "SetScheduleTimer i g n d = Inr d' \<Longrightarrow> pending_keys d' = pending_keys d"
  "DeleteScheduleTimer i d = Inr d' \<Longrightarrow> pending_keys d' = pending_keys d"
  by (auto simp: SetScheduleTimer_def DeleteScheduleTimer_def pending_keys_def split: if_split_asm)

lemma scanOccurrence_status:
  assumes "scanOccurrence (k, r) = Inr oc" and "occ_status oc = OccurrencePending"
  shows "row_pending r"
proof -
  have "occ_status oc = enum_parse occurrence_status_text AllScheduleOccurrenceStatuses
      OccurrenceStatusOther (orow_status r)"
    using assms(1) by (cases k) (auto simp: scanOccurrence_def ebind_Inr_iff Let_def of_err_Inr_iff
        split: if_split_asm)
  then show ?thesis
    using assms(2) occ_status_enum.render_parse [of "orow_status r"] by simp
qed

lemma GetScheduleOccurrence_pending:
  assumes "GetScheduleOccurrence i g t d = Inr oc" and "occ_status oc = OccurrencePending"
  shows "occurrence_key oc = occurrence_key_of i g t \<and> occurrence_key oc \<in> pending_keys d"
proof -
  from assms(1) obtain r where m: "map_of (db_occurrences d) (i, g, UnixNano t) = Some r"
    and s: "scanOccurrence ((i, g, UnixNano t), r) = Inr oc"
    by (auto simp: GetScheduleOccurrence_def occurrence_key_of_def split: option.split_asm)
  have "occurrence_key oc = (i, g, UnixNano t)"
    using scanOccurrence_key [OF s] by (simp add: occurrence_key_def occurrence_key_of_def UnixNano_def)
  with m scanOccurrence_status [OF s assms(2)] show ?thesis
    by (simp add: pending_keys_def occurrence_key_of_def)
qed

lemma convergeTx_delivers:
  assumes "convergeTx s re oc next now d = Inr (Some oc', d')"
  shows "occurrence_key oc' = occurrence_key oc \<and> occurrence_key oc' \<in> pending_keys d'
    \<and> (\<forall>r. re = Some r \<longrightarrow> occurrence_key r \<noteq> occurrence_key oc \<longrightarrow> occurrence_key r \<notin> pending_keys d')"
proof -
  from assms obtain d1 b d2 where
    d1: "(case re of None \<Rightarrow> Inr d
       | Some r \<Rightarrow> ebind (ConsumeScheduleOccurrence (occ_schedule_id r) (occ_generation r)
             (occ_nominal_fire_at r) OutcomeCoalesced now d) (\<lambda>(_, d'). Inr d')) = Inr d1"
    and d2: "CreatePendingScheduleOccurrence oc d1 = Inr (b, d2)"
    and oc': "(if b then Inr (Some oc)
        else ebind (GetScheduleOccurrence (occ_schedule_id oc) (occ_generation oc)
               (occ_nominal_fire_at oc) d2) (\<lambda>existing.
             if occ_status existing \<noteq> OccurrencePending then Inr None else Inr (Some existing)))
        = Inr (Some oc')"
    and d': "pending_keys d' = pending_keys d2"
    by (auto simp: convergeTx_def ebind_Inr_iff split: if_split_asm option.split_asm)
  have re: "occurrence_key r \<notin> pending_keys d1" if "re = Some r" for r
    using d1 that by (auto simp: ebind_Inr_iff occurrence_key_def dest!: pending_keys_consume)
  show ?thesis
  proof (cases b)
    case True
    with oc' pending_keys_create [OF d2] re d' show ?thesis by auto
  next
    case False
    with oc' have g: "GetScheduleOccurrence (occ_schedule_id oc) (occ_generation oc)
        (occ_nominal_fire_at oc) d2 = Inr oc'" and p: "occ_status oc' = OccurrencePending"
      by (auto simp: ebind_Inr_iff split: if_split_asm)
    from GetScheduleOccurrence_pending [OF g p] pending_keys_create [OF d2] False re d'
    show ?thesis by (auto simp: occurrence_key_def [of oc])
  qed
qed

text \<open>
  When converging a fire yields an occurrence to deliver, that occurrence is pending in the
  ledger before its handler runs, and an older redelivered fire at another instant is no longer
  pending: a coalesced fire is never delivered twice.
\<close>

theorem convergeOccurrence_delivers:
  assumes "convergeOccurrence s re now d = Inr (Some oc, d')"
    and "\<And>r. re = Some r \<Longrightarrow> occurrence_key r \<in> pending_keys d"
  shows "occurrence_key oc \<in> pending_keys d'
    \<and> (\<forall>r. re = Some r \<longrightarrow> occurrence_key r \<in> pending_keys d' \<longrightarrow> occurrence_key r = occurrence_key oc)"
proof -
  obtain nf where nf: "latestNominal s re now d = Inr (Some nf)"
    using assms(1) by (cases "latestNominal s re now d")
      (auto simp: convergeOccurrence_def split: option.split_asm)
  show ?thesis
  proof (cases "\<exists>r. re = Some r \<and> Equal (occ_nominal_fire_at r) (nf_nominal nf)")
    case True
    with assms nf show ?thesis by (auto simp: convergeOccurrence_def)
  next
    case False
    with assms(1) nf have "convergeTx s re \<lparr>occ_schedule_id = sched_id s,
        occ_generation = sched_generation s, occ_nominal_fire_at = nf_nominal nf, occ_gap = nf_gap nf,
        occ_status = OccurrencePending, occ_created_at = now, occ_consumed_at = None,
        occ_outcome = None\<rparr> (nf_next nf) now d = Inr (Some oc, d')"
      by (auto simp: convergeOccurrence_def split: if_split_asm option.split_asm)
    from convergeTx_delivers [OF this] show ?thesis by metis
  qed
qed

section \<open>One handler per schedule\<close>

definition in_flight_ok :: "scheduler \<Rightarrow> bool" where
  "in_flight_ok st \<longleftrightarrow> distinct (sch_in_flight st)
     \<and> distinct (map (\<lambda>j. sched_id (job_schedule j)) (sch_jobs st))
     \<and> set (map (\<lambda>j. sched_id (job_schedule j)) (sch_jobs st)) = set (sch_in_flight st)"

lemma commit_frame: "commit tx st = (r, st') \<Longrightarrow> sch_in_flight st' = sch_in_flight st \<and> sch_jobs st' = sch_jobs st"
  by (auto simp: commit_def split: sum.split_asm)

lemma commit_in_flight_ok: "commit tx st = (r, st') \<Longrightarrow> in_flight_ok st \<Longrightarrow> in_flight_ok st'"
  by (drule commit_frame) (simp add: in_flight_ok_def)

lemma in_flight_ok_db [simp]: "in_flight_ok (st\<lparr>sch_db := d\<rparr>) = in_flight_ok st"
  by (simp add: in_flight_ok_def)

lemma in_flight_ok_none: "sch_in_flight st = [] \<Longrightarrow> sch_jobs st = [] \<Longrightarrow> in_flight_ok st"
  by (simp add: in_flight_ok_def)

lemma fire_in_flight:
  "fire cfg s re now st = (r, st') \<Longrightarrow>
     (sch_in_flight st' = sch_in_flight st \<and> sch_jobs st' = sch_jobs st)
     \<or> (sch_in_flight st' = sched_id s # sch_in_flight st
        \<and> (\<exists>oc ev. sch_jobs st' = sch_jobs st @
             [\<lparr>job_schedule = s, job_occurrence = oc, job_event = ev\<rparr>]))"
  by (auto simp: fire_def dispatch_def split: option.split_asm if_split_asm sum.split_asm
      dest: commit_frame)

lemma fire_in_flight_ok:
  "fire cfg s re now st = (r, st') \<Longrightarrow> \<not> isInFlight (sched_id s) st \<Longrightarrow> in_flight_ok st \<Longrightarrow> in_flight_ok st'"
  by (drule fire_in_flight) (fastforce simp: in_flight_ok_def isInFlight_def)

lemma redeliverOne_in_flight_ok:
  "redeliverOne cfg p now st = (r, st') \<Longrightarrow>
     (\<And>s. ps_schedule p = Some s \<Longrightarrow> sched_id s = occ_schedule_id (ps_occurrence p)) \<Longrightarrow>
     in_flight_ok st \<Longrightarrow> in_flight_ok st'"
  by (auto simp: redeliverOne_def settleOne_def
      split: if_split_asm option.split_asm intro: commit_in_flight_ok fire_in_flight_ok)

lemma redeliverAll_in_flight_ok:
  "redeliverAll cfg ps now st = (r, st') \<Longrightarrow>
     (\<And>p s. p \<in> set ps \<Longrightarrow> ps_schedule p = Some s \<Longrightarrow> sched_id s = occ_schedule_id (ps_occurrence p)) \<Longrightarrow>
     in_flight_ok st \<Longrightarrow> in_flight_ok st'"
proof (induction ps arbitrary: st)
  case (Cons p ps)
  obtain e st1 where one: "redeliverOne cfg p now st = (e, st1)" by fastforce
  then have "in_flight_ok st1"
    by (rule redeliverOne_in_flight_ok) (use Cons.prems in auto)
  with Cons one show ?case by (auto split: option.split_asm)
qed simp

lemma fireDueAll_in_flight_ok:
  "fireDueAll cfg h xs now st = (r, st') \<Longrightarrow> in_flight_ok st \<Longrightarrow> in_flight_ok st'"
proof (induction xs arbitrary: st)
  case (Cons x xs)
  obtain e st1 where one: "fireDueOne cfg h x now st = (e, st1)" by fastforce
  then have "in_flight_ok st1"
    using Cons.prems(2) by (auto simp: fireDueOne_def split: if_split_asm dest: fire_in_flight_ok)
  with Cons one show ?case by (auto split: option.split_asm)
qed simp

lemma readPending_ids:
  assumes "readPending d = Inr ps" and "db_ok d" and "p \<in> set ps" and "ps_schedule p = Some s"
  shows "sched_id s = occ_schedule_id (ps_occurrence p)"
proof -
  have q: "queryAll f ocs = Inr ps \<Longrightarrow> p \<in> set ps \<Longrightarrow> \<exists>oc \<in> set ocs. f oc = Inr p" for f and ocs :: "'o list"
  proof (induction ocs arbitrary: ps)
    case (Cons a ocs)
    then show ?case by (cases "f a"; cases "queryAll f ocs") auto
  qed simp
  from assms(1) obtain ocs where "queryAll (\<lambda>oc. case GetSchedule (occ_schedule_id oc) d of
       Inl ErrNotFound \<Rightarrow> Inr \<lparr>ps_occurrence = oc, ps_schedule = None\<rparr>
     | Inl e \<Rightarrow> Inl e | Inr s \<Rightarrow> Inr \<lparr>ps_occurrence = oc, ps_schedule = Some s\<rparr>) ocs = Inr ps"
    by (cases "ListPendingScheduleOccurrences d") (auto simp: readPending_def)
  from q [OF this assms(3)] obtain oc where oc: "(case GetSchedule (occ_schedule_id oc) d of
       Inl ErrNotFound \<Rightarrow> Inr \<lparr>ps_occurrence = oc, ps_schedule = None\<rparr>
     | Inl e \<Rightarrow> Inl e | Inr s \<Rightarrow> Inr \<lparr>ps_occurrence = oc, ps_schedule = Some s\<rparr>) = Inr p" by blast
  show ?thesis
  proof (cases "GetSchedule (occ_schedule_id oc) d")
    case (Inl e)
    with oc assms(4) show ?thesis by (cases e) auto
  next
    case (Inr s')
    with oc assms(4) have "s' = s" and "ps_occurrence p = oc" by auto
    with GetSchedule_valid [OF assms(2) Inr] show ?thesis by simp
  qed
qed

lemma pass_in_flight_ok:
  assumes "pass cfg clock st = (r, st')" and "db_ok (sch_db st)" and "in_flight_ok st"
  shows "in_flight_ok st'"
  using assms(1,3) readPending_ids [OF _ assms(2)]
  by (auto simp: pass_def Let_def split: sum.split_asm prod.split_asm option.split_asm
      dest!: redeliverAll_in_flight_ok fireDueAll_in_flight_ok)

lemma runJob_in_flight_ok:
  assumes "j \<in> set (sch_jobs st)" and "in_flight_ok st"
  shows "in_flight_ok (runJob cfg j now st)"
proof -
  have r: "sch_in_flight (report e st) = sch_in_flight st \<and> sch_jobs (report e st) = sch_jobs st" for e st
    by (simp add: report_def split: option.split)
  have "sch_in_flight (runJob cfg j now st) = filter (\<lambda>i. i \<noteq> sched_id (job_schedule j)) (sch_in_flight st)
      \<and> sch_jobs (runJob cfg j now st) = remove1 j (sch_jobs st)"
    by (auto simp: runJob_def Let_def r split: option.split sum.split)
  moreover have "set (map f (remove1 j js)) = set (map f js) - {f j} \<and> distinct (map f (remove1 j js))"
    if "distinct (map f js)" "j \<in> set js" for f :: "job \<Rightarrow> string" and js
    using that by (induction js) auto
  ultimately show ?thesis using assms by (auto simp: in_flight_ok_def)
qed

text \<open>
  C16: at no point of any run do two dispatched handlers belong to one schedule, and the in-flight
  marks are exactly the schedules with a handler running.
\<close>

theorem one_handler_per_schedule:
  assumes "sched_steps cfg st st'" and "sound_config cfg" and "db_ok (sch_db st)" and "in_flight_ok st"
  shows "distinct (map (\<lambda>j. sched_id (job_schedule j)) (sch_jobs st'))
    \<and> (\<forall>i. isInFlight i st' \<longleftrightarrow> (\<exists>j \<in> set (sch_jobs st'). sched_id (job_schedule j) = i))"
proof -
  have step: "sched_step cfg a b \<Longrightarrow> db_ok (sch_db a) \<Longrightarrow> in_flight_ok a \<Longrightarrow> in_flight_ok b" for a b
    by (induction rule: sched_step.induct)
      (auto intro: pass_in_flight_ok runJob_in_flight_ok simp: in_flight_ok_none)
  have "db_ok (sch_db st') \<and> in_flight_ok st'"
    using assms
  proof (induction rule: sched_steps.induct)
    case (steps_step st st1 st2)
    from sched_step_sound [OF steps_step.hyps(1) steps_step.prems(1)] steps_step.prems(2)
    have "db_ok (sch_db st1)" by (simp add: sound_op_def)
    with steps_step step [OF steps_step.hyps(1)] show ?case by blast
  qed simp
  then show ?thesis by (auto simp: in_flight_ok_def isInFlight_def set_eq_iff image_iff) metis
qed

section \<open>Coalescing\<close>

lemma is_int64_between: "0 \<le> x \<Longrightarrow> x \<le> y \<Longrightarrow> y \<le> max_int64 \<Longrightarrow> is_int64 x"
  by (simp add: min_int64_def)

lemma sdiv_nonneg: "0 \<le> (a::int) \<Longrightarrow> 0 < b \<Longrightarrow> a sdiv b = a div b"
  by (simp add: signed_divide_int_def sgn_if)

text \<open>
  Coalescing picks the latest instant of the cadence at or before now: it lies on the grid of
  the interval, the next one is after now, and the recorded gap counts exactly the skipped instants
  and starts at the first of them, or folds them into the gap of the fire it supersedes.
\<close>

theorem coalesce_latest:
  assumes "\<not> After base now" and "0 < interval" and "unix_ns now - unix_ns base \<le> max_int64"
    and "is_int64 interval"
  shows "\<exists>nf. coalesce base interval redelivered now = Inr nf
    \<and> (\<exists>k \<ge> 0. unix_ns (nf_nominal nf) = unix_ns base + k * interval
         \<and> nf_gap nf = (if k = 0 then cloneGap redelivered else Some (case cloneGap redelivered of
               None \<Rightarrow> \<lparr>gap_missed_occurrences = k, gap_earliest_missed_at = base\<rparr>
             | Some g \<Rightarrow> \<lparr>gap_missed_occurrences = wrap64 (k + gap_missed_occurrences g),
                 gap_earliest_missed_at = gap_earliest_missed_at g\<rparr>)))
    \<and> \<not> After (nf_nominal nf) now
    \<and> (\<exists>nxt. nf_next nf = Some nxt \<and> nxt = Add (nf_nominal nf) interval \<and> After nxt now)"
proof -
  let ?e = "unix_ns now - unix_ns base" and ?k = "(unix_ns now - unix_ns base) div interval"
  have e: "0 \<le> ?e" "Sub now base = ?e"
    using assms(1,3) by (simp_all add: After_def Sub_def min_int64_def)
  have k: "0 \<le> ?k" "?k * interval \<le> ?e" "?e < ?k * interval + interval"
    using e(1) assms(2) by (simp_all add: pos_imp_zdiv_nonneg_iff)
      (metis div_mult_mod_eq pos_mod_sign le_add_same_cancel1,
       metis div_mult_mod_eq pos_mod_bound add_less_cancel_left)
  have "?k * 1 \<le> ?k * interval" using k(1) assms(2) by (intro mult_left_mono) simp_all
  then have "?k \<le> ?e" using k(2) by simp
  then have r: "is_int64 ?k" using k(1) assms(3) by (simp add: min_int64_def)
  have "0 \<le> ?k * interval" using k(1) assms(2) by simp
  then have r2: "is_int64 (?k * interval)"
    using k(2) assms(3) by (rule is_int64_between)
  have m: "(if interval \<le> Sub now base then go_div (Sub now base) interval else Inr 0) = Inr ?k"
    using e assms(2) r sdiv_nonneg [OF e(1) assms(2)] by (simp add: go_div_def div_pos_pos_trivial)
  show ?thesis
    using k r r2 unfolding coalesce_def m
    by (auto simp: Let_def After_def intro!: exI [of _ ?k] split: option.split)
qed

text \<open>
  A schedule \<open>Validate\<close> accepts may have an interval whose \<open>time.Duration\<close> wraps to zero:
  \<open>2^55\<close> seconds. Computing its due occurrence divides by that zero.
\<close>

definition wrapping_poll :: Schedule where
  "wrapping_poll = example_poll\<lparr>sched_interval_seconds := Some (2 ^ 55)\<rparr>"

definition wrapping_db :: db where
  "wrapping_db = empty_db\<lparr>db_timers := [(sched_id wrapping_poll, 1, 30)]\<rparr>"


section \<open>Arming converges\<close>

lemma json_ok_normalize: "json_ok s \<Longrightarrow> json_ok (normalizeShape s)"
  by (simp add: json_ok_def normalizeShape_def rfc3339_ok_def zero_ns_def)

lemma GetSchedule_frame: "db_schedules d' = db_schedules d \<Longrightarrow> GetSchedule i d' = GetSchedule i d"
  by (simp add: GetSchedule_def GetScheduleSnapshot_def)

lemma SetScheduleTimer_frame:
  "SetScheduleTimer i g t d = Inr d' \<Longrightarrow> db_schedules d' = db_schedules d
     \<and> i \<noteq> [] \<and> map_of (db_timers d') i = Some (g, UnixNano t)"
  by (auto simp: SetScheduleTimer_def update_conv' split: if_split_asm)

lemma DeleteScheduleTimer_frame: "DeleteScheduleTimer i d = Inr d' \<Longrightarrow> db_schedules d' = db_schedules d"
  by (auto simp: DeleteScheduleTimer_def split: if_split_asm)

lemma consumeAll_frame: "consumeAll ocs i out now d = Inr d' \<Longrightarrow> db_schedules d' = db_schedules d"
  by (induction ocs arbitrary: d)
    (auto simp: ebind_Inr_iff ConsumeScheduleOccurrence_Inr split: if_split_asm)

lemma settlePending_frame: "settlePending i out now d = Inr d' \<Longrightarrow> db_schedules d' = db_schedules d"
  by (auto simp: settlePending_def ebind_Inr_iff consumeAll_frame)

text \<open>A schedule is armed in the shape asked for, with a clock when it is a cadence.\<close>

definition converged :: "Schedule \<Rightarrow> db \<Rightarrow> bool" where
  "converged s d \<longleftrightarrow> (\<exists>x. GetSchedule (sched_id s) d = Inr x \<and> sched_id x = sched_id s
     \<and> sched_status x = ScheduleArmed \<and> sameShape x s
     \<and> (OneShot (sched_kind x) \<or> map_of (db_timers d) (sched_id x) \<noteq> None))"

lemma converged_stable:
  "converged s d \<Longrightarrow> Schedule_Validate s = None \<Longrightarrow> sched_status s = ScheduleArmed \<Longrightarrow> Converge s t d = Inr d"
  using valid_scheduleD(1) [of s]
  by (auto simp: converged_def Converge_def GetScheduleTimer_def)

lemma PutSchedule_Get:
  "db_ok d \<Longrightarrow> PutSchedule s d = Inr d' \<Longrightarrow> GetSchedule (sched_id s) d' = Inr s \<and> json_ok s"
  using PutSchedule_db_ok [of d s d']
  by (auto simp: GetSchedule_Inr PutSchedule_Inr update_conv' encode_None)

lemma seedTimer_converged:
  assumes "seedTimer x t d = Inr d'" and "GetSchedule (sched_id x) d = Inr x"
    and "sched_status x = ScheduleArmed" and "sched_id x = sched_id s" and "sameShape x s"
  shows "converged s d'"
proof -
  from assms(1) have f: "db_schedules d' = db_schedules d"
    and "OneShot (sched_kind x) \<or> map_of (db_timers d') (sched_id x) \<noteq> None"
    by (auto simp: seedTimer_def split: if_split_asm dest!: SetScheduleTimer_frame DeleteScheduleTimer_frame)
  with assms show ?thesis
    by (auto simp: converged_def GetSchedule_frame [OF f])
qed

lemma sameShape_refl: "json_ok s \<Longrightarrow> sameShape s s"
  by (simp add: sameShape_def json_ok_normalize)

text \<open>What identifies a schedule besides its shape; arming never changes it.\<close>

definition same_binding :: "Schedule \<Rightarrow> Schedule \<Rightarrow> bool" where
  "same_binding a b \<longleftrightarrow> sched_project_id a = sched_project_id b \<and> sched_kind a = sched_kind b
     \<and> sched_run_id a = sched_run_id b \<and> sched_policy_digest a = sched_policy_digest b"

lemma Converge_cases:
  assumes "Converge s t d = Inr d'"
  obtains (create) d1 where "GetSchedule (sched_id s) d = Inl ErrNotFound" "PutSchedule s d = Inr d1"
      "seedTimer s t d1 = Inr d'"
    | (keep) x where "GetSchedule (sched_id s) d = Inr x" "sched_status x = ScheduleArmed" "sameShape x s"
      "d' = d \<and> (OneShot (sched_kind x) \<or> map_of (db_timers d) (sched_id x) \<noteq> None)
       \<or> SetScheduleTimer (sched_id x) (sched_generation x) t d = Inr d'"
    | (rearm) x y d1 d2 where "GetSchedule (sched_id s) d = Inr x"
      "y = x\<lparr>sched_generation := wrap64 (sched_generation x + 1), sched_subject := sched_subject s,
         sched_fire_at := map_option UTC (sched_fire_at s), sched_created_at := UTC (sched_created_at s),
         sched_status := ScheduleArmed, sched_resolution := None,
         sched_interval_seconds := sched_interval_seconds s, sched_expires_at := sched_expires_at s\<rparr>"
      "PutSchedule y d = Inr d1" "settlePending (sched_id y) OutcomeStaleGeneration (sched_created_at s) d1 = Inr d2"
      "seedTimer y t d2 = Inr d'"
proof (cases "GetSchedule (sched_id s) d")
  case (Inl e)
  with assms show thesis
    by (cases e) (auto simp: Converge_def ebind_Inr_iff intro: create split: option.split_asm if_split_asm)
next
  case (Inr x)
  show thesis
  proof (cases "sched_status x = ScheduleArmed \<and> sameShape x s")
    case True
    with assms Inr show thesis
      by (intro keep [of x])
        (auto simp: Converge_def GetScheduleTimer_def split: option.split_asm if_split_asm prod.split_asm)
  next
    case False
    with assms Inr obtain r d1 d2 where r: "ReArmed x (sched_subject s) (sched_fire_at s) (sched_created_at s) = Inr r"
      and p: "PutSchedule (r\<lparr>sched_interval_seconds := sched_interval_seconds s,
          sched_expires_at := sched_expires_at s\<rparr>) d = Inr d1"
      and st: "settlePending (sched_id r) OutcomeStaleGeneration (sched_created_at s) d1 = Inr d2"
      and sd: "seedTimer (r\<lparr>sched_interval_seconds := sched_interval_seconds s,
          sched_expires_at := sched_expires_at s\<rparr>) t d2 = Inr d'"
      by (auto simp: Converge_def Let_def ebind_Inr_iff split: option.split_asm if_split_asm)
    from r [unfolded ReArmed_Inr] p st sd show thesis
      by (intro rearm [OF Inr refl, of d1 d2]) auto
  qed
qed

text \<open>
  Arming converges: afterwards the schedule is stored armed in the shape asked for and, when it
  is a cadence, with a timer; and arming the same value again, at any first instant, changes nothing.
\<close>

theorem Converge_idempotent:
  assumes "Converge s t d = Inr d'" and "db_ok d"
    and "\<And>x. GetSchedule (sched_id s) d = Inr x \<Longrightarrow> same_binding x s"
  shows "converged s d' \<and> Converge s t2 d' = Inr d'"
proof -
  from assms(1) have v: "Schedule_Validate s = None" and a: "sched_status s = ScheduleArmed"
    by (auto simp: Converge_def split: option.split_asm if_split_asm)
  from assms(1) have "converged s d'"
  proof (cases rule: Converge_cases)
    case (create d1)
    from PutSchedule_Get [OF assms(2) create(2)] have "GetSchedule (sched_id s) d1 = Inr s" "sameShape s s"
      by (simp_all add: sameShape_refl)
    with create a show ?thesis by (intro seedTimer_converged) auto
  next
    case (keep x)
    have i: "sched_id x = sched_id s" using GetSchedule_valid [OF assms(2) keep(1)] by simp
    from keep(4) have f: "db_schedules d' = db_schedules d"
      and tm: "OneShot (sched_kind x) \<or> map_of (db_timers d') (sched_id x) \<noteq> None"
      by (auto dest!: SetScheduleTimer_frame)
    with keep(1-3) i tm show ?thesis by (auto simp: converged_def GetSchedule_frame [OF f])
  next
    case (rearm x y d1 d2)
    have i: "sched_id y = sched_id s"
      using GetSchedule_valid [OF assms(2) rearm(1)] rearm(2) by simp
    from PutSchedule_Get [OF assms(2) rearm(3)]
    have g: "GetSchedule (sched_id y) d2 = Inr y" and j: "json_ok y"
      by (simp_all add: GetSchedule_frame [OF settlePending_frame [OF rearm(4)]])
    have "map_option UTC (sched_fire_at s) = sched_fire_at s"
      using valid_scheduleD(15) [OF v] by (cases "sched_fire_at s") auto
    then have n: "normalizeShape y = normalizeShape s"
      using assms(3) [OF rearm(1)] rearm(2) i
      by (cases s) (simp add: normalizeShape_def same_binding_def)
    have "sameShape y s" using json_ok_normalize [OF j] n by (simp add: sameShape_def)
    with rearm(5) g i rearm(2) show ?thesis by (intro seedTimer_converged [OF rearm(5)]) auto
  qed
  with converged_stable [OF this v a] show ?thesis by simp
qed

text \<open>
  A re-arm leaves no fire of the ended generation to be delivered: after an arming that replaced
  the schedule, nothing of it is pending.
\<close>

theorem Converge_rearm_settles:
  assumes "Converge s t d = Inr d'" and "db_ok d"
    and "GetSchedule (sched_id s) d = Inr x" and "\<not> (sched_status x = ScheduleArmed \<and> sameShape x s)"
  shows "pending_keys d' = {k \<in> pending_keys d. fst k \<noteq> sched_id s}"
  using assms(1)
proof (cases rule: Converge_cases)
  case (rearm x' y d1 d2)
  have i: "sched_id y = sched_id s"
    using GetSchedule_valid [OF assms(2) rearm(1)] rearm(2) by simp
  have p: "pending_keys d1 = pending_keys d" using PutSchedule_frame [OF rearm(3)] by (simp add: pending_keys_def)
  have "pending_keys d' = pending_keys d2"
    using rearm(5) by (auto simp: seedTimer_def split: if_split_asm)
  with settlePending_clears [OF rearm(4) PutSchedule_db_ok [OF assms(2) rearm(3)]] p i
  show ?thesis by simp
qed (use assms in auto)

section \<open>A one-shot fire ends or re-arms its schedule\<close>

definition commit_frame_ok :: "Consumption \<Rightarrow> bool" where
  "commit_frame_ok c \<longleftrightarrow> (\<forall>f a b. con_commit c = Some f \<longrightarrow> f a = Inr b \<longrightarrow>
     db_schedules b = db_schedules a \<and> db_occurrences b = db_occurrences a)"

lemma ConsumeScheduleOccurrence_frame:
  "ConsumeScheduleOccurrence i g n out at d = Inr (b, d') \<Longrightarrow> db_schedules d' = db_schedules d"
  by (auto simp: ConsumeScheduleOccurrence_Inr)

text \<open>Applying an ended or re-armed value stores it and leaves nothing of the schedule pending.\<close>

lemma applyConsumedSchedule_ends:
  assumes a: "applyConsumedSchedule s s' now d = Inr d'" and ok: "db_ok d"
    and new: "Terminal (sched_status s') \<or> sched_generation s' \<noteq> sched_generation s"
  shows "GetSchedule (sched_id s') d' = Inr s' \<and> (\<forall>k \<in> pending_keys d'. fst k \<noteq> sched_id s')
    \<and> pending_keys d' \<subseteq> pending_keys d"
proof -
  from a obtain d1 where put: "PutSchedule s' d = Inr d1"
    by (auto simp: applyConsumedSchedule_def ebind_Inr_iff)
  obtain d2 d3 out where eqs: "db_schedules d2 = db_schedules d1" "pending_keys d2 = pending_keys d1"
    and mid: "sound_op d1 d2"
    and st: "settlePending (sched_id s') out now d2 = Inr d3"
    and fin: "db_schedules d' = db_schedules d3" "pending_keys d' = pending_keys d3"
  proof (cases "Terminal (sched_status s')")
    case True
    with a put obtain d2 where "DeleteScheduleTimer (sched_id s') d1 = Inr d2"
      and "settlePending (sched_id s') OutcomeConditionNoLongerApplies now d2 = Inr d'"
      by (auto simp: applyConsumedSchedule_def ebind_Inr_iff)
    then show thesis
      by (intro that [of d2]) (auto dest: DeleteScheduleTimer_frame DeleteScheduleTimer_sound)
  next
    case False
    with a put new obtain d3 where st: "settlePending (sched_id s') OutcomeStaleGeneration now d1 = Inr d3"
      and t: "(if OneShot (sched_kind s') then Inr d3 else case sched_interval_seconds s' of
           None \<Rightarrow> Inl (Panic ''nil dereference'')
         | Some secs \<Rightarrow> SetScheduleTimer (sched_id s') (sched_generation s')
             (Add (sched_created_at s') (interval_of secs)) d3) = Inr d'"
      by (auto simp: applyConsumedSchedule_def ebind_Inr_iff)
    from t have "db_schedules d' = db_schedules d3" "pending_keys d' = pending_keys d3"
      by (auto split: if_split_asm option.split_asm dest: SetScheduleTimer_frame)
    with st show thesis by (intro that [of d1]) simp_all
  qed
  have p: "pending_keys d1 = pending_keys d" using PutSchedule_frame [OF put] by (simp add: pending_keys_def)
  have "db_ok d2" using mid PutSchedule_db_ok [OF ok put] by (simp add: sound_op_def)
  note cl = settlePending_clears [OF st this]
  have f: "db_schedules d' = db_schedules d1" using fin eqs settlePending_frame [OF st] by simp
  from GetSchedule_frame [OF f] PutSchedule_Get [OF ok put] cl fin eqs p show ?thesis by auto
qed

text \<open>
  Consuming the pending fire of an armed one-shot schedule either leaves the store as it was (the
  commit found its answer stale) or, in one transaction, stores the handler's concluded or re-armed
  value of the schedule, settles the fire, and leaves no fire of that schedule pending. A one-shot
  schedule is never left armed in the generation that fired.
\<close>

theorem one_shot_consumption:
  assumes c: "consume s oc c now d = Inr d'" and one: "OneShot (sched_kind s)" and ok: "db_ok d"
    and cur: "GetSchedule (sched_id s) d = Inr cur" "sched_generation cur = sched_generation s"
      "sched_status cur = ScheduleArmed"
    and pend: "occurrence_key oc \<in> pending_keys d" "occ_schedule_id oc = sched_id s"
    and same: "\<And>x. con_schedule c = Some x \<Longrightarrow> sched_id x = sched_id s"
    and frame: "commit_frame_ok c"
  shows "d' = d \<or> (\<exists>s'. con_schedule c = Some s' \<and> GetSchedule (sched_id s) d' = Inr s'
    \<and> (Terminal (sched_status s') \<or> sched_generation s' \<noteq> sched_generation s)
    \<and> occurrence_key oc \<notin> pending_keys d' \<and> (\<forall>k \<in> pending_keys d'. fst k \<noteq> sched_id s))"
proof -
  from c one obtain s' where s': "con_schedule c = Some s'"
    and new: "Terminal (sched_status s') \<or> sched_generation s' \<noteq> sched_generation s"
    by (auto simp: consume_def split: option.split_asm if_split_asm)
  with c have "d' = d \<or> Write (consumeTx s oc c now) d = Inr d'"
    by (auto simp: consume_def split: if_split_asm sum.split_asm)
  moreover have ?thesis if w: "Write (consumeTx s oc c now) d = Inr d'"
  proof -
    from w obtain e where e: "consumeTx s oc c now d = Inr e" and d': "d' = e\<lparr>db_revision := db_revision e + 1\<rparr>"
      by (auto simp: Write_def ebind_Inr_iff)
    from e cur obtain b d1 where co: "ConsumeScheduleOccurrence (occ_schedule_id oc) (occ_generation oc)
        (occ_nominal_fire_at oc) (con_outcome c) now d = Inr (b, d1)"
      and rest: "(if \<not> b then Inr d1 else ebind (applyConsumedSchedule s s' now d1)
         (\<lambda>d'. case con_commit c of None \<Rightarrow> Inr d' | Some f \<Rightarrow> f d')) = Inr e"
      using s' by (auto simp: consumeTx_def Let_def ebind_Inr_iff split: if_split_asm)
    have b using ConsumeScheduleOccurrence_spec [OF co refl] pend(1)
      by (auto simp: pending_keys_def occurrence_key_def)
    with rest obtain d2 where ap: "applyConsumedSchedule s s' now d1 = Inr d2"
      and cm: "(case con_commit c of None \<Rightarrow> Inr d2 | Some f \<Rightarrow> f d2) = Inr e"
      by (auto simp: ebind_Inr_iff)
    from cm frame have f: "db_schedules d' = db_schedules d2" and "db_occurrences d' = db_occurrences d2"
      by (auto simp: commit_frame_ok_def d' split: option.split_asm)
    then have p: "pending_keys d' = pending_keys d2" by (simp add: pending_keys_def)
    have "db_ok d1" using ConsumeScheduleOccurrence_sound [OF co] ok by (simp add: sound_op_def)
    from applyConsumedSchedule_ends [OF ap this new] same [OF s'] pending_keys_consume [OF co] p
      GetSchedule_frame [OF f] new s' show ?thesis
      by (auto simp: occurrence_key_def)
  qed
  ultimately show ?thesis by blast
qed

section \<open>Examples\<close>

definition example_consumption :: Consumption where
  "example_consumption = \<lparr>con_outcome = OutcomeHandled, con_schedule = Some example_fired, con_commit = None\<rparr>"

definition example_config :: config where
  "example_config = \<lparr>cfg_mode = ModeAttendedDev, cfg_kinds = [(SchedulePRChecksDeadline,
     \<lparr>reg_handle = (\<lambda>ev s. Inr example_consumption), reg_subject_live = Some (\<lambda>s. Inr True)\<rparr>)]\<rparr>"

lemma example_config_sound: "sound_config example_config"
  by (simp add: sound_config_def example_config_def sound_consumption_def example_consumption_def)

text \<open>The store with the reads a fire of the example deadline makes, before any pass.\<close>

definition example_world :: db where
  "example_world = empty_db\<lparr>db_schedules := [(sched_id example_deadline, schedule_columns example_deadline 1 1)],
     db_revision := 1,
     db_items := (\<lambda>i. Inr \<lparr>item_project_id = ''project-1'', item_subject_is_run = True,
        item_subject_id = ''run-1'', item_subject_run_id = Some ''run-1'', item_open = True\<rparr>),
     db_runs := (\<lambda>i. Inr \<lparr>run_id = ''run-1'', run_project_id = ''project-1'', run_policy_digest = ''sha256:ab''\<rparr>),
     db_policies := (\<lambda>i. Inr \<lparr>policy_run_id = ''run-1'', policy_digest = ''sha256:ab''\<rparr>)\<rparr>"

definition example_start :: scheduler where
  "example_start = \<lparr>sch_db = example_world, sch_in_flight = [], sch_jobs = [], sch_errs = None\<rparr>"

lemma example_world_ok: "db_ok example_world"
  using example_valid(1)
  by (simp add: example_world_def empty_db_def db_ok_def schedule_row_ok_def)

definition example_fired_pass :: scheduler where
  "example_fired_pass = snd (pass example_config (UnixZero 3700) example_start)"

definition example_done :: scheduler where
  "example_done = runJob example_config (hd (sch_jobs example_fired_pass)) (UnixZero 3750) example_fired_pass"

lemma example_fires:
  "fst (pass example_config (UnixZero 3700) example_start) = None"
  "map (\<lambda>j. sched_id (job_schedule j)) (sch_jobs example_fired_pass) = [''pr-checks/item-1'']"
  "map (\<lambda>(k, r). (k, orow_status r, orow_outcome r)) (db_occurrences (sch_db example_fired_pass)) =
     [((''pr-checks/item-1'', 1, 3600), ''pending'', None)]"
  by code_simp+

lemma example_completes:
  "map (\<lambda>(k, r). (k, orow_status r, orow_outcome r)) (db_occurrences (sch_db example_done)) =
     [((''pr-checks/item-1'', 1, 3600), ''consumed'', Some ''handled'')]"
  "GetSchedule ''pr-checks/item-1'' (sch_db example_done) = Inr example_fired"
  "sch_in_flight example_done = []" "sch_jobs example_done = []" "sch_errs example_done = None"
  by code_simp+

lemma example_steps:
  "sched_steps example_config example_start example_fired_pass"
  "sched_steps example_config example_start example_done"
proof -
  have 1: "sched_step example_config example_start example_fired_pass"
    unfolding example_fired_pass_def by (rule step_pass) (rule surjective_pairing)
  have "sch_jobs example_fired_pass \<noteq> []" using example_fires(2) by auto
  then have 2: "sched_step example_config example_fired_pass example_done"
    unfolding example_done_def by (intro step_job) simp
  from 1 2 show "sched_steps example_config example_start example_fired_pass"
    "sched_steps example_config example_start example_done"
    by (blast intro: steps_refl steps_step)+
qed

lemma example_start_ok: "db_ok (sch_db example_start)" "in_flight_ok example_start"
  using example_world_ok by (simp_all add: example_start_def in_flight_ok_none)

theorem scheduler_run_safe_witness:
  "sched_steps example_config example_start example_done \<and> db_ok (sch_db example_done)"
  using scheduler_run_safe [OF example_steps(2) example_config_sound example_start_ok(1)] example_steps(2)
  by blast

theorem one_handler_per_schedule_witness:
  "sched_steps example_config example_start example_fired_pass
   \<and> isInFlight ''pr-checks/item-1'' example_fired_pass"
proof -
  have "\<exists>j \<in> set (sch_jobs example_fired_pass). sched_id (job_schedule j) = ''pr-checks/item-1''"
    using example_fires(2) by auto
  with one_handler_per_schedule [OF example_steps(1) example_config_sound example_start_ok] example_steps(1)
  show ?thesis by blast
qed

theorem settlePending_clears_witness:
  "\<exists>d'. settlePending ''pr-checks/item-1'' OutcomeStaleGeneration (UnixZero 3900) example_db = Inr d'
     \<and> (''pr-checks/item-1'', 1, 3600) \<in> pending_keys example_db
     \<and> (''pr-checks/item-1'', 1, 3600) \<notin> pending_keys d'"
proof -
  let ?c = "settlePending ''pr-checks/item-1'' OutcomeStaleGeneration (UnixZero 3900) example_db"
  have "\<not> isl ?c" by code_simp
  then obtain d' where d': "?c = Inr d'" by (cases ?c) auto
  have "(''pr-checks/item-1'', 1, 3600) \<in> pending_keys example_db"
    by (simp add: pending_keys_def example_db_def insertPending_def empty_db_def)
  with settlePending_clears [OF d' example_db_ok] d' show ?thesis by auto
qed

lemma example_db_pending: "occurrence_key example_occurrence \<in> pending_keys example_db"
  by (simp add: pending_keys_def example_db_def insertPending_def empty_db_def occurrence_key_def
      occurrence_key_of_def example_occurrence_def UnixNano_def min_int64_def max_int64_def)

theorem consume_replay_is_noop_witness:
  "\<exists>d'. consume example_deadline example_occurrence example_consumption (UnixZero 3900) empty_db = Inr d'
     \<and> db_occurrences d' = []"
proof -
  let ?c = "consume example_deadline example_occurrence example_consumption (UnixZero 3900) empty_db"
  have "\<not> isl ?c" by code_simp
  then obtain d' where d': "?c = Inr d'" by (cases ?c) auto
  have "occurrence_key example_occurrence \<notin> pending_keys empty_db"
    by (simp add: pending_keys_def empty_db_def)
  from consume_replay_is_noop [OF d' this] d' show ?thesis by (auto simp: empty_db_def)
qed

theorem convergeOccurrence_delivers_witness:
  "\<exists>oc d'. convergeOccurrence example_deadline None (UnixZero 3700) example_world = Inr (Some oc, d')
     \<and> occurrence_key oc \<in> pending_keys d'"
proof -
  let ?c = "convergeOccurrence example_deadline None (UnixZero 3700) example_world"
  have "\<not> isl ?c" "fst (projr ?c) \<noteq> None" by code_simp+
  then obtain oc d' where c: "?c = Inr (Some oc, d')" by (cases ?c) auto
  from convergeOccurrence_delivers [OF this] c show ?thesis by blast
qed

theorem coalesce_latest_witness:
  "\<exists>nf. coalesce (UnixZero 30) 30 None (UnixZero 100) = Inr nf \<and> \<not> After (nf_nominal nf) (UnixZero 100)"
proof -
  have "\<not> After (UnixZero 30) (UnixZero 100)" "(0::int) < 30"
    "unix_ns (UnixZero 100) - unix_ns (UnixZero 30) \<le> max_int64" "is_int64 30" by code_simp+
  from coalesce_latest [OF this] show ?thesis by blast
qed

theorem Converge_idempotent_witness:
  "\<exists>d'. Converge example_poll (UnixZero 30) empty_db = Inr d'
     \<and> Converge example_poll (UnixZero 99) d' = Inr d'"
proof -
  let ?c = "Converge example_poll (UnixZero 30) empty_db"
  have "\<not> isl ?c" by code_simp
  then obtain d' where d': "?c = Inr d'" by (cases ?c) auto
  have n: "GetSchedule (sched_id example_poll) empty_db = Inl ErrNotFound"
    by (simp add: GetSchedule_def GetScheduleSnapshot_def empty_db_def)
  have "same_binding x example_poll" if "GetSchedule (sched_id example_poll) empty_db = Inr x" for x
    using that n by simp
  from Converge_idempotent [OF d' empty_db_ok this] d' show ?thesis by blast
qed

theorem Converge_rearm_settles_witness:
  "\<exists>d'. Converge example_second (UnixZero 0) example_db = Inr d'
     \<and> (''pr-checks/item-1'', 1, 3600) \<in> pending_keys example_db \<and> pending_keys d' = {}"
proof -
  let ?c = "Converge example_second (UnixZero 0) example_db"
  have "\<not> isl ?c" by code_simp
  then obtain d' where d': "?c = Inr d'" by (cases ?c) auto
  have g: "GetSchedule (sched_id example_second) example_db = Inr example_deadline" by code_simp
  have n: "\<not> (sched_status example_deadline = ScheduleArmed \<and> sameShape example_deadline example_second)"
    by code_simp
  have "pending_keys example_db = {(''pr-checks/item-1'', 1, 3600)}"
    by (auto simp: pending_keys_def example_db_def insertPending_def empty_db_def split: if_split_asm)
  moreover have "sched_id example_second = ''pr-checks/item-1''" by code_simp
  ultimately show ?thesis
    using Converge_rearm_settles [OF d' example_db_ok g n] d' by auto
qed

theorem one_shot_consumption_witness:
  "\<exists>d'. consume example_deadline example_occurrence example_consumption (UnixZero 3900) example_db = Inr d'
     \<and> d' \<noteq> example_db \<and> (\<forall>k \<in> pending_keys d'. fst k \<noteq> ''pr-checks/item-1'')"
proof -
  let ?c = "consume example_deadline example_occurrence example_consumption (UnixZero 3900) example_db"
  have "\<not> isl ?c" "db_revision (projr ?c) = 2" by code_simp+
  then obtain d' where d': "?c = Inr d'" and r: "db_revision d' = 2" by (cases ?c) auto
  have g: "GetSchedule (sched_id example_deadline) example_db = Inr example_deadline" by code_simp
  have o: "OneShot (sched_kind example_deadline)" "sched_generation example_deadline = sched_generation example_deadline"
    "sched_status example_deadline = ScheduleArmed" "occ_schedule_id example_occurrence = sched_id example_deadline"
    "sched_id example_deadline = ''pr-checks/item-1''" "db_revision example_db = 1"
    "sched_id example_fired = sched_id example_deadline" by code_simp+
  have s: "sched_id x = sched_id example_deadline" if "con_schedule example_consumption = Some x" for x
    using that o(7) by (simp add: example_consumption_def)
  have f: "commit_frame_ok example_consumption" by (simp add: commit_frame_ok_def example_consumption_def)
  have "d' \<noteq> example_db" using r o(6) by auto
  with one_shot_consumption [OF d' o(1) example_db_ok g o(2,3) example_db_pending o(4) s f] d' o(5)
  show ?thesis by auto
qed

section \<open>What arming does not converge\<close>


end
