(* ===== verification/DeviceDomain.thy ===== *)
theory DeviceDomain
  imports GoTime ContentAddr
begin

text \<open>
  \<open>daemon/internal/domain/device.go\<close> and \<open>pairing_code.go\<close> with their transition validators in
  \<open>transitions.go\<close>: paired devices, their credentials and the one-time pairing codes. A named string
  enumeration is a datatype as in \<open>ScheduleDomain\<close>.
\<close>

section \<open>Devices\<close>

datatype DeviceStatus = DeviceActive | DeviceRevoked | DeviceStatusOther string

fun DeviceStatus_text :: "DeviceStatus \<Rightarrow> string" where
  "DeviceStatus_text DeviceActive = ''active''"
| "DeviceStatus_text DeviceRevoked = ''revoked''"
| "DeviceStatus_text (DeviceStatusOther s) = s"

definition AllDeviceStatuses :: "DeviceStatus list" where
  "AllDeviceStatuses = [DeviceActive, DeviceRevoked]"

fun DeviceStatus_valid :: "DeviceStatus \<Rightarrow> bool" where
  "DeviceStatus_valid DeviceActive = True"
| "DeviceStatus_valid DeviceRevoked = True"
| "DeviceStatus_valid (DeviceStatusOther _) = False"

interpretation device_status_enum: string_enum DeviceStatus_text AllDeviceStatuses DeviceStatusOther
proof
  fix k show "k \<in> set AllDeviceStatuses \<or> (\<exists>s. k = DeviceStatusOther s)"
    by (cases k) (simp_all add: AllDeviceStatuses_def)
qed (simp_all add: AllDeviceStatuses_def)

record Device =
  dev_id :: string
  dev_display_name :: string
  dev_status :: DeviceStatus
  dev_paired_at :: gotime
  dev_revoked_at :: "gotime option"

definition Device_Validate :: "Device \<Rightarrow> err option" where
  "Device_Validate d = first_error [
     require (dev_id d \<noteq> []) ErrEmptyID,
     require (dev_display_name d \<noteq> []) ErrEmptyField,
     require (DeviceStatus_valid (dev_status d)) ErrInvalidDeviceStatus,
     require (\<not> IsZero (dev_paired_at d)) ErrMissingTimestamp,
     (case dev_status d of
        DeviceActive \<Rightarrow> require (dev_revoked_at d = None) ErrStatusTimestampTooStrong
      | DeviceRevoked \<Rightarrow> require (dev_revoked_at d \<noteq> None) ErrStatusMissingTimestamp
      | DeviceStatusOther _ \<Rightarrow> None),
     when_ptr (dev_revoked_at d) (\<lambda>t. first_error [
       require (\<not> IsZero t) ErrMissingTimestamp,
       require (\<not> Before t (dev_paired_at d)) ErrTimestampOutOfOrder])]"

datatype DeviceCredentialKind =
    CredentialHash | CredentialPublicKey | DeviceCredentialKindOther string

fun DeviceCredentialKind_text :: "DeviceCredentialKind \<Rightarrow> string" where
  "DeviceCredentialKind_text CredentialHash = ''credential_hash''"
| "DeviceCredentialKind_text CredentialPublicKey = ''device_public_key''"
| "DeviceCredentialKind_text (DeviceCredentialKindOther s) = s"

definition AllDeviceCredentialKinds :: "DeviceCredentialKind list" where
  "AllDeviceCredentialKinds = [CredentialHash, CredentialPublicKey]"

fun DeviceCredentialKind_valid :: "DeviceCredentialKind \<Rightarrow> bool" where
  "DeviceCredentialKind_valid CredentialHash = True"
| "DeviceCredentialKind_valid CredentialPublicKey = True"
| "DeviceCredentialKind_valid (DeviceCredentialKindOther _) = False"

interpretation credential_kind_enum:
  string_enum DeviceCredentialKind_text AllDeviceCredentialKinds DeviceCredentialKindOther
proof
  fix k show "k \<in> set AllDeviceCredentialKinds \<or> (\<exists>s. k = DeviceCredentialKindOther s)"
    by (cases k) (simp_all add: AllDeviceCredentialKinds_def)
qed (simp_all add: AllDeviceCredentialKinds_def)

record DeviceCredential =
  cred_device_id :: string
  cred_kind :: DeviceCredentialKind
  cred_credential :: string

definition isSHA256Digest :: "string \<Rightarrow> bool" where
  "isSHA256Digest s = Valid s"

definition DeviceCredential_Validate :: "DeviceCredential \<Rightarrow> err option" where
  "DeviceCredential_Validate c = first_error [
     require (cred_device_id c \<noteq> []) ErrEmptyID,
     require (DeviceCredentialKind_valid (cred_kind c)) ErrInvalidCredentialKind,
     require (cred_credential c \<noteq> []) ErrEmptyField,
     require (\<not> (cred_kind c = CredentialHash \<and> \<not> isSHA256Digest (cred_credential c)))
       ErrPlaintextCredential]"

section \<open>Pairing codes\<close>

record PairingCode =
  pc_code_hash :: string
  pc_created_at :: gotime
  pc_expires_at :: gotime
  pc_consumed_at :: "gotime option"
  pc_device_id :: "string option"

definition PairingCode_Validate :: "PairingCode \<Rightarrow> err option" where
  "PairingCode_Validate p = first_error [
     require (pc_code_hash p \<noteq> []) ErrEmptyID,
     require (isSHA256Digest (pc_code_hash p)) ErrPlaintextCredential,
     require (\<not> IsZero (pc_created_at p)) ErrMissingTimestamp,
     require (\<not> IsZero (pc_expires_at p)) ErrMissingTimestamp,
     require (After (pc_expires_at p) (pc_created_at p)) ErrTimestampOutOfOrder,
     require ((pc_consumed_at p = None) = (pc_device_id p = None)) ErrConsumptionInconsistent,
     when_ptr (pc_consumed_at p) (\<lambda>t. first_error [
       require (\<not> IsZero t) ErrMissingTimestamp,
       require (\<not> Before t (pc_created_at p)) ErrTimestampOutOfOrder,
       deref (pc_device_id p) (\<lambda>i. require (i \<noteq> []) ErrEmptyID)])]"

section \<open>Transitions\<close>

fun deviceStatusSuccessors :: "DeviceStatus \<Rightarrow> DeviceStatus list" where
  "deviceStatusSuccessors DeviceActive = [DeviceRevoked]"
| "deviceStatusSuccessors DeviceRevoked = []"
| "deviceStatusSuccessors (DeviceStatusOther _) = []"

definition ValidateDeviceTransition :: "Device \<Rightarrow> Device \<Rightarrow> err option" where
  "ValidateDeviceTransition old updated =
     (if dev_id updated \<noteq> dev_id old then Some ErrImmutableTransition
      else if \<not> Equal (dev_paired_at updated) (dev_paired_at old) then Some ErrImmutableTransition
      else if dev_status updated \<noteq> dev_status old
        \<and> dev_status updated \<notin> set (deviceStatusSuccessors (dev_status old))
      then Some ErrImmutableTransition
      else if dev_revoked_at old \<noteq> None \<and> \<not> timePtrEqual (dev_revoked_at updated) (dev_revoked_at old)
      then Some ErrImmutableTransition
      else None)"

definition ValidatePairingCodeTransition :: "PairingCode \<Rightarrow> PairingCode \<Rightarrow> err option" where
  "ValidatePairingCodeTransition old updated =
     (if pc_code_hash updated \<noteq> pc_code_hash old then Some ErrImmutableTransition
      else if \<not> Equal (pc_created_at updated) (pc_created_at old)
        \<or> \<not> Equal (pc_expires_at updated) (pc_expires_at old)
      then Some ErrImmutableTransition
      else if pc_consumed_at old \<noteq> None then
        (let sameDevice = (case (pc_device_id old, pc_device_id updated) of
               (Some a, Some b) \<Rightarrow> b = a | _ \<Rightarrow> False)
         in if \<not> timePtrEqual (pc_consumed_at updated) (pc_consumed_at old) \<or> \<not> sameDevice
            then Some ErrImmutableTransition else None)
      else None)"

section \<open>Properties\<close>

lemma Device_valid_iff:
  "Device_Validate d = None \<longleftrightarrow> dev_id d \<noteq> [] \<and> dev_display_name d \<noteq> [] \<and> \<not> IsZero (dev_paired_at d)
     \<and> (dev_status d = DeviceActive \<and> dev_revoked_at d = None
        \<or> dev_status d = DeviceRevoked \<and> (\<exists>t. dev_revoked_at d = Some t \<and> \<not> IsZero t
            \<and> \<not> Before t (dev_paired_at d)))"
  by (cases "dev_status d") (auto simp: Device_Validate_def validation)

lemma PairingCode_valid_iff:
  "PairingCode_Validate p = None \<longleftrightarrow> Valid (pc_code_hash p) \<and> \<not> IsZero (pc_created_at p)
     \<and> \<not> IsZero (pc_expires_at p) \<and> After (pc_expires_at p) (pc_created_at p)
     \<and> (pc_consumed_at p = None \<and> pc_device_id p = None
        \<or> (\<exists>t i. pc_consumed_at p = Some t \<and> pc_device_id p = Some i \<and> i \<noteq> [] \<and> \<not> IsZero t
             \<and> \<not> Before t (pc_created_at p)))"
proof -
  have "Valid h \<Longrightarrow> h \<noteq> []" for h by (auto simp: Valid_iff prefix_def)
  then show ?thesis
    by (cases "pc_consumed_at p"; cases "pc_device_id p")
      (auto simp: PairingCode_Validate_def isSHA256Digest_def validation)
qed

lemma Credential_valid_iff:
  "DeviceCredential_Validate c = None \<longleftrightarrow> cred_device_id c \<noteq> [] \<and> cred_credential c \<noteq> []
     \<and> (cred_kind c = CredentialHash \<and> Valid (cred_credential c) \<or> cred_kind c = CredentialPublicKey)"
  by (cases "cred_kind c") (auto simp: DeviceCredential_Validate_def isSHA256Digest_def validation)

text \<open>
  The validators of a pairing code dereference the device id only behind the check that the
  consumption pair is complete.
\<close>

lemma PairingCode_Validate_no_panic: "no_panic (PairingCode_Validate p)"
  by (cases "pc_consumed_at p"; cases "pc_device_id p") (simp_all add: PairingCode_Validate_def)

text \<open>What a device and a pairing code keep for good.\<close>

definition device_extends :: "Device \<Rightarrow> Device \<Rightarrow> bool" where
  "device_extends a b \<longleftrightarrow> (dev_status a = DeviceRevoked \<longrightarrow> dev_status b = DeviceRevoked)
     \<and> (dev_revoked_at a \<noteq> None \<longrightarrow> timePtrEqual (dev_revoked_at b) (dev_revoked_at a))"

interpretation device_history:
  stored_aggregate ValidateDeviceTransition "\<lambda>d. (dev_id d, unix_ns (dev_paired_at d))" device_extends
proof
  fix a b :: Device
  assume v: "ValidateDeviceTransition a b = None"
  then show "(dev_id b, unix_ns (dev_paired_at b)) = (dev_id a, unix_ns (dev_paired_at a))"
    by (auto simp: ValidateDeviceTransition_def Equal_def split: if_split_asm)
  from v show "device_extends a b"
    by (auto simp: ValidateDeviceTransition_def device_extends_def split: if_split_asm)
next
  fix a b c :: Device
  show "device_extends a a" by (simp add: device_extends_def)
  assume "device_extends a b" "device_extends b c"
  then show "device_extends a c"
    by (cases "dev_revoked_at a"; cases "dev_revoked_at b"; cases "dev_revoked_at c")
      (auto simp: device_extends_def intro: Equal_trans)
qed

definition code_extends :: "PairingCode \<Rightarrow> PairingCode \<Rightarrow> bool" where
  "code_extends a b \<longleftrightarrow> (\<forall>t. pc_consumed_at a = Some t \<longrightarrow>
     timePtrEqual (pc_consumed_at b) (Some t) \<and> pc_device_id a \<noteq> None \<and> pc_device_id b = pc_device_id a)"

interpretation pairing_code_history:
  stored_aggregate ValidatePairingCodeTransition
    "\<lambda>p. (pc_code_hash p, unix_ns (pc_created_at p), unix_ns (pc_expires_at p))"
    "\<lambda>a b. pc_consumed_at a \<noteq> None \<longrightarrow> pc_device_id a \<noteq> None \<longrightarrow> code_extends a b \<and> pc_device_id b \<noteq> None"
proof
  fix a b :: PairingCode
  assume v: "ValidatePairingCodeTransition a b = None"
  then show "(pc_code_hash b, unix_ns (pc_created_at b), unix_ns (pc_expires_at b)) =
      (pc_code_hash a, unix_ns (pc_created_at a), unix_ns (pc_expires_at a))"
    by (auto simp: ValidatePairingCodeTransition_def Equal_def split: if_split_asm)
  from v show "pc_consumed_at a \<noteq> None \<longrightarrow> pc_device_id a \<noteq> None \<longrightarrow>
      code_extends a b \<and> pc_device_id b \<noteq> None"
    by (auto simp: ValidatePairingCodeTransition_def code_extends_def Let_def
        split: if_split_asm option.split_asm)
next
  fix a b c :: PairingCode
  show "pc_consumed_at a \<noteq> None \<longrightarrow> pc_device_id a \<noteq> None \<longrightarrow> code_extends a a \<and> pc_device_id a \<noteq> None"
    by (auto simp: code_extends_def)
  assume "pc_consumed_at a \<noteq> None \<longrightarrow> pc_device_id a \<noteq> None \<longrightarrow> code_extends a b \<and> pc_device_id b \<noteq> None"
    and "pc_consumed_at b \<noteq> None \<longrightarrow> pc_device_id b \<noteq> None \<longrightarrow> code_extends b c \<and> pc_device_id c \<noteq> None"
  then show "pc_consumed_at a \<noteq> None \<longrightarrow> pc_device_id a \<noteq> None \<longrightarrow> code_extends a c \<and> pc_device_id c \<noteq> None"
    by (cases "pc_consumed_at a"; cases "pc_consumed_at b"; cases "pc_consumed_at c")
      (auto simp: code_extends_def intro: Equal_trans)
qed

end
