(* ===== verification/PairingStore.thy ===== *)
theory PairingStore
  imports DeviceDomain StoreKernel
begin

text \<open>
  \<open>daemon/internal/store/pairing.go\<close>, the device operations of \<open>entities.go\<close> and
  \<open>device_activity.go\<close>: the durable tables of pairing. Foreign keys are enforced
  (\<open>PRAGMA foreign_keys\<close>): a credential and a consumed code name an existing device.

  Invariants shown: every row reads back (\<open>pair_db_ok\<close>), a credential is written once, a code is
  consumed at most once and by a device that consumed no other, a revoked device stays revoked.
\<close>

section \<open>Tables\<close>

record device_row =
  drow_status :: string
  drow_entity_version :: int
  drow_as_of_revision :: int
  drow_body :: Device

record credential_row =
  crow_kind :: string
  crow_credential :: string

record code_row =
  prow_created_at :: gotime
  prow_expires_at :: gotime
  prow_consumed_at :: "gotime option"
  prow_device_id :: "string option"
  prow_body :: PairingCode

record pair_db =
  pdb_devices :: "(string \<times> device_row) list"
  pdb_credentials :: "(string \<times> credential_row) list"
  pdb_codes :: "(string \<times> code_row) list"
  pdb_activity :: "(string \<times> int) list"
  pdb_revision :: int

text \<open>Transactions: \<open>Write\<close> advances the revision, \<open>WriteInternal\<close> does not; an error rolls back.\<close>

definition WriteTx :: "(pair_db \<Rightarrow> err + ('a \<times> pair_db)) \<Rightarrow> pair_db \<Rightarrow> err + ('a \<times> pair_db)" where
  "WriteTx f d = ebind (f d) (\<lambda>(x, d'). Inr (x, d'\<lparr>pdb_revision := pdb_revision d' + 1\<rparr>))"

definition WriteInternal :: "(pair_db \<Rightarrow> err + pair_db) \<Rightarrow> pair_db \<Rightarrow> err + pair_db" where
  "WriteInternal f d = f d"

section \<open>Devices\<close>

definition device_marshals :: "Device \<Rightarrow> bool" where
  "device_marshals d \<longleftrightarrow> rfc3339_ok (dev_paired_at d) \<and> (\<forall>t \<in> set_option (dev_revoked_at d). rfc3339_ok t)"

definition scanDeviceSnapshot :: "string \<times> device_row \<Rightarrow> err + (Device \<times> Snapshot)" where
  "scanDeviceSnapshot ir = (case ir of (i, r) \<Rightarrow>
     ebind (decode Device_Validate (drow_body r)) (\<lambda>d.
       if dev_id d \<noteq> i
         \<or> dev_status d \<noteq> enum_parse DeviceStatus_text AllDeviceStatuses DeviceStatusOther (drow_status r)
         \<or> drow_entity_version r < 1 \<or> drow_as_of_revision r < 1
       then Inl ErrRowInconsistent
       else Inr (d, \<lparr>EntityVersion = drow_entity_version r, AsOfRevision = drow_as_of_revision r\<rparr>)))"

definition GetDeviceSnapshot :: "string \<Rightarrow> pair_db \<Rightarrow> err + (Device \<times> Snapshot)" where
  "GetDeviceSnapshot i d = (case map_of (pdb_devices d) i of
     None \<Rightarrow> Inl ErrNotFound | Some r \<Rightarrow> scanDeviceSnapshot (i, r))"

definition GetDevice :: "string \<Rightarrow> pair_db \<Rightarrow> err + Device" where
  "GetDevice i d = ebind (GetDeviceSnapshot i d) (\<lambda>(dev, _). Inr dev)"

definition ListDevices :: "pair_db \<Rightarrow> err + (Device \<times> Snapshot) list" where
  "ListDevices d = queryAll scanDeviceSnapshot (sort_key fst (pdb_devices d))"

definition PutDevice :: "Device \<Rightarrow> pair_db \<Rightarrow> err + pair_db" where
  "PutDevice dev d = (let upsert = (\<lambda>v. d\<lparr>pdb_devices := AList.update (dev_id dev)
        \<lparr>drow_status = DeviceStatus_text (dev_status dev), drow_entity_version = v,
         drow_as_of_revision = pdb_revision d + 1, drow_body = dev\<rparr> (pdb_devices d)\<rparr>) in
     case encode Device_Validate device_marshals dev of
       Some e \<Rightarrow> Inl e
     | None \<Rightarrow> (case map_of (pdb_devices d) (dev_id dev) of
         None \<Rightarrow> Inr (upsert 1)
       | Some r \<Rightarrow>
           if drow_body r = dev then Inr d
           else case decode Device_Validate (drow_body r) of
               Inl e \<Rightarrow> Inl e
             | Inr old \<Rightarrow> (case ValidateDeviceTransition old dev of
                 Some e \<Rightarrow> Inl (mapTransition e)
               | None \<Rightarrow> Inr (upsert (drow_entity_version r + 1)))))"

section \<open>Credentials\<close>

definition GetDeviceCredential :: "string \<Rightarrow> pair_db \<Rightarrow> err + DeviceCredential" where
  "GetDeviceCredential i d = (case map_of (pdb_credentials d) i of
     None \<Rightarrow> Inl ErrNotFound
   | Some r \<Rightarrow> (let c = \<lparr>cred_device_id = i,
        cred_kind = enum_parse DeviceCredentialKind_text AllDeviceCredentialKinds
          DeviceCredentialKindOther (crow_kind r),
        cred_credential = crow_credential r\<rparr>
      in of_err (DeviceCredential_Validate c) c))"

definition RecordDeviceCredential :: "DeviceCredential \<Rightarrow> pair_db \<Rightarrow> err + pair_db" where
  "RecordDeviceCredential c d = (case DeviceCredential_Validate c of
     Some e \<Rightarrow> Inl e
   | None \<Rightarrow> (case map_of (pdb_credentials d) (cred_device_id c) of
       None \<Rightarrow>
         if map_of (pdb_devices d) (cred_device_id c) = None then Inl (ErrText ''FOREIGN KEY constraint failed'')
         else Inr (d\<lparr>pdb_credentials := AList.update (cred_device_id c)
           \<lparr>crow_kind = DeviceCredentialKind_text (cred_kind c), crow_credential = cred_credential c\<rparr>
           (pdb_credentials d)\<rparr>)
     | Some _ \<Rightarrow> ebind (GetDeviceCredential (cred_device_id c) d) (\<lambda>existing.
         if existing \<noteq> c then Inl ErrImmutableConflict else Inr d)))"

section \<open>Pairing codes\<close>

definition code_marshals :: "PairingCode \<Rightarrow> bool" where
  "code_marshals p \<longleftrightarrow> rfc3339_ok (pc_created_at p) \<and> rfc3339_ok (pc_expires_at p)
     \<and> (\<forall>t \<in> set_option (pc_consumed_at p). rfc3339_ok t)"

definition code_columns :: "PairingCode \<Rightarrow> code_row" where
  "code_columns p = \<lparr>prow_created_at = formatTime (pc_created_at p),
     prow_expires_at = formatTime (pc_expires_at p),
     prow_consumed_at = formatTimePtr (pc_consumed_at p), prow_device_id = pc_device_id p, prow_body = p\<rparr>"

definition MintCode :: "PairingCode \<Rightarrow> pair_db \<Rightarrow> err + pair_db" where
  "MintCode p d =
     (if pc_consumed_at p \<noteq> None \<or> pc_device_id p \<noteq> None then Inl ErrImmutableConflict
      else case encode PairingCode_Validate code_marshals p of
          Some e \<Rightarrow> Inl e
        | None \<Rightarrow> ebind (putImmutable (\<lambda>r. prow_body r = p) (pc_code_hash p) (code_columns p) (pdb_codes d))
            (\<lambda>t. Inr (d\<lparr>pdb_codes := t\<rparr>)))"

definition GetPairingCode :: "string \<Rightarrow> pair_db \<Rightarrow> err + PairingCode" where
  "GetPairingCode h d = (case map_of (pdb_codes d) h of
     None \<Rightarrow> Inl ErrNotFound
   | Some r \<Rightarrow> ebind (decode PairingCode_Validate (prow_body r)) (\<lambda>p.
       if \<not> (pc_code_hash p = h
          \<and> timeColumnEqual (prow_created_at r) (pc_created_at p)
          \<and> timeColumnEqual (prow_expires_at r) (pc_expires_at p)
          \<and> optionalTimeColumnEqual (prow_consumed_at r) (pc_consumed_at p)
          \<and> pc_device_id p = prow_device_id r)
       then Inl ErrRowInconsistent else Inr p))"

text \<open>How many codes the device has consumed, and the conditional update's affected rows.\<close>

definition occupied :: "string \<Rightarrow> pair_db \<Rightarrow> nat" where
  "occupied dev d = length (filter (\<lambda>(_, r). prow_device_id r = Some dev) (pdb_codes d))"

definition consumeCodeRow ::
  "string \<Rightarrow> string \<Rightarrow> gotime \<Rightarrow> PairingCode \<Rightarrow> (string \<times> code_row) list
   \<Rightarrow> bool \<times> (string \<times> code_row) list" where
  "consumeCodeRow h dev at body t = (case map_of t h of
     None \<Rightarrow> (False, t)
   | Some r \<Rightarrow> if prow_device_id r = None
       then (True, AList.update h (r\<lparr>prow_consumed_at := Some (formatTime at),
               prow_device_id := Some dev, prow_body := body\<rparr>) t)
       else (False, t))"

definition ConsumePairingCode :: "string \<Rightarrow> string \<Rightarrow> gotime \<Rightarrow> pair_db \<Rightarrow> err + pair_db" where
  "ConsumePairingCode h dev consumedAt d =
     ebind (GetPairingCode h d) (\<lambda>stored.
     let updated = stored\<lparr>pc_consumed_at := Some consumedAt, pc_device_id := Some dev\<rparr> in
     case encode PairingCode_Validate code_marshals updated of
       Some e \<Rightarrow> Inl e
     | None \<Rightarrow> (case ValidatePairingCodeTransition stored updated of
         Some e \<Rightarrow> Inl (mapTransition e)
       | None \<Rightarrow>
           if pc_consumed_at stored \<noteq> None then Inr d
           else if 0 < occupied dev d then Inl ErrImmutableConflict
           else if map_of (pdb_devices d) dev = None then Inl (ErrText ''FOREIGN KEY constraint failed'')
           else let (affected, t) = consumeCodeRow h dev consumedAt updated (pdb_codes d)
             in if \<not> affected then Inl ErrImmutableConflict else Inr (d\<lparr>pdb_codes := t\<rparr>)))"

section \<open>Activity\<close>

definition TouchDeviceActivity :: "string \<Rightarrow> gotime \<Rightarrow> int \<Rightarrow> pair_db \<Rightarrow> err + pair_db" where
  "TouchDeviceActivity i at minInterval d =
     (if i = [] then Inl ErrEmptyID
      else if UnixNano (UTC at) \<le> 0 then Inl (ErrText ''CHECK constraint failed'')
      else case map_of (pdb_activity d) i of
          None \<Rightarrow> if map_of (pdb_devices d) i = None then Inl (ErrText ''FOREIGN KEY constraint failed'')
            else Inr (d\<lparr>pdb_activity := AList.update i (UnixNano (UTC at)) (pdb_activity d)\<rparr>)
        | Some seen \<Rightarrow>
            if minInterval \<le> UnixNano (UTC at) - seen
            then Inr (d\<lparr>pdb_activity := AList.update i (UnixNano (UTC at)) (pdb_activity d)\<rparr>)
            else Inr d)"

definition ListDeviceActivity :: "pair_db \<Rightarrow> (string \<times> gotime) list" where
  "ListDeviceActivity d = map (\<lambda>(i, n). (i, UnixZero n)) (pdb_activity d)"

section \<open>The invariant\<close>

definition device_row_ok :: "string \<Rightarrow> device_row \<Rightarrow> bool" where
  "device_row_ok i r \<longleftrightarrow> dev_id (drow_body r) = i \<and> Device_Validate (drow_body r) = None
     \<and> drow_status r = DeviceStatus_text (dev_status (drow_body r))
     \<and> 1 \<le> drow_entity_version r \<and> 1 \<le> drow_as_of_revision r"

definition credential_of :: "string \<Rightarrow> credential_row \<Rightarrow> DeviceCredential" where
  "credential_of i r = \<lparr>cred_device_id = i,
     cred_kind = enum_parse DeviceCredentialKind_text AllDeviceCredentialKinds
       DeviceCredentialKindOther (crow_kind r),
     cred_credential = crow_credential r\<rparr>"

definition code_row_ok :: "string \<Rightarrow> code_row \<Rightarrow> bool" where
  "code_row_ok h r \<longleftrightarrow> pc_code_hash (prow_body r) = h \<and> PairingCode_Validate (prow_body r) = None
     \<and> code_marshals (prow_body r) \<and> r = code_columns (prow_body r)"

text \<open>
  Every row reads back; credentials and consumed codes name existing devices; two codes are never
  consumed by one device.
\<close>

definition pair_db_ok :: "pair_db \<Rightarrow> bool" where
  "pair_db_ok d \<longleftrightarrow> distinct_keys (pdb_devices d) \<and> distinct_keys (pdb_credentials d)
     \<and> distinct_keys (pdb_codes d) \<and> 0 \<le> pdb_revision d
     \<and> (\<forall>i r. map_of (pdb_devices d) i = Some r \<longrightarrow> device_row_ok i r)
     \<and> (\<forall>i r. map_of (pdb_credentials d) i = Some r \<longrightarrow>
          DeviceCredential_Validate (credential_of i r) = None \<and> map_of (pdb_devices d) i \<noteq> None)
     \<and> (\<forall>h r. map_of (pdb_codes d) h = Some r \<longrightarrow> code_row_ok h r)
     \<and> (\<forall>h r i. map_of (pdb_codes d) h = Some r \<longrightarrow> prow_device_id r = Some i \<longrightarrow>
          map_of (pdb_devices d) i \<noteq> None)
     \<and> (\<forall>h k r s i. map_of (pdb_codes d) h = Some r \<longrightarrow> map_of (pdb_codes d) k = Some s \<longrightarrow>
          prow_device_id r = Some i \<longrightarrow> prow_device_id s = Some i \<longrightarrow> h = k)"

lemma pair_db_okD:
  assumes "pair_db_ok d"
  shows "distinct_keys (pdb_devices d)" "distinct_keys (pdb_credentials d)" "distinct_keys (pdb_codes d)"
    "0 \<le> pdb_revision d"
    "\<And>i r. map_of (pdb_devices d) i = Some r \<Longrightarrow> device_row_ok i r"
    "\<And>i r. map_of (pdb_credentials d) i = Some r \<Longrightarrow>
       DeviceCredential_Validate (credential_of i r) = None \<and> map_of (pdb_devices d) i \<noteq> None"
    "\<And>h r. map_of (pdb_codes d) h = Some r \<Longrightarrow> code_row_ok h r"
    "\<And>h r i. map_of (pdb_codes d) h = Some r \<Longrightarrow> prow_device_id r = Some i \<Longrightarrow>
       map_of (pdb_devices d) i \<noteq> None"
    "\<And>h k r s i. map_of (pdb_codes d) h = Some r \<Longrightarrow> map_of (pdb_codes d) k = Some s \<Longrightarrow>
       prow_device_id r = Some i \<Longrightarrow> prow_device_id s = Some i \<Longrightarrow> h = k"
  using assms unfolding pair_db_ok_def by blast+

section \<open>Reads of a well-formed store\<close>

lemma enum_parse_device_status: "Device_Validate d = None \<Longrightarrow>
    enum_parse DeviceStatus_text AllDeviceStatuses DeviceStatusOther (DeviceStatus_text (dev_status d)) = dev_status d"
  by (rule device_status_enum.parse_render) (auto simp: Device_valid_iff AllDeviceStatuses_def)

lemma scan_device_row_ok:
  "device_row_ok i r \<Longrightarrow> scanDeviceSnapshot (i, r) = Inr (drow_body r,
     \<lparr>EntityVersion = drow_entity_version r, AsOfRevision = drow_as_of_revision r\<rparr>)"
  by (simp add: device_row_ok_def scanDeviceSnapshot_def decode_def enum_parse_device_status)

lemma GetDevice_ok: "pair_db_ok d \<Longrightarrow> GetDevice i d =
    (case map_of (pdb_devices d) i of None \<Rightarrow> Inl ErrNotFound | Some r \<Rightarrow> Inr (drow_body r))"
  by (cases "map_of (pdb_devices d) i")
    (auto simp: GetDevice_def GetDeviceSnapshot_def dest!: scan_device_row_ok [OF pair_db_okD(5)])

lemma GetDevice_Inr: "pair_db_ok d \<Longrightarrow> GetDevice i d = Inr dev \<longleftrightarrow>
    (\<exists>r. map_of (pdb_devices d) i = Some r \<and> drow_body r = dev)"
  by (auto simp: GetDevice_ok split: option.split)

lemma GetDeviceSnapshot_Inr: "pair_db_ok d \<Longrightarrow> GetDeviceSnapshot i d = Inr (dev, snap) \<longleftrightarrow>
    (\<exists>r. map_of (pdb_devices d) i = Some r \<and> drow_body r = dev
       \<and> snap = \<lparr>EntityVersion = drow_entity_version r, AsOfRevision = drow_as_of_revision r\<rparr>)"
  by (cases "map_of (pdb_devices d) i")
    (auto simp: GetDeviceSnapshot_def dest!: scan_device_row_ok [OF pair_db_okD(5)])

lemma GetDeviceCredential_Inr: "pair_db_ok d \<Longrightarrow> GetDeviceCredential i d = Inr c \<longleftrightarrow>
    (\<exists>r. map_of (pdb_credentials d) i = Some r \<and> c = credential_of i r)"
  by (auto simp: GetDeviceCredential_def credential_of_def [symmetric] Let_def of_err_Inr_iff
      split: option.split dest: pair_db_okD(6))

lemma GetPairingCode_Inr: "pair_db_ok d \<Longrightarrow> GetPairingCode h d = Inr p \<longleftrightarrow>
    (\<exists>r. map_of (pdb_codes d) h = Some r \<and> prow_body r = p)"
proof (cases "map_of (pdb_codes d) h")
  case (Some r)
  assume ok: "pair_db_ok d"
  from pair_db_okD(7) [OF ok Some] have r: "code_row_ok h r" .
  then have c: "r = code_columns (prow_body r)" by (simp add: code_row_ok_def)
  have "prow_created_at r = formatTime (pc_created_at (prow_body r))"
    "prow_expires_at r = formatTime (pc_expires_at (prow_body r))"
    "prow_consumed_at r = formatTimePtr (pc_consumed_at (prow_body r))"
    "prow_device_id r = pc_device_id (prow_body r)"
    by (subst c, simp add: code_columns_def)+
  moreover have "optionalTimeColumnEqual (formatTimePtr (pc_consumed_at (prow_body r))) (pc_consumed_at (prow_body r))"
    using r by (intro optionalTimeColumnEqual_refl) (auto simp: code_row_ok_def code_marshals_def)
  ultimately show ?thesis
    using r Some by (auto simp: GetPairingCode_def decode_def code_row_ok_def code_marshals_def)
qed (simp add: GetPairingCode_def)

lemma code_row_columns:
  assumes "code_row_ok h r"
  shows "prow_device_id r = pc_device_id (prow_body r)"
    "prow_consumed_at r = formatTimePtr (pc_consumed_at (prow_body r))"
    "pc_consumed_at (prow_body r) = None \<longleftrightarrow> pc_device_id (prow_body r) = None"
proof -
  from assms have c: "r = code_columns (prow_body r)" and v: "PairingCode_Validate (prow_body r) = None"
    by (simp_all add: code_row_ok_def)
  show "prow_device_id r = pc_device_id (prow_body r)"
    "prow_consumed_at r = formatTimePtr (pc_consumed_at (prow_body r))"
    by (subst c, simp add: code_columns_def)+
  show "pc_consumed_at (prow_body r) = None \<longleftrightarrow> pc_device_id (prow_body r) = None"
    using v by (auto simp: PairingCode_valid_iff)
qed

section \<open>What every write keeps\<close>

text \<open>
  Later states of the store extend earlier ones: devices only move forward, credentials and consumed
  codes are permanent, a code keeps its validity window.
\<close>

definition pair_extends :: "pair_db \<Rightarrow> pair_db \<Rightarrow> bool" where
  "pair_extends d d' \<longleftrightarrow>
     (\<forall>i r. map_of (pdb_devices d) i = Some r \<longrightarrow> (\<exists>r'. map_of (pdb_devices d') i = Some r'
        \<and> device_extends (drow_body r) (drow_body r')))
     \<and> (\<forall>i r. map_of (pdb_credentials d) i = Some r \<longrightarrow> map_of (pdb_credentials d') i = Some r)
     \<and> (\<forall>h r. map_of (pdb_codes d) h = Some r \<longrightarrow> (\<exists>r'. map_of (pdb_codes d') h = Some r'
        \<and> (prow_device_id r \<noteq> None \<longrightarrow> r' = r)
        \<and> Equal (pc_expires_at (prow_body r')) (pc_expires_at (prow_body r))))"

lemma pair_extends_refl [simp]: "pair_extends d d"
  by (auto simp: pair_extends_def intro: device_history.extends_refl)

lemma pair_extends_trans:
  assumes "pair_extends a b" and "pair_extends b c" shows "pair_extends a c"
  unfolding pair_extends_def
proof (intro conjI allI impI)
  fix i r assume "map_of (pdb_devices a) i = Some r"
  with assms(1) obtain r1 where "map_of (pdb_devices b) i = Some r1" "device_extends (drow_body r) (drow_body r1)"
    unfolding pair_extends_def by blast
  moreover from assms(2) this(1) obtain r2 where "map_of (pdb_devices c) i = Some r2"
    "device_extends (drow_body r1) (drow_body r2)" unfolding pair_extends_def by blast
  ultimately show "\<exists>r'. map_of (pdb_devices c) i = Some r' \<and> device_extends (drow_body r) (drow_body r')"
    by (blast intro: device_history.extends_trans)
next
  fix i r assume "map_of (pdb_credentials a) i = Some r"
  with assms show "map_of (pdb_credentials c) i = Some r" unfolding pair_extends_def by blast
next
  fix h r assume "map_of (pdb_codes a) h = Some r"
  with assms(1) obtain r1 where 1: "map_of (pdb_codes b) h = Some r1" "prow_device_id r \<noteq> None \<longrightarrow> r1 = r"
    "Equal (pc_expires_at (prow_body r1)) (pc_expires_at (prow_body r))" unfolding pair_extends_def by blast
  from assms(2) 1(1) obtain r2 where 2: "map_of (pdb_codes c) h = Some r2" "prow_device_id r1 \<noteq> None \<longrightarrow> r2 = r1"
    "Equal (pc_expires_at (prow_body r2)) (pc_expires_at (prow_body r1))" unfolding pair_extends_def by blast
  from 1 2 show "\<exists>r'. map_of (pdb_codes c) h = Some r' \<and> (prow_device_id r \<noteq> None \<longrightarrow> r' = r)
      \<and> Equal (pc_expires_at (prow_body r')) (pc_expires_at (prow_body r))"
    by (auto intro: Equal_trans)
qed

definition pair_sound :: "pair_db \<Rightarrow> pair_db \<Rightarrow> bool" where
  "pair_sound d d' \<longleftrightarrow> (pair_db_ok d \<longrightarrow> pair_db_ok d' \<and> pair_extends d d')"

named_theorems pair_ops \<open>every store operation is sound\<close>

lemma pair_sound_refl [simp]: "pair_sound d d"
  by (simp add: pair_sound_def)

lemma pair_sound_trans: "pair_sound a b \<Longrightarrow> pair_sound b c \<Longrightarrow> pair_sound a c"
  unfolding pair_sound_def using pair_extends_trans by blast

definition next_device_version :: "pair_db \<Rightarrow> string \<Rightarrow> int" where
  "next_device_version d i =
     (case map_of (pdb_devices d) i of None \<Rightarrow> 1 | Some r \<Rightarrow> drow_entity_version r + 1)"

definition device_columns :: "Device \<Rightarrow> int \<Rightarrow> int \<Rightarrow> device_row" where
  "device_columns dev v revision = \<lparr>drow_status = DeviceStatus_text (dev_status dev), drow_entity_version = v,
     drow_as_of_revision = revision, drow_body = dev\<rparr>"

lemma PutDevice_Inr:
  assumes ok: "pair_db_ok d"
  shows "PutDevice dev d = Inr d' \<longleftrightarrow>
     Device_Validate dev = None \<and> device_marshals dev
     \<and> ((\<exists>r. map_of (pdb_devices d) (dev_id dev) = Some r \<and> drow_body r = dev) \<and> d' = d
        \<or> (\<forall>r. map_of (pdb_devices d) (dev_id dev) = Some r \<longrightarrow>
             drow_body r \<noteq> dev \<and> ValidateDeviceTransition (drow_body r) dev = None)
          \<and> d' = d\<lparr>pdb_devices := AList.update (dev_id dev)
              (device_columns dev (next_device_version d (dev_id dev)) (pdb_revision d + 1)) (pdb_devices d)\<rparr>)"
proof (cases "map_of (pdb_devices d) (dev_id dev)")
  case None
  then show ?thesis
    using encode_None [of Device_Validate device_marshals dev]
    by (cases "encode Device_Validate device_marshals dev")
      (auto simp: PutDevice_def Let_def device_columns_def next_device_version_def)
next
  case (Some r)
  with pair_db_okD(5) [OF ok] have v: "Device_Validate (drow_body r) = None"
    by (simp add: device_row_ok_def)
  show ?thesis
  proof (cases "encode Device_Validate device_marshals dev")
    case None
    then have "Device_Validate dev = None \<and> device_marshals dev" by (simp add: encode_None)
    with None Some v show ?thesis
      by (auto simp: PutDevice_def Let_def decode_def device_columns_def next_device_version_def
          split: option.splits)
  next
    case (Some e)
    then have "\<not> (Device_Validate dev = None \<and> device_marshals dev)"
      using encode_None [of Device_Validate device_marshals dev] by auto
    with Some show ?thesis by (auto simp: PutDevice_def Let_def)
  qed
qed

lemma pair_db_ok_upsert_device:
  assumes ok: "pair_db_ok d" and v: "Device_Validate dev = None"
  shows "pair_db_ok (d\<lparr>pdb_devices := AList.update (dev_id dev)
    (device_columns dev (next_device_version d (dev_id dev)) (pdb_revision d + 1)) (pdb_devices d)\<rparr>)"
proof -
  note D = pair_db_okD [OF ok]
  have "1 \<le> next_device_version d (dev_id dev)"
    using D(5) by (fastforce simp: next_device_version_def device_row_ok_def split: option.split)
  then have new: "device_row_ok (dev_id dev)
      (device_columns dev (next_device_version d (dev_id dev)) (pdb_revision d + 1))"
    using v D(4) by (simp add: device_row_ok_def device_columns_def)
  have k: "map_of (AList.update (dev_id dev)
      (device_columns dev (next_device_version d (dev_id dev)) (pdb_revision d + 1)) (pdb_devices d)) i \<noteq> None
    \<longleftrightarrow> i = dev_id dev \<or> map_of (pdb_devices d) i \<noteq> None" for i
    by (simp add: update_conv')
  show ?thesis
    unfolding pair_db_ok_def
    using D(1-4) D(6,7,8) D(9) new D(5)
    by (simp add: tbl.keyed_upsert update_conv' del: map_of_eq_Some_iff) blast
qed

lemma PutDevice_sound [pair_ops]: "PutDevice dev d = Inr d' \<Longrightarrow> pair_sound d d'"
proof -
  assume p: "PutDevice dev d = Inr d'"
  show ?thesis unfolding pair_sound_def
  proof
    assume ok: "pair_db_ok d"
    from p [unfolded PutDevice_Inr [OF ok]] show "pair_db_ok d' \<and> pair_extends d d'"
    proof (elim conjE disjE)
      assume v: "Device_Validate dev = None"
        and t: "\<forall>r. map_of (pdb_devices d) (dev_id dev) = Some r \<longrightarrow>
             drow_body r \<noteq> dev \<and> ValidateDeviceTransition (drow_body r) dev = None"
        and d': "d' = d\<lparr>pdb_devices := AList.update (dev_id dev)
              (device_columns dev (next_device_version d (dev_id dev)) (pdb_revision d + 1)) (pdb_devices d)\<rparr>"
      have "pair_extends d d'"
        unfolding pair_extends_def d' using t
        by (auto simp: update_conv' device_columns_def intro: device_history.extends_refl
            dest: device_history.step_extends)
      with pair_db_ok_upsert_device [OF ok v] d' show ?thesis by simp
    qed (use ok in simp)
  qed
qed

lemma RecordDeviceCredential_Inr:
  assumes ok: "pair_db_ok d"
  shows "RecordDeviceCredential c d = Inr d' \<longleftrightarrow> DeviceCredential_Validate c = None
     \<and> ((\<exists>r. map_of (pdb_credentials d) (cred_device_id c) = Some r
           \<and> credential_of (cred_device_id c) r = c) \<and> d' = d
        \<or> map_of (pdb_credentials d) (cred_device_id c) = None
          \<and> map_of (pdb_devices d) (cred_device_id c) \<noteq> None
          \<and> d' = d\<lparr>pdb_credentials := AList.update (cred_device_id c)
              \<lparr>crow_kind = DeviceCredentialKind_text (cred_kind c), crow_credential = cred_credential c\<rparr>
              (pdb_credentials d)\<rparr>)"
proof (cases "map_of (pdb_credentials d) (cred_device_id c)")
  case None
  then show ?thesis by (auto simp: RecordDeviceCredential_def split: option.split)
next
  case (Some r)
  then have "GetDeviceCredential (cred_device_id c) d = Inr (credential_of (cred_device_id c) r)"
    using GetDeviceCredential_Inr [OF ok] by blast
  with Some show ?thesis by (auto simp: RecordDeviceCredential_def split: option.split)
qed

lemma credential_of_columns:
  "DeviceCredential_Validate c = None \<Longrightarrow> credential_of (cred_device_id c)
     \<lparr>crow_kind = DeviceCredentialKind_text (cred_kind c), crow_credential = cred_credential c\<rparr> = c"
proof -
  assume "DeviceCredential_Validate c = None"
  then have "cred_kind c \<in> set AllDeviceCredentialKinds"
    by (auto simp: Credential_valid_iff AllDeviceCredentialKinds_def)
  from credential_kind_enum.parse_render [OF this] show ?thesis by (simp add: credential_of_def)
qed

lemma RecordDeviceCredential_sound [pair_ops]: "RecordDeviceCredential c d = Inr d' \<Longrightarrow> pair_sound d d'"
  unfolding pair_sound_def
proof
  assume r: "RecordDeviceCredential c d = Inr d'" and ok: "pair_db_ok d"
  note D = pair_db_okD [OF ok]
  from r [unfolded RecordDeviceCredential_Inr [OF ok]] show "pair_db_ok d' \<and> pair_extends d d'"
  proof (elim conjE disjE)
    assume v: "DeviceCredential_Validate c = None"
      and n: "map_of (pdb_credentials d) (cred_device_id c) = None"
      and f: "map_of (pdb_devices d) (cred_device_id c) \<noteq> None"
      and d': "d' = d\<lparr>pdb_credentials := AList.update (cred_device_id c)
        \<lparr>crow_kind = DeviceCredentialKind_text (cred_kind c), crow_credential = cred_credential c\<rparr>
        (pdb_credentials d)\<rparr>"
    have "pair_extends d d'"
      unfolding pair_extends_def d' using n
      by (auto simp: update_conv' intro: device_history.extends_refl)
    moreover have "pair_db_ok d'"
      unfolding pair_db_ok_def d'
      using D v f credential_of_columns [OF v]
      by (simp add: tbl.keyed_upsert update_conv' del: map_of_eq_Some_iff)
    ultimately show ?thesis by simp
  qed (use ok in simp)
qed

lemma MintCode_Inr:
  "MintCode p d = Inr d' \<longleftrightarrow> pc_consumed_at p = None \<and> pc_device_id p = None
     \<and> PairingCode_Validate p = None \<and> code_marshals p
     \<and> (case map_of (pdb_codes d) (pc_code_hash p) of
          None \<Rightarrow> d' = d\<lparr>pdb_codes := AList.update (pc_code_hash p) (code_columns p) (pdb_codes d)\<rparr>
        | Some r \<Rightarrow> prow_body r = p \<and> d' = d)"
  using encode_None [of PairingCode_Validate code_marshals p]
  by (auto simp: MintCode_def putImmutable_def putImmutableInserted_def ebind_Inr_iff split: option.split)

lemma MintCode_sound [pair_ops]: "MintCode p d = Inr d' \<Longrightarrow> pair_sound d d'"
  unfolding pair_sound_def
proof
  assume m: "MintCode p d = Inr d'" and ok: "pair_db_ok d"
  note D = pair_db_okD [OF ok]
  show "pair_db_ok d' \<and> pair_extends d d'"
  proof (cases "map_of (pdb_codes d) (pc_code_hash p)")
    case (Some r)
    with m ok show ?thesis by (simp add: MintCode_Inr)
  next
    case None
    from m None have d': "d' = d\<lparr>pdb_codes := AList.update (pc_code_hash p) (code_columns p) (pdb_codes d)\<rparr>"
      and new: "code_row_ok (pc_code_hash p) (code_columns p)" "prow_device_id (code_columns p) = None"
      by (auto simp: MintCode_Inr code_row_ok_def code_columns_def)
    have "pair_extends d d'"
      unfolding pair_extends_def d' using None
      by (auto simp: update_conv' intro: device_history.extends_refl)
    moreover have "pair_db_ok d'"
      unfolding pair_db_ok_def d'
      using D new by (simp add: tbl.keyed_upsert update_conv' del: map_of_eq_Some_iff)
    ultimately show ?thesis by simp
  qed
qed

lemma occupied_zero: "pair_db_ok d \<Longrightarrow>
    occupied i d = 0 \<longleftrightarrow> (\<forall>h r. map_of (pdb_codes d) h = Some r \<longrightarrow> prow_device_id r \<noteq> Some i)"
proof -
  assume "pair_db_ok d"
  then have "distinct_keys (pdb_codes d)" by (rule pair_db_okD(3))
  then have "(h, r) \<in> set (pdb_codes d) \<longleftrightarrow> map_of (pdb_codes d) h = Some r" for h r
    by (rule in_table_iff)
  then show ?thesis by (auto simp: occupied_def filter_empty_conv simp del: map_of_eq_Some_iff)
qed

text \<open>What a consumption does: nothing on a replay, one row otherwise.\<close>

lemma ConsumePairingCode_Inr:
  assumes ok: "pair_db_ok d"
  shows "ConsumePairingCode h i at d = Inr d' \<longleftrightarrow> (\<exists>r. map_of (pdb_codes d) h = Some r
     \<and> (let p = (prow_body r)\<lparr>pc_consumed_at := Some at, pc_device_id := Some i\<rparr> in
        PairingCode_Validate p = None \<and> code_marshals p
        \<and> (if pc_consumed_at (prow_body r) \<noteq> None
           then ValidatePairingCodeTransition (prow_body r) p = None \<and> d' = d
           else (\<forall>k s. map_of (pdb_codes d) k = Some s \<longrightarrow> prow_device_id s \<noteq> Some i)
             \<and> map_of (pdb_devices d) i \<noteq> None
             \<and> d' = d\<lparr>pdb_codes := AList.update h (code_columns p) (pdb_codes d)\<rparr>)))"
proof (cases "map_of (pdb_codes d) h")
  case None
  then show ?thesis by (simp add: ConsumePairingCode_def GetPairingCode_def)
next
  case (Some r)
  let ?p = "(prow_body r)\<lparr>pc_consumed_at := Some at, pc_device_id := Some i\<rparr>"
  have g: "GetPairingCode h d = Inr (prow_body r)" using Some GetPairingCode_Inr [OF ok] by blast
  from pair_db_okD(7) [OF ok Some] have r: "code_row_ok h r" .
  note c = code_row_columns [OF r]
  have t: "ValidatePairingCodeTransition (prow_body r) ?p = None" if "pc_consumed_at (prow_body r) = None"
    using that by (simp add: ValidatePairingCodeTransition_def)
  have col: "r\<lparr>prow_consumed_at := Some (formatTime at), prow_device_id := Some i, prow_body := ?p\<rparr> = code_columns ?p"
    using r by (cases r) (simp add: code_row_ok_def code_columns_def formatTimePtr_def)
  have u: "consumeCodeRow h i at ?p (pdb_codes d) = (True, AList.update h (code_columns ?p) (pdb_codes d))"
    if "pc_consumed_at (prow_body r) = None"
    using that Some c col by (simp add: consumeCodeRow_def)
  show ?thesis
    using g Some t u encode_None [of PairingCode_Validate code_marshals ?p] occupied_zero [OF ok, of i]
    by (cases "encode PairingCode_Validate code_marshals ?p"; cases "pc_consumed_at (prow_body r)")
      (auto simp: ConsumePairingCode_def Let_def split: option.split)
qed

lemma ConsumePairingCode_sound [pair_ops]: "ConsumePairingCode h i at d = Inr d' \<Longrightarrow> pair_sound d d'"
  unfolding pair_sound_def
proof
  assume co: "ConsumePairingCode h i at d = Inr d'" and ok: "pair_db_ok d"
  note D = pair_db_okD [OF ok]
  from co obtain r p where r: "map_of (pdb_codes d) h = Some r"
    and p: "p = (prow_body r)\<lparr>pc_consumed_at := Some at, pc_device_id := Some i\<rparr>"
      "PairingCode_Validate p = None" "code_marshals p"
    and c: "d' = d \<or> (pc_consumed_at (prow_body r) = None
      \<and> (\<forall>k s. map_of (pdb_codes d) k = Some s \<longrightarrow> prow_device_id s \<noteq> Some i)
      \<and> map_of (pdb_devices d) i \<noteq> None
      \<and> d' = d\<lparr>pdb_codes := AList.update h (code_columns p) (pdb_codes d)\<rparr>)"
    by (auto simp: ConsumePairingCode_Inr [OF ok] Let_def split: if_split_asm)
  from c show "pair_db_ok d' \<and> pair_extends d d'"
  proof (elim disjE conjE)
    assume n: "pc_consumed_at (prow_body r) = None"
      and fresh: "\<forall>k s. map_of (pdb_codes d) k = Some s \<longrightarrow> prow_device_id s \<noteq> Some i"
      and dv: "map_of (pdb_devices d) i \<noteq> None"
      and d': "d' = d\<lparr>pdb_codes := AList.update h (code_columns p) (pdb_codes d)\<rparr>"
    from D(7) [OF r] have rok: "code_row_ok h r" .
    have new: "code_row_ok h (code_columns p)" "prow_device_id (code_columns p) = Some i"
      "prow_body (code_columns p) = p" "pc_expires_at p = pc_expires_at (prow_body r)"
      using p rok by (simp_all add: code_row_ok_def code_columns_def)
    have "prow_device_id r = None" using code_row_columns [OF rok] n by simp
    then have "pair_extends d d'"
      unfolding pair_extends_def d' using r new
      by (auto simp: update_conv' intro: device_history.extends_refl)
    moreover have "pair_db_ok d'"
      unfolding pair_db_ok_def d'
      using D new fresh dv by (simp add: tbl.keyed_upsert update_conv' del: map_of_eq_Some_iff) (safe, blast+)
    ultimately show ?thesis by simp
  qed (use ok in simp)
qed

lemma TouchDeviceActivity_sound [pair_ops]: "TouchDeviceActivity i at m d = Inr d' \<Longrightarrow> pair_sound d d'"
  by (auto simp: TouchDeviceActivity_def pair_sound_def pair_db_ok_def pair_extends_def
      intro: device_history.extends_refl split: if_split_asm option.split_asm)

lemma WriteTx_sound:
  assumes "WriteTx f d = Inr (x, d')" and "\<And>x e. f d = Inr (x, e) \<Longrightarrow> pair_sound d e"
  shows "pair_sound d d'"
proof -
  from assms(1) obtain e where e: "f d = Inr (x, e)" and d': "d' = e\<lparr>pdb_revision := pdb_revision e + 1\<rparr>"
    by (auto simp: WriteTx_def ebind_Inr_iff)
  have "pair_sound e d'"
    by (auto simp: d' pair_sound_def pair_db_ok_def pair_extends_def intro: device_history.extends_refl)
  with assms(2) [OF e] show ?thesis by (rule pair_sound_trans)
qed

end
