(* ===== verification/Base64.thy ===== *)
theory Base64
  imports GoStrings
begin

text \<open>
  Go's \<open>base64.RawURLEncoding\<close>: the URL alphabet, no padding, not strict (trailing bits of the last
  character are ignored), carriage returns and newlines skipped. A byte is a number below 256.
\<close>

definition b64_alphabet :: string where
  "b64_alphabet = ''ABCDEFGHIJKLMNOPQRSTUVWXYZabcdefghijklmnopqrstuvwxyz0123456789-_''"

abbreviation b64_char :: "nat \<Rightarrow> char" where "b64_char n \<equiv> b64_alphabet ! n"

fun RawURL_EncodeToString :: "nat list \<Rightarrow> string" where
  "RawURL_EncodeToString [] = []"
| "RawURL_EncodeToString [a] = [b64_char (a div 4), b64_char (a mod 4 * 16)]"
| "RawURL_EncodeToString [a, b] =
     [b64_char (a div 4), b64_char (a mod 4 * 16 + b div 16), b64_char (b mod 16 * 4)]"
| "RawURL_EncodeToString (a # b # c # r) =
     b64_char (a div 4) # b64_char (a mod 4 * 16 + b div 16) # b64_char (b mod 16 * 4 + c div 64)
     # b64_char (c mod 64) # RawURL_EncodeToString r"

fun index_of :: "string \<Rightarrow> char \<Rightarrow> nat option" where
  "index_of [] c = None"
| "index_of (x # xs) c = (if x = c then Some 0 else map_option Suc (index_of xs c))"

abbreviation b64_value :: "char \<Rightarrow> nat option" where "b64_value \<equiv> index_of b64_alphabet"

text \<open>The values of the characters, in groups of four.\<close>

fun b64_bytes :: "nat list \<Rightarrow> nat list option" where
  "b64_bytes [] = Some []"
| "b64_bytes [a] = None"
| "b64_bytes [a, b] = Some [a * 4 + b div 16]"
| "b64_bytes [a, b, c] = Some [a * 4 + b div 16, b mod 16 * 16 + c div 4]"
| "b64_bytes (a # b # c # d # r) = map_option
     (\<lambda>bs. (a * 4 + b div 16) # (b mod 16 * 16 + c div 4) # (c mod 4 * 64 + d) # bs) (b64_bytes r)"

fun b64_values :: "string \<Rightarrow> nat list option" where
  "b64_values [] = Some []"
| "b64_values (c # s) = (case b64_value c of None \<Rightarrow> None
     | Some v \<Rightarrow> map_option (\<lambda>vs. v # vs) (b64_values s))"

definition RawURL_DecodeString :: "string \<Rightarrow> nat list option" where
  "RawURL_DecodeString s = (case b64_values (filter (\<lambda>c. c \<noteq> char_of (10::nat) \<and> c \<noteq> char_of (13::nat)) s) of
     None \<Rightarrow> None | Some vs \<Rightarrow> b64_bytes vs)"

section \<open>Round trip\<close>

lemma b64_alphabet_props: "length b64_alphabet = 64" "distinct b64_alphabet"
  "\<forall>c \<in> set b64_alphabet. c \<noteq> CHR ''.'' \<and> c \<noteq> CHR '' '' \<and> c \<noteq> char_of (10::nat) \<and> c \<noteq> char_of (13::nat)"
  by code_simp+

lemma index_of_nth: "distinct s \<Longrightarrow> n < length s \<Longrightarrow> index_of s (s ! n) = Some n"
proof (induction s arbitrary: n)
  case (Cons x xs)
  then show ?case by (cases n) auto
qed simp

lemma b64_value_char: "n < 64 \<Longrightarrow> b64_value (b64_char n) = Some n"
  using b64_alphabet_props by (simp add: index_of_nth)

lemma encode_chars: "\<forall>b \<in> set bs. b < 256 \<Longrightarrow> set (RawURL_EncodeToString bs) \<subseteq> set b64_alphabet"
proof (induction bs rule: RawURL_EncodeToString.induct)
  case (4 a b c r)
  have n: "n < 64 \<Longrightarrow> b64_char n \<in> set b64_alphabet" for n
    using b64_alphabet_props(1) by (metis nth_mem)
  have "a mod 4 * 16 + b div 16 < 64" "b mod 16 * 4 + c div 64 < 64" "a div 4 < 64"
    using 4(2) by auto
  with 4 show ?case by (simp add: n)
next
  case (2 a)
  have n: "n < 64 \<Longrightarrow> b64_char n \<in> set b64_alphabet" for n
    using b64_alphabet_props(1) by (metis nth_mem)
  have "a div 4 < 64" "a mod 4 * 16 < 64" using 2 by auto
  then show ?case by (simp add: n)
next
  case (3 a b)
  have n: "n < 64 \<Longrightarrow> b64_char n \<in> set b64_alphabet" for n
    using b64_alphabet_props(1) by (metis nth_mem)
  have "a div 4 < 64" "a mod 4 * 16 + b div 16 < 64" "b mod 16 * 4 < 64" using 3 by auto
  then show ?case by (simp add: n)
qed simp

lemma filter_encode:
  assumes "\<forall>b \<in> set bs. b < 256"
  shows "filter (\<lambda>c. c \<noteq> char_of (10::nat) \<and> c \<noteq> char_of (13::nat)) (RawURL_EncodeToString bs)
    = RawURL_EncodeToString bs"
  using encode_chars [OF assms] b64_alphabet_props(3) by (intro filter_True) blast

lemma decode_group:
  fixes a b c :: nat
  assumes "a < 256" "b < 256" "c < 256"
  shows "a div 4 * 4 + (a mod 4 * 16 + b div 16) div 16 = a"
    "(a mod 4 * 16 + b div 16) mod 16 * 16 + (b mod 16 * 4 + c div 64) div 4 = b"
    "(b mod 16 * 4 + c div 64) mod 4 * 64 + c mod 64 = c"
proof -
  have d: "b div 16 < 16" "c div 64 < 4" "a mod 4 < 4" "b mod 16 < 16" using assms by auto
  show "a div 4 * 4 + (a mod 4 * 16 + b div 16) div 16 = a" using d by simp
  show "(a mod 4 * 16 + b div 16) mod 16 * 16 + (b mod 16 * 4 + c div 64) div 4 = b"
    using d by simp
  show "(b mod 16 * 4 + c div 64) mod 4 * 64 + c mod 64 = c" using d by simp
qed

lemma decode_encode: "\<forall>b \<in> set bs. b < 256 \<Longrightarrow>
    (case b64_values (RawURL_EncodeToString bs) of None \<Rightarrow> None | Some vs \<Rightarrow> b64_bytes vs) = Some bs"
proof (induction bs rule: RawURL_EncodeToString.induct)
  case (2 a)
  then have "a div 4 < 64" "a mod 4 * 16 < 64" by auto
  then show ?case by (simp add: b64_value_char)
next
  case (3 a b)
  then have "a div 4 < 64" "a mod 4 * 16 + b div 16 < 64" "b mod 16 * 4 < 64" by auto
  then show ?case using 3 decode_group [of a b 0] by (simp add: b64_value_char)
next
  case (4 a b c r)
  then have "a div 4 < 64" "a mod 4 * 16 + b div 16 < 64" "b mod 16 * 4 + c div 64 < 64" "c mod 64 < 64"
    by auto
  moreover have "b div 16 mod 16 = b div 16" "c div 64 mod 4 = c div 64" using 4(2) by auto
  ultimately show ?case using 4 decode_group [of a b c]
    by (auto simp: b64_value_char split: option.split_asm)
qed simp

lemma RawURL_roundtrip: "\<forall>b \<in> set bs. b < 256 \<Longrightarrow> RawURL_DecodeString (RawURL_EncodeToString bs) = Some bs"
  by (simp add: RawURL_DecodeString_def filter_encode decode_encode)

lemma RawURL_Encode_nonempty: "bs \<noteq> [] \<Longrightarrow> RawURL_EncodeToString bs \<noteq> []"
  by (cases bs rule: RawURL_EncodeToString.cases) auto

end
