(* ===== verification/Pairing.thy ===== *)
theory Pairing
  imports PairingStore Base64
begin

text \<open>
  \<open>daemon/internal/signet/pairing.go\<close> and \<open>device.go\<close>: minting and redeeming pairing codes,
  bearer tokens, the request authorizer and revocation.

  SHA-256, HMAC and Unicode case mapping are functions of the service record (standard library), as is
  the ntfy subscription (another component); a clock reading and the random bytes a call draws are its
  arguments. A function that can fail returns its error and leaves the store as it was.
\<close>

section \<open>The service\<close>

datatype ConnectionMode = ConnectionLoopback | ConnectionTailscale | ConnectionModeOther string

definition AllConnectionModes :: "ConnectionMode list" where
  "AllConnectionModes = [ConnectionLoopback, ConnectionTailscale]"

record HostFacts =
  hf_display_name :: string
  hf_connection_mode :: ConnectionMode

record service =
  svc_pairing_key :: string
  svc_host_facts :: HostFacts
  svc_hmac :: "string \<Rightarrow> string \<Rightarrow> nat list"
  svc_sha256 :: "string \<Rightarrow> nat list"
  svc_to_upper :: "string \<Rightarrow> string"
  svc_ntfy :: "string \<Rightarrow> err + string"

record PairingFacts =
  pf_host_display_name :: string
  pf_code_expires_at :: gotime
  pf_connection_mode :: ConnectionMode
  pf_granted_scope :: string

record DeviceSnapshot =
  ds_as_of_revision :: int
  ds_entity_version :: int
  ds_device :: Device

record PairingGrant =
  pg_device_token :: string
  pg_device :: DeviceSnapshot
  pg_ntfy_subscription :: string
  pg_facts :: PairingFacts

definition HostFacts_validate :: "HostFacts \<Rightarrow> err option" where
  "HostFacts_validate h =
     (if hf_display_name h = [] then Some ErrEmptyField
      else if hf_connection_mode h \<notin> set AllConnectionModes
      then Some (ErrText ''connection mode is not registered'')
      else None)"

definition pairingFacts :: "service \<Rightarrow> PairingCode \<Rightarrow> PairingFacts" where
  "pairingFacts s code = \<lparr>pf_host_display_name = hf_display_name (svc_host_facts s),
     pf_code_expires_at = UTC (pc_expires_at code),
     pf_connection_mode = hf_connection_mode (svc_host_facts s),
     pf_granted_scope = ''operator''\<rparr>"

definition pairingCodeRedeemable :: "PairingCode \<Rightarrow> gotime \<Rightarrow> bool" where
  "pairingCodeRedeemable code now \<longleftrightarrow> pc_consumed_at code = None \<and> Before now (pc_expires_at code)"

definition deviceSnapshot :: "Device \<Rightarrow> Snapshot \<Rightarrow> DeviceSnapshot" where
  "deviceSnapshot dev snap = \<lparr>ds_as_of_revision = AsOfRevision snap,
     ds_entity_version = EntityVersion snap, ds_device = dev\<rparr>"

section \<open>Codes and tokens\<close>

definition pairingCodeAlphabet :: string where
  "pairingCodeAlphabet = ''0123456789ABCDEFGHJKMNPQRSTVWXYZ''"

definition pairingCodeLength :: nat where "pairingCodeLength = 8"

definition pairingCodeTTL :: int where "pairingCodeTTL = 10 * 60 * second_ns"

definition deviceTokenPrefix :: string where "deviceTokenPrefix = ''fsd1''"

text \<open>
  The loop of \<open>normalizePairingCode\<close> on the upper-cased text; the runes it rewrites are single
  bytes, so it works on bytes.
\<close>

fun fold_code :: "string \<Rightarrow> string" where
  "fold_code [] = []"
| "fold_code (r # s) =
     (if r = CHR ''-'' \<or> r = CHR '' '' then fold_code s
      else if r = CHR ''O'' then CHR ''0'' # fold_code s
      else if r = CHR ''I'' \<or> r = CHR ''L'' then CHR ''1'' # fold_code s
      else r # fold_code s)"

definition normalizePairingCode :: "service \<Rightarrow> string \<Rightarrow> string" where
  "normalizePairingCode s typed = fold_code (svc_to_upper s typed)"

definition pairingCodeHash :: "service \<Rightarrow> string \<Rightarrow> err + string" where
  "pairingCodeHash s plaintext = Format (svc_hmac s (svc_pairing_key s) plaintext)"

definition randomPairingCode :: "nat list \<Rightarrow> string" where
  "randomPairingCode raw = map (\<lambda>b. pairingCodeAlphabet ! (b mod length pairingCodeAlphabet)) raw"

definition credentialDigest :: "service \<Rightarrow> string \<Rightarrow> err + string" where
  "credentialDigest s token = Format (svc_sha256 s token)"

definition string_bytes :: "string \<Rightarrow> nat list" where "string_bytes s = map of_char s"
definition bytes_string :: "nat list \<Rightarrow> string" where "bytes_string bs = map char_of bs"

definition device_token :: "string \<Rightarrow> nat list \<Rightarrow> string" where
  "device_token deviceID secret = deviceTokenPrefix @ ''.'' @ RawURL_EncodeToString (string_bytes deviceID)
     @ ''.'' @ RawURL_EncodeToString secret"

definition newDeviceIdentity :: "service \<Rightarrow> nat list \<Rightarrow> nat list \<Rightarrow> err + (string \<times> string \<times> string)" where
  "newDeviceIdentity s raw secret = (let deviceID = EncodeToString raw; token = device_token deviceID secret
     in ebind (credentialDigest s token) (\<lambda>credential. Inr (deviceID, token, credential)))"

section \<open>Minting, previewing and redeeming\<close>

definition MintPairingCode :: "service \<Rightarrow> nat list \<Rightarrow> gotime \<Rightarrow> pair_db \<Rightarrow> err + ((string \<times> PairingCode) \<times> pair_db)" where
  "MintPairingCode s raw now d =
     (if svc_pairing_key s = [] then Inl (ErrText ''mint pairing code: no pairing key configured'')
      else let plaintext = randomPairingCode raw in
        ebind (pairingCodeHash s plaintext) (\<lambda>h.
        let code = \<lparr>pc_code_hash = h, pc_created_at = now, pc_expires_at = Add now pairingCodeTTL,
              pc_consumed_at = None, pc_device_id = None\<rparr>
        in case PairingCode_Validate code of
             Some e \<Rightarrow> Inl e
           | None \<Rightarrow> ebind (WriteInternal (MintCode code) d) (\<lambda>d'. Inr ((plaintext, code), d'))))"

definition PreviewPairing :: "service \<Rightarrow> string \<Rightarrow> gotime \<Rightarrow> pair_db \<Rightarrow> err + PairingFacts" where
  "PreviewPairing s plaintext now d = (case HostFacts_validate (svc_host_facts s) of
     Some e \<Rightarrow> Inl e
   | None \<Rightarrow> if svc_pairing_key s = [] then Inl ErrPairingRejected
     else ebind (pairingCodeHash s (normalizePairingCode s plaintext)) (\<lambda>h.
       case GetPairingCode h d of
         Inl e \<Rightarrow> if e = ErrNotFound then Inl ErrPairingRejected else Inl e
       | Inr code \<Rightarrow>
           if \<not> pairingCodeRedeemable code now then Inl ErrPairingRejected
           else Inr (pairingFacts s code)))"

text \<open>The transaction of \<open>Pair\<close>.\<close>

definition pairTx ::
  "service \<Rightarrow> string \<Rightarrow> string \<Rightarrow> string \<Rightarrow> string \<Rightarrow> string \<Rightarrow> string \<Rightarrow> gotime
   \<Rightarrow> pair_db \<Rightarrow> err + (PairingGrant \<times> pair_db)" where
  "pairTx s codeHash displayName deviceID token credential subscription clock d =
     (case GetPairingCode codeHash d of
        Inl e \<Rightarrow> if e = ErrNotFound then Inl ErrPairingRejected else Inl e
      | Inr code \<Rightarrow>
          if \<not> pairingCodeRedeemable code clock then Inl ErrPairingRejected
          else let now = (if Before clock (pc_created_at code) then pc_created_at code else clock) in
            ebind (PutDevice \<lparr>dev_id = deviceID, dev_display_name = displayName,
                dev_status = DeviceActive, dev_paired_at = now, dev_revoked_at = None\<rparr> d) (\<lambda>d1.
            ebind (RecordDeviceCredential \<lparr>cred_device_id = deviceID, cred_kind = CredentialHash,
                cred_credential = credential\<rparr> d1) (\<lambda>d2.
            case ConsumePairingCode codeHash deviceID now d2 of
              Inl e \<Rightarrow> if e = ErrImmutableConflict then Inl ErrPairingRejected else Inl e
            | Inr d3 \<Rightarrow> ebind (GetDeviceSnapshot deviceID d3) (\<lambda>(dev, snap).
                Inr (\<lparr>pg_device_token = token, pg_device = deviceSnapshot dev snap,
                  pg_ntfy_subscription = subscription, pg_facts = pairingFacts s code\<rparr>, d3)))))"

definition Pair ::
  "service \<Rightarrow> string \<Rightarrow> string \<Rightarrow> nat list \<Rightarrow> nat list \<Rightarrow> gotime \<Rightarrow> pair_db
   \<Rightarrow> err + (PairingGrant \<times> pair_db)" where
  "Pair s plaintext displayName raw secret clock d =
     (if displayName = [] then Inl ErrEmptyField
      else case HostFacts_validate (svc_host_facts s) of
        Some e \<Rightarrow> Inl e
      | None \<Rightarrow> if svc_pairing_key s = [] then Inl ErrPairingRejected
        else ebind (pairingCodeHash s (normalizePairingCode s plaintext)) (\<lambda>codeHash.
          ebind (newDeviceIdentity s raw secret) (\<lambda>(deviceID, token, credential).
          ebind (svc_ntfy s deviceID) (\<lambda>subscription.
          WriteTx (pairTx s codeHash displayName deviceID token credential subscription clock) d))))"

section \<open>Authorization\<close>

definition gateActiveDevice :: "string \<Rightarrow> pair_db \<Rightarrow> err option" where
  "gateActiveDevice i d = (case GetDevice i d of
     Inl e \<Rightarrow> if e = ErrNotFound then Some ErrDeviceNotActive else Some e
   | Inr dev \<Rightarrow> if dev_status dev \<noteq> DeviceActive then Some ErrDeviceNotActive else None)"

text \<open>\<open>strings.EqualFold\<close> with \<open>Bearer\<close>, whose letters have no case fold outside ASCII.\<close>

definition ascii_lower :: "char \<Rightarrow> char" where
  "ascii_lower c = (if CHR ''A'' \<le> c \<and> c \<le> CHR ''Z'' then char_of ((of_char c :: nat) + 32) else c)"

definition bearerToken :: "string \<Rightarrow> string \<times> bool" where
  "bearerToken header = (let (scheme, credential, ok) = Cut header (CHR '' '') in
     if \<not> ok \<or> map ascii_lower scheme \<noteq> ''bearer'' then ([], False)
     else let credential' = dropWhile (\<lambda>c. c = CHR '' '') credential in
       if credential' = [] then ([], False) else (credential', True))"

text \<open>\<open>strings.Split\<close> at a byte.\<close>

fun Split :: "string \<Rightarrow> char \<Rightarrow> string list" where
  "Split [] c = [[]]"
| "Split (x # xs) c = (if x = c then [] # Split xs c
     else (case Split xs c of [] \<Rightarrow> [[x]] | p # ps \<Rightarrow> (x # p) # ps))"

definition parseDeviceToken :: "string \<Rightarrow> string \<times> bool" where
  "parseDeviceToken token = (let parts = Split token (CHR ''.'') in
     if length parts \<noteq> 3 \<or> parts ! 0 \<noteq> deviceTokenPrefix \<or> parts ! 1 = [] \<or> parts ! 2 = []
     then ([], False)
     else case RawURL_DecodeString (parts ! 1) of
         None \<Rightarrow> ([], False)
       | Some raw \<Rightarrow> if raw = [] then ([], False) else (bytes_string raw, True))"

text \<open>The request authorizer on the Authorization header.\<close>

definition Authorize :: "service \<Rightarrow> string \<Rightarrow> pair_db \<Rightarrow> err + string option" where
  "Authorize s header d = (let (token, ok) = bearerToken header in
     if \<not> ok then Inr None
     else let (deviceID, ok') = parseDeviceToken token in
       if \<not> ok' then Inr None
       else ebind (credentialDigest s token) (\<lambda>presented.
         case GetDeviceCredential deviceID d of
           Inl e \<Rightarrow> Inr None
         | Inr credential \<Rightarrow> (case GetDevice deviceID d of
             Inl e \<Rightarrow> Inr None
           | Inr dev \<Rightarrow>
               if cred_kind credential = CredentialHash \<and> cred_credential credential = presented
                 \<and> dev_status dev = DeviceActive
               then Inr (Some deviceID) else Inr None)))"

section \<open>Revocation\<close>

definition revokeTx :: "string \<Rightarrow> string \<Rightarrow> gotime \<Rightarrow> pair_db \<Rightarrow> (err + DeviceSnapshot) + (DeviceSnapshot \<times> pair_db)" where
  "revokeTx caller i clock d = (case gateActiveDevice caller d of
     Some e \<Rightarrow> Inl (Inl e)
   | None \<Rightarrow> (case GetDeviceSnapshot i d of
       Inl e \<Rightarrow> Inl (Inl e)
     | Inr (dev, snap) \<Rightarrow>
         if dev_status dev = DeviceRevoked then Inl (Inr (deviceSnapshot dev snap))
         else let now = (if Before clock (dev_paired_at dev) then dev_paired_at dev else clock) in
           (case PutDevice (dev\<lparr>dev_status := DeviceRevoked, dev_revoked_at := Some now\<rparr>) d of
              Inl e \<Rightarrow> Inl (Inl e)
            | Inr d1 \<Rightarrow> (case GetDeviceSnapshot i d1 of
                Inl e \<Rightarrow> Inl (Inl e)
              | Inr (dev', snap') \<Rightarrow> Inr (deviceSnapshot dev' snap', d1)))))"

text \<open>
  \<open>Revoke\<close>: \<open>Inl (Inr snapshot)\<close> of the transaction is the abandoned replay (\<open>errRevokeReplay\<close>),
  which returns the recorded snapshot and rolls back.
\<close>

definition Revoke :: "string \<Rightarrow> string \<Rightarrow> gotime \<Rightarrow> pair_db \<Rightarrow> err + (DeviceSnapshot \<times> pair_db)" where
  "Revoke caller i clock d = (case revokeTx caller i clock d of
     Inl (Inl e) \<Rightarrow> Inl e
   | Inl (Inr snap) \<Rightarrow> Inr (snap, d)
   | Inr (snap, d') \<Rightarrow> Inr (snap, d'\<lparr>pdb_revision := pdb_revision d' + 1\<rparr>))"

definition deviceActivityGranularity :: int where "deviceActivityGranularity = 5 * 60 * second_ns"

text \<open>An activity write that fails is logged and the request proceeds.\<close>

definition recordDeviceActivity :: "string \<Rightarrow> gotime \<Rightarrow> pair_db \<Rightarrow> pair_db" where
  "recordDeviceActivity i now d =
     (case WriteInternal (TouchDeviceActivity i now deviceActivityGranularity) d of
        Inl _ \<Rightarrow> d | Inr d' \<Rightarrow> d')"

section \<open>Codes as they are typed\<close>

text \<open>Documented behaviour of \<open>strings.ToUpper\<close> on ASCII text, and of the two digests.\<close>

definition ascii_upper :: "char \<Rightarrow> char" where
  "ascii_upper c = (if CHR ''a'' \<le> c \<and> c \<le> CHR ''z'' then char_of ((of_char c :: nat) - 32) else c)"

definition upper_law :: "service \<Rightarrow> bool" where
  "upper_law s \<longleftrightarrow> (\<forall>t. (\<forall>c \<in> set t. c < char_of (128 :: nat)) \<longrightarrow> svc_to_upper s t = map ascii_upper t)"

definition digest_laws :: "service \<Rightarrow> bool" where
  "digest_laws s \<longleftrightarrow>
     (\<forall>k m. length (svc_hmac s k m) = 32 \<and> (\<forall>b \<in> set (svc_hmac s k m). b < 256))
     \<and> (\<forall>m. length (svc_sha256 s m) = 32 \<and> (\<forall>b \<in> set (svc_sha256 s m). b < 256))"

text \<open>
  How a reader may type one character of a code: as shown, in lower case, as one of the glyphs
  Crockford's alphabet drops for it, with separators around it.
\<close>

definition typings :: "char \<Rightarrow> string" where
  "typings c = [c] @ (if CHR ''A'' \<le> c \<and> c \<le> CHR ''Z'' then [char_of ((of_char c :: nat) + 32)] else [])
     @ (if c = CHR ''0'' then ''oO'' else []) @ (if c = CHR ''1'' then ''iIlL'' else [])"

fun typed_as :: "string \<Rightarrow> string \<Rightarrow> bool" where
  "typed_as [] code = (code = [])"
| "typed_as (t # ts) code = ((t \<in> {CHR ''-'', CHR '' ''} \<and> typed_as ts code)
     \<or> (case code of [] \<Rightarrow> False | c # cs \<Rightarrow> t \<in> set (typings c) \<and> typed_as ts cs))"

definition fold_char :: "char \<Rightarrow> string" where
  "fold_char r = (if r = CHR ''-'' \<or> r = CHR '' '' then [] else if r = CHR ''O'' then [CHR ''0'']
     else if r = CHR ''I'' \<or> r = CHR ''L'' then [CHR ''1''] else [r])"

lemma fold_code_Cons: "fold_code (r # s) = fold_char r @ fold_code s"
  by (simp add: fold_char_def)

lemma typing_chars:
  "\<forall>c \<in> set pairingCodeAlphabet. \<forall>t \<in> set (typings c).
     t < char_of (128 :: nat) \<and> fold_char (ascii_upper t) = [c]"
  "\<forall>t \<in> set ''- ''. t < char_of (128 :: nat) \<and> fold_char (ascii_upper t) = []"
  by code_simp+

lemma typing_folds:
  "c \<in> set pairingCodeAlphabet \<Longrightarrow> t \<in> set (typings c) \<Longrightarrow>
     t < char_of (128 :: nat) \<and> fold_code (ascii_upper t # s) = c # fold_code s"
  using typing_chars(1) by (simp add: fold_code_Cons del: fold_code.simps)

lemma separator_folds:
  "t \<in> {CHR ''-'', CHR '' ''} \<Longrightarrow> t < char_of (128 :: nat) \<and> fold_code (ascii_upper t # s) = fold_code s"
  using typing_chars(2) by (auto simp: fold_code_Cons simp del: fold_code.simps)

lemma typed_as_ascii: "typed_as t code \<Longrightarrow> set code \<subseteq> set pairingCodeAlphabet \<Longrightarrow>
    (\<forall>c \<in> set t. c < char_of (128 :: nat)) \<and> fold_code (map ascii_upper t) = code"
proof (induction t code rule: typed_as.induct)
  case (2 t ts code)
  show ?case
  proof (cases "t \<in> {CHR ''-'', CHR '' ''} \<and> typed_as ts code")
    case True
    with 2 separator_folds [of t] show ?thesis by (auto simp del: fold_code.simps)
  next
    case False
    with 2(3) obtain c cs where code: "code = c # cs" and t: "t \<in> set (typings c)" "typed_as ts cs"
      by (auto split: list.split_asm)
    from 2(2) [OF code t(2)] 2(4) code have ih: "(\<forall>c \<in> set ts. c < char_of (128 :: nat))"
      "fold_code (map ascii_upper ts) = cs" by auto
    from 2(4) code have "c \<in> set pairingCodeAlphabet" by simp
    from typing_folds [OF this t(1), of "map ascii_upper ts"] ih code show ?thesis
      by (simp del: fold_code.simps)
  qed
qed simp

text \<open>
  A code typed in any of these ways, in any mix of cases and with hyphens or spaces anywhere,
  normalizes to the code that was minted.
\<close>

theorem normalizePairingCode_typed:
  assumes "upper_law s" and "typed_as t code" and "set code \<subseteq> set pairingCodeAlphabet"
  shows "normalizePairingCode s t = code"
  using typed_as_ascii [OF assms(2,3)] assms(1) by (simp add: normalizePairingCode_def upper_law_def)

lemma randomPairingCode_alphabet: "set (randomPairingCode raw) \<subseteq> set pairingCodeAlphabet"
proof -
  have "0 < length pairingCodeAlphabet" by code_simp
  then have "pairingCodeAlphabet ! (b mod length pairingCodeAlphabet) \<in> set pairingCodeAlphabet" for b
    by (intro nth_mem) simp
  then show ?thesis by (auto simp: randomPairingCode_def)
qed

lemma typed_as_refl: "typed_as code code"
  by (induction code) (auto simp: typings_def)

section \<open>Tokens\<close>

lemma Split_absent: "c \<notin> set s \<Longrightarrow> Split s c = [s]"
  by (induction s) auto

lemma Split_append: "c \<notin> set a \<Longrightarrow> Split (a @ c # b) c = a # Split b c"
  by (induction a) auto

lemma string_bytes_small: "\<forall>b \<in> set (string_bytes s). b < 256"
  by (auto simp: string_bytes_def)

lemma bytes_string_bytes [simp]: "bytes_string (string_bytes s) = s"
  by (simp add: bytes_string_def string_bytes_def comp_def)

lemma encoded_clean:
  assumes "\<forall>b \<in> set bs. b < 256"
  shows "CHR ''.'' \<notin> set (RawURL_EncodeToString bs)" "CHR '' '' \<notin> set (RawURL_EncodeToString bs)"
  using encode_chars [OF assms] b64_alphabet_props(3) by blast+

lemma parseDeviceToken_device_token:
  assumes "i \<noteq> []" and "secret \<noteq> []" and "\<forall>b \<in> set secret. b < 256"
  shows "parseDeviceToken (device_token i secret) = (i, True)"
proof -
  have "CHR ''.'' \<notin> set deviceTokenPrefix" by code_simp
  then have "Split (device_token i secret) (CHR ''.'') =
      [deviceTokenPrefix, RawURL_EncodeToString (string_bytes i), RawURL_EncodeToString secret]"
    using encoded_clean(1) [OF string_bytes_small] encoded_clean(1) [OF assms(3)]
    by (simp add: device_token_def Split_append Split_absent)
  moreover have "string_bytes i \<noteq> []" using assms(1) by (simp add: string_bytes_def)
  ultimately show ?thesis
    using assms RawURL_Encode_nonempty RawURL_roundtrip [OF string_bytes_small, of i]
    by (simp add: parseDeviceToken_def)
qed

lemma bearerToken_Bearer:
  assumes "CHR '' '' \<notin> set token" and "token \<noteq> []"
  shows "bearerToken (''Bearer '' @ token) = (token, True)"
proof -
  have "Cut (''Bearer '' @ token) (CHR '' '') = (''Bearer'', token, True)"
    using Cut_present [of "CHR '' ''" "''Bearer''" token] by simp
  moreover have "map ascii_lower ''Bearer'' = ''bearer''" by code_simp
  moreover have "dropWhile (\<lambda>c. c = CHR '' '') token = token"
    using assms by (cases token) auto
  ultimately show ?thesis using assms(2) by (simp add: bearerToken_def)
qed

lemma device_token_clean:
  assumes "\<forall>b \<in> set secret. b < 256"
  shows "CHR '' '' \<notin> set (device_token i secret)" "device_token i secret \<noteq> []"
proof -
  have "CHR '' '' \<notin> set deviceTokenPrefix" by code_simp
  then show "CHR '' '' \<notin> set (device_token i secret)"
    using encoded_clean(2) [OF string_bytes_small] encoded_clean(2) [OF assms]
    by (simp add: device_token_def)
qed (simp add: device_token_def)

text \<open>
  A bearer token built for a device parses back to that device, whatever its secret, from an
  Authorization header with the scheme in front.
\<close>

theorem device_token_roundtrip:
  assumes "i \<noteq> []" and "secret \<noteq> []" and "\<forall>b \<in> set secret. b < 256"
  shows "bearerToken (''Bearer '' @ device_token i secret) = (device_token i secret, True)
    \<and> parseDeviceToken (device_token i secret) = (i, True)"
  using bearerToken_Bearer [OF device_token_clean [OF assms(3)]] parseDeviceToken_device_token [OF assms]
  by simp

section \<open>Runs of the service\<close>

text \<open>
  Everything that changes the pairing tables, in any order, at any clock readings and with any random
  bytes: minting, redeeming, revoking and activity.
\<close>

inductive pairing_step :: "service \<Rightarrow> pair_db \<Rightarrow> pair_db \<Rightarrow> bool" for s where
  pairing_mint: "MintPairingCode s raw now d = Inr (r, d') \<Longrightarrow> pairing_step s d d'"
| pairing_pair: "Pair s plaintext name raw secret now d = Inr (g, d') \<Longrightarrow> pairing_step s d d'"
| pairing_revoke: "Revoke caller i now d = Inr (snap, d') \<Longrightarrow> pairing_step s d d'"
| pairing_activity: "pairing_step s d (recordDeviceActivity i now d)"

inductive pairing_steps :: "service \<Rightarrow> pair_db \<Rightarrow> pair_db \<Rightarrow> bool" for s where
  pairing_refl: "pairing_steps s d d"
| pairing_trans: "pairing_step s d d1 \<Longrightarrow> pairing_steps s d1 d2 \<Longrightarrow> pairing_steps s d d2"

lemma pairTx_InrE:
  assumes p: "pairTx s h name i token cred sub clock d = Inr (g, d')"
  obtains code now d1 d2 where "GetPairingCode h d = Inr code" "pairingCodeRedeemable code clock"
    "now = (if Before clock (pc_created_at code) then pc_created_at code else clock)"
    "PutDevice \<lparr>dev_id = i, dev_display_name = name, dev_status = DeviceActive, dev_paired_at = now,
       dev_revoked_at = None\<rparr> d = Inr d1"
    "RecordDeviceCredential \<lparr>cred_device_id = i, cred_kind = CredentialHash, cred_credential = cred\<rparr> d1 = Inr d2"
    "ConsumePairingCode h i now d2 = Inr d'" "pg_device_token g = token"
proof (cases "GetPairingCode h d")
  case (Inl e)
  with p show thesis by (simp add: pairTx_def split: if_split_asm)
next
  case (Inr code)
  define now where "now = (if Before clock (pc_created_at code) then pc_created_at code else clock)"
  from p Inr have red: "pairingCodeRedeemable code clock" by (simp add: pairTx_def split: if_split_asm)
  from p Inr red obtain d1 d2 where
    put: "PutDevice \<lparr>dev_id = i, dev_display_name = name, dev_status = DeviceActive, dev_paired_at = now,
       dev_revoked_at = None\<rparr> d = Inr d1" and
    rc: "RecordDeviceCredential \<lparr>cred_device_id = i, cred_kind = CredentialHash, cred_credential = cred\<rparr> d1 = Inr d2"
    and rest: "(case ConsumePairingCode h i now d2 of
              Inl e \<Rightarrow> if e = ErrImmutableConflict then Inl ErrPairingRejected else Inl e
            | Inr d3 \<Rightarrow> ebind (GetDeviceSnapshot i d3) (\<lambda>(dev, snap).
                Inr (\<lparr>pg_device_token = token, pg_device = deviceSnapshot dev snap,
                  pg_ntfy_subscription = sub, pg_facts = pairingFacts s code\<rparr>, d3))) = Inr (g, d')"
    by (auto simp: pairTx_def Let_def ebind_Inr_iff now_def)
  show thesis
  proof (cases "ConsumePairingCode h i now d2")
    case (Inl e)
    with rest show ?thesis by (simp split: if_split_asm)
  next
    case (Inr d3)
    with rest have "d3 = d'" "pg_device_token g = token" by (auto simp: ebind_Inr_iff)
    with Inr \<open>GetPairingCode h d = Inr code\<close> red put rc now_def show ?thesis by (intro that) simp_all
  qed
qed

lemma pairTx_sound:
  assumes "pairTx s h name i token cred sub now d = Inr (g, d')"
  shows "pair_sound d d'"
  using assms
proof (rule pairTx_InrE)
  fix now' d1 d2 and code
  assume "PutDevice \<lparr>dev_id = i, dev_display_name = name, dev_status = DeviceActive, dev_paired_at = now',
       dev_revoked_at = None\<rparr> d = Inr d1"
    "RecordDeviceCredential \<lparr>cred_device_id = i, cred_kind = CredentialHash, cred_credential = cred\<rparr> d1 = Inr d2"
    "ConsumePairingCode h i now' d2 = Inr d'"
  then show ?thesis
    by (blast intro: pair_sound_trans PutDevice_sound RecordDeviceCredential_sound ConsumePairingCode_sound)
qed

lemma Pair_sound: "Pair s plaintext name raw secret now d = Inr (g, d') \<Longrightarrow> pair_sound d d'"
  by (auto simp: Pair_def ebind_Inr_iff split: if_split_asm option.split_asm
      elim!: WriteTx_sound [OF _ pairTx_sound])

lemma MintPairingCode_sound: "MintPairingCode s raw now d = Inr (r, d') \<Longrightarrow> pair_sound d d'"
  by (auto simp: MintPairingCode_def Let_def ebind_Inr_iff WriteInternal_def
      split: if_split_asm option.split_asm dest: MintCode_sound)

lemma pair_sound_revision: "pair_sound d (d\<lparr>pdb_revision := pdb_revision d + 1\<rparr>)"
  by (auto simp: pair_sound_def pair_db_ok_def pair_extends_def intro: device_history.extends_refl)

lemma Revoke_sound: "Revoke caller i now d = Inr (snap, d') \<Longrightarrow> pair_sound d d'"
  by (auto simp: Revoke_def revokeTx_def Let_def split: sum.split_asm option.split_asm if_split_asm
      dest!: PutDevice_sound intro: pair_sound_trans [OF _ pair_sound_revision])

lemma recordDeviceActivity_sound: "pair_sound d (recordDeviceActivity i now d)"
  by (auto simp: recordDeviceActivity_def WriteInternal_def split: sum.split dest: TouchDeviceActivity_sound)

lemma pairing_steps_sound: "pairing_steps s d d' \<Longrightarrow> pair_sound d d'"
proof (induction rule: pairing_steps.induct)
  case (pairing_trans d d1 d2)
  from pairing_trans(1) have "pair_sound d d1"
    by cases (auto intro: MintPairingCode_sound Pair_sound Revoke_sound recordDeviceActivity_sound)
  with pairing_trans(3) show ?case by (blast intro: pair_sound_trans)
qed simp

lemma pairing_steps_ok:
  "pairing_steps s d d' \<Longrightarrow> pair_db_ok d \<Longrightarrow> pair_db_ok d' \<and> pair_extends d d'"
  using pairing_steps_sound by (simp add: pair_sound_def)

section \<open>Redemption\<close>

lemma PutDevice_stores:
  assumes "pair_db_ok d" and "PutDevice dev d = Inr d'"
  shows "\<exists>r. map_of (pdb_devices d') (dev_id dev) = Some r \<and> drow_body r = dev"
    and "pdb_codes d' = pdb_codes d" and "pdb_credentials d' = pdb_credentials d"
  using assms(2) by (auto simp: PutDevice_Inr [OF assms(1)] update_conv' device_columns_def)

lemma Record_stores:
  assumes "pair_db_ok d" and "RecordDeviceCredential c d = Inr d'"
  shows "\<exists>r. map_of (pdb_credentials d') (cred_device_id c) = Some r \<and> credential_of (cred_device_id c) r = c"
    and "pdb_codes d' = pdb_codes d" and "pdb_devices d' = pdb_devices d"
  using assms(2) credential_of_columns [of c]
  by (auto simp: RecordDeviceCredential_Inr [OF assms(1)] update_conv')

lemma Consume_stores:
  assumes ok: "pair_db_ok d" and c: "ConsumePairingCode h i at d = Inr d'"
  shows "\<exists>r. map_of (pdb_codes d') h = Some r \<and> prow_device_id r = Some i"
    and "pdb_devices d' = pdb_devices d" and "pdb_credentials d' = pdb_credentials d"
proof -
  from c [unfolded ConsumePairingCode_Inr [OF ok] Let_def]
  obtain r where r: "map_of (pdb_codes d) h = Some r"
    and u: "(pc_consumed_at (prow_body r) \<noteq> None \<and> d' = d
        \<and> ValidatePairingCodeTransition (prow_body r)
            ((prow_body r)\<lparr>pc_consumed_at := Some at, pc_device_id := Some i\<rparr>) = None)
      \<or> d' = d\<lparr>pdb_codes := AList.update h (code_columns ((prow_body r)
          \<lparr>pc_consumed_at := Some at, pc_device_id := Some i\<rparr>)) (pdb_codes d)\<rparr>"
    by (metis (no_types, lifting))
  from u show "pdb_devices d' = pdb_devices d" "pdb_credentials d' = pdb_credentials d" by auto
  note col = code_row_columns [OF pair_db_okD(7) [OF ok r]]
  from u show "\<exists>r. map_of (pdb_codes d') h = Some r \<and> prow_device_id r = Some i"
  proof (elim disjE conjE)
    assume "d' = d" and n: "pc_consumed_at (prow_body r) \<noteq> None"
      and t: "ValidatePairingCodeTransition (prow_body r)
            ((prow_body r)\<lparr>pc_consumed_at := Some at, pc_device_id := Some i\<rparr>) = None"
    with r col show ?thesis
      by (auto simp: ValidatePairingCodeTransition_def Let_def split: if_split_asm option.split_asm)
  qed (auto simp: update_conv' code_columns_def)
qed

text \<open>What a successful pairing leaves in the store.\<close>

lemma pairTx_leaves:
  assumes ok: "pair_db_ok d" and p: "pairTx s h name i token cred sub clock d = Inr (g, d')"
  shows "(\<exists>r. map_of (pdb_codes d) h = Some r \<and> pairingCodeRedeemable (prow_body r) clock)
    \<and> (\<exists>r. map_of (pdb_codes d') h = Some r \<and> prow_device_id r = Some i)
    \<and> (\<exists>dev. GetDevice i d' = Inr dev \<and> dev_status dev = DeviceActive \<and> dev_display_name dev = name)
    \<and> GetDeviceCredential i d' = Inr \<lparr>cred_device_id = i, cred_kind = CredentialHash, cred_credential = cred\<rparr>
    \<and> pg_device_token g = token"
proof -
  from p obtain code now d1 d2 where
    g: "GetPairingCode h d = Inr code" and red: "pairingCodeRedeemable code clock" and
    put: "PutDevice \<lparr>dev_id = i, dev_display_name = name, dev_status = DeviceActive, dev_paired_at = now,
       dev_revoked_at = None\<rparr> d = Inr d1" and
    rc: "RecordDeviceCredential \<lparr>cred_device_id = i, cred_kind = CredentialHash, cred_credential = cred\<rparr> d1 = Inr d2"
    and co: "ConsumePairingCode h i now d2 = Inr d'" and tok: "pg_device_token g = token"
    by (rule pairTx_InrE)
  from g [unfolded GetPairingCode_Inr [OF ok]] red
  have r: "\<exists>r. map_of (pdb_codes d) h = Some r \<and> pairingCodeRedeemable (prow_body r) clock" by blast
  have ok1: "pair_db_ok d1" using PutDevice_sound [OF put] ok by (simp add: pair_sound_def)
  have ok2: "pair_db_ok d2" using RecordDeviceCredential_sound [OF rc] ok1 by (simp add: pair_sound_def)
  have ok': "pair_db_ok d'" using ConsumePairingCode_sound [OF co] ok2 by (simp add: pair_sound_def)
  from PutDevice_stores(1) [OF ok put] Record_stores(3) [OF ok1 rc] Consume_stores(2) [OF ok2 co]
  have "\<exists>dev. GetDevice i d' = Inr dev \<and> dev_status dev = DeviceActive \<and> dev_display_name dev = name"
    by (auto simp: GetDevice_Inr [OF ok'])
  moreover from Record_stores(1) [OF ok1 rc] Consume_stores(3) [OF ok2 co]
  have "GetDeviceCredential i d' = Inr \<lparr>cred_device_id = i, cred_kind = CredentialHash, cred_credential = cred\<rparr>"
    by (auto simp: GetDeviceCredential_Inr [OF ok'])
  ultimately show ?thesis using r Consume_stores(1) [OF ok2 co] tok by blast
qed

text \<open>The read of a code that a redemption or a preview makes.\<close>

definition live_code :: "service \<Rightarrow> string \<Rightarrow> gotime \<Rightarrow> pair_db \<Rightarrow> bool" where
  "live_code s plaintext clock d \<longleftrightarrow> (\<exists>h r. pairingCodeHash s (normalizePairingCode s plaintext) = Inr h
     \<and> map_of (pdb_codes d) h = Some r \<and> pairingCodeRedeemable (prow_body r) clock)"

lemma pairingCodeHash_total: "digest_laws s \<Longrightarrow> \<exists>h. pairingCodeHash s m = Inr h"
  by (simp add: pairingCodeHash_def Format_def sha256_Size_def digest_laws_def)

lemma credentialDigest_total: "digest_laws s \<Longrightarrow> \<exists>h. credentialDigest s m = Inr h"
  by (simp add: credentialDigest_def Format_def sha256_Size_def digest_laws_def)

definition configured :: "service \<Rightarrow> bool" where
  "configured s \<longleftrightarrow> HostFacts_validate (svc_host_facts s) = None \<and> svc_pairing_key s \<noteq> []"

text \<open>
  The preview tells a live code from every other one and nothing else: an unknown, an expired and a
  consumed code get one and the same answer, a live code the host's facts.
\<close>

theorem PreviewPairing_exact:
  assumes "pair_db_ok d" and "digest_laws s" and "configured s"
  shows "if live_code s plaintext now d
    then \<exists>code. PreviewPairing s plaintext now d = Inr (pairingFacts s code) \<and> Before now (pf_code_expires_at (pairingFacts s code))
    else PreviewPairing s plaintext now d = Inl ErrPairingRejected"
proof -
  from pairingCodeHash_total [OF assms(2)] obtain h where
    h: "pairingCodeHash s (normalizePairingCode s plaintext) = Inr h" by blast
  show ?thesis
  proof (cases "map_of (pdb_codes d) h")
    case None
    then show ?thesis using assms(3) h
      by (simp add: PreviewPairing_def configured_def live_code_def GetPairingCode_def)
  next
    case (Some r)
    then have "GetPairingCode h d = Inr (prow_body r)" using GetPairingCode_Inr [OF assms(1)] by blast
    then show ?thesis using assms(3) h Some
      by (auto simp: PreviewPairing_def configured_def live_code_def pairingFacts_def
          pairingCodeRedeemable_def Before_def intro!: exI [of _ "prow_body r"])
  qed
qed

lemma Pair_not_live:
  assumes "pair_db_ok d" and "digest_laws s" and "\<not> live_code s plaintext now d"
  shows "isl (Pair s plaintext name raw secret now d)
    \<and> (configured s \<longrightarrow> name \<noteq> [] \<longrightarrow> \<not> isl (svc_ntfy s (EncodeToString raw))
       \<longrightarrow> Pair s plaintext name raw secret now d = Inl ErrPairingRejected)"
proof -
  from pairingCodeHash_total [OF assms(2)] obtain h where
    h: "pairingCodeHash s (normalizePairingCode s plaintext) = Inr h" by blast
  from credentialDigest_total [OF assms(2)] obtain c where
    c: "credentialDigest s (device_token (EncodeToString raw) secret) = Inr c" by blast
  have rej: "pairTx s h name i token cred sub now d = Inl ErrPairingRejected" for i token cred sub
  proof (cases "map_of (pdb_codes d) h")
    case None
    then show ?thesis by (simp add: pairTx_def GetPairingCode_def)
  next
    case (Some r)
    then have "GetPairingCode h d = Inr (prow_body r)" using GetPairingCode_Inr [OF assms(1)] by blast
    with Some h assms(3) show ?thesis by (simp add: pairTx_def live_code_def)
  qed
  show ?thesis
    using h c rej
    by (cases "HostFacts_validate (svc_host_facts s)"; cases "svc_ntfy s (EncodeToString raw)")
      (auto simp: Pair_def configured_def newDeviceIdentity_def WriteTx_def Let_def)
qed

lemma Pair_Inr:
  assumes ok: "pair_db_ok d" and p: "Pair s plaintext name raw secret clock d = Inr (g, d')"
  obtains h cred d0 where "pairingCodeHash s (normalizePairingCode s plaintext) = Inr h"
    "credentialDigest s (device_token (EncodeToString raw) secret) = Inr cred"
    "pg_device_token g = device_token (EncodeToString raw) secret"
    "\<exists>r. map_of (pdb_codes d) h = Some r \<and> pairingCodeRedeemable (prow_body r) clock"
    "\<exists>r. map_of (pdb_codes d0) h = Some r \<and> prow_device_id r = Some (EncodeToString raw)"
    "\<exists>dev. GetDevice (EncodeToString raw) d0 = Inr dev \<and> dev_status dev = DeviceActive \<and> dev_display_name dev = name"
    "GetDeviceCredential (EncodeToString raw) d0
      = Inr \<lparr>cred_device_id = EncodeToString raw, cred_kind = CredentialHash, cred_credential = cred\<rparr>"
    "d' = d0\<lparr>pdb_revision := pdb_revision d0 + 1\<rparr>"
proof -
  from p have "name \<noteq> []" "HostFacts_validate (svc_host_facts s) = None" "svc_pairing_key s \<noteq> []"
    by (auto simp: Pair_def split: if_split_asm option.split_asm)
  with p obtain h cred sub d0 where
    h: "pairingCodeHash s (normalizePairingCode s plaintext) = Inr h"
    and c: "credentialDigest s (device_token (EncodeToString raw) secret) = Inr cred"
    and t: "pairTx s h name (EncodeToString raw) (device_token (EncodeToString raw) secret) cred sub clock d
      = Inr (g, d0)" and d': "d' = d0\<lparr>pdb_revision := pdb_revision d0 + 1\<rparr>"
    by (auto simp: Pair_def ebind_Inr_iff newDeviceIdentity_def WriteTx_def Let_def)
  note L = pairTx_leaves [OF ok t]
  show thesis by (rule that [OF h c _ _ _ _ _ d']) (use L in blast)+
qed

lemma revision_frames [simp]:
  "GetDevice i (d\<lparr>pdb_revision := v\<rparr>) = GetDevice i d"
  "GetDeviceCredential i (d\<lparr>pdb_revision := v\<rparr>) = GetDeviceCredential i d"
  by (simp_all add: GetDevice_def GetDeviceSnapshot_def GetDeviceCredential_def)

lemma consumed_not_live:
  assumes "pair_db_ok d" and "pairingCodeHash s (normalizePairingCode s plaintext) = Inr h"
    and "map_of (pdb_codes d) h = Some r" and "prow_device_id r \<noteq> None"
  shows "\<not> live_code s plaintext now d"
  using code_row_columns [OF pair_db_okD(7) [OF assms(1,3)]] assms(2-4)
  by (auto simp: live_code_def pairingCodeRedeemable_def)

lemma EncodeToString_nonempty: "raw \<noteq> [] \<Longrightarrow> EncodeToString raw \<noteq> []"
  by (cases raw) simp_all

text \<open>
  A pairing that succeeds redeemed a code that existed, was unconsumed and had not expired; it leaves
  the new device active under the name given, and the token it returns authorizes as that device at once.
\<close>

theorem Pair_authorizes:
  assumes "pair_db_ok d" and "Pair s plaintext name raw secret clock d = Inr (g, d')"
    and "raw \<noteq> []" and "secret \<noteq> []" and "\<forall>b \<in> set secret. b < 256"
  shows "live_code s plaintext clock d
    \<and> (\<exists>dev. GetDevice (EncodeToString raw) d' = Inr dev \<and> dev_status dev = DeviceActive
         \<and> dev_display_name dev = name)
    \<and> Authorize s (''Bearer '' @ pg_device_token g) d' = Inr (Some (EncodeToString raw))
    \<and> gateActiveDevice (EncodeToString raw) d' = None"
proof -
  let ?i = "EncodeToString raw"
  from assms(1,2) obtain h cred d0 where
    F: "pairingCodeHash s (normalizePairingCode s plaintext) = Inr h"
    "credentialDigest s (device_token ?i secret) = Inr cred" "pg_device_token g = device_token ?i secret"
    "\<exists>r. map_of (pdb_codes d) h = Some r \<and> pairingCodeRedeemable (prow_body r) clock"
    "\<exists>dev. GetDevice ?i d0 = Inr dev \<and> dev_status dev = DeviceActive \<and> dev_display_name dev = name"
    "GetDeviceCredential ?i d0 = Inr \<lparr>cred_device_id = ?i, cred_kind = CredentialHash, cred_credential = cred\<rparr>"
    "d' = d0\<lparr>pdb_revision := pdb_revision d0 + 1\<rparr>"
    by (rule Pair_Inr) blast
  from bearerToken_Bearer [OF device_token_clean [OF assms(5)]]
    parseDeviceToken_device_token [OF EncodeToString_nonempty [OF assms(3)] assms(4,5)] F
  show ?thesis by (auto simp: live_code_def Authorize_def gateActiveDevice_def)
qed

text \<open>
  C3: a pairing code pairs one device: after a successful redemption, and whatever runs of the service
  follow, no spelling of the code redeems again.
\<close>

theorem one_device_per_code:
  assumes "pair_db_ok d" and "digest_laws s" and "Pair s plaintext name raw secret clock d = Inr (g, d1)"
    and "pairing_steps s d1 d2" and "normalizePairingCode s typed = normalizePairingCode s plaintext"
  shows "isl (Pair s typed name' raw' secret' clock' d2)
    \<and> (configured s \<longrightarrow> PreviewPairing s typed clock' d2 = Inl ErrPairingRejected)"
proof -
  from assms(1,3) obtain h d0 where
    F: "pairingCodeHash s (normalizePairingCode s plaintext) = Inr h"
    "\<exists>r. map_of (pdb_codes d0) h = Some r \<and> prow_device_id r = Some (EncodeToString raw)"
    "d1 = d0\<lparr>pdb_revision := pdb_revision d0 + 1\<rparr>"
    by (rule Pair_Inr) blast
  then obtain r where r: "map_of (pdb_codes d1) h = Some r" "prow_device_id r \<noteq> None" by auto
  have ok1: "pair_db_ok d1" using Pair_sound [OF assms(3)] assms(1) by (simp add: pair_sound_def)
  from pairing_steps_ok [OF assms(4) ok1] have ok2: "pair_db_ok d2" and "pair_extends d1 d2" by simp_all
  with r have r2: "map_of (pdb_codes d2) h = Some r" unfolding pair_extends_def by blast
  have n: "\<not> live_code s typed clock' d2"
    using consumed_not_live [OF ok2 _ r2 r(2)] F(1) assms(5) by metis
  from Pair_not_live [OF ok2 assms(2) n] PreviewPairing_exact [OF ok2 assms(2), of typed clock'] n
  show ?thesis by auto
qed

section \<open>Revocation is final\<close>

lemma revokeTx_Inr:
  assumes ok: "pair_db_ok d"
  shows "revokeTx caller i clock d = Inl (Inr snap) \<Longrightarrow> \<exists>dev. GetDevice i d = Inr dev \<and> dev_status dev = DeviceRevoked"
    and "revokeTx caller i clock d = Inr (snap, d') \<Longrightarrow>
      \<exists>dev. GetDevice i d' = Inr dev \<and> dev_status dev = DeviceRevoked"
proof -
  show "revokeTx caller i clock d = Inl (Inr snap) \<Longrightarrow> \<exists>dev. GetDevice i d = Inr dev \<and> dev_status dev = DeviceRevoked"
    by (cases "GetDeviceSnapshot i d")
      (auto simp: revokeTx_def Let_def GetDevice_def split: option.split_asm if_split_asm sum.split_asm)
next
  assume r: "revokeTx caller i clock d = Inr (snap, d')"
  then obtain dev sn where g: "GetDeviceSnapshot i d = Inr (dev, sn)"
    by (cases "GetDeviceSnapshot i d") (auto simp: revokeTx_def split: option.split_asm)
  from g [unfolded GetDeviceSnapshot_Inr [OF ok]] have i: "dev_id dev = i"
    using pair_db_okD(5) [OF ok] by (auto simp: device_row_ok_def)
  from r g obtain now where
    "PutDevice (dev\<lparr>dev_status := DeviceRevoked, dev_revoked_at := Some now\<rparr>) d = Inr d'"
    by (auto simp: revokeTx_def Let_def split: option.split_asm if_split_asm sum.split_asm)
  from PutDevice_stores(1) [OF ok this] PutDevice_sound [OF this] ok i
  show "\<exists>dev. GetDevice i d' = Inr dev \<and> dev_status dev = DeviceRevoked"
    by (auto simp: GetDevice_Inr pair_sound_def)
qed

lemma Revoke_leaves:
  assumes "pair_db_ok d" and "Revoke caller i clock d = Inr (snap, d')"
  shows "\<exists>dev. GetDevice i d' = Inr dev \<and> dev_status dev = DeviceRevoked"
  using assms(2) revokeTx_Inr [OF assms(1)]
  by (auto simp: Revoke_def split: sum.split_asm prod.split_asm)

lemma Authorize_Some:
  assumes "Authorize s header d = Inr (Some i)"
  obtains token presented c dev where "bearerToken header = (token, True)" "parseDeviceToken token = (i, True)"
    "credentialDigest s token = Inr presented" "GetDeviceCredential i d = Inr c"
    "cred_kind c = CredentialHash" "cred_credential c = presented" "GetDevice i d = Inr dev"
    "dev_status dev = DeviceActive"
proof -
  obtain token ok where b: "bearerToken header = (token, ok)" by fastforce
  obtain j ok' where t: "parseDeviceToken token = (j, ok')" by fastforce
  from assms b t have o: "ok" "ok'" by (auto simp: Authorize_def split: if_split_asm)
  from assms b t o obtain p where p: "credentialDigest s token = Inr p" by (auto simp: Authorize_def ebind_Inr_iff)
  from assms b t o p obtain c where c: "GetDeviceCredential j d = Inr c"
    by (cases "GetDeviceCredential j d") (auto simp: Authorize_def)
  from assms b t o p c obtain dev where dev: "GetDevice j d = Inr dev"
    by (cases "GetDevice j d") (auto simp: Authorize_def)
  from assms b t o p c dev show thesis by (intro that) (auto simp: Authorize_def split: if_split_asm)
qed

text \<open>
  C4: revocation is final: after a device is revoked, whatever runs of the service follow, no
  Authorization header authorizes as that device and its gated requests are refused.
\<close>

theorem revoked_device_locked_out:
  assumes "pair_db_ok d" and "Revoke caller i clock d = Inr (snap, d1)" and "pairing_steps s d1 d2"
  shows "gateActiveDevice i d2 = Some ErrDeviceNotActive
    \<and> Authorize s header d2 \<noteq> Inr (Some i)"
proof -
  have ok1: "pair_db_ok d1" using Revoke_sound [OF assms(2)] assms(1) by (simp add: pair_sound_def)
  from pairing_steps_ok [OF assms(3) ok1] have ok2: "pair_db_ok d2" and x: "pair_extends d1 d2" by simp_all
  from Revoke_leaves [OF assms(1,2)] obtain r where r: "map_of (pdb_devices d1) i = Some r"
    "dev_status (drow_body r) = DeviceRevoked" by (auto simp: GetDevice_Inr [OF ok1])
  from x r(1) obtain r' where r': "map_of (pdb_devices d2) i = Some r'"
    "device_extends (drow_body r) (drow_body r')" unfolding pair_extends_def by blast
  with r have g: "GetDevice i d2 = Inr (drow_body r')" "dev_status (drow_body r') = DeviceRevoked"
    using GetDevice_Inr [OF ok2] by (auto simp: device_extends_def)
  then show ?thesis by (auto simp: gateActiveDevice_def elim: Authorize_Some)
qed

section \<open>A minted code redeems\<close>

lemma Format_Valid: "Format digest = Inr addr \<Longrightarrow> Valid addr"
  by (auto simp: Format_def Valid_iff sha256_Size_def EncodeToString_lower_hex split: if_split_asm)

lemma MintPairingCode_stores:
  assumes "pair_db_ok d" and "MintPairingCode s raw now d = Inr ((plaintext, code), d')"
  shows "plaintext = randomPairingCode raw"
    and "\<exists>h. pairingCodeHash s plaintext = Inr h \<and> (\<exists>r. map_of (pdb_codes d') h = Some r \<and> prow_body r = code)"
    and "pc_consumed_at code = None" and "pc_expires_at code = Add now pairingCodeTTL"
    and "pc_created_at code = now" and "pdb_devices d' = pdb_devices d"
  using assms(2)
  by (auto simp: MintPairingCode_def Let_def ebind_Inr_iff WriteInternal_def MintCode_Inr update_conv'
      code_columns_def split: if_split_asm option.split_asm)

lemma Consume_succeeds:
  assumes ok: "pair_db_ok d" and r: "map_of (pdb_codes d) h = Some r" "pc_consumed_at (prow_body r) = None"
    and v: "i \<noteq> []" "\<not> IsZero at" "rfc3339_ok at" "\<not> Before at (pc_created_at (prow_body r))"
    and dv: "map_of (pdb_devices d) i \<noteq> None"
    and fresh: "\<forall>k t. map_of (pdb_codes d) k = Some t \<longrightarrow> prow_device_id t \<noteq> Some i"
  shows "\<exists>d'. ConsumePairingCode h i at d = Inr d'"
proof -
  have "code_row_ok h r" using pair_db_okD(7) [OF ok r(1)] .
  with r v have "PairingCode_Validate ((prow_body r)\<lparr>pc_consumed_at := Some at, pc_device_id := Some i\<rparr>) = None"
    "code_marshals ((prow_body r)\<lparr>pc_consumed_at := Some at, pc_device_id := Some i\<rparr>)"
    by (auto simp: code_row_ok_def PairingCode_valid_iff code_marshals_def)
  with r dv fresh show ?thesis
    by (auto simp: ConsumePairingCode_Inr [OF ok] Let_def)
qed

lemma pairTx_succeeds:
  assumes ok: "pair_db_ok d" and r: "map_of (pdb_codes d) h = Some r" "pairingCodeRedeemable (prow_body r) clock"
    and i: "i \<noteq> []" "name \<noteq> []" and clock: "\<not> IsZero clock" and cred: "Valid cred"
    and fresh: "map_of (pdb_devices d) i = None"
  shows "\<exists>g d'. pairTx s h name i token cred sub clock d = Inr (g, d')"
proof -
  define now where "now = (if Before clock (pc_created_at (prow_body r)) then pc_created_at (prow_body r) else clock)"
  have rok: "code_row_ok h r" using pair_db_okD(7) [OF ok r(1)] .
  then have now: "\<not> IsZero now" "rfc3339_ok now" "\<not> Before now (pc_created_at (prow_body r))"
    using clock r(2) by (auto simp: now_def code_row_ok_def PairingCode_valid_iff code_marshals_def
        rfc3339_ok_def go_time pairingCodeRedeemable_def)
  let ?dev = "\<lparr>dev_id = i, dev_display_name = name, dev_status = DeviceActive, dev_paired_at = now,
    dev_revoked_at = None\<rparr>"
  let ?c = "\<lparr>cred_device_id = i, cred_kind = CredentialHash, cred_credential = cred\<rparr>"
  have g: "GetPairingCode h d = Inr (prow_body r)" using r(1) GetPairingCode_Inr [OF ok] by blast
  obtain d1 where put: "PutDevice ?dev d = Inr d1"
    using now i fresh by (auto simp: PutDevice_Inr [OF ok] Device_valid_iff device_marshals_def)
  have ok1: "pair_db_ok d1" using PutDevice_sound [OF put] ok by (simp add: pair_sound_def)
  note P = PutDevice_stores [OF ok put]
  have nocred: "map_of (pdb_credentials d1) i = None"
    using P(3) fresh pair_db_okD(6) [OF ok] by (cases "map_of (pdb_credentials d) i") auto
  have "cred \<noteq> []" using cred by (auto simp: Valid_iff prefix_def)
  then obtain d2 where rc: "RecordDeviceCredential ?c d1 = Inr d2"
    using i cred nocred P(1) by (auto simp: RecordDeviceCredential_Inr [OF ok1] Credential_valid_iff)
  have ok2: "pair_db_ok d2" using RecordDeviceCredential_sound [OF rc] ok1 by (simp add: pair_sound_def)
  note R = Record_stores [OF ok1 rc]
  have "map_of (pdb_codes d2) h = Some r" "map_of (pdb_devices d2) i \<noteq> None"
    using R P r(1) by auto
  moreover have "\<forall>k t. map_of (pdb_codes d2) k = Some t \<longrightarrow> prow_device_id t \<noteq> Some i"
    using R(2) P(2) pair_db_okD(8) [OF ok] fresh by metis
  ultimately obtain d3 where co: "ConsumePairingCode h i now d2 = Inr d3"
    using Consume_succeeds [OF ok2 _ _ i(1) now] r(2) unfolding pairingCodeRedeemable_def by blast
  have ok3: "pair_db_ok d3" using ConsumePairingCode_sound [OF co] ok2 by (simp add: pair_sound_def)
  obtain q where "map_of (pdb_devices d3) i = Some q"
    using Consume_stores(2) [OF ok2 co] R(3) P(1) by auto
  then obtain dev snap where "GetDeviceSnapshot i d3 = Inr (dev, snap)"
    using GetDeviceSnapshot_Inr [OF ok3] by blast
  with g r(2) put rc co show ?thesis by (simp add: pairTx_def now_def [symmetric])
qed

text \<open>
  C37: a code that was minted redeems: within its ten minutes, however it is spelled, a pairing on a
  configured host with an unused device id succeeds.
\<close>

theorem minted_code_redeems:
  assumes "pair_db_ok d" and "digest_laws s" and "upper_law s" and "configured s"
    and "MintPairingCode s raw minted d = Inr ((plaintext, code), d')" and "typed_as typed plaintext"
    and "unix_ns clock < unix_ns minted + pairingCodeTTL" and "\<not> IsZero clock"
    and "name \<noteq> []" and "raw' \<noteq> []" and "map_of (pdb_devices d) (EncodeToString raw') = None"
    and "svc_ntfy s (EncodeToString raw') = Inr subscription"
  shows "\<not> isl (Pair s typed name raw' secret clock d')"
proof -
  note M = MintPairingCode_stores [OF assms(1,5)]
  have ok': "pair_db_ok d'" using MintPairingCode_sound [OF assms(5)] assms(1) by (simp add: pair_sound_def)
  have n: "normalizePairingCode s typed = plaintext"
    using normalizePairingCode_typed [OF assms(3,6)] randomPairingCode_alphabet M(1) by simp
  from M(2) obtain h r where h: "pairingCodeHash s plaintext = Inr h"
    "map_of (pdb_codes d') h = Some r" "prow_body r = code" by blast
  have red: "pairingCodeRedeemable (prow_body r) clock"
    using assms(7) h(3) M(3,4) by (simp add: pairingCodeRedeemable_def Before_def)
  from credentialDigest_total [OF assms(2)] obtain c where
    c: "credentialDigest s (device_token (EncodeToString raw') secret) = Inr c" by blast
  then have "Valid c" by (simp add: credentialDigest_def Format_Valid)
  from pairTx_succeeds [OF ok' h(2) red EncodeToString_nonempty [OF assms(10)] assms(9,8) this,
      of s "device_token (EncodeToString raw') secret" subscription] assms(11) M(6)
  obtain g d2 where "pairTx s h name (EncodeToString raw') (device_token (EncodeToString raw') secret) c
      subscription clock d' = Inr (g, d2)" by auto
  with n h(1) c assms(4,9,12) show ?thesis
    by (simp add: Pair_def configured_def newDeviceIdentity_def Let_def WriteTx_def)
qed

section \<open>A concrete run\<close>

text \<open>A host whose digests are constant, one code minted, paired and its device revoked.\<close>

definition example_service :: service where
  "example_service = \<lparr>svc_pairing_key = ''k'',
     svc_host_facts = \<lparr>hf_display_name = ''host'', hf_connection_mode = ConnectionLoopback\<rparr>,
     svc_hmac = (\<lambda>_ _. replicate 32 7), svc_sha256 = (\<lambda>_. replicate 32 9),
     svc_to_upper = map ascii_upper, svc_ntfy = (\<lambda>_. Inr ''topic'')\<rparr>"

definition empty_pairing :: pair_db where
  "empty_pairing = \<lparr>pdb_devices = [], pdb_credentials = [], pdb_codes = [], pdb_activity = [], pdb_revision = 0\<rparr>"

definition example_minted :: "(string \<times> PairingCode) \<times> pair_db" where
  "example_minted = projr (MintPairingCode example_service [10, 18, 20, 1, 0, 9, 11, 31] (UnixZero 5) empty_pairing)"

definition example_grant :: "PairingGrant \<times> pair_db" where
  "example_grant = projr (Pair example_service ''ajm-1 09bz'' ''phone'' [1, 2] [3] (UnixZero 60) (snd example_minted))"

definition example_revoked :: "DeviceSnapshot \<times> pair_db" where
  "example_revoked = projr (Revoke ''0102'' ''0102'' (UnixZero 90) (snd example_grant))"

lemma example_service_laws: "digest_laws example_service" "upper_law example_service" "configured example_service"
  by (simp_all add: example_service_def digest_laws_def upper_law_def configured_def HostFacts_validate_def
      AllConnectionModes_def)

lemma empty_pairing_ok: "pair_db_ok empty_pairing"
  by (simp add: pair_db_ok_def empty_pairing_def)

lemma projr_not_isl: "\<not> isl r \<Longrightarrow> r = Inr (projr r)"
  by (cases r) simp_all

lemma example_mint: "MintPairingCode example_service [10, 18, 20, 1, 0, 9, 11, 31] (UnixZero 5) empty_pairing
    = Inr ((''AJM109BZ'', snd (fst example_minted)), snd example_minted)"
proof -
  have "\<not> isl (MintPairingCode example_service [10, 18, 20, 1, 0, 9, 11, 31] (UnixZero 5) empty_pairing)"
    by code_simp
  moreover have "fst (fst example_minted) = ''AJM109BZ''" by code_simp
  ultimately show ?thesis
    unfolding example_minted_def by (cases "MintPairingCode example_service [10, 18, 20, 1, 0, 9, 11, 31] (UnixZero 5) empty_pairing") auto
qed

lemma example_pair: "Pair example_service ''ajm-1 09bz'' ''phone'' [1, 2] [3] (UnixZero 60) (snd example_minted)
    = Inr (fst example_grant, snd example_grant)"
proof -
  have "\<not> isl (Pair example_service ''ajm-1 09bz'' ''phone'' [1, 2] [3] (UnixZero 60) (snd example_minted))"
    by code_simp
  from projr_not_isl [OF this] show ?thesis by (simp add: example_grant_def)
qed

lemma example_revoke: "Revoke ''0102'' ''0102'' (UnixZero 90) (snd example_grant)
    = Inr (fst example_revoked, snd example_revoked)"
proof -
  have "\<not> isl (Revoke ''0102'' ''0102'' (UnixZero 90) (snd example_grant))" by code_simp
  from projr_not_isl [OF this] show ?thesis by (simp add: example_revoked_def)
qed

lemma example_minted_ok: "pair_db_ok (snd example_minted)"
  using MintPairingCode_sound [OF example_mint] empty_pairing_ok by (simp add: pair_sound_def)

lemma example_grant_ok: "pair_db_ok (snd example_grant)"
  using Pair_sound [OF example_pair] example_minted_ok by (simp add: pair_sound_def)

lemma example_spelling: "typed_as ''ajm-1 09bz'' ''AJM109BZ''" "set ''AJM109BZ'' \<subseteq> set pairingCodeAlphabet"
  by code_simp+

theorem normalizePairingCode_typed_witness:
  "normalizePairingCode example_service ''ajm-1 09bz'' = ''AJM109BZ''"
  by (rule normalizePairingCode_typed [OF example_service_laws(2) example_spelling])

theorem device_token_roundtrip_witness:
  "parseDeviceToken (device_token ''0102'' [3]) = (''0102'', True)"
  using device_token_roundtrip [of "''0102''" "[3]"] by simp

theorem PreviewPairing_exact_witness:
  "PreviewPairing example_service ''ajm'' (UnixZero 7) empty_pairing = Inl ErrPairingRejected"
  using PreviewPairing_exact [OF empty_pairing_ok example_service_laws(1,3), of "''ajm''" "UnixZero 7"]
  by (simp add: live_code_def empty_pairing_def)

theorem Pair_authorizes_witness:
  "Authorize example_service (''Bearer '' @ pg_device_token (fst example_grant)) (snd example_grant)
    = Inr (Some (EncodeToString [1, 2]))"
  using Pair_authorizes [OF example_minted_ok example_pair] by simp

theorem one_device_per_code_witness:
  "isl (Pair example_service ''AJM109BZ'' ''tablet'' [4] [5] (UnixZero 70) (snd example_revoked))"
proof -
  have "pairing_steps example_service (snd example_grant) (snd example_revoked)"
    using example_revoke by (blast intro: pairing_steps.intros pairing_step.intros)
  moreover have "normalizePairingCode example_service ''AJM109BZ'' = normalizePairingCode example_service ''ajm-1 09bz''"
    by code_simp
  ultimately show ?thesis
    using one_device_per_code [OF example_minted_ok example_service_laws(1) example_pair] by blast
qed

theorem revoked_device_locked_out_witness:
  "gateActiveDevice ''0102'' (recordDeviceActivity ''0102'' (UnixZero 95) (snd example_revoked)) = Some ErrDeviceNotActive"
  using revoked_device_locked_out [OF example_grant_ok example_revoke]
  by (blast intro: pairing_steps.intros pairing_step.intros)

theorem minted_code_redeems_witness:
  "\<not> isl (Pair example_service ''ajm-1 09bz'' ''phone'' [1, 2] [3] (UnixZero 60) (snd example_minted))"
  by (rule minted_code_redeems [OF empty_pairing_ok example_service_laws example_mint example_spelling(1)])
    (simp_all add: pairingCodeTTL_def IsZero_def zero_ns_def empty_pairing_def example_service_def)

end
