(* ===== verification/DeliveryDomain.thy ===== *)
theory DeliveryDomain
  imports GoTime "HOL-Library.Multiset"
begin

text \<open>
  \<open>daemon/internal/domain/attention_delivery.go\<close> with the delivery transition of
  \<open>transitions.go\<close> and the timing writer of \<open>attention_item.go\<close>: one row per notification
  attempt, the receipts it collects and the timing summary an item derives from its attempts.

  Shown: a summary is valid and independent of the order of the attempts; a delivery only moves
  forward, keeps its receipts and changes at most twice.
\<close>

section \<open>Deliveries\<close>

datatype DeliveryStatus = DeliverySubmitted | DeliveryChannelAccepted | DeliveryOpened
  | DeliveryStatusOther string

fun DeliveryStatus_text :: "DeliveryStatus \<Rightarrow> string" where
  "DeliveryStatus_text DeliverySubmitted = ''submitted''"
| "DeliveryStatus_text DeliveryChannelAccepted = ''channel_accepted''"
| "DeliveryStatus_text DeliveryOpened = ''opened''"
| "DeliveryStatus_text (DeliveryStatusOther s) = s"

definition AllDeliveryStatuses :: "DeliveryStatus list" where
  "AllDeliveryStatuses = [DeliverySubmitted, DeliveryChannelAccepted, DeliveryOpened]"

fun DeliveryStatus_valid :: "DeliveryStatus \<Rightarrow> bool" where
  "DeliveryStatus_valid DeliverySubmitted = True"
| "DeliveryStatus_valid DeliveryChannelAccepted = True"
| "DeliveryStatus_valid DeliveryOpened = True"
| "DeliveryStatus_valid (DeliveryStatusOther _) = False"

interpretation delivery_status_enum:
  string_enum DeliveryStatus_text AllDeliveryStatuses DeliveryStatusOther
proof
  fix k show "k \<in> set AllDeliveryStatuses \<or> (\<exists>s. k = DeliveryStatusOther s)"
    by (cases k) (simp_all add: AllDeliveryStatuses_def)
qed (simp_all add: AllDeliveryStatuses_def)

record AttentionDelivery =
  dlv_item_id :: string
  dlv_device_id :: string
  dlv_channel :: string
  dlv_attempt :: int
  dlv_submitted_at :: gotime
  dlv_accepted_at :: "gotime option"
  dlv_opened_at :: "gotime option"
  dlv_status :: DeliveryStatus

definition before_submission :: "AttentionDelivery \<Rightarrow> gotime option \<Rightarrow> err option" where
  "before_submission d p =
     when_ptr p (\<lambda>t. require (\<not> Before t (dlv_submitted_at d)) ErrTimestampOutOfOrder)"

definition AttentionDelivery_Validate :: "AttentionDelivery \<Rightarrow> err option" where
  "AttentionDelivery_Validate d = first_error [
     require (dlv_item_id d \<noteq> []) ErrEmptyID,
     require (dlv_device_id d \<noteq> []) ErrEmptyID,
     require (dlv_channel d \<noteq> []) ErrEmptyField,
     require (1 \<le> dlv_attempt d) ErrNonPositive,
     require (DeliveryStatus_valid (dlv_status d)) ErrInvalidDeliveryStatus,
     require (\<not> IsZero (dlv_submitted_at d)) ErrEmptyField,
     (case dlv_status d of
        DeliverySubmitted \<Rightarrow>
          require (dlv_accepted_at d = None \<and> dlv_opened_at d = None) ErrStatusTimestampTooStrong
      | DeliveryChannelAccepted \<Rightarrow> first_error [
          require (dlv_accepted_at d \<noteq> None) ErrStatusMissingTimestamp,
          require (dlv_opened_at d = None) ErrStatusTimestampTooStrong]
      | DeliveryOpened \<Rightarrow> require (dlv_opened_at d \<noteq> None) ErrStatusMissingTimestamp
      | DeliveryStatusOther _ \<Rightarrow> None),
     before_submission d (dlv_accepted_at d),
     before_submission d (dlv_opened_at d),
     when_ptr (dlv_accepted_at d) (\<lambda>a. when_ptr (dlv_opened_at d) (\<lambda>t.
       require (\<not> Before t a) ErrTimestampOutOfOrder))]"

section \<open>Timing\<close>

record TimingSummary =
  tim_count :: int
  tim_submitted_at :: "gotime option"
  tim_accepted_at :: "gotime option"
  tim_opened_at :: "gotime option"
  tim_submit_to_open :: "int option"

definition present_nonzero :: "gotime option \<Rightarrow> err option" where
  "present_nonzero p = when_ptr p (\<lambda>t. require (\<not> IsZero t) ErrInconsistentTiming)"

definition TimingSummary_Validate :: "TimingSummary \<Rightarrow> err option" where
  "TimingSummary_Validate s =
     (let hasReceipt = (tim_accepted_at s \<noteq> None \<or> tim_opened_at s \<noteq> None);
          bothEndpoints = (tim_submitted_at s \<noteq> None \<and> tim_opened_at s \<noteq> None)
      in first_error [
        require (0 \<le> tim_count s) ErrInconsistentTiming,
        present_nonzero (tim_submitted_at s),
        present_nonzero (tim_accepted_at s),
        present_nonzero (tim_opened_at s),
        require (\<not> (tim_count s = 0 \<and> (tim_submitted_at s \<noteq> None \<or> hasReceipt))) ErrInconsistentTiming,
        require (\<not> (0 < tim_count s \<and> tim_submitted_at s = None)) ErrInconsistentTiming,
        require (\<not> (hasReceipt \<and> tim_submitted_at s = None)) ErrInconsistentTiming,
        when_ptr (tim_accepted_at s) (\<lambda>a. deref (tim_submitted_at s) (\<lambda>sub.
          require (\<not> Before a sub) ErrInconsistentTiming)),
        when_ptr (tim_opened_at s) (\<lambda>t. deref (tim_submitted_at s) (\<lambda>sub.
          require (\<not> Before t sub) ErrInconsistentTiming)),
        (case tim_submit_to_open s of
           None \<Rightarrow> require (\<not> bothEndpoints) ErrInconsistentTiming
         | Some gap \<Rightarrow> first_error [
             require bothEndpoints ErrInconsistentTiming,
             deref (tim_opened_at s) (\<lambda>t. deref (tim_submitted_at s) (\<lambda>sub.
               require (gap = Sub t sub) ErrInconsistentTiming))])])"

definition earlier :: "gotime option \<Rightarrow> gotime option \<Rightarrow> gotime option" where
  "earlier cur candidate = (case candidate of
     None \<Rightarrow> cur
   | Some c \<Rightarrow> if IsZero c then cur
       else (case cur of None \<Rightarrow> Some c | Some t \<Rightarrow> if Before c t then Some c else cur))"

definition add_delivery :: "TimingSummary \<Rightarrow> AttentionDelivery \<Rightarrow> TimingSummary" where
  "add_delivery s d = s\<lparr>
     tim_submitted_at := earlier (tim_submitted_at s) (Some (dlv_submitted_at d)),
     tim_accepted_at := earlier (tim_accepted_at s) (dlv_accepted_at d),
     tim_opened_at := earlier (tim_opened_at s) (dlv_opened_at d)\<rparr>"

definition TimingAggregates :: "AttentionDelivery list \<Rightarrow> TimingSummary" where
  "TimingAggregates ds =
     (let s = foldl add_delivery \<lparr>tim_count = int (length ds), tim_submitted_at = None,
          tim_accepted_at = None, tim_opened_at = None, tim_submit_to_open = None\<rparr> ds
      in case (tim_submitted_at s, tim_opened_at s) of
           (Some sub, Some t) \<Rightarrow> s\<lparr>tim_submit_to_open := Some (Sub t sub)\<rparr>
         | _ \<Rightarrow> s)"

text \<open>\<open>WithTiming\<close>: the checks of the one writer of timing, in the order of the loop.\<close>

definition delivery_key :: "AttentionDelivery \<Rightarrow> string \<times> string \<times> int" where
  "delivery_key d = (dlv_device_id d, dlv_channel d, dlv_attempt d)"

fun check_deliveries ::
  "string \<Rightarrow> (string \<times> string \<times> int) list \<Rightarrow> AttentionDelivery list \<Rightarrow> err option" where
  "check_deliveries i seen [] = None"
| "check_deliveries i seen (d # ds) = first_error [
     AttentionDelivery_Validate d,
     require (dlv_item_id d = i) (Sentinel ''ErrForeignDelivery''),
     require (delivery_key d \<notin> set seen) ErrDuplicate,
     check_deliveries i (delivery_key d # seen) ds]"

definition WithTiming :: "string \<Rightarrow> AttentionDelivery list \<Rightarrow> err + TimingSummary" where
  "WithTiming i ds = of_err (check_deliveries i [] ds) (TimingAggregates ds)"

section \<open>Transitions\<close>

fun deliveryRank :: "DeliveryStatus \<Rightarrow> nat" where
  "deliveryRank DeliverySubmitted = 1"
| "deliveryRank DeliveryChannelAccepted = 2"
| "deliveryRank DeliveryOpened = 3"
| "deliveryRank (DeliveryStatusOther _) = 0"

definition timesEqual :: "gotime option \<Rightarrow> gotime option \<Rightarrow> bool" where
  "timesEqual a b = (case (a, b) of (Some x, Some y) \<Rightarrow> Equal x y | _ \<Rightarrow> a = None \<and> b = None)"

definition ValidateAttentionDeliveryTransition ::
  "AttentionDelivery \<Rightarrow> AttentionDelivery \<Rightarrow> err option" where
  "ValidateAttentionDeliveryTransition old updated =
     (if dlv_item_id updated \<noteq> dlv_item_id old \<or> dlv_device_id updated \<noteq> dlv_device_id old
        \<or> dlv_channel updated \<noteq> dlv_channel old \<or> dlv_attempt updated \<noteq> dlv_attempt old
      then Some ErrImmutableTransition
      else if deliveryRank (dlv_status updated) \<le> deliveryRank (dlv_status old)
      then Some ErrStaleTransition
      else if \<not> Equal (dlv_submitted_at updated) (dlv_submitted_at old)
        \<or> dlv_accepted_at old \<noteq> None \<and> \<not> timesEqual (dlv_accepted_at updated) (dlv_accepted_at old)
        \<or> dlv_opened_at old \<noteq> None \<and> \<not> timesEqual (dlv_opened_at updated) (dlv_opened_at old)
      then Some ErrImmutableTransition
      else None)"

section \<open>Lemmas\<close>

lemma timesEqual_iff [simp]: "timesEqual a b = timePtrEqual a b"
  by (cases a; cases b) (simp_all add: timesEqual_def)

lemma Delivery_valid_iff:
  "AttentionDelivery_Validate d = None \<longleftrightarrow> dlv_item_id d \<noteq> [] \<and> dlv_device_id d \<noteq> []
     \<and> dlv_channel d \<noteq> [] \<and> 1 \<le> dlv_attempt d \<and> \<not> IsZero (dlv_submitted_at d)
     \<and> (dlv_status d = DeliverySubmitted \<and> dlv_accepted_at d = None \<and> dlv_opened_at d = None
        \<or> dlv_status d = DeliveryChannelAccepted \<and> dlv_accepted_at d \<noteq> None \<and> dlv_opened_at d = None
        \<or> dlv_status d = DeliveryOpened \<and> dlv_opened_at d \<noteq> None)
     \<and> (\<forall>a. dlv_accepted_at d = Some a \<longrightarrow> \<not> Before a (dlv_submitted_at d))
     \<and> (\<forall>t. dlv_opened_at d = Some t \<longrightarrow> \<not> Before t (dlv_submitted_at d))
     \<and> (\<forall>a t. dlv_accepted_at d = Some a \<longrightarrow> dlv_opened_at d = Some t \<longrightarrow> \<not> Before t a)"
  by (cases "dlv_status d")
    (auto simp: AttentionDelivery_Validate_def before_submission_def validation)

text \<open>The instant \<open>earlier\<close> keeps is the minimum of the present, non-zero ones.\<close>

definition instants :: "gotime option \<Rightarrow> int set" where
  "instants p = {unix_ns t | t. p = Some t \<and> \<not> IsZero t}"

definition min_instant :: "int set \<Rightarrow> int option" where
  "min_instant A = (if A = {} then None else Some (Min A))"

lemma finite_instants [simp]: "finite (instants p)"
  by (cases p) (auto simp: instants_def)

lemma instants_simps [simp]:
  "instants None = {}" "instants (Some t) = (if IsZero t then {} else {unix_ns t})"
  by (auto simp: instants_def)

lemma earlier_min:
  assumes "finite A" and "map_option unix_ns cur = min_instant A"
  shows "map_option unix_ns (earlier cur c) = min_instant (A \<union> instants c)"
proof (cases c)
  case (Some t)
  show ?thesis
  proof (cases "IsZero t")
    case False
    show ?thesis
    proof (cases "A = {}")
      case True
      with Some False assms show ?thesis by (auto simp: earlier_def min_instant_def)
    next
      case ne: False
      with assms(2) obtain m where m: "cur = Some m" "unix_ns m = Min A" by (auto simp: min_instant_def)
      have "Min (insert (unix_ns t) A) = min (unix_ns t) (Min A)" by (rule Min_insert [OF assms(1) ne])
      with Some False ne m show ?thesis
        by (simp add: earlier_def min_instant_def Before_def min_def del: Min_insert)
    qed
  qed (use Some assms in \<open>auto simp: earlier_def min_instant_def\<close>)
qed (use assms in \<open>auto simp: earlier_def min_instant_def\<close>)

lemma foldl_delivery_min:
  assumes "finite S" "finite A" "finite B"
    and "map_option unix_ns (tim_submitted_at s) = min_instant S"
      "map_option unix_ns (tim_accepted_at s) = min_instant A"
      "map_option unix_ns (tim_opened_at s) = min_instant B"
  shows "map_option unix_ns (tim_submitted_at (foldl add_delivery s ds))
      = min_instant (S \<union> (\<Union>d \<in> set ds. instants (Some (dlv_submitted_at d))))
    \<and> map_option unix_ns (tim_accepted_at (foldl add_delivery s ds))
      = min_instant (A \<union> (\<Union>d \<in> set ds. instants (dlv_accepted_at d)))
    \<and> map_option unix_ns (tim_opened_at (foldl add_delivery s ds))
      = min_instant (B \<union> (\<Union>d \<in> set ds. instants (dlv_opened_at d)))
    \<and> tim_count (foldl add_delivery s ds) = tim_count s
    \<and> tim_submit_to_open (foldl add_delivery s ds) = tim_submit_to_open s"
  using assms
proof (induction ds arbitrary: s S A B)
  case (Cons d ds)
  have "map_option unix_ns (tim_submitted_at (add_delivery s d)) = min_instant (S \<union> instants (Some (dlv_submitted_at d)))"
    "map_option unix_ns (tim_accepted_at (add_delivery s d)) = min_instant (A \<union> instants (dlv_accepted_at d))"
    "map_option unix_ns (tim_opened_at (add_delivery s d)) = min_instant (B \<union> instants (dlv_opened_at d))"
    "tim_count (add_delivery s d) = tim_count s" "tim_submit_to_open (add_delivery s d) = tim_submit_to_open s"
    using earlier_min [OF Cons.prems(1,4)] earlier_min [OF Cons.prems(2,5)] earlier_min [OF Cons.prems(3,6)]
    by (simp_all only: add_delivery_def) simp_all
  from Cons.IH [OF _ _ _ this(1-3)] Cons.prems(1-3) this(4,5) show ?case
    by (simp add: Un_assoc del: instants_simps)
qed simp

definition first_instant :: "(AttentionDelivery \<Rightarrow> gotime option) \<Rightarrow> AttentionDelivery list \<Rightarrow> int option" where
  "first_instant f ds = min_instant (\<Union>d \<in> set ds. instants (f d))"

lemma TimingAggregates_fields:
  "tim_count (TimingAggregates ds) = int (length ds)"
  "map_option unix_ns (tim_submitted_at (TimingAggregates ds)) = first_instant (\<lambda>d. Some (dlv_submitted_at d)) ds"
  "map_option unix_ns (tim_accepted_at (TimingAggregates ds)) = first_instant dlv_accepted_at ds"
  "map_option unix_ns (tim_opened_at (TimingAggregates ds)) = first_instant dlv_opened_at ds"
  "tim_submit_to_open (TimingAggregates ds) =
     (case (first_instant (\<lambda>d. Some (dlv_submitted_at d)) ds, first_instant dlv_opened_at ds) of
        (Some sub, Some t) \<Rightarrow> Some (clamp64 (t - sub)) | _ \<Rightarrow> None)"
proof -
  let ?s = "\<lparr>tim_count = int (length ds), tim_submitted_at = None, tim_accepted_at = None,
    tim_opened_at = None, tim_submit_to_open = None\<rparr>"
  note F = foldl_delivery_min [of "{}" "{}" "{}" ?s ds]
  then have F: "map_option unix_ns (tim_submitted_at (foldl add_delivery ?s ds)) = first_instant (\<lambda>d. Some (dlv_submitted_at d)) ds"
    "map_option unix_ns (tim_accepted_at (foldl add_delivery ?s ds)) = first_instant dlv_accepted_at ds"
    "map_option unix_ns (tim_opened_at (foldl add_delivery ?s ds)) = first_instant dlv_opened_at ds"
    "tim_count (foldl add_delivery ?s ds) = int (length ds)"
    "tim_submit_to_open (foldl add_delivery ?s ds) = None"
    by (simp_all add: min_instant_def first_instant_def)
  let ?r = "foldl add_delivery ?s ds"
  have T: "tim_count (TimingAggregates ds) = tim_count ?r"
    "tim_submitted_at (TimingAggregates ds) = tim_submitted_at ?r"
    "tim_accepted_at (TimingAggregates ds) = tim_accepted_at ?r"
    "tim_opened_at (TimingAggregates ds) = tim_opened_at ?r"
    "tim_submit_to_open (TimingAggregates ds) = (case (tim_submitted_at ?r, tim_opened_at ?r) of
       (Some sub, Some t) \<Rightarrow> Some (Sub t sub) | _ \<Rightarrow> tim_submit_to_open ?r)"
    by (simp_all add: TimingAggregates_def Let_def split: option.split)
  show "tim_count (TimingAggregates ds) = int (length ds)"
    "map_option unix_ns (tim_submitted_at (TimingAggregates ds)) = first_instant (\<lambda>d. Some (dlv_submitted_at d)) ds"
    "map_option unix_ns (tim_accepted_at (TimingAggregates ds)) = first_instant dlv_accepted_at ds"
    "map_option unix_ns (tim_opened_at (TimingAggregates ds)) = first_instant dlv_opened_at ds"
    using F by (simp_all only: T)
  show "tim_submit_to_open (TimingAggregates ds) =
     (case (first_instant (\<lambda>d. Some (dlv_submitted_at d)) ds, first_instant dlv_opened_at ds) of
        (Some sub, Some t) \<Rightarrow> Some (clamp64 (t - sub)) | _ \<Rightarrow> None)"
    unfolding T F(1) [symmetric] F(3) [symmetric] F(5)
    by (simp add: Sub_def split: option.split)
qed

lemma first_instant_Some:
  "first_instant f ds = Some n \<Longrightarrow> \<exists>d \<in> set ds. \<exists>t. f d = Some t \<and> \<not> IsZero t \<and> unix_ns t = n"
  "d \<in> set ds \<Longrightarrow> f d = Some t \<Longrightarrow> \<not> IsZero t \<Longrightarrow> \<exists>n. first_instant f ds = Some n \<and> n \<le> unix_ns t"
proof -
  let ?A = "\<Union>d \<in> set ds. instants (f d)"
  have fin: "finite ?A" by simp
  show "first_instant f ds = Some n \<Longrightarrow> \<exists>d \<in> set ds. \<exists>t. f d = Some t \<and> \<not> IsZero t \<and> unix_ns t = n"
  proof -
    assume "first_instant f ds = Some n"
    then have "n = Min ?A" "?A \<noteq> {}" by (auto simp: first_instant_def min_instant_def split: if_split_asm)
    with Min_in [OF fin] have "n \<in> ?A" by blast
    then show ?thesis by (auto simp: instants_def)
  qed
  show "d \<in> set ds \<Longrightarrow> f d = Some t \<Longrightarrow> \<not> IsZero t \<Longrightarrow> \<exists>n. first_instant f ds = Some n \<and> n \<le> unix_ns t"
  proof -
    assume "d \<in> set ds" "f d = Some t" "\<not> IsZero t"
    then have "unix_ns t \<in> ?A" by (force simp: instants_def)
    with Min_le [OF fin this] show ?thesis
      unfolding first_instant_def min_instant_def by (metis empty_iff)
  qed
qed

lemma TimingAggregates_valid:
  assumes "\<forall>d \<in> set ds. AttentionDelivery_Validate d = None"
  shows "TimingSummary_Validate (TimingAggregates ds) = None"
proof -
  let ?t = "TimingAggregates ds" and ?sub = "\<lambda>d. Some (dlv_submitted_at d)"
  note F = TimingAggregates_fields [of ds]
  have V: "d \<in> set ds \<Longrightarrow> \<not> IsZero (dlv_submitted_at d)"
      "d \<in> set ds \<Longrightarrow> dlv_accepted_at d = Some a \<Longrightarrow> \<not> Before a (dlv_submitted_at d)"
      "d \<in> set ds \<Longrightarrow> dlv_opened_at d = Some a \<Longrightarrow> \<not> Before a (dlv_submitted_at d)" for d a
    using assms by (auto simp: Delivery_valid_iff)
  have nz: "map_option unix_ns p = first_instant f ds \<Longrightarrow> p = Some t \<Longrightarrow> \<not> IsZero t" for p f t
    using first_instant_Some(1) [of f ds "unix_ns t"] by (auto simp: IsZero_def)
  have sub: "\<exists>n. first_instant ?sub ds = Some n \<and> n \<le> m"
    if "first_instant f ds = Some m" and "\<And>d a. d \<in> set ds \<Longrightarrow> f d = Some a \<Longrightarrow> \<not> Before a (dlv_submitted_at d)" for f m
  proof -
    from first_instant_Some(1) [OF that(1)] obtain d t where d: "d \<in> set ds" "f d = Some t" "unix_ns t = m" by blast
    from first_instant_Some(2) [OF d(1) _ V(1) [OF d(1)], of ?sub] that(2) [OF d(1,2)] d(3)
    show ?thesis by (auto simp: Before_def)
  qed
  have cnt: "ds = [] \<longleftrightarrow> first_instant ?sub ds = None"
    using first_instant_Some(2) [of _ ds ?sub] V(1) by (cases ds) (auto simp: first_instant_def min_instant_def)
  obtain s a t where sat: "tim_submitted_at ?t = s" "tim_accepted_at ?t = a" "tim_opened_at ?t = t" by blast
  note F' = F [unfolded sat]
  have A: "a = Some x \<Longrightarrow> \<exists>y. s = Some y \<and> \<not> Before x y" for x
    using sub [of dlv_accepted_at "unix_ns x"] V(2) F'(2,3) by (auto simp: Before_def)
  have O: "t = Some x \<Longrightarrow> \<exists>y. s = Some y \<and> \<not> Before x y" for x
    using sub [of dlv_opened_at "unix_ns x"] V(3) F'(2,4) by (auto simp: Before_def)
  have gap: "tim_submit_to_open ?t = (case (s, t) of (Some y, Some x) \<Rightarrow> Some (Sub x y) | _ \<Rightarrow> None)"
    unfolding F'(5) F'(2,4) [symmetric] by (simp add: Sub_def split: option.split)
  have Z: "present_nonzero s = None" "present_nonzero a = None" "present_nonzero t = None"
    using nz F'(2-4) by (auto simp: present_nonzero_def validation)
  have C: "s = None \<longleftrightarrow> ds = []" using cnt F'(2) by (cases s) auto
  show ?thesis
    unfolding TimingSummary_Validate_def Let_def sat F'(1) gap
    using A O Z C by (cases s; cases a; cases t) (auto simp: validation)
qed

text \<open>
  The timing summary of a set of valid deliveries is valid, it is the earliest submission,
  acceptance and opening among them with the gap between first submission and first opening, and it
  does not depend on the order in which they are listed.
\<close>

theorem TimingAggregates_correct:
  assumes "\<forall>d \<in> set ds. AttentionDelivery_Validate d = None"
  shows "TimingSummary_Validate (TimingAggregates ds) = None
    \<and> map_option unix_ns (tim_submitted_at (TimingAggregates ds)) = first_instant (\<lambda>d. Some (dlv_submitted_at d)) ds
    \<and> map_option unix_ns (tim_accepted_at (TimingAggregates ds)) = first_instant dlv_accepted_at ds
    \<and> map_option unix_ns (tim_opened_at (TimingAggregates ds)) = first_instant dlv_opened_at ds
    \<and> (\<forall>es. mset es = mset ds \<longrightarrow>
         tim_count (TimingAggregates es) = tim_count (TimingAggregates ds)
         \<and> timePtrEqual (tim_submitted_at (TimingAggregates es)) (tim_submitted_at (TimingAggregates ds))
         \<and> timePtrEqual (tim_accepted_at (TimingAggregates es)) (tim_accepted_at (TimingAggregates ds))
         \<and> timePtrEqual (tim_opened_at (TimingAggregates es)) (tim_opened_at (TimingAggregates ds))
         \<and> tim_submit_to_open (TimingAggregates es) = tim_submit_to_open (TimingAggregates ds))"
  (is "?valid \<and> _")
proof -
  note F = TimingAggregates_fields
  have same: "map_option unix_ns p = map_option unix_ns q \<Longrightarrow> timePtrEqual p q" for p q
    by (cases p; cases q) (auto simp: Equal_def)
  have inst: "first_instant f es = first_instant f ds" if "mset es = mset ds" for f es
    using mset_eq_setD [OF that] by (simp add: first_instant_def)
  have len: "length es = length ds" if "mset es = mset ds" for es :: "AttentionDelivery list"
    using that by (rule mset_eq_length)
  have order: "tim_count (TimingAggregates es) = tim_count (TimingAggregates ds)
       \<and> timePtrEqual (tim_submitted_at (TimingAggregates es)) (tim_submitted_at (TimingAggregates ds))
       \<and> timePtrEqual (tim_accepted_at (TimingAggregates es)) (tim_accepted_at (TimingAggregates ds))
       \<and> timePtrEqual (tim_opened_at (TimingAggregates es)) (tim_opened_at (TimingAggregates ds))
       \<and> tim_submit_to_open (TimingAggregates es) = tim_submit_to_open (TimingAggregates ds)"
    if m: "mset es = mset ds" for es
    by (intro conjI same) (simp_all only: F inst [OF m] len [OF m])
  show ?thesis
    by (intro conjI F allI impI TimingAggregates_valid [OF assms]) (use order in blast)+
qed

section \<open>Histories\<close>

definition delivery_extends :: "AttentionDelivery \<Rightarrow> AttentionDelivery \<Rightarrow> bool" where
  "delivery_extends a b \<longleftrightarrow> deliveryRank (dlv_status a) \<le> deliveryRank (dlv_status b)
     \<and> (dlv_accepted_at a \<noteq> None \<longrightarrow> timePtrEqual (dlv_accepted_at b) (dlv_accepted_at a))
     \<and> (dlv_opened_at a \<noteq> None \<longrightarrow> timePtrEqual (dlv_opened_at b) (dlv_opened_at a))"

definition delivery_identity :: "AttentionDelivery \<Rightarrow> (string \<times> string \<times> string \<times> int) \<times> int" where
  "delivery_identity d = ((dlv_item_id d, dlv_device_id d, dlv_channel d, dlv_attempt d),
     unix_ns (dlv_submitted_at d))"

interpretation delivery_history:
  stored_aggregate ValidateAttentionDeliveryTransition delivery_identity delivery_extends
proof
  fix a b :: AttentionDelivery
  assume v: "ValidateAttentionDeliveryTransition a b = None"
  then show "delivery_identity b = delivery_identity a"
    by (auto simp: ValidateAttentionDeliveryTransition_def delivery_identity_def Equal_def split: if_split_asm)
  from v show "delivery_extends a b"
    by (auto simp: ValidateAttentionDeliveryTransition_def delivery_extends_def split: if_split_asm)
next
  fix a b c :: AttentionDelivery
  show "delivery_extends a a" by (simp add: delivery_extends_def)
  assume ab: "delivery_extends a b" and bc: "delivery_extends b c"
  have "p \<noteq> None \<Longrightarrow> timePtrEqual q p \<Longrightarrow> q \<noteq> None" for p q by (cases p; cases q) auto
  with ab bc show "delivery_extends a c"
    unfolding delivery_extends_def by (meson le_trans timePtrEqual_trans)
qed

lemma delivery_step_rank:
  "ValidateAttentionDeliveryTransition a b = None \<Longrightarrow> deliveryRank (dlv_status a) < deliveryRank (dlv_status b)"
  by (auto simp: ValidateAttentionDeliveryTransition_def split: if_split_asm)

lemma deliveryRank_le: "deliveryRank s \<le> 3"
  by (cases s) simp_all

lemma delivery_history_length:
  "history ValidateAttentionDeliveryTransition a bs \<Longrightarrow> deliveryRank (dlv_status a) + length bs \<le> 3"
proof (induction bs arbitrary: a)
  case (Cons b bs)
  then have "deliveryRank (dlv_status a) < deliveryRank (dlv_status b)"
    "deliveryRank (dlv_status b) + length bs \<le> 3"
    using delivery_step_rank by auto
  then show ?case by simp
qed (simp add: deliveryRank_le)


text \<open>An attempt that is submitted, accepted and opened.\<close>

definition example_delivery :: AttentionDelivery where
  "example_delivery = \<lparr>dlv_item_id = ''item-1'', dlv_device_id = ''0102'', dlv_channel = ''ntfy'',
     dlv_attempt = 1, dlv_submitted_at = UnixZero 100, dlv_accepted_at = None, dlv_opened_at = None,
     dlv_status = DeliverySubmitted\<rparr>"

definition example_accepted :: AttentionDelivery where
  "example_accepted = example_delivery\<lparr>dlv_accepted_at := Some (UnixZero 130),
     dlv_status := DeliveryChannelAccepted\<rparr>"

definition example_opened :: AttentionDelivery where
  "example_opened = example_accepted\<lparr>dlv_opened_at := Some (UnixZero 190), dlv_status := DeliveryOpened\<rparr>"

lemma example_delivery_valid:
  "AttentionDelivery_Validate example_delivery = None" "AttentionDelivery_Validate example_accepted = None"
  "AttentionDelivery_Validate example_opened = None"
  by code_simp+

theorem TimingAggregates_correct_witness:
  "TimingSummary_Validate (TimingAggregates [example_opened, example_delivery\<lparr>dlv_attempt := 2\<rparr>]) = None"
proof -
  have "AttentionDelivery_Validate (example_delivery\<lparr>dlv_attempt := 2\<rparr>) = None" by code_simp
  with TimingAggregates_correct [of "[example_opened, example_delivery\<lparr>dlv_attempt := 2\<rparr>]"]
  show ?thesis by (simp add: example_delivery_valid)
qed


end
