(* ===== verification/Delivery.thy ===== *)
theory Delivery
  imports DeliveryDomain Pairing "HOL-Library.Product_Lexorder"
begin

text \<open>
  \<open>daemon/internal/signet/delivery.go\<close> and \<open>delivery_dispatch.go\<close> with the delivery table of
  \<open>store/entities.go\<close>: submitting a notification attempt, recording what the channel and the
  device report of it, keeping each item's timing summary, and the sender that decides which item
  still owes which device a notification.

  The attention item is modelled as far as the pipeline reads and writes it; the rest of its body is
  opaque, the policy gates every read and write of an item passes (\<open>gateEvidence\<close> and its
  siblings) are a function of the environment, as are proposal snoozes. The external publish is a
  function that answers with its error and with the database as other transactions left it meanwhile.

  Shown: whatever submissions, acceptances and receipts run, every row reads back, attempts are
  numbered without gaps, each item's stored timing is the summary of its attempts and no receipt is
  lost; the sender's table of histories decides exactly the pairs the rule in its comment names; a
  submission reports what the table holds; a receipt is recorded once.
\<close>

section \<open>State\<close>

datatype ItemStatus = StatusOpen | StatusResolved | StatusSuperseded | StatusDismissed | StatusExpired
  | ItemStatusOther string

record AttentionItem =
  itm_id :: string
  itm_version :: int
  itm_status :: ItemStatus
  itm_created_at :: "gotime option"
  itm_timing :: TimingSummary
  itm_rest :: string

record item_row =
  irow_entity_version :: int
  irow_as_of_revision :: int
  irow_item :: AttentionItem

record delivery_row =
  lrow_entity_version :: int
  lrow_as_of_revision :: int
  lrow_body :: AttentionDelivery

type_synonym delivery_pk = "string \<times> string \<times> string \<times> int"

record delivery_db =
  ddb_pairing :: pair_db
  ddb_items :: "(string \<times> item_row) list"
  ddb_deliveries :: "(delivery_pk \<times> delivery_row) list"

record delivery_env =
  env_ntfy :: "err option option"
  env_item_gate :: "delivery_db \<Rightarrow> AttentionItem \<Rightarrow> err option"
  env_converge_snoozes :: "gotime \<Rightarrow> delivery_db \<Rightarrow> err + delivery_db"
  env_snoozed :: "AttentionItem \<Rightarrow> gotime \<Rightarrow> delivery_db \<Rightarrow> err + bool"

abbreviation ErrNotifierUnavailable :: err where "ErrNotifierUnavailable \<equiv> ErrText ''channel is not configured''"
abbreviation ErrItemNotOpenForDelivery :: err where "ErrItemNotOpenForDelivery \<equiv> Sentinel ''ErrItemNotOpenForDelivery''"
abbreviation ErrProposalSnoozed :: err where "ErrProposalSnoozed \<equiv> Sentinel ''ErrProposalSnoozed''"

definition channelNtfy :: string where "channelNtfy = ''ntfy''"

text \<open>The revision a transaction stamps, and its commit.\<close>

definition asOfRevision :: "delivery_db \<Rightarrow> int" where
  "asOfRevision d = pdb_revision (ddb_pairing d) + 1"

definition commit_revision :: "delivery_db \<Rightarrow> delivery_db" where
  "commit_revision d = d\<lparr>ddb_pairing := (ddb_pairing d)\<lparr>pdb_revision := asOfRevision d\<rparr>\<rparr>"

section \<open>The delivery table\<close>

definition delivery_marshals :: "AttentionDelivery \<Rightarrow> bool" where
  "delivery_marshals d \<longleftrightarrow> rfc3339_ok (dlv_submitted_at d)
     \<and> (\<forall>t \<in> set_option (dlv_accepted_at d). rfc3339_ok t)
     \<and> (\<forall>t \<in> set_option (dlv_opened_at d). rfc3339_ok t)"

definition delivery_pk :: "AttentionDelivery \<Rightarrow> delivery_pk" where
  "delivery_pk d = (dlv_item_id d, dlv_device_id d, dlv_channel d, dlv_attempt d)"

definition PutAttentionDelivery :: "AttentionDelivery \<Rightarrow> delivery_db \<Rightarrow> err + delivery_db" where
  "PutAttentionDelivery x d = (let upsert = (\<lambda>v. d\<lparr>ddb_deliveries := AList.update (delivery_pk x)
        \<lparr>lrow_entity_version = v, lrow_as_of_revision = asOfRevision d, lrow_body = x\<rparr> (ddb_deliveries d)\<rparr>)
     in case encode AttentionDelivery_Validate delivery_marshals x of
       Some e \<Rightarrow> Inl e
     | None \<Rightarrow> (case map_of (ddb_deliveries d) (delivery_pk x) of
             None \<Rightarrow>
               if map_of (ddb_items d) (dlv_item_id x) = None
               then Inl (ErrText ''FOREIGN KEY constraint failed'') else Inr (upsert 1)
           | Some r \<Rightarrow> if lrow_body r = x then Inr d
               else ebind (decode AttentionDelivery_Validate (lrow_body r)) (\<lambda>old.
                 case ValidateAttentionDeliveryTransition old x of
                   Some e \<Rightarrow> Inl (mapTransition e)
                 | None \<Rightarrow> Inr (upsert (lrow_entity_version r + 1)))))"

definition scanAttentionDelivery :: "delivery_pk \<times> delivery_row \<Rightarrow> err + AttentionDelivery" where
  "scanAttentionDelivery kr = (case kr of (k, r) \<Rightarrow>
     ebind (decode AttentionDelivery_Validate (lrow_body r)) (\<lambda>x.
       if delivery_pk x \<noteq> k \<or> lrow_entity_version r < 1 \<or> lrow_as_of_revision r < 1
       then Inl ErrRowInconsistent else Inr x))"

definition GetAttentionDelivery :: "delivery_pk \<Rightarrow> delivery_db \<Rightarrow> err + AttentionDelivery" where
  "GetAttentionDelivery k d = (case map_of (ddb_deliveries d) k of
     None \<Rightarrow> Inl ErrNotFound | Some r \<Rightarrow> scanAttentionDelivery (k, r))"

definition ListAttentionDeliveries :: "delivery_db \<Rightarrow> err + AttentionDelivery list" where
  "ListAttentionDeliveries d = queryAll scanAttentionDelivery (sort_key fst (ddb_deliveries d))"

section \<open>Item timing\<close>

definition timing_marshals :: "TimingSummary \<Rightarrow> bool" where
  "timing_marshals s \<longleftrightarrow> (\<forall>t \<in> set_option (tim_submitted_at s). rfc3339_ok t)
     \<and> (\<forall>t \<in> set_option (tim_accepted_at s). rfc3339_ok t)
     \<and> (\<forall>t \<in> set_option (tim_opened_at s). rfc3339_ok t)"

definition GetAttentionItem :: "delivery_env \<Rightarrow> string \<Rightarrow> delivery_db \<Rightarrow> err + AttentionItem" where
  "GetAttentionItem env i d = (case map_of (ddb_items d) i of
     None \<Rightarrow> Inl ErrNotFound
   | Some r \<Rightarrow> of_err (env_item_gate env d (irow_item r)) (irow_item r))"

definition ValidateAttentionItemTimingUpdate :: "AttentionItem \<Rightarrow> AttentionItem \<Rightarrow> err option" where
  "ValidateAttentionItemTimingUpdate old updated =
     (if itm_version updated \<noteq> itm_version old then Some ErrStaleTransition
      else if updated\<lparr>itm_timing := itm_timing old\<rparr> \<noteq> old then Some ErrImmutableTransition
      else None)"

text \<open>The path of \<open>putAttentionItem\<close> a timing update of a stored item takes.\<close>

definition PutAttentionItemTiming ::
  "delivery_env \<Rightarrow> string \<Rightarrow> TimingSummary \<Rightarrow> delivery_db \<Rightarrow> err + delivery_db" where
  "PutAttentionItemTiming env i timing d = ebind (GetAttentionItem env i d) (\<lambda>old.
     let item = old\<lparr>itm_timing := timing\<rparr> in
     case encode TimingSummary_Validate timing_marshals timing of
       Some e \<Rightarrow> Inl e
     | None \<Rightarrow> (case env_item_gate env d item of
         Some e \<Rightarrow> Inl e
       | None \<Rightarrow> if item = old then Inr d
           else (case ValidateAttentionItemTimingUpdate old item of
               Some e \<Rightarrow> Inl (mapTransition e)
             | None \<Rightarrow> Inr (d\<lparr>ddb_items := AList.update i
                 \<lparr>irow_entity_version = irow_entity_version (the (map_of (ddb_items d) i)) + 1,
                  irow_as_of_revision = asOfRevision d, irow_item = item\<rparr> (ddb_items d)\<rparr>))))"

definition timingEqual :: "TimingSummary \<Rightarrow> TimingSummary \<Rightarrow> err + bool" where
  "timingEqual a b = (if \<not> timing_marshals a \<or> \<not> timing_marshals b then Inl ErrMarshal else Inr (a = b))"

definition recomputeItemTiming :: "delivery_env \<Rightarrow> string \<Rightarrow> delivery_db \<Rightarrow> err + delivery_db" where
  "recomputeItemTiming env i d =
     ebind (GetAttentionItem env i d) (\<lambda>item.
     ebind (ListAttentionDeliveries d) (\<lambda>values.
     ebind (WithTiming (itm_id item) (filter (\<lambda>x. dlv_item_id x = i) values)) (\<lambda>next.
     ebind (timingEqual (itm_timing item) next) (\<lambda>same.
     if same then Inr d else PutAttentionItemTiming env i next d))))"

section \<open>The pipeline\<close>

definition bump_attempt :: "int \<Rightarrow> AttentionDelivery \<Rightarrow> int" where
  "bump_attempt n x = (if n \<le> dlv_attempt x then wrap64 (dlv_attempt x + 1) else n)"

definition next_after :: "AttentionDelivery list \<Rightarrow> int" where
  "next_after ds = foldl bump_attempt 1 ds"

definition nextAttempt :: "string \<Rightarrow> string \<Rightarrow> delivery_db \<Rightarrow> err + int" where
  "nextAttempt i dev d = ebind (ListAttentionDeliveries d) (\<lambda>values.
     Inr (next_after (filter (\<lambda>x. dlv_item_id x = i \<and> dlv_device_id x = dev \<and> dlv_channel x = channelNtfy) values)))"

text \<open>The first transaction of \<open>SubmitDelivery\<close>; two clock readings.\<close>

definition submitTx ::
  "delivery_env \<Rightarrow> string \<Rightarrow> string \<Rightarrow> gotime \<Rightarrow> gotime \<Rightarrow> delivery_db
   \<Rightarrow> err + (AttentionDelivery \<times> delivery_db)" where
  "submitTx env i dev now1 now2 d = (case gateActiveDevice dev (ddb_pairing d) of
     Some e \<Rightarrow> Inl e
   | None \<Rightarrow>
     ebind (GetAttentionItem env i d) (\<lambda>item.
     if itm_status item \<noteq> StatusOpen then Inl ErrItemNotOpenForDelivery else
     ebind (env_snoozed env item (UTC now1) d) (\<lambda>snoozed.
     if snoozed then Inl ErrProposalSnoozed else
     ebind (nextAttempt i dev d) (\<lambda>attempt.
     let row = \<lparr>dlv_item_id = i, dlv_device_id = dev, dlv_channel = channelNtfy, dlv_attempt = attempt,
           dlv_submitted_at = UTC now2, dlv_accepted_at = None, dlv_opened_at = None,
           dlv_status = DeliverySubmitted\<rparr>
     in ebind (PutAttentionDelivery row d) (\<lambda>d1.
        ebind (recomputeItemTiming env i d1) (\<lambda>d2. Inr (row, commit_revision d2)))))))"

text \<open>
  The second transaction; \<open>Inr (row, d)\<close> with an unchanged database is the abandoned replay
  (\<open>errReplay\<close>).
\<close>

definition acceptTx ::
  "delivery_env \<Rightarrow> string \<Rightarrow> string \<Rightarrow> int \<Rightarrow> gotime \<Rightarrow> delivery_db
   \<Rightarrow> err + (AttentionDelivery \<times> delivery_db)" where
  "acceptTx env i dev attempt now d =
     ebind (GetAttentionDelivery (i, dev, channelNtfy, attempt) d) (\<lambda>current.
     if dlv_status current \<noteq> DeliverySubmitted then Inr (current, d)
     else let x = current\<lparr>dlv_accepted_at := Some (UTC now), dlv_status := DeliveryChannelAccepted\<rparr>
       in ebind (PutAttentionDelivery x d) (\<lambda>d1.
          ebind (recomputeItemTiming env i d1) (\<lambda>d2. Inr (x, commit_revision d2))))"

text \<open>
  \<open>SubmitDelivery\<close>: the row it returns, its error and the database. \<open>send\<close> is the publish;
  \<open>clk n\<close> is the n-th clock reading.
\<close>

definition SubmitDelivery ::
  "delivery_env \<Rightarrow> (AttentionDelivery \<Rightarrow> delivery_db \<Rightarrow> err option \<times> delivery_db) \<Rightarrow> (nat \<Rightarrow> gotime)
   \<Rightarrow> string \<Rightarrow> string \<Rightarrow> delivery_db \<Rightarrow> (AttentionDelivery option \<times> err option) \<times> delivery_db" where
  "SubmitDelivery env send clk i dev d = (case env_ntfy env of
     None \<Rightarrow> ((None, Some ErrNotifierUnavailable), d)
   | Some (Some e) \<Rightarrow> ((None, Some ErrNotifierUnavailable), d)
   | Some None \<Rightarrow> (case env_converge_snoozes env (UTC (clk 0)) d of
       Inl e \<Rightarrow> ((None, Some e), d)
     | Inr d0 \<Rightarrow> (case submitTx env i dev (clk 1) (clk 2) d0 of
         Inl e \<Rightarrow> ((None, Some e), d0)
       | Inr (row, d1) \<Rightarrow> (case send row d1 of
           (Some e, d2) \<Rightarrow> ((Some row, Some e), d2)
         | (None, d2) \<Rightarrow> (case acceptTx env i dev (dlv_attempt row) (clk 3) d2 of
             Inl e \<Rightarrow> ((None, Some e), d2)
           | Inr (accepted, d3) \<Rightarrow> ((Some accepted, None), d3))))))"

definition RecordDeliveryOpened ::
  "delivery_env \<Rightarrow> delivery_pk \<Rightarrow> gotime \<Rightarrow> delivery_db \<Rightarrow> err + (AttentionDelivery \<times> delivery_db)" where
  "RecordDeliveryOpened env k now d = (case gateActiveDevice (fst (snd k)) (ddb_pairing d) of
     Some e \<Rightarrow> Inl e
   | None \<Rightarrow> ebind (GetAttentionDelivery k d) (\<lambda>row.
     if dlv_status row = DeliveryOpened then Inr (row, d)
     else let x = row\<lparr>dlv_opened_at := Some (UTC now), dlv_status := DeliveryOpened\<rparr>
       in ebind (PutAttentionDelivery x d) (\<lambda>d1.
          ebind (recomputeItemTiming env (fst k) d1) (\<lambda>d2. Inr (x, commit_revision d2)))))"

section \<open>The sender\<close>

definition maxDeliveryAttempts :: int where "maxDeliveryAttempts = 6"
definition firstDeliveryRetryWait :: int where "firstDeliveryRetryWait = 60 * second_ns"

text \<open>The shift panics on a negative count.\<close>

definition deliveryRetryWait :: "int \<Rightarrow> err + int" where
  "deliveryRetryWait failed = (if failed - 1 < 0 then Inl (Panic ''negative shift amount'')
     else Inr (wrap64 (firstDeliveryRetryWait * 2 ^ nat (failed - 1))))"

record sender_history =
  his_attempts :: int
  his_last_submitted :: gotime
  his_settled :: bool

definition new_history :: sender_history where
  "new_history = \<lparr>his_attempts = 0, his_last_submitted = \<lparr>unix_ns = zero_ns, is_utc = True\<rparr>, his_settled = False\<rparr>"

definition note_delivery ::
  "(string \<times> string \<Rightarrow> sender_history option) \<Rightarrow> AttentionDelivery \<Rightarrow> (string \<times> string \<Rightarrow> sender_history option)" where
  "note_delivery hs x =
     (if dlv_channel x \<noteq> channelNtfy then hs
      else let key = (dlv_item_id x, dlv_device_id x);
               h = (case hs key of None \<Rightarrow> new_history | Some h \<Rightarrow> h);
               h1 = (case dlv_status x of
                   DeliveryChannelAccepted \<Rightarrow> h\<lparr>his_settled := True\<rparr>
                 | DeliveryOpened \<Rightarrow> h\<lparr>his_settled := True\<rparr> | _ \<Rightarrow> h);
               h2 = (if his_attempts h1 < dlv_attempt x
                 then h1\<lparr>his_attempts := dlv_attempt x, his_last_submitted := dlv_submitted_at x\<rparr> else h1)
           in hs(key \<mapsto> h2))"

definition pair_owed ::
  "(string \<times> string \<Rightarrow> sender_history option) \<Rightarrow> gotime \<Rightarrow> AttentionItem \<times> Device \<Rightarrow> err + bool" where
  "pair_owed hs now p = (case p of (item, device) \<Rightarrow>
     if itm_status item \<noteq> StatusOpen then Inr False
     else if dev_status device \<noteq> DeviceActive then Inr False
     else if (case itm_created_at item of None \<Rightarrow> False | Some t \<Rightarrow> Before t (dev_paired_at device)) then Inr False
     else (case hs (itm_id item, dev_id device) of
         None \<Rightarrow> Inr True
       | Some h \<Rightarrow> if his_settled h \<or> maxDeliveryAttempts \<le> his_attempts h then Inr False
           else ebind (deliveryRetryWait (his_attempts h)) (\<lambda>w.
             Inr (\<not> Before now (Add (his_last_submitted h) w)))))"

fun collect_owed ::
  "(AttentionItem \<times> Device \<Rightarrow> err + bool) \<Rightarrow> (AttentionItem \<times> Device) list \<Rightarrow> err + (string \<times> string) list" where
  "collect_owed owed [] = Inr []"
| "collect_owed owed (p # ps) = ebind (owed p) (\<lambda>b. ebind (collect_owed owed ps) (\<lambda>qs.
     Inr (if b then (itm_id (fst p), dev_id (snd p)) # qs else qs)))"

definition owedDeliveries ::
  "AttentionItem list \<Rightarrow> Device list \<Rightarrow> AttentionDelivery list \<Rightarrow> gotime \<Rightarrow> err + (string \<times> string) list" where
  "owedDeliveries items devices deliveries now =
     collect_owed (pair_owed (foldl note_delivery (\<lambda>_. None) deliveries) now) (List.product items devices)"

record DeliveryFailure =
  dfl_item_id :: string
  dfl_device_id :: string
  dfl_attempt :: int
  dfl_final :: bool
  dfl_err :: err

text \<open>
  The submission loop of \<open>DeliverOwed\<close> (for a context that does not end): the failures reported, in
  order, and the database. \<open>clk p n\<close> is the n-th clock reading while the pair \<open>p\<close> is served.
\<close>

fun deliverAll ::
  "delivery_env \<Rightarrow> (AttentionDelivery \<Rightarrow> delivery_db \<Rightarrow> err option \<times> delivery_db)
   \<Rightarrow> (string \<times> string \<Rightarrow> nat \<Rightarrow> gotime) \<Rightarrow> (string \<times> string) list \<Rightarrow> delivery_db
   \<Rightarrow> DeliveryFailure list \<times> delivery_db" where
  "deliverAll env send clk [] d = ([], d)"
| "deliverAll env send clk (p # ps) d =
     (case SubmitDelivery env send (clk p) (fst p) (snd p) d of ((row, r), d1) \<Rightarrow>
      case deliverAll env send clk ps d1 of (fs, d2) \<Rightarrow>
        ((case r of
            None \<Rightarrow> fs
          | Some e \<Rightarrow> if e \<in> {ErrItemNotOpenForDelivery, ErrProposalSnoozed, ErrDeviceNotActive, ErrNotFound}
              then fs
              else (let attempt = (case row of None \<Rightarrow> 0 | Some x \<Rightarrow> dlv_attempt x) in
                \<lparr>dfl_item_id = fst p, dfl_device_id = snd p, dfl_attempt = attempt,
                  dfl_final = (maxDeliveryAttempts \<le> attempt), dfl_err = e\<rparr> # fs)), d2))"

fun unsnoozed ::
  "delivery_env \<Rightarrow> gotime \<Rightarrow> delivery_db \<Rightarrow> AttentionItem list \<Rightarrow> err + AttentionItem list" where
  "unsnoozed env now d [] = Inr []"
| "unsnoozed env now d (x # xs) = ebind (env_snoozed env x now d) (\<lambda>b.
     ebind (unsnoozed env now d xs) (\<lambda>ys. Inr (if b then ys else x # ys)))"

text \<open>
  One pass. \<open>open_items\<close> is what \<open>ListOpenAttentionItems\<close> returns over all attention types.
\<close>

definition DeliverOwed ::
  "delivery_env \<Rightarrow> (delivery_db \<Rightarrow> err + AttentionItem list)
   \<Rightarrow> (AttentionDelivery \<Rightarrow> delivery_db \<Rightarrow> err option \<times> delivery_db)
   \<Rightarrow> gotime \<Rightarrow> (string \<times> string \<Rightarrow> nat \<Rightarrow> gotime) \<Rightarrow> delivery_db
   \<Rightarrow> (err + DeliveryFailure list) \<times> delivery_db" where
  "DeliverOwed env open_items send now clk d =
     (case ebind (open_items d) (\<lambda>listed.
           ebind (unsnoozed env (UTC now) d listed) (\<lambda>items.
           ebind (ListDevices (ddb_pairing d)) (\<lambda>devices.
           ebind (ListAttentionDeliveries d) (\<lambda>deliveries.
           owedDeliveries items (map fst devices) deliveries (UTC now))))) of
        Inl e \<Rightarrow> (Inl e, d)
      | Inr owed \<Rightarrow> (case deliverAll env send clk owed d of (fs, d') \<Rightarrow> (Inr fs, d')))"

section \<open>The invariant\<close>

definition delivery_row_ok :: "delivery_pk \<Rightarrow> delivery_row \<Rightarrow> bool" where
  "delivery_row_ok k r \<longleftrightarrow> delivery_pk (lrow_body r) = k \<and> AttentionDelivery_Validate (lrow_body r) = None
     \<and> is_int64 (dlv_attempt (lrow_body r)) \<and> 1 \<le> lrow_entity_version r \<and> 1 \<le> lrow_as_of_revision r"

text \<open>The attempts of an item, in the order the store lists them.\<close>

definition deliveries_of :: "delivery_db \<Rightarrow> string \<Rightarrow> AttentionDelivery list" where
  "deliveries_of d i = map (\<lambda>kr. lrow_body (snd kr))
     (filter (\<lambda>kr. fst (fst kr) = i) (sort_key fst (ddb_deliveries d)))"

definition attempts_of :: "delivery_db \<Rightarrow> string \<Rightarrow> string \<Rightarrow> int set" where
  "attempts_of d i dev = {a. map_of (ddb_deliveries d) (i, dev, channelNtfy, a) \<noteq> None}"

text \<open>
  Every row reads back and belongs to an item; each item's stored timing is the summary of its
  attempts; the attempts of an item at a device are numbered without gaps.
\<close>

definition delivery_ok :: "delivery_db \<Rightarrow> bool" where
  "delivery_ok d \<longleftrightarrow> pair_db_ok (ddb_pairing d) \<and> distinct_keys (ddb_items d) \<and> distinct_keys (ddb_deliveries d)
     \<and> (\<forall>k r. map_of (ddb_deliveries d) k = Some r \<longrightarrow> delivery_row_ok k r \<and> map_of (ddb_items d) (fst k) \<noteq> None)
     \<and> (\<forall>i r. map_of (ddb_items d) i = Some r \<longrightarrow> itm_id (irow_item r) = i
          \<and> itm_timing (irow_item r) = TimingAggregates (deliveries_of d i))
     \<and> (\<forall>i dev. \<exists>n. attempts_of d i dev = {1..n})"

lemma delivery_okD:
  assumes "delivery_ok d"
  shows "pair_db_ok (ddb_pairing d)" "distinct_keys (ddb_items d)" "distinct_keys (ddb_deliveries d)"
    "\<And>k r. map_of (ddb_deliveries d) k = Some r \<Longrightarrow> delivery_row_ok k r"
    "\<And>k r. map_of (ddb_deliveries d) k = Some r \<Longrightarrow> map_of (ddb_items d) (fst k) \<noteq> None"
    "\<And>i r. map_of (ddb_items d) i = Some r \<Longrightarrow> itm_id (irow_item r) = i"
    "\<And>i r. map_of (ddb_items d) i = Some r \<Longrightarrow> itm_timing (irow_item r) = TimingAggregates (deliveries_of d i)"
    "\<And>i dev. \<exists>n. attempts_of d i dev = {1..n}"
  using assms unfolding delivery_ok_def by blast+

text \<open>What the table operations need of the table alone.\<close>

definition rows_ok :: "delivery_db \<Rightarrow> bool" where
  "rows_ok d \<longleftrightarrow> distinct_keys (ddb_deliveries d)
     \<and> (\<forall>k r. map_of (ddb_deliveries d) k = Some r \<longrightarrow> delivery_row_ok k r \<and> map_of (ddb_items d) (fst k) \<noteq> None)"

lemma delivery_ok_rows: "delivery_ok d \<Longrightarrow> rows_ok d"
  by (simp add: rows_ok_def delivery_ok_def del: map_of_eq_Some_iff not_None_eq)

lemma rows_okD:
  assumes "rows_ok d"
  shows "distinct_keys (ddb_deliveries d)" "\<And>k r. map_of (ddb_deliveries d) k = Some r \<Longrightarrow> delivery_row_ok k r"
    "\<And>k r. (k, r) \<in> set (ddb_deliveries d) \<Longrightarrow> delivery_row_ok k r"
    "\<And>k r. map_of (ddb_deliveries d) k = Some r \<Longrightarrow> map_of (ddb_items d) (fst k) \<noteq> None"
  using assms in_table_iff [of "ddb_deliveries d"] unfolding rows_ok_def by blast+

lemma scan_delivery_ok: "delivery_row_ok k r \<Longrightarrow> scanAttentionDelivery (k, r) = Inr (lrow_body r)"
  by (simp add: delivery_row_ok_def scanAttentionDelivery_def decode_def)

lemma GetAttentionDelivery_Inr: "rows_ok d \<Longrightarrow> GetAttentionDelivery k d = Inr x \<longleftrightarrow>
    (\<exists>r. map_of (ddb_deliveries d) k = Some r \<and> lrow_body r = x)"
  by (cases "map_of (ddb_deliveries d) k")
    (auto simp: GetAttentionDelivery_def dest!: scan_delivery_ok [OF rows_okD(2)])

lemma ListAttentionDeliveries_ok: "rows_ok d \<Longrightarrow>
    ListAttentionDeliveries d = Inr (map (\<lambda>kr. lrow_body (snd kr)) (sort_key fst (ddb_deliveries d)))"
  unfolding ListAttentionDeliveries_def
  by (rule queryAll_map) (auto dest!: rows_okD(3) intro: scan_delivery_ok)

lemma deliveries_of_filter:
  assumes "rows_ok d"
  shows "filter (\<lambda>x. dlv_item_id x = i) (map (\<lambda>kr. lrow_body (snd kr)) (sort_key fst (ddb_deliveries d))) = deliveries_of d i"
proof -
  have "dlv_item_id (lrow_body (snd kr)) = fst (fst kr)" if "kr \<in> set (ddb_deliveries d)" for kr
    using rows_okD(3) [OF assms, of "fst kr" "snd kr"] that
    by (simp add: delivery_row_ok_def delivery_pk_def) (metis fst_conv)
  then show ?thesis
    unfolding deliveries_of_def filter_map by (intro arg_cong [of _ _ "map _"] filter_cong) auto
qed

lemma in_deliveries_of: "rows_ok d \<Longrightarrow>
    x \<in> set (deliveries_of d i) \<longleftrightarrow> (\<exists>k r. map_of (ddb_deliveries d) k = Some r \<and> fst k = i \<and> lrow_body r = x)"
  using in_table_iff [OF rows_okD(1), of d] unfolding deliveries_of_def
  by (auto simp del: map_of_eq_Some_iff) (force simp del: map_of_eq_Some_iff)+

lemma filter_update_other:
  "\<not> Q k \<Longrightarrow> filter (\<lambda>kr. Q (fst kr)) (AList.update k v t) = filter (\<lambda>kr. Q (fst kr)) t"
  by (induction t) auto

text \<open>The rows of other items are not reordered by a write.\<close>

lemma deliveries_of_other:
  "fst k \<noteq> i \<Longrightarrow> deliveries_of (d\<lparr>ddb_deliveries := AList.update k v (ddb_deliveries d)\<rparr>) i = deliveries_of d i"
  using filter_update_other [of "\<lambda>k. fst k = i" k v "ddb_deliveries d"]
  by (simp add: deliveries_of_def filter_sort)

lemma deliveries_of_frame: "ddb_deliveries d' = ddb_deliveries d \<Longrightarrow> deliveries_of d' = deliveries_of d"
  by (simp add: deliveries_of_def fun_eq_iff)

section \<open>Writes\<close>

lemma PutAttentionDelivery_Inr:
  assumes ok: "rows_ok d"
  shows "PutAttentionDelivery x d = Inr d' \<longleftrightarrow> AttentionDelivery_Validate x = None \<and> delivery_marshals x
     \<and> map_of (ddb_items d) (dlv_item_id x) \<noteq> None
     \<and> ((\<exists>r. map_of (ddb_deliveries d) (delivery_pk x) = Some r \<and> lrow_body r = x) \<and> d' = d
        \<or> (\<exists>v \<ge> 1. (\<forall>r. map_of (ddb_deliveries d) (delivery_pk x) = Some r \<longrightarrow> lrow_body r \<noteq> x
               \<and> ValidateAttentionDeliveryTransition (lrow_body r) x = None \<and> v = lrow_entity_version r + 1)
             \<and> (map_of (ddb_deliveries d) (delivery_pk x) = None \<longrightarrow> v = 1)
             \<and> d' = d\<lparr>ddb_deliveries := AList.update (delivery_pk x)
                 \<lparr>lrow_entity_version = v, lrow_as_of_revision = asOfRevision d, lrow_body = x\<rparr> (ddb_deliveries d)\<rparr>))"
proof (cases "encode AttentionDelivery_Validate delivery_marshals x")
  case None
  then have e: "AttentionDelivery_Validate x = None" "delivery_marshals x" by (simp_all add: encode_None)
  show ?thesis
  proof (cases "map_of (ddb_deliveries d) (delivery_pk x)")
    case (Some r)
    from rows_okD(2) [OF ok Some] have v: "AttentionDelivery_Validate (lrow_body r) = None" "1 \<le> lrow_entity_version r"
      by (simp_all add: delivery_row_ok_def)
    from rows_okD(4) [OF ok Some] have "map_of (ddb_items d) (dlv_item_id x) \<noteq> None" by (simp add: delivery_pk_def)
    with v None Some e show ?thesis
      by (auto simp: PutAttentionDelivery_def Let_def decode_def split: option.splits)
  qed (use None e in \<open>auto simp: PutAttentionDelivery_def Let_def\<close>)
next
  case (Some e)
  then have "\<not> (AttentionDelivery_Validate x = None \<and> delivery_marshals x)"
    using encode_None [of AttentionDelivery_Validate delivery_marshals x] by auto
  with Some show ?thesis by (auto simp: PutAttentionDelivery_def Let_def)
qed

text \<open>A write of one attempt that advances or creates it.\<close>

definition wrote :: "delivery_db \<Rightarrow> AttentionDelivery \<Rightarrow> delivery_db \<Rightarrow> bool" where
  "wrote d x d' \<longleftrightarrow> AttentionDelivery_Validate x = None
     \<and> map_of (ddb_items d) (dlv_item_id x) \<noteq> None
     \<and> (\<exists>r'. lrow_body r' = x \<and> 1 \<le> lrow_entity_version r' \<and> lrow_as_of_revision r' = asOfRevision d
          \<and> d' = d\<lparr>ddb_deliveries := AList.update (delivery_pk x) r' (ddb_deliveries d)\<rparr>)
     \<and> (\<forall>r. map_of (ddb_deliveries d) (delivery_pk x) = Some r \<longrightarrow>
          ValidateAttentionDeliveryTransition (lrow_body r) x = None)"

lemma Put_wrote:
  assumes "rows_ok d" and "PutAttentionDelivery x d = Inr d'"
  shows "wrote d x d' \<or> d' = d \<and> (\<exists>r. map_of (ddb_deliveries d) (delivery_pk x) = Some r \<and> lrow_body r = x)"
  using assms(2) [unfolded PutAttentionDelivery_Inr [OF assms(1)]]
proof (elim conjE disjE exE)
  fix v
  assume "1 \<le> v" and "AttentionDelivery_Validate x = None" "map_of (ddb_items d) (dlv_item_id x) \<noteq> None"
    and "\<forall>r. map_of (ddb_deliveries d) (delivery_pk x) = Some r \<longrightarrow> lrow_body r \<noteq> x
       \<and> ValidateAttentionDeliveryTransition (lrow_body r) x = None \<and> v = lrow_entity_version r + 1"
    and d': "d' = d\<lparr>ddb_deliveries := AList.update (delivery_pk x)
       \<lparr>lrow_entity_version = v, lrow_as_of_revision = asOfRevision d, lrow_body = x\<rparr> (ddb_deliveries d)\<rparr>"
  then show ?thesis
    unfolding wrote_def
    by (intro disjI1 conjI exI [of _ "\<lparr>lrow_entity_version = v, lrow_as_of_revision = asOfRevision d, lrow_body = x\<rparr>"])
      simp_all
qed blast

lemma recompute_Inr:
  assumes ok: "rows_ok d" and ids: "\<And>r. map_of (ddb_items d) i = Some r \<Longrightarrow> itm_id (irow_item r) = i"
    and rc: "recomputeItemTiming env i d = Inr d'"
  obtains r where "map_of (ddb_items d) i = Some r"
    "\<exists>r'. irow_item r' = (irow_item r)\<lparr>itm_timing := TimingAggregates (deliveries_of d i)\<rparr>
       \<and> map_of (ddb_items d') = (map_of (ddb_items d))(i \<mapsto> r')
       \<and> (distinct_keys (ddb_items d) \<longrightarrow> distinct_keys (ddb_items d'))
       \<and> d' = d\<lparr>ddb_items := ddb_items d'\<rparr>"
proof -
  from rc obtain item where item: "GetAttentionItem env i d = Inr item"
    by (auto simp: recomputeItemTiming_def ebind_Inr_iff)
  then obtain r where r: "map_of (ddb_items d) i = Some r" "item = irow_item r"
    by (auto simp: GetAttentionItem_def of_err_Inr_iff split: option.split_asm)
  let ?next = "TimingAggregates (deliveries_of d i)"
  from rc item obtain same where same: "timingEqual (itm_timing item) ?next = Inr same"
    and rest: "(if same then Inr d else PutAttentionItemTiming env i ?next d) = Inr d'"
    by (auto simp: recomputeItemTiming_def ebind_Inr_iff ListAttentionDeliveries_ok [OF ok]
        deliveries_of_filter [OF ok] WithTiming_def of_err_Inr_iff)
  from same have same: "same \<longleftrightarrow> itm_timing item = ?next" by (auto simp: timingEqual_def split: if_split_asm)
  show thesis
  proof (cases same)
    case True
    with rest same r show ?thesis by (intro that [OF r(1)]) (auto simp: fun_eq_iff intro!: exI [of _ r])
  next
    case False
    have "item\<lparr>itm_timing := ?next\<rparr> \<noteq> item"
    proof
      assume "item\<lparr>itm_timing := ?next\<rparr> = item"
      then have "itm_timing (item\<lparr>itm_timing := ?next\<rparr>) = itm_timing item" by (rule arg_cong)
      with False same show False by simp
    qed
    with False rest item r(2) have d': "d' = d\<lparr>ddb_items := AList.update i
        \<lparr>irow_entity_version = irow_entity_version (the (map_of (ddb_items d) i)) + 1,
         irow_as_of_revision = asOfRevision d, irow_item = item\<lparr>itm_timing := ?next\<rparr>\<rparr> (ddb_items d)\<rparr>"
      using same by (auto simp: PutAttentionItemTiming_def Let_def split: option.split_asm if_split_asm)
    show ?thesis
      by (rule that [OF r(1)]) (use d' r(2) in \<open>auto simp: update_conv' tbl.keyed_upsert
          simp del: map_of_eq_Some_iff intro!: exI\<close>)
  qed
qed

section \<open>What the operations keep\<close>

definition ok_but :: "string \<Rightarrow> delivery_db \<Rightarrow> bool" where
  "ok_but i d \<longleftrightarrow> pair_db_ok (ddb_pairing d) \<and> distinct_keys (ddb_items d) \<and> rows_ok d
     \<and> (\<forall>j r. map_of (ddb_items d) j = Some r \<longrightarrow> itm_id (irow_item r) = j
          \<and> (j \<noteq> i \<longrightarrow> itm_timing (irow_item r) = TimingAggregates (deliveries_of d j)))
     \<and> (\<forall>j dev. \<exists>n. attempts_of d j dev = {1..n})"

lemma delivery_ok_but: "delivery_ok d \<longleftrightarrow> ok_but i d
    \<and> (\<forall>r. map_of (ddb_items d) i = Some r \<longrightarrow> itm_timing (irow_item r) = TimingAggregates (deliveries_of d i))"
  unfolding delivery_ok_def ok_but_def rows_ok_def by blast

lemma pair_db_ok_revision: "pair_db_ok p \<Longrightarrow> pair_db_ok (p\<lparr>pdb_revision := pdb_revision p + 1\<rparr>)"
  using pair_sound_revision by (simp add: pair_sound_def)

lemma delivery_ok_commit: "delivery_ok d \<Longrightarrow> delivery_ok (commit_revision d)"
proof -
  assume ok: "delivery_ok d"
  have "deliveries_of (commit_revision d) = deliveries_of d"
    by (rule deliveries_of_frame) (simp add: commit_revision_def)
  with delivery_okD [OF ok] show ?thesis
    unfolding delivery_ok_def attempts_of_def
    by (simp add: commit_revision_def asOfRevision_def pair_db_ok_revision del: map_of_eq_Some_iff)
qed

lemma recompute_ok:
  assumes ok: "ok_but i d" and rc: "recomputeItemTiming env i d = Inr d'"
  shows "delivery_ok d' \<and> ddb_deliveries d' = ddb_deliveries d \<and> ddb_pairing d' = ddb_pairing d"
proof -
  from ok have r: "rows_ok d" and ids: "\<And>r. map_of (ddb_items d) i = Some r \<Longrightarrow> itm_id (irow_item r) = i"
    by (auto simp: ok_but_def simp del: map_of_eq_Some_iff)
  from recompute_Inr [OF r ids rc] obtain q q' where q: "map_of (ddb_items d) i = Some q"
    and q': "irow_item q' = (irow_item q)\<lparr>itm_timing := TimingAggregates (deliveries_of d i)\<rparr>"
    and m: "map_of (ddb_items d') = (map_of (ddb_items d))(i \<mapsto> q')"
    and dk: "distinct_keys (ddb_items d) \<longrightarrow> distinct_keys (ddb_items d')"
    and d': "d' = d\<lparr>ddb_items := ddb_items d'\<rparr>" by metis
  from d' have f: "ddb_deliveries d' = ddb_deliveries d" "ddb_pairing d' = ddb_pairing d"
    by (metis delivery_db.select_convs(1,3) delivery_db.surjective delivery_db.update_convs(2))+
  have "ok_but i d'"
    using ok q q' m dk f deliveries_of_frame [OF f(1)]
    unfolding ok_but_def rows_ok_def attempts_of_def by (auto simp del: map_of_eq_Some_iff)
  moreover have "itm_timing (irow_item q') = TimingAggregates (deliveries_of d' i)"
    using q' deliveries_of_frame [OF f(1)] by simp
  ultimately show ?thesis using m f by (simp add: delivery_ok_but [of d' i])
qed

lemma Put_ok_but:
  assumes ok: "delivery_ok d" and p: "PutAttentionDelivery x d = Inr d'" and a: "is_int64 (dlv_attempt x)"
    and gap: "map_of (ddb_deliveries d) (delivery_pk x) = None \<Longrightarrow> dlv_channel x = channelNtfy \<Longrightarrow>
      attempts_of d (dlv_item_id x) (dlv_device_id x) = {1..dlv_attempt x - 1}"
  shows "ok_but (dlv_item_id x) d'"
proof -
  note D = delivery_okD [OF ok]
  from Put_wrote [OF delivery_ok_rows [OF ok] p] show ?thesis
  proof
    assume "d' = d \<and> (\<exists>r. map_of (ddb_deliveries d) (delivery_pk x) = Some r \<and> lrow_body r = x)"
    with ok delivery_ok_but show ?thesis by blast
  next
    assume "wrote d x d'"
    then obtain r' where v: "AttentionDelivery_Validate x = None" "map_of (ddb_items d) (dlv_item_id x) \<noteq> None"
      and r': "lrow_body r' = x" "1 \<le> lrow_entity_version r'" "lrow_as_of_revision r' = asOfRevision d"
      and d': "d' = d\<lparr>ddb_deliveries := AList.update (delivery_pk x) r' (ddb_deliveries d)\<rparr>"
      unfolding wrote_def by blast
    have fk: "fst (delivery_pk x) = dlv_item_id x" by (simp add: delivery_pk_def)
    have "0 \<le> pdb_revision (ddb_pairing d)" using D(1) by (simp add: pair_db_ok_def)
    then have new: "delivery_row_ok (delivery_pk x) r'"
      using v r' a by (simp add: delivery_row_ok_def asOfRevision_def)
    have att: "attempts_of d' j dev = (if dlv_channel x = channelNtfy \<and> j = dlv_item_id x \<and> dev = dlv_device_id x
        then insert (dlv_attempt x) (attempts_of d j dev) else attempts_of d j dev)" for j dev
      by (auto simp: attempts_of_def d' update_conv' delivery_pk_def)
    have "\<exists>n. attempts_of d' j dev = {1..n}" for j dev
    proof (cases "dlv_channel x = channelNtfy \<and> j = dlv_item_id x \<and> dev = dlv_device_id x")
      case True
      show ?thesis
      proof (cases "map_of (ddb_deliveries d) (delivery_pk x)")
        case None
        from v(1) have "1 \<le> dlv_attempt x" by (simp add: Delivery_valid_iff)
        with gap [OF None] True att show ?thesis by (intro exI [of _ "dlv_attempt x"]) auto
      next
        case (Some r)
        with True have "dlv_attempt x \<in> attempts_of d j dev" by (simp add: attempts_of_def delivery_pk_def)
        then have "attempts_of d' j dev = attempts_of d j dev" using att [of j dev] by auto
        with D(8) show ?thesis by simp
      qed
    qed (use att D(8) in auto)
    moreover have fk': "map_of (ddb_items d') (fst k) \<noteq> None" if "map_of (ddb_deliveries d') k = Some r" for k r
    proof (cases "k = delivery_pk x")
      case False
      with that have "map_of (ddb_deliveries d) k = Some r" by (simp add: d' update_conv')
      from D(5) [OF this] show ?thesis by (simp add: d')
    qed (use v(2) fk in \<open>simp add: d'\<close>)
    moreover have "rows_ok d'"
      using D(3,4) new fk' by (simp add: rows_ok_def d' tbl.keyed_upsert update_conv' del: map_of_eq_Some_iff not_None_eq)
    ultimately show ?thesis
      unfolding ok_but_def
      using D(1,2) D(6,7) deliveries_of_other [of "delivery_pk x"] fk
      by (simp add: d' del: map_of_eq_Some_iff not_None_eq)
  qed
qed

section \<open>The transactions\<close>

text \<open>The table only grows: rows stay, keep their identity and their receipts, and advance.\<close>

definition deliveries_grow :: "delivery_db \<Rightarrow> delivery_db \<Rightarrow> bool" where
  "deliveries_grow d d' \<longleftrightarrow> (\<forall>k r. map_of (ddb_deliveries d) k = Some r \<longrightarrow>
     (\<exists>r'. map_of (ddb_deliveries d') k = Some r' \<and> delivery_extends (lrow_body r) (lrow_body r')
        \<and> delivery_identity (lrow_body r') = delivery_identity (lrow_body r)))"

lemma deliveries_grow_refl: "ddb_deliveries d' = ddb_deliveries d \<Longrightarrow> deliveries_grow d d'"
  by (auto simp: deliveries_grow_def intro: delivery_history.extends_refl)

lemma deliveries_grow_trans: "deliveries_grow a b \<Longrightarrow> deliveries_grow b c \<Longrightarrow> deliveries_grow a c"
  unfolding deliveries_grow_def
proof (intro allI impI)
  fix k r
  assume ab: "\<forall>k r. map_of (ddb_deliveries a) k = Some r \<longrightarrow> (\<exists>r'. map_of (ddb_deliveries b) k = Some r'
      \<and> delivery_extends (lrow_body r) (lrow_body r') \<and> delivery_identity (lrow_body r') = delivery_identity (lrow_body r))"
    and bc: "\<forall>k r. map_of (ddb_deliveries b) k = Some r \<longrightarrow> (\<exists>r'. map_of (ddb_deliveries c) k = Some r'
      \<and> delivery_extends (lrow_body r) (lrow_body r') \<and> delivery_identity (lrow_body r') = delivery_identity (lrow_body r))"
    and r: "map_of (ddb_deliveries a) k = Some r"
  from ab r obtain s where s: "map_of (ddb_deliveries b) k = Some s" "delivery_extends (lrow_body r) (lrow_body s)"
    "delivery_identity (lrow_body s) = delivery_identity (lrow_body r)" by blast
  from bc s(1) obtain t where t: "map_of (ddb_deliveries c) k = Some t" "delivery_extends (lrow_body s) (lrow_body t)"
    "delivery_identity (lrow_body t) = delivery_identity (lrow_body s)" by blast
  from delivery_history.extends_trans [OF s(2) t(2)] s(3) t show "\<exists>r'. map_of (ddb_deliveries c) k = Some r'
      \<and> delivery_extends (lrow_body r) (lrow_body r') \<and> delivery_identity (lrow_body r') = delivery_identity (lrow_body r)"
    by auto
qed

lemma Put_grows:
  assumes "rows_ok d" and "PutAttentionDelivery x d = Inr d'"
  shows "deliveries_grow d d'"
  using Put_wrote [OF assms]
proof
  assume "wrote d x d'"
  then obtain r' where r': "lrow_body r' = x"
    and d': "d' = d\<lparr>ddb_deliveries := AList.update (delivery_pk x) r' (ddb_deliveries d)\<rparr>"
    and t: "\<forall>r. map_of (ddb_deliveries d) (delivery_pk x) = Some r \<longrightarrow>
      ValidateAttentionDeliveryTransition (lrow_body r) x = None" unfolding wrote_def by blast
  show ?thesis
    unfolding deliveries_grow_def
  proof (intro allI impI)
    fix k r assume r: "map_of (ddb_deliveries d) k = Some r"
    show "\<exists>r'. map_of (ddb_deliveries d') k = Some r' \<and> delivery_extends (lrow_body r) (lrow_body r')
        \<and> delivery_identity (lrow_body r') = delivery_identity (lrow_body r)"
    proof (cases "k = delivery_pk x")
      case True
      with t r have "ValidateAttentionDeliveryTransition (lrow_body r) x = None" by simp
      from delivery_history.step_extends [OF this] delivery_history.key_fixed [OF this] True r' show ?thesis
        by (auto simp: d' update_conv')
    qed (use r in \<open>auto simp: d' update_conv' intro: delivery_history.extends_refl\<close>)
  qed
qed (simp add: deliveries_grow_refl)

lemma put_recompute_sound:
  assumes ok: "delivery_ok d" and p: "PutAttentionDelivery x d = Inr d1" and a: "is_int64 (dlv_attempt x)"
    and gap: "map_of (ddb_deliveries d) (delivery_pk x) = None \<Longrightarrow> dlv_channel x = channelNtfy \<Longrightarrow>
      attempts_of d (dlv_item_id x) (dlv_device_id x) = {1..dlv_attempt x - 1}"
    and rc: "recomputeItemTiming env (dlv_item_id x) d1 = Inr d2"
  shows "delivery_ok (commit_revision d2) \<and> deliveries_grow d (commit_revision d2)
    \<and> (\<exists>r. map_of (ddb_deliveries (commit_revision d2)) (delivery_pk x) = Some r \<and> lrow_body r = x)"
proof -
  from recompute_ok [OF Put_ok_but [OF ok p a gap] rc] have ok2: "delivery_ok d2"
    and f: "ddb_deliveries d2 = ddb_deliveries d1" by simp_all
  have f': "ddb_deliveries (commit_revision d2) = ddb_deliveries d1" using f by (simp add: commit_revision_def)
  have "\<exists>r. map_of (ddb_deliveries d1) (delivery_pk x) = Some r \<and> lrow_body r = x"
    using Put_wrote [OF delivery_ok_rows [OF ok] p] by (auto simp: wrote_def update_conv')
  with f' delivery_ok_commit [OF ok2] Put_grows [OF delivery_ok_rows [OF ok] p]
  show ?thesis by (auto intro: deliveries_grow_trans [OF _ deliveries_grow_refl])
qed

lemma next_after_cases:
  "next_after ds = 1 \<or> (\<exists>x \<in> set ds. next_after ds = wrap64 (dlv_attempt x + 1))"
proof -
  have "foldl bump_attempt m ds = m \<or> (\<exists>x \<in> set ds. foldl bump_attempt m ds = wrap64 (dlv_attempt x + 1))" for m
  proof (induction ds arbitrary: m)
    case (Cons x ds)
    from Cons.IH [of "bump_attempt m x"] show ?case by (auto simp: bump_attempt_def split: if_split_asm)
  qed simp
  then show ?thesis by (simp add: next_after_def)
qed

lemma next_after_max:
  assumes "\<forall>x \<in> set ds. 1 \<le> dlv_attempt x \<and> dlv_attempt x < max_int64"
  shows "\<forall>x \<in> set ds. dlv_attempt x < next_after ds"
proof -
  have "m \<le> foldl bump_attempt m ds \<and> (\<forall>x \<in> set ds. dlv_attempt x < foldl bump_attempt m ds)" if "1 \<le> m" for m
    using assms that
  proof (induction ds arbitrary: m)
    case (Cons x ds)
    have w: "bump_attempt m x = (if m \<le> dlv_attempt x then dlv_attempt x + 1 else m)"
      using Cons.prems(1) by (simp add: bump_attempt_def min_int64_def)
    then have "1 \<le> bump_attempt m x" "dlv_attempt x < bump_attempt m x" "m \<le> bump_attempt m x"
      using Cons.prems by auto
    with Cons.IH [of "bump_attempt m x"] Cons.prems(1) show ?case by fastforce
  qed simp
  then show ?thesis by (simp add: next_after_def)
qed

lemma nextAttempt_Inr:
  assumes ok: "delivery_ok d" and n: "nextAttempt i dev d = Inr a"
  shows "is_int64 a"
    and "1 \<le> a \<Longrightarrow> map_of (ddb_deliveries d) (i, dev, channelNtfy, a) = None \<Longrightarrow> attempts_of d i dev = {1..a - 1}"
proof -
  note rows = delivery_ok_rows [OF ok]
  let ?ds = "filter (\<lambda>x. dlv_item_id x = i \<and> dlv_device_id x = dev \<and> dlv_channel x = channelNtfy)
    (map (\<lambda>kr. lrow_body (snd kr)) (sort_key fst (ddb_deliveries d)))"
  from n have a: "a = next_after ?ds" by (simp add: nextAttempt_def ListAttentionDeliveries_ok [OF rows])
  have mem: "dlv_attempt x \<in> attempts_of d i dev \<and> is_int64 (dlv_attempt x)" if "x \<in> set ?ds" for x
  proof -
    from that obtain k r where kr: "(k, r) \<in> set (ddb_deliveries d)" "x = lrow_body r"
      "dlv_item_id x = i" "dlv_device_id x = dev" "dlv_channel x = channelNtfy" by auto
    from rows_okD(3) [OF rows kr(1)] have "delivery_row_ok k r" .
    with kr in_table_iff [OF rows_okD(1) [OF rows], of k r] show ?thesis
      by (auto simp: delivery_row_ok_def delivery_pk_def attempts_of_def simp del: map_of_eq_Some_iff)
  qed
  from next_after_cases [of ?ds] a wrap64_range show "is_int64 a" by (auto simp: min_int64_def max_int64_def)
  obtain m where m: "attempts_of d i dev = {1..m}" using delivery_okD(8) [OF ok] by blast
  assume a1: "1 \<le> a" and free: "map_of (ddb_deliveries d) (i, dev, channelNtfy, a) = None"
  have "a \<notin> attempts_of d i dev" using free by (simp add: attempts_of_def)
  with m have fresh: "a \<notin> {1..m}" by simp
  from next_after_cases [of ?ds] show "attempts_of d i dev = {1..a - 1}"
  proof
    assume "next_after ?ds = 1"
    with a fresh m show ?thesis by auto
  next
    assume "\<exists>x \<in> set ?ds. next_after ?ds = wrap64 (dlv_attempt x + 1)"
    then obtain x where x: "x \<in> set ?ds" "a = wrap64 (dlv_attempt x + 1)" using a by auto
    from mem [OF x(1)] m have r: "1 \<le> dlv_attempt x" "dlv_attempt x \<le> m" "dlv_attempt x \<le> max_int64" by auto
    have "a = dlv_attempt x + 1"
    proof (cases "dlv_attempt x = max_int64")
      case True
      with x(2) have "a = min_int64" by (simp add: wrap64_def max_int64_def min_int64_def)
      with a1 show ?thesis by (simp add: min_int64_def)
    qed (use r x(2) in \<open>simp add: min_int64_def\<close>)
    with fresh r m show ?thesis by auto
  qed
qed

lemma submitTx_Inr:
  assumes s: "submitTx env i dev now1 now2 d = Inr (row, d')"
  obtains d1 d2 item where "gateActiveDevice dev (ddb_pairing d) = None" "GetAttentionItem env i d = Inr item"
    "itm_status item = StatusOpen" "env_snoozed env item (UTC now1) d = Inr False"
    "nextAttempt i dev d = Inr (dlv_attempt row)" "PutAttentionDelivery row d = Inr d1"
    "recomputeItemTiming env i d1 = Inr d2" "d' = commit_revision d2"
    "row = \<lparr>dlv_item_id = i, dlv_device_id = dev, dlv_channel = channelNtfy, dlv_attempt = dlv_attempt row,
       dlv_submitted_at = UTC now2, dlv_accepted_at = None, dlv_opened_at = None, dlv_status = DeliverySubmitted\<rparr>"
  using s by (auto simp: submitTx_def Let_def ebind_Inr_iff split: option.split_asm if_split_asm intro: that)

lemma submitTx_sound:
  assumes ok: "delivery_ok d" and s: "submitTx env i dev now1 now2 d = Inr (row, d')"
  shows "delivery_ok d' \<and> deliveries_grow d d'
    \<and> (\<exists>r. map_of (ddb_deliveries d') (delivery_pk row) = Some r \<and> lrow_body r = row)"
  using s
proof (rule submitTx_Inr)
  fix d1 d2 item
  assume n: "nextAttempt i dev d = Inr (dlv_attempt row)" and p: "PutAttentionDelivery row d = Inr d1"
    and rc: "recomputeItemTiming env i d1 = Inr d2" and d': "d' = commit_revision d2"
    and row: "row = \<lparr>dlv_item_id = i, dlv_device_id = dev, dlv_channel = channelNtfy, dlv_attempt = dlv_attempt row,
       dlv_submitted_at = UTC now2, dlv_accepted_at = None, dlv_opened_at = None, dlv_status = DeliverySubmitted\<rparr>"
  from row have f: "dlv_item_id row = i" "dlv_device_id row = dev" "delivery_pk row = (i, dev, channelNtfy, dlv_attempt row)"
    unfolding delivery_pk_def by (metis AttentionDelivery.select_convs(1,2,3))+
  have "AttentionDelivery_Validate row = None"
    using p PutAttentionDelivery_Inr [OF delivery_ok_rows [OF ok]] by blast
  then have "1 \<le> dlv_attempt row" by (simp add: Delivery_valid_iff)
  from put_recompute_sound [OF ok p nextAttempt_Inr(1) [OF ok n], of env d2] nextAttempt_Inr(2) [OF ok n this] f rc d'
  show ?thesis by simp
qed

text \<open>The two receipts: a stored attempt takes a new value of the same identity.\<close>

lemma receipt_sound:
  assumes ok: "delivery_ok d" and r: "map_of (ddb_deliveries d) k = Some r" and k: "delivery_pk x = k"
    and p: "PutAttentionDelivery x d = Inr d1" and rc: "recomputeItemTiming env (fst k) d1 = Inr d2"
  shows "delivery_ok (commit_revision d2) \<and> deliveries_grow d (commit_revision d2)
    \<and> (\<exists>r. map_of (ddb_deliveries (commit_revision d2)) k = Some r \<and> lrow_body r = x)"
proof -
  from delivery_okD(4) [OF ok r] k have "is_int64 (dlv_attempt x)"
    by (auto simp: delivery_row_ok_def delivery_pk_def)
  moreover have i: "dlv_item_id x = fst k" using k by (auto simp: delivery_pk_def)
  moreover have "attempts_of d (dlv_item_id x) (dlv_device_id x) = {1..dlv_attempt x - 1}"
    if "map_of (ddb_deliveries d) (delivery_pk x) = None" using r k that by simp
  ultimately show ?thesis
    using put_recompute_sound [OF ok p, of env d2] rc k by (metis (no_types, lifting))
qed

lemma acceptTx_sound:
  assumes ok: "delivery_ok d" and s: "acceptTx env i dev a now d = Inr (x, d')"
  shows "delivery_ok d' \<and> deliveries_grow d d'
    \<and> (\<exists>r. map_of (ddb_deliveries d') (i, dev, channelNtfy, a) = Some r \<and> lrow_body r = x)
    \<and> dlv_status x \<noteq> DeliverySubmitted"
proof -
  from s obtain cur where c: "GetAttentionDelivery (i, dev, channelNtfy, a) d = Inr cur"
    by (auto simp: acceptTx_def ebind_Inr_iff)
  then obtain r where r: "map_of (ddb_deliveries d) (i, dev, channelNtfy, a) = Some r" "lrow_body r = cur"
    using GetAttentionDelivery_Inr [OF delivery_ok_rows [OF ok]] by blast
  from delivery_okD(4) [OF ok r(1)] r(2) have k: "delivery_pk cur = (i, dev, channelNtfy, a)"
    by (simp add: delivery_row_ok_def)
  show ?thesis
  proof (cases "dlv_status cur = DeliverySubmitted")
    case False
    with s c r ok show ?thesis by (auto simp: acceptTx_def deliveries_grow_refl)
  next
    case True
    let ?x = "cur\<lparr>dlv_accepted_at := Some (UTC now), dlv_status := DeliveryChannelAccepted\<rparr>"
    from True s c obtain d1 d2 where "PutAttentionDelivery ?x d = Inr d1" "recomputeItemTiming env i d1 = Inr d2"
      "d' = commit_revision d2" "x = ?x"
      by (auto simp: acceptTx_def ebind_Inr_iff Let_def)
    moreover have "delivery_pk ?x = (i, dev, channelNtfy, a)" using k by (simp add: delivery_pk_def)
    ultimately show ?thesis using receipt_sound [OF ok r(1), of ?x d1 env d2] by simp
  qed
qed

lemma RecordDeliveryOpened_sound:
  assumes ok: "delivery_ok d" and s: "RecordDeliveryOpened env k now d = Inr (x, d')"
  shows "delivery_ok d' \<and> deliveries_grow d d'
    \<and> (\<exists>r. map_of (ddb_deliveries d') k = Some r \<and> lrow_body r = x) \<and> dlv_status x = DeliveryOpened"
proof -
  from s obtain cur where c: "GetAttentionDelivery k d = Inr cur"
    and g: "gateActiveDevice (fst (snd k)) (ddb_pairing d) = None"
    by (auto simp: RecordDeliveryOpened_def ebind_Inr_iff split: option.split_asm)
  then obtain r where r: "map_of (ddb_deliveries d) k = Some r" "lrow_body r = cur"
    using GetAttentionDelivery_Inr [OF delivery_ok_rows [OF ok]] by blast
  from delivery_okD(4) [OF ok r(1)] r(2) have k: "delivery_pk cur = k" by (simp add: delivery_row_ok_def)
  show ?thesis
  proof (cases "dlv_status cur = DeliveryOpened")
    case True
    with s c g r ok show ?thesis by (auto simp: RecordDeliveryOpened_def deliveries_grow_refl)
  next
    case False
    let ?x = "cur\<lparr>dlv_opened_at := Some (UTC now), dlv_status := DeliveryOpened\<rparr>"
    from False s c g obtain d1 d2 where "PutAttentionDelivery ?x d = Inr d1"
      "recomputeItemTiming env (fst k) d1 = Inr d2" "d' = commit_revision d2" "x = ?x"
      by (auto simp: RecordDeliveryOpened_def ebind_Inr_iff Let_def)
    moreover have "delivery_pk ?x = k" using k by (simp add: delivery_pk_def)
    ultimately show ?thesis using receipt_sound [OF ok r(1), of ?x d1 env d2] by simp
  qed
qed

section \<open>Runs\<close>

text \<open>
  Everything that touches the tables: the pipeline's transactions at any clock readings, the pairing
  service, and the other writers of items, which create an item without attempts or keep its timing
  (\<open>putAttentionItem\<close> restores the stored timing on every other update).
\<close>

inductive delivery_step :: "delivery_env \<Rightarrow> service \<Rightarrow> delivery_db \<Rightarrow> delivery_db \<Rightarrow> bool" for env s where
  step_submit: "submitTx env i dev now1 now2 d = Inr (row, d') \<Longrightarrow> delivery_step env s d d'"
| step_accept: "acceptTx env i dev a now d = Inr (x, d') \<Longrightarrow> delivery_step env s d d'"
| step_opened: "RecordDeliveryOpened env k now d = Inr (x, d') \<Longrightarrow> delivery_step env s d d'"
| step_pairing: "pairing_step s (ddb_pairing d) p \<Longrightarrow> delivery_step env s d (d\<lparr>ddb_pairing := p\<rparr>)"
| step_create: "map_of (ddb_items d) i = None \<Longrightarrow> itm_id (irow_item r) = i \<Longrightarrow>
    itm_timing (irow_item r) = TimingAggregates [] \<Longrightarrow>
    delivery_step env s d (d\<lparr>ddb_items := AList.update i r (ddb_items d)\<rparr>)"
| step_change: "map_of (ddb_items d) i = Some r \<Longrightarrow> itm_id (irow_item r') = itm_id (irow_item r) \<Longrightarrow>
    itm_timing (irow_item r') = itm_timing (irow_item r) \<Longrightarrow>
    delivery_step env s d (d\<lparr>ddb_items := AList.update i r' (ddb_items d)\<rparr>)"

inductive delivery_steps :: "delivery_env \<Rightarrow> service \<Rightarrow> delivery_db \<Rightarrow> delivery_db \<Rightarrow> bool" for env s where
  delivery_refl: "delivery_steps env s d d"
| delivery_trans: "delivery_step env s d d1 \<Longrightarrow> delivery_steps env s d1 d2 \<Longrightarrow> delivery_steps env s d d2"

lemma no_deliveries: "delivery_ok d \<Longrightarrow> map_of (ddb_items d) i = None \<Longrightarrow> deliveries_of d i = []"
proof -
  assume ok: "delivery_ok d" and n: "map_of (ddb_items d) i = None"
  have "x \<notin> set (deliveries_of d i)" for x
    using n delivery_okD(5) [OF ok] unfolding in_deliveries_of [OF delivery_ok_rows [OF ok]] by blast
  then show ?thesis by (cases "deliveries_of d i") auto
qed

lemma delivery_ok_items:
  assumes ok: "delivery_ok d" and r: "itm_id (irow_item r) = i" "itm_timing (irow_item r) = TimingAggregates (deliveries_of d i)"
  shows "delivery_ok (d\<lparr>ddb_items := AList.update i r (ddb_items d)\<rparr>)"
proof -
  note D = delivery_okD [OF ok]
  have "deliveries_of (d\<lparr>ddb_items := AList.update i r (ddb_items d)\<rparr>) = deliveries_of d"
    by (rule deliveries_of_frame) simp
  with D r show ?thesis
    unfolding delivery_ok_def attempts_of_def
    by (simp add: update_conv' tbl.keyed_upsert del: map_of_eq_Some_iff not_None_eq) (metis fst_conv)
qed

lemma delivery_step_sound:
  assumes "delivery_step env s d d'" and ok: "delivery_ok d"
  shows "delivery_ok d' \<and> deliveries_grow d d'"
  using assms(1)
proof cases
  case (step_pairing p)
  then have "pairing_steps s (ddb_pairing d) p" by (blast intro: pairing_steps.intros)
  from pairing_steps_ok [OF this delivery_okD(1) [OF ok]] have p: "pair_db_ok p" by simp
  have "deliveries_of (d\<lparr>ddb_pairing := p\<rparr>) = deliveries_of d" by (rule deliveries_of_frame) simp
  with delivery_okD [OF ok] p show ?thesis
    unfolding step_pairing(1) delivery_ok_def attempts_of_def
    by (simp add: deliveries_grow_refl del: map_of_eq_Some_iff)
next
  case (step_create i r)
  with delivery_ok_items [OF ok step_create(3)] no_deliveries [OF ok step_create(2)] show ?thesis
    by (simp add: deliveries_grow_refl)
next
  case (step_change i r r')
  with delivery_okD(6,7) [OF ok step_change(2)] delivery_ok_items [OF ok, of r' i] show ?thesis
    by (simp add: deliveries_grow_refl)
next
  case step_submit then show ?thesis using submitTx_sound [OF ok] by blast
next
  case step_accept then show ?thesis using acceptTx_sound [OF ok] by blast
next
  case step_opened then show ?thesis using RecordDeliveryOpened_sound [OF ok] by blast
qed

lemma delivery_steps_sound:
  assumes "delivery_steps env s d d'" and "delivery_ok d"
  shows "delivery_ok d' \<and> deliveries_grow d d'"
  using assms
proof (induction rule: delivery_steps.induct)
  case (delivery_trans d d1 d2)
  from delivery_step_sound [OF delivery_trans(1,4)] delivery_trans(3) show ?case
    by (blast intro: deliveries_grow_trans)
qed (simp add: deliveries_grow_refl)

text \<open>
  C24: however submissions, receipts, pairings, revocations and item updates interleave, the delivery
  tables stay well formed: the attempts of an item at a device are numbered 1, 2, 3, ... without gaps,
  every item's stored timing is exactly the summary of its attempts, and no attempt loses its
  identity, a receipt or its progress.
\<close>

theorem delivery_run_safe:
  assumes "delivery_steps env s d d'" and "delivery_ok d"
  shows "delivery_ok d' \<and> deliveries_grow d d'"
  by (rule delivery_steps_sound [OF assms])

section \<open>What the sender owes\<close>

definition ntfy_rows :: "AttentionDelivery list \<Rightarrow> string \<times> string \<Rightarrow> AttentionDelivery list" where
  "ntfy_rows ds key = filter (\<lambda>x. dlv_channel x = channelNtfy \<and> (dlv_item_id x, dlv_device_id x) = key) ds"

definition reported :: "AttentionDelivery \<Rightarrow> bool" where
  "reported x \<longleftrightarrow> dlv_status x \<in> {DeliveryChannelAccepted, DeliveryOpened}"

definition note_row :: "sender_history \<Rightarrow> AttentionDelivery \<Rightarrow> sender_history" where
  "note_row h x = (let h1 = (if reported x then h\<lparr>his_settled := True\<rparr> else h) in
     if his_attempts h1 < dlv_attempt x
     then h1\<lparr>his_attempts := dlv_attempt x, his_last_submitted := dlv_submitted_at x\<rparr> else h1)"

lemma note_delivery_row:
  "note_delivery hs x = (if dlv_channel x = channelNtfy
     then hs((dlv_item_id x, dlv_device_id x) \<mapsto>
       note_row (case hs (dlv_item_id x, dlv_device_id x) of None \<Rightarrow> new_history | Some h \<Rightarrow> h) x) else hs)"
  by (cases "dlv_status x") (simp_all add: note_delivery_def note_row_def reported_def Let_def)

lemma foldl_note: "foldl note_delivery hs ds key =
    (if ntfy_rows ds key = [] then hs key
     else Some (foldl note_row (case hs key of None \<Rightarrow> new_history | Some h \<Rightarrow> h) (ntfy_rows ds key)))"
proof (induction ds arbitrary: hs)
  case (Cons x ds)
  have n: "note_delivery hs x key = (if dlv_channel x = channelNtfy \<and> (dlv_item_id x, dlv_device_id x) = key
      then Some (note_row (case hs key of None \<Rightarrow> new_history | Some h \<Rightarrow> h) x) else hs key)"
    by (simp add: note_delivery_row [of hs x])
  show ?case
    by (simp add: Cons.IH [of "note_delivery hs x"] n) (simp add: ntfy_rows_def)
qed (simp add: ntfy_rows_def)

lemma foldl_note_row:
  assumes "\<forall>x \<in> set rows. 1 \<le> dlv_attempt x"
  shows "(his_settled (foldl note_row h rows) \<longleftrightarrow> his_settled h \<or> (\<exists>x \<in> set rows. reported x))
    \<and> his_attempts h \<le> his_attempts (foldl note_row h rows)
    \<and> (\<forall>x \<in> set rows. dlv_attempt x \<le> his_attempts (foldl note_row h rows))
    \<and> ((his_attempts (foldl note_row h rows) = his_attempts h
          \<and> his_last_submitted (foldl note_row h rows) = his_last_submitted h)
       \<or> (\<exists>x \<in> set rows. his_attempts (foldl note_row h rows) = dlv_attempt x
          \<and> his_last_submitted (foldl note_row h rows) = dlv_submitted_at x))"
  using assms
proof (induction rows arbitrary: h)
  case (Cons x rows)
  have n: "his_settled (note_row h x) \<longleftrightarrow> his_settled h \<or> reported x"
    "his_attempts (note_row h x) = max (his_attempts h) (dlv_attempt x)"
    "his_last_submitted (note_row h x)
      = (if his_attempts h < dlv_attempt x then dlv_submitted_at x else his_last_submitted h)"
    by (simp_all add: note_row_def Let_def)
  from Cons.prems have "\<forall>y \<in> set rows. 1 \<le> dlv_attempt y" by simp
  from Cons.IH [OF this, of "note_row h x"] show ?case
    by (simp only: n foldl_Cons list.set) (auto simp: max_def split: if_split_asm)
qed simp

definition owes :: "AttentionDelivery list \<Rightarrow> gotime \<Rightarrow> AttentionItem \<Rightarrow> Device \<Rightarrow> bool" where
  "owes ds now item dev \<longleftrightarrow> itm_status item = StatusOpen \<and> dev_status dev = DeviceActive
     \<and> (\<forall>t. itm_created_at item = Some t \<longrightarrow> \<not> Before t (dev_paired_at dev))
     \<and> (let rows = ntfy_rows ds (itm_id item, dev_id dev) in
         (\<forall>x \<in> set rows. dlv_status x = DeliverySubmitted \<and> dlv_attempt x < 6)
         \<and> (\<forall>x \<in> set rows. (\<forall>y \<in> set rows. dlv_attempt y \<le> dlv_attempt x) \<longrightarrow>
              unix_ns (dlv_submitted_at x) + 60 * second_ns * 2 ^ nat (dlv_attempt x - 1) \<le> unix_ns now))"

lemma deliveryRetryWait_small:
  assumes "1 \<le> n" and "n < 6" shows "deliveryRetryWait n = Inr (60 * second_ns * 2 ^ nat (n - 1))"
proof -
  from assms have "n \<in> {1, 2, 3, 4, 5}" by auto
  moreover have "\<forall>n \<in> {1, 2, 3, 4, 5}. deliveryRetryWait n = Inr (60 * second_ns * 2 ^ nat (n - 1))"
    by (simp add: deliveryRetryWait_def firstDeliveryRetryWait_def wrap64_def)
  ultimately show ?thesis by blast
qed

lemma pair_owed_exact:
  assumes v: "\<forall>x \<in> set ds. AttentionDelivery_Validate x = None" and dk: "distinct (map delivery_pk ds)"
  shows "pair_owed (foldl note_delivery (\<lambda>_. None) ds) now (item, dev) = Inr (owes ds now item dev)"
proof -
  let ?rows = "ntfy_rows ds (itm_id item, dev_id dev)"
  let ?gates = "itm_status item = StatusOpen \<and> dev_status dev = DeviceActive
     \<and> (\<forall>t. itm_created_at item = Some t \<longrightarrow> \<not> Before t (dev_paired_at dev))"
  have a1: "\<forall>x \<in> set ?rows. 1 \<le> dlv_attempt x" using v by (auto simp: ntfy_rows_def Delivery_valid_iff)
  have st: "\<forall>x \<in> set ?rows. reported x \<or> dlv_status x = DeliverySubmitted"
    using v by (auto simp: ntfy_rows_def Delivery_valid_iff reported_def)
  show ?thesis
  proof (cases ?gates)
    case False
    then show ?thesis by (auto simp: pair_owed_def owes_def split: option.split)
  next
    case True
    show ?thesis
    proof (cases "?rows = []")
      case True
      with \<open>?gates\<close> show ?thesis
        by (auto simp: pair_owed_def owes_def foldl_note Let_def split: option.split)
    next
      case ne: False
      let ?h = "foldl note_row new_history ?rows"
      note H = foldl_note_row [OF a1, of new_history]
      obtain x where x: "x \<in> set ?rows" "his_attempts ?h = dlv_attempt x" "his_last_submitted ?h = dlv_submitted_at x"
      proof -
        from ne obtain y where "y \<in> set ?rows" by (cases ?rows) auto
        with H a1 have "his_attempts ?h \<noteq> his_attempts new_history" by (force simp: new_history_def)
        with H that show thesis by blast
      qed
      have max: "\<forall>y \<in> set ?rows. dlv_attempt y \<le> dlv_attempt x" using H x(2) by simp
      have uniq: "y = x" if "y \<in> set ?rows" "\<forall>z \<in> set ?rows. dlv_attempt z \<le> dlv_attempt y" for y
      proof -
        from that max x(1) have "dlv_attempt y = dlv_attempt x" by (meson order_antisym)
        with that(1) x(1) have "delivery_pk y = delivery_pk x" "y \<in> set ds" "x \<in> set ds"
          by (auto simp: ntfy_rows_def delivery_pk_def)
        with dk show ?thesis by (auto simp: distinct_map dest: inj_onD)
      qed
      have settled: "his_settled ?h \<longleftrightarrow> (\<exists>y \<in> set ?rows. dlv_status y \<noteq> DeliverySubmitted)"
      proof -
        have "reported y \<longleftrightarrow> dlv_status y \<noteq> DeliverySubmitted" if "y \<in> set ?rows" for y
          using st that by (auto simp: reported_def)
        moreover have "his_settled ?h \<longleftrightarrow> (\<exists>y \<in> set ?rows. reported y)"
          using H by (simp add: new_history_def)
        ultimately show ?thesis by blast
      qed
      have o: "owes ds now item dev \<longleftrightarrow> \<not> his_settled ?h \<and> dlv_attempt x < 6
          \<and> unix_ns (dlv_submitted_at x) + 60 * second_ns * 2 ^ nat (dlv_attempt x - 1) \<le> unix_ns now"
        (is "_ \<longleftrightarrow> _ \<and> _ \<and> ?waited x")
      proof -
        have "owes ds now item dev \<longleftrightarrow> (\<forall>y \<in> set ?rows. dlv_status y = DeliverySubmitted \<and> dlv_attempt y < 6)
            \<and> (\<forall>y \<in> set ?rows. (\<forall>z \<in> set ?rows. dlv_attempt z \<le> dlv_attempt y) \<longrightarrow> ?waited y)"
          using \<open>?gates\<close> by (simp add: owes_def Let_def)
        moreover have "(\<forall>y \<in> set ?rows. dlv_attempt y < 6) \<longleftrightarrow> dlv_attempt x < 6"
          using max x(1) by (meson order_le_less_trans)
        moreover have "(\<forall>y \<in> set ?rows. (\<forall>z \<in> set ?rows. dlv_attempt z \<le> dlv_attempt y) \<longrightarrow> ?waited y) \<longleftrightarrow> ?waited x"
          using max uniq x(1) by metis
        ultimately show ?thesis unfolding settled by blast
      qed
      have p: "pair_owed (foldl note_delivery (\<lambda>_. None) ds) now (item, dev) =
          (if his_settled ?h \<or> 6 \<le> dlv_attempt x then Inr False
           else ebind (deliveryRetryWait (dlv_attempt x)) (\<lambda>w. Inr (\<not> Before now (Add (dlv_submitted_at x) w))))"
        using \<open>?gates\<close> ne x(2,3) by (auto simp: pair_owed_def foldl_note maxDeliveryAttempts_def split: option.split)
      show ?thesis
      proof (cases "his_settled ?h \<or> 6 \<le> dlv_attempt x")
        case True
        then show ?thesis unfolding p o by (simp only: if_True) auto
      next
        case False
        with a1 x(1) have w: "deliveryRetryWait (dlv_attempt x) = Inr (60 * second_ns * 2 ^ nat (dlv_attempt x - 1))"
          by (intro deliveryRetryWait_small) auto
        from False show ?thesis unfolding p o w by (simp add: Before_def not_less del: foldl.simps)
      qed
    qed
  qed
qed

lemma collect_owed_total: "(\<And>p. p \<in> set ps \<Longrightarrow> owed p = Inr (f p)) \<Longrightarrow>
    collect_owed owed ps = Inr (map (\<lambda>p. (itm_id (fst p), dev_id (snd p))) (filter f ps))"
  by (induction ps) auto

text \<open>
  C26: the sender owes exactly the pairs of an open item and an active device paired no later than the
  item, all of whose attempts failed, of which there were fewer than six, and the last of which is
  1, 2, 4, 8 or 16 minutes old: an accepted or opened attempt settles the pair for good. It never
  panics.
\<close>

theorem owedDeliveries_exact:
  assumes "\<forall>x \<in> set ds. AttentionDelivery_Validate x = None" and "distinct (map delivery_pk ds)"
  shows "\<exists>owed. owedDeliveries items devices ds now = Inr owed
    \<and> (\<forall>p. p \<in> set owed \<longleftrightarrow> (\<exists>item \<in> set items. \<exists>dev \<in> set devices.
         p = (itm_id item, dev_id dev) \<and> owes ds now item dev))"
proof -
  have "pair_owed (foldl note_delivery (\<lambda>_. None) ds) now p = Inr (owes ds now (fst p) (snd p))" for p
    using pair_owed_exact [OF assms, of now "fst p" "snd p"] by simp
  from collect_owed_total [of "List.product items devices" _ "\<lambda>p. owes ds now (fst p) (snd p)", OF this]
  have "owedDeliveries items devices ds now = Inr (map (\<lambda>p. (itm_id (fst p), dev_id (snd p)))
      (filter (\<lambda>p. owes ds now (fst p) (snd p)) (List.product items devices)))"
    by (simp add: owedDeliveries_def)
  moreover have "q \<in> set (map (\<lambda>p. (itm_id (fst p), dev_id (snd p)))
      (filter (\<lambda>p. owes ds now (fst p) (snd p)) (List.product items devices)))
    \<longleftrightarrow> (\<exists>item \<in> set items. \<exists>dev \<in> set devices. q = (itm_id item, dev_id dev) \<and> owes ds now item dev)" for q
    by force
  ultimately show ?thesis by blast
qed

section \<open>The lifecycle is honest\<close>

lemma submitTx_row: "submitTx env i dev now1 now2 d = Inr (row, d') \<Longrightarrow>
    dlv_status row = DeliverySubmitted \<and> delivery_pk row = (i, dev, channelNtfy, dlv_attempt row)"
  by (auto simp: submitTx_def Let_def ebind_Inr_iff delivery_pk_def split: option.split_asm if_split_asm)

definition stored :: "delivery_db \<Rightarrow> AttentionDelivery \<Rightarrow> bool" where
  "stored d x \<longleftrightarrow> (\<exists>r. map_of (ddb_deliveries d) (delivery_pk x) = Some r \<and> lrow_body r = x)"

text \<open>What the environment may do: snoozes and the publish leave the tables to other transactions.\<close>

definition sound_env :: "delivery_env \<Rightarrow> service
    \<Rightarrow> (AttentionDelivery \<Rightarrow> delivery_db \<Rightarrow> err option \<times> delivery_db) \<Rightarrow> bool" where
  "sound_env env s send \<longleftrightarrow> (\<forall>t d d'. env_converge_snoozes env t d = Inr d' \<longrightarrow> delivery_steps env s d d')
     \<and> (\<forall>row d. delivery_steps env s d (snd (send row d)))"

text \<open>
  C25: a submission is recorded before it is sent and claims no more than happened: the row handed to
  the channel is already stored as submitted; when the channel refuses it the row stays as it is; when
  the call returns without error the channel accepted, and the stored row says accepted (or opened).
\<close>

theorem SubmitDelivery_honest:
  assumes "delivery_ok d" and "sound_env env s send"
    and "SubmitDelivery env send clk i dev d = ((Some x, r), d')"
  shows "delivery_ok d' \<and> (\<exists>row d1. delivery_ok d1 \<and> stored d1 row \<and> dlv_status row = DeliverySubmitted
    \<and> delivery_pk x = delivery_pk row \<and> fst (delivery_pk row) = i
    \<and> (r = None \<longleftrightarrow> fst (send row d1) = None)
    \<and> (r \<noteq> None \<longrightarrow> x = row \<and> d' = snd (send row d1))
    \<and> (r = None \<longrightarrow> stored d' x \<and> dlv_status x \<noteq> DeliverySubmitted))"
proof -
  from assms(3) obtain d0 row d1 where c: "env_converge_snoozes env (UTC (clk 0)) d = Inr d0"
    and sub: "submitTx env i dev (clk 1) (clk 2) d0 = Inr (row, d1)"
    and rest: "(case send row d1 of
           (Some e, d2) \<Rightarrow> ((Some row, Some e), d2)
         | (None, d2) \<Rightarrow> (case acceptTx env i dev (dlv_attempt row) (clk 3) d2 of
             Inl e \<Rightarrow> ((None, Some e), d2)
           | Inr (accepted, d3) \<Rightarrow> ((Some accepted, None), d3))) = ((Some x, r), d')"
    by (auto simp: SubmitDelivery_def split: option.split_asm sum.split_asm prod.split_asm)
  have ok0: "delivery_ok d0" using delivery_steps_sound [OF _ assms(1)] c assms(2) unfolding sound_env_def by blast
  from submitTx_sound [OF ok0 sub] have ok1: "delivery_ok d1" and st: "stored d1 row"
    by (auto simp: stored_def)
  from sub have row: "dlv_status row = DeliverySubmitted" "delivery_pk row = (i, dev, channelNtfy, dlv_attempt row)"
    using submitTx_row [OF sub] by simp_all
  obtain q d2 where snd: "send row d1 = (q, d2)" by fastforce
  have ok2: "delivery_ok d2" using delivery_steps_sound ok1 assms(2) snd
    unfolding sound_env_def by (metis snd_conv)
  show ?thesis
  proof (cases q)
    case (Some e)
    with rest snd ok2 ok1 st row show ?thesis by (auto intro!: exI [of _ row] exI [of _ d1])
  next
    case None
    with rest snd obtain y d3 where a: "acceptTx env i dev (dlv_attempt row) (clk 3) d2 = Inr (y, d3)"
      and r: "x = y" "r = None" "d' = d3" by (auto split: sum.split_asm)
    from acceptTx_sound [OF ok2 a] obtain w where w: "delivery_ok d3" "dlv_status y \<noteq> DeliverySubmitted"
      "map_of (ddb_deliveries d3) (i, dev, channelNtfy, dlv_attempt row) = Some w" "lrow_body w = y" by blast
    from delivery_okD(4) [OF w(1,3)] w(4) have "delivery_pk y = delivery_pk row"
      by (simp add: delivery_row_ok_def row(2))
    with w row have "stored d3 y" by (simp add: stored_def)
    with \<open>delivery_pk y = delivery_pk row\<close> w r None snd ok1 st row show ?thesis
      by (auto intro!: exI [of _ row] exI [of _ d1])
  qed
qed

text \<open>
  An opened receipt is recorded once: whatever runs follow, reporting it again from the still active
  device returns the recorded row with the same instant and writes nothing, not even a revision.
\<close>

theorem opened_receipt_once:
  assumes "delivery_ok d" and "RecordDeliveryOpened env k now d = Inr (x, d1)"
    and "delivery_steps env s d1 d2" and "gateActiveDevice (fst (snd k)) (ddb_pairing d2) = None"
  shows "\<exists>y. RecordDeliveryOpened env k now2 d2 = Inr (y, d2) \<and> delivery_pk y = k
    \<and> dlv_status y = DeliveryOpened \<and> timePtrEqual (dlv_opened_at y) (dlv_opened_at x)"
proof -
  from RecordDeliveryOpened_sound [OF assms(1,2)] obtain r where ok1: "delivery_ok d1"
    and r: "map_of (ddb_deliveries d1) k = Some r" "lrow_body r = x" and op: "dlv_status x = DeliveryOpened" by blast
  from delivery_okD(4) [OF ok1 r(1)] r(2) op have ot: "dlv_opened_at x \<noteq> None"
    by (auto simp: delivery_row_ok_def Delivery_valid_iff)
  from delivery_steps_sound [OF assms(3) ok1] have ok2: "delivery_ok d2" and g: "deliveries_grow d1 d2" by simp_all
  from g r obtain q where q: "map_of (ddb_deliveries d2) k = Some q" "delivery_extends x (lrow_body q)"
    unfolding deliveries_grow_def by blast
  have "dlv_status (lrow_body q) = DeliveryOpened"
    using q(2) op by (cases "dlv_status (lrow_body q)") (auto simp: delivery_extends_def)
  moreover have "GetAttentionDelivery k d2 = Inr (lrow_body q)"
    using q(1) GetAttentionDelivery_Inr [OF delivery_ok_rows [OF ok2]] by blast
  moreover have "delivery_pk (lrow_body q) = k" using delivery_okD(4) [OF ok2 q(1)] by (simp add: delivery_row_ok_def)
  ultimately show ?thesis using q(2) ot assms(4) by (simp add: RecordDeliveryOpened_def delivery_extends_def)
qed

section \<open>A concrete run\<close>

text \<open>One active device and one open item; an attempt is submitted, accepted and opened.\<close>

definition example_env :: delivery_env where
  "example_env = \<lparr>env_ntfy = Some None, env_item_gate = (\<lambda>_ _. None), env_converge_snoozes = (\<lambda>_ d. Inr d),
     env_snoozed = (\<lambda>_ _ _. Inr False)\<rparr>"

definition example_send :: "AttentionDelivery \<Rightarrow> delivery_db \<Rightarrow> err option \<times> delivery_db" where
  "example_send row d = (None, d)"

definition example_device :: Device where
  "example_device = \<lparr>dev_id = ''0102'', dev_display_name = ''phone'', dev_status = DeviceActive,
     dev_paired_at = UnixZero 60, dev_revoked_at = None\<rparr>"

definition example_item :: AttentionItem where
  "example_item = \<lparr>itm_id = ''item-1'', itm_version = 1, itm_status = StatusOpen,
     itm_created_at = Some (UnixZero 80), itm_timing = TimingAggregates [], itm_rest = []\<rparr>"

definition delivery_start :: delivery_db where
  "delivery_start = \<lparr>ddb_pairing = empty_pairing\<lparr>pdb_devices := [(''0102'', device_columns example_device 1 1)],
       pdb_revision := 1\<rparr>,
     ddb_items = [(''item-1'', \<lparr>irow_entity_version = 1, irow_as_of_revision = 1, irow_item = example_item\<rparr>)],
     ddb_deliveries = []\<rparr>"

definition example_submitted :: "AttentionDelivery \<times> delivery_db" where
  "example_submitted = projr (submitTx example_env ''item-1'' ''0102'' (UnixZero 100) (UnixZero 100) delivery_start)"

definition example_receipt :: "AttentionDelivery \<times> delivery_db" where
  "example_receipt = projr (RecordDeliveryOpened example_env (''item-1'', ''0102'', ''ntfy'', 1) (UnixZero 190)
     (snd example_submitted))"

lemma delivery_start_ok: "delivery_ok delivery_start"
proof -
  have "Device_Validate example_device = None" by code_simp
  then have "pair_db_ok (ddb_pairing delivery_start)"
    by (simp add: delivery_start_def pair_db_ok_def empty_pairing_def device_row_ok_def device_columns_def
        example_device_def)
  moreover have "\<exists>n :: int. attempts_of delivery_start i dev = {1..n}" for i dev
    by (rule exI [of _ 0]) (simp add: attempts_of_def delivery_start_def)
  ultimately show ?thesis
    unfolding delivery_ok_def by (auto simp: delivery_start_def example_item_def deliveries_of_def)
qed

lemma example_submission:
  "submitTx example_env ''item-1'' ''0102'' (UnixZero 100) (UnixZero 100) delivery_start
     = Inr (fst example_submitted, snd example_submitted)"
proof -
  have "\<not> isl (submitTx example_env ''item-1'' ''0102'' (UnixZero 100) (UnixZero 100) delivery_start)" by code_simp
  from projr_not_isl [OF this] show ?thesis by (simp add: example_submitted_def)
qed

lemma example_receipt_recorded:
  "RecordDeliveryOpened example_env (''item-1'', ''0102'', ''ntfy'', 1) (UnixZero 190) (snd example_submitted)
     = Inr (fst example_receipt, snd example_receipt)"
proof -
  have "\<not> isl (RecordDeliveryOpened example_env (''item-1'', ''0102'', ''ntfy'', 1) (UnixZero 190) (snd example_submitted))"
    by code_simp
  from projr_not_isl [OF this] show ?thesis by (simp add: example_receipt_def)
qed

lemma example_submitted_ok: "delivery_ok (snd example_submitted)"
  using submitTx_sound [OF delivery_start_ok example_submission] by blast

theorem delivery_run_safe_witness:
  "delivery_ok (snd example_receipt) \<and> deliveries_grow delivery_start (snd example_receipt)"
proof -
  have "delivery_steps example_env example_service delivery_start (snd example_receipt)"
    using example_submission example_receipt_recorded by (blast intro: delivery_steps.intros delivery_step.intros)
  from delivery_run_safe [OF this delivery_start_ok] show ?thesis .
qed

theorem owedDeliveries_exact_witness:
  "\<exists>owed. owedDeliveries [example_item] [example_device] [example_delivery] (UnixZero (60 * second_ns + 100)) = Inr owed
    \<and> (''item-1'', ''0102'') \<in> set owed"
proof -
  from owedDeliveries_exact [of "[example_delivery]" "[example_item]" "[example_device]" "UnixZero (60 * second_ns + 100)"]
  obtain owed where "owedDeliveries [example_item] [example_device] [example_delivery] (UnixZero (60 * second_ns + 100)) = Inr owed"
    "\<forall>p. p \<in> set owed \<longleftrightarrow> p = (itm_id example_item, dev_id example_device)
       \<and> owes [example_delivery] (UnixZero (60 * second_ns + 100)) example_item example_device"
    using example_delivery_valid(1) by auto
  moreover have "owes [example_delivery] (UnixZero (60 * second_ns + 100)) example_item example_device"
    by (simp add: owes_def ntfy_rows_def example_delivery_def example_item_def example_device_def channelNtfy_def Before_def)
  ultimately show ?thesis by (simp add: example_item_def example_device_def)
qed

theorem SubmitDelivery_honest_witness:
  "let out = SubmitDelivery example_env example_send (\<lambda>_. UnixZero 100) ''item-1'' ''0102'' delivery_start
   in snd (fst out) = None \<and> (\<exists>x. fst (fst out) = Some x \<and> stored (snd out) x \<and> dlv_status x \<noteq> DeliverySubmitted)"
proof -
  let ?out = "SubmitDelivery example_env example_send (\<lambda>_. UnixZero 100) ''item-1'' ''0102'' delivery_start"
  have "sound_env example_env example_service example_send"
    by (simp add: sound_env_def example_env_def example_send_def delivery_refl)
  moreover have n: "snd (fst ?out) = None \<and> fst (fst ?out) \<noteq> None" by code_simp
  then obtain x where x: "?out = ((Some x, None), snd ?out)" by (metis not_None_eq prod.collapse)
  ultimately show ?thesis
    using SubmitDelivery_honest [OF delivery_start_ok _ x] n x unfolding Let_def by (metis fst_conv snd_conv)
qed

theorem opened_receipt_once_witness:
  "\<exists>y. RecordDeliveryOpened example_env (''item-1'', ''0102'', ''ntfy'', 1) (UnixZero 500) (snd example_receipt)
     = Inr (y, snd example_receipt) \<and> dlv_status y = DeliveryOpened"
proof -
  have "gateActiveDevice (fst (snd (''item-1'', ''0102'', ''ntfy'', 1 :: int))) (ddb_pairing (snd example_receipt)) = None"
    by code_simp
  from opened_receipt_once [OF example_submitted_ok example_receipt_recorded delivery_refl this] show ?thesis by blast
qed

end
