(* ===== verification/GoText.thy ===== *)
theory GoText
  imports GoStrings GoTime
begin

text \<open>
  Text of Go programs: \<open>strings.Split\<close> and \<open>strings.Join\<close> around a one-byte separator and the
  decimal numerals of \<open>strconv\<close>. \<open>Atoi\<close> models the value \<open>strconv.Atoi\<close> returns for a run of
  digits when its error is ignored: the number, clamped at the largest 64-bit integer.
\<close>

section \<open>Splitting\<close>

fun Split :: "string \<Rightarrow> char \<Rightarrow> string list" where
  "Split [] c = [[]]"
| "Split (x # xs) c = (if x = c then [] # Split xs c
     else (case Split xs c of [] \<Rightarrow> [[x]] | y # ys \<Rightarrow> (x # y) # ys))"

text \<open>A text of lines, each ended by the separator.\<close>

definition unlines :: "char \<Rightarrow> string list \<Rightarrow> string" where
  "unlines c ls = concat (map (\<lambda>l. l @ [c]) ls)"

lemma unlines_simps [simp]: "unlines c [] = []" "unlines c (l # ls) = l @ c # unlines c ls"
  by (simp_all add: unlines_def)

lemma unlines_append: "unlines c (xs @ ys) = unlines c xs @ unlines c ys"
  by (simp add: unlines_def)

lemma Split_not_Nil [simp]: "Split s c \<noteq> []"
  by (induction s) (auto split: list.split)

lemma Split_line: "c \<notin> set l \<Longrightarrow> Split (l @ c # s) c = l # Split s c"
  by (induction l) auto

lemma Split_unlines: "\<forall>l \<in> set ls. c \<notin> set l \<Longrightarrow> Split (unlines c ls) c = ls @ [[]]"
  by (induction ls) (simp_all add: Split_line)

section \<open>Decimal numerals\<close>

definition is_digit :: "char \<Rightarrow> bool" where
  "is_digit c \<longleftrightarrow> CHR ''0'' \<le> c \<and> c \<le> CHR ''9''"

definition digit :: "nat \<Rightarrow> char" where "digit n = char_of (48 + n)"

definition digit_value :: "char \<Rightarrow> nat" where "digit_value c = of_char c - 48"

fun decimal :: "nat \<Rightarrow> string" where
  "decimal n = (if n < 10 then [digit n] else decimal (n div 10) @ [digit (n mod 10)])"

declare decimal.simps [simp del]

definition numeral_value :: "string \<Rightarrow> nat" where
  "numeral_value s = foldl (\<lambda>v c. 10 * v + digit_value c) 0 s"

definition Atoi :: "string \<Rightarrow> int" where
  "Atoi s = min (int (numeral_value s)) max_int64"

lemma digit_props: "n < 10 \<Longrightarrow> is_digit (digit n)" "n < 10 \<Longrightarrow> digit_value (digit n) = n"
  by (simp_all add: is_digit_def digit_def digit_value_def less_eq_char_def)

lemma decimal_digits: "c \<in> set (decimal n) \<Longrightarrow> is_digit c"
proof (induction n rule: decimal.induct)
  case (1 n)
  show ?case
  proof (cases "n < 10")
    case False
    with 1 show ?thesis by (auto simp: decimal.simps [of n] digit_props(1))
  qed (use 1 in \<open>auto simp: decimal.simps [of n] digit_props(1)\<close>)
qed

lemma decimal_not_Nil [simp]: "decimal n \<noteq> []"
  by (simp add: decimal.simps [of n])

lemma numeral_value_decimal [simp]: "numeral_value (decimal n) = n"
proof (induction n rule: decimal.induct)
  case (1 n)
  then show ?case by (simp add: decimal.simps [of n] numeral_value_def digit_props(2))
qed

lemma Atoi_decimal: "int n \<le> max_int64 \<Longrightarrow> Atoi (decimal n) = int n"
  by (simp add: Atoi_def)

lemma Atoi_nonneg: "0 \<le> Atoi s" and Atoi_max: "Atoi s \<le> max_int64"
  by (simp_all add: Atoi_def max_int64_def)

text \<open>Reading the digits at the head of a string.\<close>

definition digits :: "string \<Rightarrow> string \<times> string" where
  "digits s = (takeWhile is_digit s, dropWhile is_digit s)"

lemma digits_decimal: "(s = [] \<or> \<not> is_digit (hd s)) \<Longrightarrow> digits (decimal n @ s) = (decimal n, s)"
  using decimal_digits by (cases s) (auto simp: digits_def takeWhile_append dropWhile_append)

end
