(* ===== verification/DiffScope.thy ===== *)
theory DiffScope
  imports GoText
begin

text \<open>
  \<open>daemon/internal/diffscope/diffscope.go\<close>: the overlap check that decides whether a review finding's
  location lies in the reviewed diff, with \<open>FindingLocation\<close> of \<open>domain/finding.go\<close>. The text is split
  at line feeds and folded over the parser state; a hunk header that does not match, a body line with
  no room and a body cut short are errors. The regular expression \<open>hunkHeader\<close> is a reader of digits,
  since no two of its alternatives can match the same text; \<open>Atoi\<close> errors are ignored as in the code,
  which leaves the clamped value, and the end of a range wraps.

  The reference side is the text git writes for a change of several files (\<open>git_diff\<close>) and for a list of
  touched paths (\<open>name_status\<close>). Shown: on every such text the check decides its contract; a truncated
  text is refused; on any text at all the recorded ranges are backed by added lines.
\<close>

section \<open>State\<close>

record lineRange =
  rng_start :: int
  rng_end :: int

record fileChange =
  fc_deleted :: bool
  fc_ranges :: "lineRange list"

text \<open>A Go map; the zero \<open>Diff\<close> is the empty one.\<close>

type_synonym Diff = "string \<Rightarrow> fileChange option"

definition no_change :: fileChange where
  "no_change = \<lparr>fc_deleted = False, fc_ranges = []\<rparr>"

record diff_parser =
  par_files :: Diff
  par_path :: string
  par_have :: bool
  par_old :: string
  par_old_rem :: int
  par_new_rem :: int

abbreviation LF :: char where "LF \<equiv> CHR 0x0A"
abbreviation TAB :: char where "TAB \<equiv> CHR 0x09"
abbreviation CR :: char where "CR \<equiv> CHR 0x0D"
abbreviation QUOTE :: char where "QUOTE \<equiv> CHR 0x22"
abbreviation BACKSLASH :: char where "BACKSLASH \<equiv> CHR 0x5C"

section \<open>Paths\<close>

definition escape_byte :: "char \<Rightarrow> char option" where
  "escape_byte e = map_of [(BACKSLASH, BACKSLASH), (QUOTE, QUOTE), (CHR ''a'', CHR 0x07), (CHR ''b'', CHR 0x08),
     (CHR ''f'', CHR 0x0C), (CHR ''n'', LF), (CHR ''r'', CR), (CHR ''t'', TAB), (CHR ''v'', CHR 0x0B)] e"

definition is_octal :: "char \<Rightarrow> bool" where
  "is_octal c \<longleftrightarrow> CHR ''0'' \<le> c \<and> c \<le> CHR ''7''"

text \<open>The loop of \<open>gitUnquote\<close> after the opening quote.\<close>

fun unquote :: "string \<Rightarrow> string option" where
  "unquote [] = None"
| "unquote (c # s) =
     (if c = QUOTE then (if s \<noteq> [] \<and> hd s \<noteq> TAB then None else Some [])
      else if c \<noteq> BACKSLASH then map_option ((#) c) (unquote s)
      else (case s of [] \<Rightarrow> None
        | e # t \<Rightarrow> (case escape_byte e of
            Some b \<Rightarrow> map_option ((#) b) (unquote t)
          | None \<Rightarrow> if \<not> is_octal e then None
              else (case t of
                  d1 # d2 # u \<Rightarrow> if \<not> is_octal d1 \<or> \<not> is_octal d2 then None
                    else map_option ((#) (char_of ((digit_value e * 8 + digit_value d1) * 8 + digit_value d2)))
                      (unquote u)
                | _ \<Rightarrow> None))))"

definition gitUnquote :: "string \<Rightarrow> string option" where
  "gitUnquote operand = (if length operand < 2 \<or> hd operand \<noteq> QUOTE then None else unquote (tl operand))"

definition TrimRight :: "string \<Rightarrow> char \<Rightarrow> string" where
  "TrimRight s c = rev (dropWhile (\<lambda>x. x = c) (rev s))"

definition stripDiffPrefix :: "string \<Rightarrow> string" where
  "stripDiffPrefix operand0 =
     (let operand1 = TrimRight operand0 CR;
          operand = (if HasPrefix operand1 [QUOTE]
            then (case gitUnquote operand1 of Some u \<Rightarrow> u | None \<Rightarrow> operand1)
            else takeWhile (\<lambda>c. c \<noteq> TAB) operand1)
      in if operand = ''/dev/null'' then []
         else if 2 \<le> length operand \<and> (take 2 operand = ''a/'' \<or> take 2 operand = ''b/'') then drop 2 operand
         else operand)"

section \<open>Hunk headers\<close>

text \<open>The groups 2, 3 and 4 of \<open>hunkHeader\<close>; a group that did not take part is empty.\<close>

definition expect :: "string \<Rightarrow> string \<Rightarrow> string option" where
  "expect p s = (if HasPrefix s p then Some (drop (length p) s) else None)"

definition number :: "string \<Rightarrow> (string \<times> string) option" where
  "number s = (case digits s of (d, r) \<Rightarrow> if d = [] then None else Some (d, r))"

definition optional_count :: "string \<Rightarrow> (string \<times> string) option" where
  "optional_count s = (if HasPrefix s '','' then number (drop 1 s) else Some ([], s))"

definition hunkHeader :: "string \<Rightarrow> (string \<times> string \<times> string) option" where
  "hunkHeader line =
     Option.bind (expect ''@@ -'' line) (\<lambda>s1.
     Option.bind (number s1) (\<lambda>(m1, s2).
     Option.bind (optional_count s2) (\<lambda>(m2, s3).
     Option.bind (expect '' +'' s3) (\<lambda>s4.
     Option.bind (number s4) (\<lambda>(m3, s5).
     Option.bind (optional_count s5) (\<lambda>(m4, s6).
     Option.bind (expect '' @@'' s6) (\<lambda>s7. Some (m2, m3, m4))))))))"

section \<open>Parsing\<close>

definition diff_error :: "err + 'a" where "diff_error = Inl (ErrText ''diffscope'')"

definition body_line :: "string \<Rightarrow> diff_parser \<Rightarrow> err + diff_parser" where
  "body_line line st =
     (if HasPrefix line [BACKSLASH] then Inr st
      else if HasPrefix line ''+'' then
        (if par_new_rem st = 0 then diff_error else Inr (st\<lparr>par_new_rem := par_new_rem st - 1\<rparr>))
      else if HasPrefix line ''-'' then
        (if par_old_rem st = 0 then diff_error else Inr (st\<lparr>par_old_rem := par_old_rem st - 1\<rparr>))
      else diff_error)"

definition file_change :: "Diff \<Rightarrow> string \<Rightarrow> fileChange" where
  "file_change files p = (case files p of Some fc \<Rightarrow> fc | None \<Rightarrow> no_change)"

definition header_line :: "string \<Rightarrow> diff_parser \<Rightarrow> err + diff_parser" where
  "header_line line st =
     (if HasPrefix line ''--- '' then
        Inr (st\<lparr>par_old := stripDiffPrefix (drop 4 line), par_have := False\<rparr>)
      else if HasPrefix line ''+++ '' then
        (let newPath = stripDiffPrefix (drop 4 line);
             deleted = (newPath = []);
             curPath = (if deleted then par_old st else newPath)
         in if curPath = [] then diff_error
            else Inr (st\<lparr>par_path := curPath, par_have := True,
              par_files := (par_files st)(curPath \<mapsto> (file_change (par_files st) curPath)\<lparr>fc_deleted := deleted\<rparr>)\<rparr>))
      else if HasPrefix line ''@@'' then
        (if \<not> par_have st then diff_error
         else (case hunkHeader line of
             None \<Rightarrow> diff_error
           | Some (m2, m3, m4) \<Rightarrow>
               (let oldCount = (if m2 \<noteq> [] then Atoi m2 else 1);
                    newStart = Atoi m3;
                    newCount = (if m4 \<noteq> [] then Atoi m4 else 1);
                    fc = file_change (par_files st) (par_path st);
                    r = \<lparr>rng_start = newStart, rng_end = wrap64 (newStart + newCount - 1)\<rparr>;
                    files = (if 0 < newCount
                      then (par_files st)(par_path st \<mapsto> fc\<lparr>fc_ranges := fc_ranges fc @ [r]\<rparr>) else par_files st)
                in Inr (st\<lparr>par_files := files, par_old_rem := oldCount, par_new_rem := newCount\<rparr>))))
      else Inr st)"

definition parse_line :: "string \<Rightarrow> diff_parser \<Rightarrow> err + diff_parser" where
  "parse_line line st =
     (if 0 < par_old_rem st \<or> 0 < par_new_rem st then body_line line st else header_line line st)"

fun parse_lines :: "string list \<Rightarrow> diff_parser \<Rightarrow> err + diff_parser" where
  "parse_lines [] st = Inr st"
| "parse_lines (l # ls) st = ebind (parse_line l st) (parse_lines ls)"

definition new_parser :: diff_parser where
  "new_parser = \<lparr>par_files = (\<lambda>_. None), par_path = [], par_have = False, par_old = [],
     par_old_rem = 0, par_new_rem = 0\<rparr>"

definition Parse :: "string \<Rightarrow> err + Diff" where
  "Parse diff = ebind (parse_lines (Split diff LF) new_parser) (\<lambda>st.
     if 0 < par_old_rem st \<or> 0 < par_new_rem st then diff_error else Inr (par_files st))"

section \<open>Name-status\<close>

fun merge_records :: "string list \<Rightarrow> Diff \<Rightarrow> err option \<times> Diff" where
  "merge_records (status # path # rest) d =
     (if status = [] \<or> path = [] then (Some (ErrText ''diffscope''), d)
      else if d path \<noteq> None then merge_records rest d
      else merge_records rest (d(path \<mapsto> \<lparr>fc_deleted = (hd status = CHR ''D''), fc_ranges = []\<rparr>)))"
| "merge_records _ d = (None, d)"

definition MergeNameStatusZ :: "string \<Rightarrow> Diff \<Rightarrow> err option \<times> Diff" where
  "MergeNameStatusZ nameStatus d =
     (let fields0 = Split nameStatus (CHR 0x00);
          fields = (if last fields0 = [] then butlast fields0 else fields0)
      in if odd (length fields) then (Some (ErrText ''diffscope''), d) else merge_records fields d)"

section \<open>Findings\<close>

record FindingLocation =
  loc_path :: string
  loc_start :: int
  loc_end :: int

definition FindingLocation_Validate :: "FindingLocation \<Rightarrow> err option" where
  "FindingLocation_Validate l =
     (if loc_path l = [] then Some ErrEmptyField
      else if loc_start l = 0 \<and> loc_end l = 0 then None
      else if loc_start l < 1 \<or> loc_end l < 1 then Some ErrNonPositive
      else if loc_end l < loc_start l then Some (Sentinel ''ErrInvertedRange'')
      else None)"

definition Overlaps :: "Diff \<Rightarrow> FindingLocation option \<Rightarrow> bool" where
  "Overlaps d p = (case p of
     None \<Rightarrow> False
   | Some l \<Rightarrow> if FindingLocation_Validate l \<noteq> None then False
       else (case d (loc_path l) of
           None \<Rightarrow> False
         | Some fc \<Rightarrow>
             if loc_start l = 0 \<and> loc_end l = 0 then True
             else if fc_deleted fc then False
             else list_ex (\<lambda>r. loc_start l \<le> rng_end r \<and> rng_start r \<le> loc_end l) (fc_ranges fc)))"

section \<open>The text git writes\<close>

text \<open>
  The reference side of the parser: a change of several files as git renders it with \<open>-U0\<close>, paths
  quoted the way \<open>core.quotePath\<close> quotes them (C escapes and three-digit octal for every byte that is
  not printable ASCII) and followed by a tab when they hold a space.
\<close>

definition octal_escape :: "nat \<Rightarrow> string" where
  "octal_escape v = [BACKSLASH, digit (v div 64), digit (v div 8 mod 8), digit (v mod 8)]"

definition c_escapes :: "(char \<times> char) list" where
  "c_escapes = [(CHR 0x07, CHR ''a''), (CHR 0x08, CHR ''b''), (TAB, CHR ''t''), (LF, CHR ''n''),
     (CHR 0x0B, CHR ''v''), (CHR 0x0C, CHR ''f''), (CR, CHR ''r''), (QUOTE, QUOTE), (BACKSLASH, BACKSLASH)]"

definition git_escape :: "char \<Rightarrow> string" where
  "git_escape c = (case map_of c_escapes c of
     Some e \<Rightarrow> [BACKSLASH, e]
   | None \<Rightarrow> let v = of_char c :: nat in if v < 32 \<or> 127 \<le> v then octal_escape v else [c])"

definition git_quote :: "string \<Rightarrow> string" where
  "git_quote p = (if list_all (\<lambda>c. git_escape c = [c]) p then p
     else QUOTE # concat (map git_escape p) @ [QUOTE])"

definition git_operand :: "string \<Rightarrow> string option \<Rightarrow> string" where
  "git_operand prefix p = (case p of
     None \<Rightarrow> ''/dev/null''
   | Some q \<Rightarrow> (let s = git_quote (prefix @ q) in if CHR '' '' \<in> set s then s @ [TAB] else s))"

datatype body = Removed string | Added string | NoNewline string

fun body_text :: "body \<Rightarrow> string" where
  "body_text (Removed s) = CHR ''-'' # s"
| "body_text (Added s) = CHR ''+'' # s"
| "body_text (NoNewline s) = BACKSLASH # s"

fun removed_count :: "body list \<Rightarrow> nat" where
  "removed_count [] = 0"
| "removed_count (b # bs) = (case b of Removed _ \<Rightarrow> 1 | _ \<Rightarrow> 0) + removed_count bs"

fun added_count :: "body list \<Rightarrow> nat" where
  "added_count [] = 0"
| "added_count (b # bs) = (case b of Added _ \<Rightarrow> 1 | _ \<Rightarrow> 0) + added_count bs"

record hunk =
  hk_old :: nat
  hk_new :: nat
  hk_body :: "body list"
  hk_heading :: string

record file_diff =
  fd_meta :: "string list"
  fd_old :: "string option"
  fd_new :: "string option"
  fd_hunks :: "hunk list"

definition count_text :: "nat \<Rightarrow> string" where
  "count_text n = (if n = 1 then [] else CHR '','' # decimal n)"

definition hunk_text :: "hunk \<Rightarrow> string" where
  "hunk_text h = ''@@ -'' @ decimal (hk_old h) @ count_text (removed_count (hk_body h))
     @ '' +'' @ decimal (hk_new h) @ count_text (added_count (hk_body h)) @ '' @@'' @ hk_heading h"

definition hunk_lines :: "hunk \<Rightarrow> string list" where
  "hunk_lines h = hunk_text h # map body_text (hk_body h)"

definition file_lines :: "file_diff \<Rightarrow> string list" where
  "file_lines f = fd_meta f @ [''--- '' @ git_operand ''a/'' (fd_old f), ''+++ '' @ git_operand ''b/'' (fd_new f)]
     @ concat (map hunk_lines (fd_hunks f))"

definition git_diff :: "file_diff list \<Rightarrow> string" where
  "git_diff fs = unlines LF (concat (map file_lines fs))"

text \<open>What makes a change renderable.\<close>

definition meta_line :: "string \<Rightarrow> bool" where
  "meta_line l \<longleftrightarrow> LF \<notin> set l \<and> \<not> HasPrefix l ''--- '' \<and> \<not> HasPrefix l ''+++ '' \<and> \<not> HasPrefix l ''@@''"

definition hunk_wf :: "hunk \<Rightarrow> bool" where
  "hunk_wf h \<longleftrightarrow> LF \<notin> set (hk_heading h) \<and> list_all (\<lambda>b. LF \<notin> set (body_text b)) (hk_body h)
     \<and> int (removed_count (hk_body h)) \<le> max_int64 \<and> int (hk_new h) + int (added_count (hk_body h)) \<le> max_int64"

definition file_wf :: "file_diff \<Rightarrow> bool" where
  "file_wf f \<longleftrightarrow> list_all meta_line (fd_meta f) \<and> fd_old f \<noteq> Some [] \<and> fd_new f \<noteq> Some []
     \<and> (fd_old f \<noteq> None \<or> fd_new f \<noteq> None) \<and> list_all hunk_wf (fd_hunks f)"

text \<open>The path a section is about and the new-side lines it adds.\<close>

definition section_path :: "file_diff \<Rightarrow> string" where
  "section_path f = (case fd_new f of Some p \<Rightarrow> p | None \<Rightarrow> the (fd_old f))"

definition sections_of :: "file_diff list \<Rightarrow> string \<Rightarrow> file_diff list" where
  "sections_of fs p = filter (\<lambda>f. section_path f = p) fs"

definition adds_line :: "file_diff list \<Rightarrow> string \<Rightarrow> int \<Rightarrow> bool" where
  "adds_line fs p n \<longleftrightarrow> (\<exists>f \<in> set (sections_of fs p). \<exists>h \<in> set (fd_hunks f).
     int (hk_new h) \<le> n \<and> n < int (hk_new h) + int (added_count (hk_body h)))"

definition deletes :: "file_diff list \<Rightarrow> string \<Rightarrow> bool" where
  "deletes fs p \<longleftrightarrow> sections_of fs p \<noteq> [] \<and> fd_new (last (sections_of fs p)) = None"

section \<open>Paths come back\<close>

lemma octal_digit:
  assumes "n < 8"
  shows "is_octal (digit n)" "escape_byte (digit n) = None" "digit_value (digit n) = n"
proof -
  from assms have "n = 0 \<or> n = 1 \<or> n = 2 \<or> n = 3 \<or> n = 4 \<or> n = 5 \<or> n = 6 \<or> n = 7" by arith
  then show "is_octal (digit n)" "escape_byte (digit n) = None" "digit_value (digit n) = n"
    by (elim disjE; simp; code_simp)+
qed

lemma unquote_octal:
  assumes "v < 256"
  shows "unquote (octal_escape v @ t) = map_option ((#) (char_of v)) (unquote t)"
proof -
  have d: "v div 64 < 8" "v div 8 mod 8 < 8" "v mod 8 < 8" using assms by auto
  have "v div 8 div 8 = v div 64" by (simp add: div_mult2_eq [symmetric])
  then have "(v div 64 * 8 + v div 8 mod 8) * 8 + v mod 8 = v"
    by (metis div_mult_mod_eq)
  then show ?thesis
    using octal_digit [OF d(1)] octal_digit [OF d(2)] octal_digit [OF d(3)] by (simp add: octal_escape_def)
qed

lemma c_escapes_props:
  "list_all (\<lambda>(c, e). escape_byte e = Some c) c_escapes" "map_of c_escapes QUOTE \<noteq> None" "map_of c_escapes BACKSLASH \<noteq> None"
  by code_simp+

lemma git_escape_cases:
  obtains (c_escape) e where "git_escape c = [BACKSLASH, e]" "escape_byte e = Some c"
  | (octal) "git_escape c = octal_escape (of_char c)"
  | (plain) "git_escape c = [c]" "c \<noteq> QUOTE" "c \<noteq> BACKSLASH" "32 \<le> (of_char c :: nat)" "(of_char c :: nat) < 127"
proof (cases "map_of c_escapes c")
  case (Some e)
  from map_of_SomeD [OF Some] c_escapes_props(1) have "escape_byte e = Some c" by (auto simp: list_all_iff)
  with Some show ?thesis using c_escape by (simp add: git_escape_def)
next
  case None
  with c_escapes_props have "c \<noteq> QUOTE" "c \<noteq> BACKSLASH" by (metis, metis)
  with None show ?thesis using octal plain
    by (cases "(of_char c :: nat) < 32 \<or> 127 \<le> (of_char c :: nat)") (simp_all add: git_escape_def Let_def)
qed

lemma unquote_escape: "unquote (git_escape c @ t) = map_option ((#) c) (unquote t)"
proof (cases c rule: git_escape_cases)
  case octal
  with unquote_octal [of "of_char c" t] show ?thesis by simp
qed simp_all

lemma unquote_escapes:
  "s = [] \<or> hd s = TAB \<Longrightarrow> unquote (concat (map git_escape p) @ QUOTE # s) = Some p"
  by (induction p) (auto simp: unquote_escape)

lemma escape_chars:
  assumes "c' \<in> set (git_escape c)"
  shows "c' \<noteq> LF" "c' \<noteq> CR" "c' \<noteq> TAB"
proof -
  have e: "list_all (\<lambda>(c, e). e \<noteq> LF \<and> e \<noteq> CR \<and> e \<noteq> TAB) c_escapes" by code_simp
  have d: "digit n \<noteq> LF \<and> digit n \<noteq> CR \<and> digit n \<noteq> TAB" if "n < 8" for n
  proof -
    have b: "\<not> is_octal LF \<and> \<not> is_octal CR \<and> \<not> is_octal TAB" by code_simp
    with octal_digit(1) [OF that] show ?thesis by metis
  qed
  have "(of_char c :: nat) < 256"
    using of_char_mod_256 [of c, where 'a = nat] mod_less_divisor [of 256 "of_char c :: nat"] by simp
  then have v: "(of_char c :: nat) div 64 < 8" "(of_char c :: nat) div 8 mod 8 < 8" "(of_char c :: nat) mod 8 < 8"
    by linarith+
  have "c' \<noteq> LF \<and> c' \<noteq> CR \<and> c' \<noteq> TAB"
  proof (cases "map_of c_escapes c")
    case (Some e')
    with map_of_SomeD [OF Some] e assms show ?thesis by (auto simp: git_escape_def list_all_iff)
  next
    case None
    show ?thesis
    proof (cases "(of_char c :: nat) < 32 \<or> 127 \<le> (of_char c :: nat)")
      case True
      with None assms have "c' = BACKSLASH \<or> c' = digit (of_char c div 64) \<or> c' = digit (of_char c div 8 mod 8)
          \<or> c' = digit (of_char c mod 8)" by (simp add: git_escape_def octal_escape_def Let_def)
      then show ?thesis using d [OF v(1)] d [OF v(2)] d [OF v(3)] by auto
    next
      case False
      with None assms have "c' = c" by (simp add: git_escape_def Let_def)
      with False show ?thesis by auto
    qed
  qed
  then show "c' \<noteq> LF" "c' \<noteq> CR" "c' \<noteq> TAB" by simp_all
qed

lemma git_quote_cases:
  obtains (plain) "git_quote p = p" "\<forall>c \<in> set p. c \<noteq> LF \<and> c \<noteq> CR \<and> c \<noteq> TAB \<and> c \<noteq> QUOTE"
  | (quoted) s where "git_quote p = QUOTE # s" "s \<noteq> []" "last s = QUOTE" "\<forall>c \<in> set s. c \<noteq> LF"
    "\<And>t. t = [] \<or> hd t = TAB \<Longrightarrow> unquote (s @ t) = Some p"
proof (cases "list_all (\<lambda>c. git_escape c = [c]) p")
  case True
  have "c \<noteq> LF \<and> c \<noteq> CR \<and> c \<noteq> TAB \<and> c \<noteq> QUOTE" if "c \<in> set p" for c
  proof -
    from True that have e: "git_escape c = [c]" by (simp add: list_all_iff)
    have "git_escape QUOTE \<noteq> [QUOTE]" by code_simp
    with e escape_chars [of c c] show ?thesis by auto
  qed
  with True plain show ?thesis by (simp add: git_quote_def)
next
  case False
  show ?thesis
  proof (rule quoted)
    show "git_quote p = QUOTE # concat (map git_escape p) @ [QUOTE]" using False by (simp add: git_quote_def)
    show "unquote ((concat (map git_escape p) @ [QUOTE]) @ t) = Some p" if "t = [] \<or> hd t = TAB" for t
      using unquote_escapes [OF that] by simp
  qed (use escape_chars(1) in auto)
qed

lemma TrimRight_id: "s = [] \<or> last s \<noteq> c \<Longrightarrow> TrimRight s c = s"
  by (cases s rule: rev_cases) (simp_all add: TrimRight_def)

lemma git_operand_line: "LF \<notin> set (git_operand prefix p)"
proof (cases p)
  case (Some q)
  have "LF \<notin> set (git_quote (prefix @ q))"
  proof (cases "prefix @ q" rule: git_quote_cases)
    case plain
    show ?thesis unfolding plain(1) using plain(2) by blast
  next
    case (quoted s)
    show ?thesis unfolding quoted(1) using quoted(4) by auto
  qed
  then show ?thesis by (simp add: Some git_operand_def Let_def)
qed (simp add: git_operand_def)

lemma strip_operand:
  assumes "prefix = ''a/'' \<or> prefix = ''b/''"
  shows "stripDiffPrefix (git_operand prefix (Some p)) = p"
proof -
  define q where "q = prefix @ p"
  have "prefix @ p \<noteq> ''/dev/null''" using assms by auto
  moreover have l: "2 \<le> length (prefix @ p)" "take 2 (prefix @ p) = ''a/'' \<or> take 2 (prefix @ p) = ''b/''"
    "drop 2 (prefix @ p) = p" using assms by (auto simp: numeral_2_eq_2)
  ultimately have step: "(if q = ''/dev/null'' then [] else if 2 \<le> length (q)
      \<and> (take 2 (q) = ''a/'' \<or> take 2 (q) = ''b/'') then drop 2 (q) else q) = p"
    by (simp add: q_def)
  let ?o = "git_operand prefix (Some p)"
  show ?thesis
  proof (cases q rule: git_quote_cases)
    case plain
    define t where "t = (if CHR '' '' \<in> set (q) then [TAB] else [])"
    have o: "?o = q @ t" using plain(1) by (simp add: git_operand_def Let_def t_def q_def)
    have q: "q \<noteq> []" using assms by (auto simp: q_def)
    have "last ?o \<noteq> CR" unfolding o using plain(2) last_in_set [OF q] by (auto simp: t_def q)
    then have "TrimRight ?o CR = ?o" by (intro TrimRight_id) simp
    moreover have "\<not> HasPrefix ?o [QUOTE]" unfolding o q_def using assms by (auto simp: HasPrefix_def)
    moreover have "takeWhile (\<lambda>c. c \<noteq> TAB) ?o = q"
      unfolding o using plain(2) by (subst takeWhile_append2) (auto simp: t_def)
    ultimately show ?thesis using step unfolding stripDiffPrefix_def Let_def by (simp only: if_False)
  next
    case (quoted s)
    define t where "t = (if CHR '' '' \<in> set (QUOTE # s) then [TAB] else [])"
    have o: "?o = QUOTE # s @ t" using quoted(1) by (simp add: git_operand_def Let_def t_def q_def)
    have "last ?o \<noteq> CR" unfolding o using quoted(2,3) by (simp add: t_def)
    then have tr: "TrimRight ?o CR = ?o" by (intro TrimRight_id) simp
    have "gitUnquote ?o = Some (q)"
      unfolding o using quoted(2) quoted(5) [of t] by (cases s) (auto simp: gitUnquote_def t_def)
    moreover have "HasPrefix ?o [QUOTE]" by (simp add: o HasPrefix_def)
    ultimately show ?thesis using step unfolding stripDiffPrefix_def Let_def tr by (simp only: if_True option.case)
  qed
qed

lemma strip_operand_null: "stripDiffPrefix (git_operand prefix None) = []"
proof -
  have "stripDiffPrefix ''/dev/null'' = []" by code_simp
  then show ?thesis by (simp add: git_operand_def)
qed

section \<open>Hunks come back\<close>

lemma digits_text: "s = [] \<or> \<not> is_digit (hd s) \<Longrightarrow> number (decimal n @ s) = Some (decimal n, s)"
  by (simp add: number_def digits_decimal)

lemma hunkHeader_text:
  "hunkHeader (''@@ -'' @ decimal a @ count_text r @ '' +'' @ decimal b @ count_text n @ '' @@'' @ rest)
     = Some (if r = 1 then [] else decimal r, decimal b, if n = 1 then [] else decimal n)"
proof -
  have nd: "\<not> is_digit (CHR '','')" "\<not> is_digit (CHR '' '')" by code_simp+
  have e: "expect p (p @ s) = Some s" for p s by (simp add: expect_def)
  have c: "optional_count (count_text k @ CHR '' '' # s) = Some (if k = 1 then [] else decimal k, CHR '' '' # s)" for k s
    using digits_text [of "CHR '' '' # s" k] nd by (simp add: optional_count_def count_text_def HasPrefix_def)
  have n: "number (decimal k @ count_text m @ CHR '' '' # s) = Some (decimal k, count_text m @ CHR '' '' # s)" for k m s
    using nd by (intro digits_text) (simp add: count_text_def)
  have e2: "expect '' +'' (CHR '' '' # CHR ''+'' # s) = Some s" "expect '' @@'' (CHR '' '' # CHR ''@'' # CHR ''@'' # s) = Some s" for s
    by (simp_all add: expect_def HasPrefix_def)
  show ?thesis unfolding hunkHeader_def e by (simp add: n c e2)
qed

lemma parse_lines_append: "parse_lines (xs @ ys) st = ebind (parse_lines xs st) (parse_lines ys)"
proof (induction xs arbitrary: st)
  case (Cons x xs)
  show ?case by (cases "parse_line x st") (simp_all add: Cons)
qed simp

lemma parse_body:
  "par_old_rem st = int (removed_count bs) \<Longrightarrow> par_new_rem st = int (added_count bs) \<Longrightarrow>
     parse_lines (map body_text bs) st = Inr (st\<lparr>par_old_rem := 0, par_new_rem := 0\<rparr>)"
proof (induction bs arbitrary: st)
  case (Cons b bs)
  have "parse_line (body_text b) st = Inr (st\<lparr>par_old_rem := int (removed_count bs), par_new_rem := int (added_count bs)\<rparr>)"
    using Cons.prems by (cases b) (simp_all add: parse_line_def body_line_def header_line_def HasPrefix_def)
  with Cons.IH show ?case by simp
qed simp

definition idle :: "diff_parser \<Rightarrow> bool" where
  "idle st \<longleftrightarrow> par_old_rem st = 0 \<and> par_new_rem st = 0"

definition hunk_range :: "hunk \<Rightarrow> lineRange" where
  "hunk_range h = \<lparr>rng_start = int (hk_new h), rng_end = int (hk_new h) + int (added_count (hk_body h)) - 1\<rparr>"

definition hunk_ranges :: "hunk list \<Rightarrow> lineRange list" where
  "hunk_ranges hs = map hunk_range (filter (\<lambda>h. 0 < added_count (hk_body h)) hs)"

definition with_ranges :: "lineRange list \<Rightarrow> diff_parser \<Rightarrow> diff_parser" where
  "with_ranges rs st = st\<lparr>par_files := (par_files st)(par_path st \<mapsto>
     (file_change (par_files st) (par_path st))\<lparr>fc_ranges := fc_ranges (file_change (par_files st) (par_path st)) @ rs\<rparr>)\<rparr>"

lemma with_ranges_props [simp]:
  "idle (with_ranges rs st) = idle st" "par_have (with_ranges rs st) = par_have st"
  "par_path (with_ranges rs st) = par_path st" "par_files (with_ranges rs st) (par_path st) \<noteq> None"
  by (simp_all add: with_ranges_def idle_def)

lemma with_ranges_Nil: "par_files st (par_path st) \<noteq> None \<Longrightarrow> with_ranges [] st = st"
  by (auto simp: with_ranges_def file_change_def fun_upd_idem)

lemma with_ranges_append: "with_ranges ss (with_ranges rs st) = with_ranges (rs @ ss) st"
  by (simp add: with_ranges_def file_change_def)

lemma parse_hunk_text:
  assumes "idle st" "par_have st" "par_files st (par_path st) \<noteq> None" "hunk_wf h"
  shows "parse_line (hunk_text h) st = Inr ((with_ranges (hunk_ranges [h]) st)
    \<lparr>par_old_rem := int (removed_count (hk_body h)), par_new_rem := int (added_count (hk_body h))\<rparr>)"
proof -
  let ?r = "removed_count (hk_body h)" and ?n = "added_count (hk_body h)"
  from assms(4) have w: "int ?r \<le> max_int64" "int (hk_new h) + int ?n \<le> max_int64" by (simp_all add: hunk_wf_def)
  then have at: "(if (if ?r = 1 then [] else decimal ?r) \<noteq> [] then Atoi (if ?r = 1 then [] else decimal ?r) else 1) = int ?r"
    "(if (if ?n = 1 then [] else decimal ?n) \<noteq> [] then Atoi (if ?n = 1 then [] else decimal ?n) else 1) = int ?n"
    "Atoi (decimal (hk_new h)) = int (hk_new h)"
    by (auto intro!: Atoi_decimal)
  have z: "Atoi (decimal 0) = 0" using Atoi_decimal [of 0] by (simp add: max_int64_def)
  have wr: "0 < ?n \<Longrightarrow> wrap64 (int (hk_new h) + int ?n - 1) = int (hk_new h) + int ?n - 1"
    using w by (intro wrap64_id) (simp add: min_int64_def)
  have "\<not> HasPrefix (hunk_text h) ''--- ''" "\<not> HasPrefix (hunk_text h) ''+++ ''" "HasPrefix (hunk_text h) ''@@''"
    by (simp_all add: hunk_text_def HasPrefix_def)
  moreover have "hunkHeader (hunk_text h) = Some (if ?r = 1 then [] else decimal ?r, decimal (hk_new h), if ?n = 1 then [] else decimal ?n)"
    unfolding hunk_text_def by (rule hunkHeader_text)
  ultimately show ?thesis
    using assms(1,2) wr with_ranges_Nil [OF assms(3)]
    by (cases "0 < ?n")
      (simp_all add: parse_line_def idle_def header_line_def at z hunk_ranges_def hunk_range_def with_ranges_def Let_def del: One_nat_def)
qed

lemma parse_hunk:
  assumes "idle st" "par_have st" "par_files st (par_path st) \<noteq> None" "hunk_wf h"
  shows "parse_lines (hunk_lines h) st = Inr (with_ranges (hunk_ranges [h]) st)"
proof -
  have "with_ranges rs st\<lparr>par_old_rem := 0, par_new_rem := 0\<rparr> = with_ranges rs st" for rs
    using assms(1) by (simp add: with_ranges_def idle_def)
  with parse_hunk_text [OF assms] show ?thesis by (simp add: hunk_lines_def parse_body)
qed

lemma parse_hunks:
  "idle st \<Longrightarrow> par_have st \<Longrightarrow> par_files st (par_path st) \<noteq> None \<Longrightarrow> list_all hunk_wf hs \<Longrightarrow>
     parse_lines (concat (map hunk_lines hs)) st = Inr (with_ranges (hunk_ranges hs) st)"
proof (induction hs arbitrary: st)
  case Nil
  then show ?case using with_ranges_Nil by (simp add: hunk_ranges_def)
next
  case (Cons h hs)
  have "hunk_ranges (h # hs) = hunk_ranges [h] @ hunk_ranges hs" by (simp add: hunk_ranges_def)
  with Cons.prems Cons.IH [of "with_ranges (hunk_ranges [h]) st"] show ?case
    by (simp add: parse_lines_append parse_hunk with_ranges_append del: not_None_eq)
qed

section \<open>Files come back\<close>

definition apply_section :: "Diff \<Rightarrow> file_diff \<Rightarrow> Diff" where
  "apply_section files f = files(section_path f \<mapsto>
     \<lparr>fc_deleted = (fd_new f = None),
      fc_ranges = fc_ranges (file_change files (section_path f)) @ hunk_ranges (fd_hunks f)\<rparr>)"

lemma fileChange_eq: "fc\<lparr>fc_deleted := x, fc_ranges := y\<rparr> = \<lparr>fc_deleted = x, fc_ranges = y\<rparr>"
  by (cases fc) simp

lemma parse_meta: "idle st \<Longrightarrow> list_all meta_line ls \<Longrightarrow> parse_lines ls st = Inr st"
  by (induction ls) (simp_all add: parse_line_def idle_def header_line_def meta_line_def)

lemma section_path_wf: "file_wf f \<Longrightarrow> section_path f \<noteq> []"
  by (auto simp: file_wf_def section_path_def split: option.split)

lemma parse_file:
  assumes st: "idle st" and f: "file_wf f"
  shows "\<exists>st'. parse_lines (file_lines f) st = Inr st' \<and> idle st' \<and> par_have st'
    \<and> par_files st' (par_path st') \<noteq> None \<and> par_files st' = apply_section (par_files st) f"
proof -
  let ?old = "stripDiffPrefix (git_operand ''a/'' (fd_old f))" and ?new = "stripDiffPrefix (git_operand ''b/'' (fd_new f))"
  have n: "?new = (case fd_new f of Some p \<Rightarrow> p | None \<Rightarrow> [])" "?old = (case fd_old f of Some p \<Rightarrow> p | None \<Rightarrow> [])"
    by (simp_all add: strip_operand strip_operand_null split: option.split)
  from f have nd: "?new = [] \<longleftrightarrow> fd_new f = None" by (auto simp: n file_wf_def split: option.split)
  from f have sp: "(if ?new = [] then ?old else ?new) = section_path f"
    using nd by (auto simp: n file_wf_def section_path_def split: option.split)
  let ?fc = "(file_change (par_files st) (section_path f))\<lparr>fc_deleted := (fd_new f = None)\<rparr>"
  define st1 where "st1 = st\<lparr>par_old := ?old, par_path := section_path f, par_have := True,
      par_files := (par_files st)(section_path f \<mapsto> ?fc)\<rparr>"
  have st0: "parse_lines (fd_meta f) st = Inr st" using st f by (intro parse_meta) (simp_all add: file_wf_def)
  have p: "header_line (''--- '' @ x) q = Inr (q\<lparr>par_old := stripDiffPrefix x, par_have := False\<rparr>)" for x q
    by (simp add: header_line_def HasPrefix_def)
  have q: "header_line (''+++ '' @ x) q = (let newPath = stripDiffPrefix x; deleted = (newPath = []);
      curPath = (if deleted then par_old q else newPath)
    in if curPath = [] then diff_error
       else Inr (q\<lparr>par_path := curPath, par_have := True,
         par_files := (par_files q)(curPath \<mapsto> (file_change (par_files q) curPath)\<lparr>fc_deleted := deleted\<rparr>)\<rparr>))" for x q
    by (simp add: header_line_def HasPrefix_def)
  have "parse_lines [''--- '' @ git_operand ''a/'' (fd_old f), ''+++ '' @ git_operand ''b/'' (fd_new f)] st = Inr st1"
  proof -
    have "parse_line (''--- '' @ git_operand ''a/'' (fd_old f)) st = Inr (st\<lparr>par_old := ?old, par_have := False\<rparr>)"
      using st unfolding parse_line_def p by (simp add: idle_def)
    moreover have "parse_line (''+++ '' @ git_operand ''b/'' (fd_new f)) (st\<lparr>par_old := ?old, par_have := False\<rparr>) = Inr st1"
      using st sp nd section_path_wf [OF f] unfolding parse_line_def q
      by (cases "fd_new f") (auto simp: idle_def Let_def st1_def)
    ultimately show ?thesis by simp
  qed
  moreover have "idle st1" "par_have st1" "par_files st1 (par_path st1) \<noteq> None"
    using st by (simp_all add: st1_def idle_def)
  then have h: "parse_lines (concat (map hunk_lines (fd_hunks f))) st1 = Inr (with_ranges (hunk_ranges (fd_hunks f)) st1)"
    using f by (intro parse_hunks) (simp_all add: file_wf_def)
  ultimately have "parse_lines (file_lines f) st = Inr (with_ranges (hunk_ranges (fd_hunks f)) st1)"
    unfolding file_lines_def parse_lines_append st0 ebind_simps by simp
  moreover have "par_files (with_ranges (hunk_ranges (fd_hunks f)) st1) = apply_section (par_files st) f"
    by (simp add: with_ranges_def st1_def apply_section_def file_change_def fileChange_eq)
  moreover have "apply_section (par_files st) f (par_path st1) \<noteq> None" by (simp add: apply_section_def st1_def)
  ultimately show ?thesis using \<open>idle st1\<close> \<open>par_have st1\<close> by (simp del: not_None_eq)
qed

lemma parse_files:
  "idle st \<Longrightarrow> list_all file_wf fs \<Longrightarrow>
     \<exists>st'. parse_lines (concat (map file_lines fs)) st = Inr st' \<and> idle st' \<and> par_files st' = foldl apply_section (par_files st) fs"
proof (induction fs arbitrary: st)
  case (Cons f fs)
  from Cons.prems parse_file [of st f] obtain st' where s: "parse_lines (file_lines f) st = Inr st'" "idle st'"
    "par_files st' = apply_section (par_files st) f" by auto
  from Cons.IH [OF s(2)] Cons.prems show ?case by (simp add: parse_lines_append s(1,3))
qed simp

lemma file_lines_one_line: "file_wf f \<Longrightarrow> l \<in> set (file_lines f) \<Longrightarrow> LF \<notin> set l"
proof -
  have c: "LF \<notin> set (decimal k)" "LF \<notin> set (count_text k)" for k
  proof -
    have "\<not> is_digit LF" by code_simp
    with decimal_digits show "LF \<notin> set (decimal k)" by metis
    then show "LF \<notin> set (count_text k)" by (simp add: count_text_def)
  qed
  assume "file_wf f" and "l \<in> set (file_lines f)"
  then show ?thesis
    using git_operand_line c
    by (auto simp: file_lines_def file_wf_def hunk_lines_def hunk_wf_def hunk_text_def meta_line_def list_all_iff)
qed

lemma Parse_git_diff:
  assumes "list_all file_wf fs"
  shows "Parse (git_diff fs) = Inr (foldl apply_section (\<lambda>_. None) fs)"
proof -
  have "Split (git_diff fs) LF = concat (map file_lines fs) @ [[]]"
    unfolding git_diff_def using assms file_lines_one_line by (intro Split_unlines) (auto simp: list_all_iff)
  moreover from parse_files [OF _ assms, of new_parser] obtain st' where
    "parse_lines (concat (map file_lines fs)) new_parser = Inr st'" "idle st'"
    "par_files st' = foldl apply_section (\<lambda>_. None) fs" by (auto simp: idle_def new_parser_def)
  ultimately show ?thesis
    by (simp add: Parse_def parse_lines_append parse_line_def header_line_def idle_def HasPrefix_def)
qed

lemma apply_section_at: "apply_section files f p = (if p = section_path f
    then Some \<lparr>fc_deleted = (fd_new f = None), fc_ranges = fc_ranges (file_change files p) @ hunk_ranges (fd_hunks f)\<rparr>
    else files p)"
  by (simp add: apply_section_def)

lemma sections_lookup:
  "foldl apply_section (\<lambda>_. None) fs p = (if sections_of fs p = [] then None
     else Some \<lparr>fc_deleted = deletes fs p, fc_ranges = concat (map (\<lambda>f. hunk_ranges (fd_hunks f)) (sections_of fs p))\<rparr>)"
proof (induction fs rule: rev_induct)
  case (snoc f fs)
  show ?case
  proof (cases "section_path f = p")
    case True
    then show ?thesis
      by (simp add: apply_section_at [of "foldl apply_section (\<lambda>_. None) fs" f p] file_change_def no_change_def snoc
          sections_of_def deletes_def)
  next
    case False
    then have "sections_of (fs @ [f]) p = sections_of fs p" "deletes (fs @ [f]) p = deletes fs p"
      by (simp_all add: sections_of_def deletes_def)
    with False snoc show ?thesis by (simp add: apply_section_at [of "foldl apply_section (\<lambda>_. None) fs" f p])
  qed
qed (simp add: sections_of_def)

lemma hunk_ranges_hit: "s \<le> e \<Longrightarrow> list_ex (\<lambda>r. s \<le> rng_end r \<and> rng_start r \<le> e) (hunk_ranges hs)
    \<longleftrightarrow> (\<exists>h \<in> set hs. \<exists>n. s \<le> n \<and> n \<le> e \<and> int (hk_new h) \<le> n \<and> n < int (hk_new h) + int (added_count (hk_body h)))"
proof -
  assume "s \<le> e"
  then have "0 < a \<and> s \<le> x + a - 1 \<and> x \<le> e \<longleftrightarrow> (\<exists>n. s \<le> n \<and> n \<le> e \<and> x \<le> n \<and> n < x + a)" for x a :: int
    by (auto intro: exI [of _ "max s x"])
  from this [of "int a" "int b" for a b] show ?thesis
    by (simp add: hunk_ranges_def hunk_range_def list_ex_iff) blast
qed

section \<open>The reviewed lines\<close>

text \<open>
  C33: the overlap check decides exactly what its contract says on every diff git can write: for any
  change of any files, rendered with \<open>git diff -U0\<close> (paths of arbitrary bytes, quoted as git quotes them,
  any extended header lines, any mix of added, removed and no-newline lines), \<open>Parse\<close> succeeds and a
  valid location overlaps iff it is the whole file and the change has a section for the path, or the
  path is not deleted and the change adds some line of the range on the new side.
\<close>

theorem Overlaps_exact:
  assumes "list_all file_wf fs"
  shows "\<exists>d. Parse (git_diff fs) = Inr d \<and> (\<forall>l. Overlaps d (Some l) \<longleftrightarrow> FindingLocation_Validate l = None
     \<and> sections_of fs (loc_path l) \<noteq> []
     \<and> (loc_start l = 0 \<or> \<not> deletes fs (loc_path l)
         \<and> (\<exists>n. loc_start l \<le> n \<and> n \<le> loc_end l \<and> adds_line fs (loc_path l) n)))"
proof (intro exI conjI allI)
  let ?d = "foldl apply_section (\<lambda>_. None) fs"
  show "Parse (git_diff fs) = Inr ?d" by (rule Parse_git_diff [OF assms])
  fix l
  show "Overlaps ?d (Some l) \<longleftrightarrow> FindingLocation_Validate l = None \<and> sections_of fs (loc_path l) \<noteq> []
     \<and> (loc_start l = 0 \<or> \<not> deletes fs (loc_path l)
         \<and> (\<exists>n. loc_start l \<le> n \<and> n \<le> loc_end l \<and> adds_line fs (loc_path l) n))"
  proof (cases "FindingLocation_Validate l = None")
    case True
    then have r: "loc_start l = 0 \<and> loc_end l = 0 \<or> 1 \<le> loc_start l \<and> loc_start l \<le> loc_end l"
      by (auto simp: FindingLocation_Validate_def split: if_split_asm)
    have c: "list_ex P (concat (map g xs)) \<longleftrightarrow> (\<exists>x \<in> set xs. list_ex P (g x))" for P g and xs :: "file_diff list"
      by (auto simp: list_ex_iff)
    show ?thesis
    proof (cases "loc_start l = 0")
      case False
      with r have "loc_start l \<le> loc_end l" by simp
      from hunk_ranges_hit [OF this] False True show ?thesis
        unfolding Overlaps_def sections_lookup by (simp add: c adds_line_def) blast
    qed (use True r in \<open>auto simp: Overlaps_def sections_lookup\<close>)
  qed (simp add: Overlaps_def)
qed

definition example_patch :: "file_diff list" where
  "example_patch = [\<lparr>fd_meta = [''diff --git a/a b.go b/a b.go''], fd_old = Some ''a b.go'', fd_new = Some ''a b.go'',
     fd_hunks = [\<lparr>hk_old = 3, hk_new = 3, hk_body = [Removed ''x'', Added ''y'', Added ''z''], hk_heading = []\<rparr>]\<rparr>]"

theorem Overlaps_exact_witness:
  "\<exists>d. Parse (git_diff example_patch) = Inr d
    \<and> Overlaps d (Some \<lparr>loc_path = ''a b.go'', loc_start = 4, loc_end = 9\<rparr>)
    \<and> \<not> Overlaps d (Some \<lparr>loc_path = ''a b.go'', loc_start = 5, loc_end = 9\<rparr>)"
proof -
  have "list_all file_wf example_patch" by code_simp
  from Overlaps_exact [OF this] obtain d where d: "Parse (git_diff example_patch) = Inr d"
    and o: "\<And>l. Overlaps d (Some l) \<longleftrightarrow> FindingLocation_Validate l = None
     \<and> sections_of example_patch (loc_path l) \<noteq> [] \<and> (loc_start l = 0 \<or> \<not> deletes example_patch (loc_path l)
         \<and> (\<exists>n. loc_start l \<le> n \<and> n \<le> loc_end l \<and> adds_line example_patch (loc_path l) n))" by blast
  have s: "sections_of example_patch ''a b.go'' = example_patch" by code_simp
  have a: "adds_line example_patch ''a b.go'' n \<longleftrightarrow> 3 \<le> n \<and> n < 5" for n
    unfolding adds_line_def s by (simp add: example_patch_def)
  have "\<not> deletes example_patch ''a b.go''" "example_patch \<noteq> []" by code_simp+
  with d show ?thesis by (simp add: o s a FindingLocation_Validate_def) (auto intro: exI [of _ 4])
qed

section \<open>Nothing unbacked\<close>

definition range_size :: "lineRange \<Rightarrow> nat" where
  "range_size r = nat (rng_end r - rng_start r + 1)"

definition change_size :: "fileChange \<Rightarrow> nat" where
  "change_size fc = sum_list (map range_size (fc_ranges fc))"

definition recorded_lines :: "Diff \<Rightarrow> nat" where
  "recorded_lines d = (\<Sum>p \<in> dom d. change_size (the (d p)))"

definition plus_lines :: "string list \<Rightarrow> nat" where
  "plus_lines ls = length (filter (\<lambda>l. HasPrefix l ''+'') ls)"

lemma recorded_update:
  assumes "finite (dom d)"
  shows "finite (dom (d(p \<mapsto> fc)))"
    "recorded_lines (d(p \<mapsto> fc)) + change_size (file_change d p) = recorded_lines d + change_size fc"
proof -
  show "finite (dom (d(p \<mapsto> fc)))" using assms by simp
  have "recorded_lines (d(p \<mapsto> fc)) = change_size fc + (\<Sum>q \<in> dom d - {p}. change_size (the (d q)))"
  proof -
    have "recorded_lines (d(p \<mapsto> fc)) = (\<Sum>q \<in> insert p (dom d - {p}). change_size (the ((d(p \<mapsto> fc)) q)))"
      unfolding recorded_lines_def by (rule arg_cong2 [of _ _ _ _ sum]) auto
    also have "\<dots> = change_size fc + (\<Sum>q \<in> dom d - {p}. change_size (the ((d(p \<mapsto> fc)) q)))"
      using assms by (subst sum.insert) simp_all
    also have "(\<Sum>q \<in> dom d - {p}. change_size (the ((d(p \<mapsto> fc)) q))) = (\<Sum>q \<in> dom d - {p}. change_size (the (d q)))"
      by (rule sum.cong) auto
    finally show ?thesis .
  qed
  moreover have "recorded_lines d = change_size (file_change d p) + (\<Sum>q \<in> dom d - {p}. change_size (the (d q)))"
  proof (cases "p \<in> dom d")
    case True
    with assms show ?thesis by (auto simp: recorded_lines_def sum.remove file_change_def)
  next
    case False
    then have "dom d - {p} = dom d" "d p = None" by auto
    then show ?thesis by (simp add: recorded_lines_def file_change_def no_change_def change_size_def)
  qed
  ultimately show "recorded_lines (d(p \<mapsto> fc)) + change_size (file_change d p) = recorded_lines d + change_size fc"
    by simp
qed

definition backed :: "nat \<Rightarrow> diff_parser \<Rightarrow> bool" where
  "backed n st \<longleftrightarrow> 0 \<le> par_new_rem st \<and> 0 \<le> par_old_rem st \<and> finite (dom (par_files st))
     \<and> int (recorded_lines (par_files st)) \<le> int n + par_new_rem st"

lemma range_size_count:
  assumes "0 \<le> a" "0 < n"
  shows "int (range_size \<lparr>rng_start = a, rng_end = wrap64 (a + n - 1)\<rparr>) \<le> n"
proof -
  have "wrap64 (a + n - 1) \<le> a + n - 1"
    using zmod_le_nonneg_dividend [of "a + n - 1 + 2 ^ 63" "2 ^ 64"] assms by (simp add: wrap64_def)
  with assms show ?thesis by (simp add: range_size_def)
qed

lemma header_line_cases [consumes 2, case_names same named hunk]:
  assumes "header_line l st = Inr st'" "par_new_rem st = 0"
  obtains (same) "par_files st' = par_files st" "par_new_rem st' = 0" "par_old_rem st' = par_old_rem st"
    | (named) p x where "par_files st' = (par_files st)(p \<mapsto> (file_change (par_files st) p)\<lparr>fc_deleted := x\<rparr>)"
        "par_new_rem st' = 0" "par_old_rem st' = par_old_rem st"
    | (hunk) p q where "par_files st' = (if 0 < par_new_rem st' then (par_files st)(p \<mapsto> (file_change (par_files st) p)
          \<lparr>fc_ranges := fc_ranges (file_change (par_files st) p) @ [q]\<rparr>) else par_files st)"
        "0 < par_new_rem st' \<longrightarrow> int (range_size q) \<le> par_new_rem st'" "0 \<le> par_old_rem st'" "0 \<le> par_new_rem st'"
proof (cases "HasPrefix l ''--- '' \<or> HasPrefix l ''+++ '' \<or> \<not> HasPrefix l ''@@''")
  case True
  show ?thesis
  proof (cases "HasPrefix l ''+++ '' \<and> \<not> HasPrefix l ''--- ''")
    case True
    with assms show ?thesis by (auto simp: header_line_def Let_def diff_error_def split: if_split_asm intro: named)
  qed (use True assms in \<open>auto simp: header_line_def split: if_split_asm intro: same\<close>)
next
  case False
  with assms obtain m2 m3 m4 where "hunkHeader l = Some (m2, m3, m4)" "par_have st"
    by (auto simp: header_line_def diff_error_def split: if_split_asm option.split_asm)
  with False assms(1) have st': "st' = (let oldCount = (if m2 \<noteq> [] then Atoi m2 else 1); newStart = Atoi m3;
        newCount = (if m4 \<noteq> [] then Atoi m4 else 1); fc = file_change (par_files st) (par_path st);
        r = \<lparr>rng_start = newStart, rng_end = wrap64 (newStart + newCount - 1)\<rparr>
      in st\<lparr>par_files := (if 0 < newCount
          then (par_files st)(par_path st \<mapsto> fc\<lparr>fc_ranges := fc_ranges fc @ [r]\<rparr>) else par_files st),
          par_old_rem := oldCount, par_new_rem := newCount\<rparr>)"
    by (simp add: header_line_def Let_def)
  show ?thesis
    by (rule hunk [of "par_path st" "\<lparr>rng_start = Atoi m3, rng_end = wrap64 (Atoi m3 + par_new_rem st' - 1)\<rparr>"])
      (simp_all add: st' Let_def Atoi_nonneg range_size_count)
qed

lemma header_backed:
  assumes b: "backed n st" and i: "par_new_rem st = 0" and h: "header_line l st = Inr st'"
  shows "backed n st'"
proof -
  from b i have f: "finite (dom (par_files st))" and r: "recorded_lines (par_files st) \<le> n" by (simp_all add: backed_def)
  from h i show ?thesis
  proof (cases rule: header_line_cases)
    case (named p x)
    with recorded_update [OF f, of p "(file_change (par_files st) p)\<lparr>fc_deleted := x\<rparr>"] r b show ?thesis
      by (simp add: backed_def change_size_def)
  next
    case (hunk p q)
    with recorded_update [OF f, of p "(file_change (par_files st) p)\<lparr>fc_ranges := fc_ranges (file_change (par_files st) p) @ [q]\<rparr>"] r b
    show ?thesis by (cases "0 < par_new_rem st'") (auto simp: backed_def change_size_def)
  qed (use b i in \<open>simp add: backed_def\<close>)
qed


lemma line_backed:
  assumes b: "backed n st" and h: "parse_line l st = Inr st'"
  shows "backed (n + plus_lines [l]) st'"
proof -
  have mono: "backed n st' \<Longrightarrow> backed (n + plus_lines [l]) st'" by (simp add: backed_def)
  show ?thesis
  proof (cases "0 < par_old_rem st \<or> 0 < par_new_rem st")
    case True
    with b h show ?thesis
      by (auto simp: parse_line_def body_line_def backed_def plus_lines_def diff_error_def split: if_split_asm)
  next
    case False
    with b have "par_new_rem st = 0" by (simp add: backed_def)
    from header_backed [OF b this, of l] False h mono show ?thesis by (simp add: parse_line_def)
  qed
qed

lemma lines_backed: "backed n st \<Longrightarrow> parse_lines ls st = Inr st' \<Longrightarrow> backed (n + plus_lines ls) st'"
proof (induction ls arbitrary: n st)
  case (Cons l ls)
  from Cons.prems(2) obtain st1 where s: "parse_line l st = Inr st1" "parse_lines ls st1 = Inr st'"
    by (auto simp: ebind_Inr_iff)
  from Cons.IH [OF line_backed [OF Cons.prems(1) s(1)] s(2)] show ?case
    by (cases "HasPrefix l ''+''") (simp_all add: plus_lines_def)
qed (simp add: plus_lines_def)

text \<open>
  Whatever text the parser accepts, hostile or not, the new-side lines it records over all paths
  are no more than the lines of the text that begin with a plus: no hunk header adds a reviewed line
  that the body does not back, also when its numbers overflow.
\<close>

theorem Parse_backed:
  assumes "Parse s = Inr d"
  shows "finite (dom d) \<and> recorded_lines d \<le> plus_lines (Split s LF)"
proof -
  from assms obtain st where st: "parse_lines (Split s LF) new_parser = Inr st" "par_files st = d"
    "\<not> 0 < par_new_rem st"
    by (auto simp: Parse_def ebind_Inr_iff diff_error_def split: if_split_asm)
  have "backed 0 new_parser" by (simp add: backed_def new_parser_def recorded_lines_def)
  from lines_backed [OF this st(1)] st(2,3) show ?thesis by (simp add: backed_def)
qed

theorem Parse_backed_witness:
  "\<exists>d. Parse (git_diff example_patch) = Inr d \<and> recorded_lines d \<le> plus_lines (Split (git_diff example_patch) LF)"
proof -
  have "list_all file_wf example_patch" by code_simp
  with Parse_backed [OF Parse_git_diff [OF this]] Parse_git_diff show ?thesis by blast
qed

section \<open>Truncation\<close>

text \<open>A body of which the declared counts are not yet consumed.\<close>

lemma parse_short_body:
  "par_old_rem st = int (removed_count (bs @ cs)) \<Longrightarrow> par_new_rem st = int (added_count (bs @ cs)) \<Longrightarrow>
     0 < removed_count cs + added_count cs \<Longrightarrow>
     parse_lines (map body_text bs) st
       = Inr (st\<lparr>par_old_rem := int (removed_count cs), par_new_rem := int (added_count cs)\<rparr>)"
proof (induction bs arbitrary: st)
  case (Cons b bs)
  have "parse_line (body_text b) st
      = Inr (st\<lparr>par_old_rem := int (removed_count (bs @ cs)), par_new_rem := int (added_count (bs @ cs))\<rparr>)"
    using Cons.prems by (cases b) (auto simp: parse_line_def body_line_def header_line_def HasPrefix_def)
  with Cons.IH Cons.prems(3) show ?case by simp
qed simp

text \<open>The lines of a diff whose last section ends in the hunk \<open>h\<close>, of whose body only \<open>bs\<close> is left.\<close>

definition cut_diff :: "file_diff list \<Rightarrow> file_diff \<Rightarrow> hunk \<Rightarrow> body list \<Rightarrow> string" where
  "cut_diff fs f h bs = unlines LF (concat (map file_lines fs) @ file_lines f @ hunk_text h # map body_text bs)"

text \<open>
  A diff cut short inside a hunk is refused: if git wrote a whole diff and only a prefix of the last
  hunk's body arrived, with at least one added or removed line missing, \<open>Parse\<close> returns an error and no
  range of the header is ever recorded.
\<close>

theorem truncated_diff_rejected:
  assumes "list_all file_wf fs" and "file_wf f" and "hunk_wf h" and "hk_body h = bs @ cs"
    and "0 < removed_count cs + added_count cs"
  shows "isl (Parse (cut_diff fs f h bs))"
proof -
  define ls where "ls = concat (map file_lines (fs @ [f]))"
  have wf: "list_all file_wf (fs @ [f])" using assms(1,2) by simp
  have h1: "LF \<notin> set l" if "l \<in> set (hunk_lines h)" for l
  proof -
    have "file_wf (f\<lparr>fd_hunks := [h]\<rparr>)" using assms(2,3) by (simp add: file_wf_def)
    from file_lines_one_line [OF this, of l] that show ?thesis by (simp add: file_lines_def)
  qed
  have "Split (unlines LF (ls @ hunk_text h # map body_text bs)) LF = (ls @ hunk_text h # map body_text bs) @ [[]]"
    using wf file_lines_one_line h1 assms(4)
    by (intro Split_unlines) (auto simp: ls_def list_all_iff hunk_lines_def)
  then have split: "Split (cut_diff fs f h bs) LF = ls @ hunk_text h # map body_text bs @ [[]]"
    by (simp add: cut_diff_def ls_def)
  from assms(1) parse_files [of new_parser fs] obtain st0 where
    s0: "parse_lines (concat (map file_lines fs)) new_parser = Inr st0" "idle st0"
    by (auto simp: idle_def new_parser_def)
  from parse_file [OF s0(2) assms(2)] obtain st where st: "parse_lines (file_lines f) st0 = Inr st"
    "idle st" "par_have st" "par_files st (par_path st) \<noteq> None" by blast
  have "parse_lines ls new_parser = Inr st" using s0(1) st(1) by (simp add: ls_def parse_lines_append)
  moreover have "isl (parse_lines (hunk_text h # map body_text bs @ [[]]) st)"
    using parse_hunk_text [OF st(2-4) assms(3)] assms(4,5)
    by (auto simp: parse_lines_append parse_short_body parse_line_def body_line_def HasPrefix_def diff_error_def)
  ultimately show ?thesis
    by (cases "parse_lines (hunk_text h # map body_text bs @ [[]]) st")
      (simp_all add: Parse_def split parse_lines_append del: parse_lines.simps)
qed

theorem truncated_diff_rejected_witness:
  "isl (Parse (cut_diff [] ((hd example_patch)\<lparr>fd_hunks := []\<rparr>) (hd (fd_hunks (hd example_patch))) [Removed ''x'', Added ''y'']))"
proof -
  have "file_wf ((hd example_patch)\<lparr>fd_hunks := []\<rparr>)" "hunk_wf (hd (fd_hunks (hd example_patch)))"
    "hk_body (hd (fd_hunks (hd example_patch))) = [Removed ''x'', Added ''y''] @ [Added ''z'']" by code_simp+
  from truncated_diff_rejected [OF _ this, of "[]"] show ?thesis by simp
qed

section \<open>Name-status\<close>

text \<open>The \<open>-z\<close> form of a list of records.\<close>

definition name_status :: "(string \<times> string) list \<Rightarrow> string" where
  "name_status rs = unlines (CHR 0x00) (concat (map (\<lambda>(s, p). [s, p]) rs))"

definition record_wf :: "string \<times> string \<Rightarrow> bool" where
  "record_wf r \<longleftrightarrow> fst r \<noteq> [] \<and> snd r \<noteq> [] \<and> CHR 0x00 \<notin> set (fst r) \<and> CHR 0x00 \<notin> set (snd r)"

definition record_change :: "(string \<times> string) list \<Rightarrow> string \<Rightarrow> fileChange option" where
  "record_change rs p = map_option (\<lambda>s. \<lparr>fc_deleted = (hd s = CHR ''D''), fc_ranges = []\<rparr>)
     (map_of (map (\<lambda>(s, p). (p, s)) rs) p)"

lemma record_change_Cons: "record_change ((s, q) # rs) p
    = (if p = q then Some \<lparr>fc_deleted = (hd s = CHR ''D''), fc_ranges = []\<rparr> else record_change rs p)"
  by (simp add: record_change_def)

lemma record_change_None: "record_change rs p = None \<longleftrightarrow> p \<notin> snd ` set rs"
  by (induction rs) (auto simp: record_change_def)

lemma record_change_Some: "record_change rs p = Some fc \<Longrightarrow> fc_ranges fc = []"
  by (auto simp: record_change_def)

lemma merge_records_ok:
  "list_all record_wf rs \<Longrightarrow> merge_records (concat (map (\<lambda>(s, p). [s, p]) rs)) d
     = (None, \<lambda>p. case d p of None \<Rightarrow> record_change rs p | Some fc \<Rightarrow> Some fc)"
proof (induction rs arbitrary: d)
  case Nil
  show ?case by (simp add: record_change_def fun_eq_iff split: option.split)
next
  case (Cons r rs)
  obtain s p where r: "r = (s, p)" by (cases r)
  from Cons.prems r have ne: "s \<noteq> []" "p \<noteq> []" by (simp_all add: record_wf_def)
  from Cons.prems have wf: "list_all record_wf rs" by simp
  show ?case
    by (cases "d p") (auto simp: r ne Cons.IH [OF wf] record_change_Cons fun_eq_iff split: option.split)
qed

lemma MergeNameStatusZ_records:
  assumes "list_all record_wf rs"
  shows "MergeNameStatusZ (name_status rs) d = merge_records (concat (map (\<lambda>(s, p). [s, p]) rs)) d"
proof -
  have "Split (name_status rs) (CHR 0x00) = concat (map (\<lambda>(s, p). [s, p]) rs) @ [[]]"
    unfolding name_status_def using assms by (intro Split_unlines) (auto simp: list_all_iff record_wf_def)
  moreover have "even (length (concat (map (\<lambda>(s, p). [s, p]) rs)))" by (induction rs) auto
  ultimately show ?thesis by (simp add: MergeNameStatusZ_def)
qed

text \<open>
  Merging the name-status pass makes exactly the touched paths resolvable and nothing more: for any
  records git can write, every path already parsed keeps its answer, a path that only the records name
  resolves as a whole file and at no line, and a path neither names stays unresolved.
\<close>

theorem MergeNameStatusZ_exact:
  assumes "list_all record_wf rs" and "FindingLocation_Validate l = None"
  shows "fst (MergeNameStatusZ (name_status rs) d) = None
    \<and> (Overlaps (snd (MergeNameStatusZ (name_status rs) d)) (Some l)
        \<longleftrightarrow> Overlaps d (Some l) \<or> loc_start l = 0 \<and> loc_path l \<in> snd ` set rs)"
proof -
  have m: "MergeNameStatusZ (name_status rs) d = (None, \<lambda>p. case d p of None \<Rightarrow> record_change rs p | Some fc \<Rightarrow> Some fc)"
    using merge_records_ok MergeNameStatusZ_records assms(1) by simp
  have z: "loc_start l = 0 \<and> loc_end l = 0 \<longleftrightarrow> loc_start l = 0"
    using assms(2) by (auto simp: FindingLocation_Validate_def split: if_split_asm)
  show ?thesis
  proof (cases "d (loc_path l)")
    case None
    with m z assms(2) record_change_None [of rs "loc_path l"] show ?thesis
      by (cases "record_change rs (loc_path l)") (auto simp: Overlaps_def dest: record_change_Some)
  qed (use m z assms(2) in \<open>auto simp: Overlaps_def\<close>)
qed

theorem MergeNameStatusZ_exact_witness:
  "Overlaps (snd (MergeNameStatusZ (name_status [(''D'', ''empty'')]) (\<lambda>_. None)))
     (Some \<lparr>loc_path = ''empty'', loc_start = 0, loc_end = 0\<rparr>)"
proof -
  have "list_all record_wf [(''D'', ''empty'')]" by code_simp
  moreover have "FindingLocation_Validate \<lparr>loc_path = ''empty'', loc_start = 0, loc_end = 0\<rparr> = None" by code_simp
  ultimately show ?thesis using MergeNameStatusZ_exact by fastforce
qed

end
