(* ===== verification/ReadinessDomain.thy ===== *)
theory ReadinessDomain
  imports GoTime GoStrings "HOL-Library.Multiset"
begin

text \<open>
  \<open>daemon/internal/domain/readiness.go\<close>: the evaluation that decides whether a candidate is ready to
  hand off. Requirement resolutions, check proofs and waiver events are sealed by a digest over their
  other fields; check states are a sum of a proof and an honest failure; \<open>EvaluateReadiness\<close> folds the
  complete resolution set against the recorded states into a verdict, which \<open>NewReadinessDetail\<close>
  projects for the card. \<open>BaseRevision\<close> is \<open>domain/execution.go\<close> and \<open>ProspectiveMergeIdentity\<close> is
  \<open>domain/prospective_merge_identity.go\<close>.

  A digest is the content address of the JSON of a struct; \<open>seal\<close>, the parameter of everything that
  computes one, takes the struct (the version constant of each is its constructor in \<open>sealed\<close>) to its
  digest. A time outside RFC 3339 makes the marshalling fail. \<open>sort.Slice\<close> is a stable sort here; the
  code sorts by keys that a later check of the same call requires to be distinct. The JSON methods of
  \<open>CheckFailure\<close> are not modelled.
\<close>

section \<open>Vocabulary\<close>

datatype RequirementKind = RequirementRequired | RequirementOptional | RequirementKindOther string

fun RequirementKind_valid :: "RequirementKind \<Rightarrow> bool" where
  "RequirementKind_valid RequirementRequired = True"
| "RequirementKind_valid RequirementOptional = True"
| "RequirementKind_valid (RequirementKindOther _) = False"

datatype AdvisoryOutcome = AdvisoryFailed | AdvisoryNotRun | AdvisoryOutcomeOther string

fun AdvisoryOutcome_valid :: "AdvisoryOutcome \<Rightarrow> bool" where
  "AdvisoryOutcome_valid AdvisoryFailed = True"
| "AdvisoryOutcome_valid AdvisoryNotRun = True"
| "AdvisoryOutcome_valid (AdvisoryOutcomeOther _) = False"

datatype ReadinessVerdictClass = ReadinessBlocked | ReadinessReadyClean | ReadinessReadyDegraded
  | ReadinessVerdictClassOther string

fun ReadinessVerdictClass_valid :: "ReadinessVerdictClass \<Rightarrow> bool" where
  "ReadinessVerdictClass_valid (ReadinessVerdictClassOther _) = False"
| "ReadinessVerdictClass_valid _ = True"

datatype WaiverGrantingAuthority = WaiverAuthorityHumanApproval | WaiverAuthorityTrustedConfig
  | WaiverGrantingAuthorityOther string

fun WaiverGrantingAuthority_valid :: "WaiverGrantingAuthority \<Rightarrow> bool" where
  "WaiverGrantingAuthority_valid (WaiverGrantingAuthorityOther _) = False"
| "WaiverGrantingAuthority_valid _ = True"

datatype VerificationCheckClass = CheckClassCleanVerification | CheckClassIndependentReview
  | CheckClassRepoChangePolicy | VerificationCheckClassOther string

fun VerificationCheckClass_valid :: "VerificationCheckClass \<Rightarrow> bool" where
  "VerificationCheckClass_valid (VerificationCheckClassOther _) = False"
| "VerificationCheckClass_valid _ = True"

fun WaiverEligible :: "VerificationCheckClass \<Rightarrow> bool" where
  "WaiverEligible CheckClassCleanVerification = False"
| "WaiverEligible CheckClassIndependentReview = False"
| "WaiverEligible CheckClassRepoChangePolicy = True"
| "WaiverEligible (VerificationCheckClassOther _) = False"

datatype WaiverLifecycleStatus = WaiverLifecycleGranted | WaiverLifecycleRevoked | WaiverLifecycleExpired
  | WaiverLifecycleStatusOther string

fun WaiverLifecycleStatus_valid :: "WaiverLifecycleStatus \<Rightarrow> bool" where
  "WaiverLifecycleStatus_valid (WaiverLifecycleStatusOther _) = False"
| "WaiverLifecycleStatus_valid _ = True"

datatype ReadinessRequirementState = ReadinessRequirementPassed | ReadinessRequirementFailed
  | ReadinessRequirementNotRun | ReadinessRequirementNotApplicable | ReadinessRequirementStateOther string

fun ReadinessRequirementState_valid :: "ReadinessRequirementState \<Rightarrow> bool" where
  "ReadinessRequirementState_valid (ReadinessRequirementStateOther _) = False"
| "ReadinessRequirementState_valid _ = True"

definition nonPassing :: "ReadinessRequirementState \<Rightarrow> bool" where
  "nonPassing s \<longleftrightarrow> s = ReadinessRequirementFailed \<or> s = ReadinessRequirementNotRun"

section \<open>Bindings\<close>

record BaseRevision =
  bas_repo :: string
  bas_repository_id :: int
  bas_ref :: string
  bas_sha :: string

definition BaseRevision_Validate :: "BaseRevision \<Rightarrow> err option" where
  "BaseRevision_Validate b = first_error [
     require (bas_repo b \<noteq> []) ErrEmptyField,
     require (0 < bas_repository_id b) ErrNonPositive,
     require (bas_ref b \<noteq> []) ErrEmptyField,
     require (bas_sha b \<noteq> []) ErrEmptyField]"

record ProspectiveMergeIdentity =
  pmi_base :: string
  pmi_head :: string
  pmi_merge :: string

definition ProspectiveMergeIdentity_Validate :: "ProspectiveMergeIdentity \<Rightarrow> err option" where
  "ProspectiveMergeIdentity_Validate m = first_error [
     require (\<not> (pmi_base m = [] \<or> pmi_head m = [] \<or> pmi_merge m = [])) ErrEmptyField,
     require (\<not> (pmi_base m = pmi_head m \<or> pmi_merge m = pmi_base m \<or> pmi_merge m = pmi_head m))
       (Sentinel ''ErrProspectiveMergeIdentityInconsistent'')]"

section \<open>Requirements\<close>

record RequirementDefinition =
  def_key :: string
  def_class :: VerificationCheckClass
  def_kind :: RequirementKind
  def_applicable :: bool
  def_base_dependent :: bool

definition ProductionRequirementDefinitions :: "RequirementDefinition list" where
  "ProductionRequirementDefinitions = [
     \<lparr>def_key = ''clean-verification'', def_class = CheckClassCleanVerification, def_kind = RequirementRequired,
      def_applicable = True, def_base_dependent = True\<rparr>,
     \<lparr>def_key = ''independent-review'', def_class = CheckClassIndependentReview, def_kind = RequirementRequired,
      def_applicable = True, def_base_dependent = True\<rparr>]"

record RequirementResolution =
  res_digest :: string
  res_key :: string
  res_class :: VerificationCheckClass
  res_kind :: RequirementKind
  res_applicable :: bool
  res_base_dependent :: bool
  res_set_digest :: string
  res_floor :: int
  res_policy_digest :: string
  res_sampling :: "string option"

record RequirementResolutionInput =
  rin_key :: string
  rin_class :: VerificationCheckClass
  rin_kind :: RequirementKind
  rin_applicable :: bool
  rin_base_dependent :: bool
  rin_set_digest :: string
  rin_floor :: int
  rin_policy_digest :: string
  rin_sampling :: "string option"

record CheckProof =
  prf_digest :: string
  prf_resolution :: string
  prf_head :: string
  prf_base :: "BaseRevision option"
  prf_merge :: string
  prf_recipe :: string

record WaiverLifecycleEvent =
  wle_waiver :: string
  wle_sequence :: int
  wle_status :: WaiverLifecycleStatus
  wle_previous :: "string option"
  wle_digest :: string
  wle_recorded_at :: gotime

record ValidatedDegradedWaiver =
  wvr_id :: string
  wvr_resolution :: string
  wvr_dimension :: string
  wvr_authority :: WaiverGrantingAuthority
  wvr_grant :: string
  wvr_lifecycle :: string
  wvr_floor :: int
  wvr_granted_at :: gotime

record CheckFailure =
  cfl_outcome :: AdvisoryOutcome
  cfl_waiver :: "ValidatedDegradedWaiver option"

record ApplicableCheckState =
  acs_proof :: "CheckProof option"
  acs_failure :: "CheckFailure option"

record CheckState =
  cst_resolution :: RequirementResolution
  cst_not_applicable :: bool
  cst_applicable :: "ApplicableCheckState option"

record evaluationEntry =
  ent_resolution :: RequirementResolution
  ent_missing :: bool
  ent_state :: "CheckState option"

record EvaluationTarget =
  tgt_head :: string
  tgt_base :: "BaseRevision option"
  tgt_merge :: string

text \<open>What is sealed; a sealed value carries its digest field empty.\<close>

datatype sealed =
    SealRequirementSet int "RequirementDefinition list"
  | SealResolution RequirementResolution
  | SealProof CheckProof
  | SealWaiverEvent WaiverLifecycleEvent
  | SealEvaluation EvaluationTarget "evaluationEntry list"

type_synonym seal = "sealed \<Rightarrow> string"

definition ProductionRequirementSetDigest :: "seal \<Rightarrow> int \<Rightarrow> string" where
  "ProductionRequirementSetDigest seal generation = seal (SealRequirementSet generation
     (map (\<lambda>d. d\<lparr>def_applicable := False\<rparr>) ProductionRequirementDefinitions))"

definition resolution_digest :: "seal \<Rightarrow> RequirementResolution \<Rightarrow> string" where
  "resolution_digest seal r = seal (SealResolution (r\<lparr>res_digest := []\<rparr>))"

definition RequirementResolution_Validate :: "seal \<Rightarrow> RequirementResolution \<Rightarrow> err option" where
  "RequirementResolution_Validate seal r = first_error [
     require (res_key r \<noteq> []) ErrEmptyID,
     require (VerificationCheckClass_valid (res_class r)) (Sentinel ''ErrInvalidVerificationCheckClass''),
     require (RequirementKind_valid (res_kind r)) (Sentinel ''ErrInvalidRequirementKind''),
     require (\<not> (res_set_digest r = [] \<or> res_policy_digest r = [])) ErrEmptyField,
     require (res_sampling r \<noteq> Some []) ErrEmptyField,
     require (res_floor r \<noteq> 0) ErrNonPositive,
     require (resolution_digest seal r = res_digest r) ErrParentKeyMismatch]"

definition NewRequirementResolution :: "seal \<Rightarrow> RequirementResolutionInput \<Rightarrow> err + RequirementResolution" where
  "NewRequirementResolution seal x =
     (let r0 = \<lparr>res_digest = [], res_key = rin_key x, res_class = rin_class x, res_kind = rin_kind x,
          res_applicable = rin_applicable x, res_base_dependent = rin_base_dependent x,
          res_set_digest = rin_set_digest x, res_floor = rin_floor x,
          res_policy_digest = rin_policy_digest x, res_sampling = rin_sampling x\<rparr>;
          r = r0\<lparr>res_digest := resolution_digest seal r0\<rparr>
      in of_err (RequirementResolution_Validate seal r) r)"

section \<open>Proofs\<close>

definition proof_digest :: "seal \<Rightarrow> CheckProof \<Rightarrow> string" where
  "proof_digest seal p = seal (SealProof (p\<lparr>prf_digest := []\<rparr>))"

definition CheckProof_Validate :: "seal \<Rightarrow> CheckProof \<Rightarrow> err option" where
  "CheckProof_Validate seal p = first_error [
     require (\<not> (prf_resolution p = [] \<or> prf_head p = [] \<or> prf_recipe p = [])) ErrEmptyField,
     when_ptr (prf_base p) BaseRevision_Validate,
     (if prf_merge p \<noteq> [] then
        (case prf_base p of
           None \<Rightarrow> Some ErrEmptyField
         | Some b \<Rightarrow> ProspectiveMergeIdentity_Validate
             \<lparr>pmi_base = bas_sha b, pmi_head = prf_head p, pmi_merge = prf_merge p\<rparr>)
      else None),
     require (proof_digest seal p = prf_digest p) ErrParentKeyMismatch]"

definition proof_validateFor :: "seal \<Rightarrow> CheckProof \<Rightarrow> RequirementResolution \<Rightarrow> err option" where
  "proof_validateFor seal p r = first_error [
     CheckProof_Validate seal p,
     require (\<not> (prf_resolution p \<noteq> res_digest r \<or> (prf_base p \<noteq> None) \<noteq> res_base_dependent r)) ErrParentKeyMismatch]"

definition newCheckProof ::
  "seal \<Rightarrow> RequirementResolution \<Rightarrow> string \<Rightarrow> BaseRevision option \<Rightarrow> string \<Rightarrow> string \<Rightarrow> err + CheckProof" where
  "newCheckProof seal r candidateHead base mergeSHA recipe =
     (let p0 = \<lparr>prf_digest = [], prf_resolution = res_digest r, prf_head = candidateHead, prf_base = base,
          prf_merge = mergeSHA, prf_recipe = recipe\<rparr>;
          p = p0\<lparr>prf_digest := proof_digest seal p0\<rparr>
      in of_err (proof_validateFor seal p r) p)"

definition NewCheckProof ::
  "seal \<Rightarrow> RequirementResolution \<Rightarrow> string \<Rightarrow> BaseRevision option \<Rightarrow> string \<Rightarrow> err + CheckProof" where
  "NewCheckProof seal r candidateHead base recipe = newCheckProof seal r candidateHead base [] recipe"

definition NewProspectiveMergeCheckProof ::
  "seal \<Rightarrow> RequirementResolution \<Rightarrow> ProspectiveMergeIdentity \<Rightarrow> BaseRevision \<Rightarrow> string \<Rightarrow> err + CheckProof" where
  "NewProspectiveMergeCheckProof seal r merge base recipe = (case ProspectiveMergeIdentity_Validate merge of
     Some e \<Rightarrow> Inl e
   | None \<Rightarrow> if pmi_base merge \<noteq> bas_sha base then Inl ErrParentKeyMismatch
       else newCheckProof seal r (pmi_head merge) (Some base) (pmi_merge merge) recipe)"

section \<open>Waivers\<close>

text \<open>Marshalling the event fails for an instant RFC 3339 cannot write.\<close>

definition event_digest :: "seal \<Rightarrow> WaiverLifecycleEvent \<Rightarrow> err + string" where
  "event_digest seal e = (if rfc3339_ok (wle_recorded_at e)
     then Inr (seal (SealWaiverEvent (e\<lparr>wle_digest := []\<rparr>))) else Inl ErrMarshal)"

abbreviation ErrCheckStateInconsistent :: err where
  "ErrCheckStateInconsistent \<equiv> Sentinel ''ErrCheckStateInconsistent''"
abbreviation ErrWaiverInconsistent :: err where "ErrWaiverInconsistent \<equiv> Sentinel ''ErrWaiverInconsistent''"

definition WaiverLifecycleEvent_Validate :: "seal \<Rightarrow> WaiverLifecycleEvent \<Rightarrow> err option" where
  "WaiverLifecycleEvent_Validate seal e = first_error [
     require (wle_waiver e \<noteq> []) ErrEmptyID,
     require (wle_sequence e \<noteq> 0) ErrNonPositive,
     require (WaiverLifecycleStatus_valid (wle_status e)) (Sentinel ''ErrInvalidWaiverLifecycleStatus''),
     require (\<not> ((wle_sequence e = 1) \<noteq> (wle_previous e = None)
        \<or> wle_sequence e = 1 \<and> wle_status e \<noteq> WaiverLifecycleGranted
        \<or> 1 < wle_sequence e \<and> wle_status e = WaiverLifecycleGranted)) ErrCheckStateInconsistent,
     require (\<not> (IsZero (wle_recorded_at e) \<or> \<not> is_utc (wle_recorded_at e))) ErrTimestampNotUTC,
     require (event_digest seal e = Inr (wle_digest e)) ErrParentKeyMismatch]"

definition NewWaiverLifecycleEvent ::
  "seal \<Rightarrow> string \<Rightarrow> int \<Rightarrow> WaiverLifecycleStatus \<Rightarrow> string option \<Rightarrow> gotime \<Rightarrow> err + WaiverLifecycleEvent" where
  "NewWaiverLifecycleEvent seal i sequence status previous at =
     (let e0 = \<lparr>wle_waiver = i, wle_sequence = sequence, wle_status = status, wle_previous = previous,
          wle_digest = [], wle_recorded_at = UTC at\<rparr>
      in ebind (event_digest seal e0) (\<lambda>digest.
         let e = e0\<lparr>wle_digest := digest\<rparr> in of_err (WaiverLifecycleEvent_Validate seal e) e))"

definition Waiver_Validate :: "ValidatedDegradedWaiver \<Rightarrow> err option" where
  "Waiver_Validate w = first_error [
     require (\<not> (wvr_id w = [] \<or> wvr_resolution w = [])) ErrEmptyID,
     require (\<not> (wvr_dimension w = [] \<or> wvr_grant w = [] \<or> wvr_lifecycle w = [])) ErrEmptyField,
     require (WaiverGrantingAuthority_valid (wvr_authority w)) (Sentinel ''ErrInvalidWaiverGrantingAuthority''),
     require (wvr_floor w \<noteq> 0) ErrNonPositive,
     require (\<not> (IsZero (wvr_granted_at w) \<or> \<not> is_utc (wvr_granted_at w))) ErrTimestampNotUTC]"

definition ValidateDegradedWaiver ::
  "seal \<Rightarrow> RequirementResolution \<Rightarrow> WaiverLifecycleEvent \<Rightarrow> ValidatedDegradedWaiver \<Rightarrow> err option" where
  "ValidateDegradedWaiver seal r e w = first_error [
     Waiver_Validate w,
     WaiverLifecycleEvent_Validate seal e,
     require (\<not> (res_kind r \<noteq> RequirementRequired \<or> \<not> WaiverEligible (res_class r)
        \<or> wvr_resolution w \<noteq> res_digest r \<or> wvr_floor w \<noteq> res_floor r
        \<or> wle_waiver e \<noteq> wvr_id w \<or> wle_status e \<noteq> WaiverLifecycleGranted
        \<or> wle_digest e \<noteq> wvr_lifecycle w)) ErrWaiverInconsistent]"

definition NewValidatedDegradedWaiver ::
  "seal \<Rightarrow> RequirementResolution \<Rightarrow> string \<Rightarrow> string \<Rightarrow> WaiverGrantingAuthority \<Rightarrow> string
   \<Rightarrow> WaiverLifecycleEvent \<Rightarrow> gotime \<Rightarrow> err + ValidatedDegradedWaiver" where
  "NewValidatedDegradedWaiver seal r i dimension authority grant e at =
     (let w = \<lparr>wvr_id = i, wvr_resolution = res_digest r, wvr_dimension = dimension, wvr_authority = authority,
          wvr_grant = grant, wvr_lifecycle = wle_digest e, wvr_floor = res_floor r, wvr_granted_at = UTC at\<rparr>
      in of_err (ValidateDegradedWaiver seal r e w) w)"

section \<open>Check states\<close>

text \<open>A nil \<open>Applicable\<close> or \<open>Failure\<close> that the code dereferences is a panic.\<close>

definition CheckState_Validate :: "seal \<Rightarrow> CheckState \<Rightarrow> err option" where
  "CheckState_Validate seal s = (let r = cst_resolution s in first_error [
     RequirementResolution_Validate seal r,
     require (\<not> (cst_not_applicable s = (cst_applicable s \<noteq> None) \<or> cst_not_applicable s = res_applicable r))
       ErrCheckStateInconsistent,
     (if cst_not_applicable s then None
      else deref (cst_applicable s) (\<lambda>a. first_error [
        require (\<not> ((acs_proof a = None) = (acs_failure a = None))) ErrCheckStateInconsistent,
        (case acs_proof a of
           Some p \<Rightarrow> proof_validateFor seal p r
         | None \<Rightarrow> deref (acs_failure a) (\<lambda>f. first_error [
             require (AdvisoryOutcome_valid (cfl_outcome f)) (Sentinel ''ErrInvalidAdvisoryOutcome''),
             when_ptr (cfl_waiver f) (\<lambda>w. first_error [
               Waiver_Validate w,
               require (\<not> (res_kind r \<noteq> RequirementRequired \<or> \<not> WaiverEligible (res_class r)
                 \<or> wvr_resolution w \<noteq> res_digest r \<or> wvr_floor w \<noteq> res_floor r)) ErrWaiverInconsistent])]))]))])"

definition NewNotApplicableCheckState :: "seal \<Rightarrow> RequirementResolution \<Rightarrow> err + CheckState" where
  "NewNotApplicableCheckState seal r =
     (let s = \<lparr>cst_resolution = r, cst_not_applicable = True, cst_applicable = None\<rparr>
      in of_err (CheckState_Validate seal s) s)"

definition NewPassedCheckState :: "seal \<Rightarrow> RequirementResolution \<Rightarrow> CheckProof \<Rightarrow> err + CheckState" where
  "NewPassedCheckState seal r p =
     (let s = \<lparr>cst_resolution = r, cst_not_applicable = False,
          cst_applicable = Some \<lparr>acs_proof = Some p, acs_failure = None\<rparr>\<rparr>
      in of_err (CheckState_Validate seal s) s)"

definition NewNonPassingCheckState ::
  "seal \<Rightarrow> RequirementResolution \<Rightarrow> AdvisoryOutcome \<Rightarrow> ValidatedDegradedWaiver option \<Rightarrow> err + CheckState" where
  "NewNonPassingCheckState seal r outcome waiver =
     (let s = \<lparr>cst_resolution = r, cst_not_applicable = False,
          cst_applicable = Some \<lparr>acs_proof = None,
            acs_failure = Some \<lparr>cfl_outcome = outcome, cfl_waiver = waiver\<rparr>\<rparr>\<rparr>
      in of_err (CheckState_Validate seal s) s)"

section \<open>Verdicts\<close>

record ReadinessBlockReason =
  rbr_resolution :: string
  rbr_outcome :: AdvisoryOutcome
  rbr_absent :: bool

record AdvisoryOutcomeRecord =
  aor_resolution :: string
  aor_outcome :: AdvisoryOutcome

record ReadinessVerdict =
  rvd_class :: ReadinessVerdictClass
  rvd_digest :: string
  rvd_reasons :: "ReadinessBlockReason list"
  rvd_waivers :: "string list"
  rvd_advisories :: "AdvisoryOutcomeRecord list"

abbreviation ErrReadinessVerdictInconsistent :: err where
  "ErrReadinessVerdictInconsistent \<equiv> Sentinel ''ErrReadinessVerdictInconsistent''"

text \<open>A loop that refuses a bad or repeated key.\<close>

fun all_fresh :: "('x \<Rightarrow> bool) \<Rightarrow> ('x \<Rightarrow> 'k) \<Rightarrow> 'k list \<Rightarrow> 'x list \<Rightarrow> bool" where
  "all_fresh ok key seen [] = True"
| "all_fresh ok key seen (x # xs) = (ok x \<and> key x \<notin> set seen \<and> all_fresh ok key (key x # seen) xs)"

definition ReadinessVerdict_Validate :: "ReadinessVerdict \<Rightarrow> err option" where
  "ReadinessVerdict_Validate v = first_error [
     require (ReadinessVerdictClass_valid (rvd_class v)) (Sentinel ''ErrInvalidReadinessVerdictClass''),
     (case rvd_class v of
        ReadinessBlocked \<Rightarrow> require (\<not> (rvd_digest v \<noteq> [] \<or> rvd_reasons v = [] \<or> rvd_waivers v \<noteq> []
          \<or> rvd_advisories v \<noteq> [])) ErrReadinessVerdictInconsistent
      | ReadinessReadyClean \<Rightarrow> require (\<not> (rvd_digest v = [] \<or> rvd_reasons v \<noteq> [] \<or> rvd_waivers v \<noteq> []
          \<or> rvd_advisories v \<noteq> [])) ErrReadinessVerdictInconsistent
      | ReadinessReadyDegraded \<Rightarrow> require (\<not> (rvd_digest v = [] \<or> rvd_reasons v \<noteq> []
          \<or> length (rvd_waivers v) + length (rvd_advisories v) = 0)) ErrReadinessVerdictInconsistent
      | ReadinessVerdictClassOther _ \<Rightarrow> None),
     require (all_fresh (\<lambda>x. rbr_resolution x \<noteq> [] \<and> AdvisoryOutcome_valid (rbr_outcome x)) rbr_resolution []
       (rvd_reasons v)) ErrReadinessVerdictInconsistent,
     require (all_fresh (\<lambda>i. i \<noteq> []) (\<lambda>i. i) [] (rvd_waivers v)) ErrReadinessVerdictInconsistent,
     require (all_fresh (\<lambda>x. aor_resolution x \<noteq> [] \<and> AdvisoryOutcome_valid (aor_outcome x)) aor_resolution []
       (rvd_advisories v)) ErrReadinessVerdictInconsistent]"

section \<open>Evaluation\<close>

abbreviation ErrEvaluationTargetMismatch :: err where
  "ErrEvaluationTargetMismatch \<equiv> Sentinel ''ErrEvaluationTargetMismatch''"

definition covers :: "EvaluationTarget \<Rightarrow> RequirementResolution \<Rightarrow> CheckProof \<Rightarrow> err option" where
  "covers t r p =
     (if prf_head p \<noteq> tgt_head t then Some ErrEvaluationTargetMismatch
      else if \<not> res_base_dependent r then None
      else case tgt_base t of
          None \<Rightarrow> Some ErrEvaluationTargetMismatch
        | Some b \<Rightarrow> deref (prf_base p) (\<lambda>pb.
            if pb \<noteq> b then Some ErrEvaluationTargetMismatch
            else if prf_merge p \<noteq> tgt_merge t then Some ErrEvaluationTargetMismatch
            else None))"

type_synonym waiver_gate = "RequirementResolution \<Rightarrow> ValidatedDegradedWaiver \<Rightarrow> err option"

record evaluation =
  evl_by :: "(string \<times> CheckState) list"
  evl_seen :: "string list"
  evl_set :: "(string \<times> int) option"
  evl_entries :: "evaluationEntry list"
  evl_reasons :: "ReadinessBlockReason list"
  evl_waivers :: "string list"
  evl_advisories :: "AdvisoryOutcomeRecord list"

fun index_states :: "seal \<Rightarrow> (string \<times> CheckState) list \<Rightarrow> CheckState list \<Rightarrow> err + (string \<times> CheckState) list" where
  "index_states seal by [] = Inr by"
| "index_states seal by (s # ss) = (case CheckState_Validate seal s of
     Some e \<Rightarrow> Inl e
   | None \<Rightarrow> (let digest = res_digest (cst_resolution s) in
       if map_of by digest \<noteq> None then Inl ErrDuplicate
       else index_states seal (AList.update digest s by) ss))"

text \<open>One round of the loop: the checks of the resolution, then its recorded state.\<close>

definition evaluate_state ::
  "EvaluationTarget \<Rightarrow> waiver_gate option \<Rightarrow> RequirementResolution \<Rightarrow> CheckState \<Rightarrow> evaluation \<Rightarrow> err + evaluation" where
  "evaluate_state target gate r s st =
     (if cst_not_applicable s then Inr st
      else case cst_applicable s of
        None \<Rightarrow> Inl (Panic ''nil dereference'')
      | Some a \<Rightarrow> (case acs_proof a of
          Some p \<Rightarrow> of_err (covers target r p) st
        | None \<Rightarrow> (case acs_failure a of
            None \<Rightarrow> Inl (Panic ''nil dereference'')
          | Some f \<Rightarrow>
              if res_kind r = RequirementRequired then
                (case cfl_waiver f of
                   None \<Rightarrow> Inr (st\<lparr>evl_reasons := evl_reasons st
                     @ [\<lparr>rbr_resolution = res_digest r, rbr_outcome = cfl_outcome f, rbr_absent = False\<rparr>]\<rparr>)
                 | Some w \<Rightarrow> (case gate of
                     None \<Rightarrow> Inl ErrWaiverInconsistent
                   | Some g \<Rightarrow> (case g r w of
                       Some e \<Rightarrow> Inl e
                     | None \<Rightarrow> Inr (st\<lparr>evl_waivers := evl_waivers st @ [wvr_id w]\<rparr>))))
              else Inr (st\<lparr>evl_advisories := evl_advisories st
                @ [\<lparr>aor_resolution = res_digest r, aor_outcome = cfl_outcome f\<rparr>]\<rparr>))))"

definition evaluate_one ::
  "seal \<Rightarrow> EvaluationTarget \<Rightarrow> waiver_gate option \<Rightarrow> RequirementResolution \<Rightarrow> evaluation \<Rightarrow> err + evaluation" where
  "evaluate_one seal target gate r st =
     (case first_error [
        RequirementResolution_Validate seal r,
        when_ptr (evl_set st) (\<lambda>(set_digest, floor).
          require (\<not> (res_set_digest r \<noteq> set_digest \<or> res_floor r \<noteq> floor)) ErrParentKeyMismatch),
        require (res_key r \<notin> set (evl_seen st)) ErrDuplicate] of
      Some e \<Rightarrow> Inl e
    | None \<Rightarrow>
        (let st1 = st\<lparr>evl_set := Some (case evl_set st of None \<Rightarrow> (res_set_digest r, res_floor r) | Some x \<Rightarrow> x),
             evl_seen := res_key r # evl_seen st\<rparr>
         in case map_of (evl_by st) (res_digest r) of
              None \<Rightarrow> Inr (st1\<lparr>
                evl_entries := evl_entries st @ [\<lparr>ent_resolution = r, ent_missing = True, ent_state = None\<rparr>],
                evl_reasons := evl_reasons st
                  @ [\<lparr>rbr_resolution = res_digest r, rbr_outcome = AdvisoryNotRun, rbr_absent = True\<rparr>]\<rparr>)
            | Some s \<Rightarrow> evaluate_state target gate r s (st1\<lparr>
                evl_by := AList.delete (res_digest r) (evl_by st),
                evl_entries := evl_entries st @ [\<lparr>ent_resolution = r, ent_missing = False, ent_state = Some s\<rparr>]\<rparr>)))"

fun evaluate_all ::
  "seal \<Rightarrow> EvaluationTarget \<Rightarrow> waiver_gate option \<Rightarrow> RequirementResolution list \<Rightarrow> evaluation \<Rightarrow> err + evaluation" where
  "evaluate_all seal target gate [] st = Inr st"
| "evaluate_all seal target gate (r # rs) st = ebind (evaluate_one seal target gate r st) (evaluate_all seal target gate rs)"

text \<open>Which instants the marshalled entries hold.\<close>

definition waiver_of :: "CheckState \<Rightarrow> ValidatedDegradedWaiver option" where
  "waiver_of s = Option.bind (cst_applicable s) (\<lambda>a. Option.bind (acs_failure a) cfl_waiver)"

definition entry_marshals :: "evaluationEntry \<Rightarrow> bool" where
  "entry_marshals x = (case Option.bind (ent_state x) waiver_of of None \<Rightarrow> True | Some w \<Rightarrow> rfc3339_ok (wvr_granted_at w))"

definition conclude_evaluation :: "seal \<Rightarrow> EvaluationTarget \<Rightarrow> evaluation \<Rightarrow> err + ReadinessVerdict" where
  "conclude_evaluation seal target st =
     (if evl_by st \<noteq> [] then Inl ErrParentKeyMismatch
      else if evl_reasons st \<noteq> [] then
        (let v = \<lparr>rvd_class = ReadinessBlocked, rvd_digest = [], rvd_reasons = evl_reasons st, rvd_waivers = [],
             rvd_advisories = []\<rparr>
         in of_err (ReadinessVerdict_Validate v) v)
      else if \<not> list_all entry_marshals (evl_entries st) then Inl ErrMarshal
      else
        (let waiverIDs = sort (evl_waivers st); advisories = sort_key aor_resolution (evl_advisories st);
             v = \<lparr>rvd_class = (if length waiverIDs + length advisories \<noteq> 0 then ReadinessReadyDegraded
                  else ReadinessReadyClean),
                rvd_digest = seal (SealEvaluation target (evl_entries st)), rvd_reasons = [],
                rvd_waivers = waiverIDs, rvd_advisories = advisories\<rparr>
         in of_err (ReadinessVerdict_Validate v) v))"

definition EvaluateReadiness ::
  "seal \<Rightarrow> EvaluationTarget \<Rightarrow> RequirementResolution list \<Rightarrow> CheckState list \<Rightarrow> waiver_gate option
   \<Rightarrow> err + ReadinessVerdict" where
  "EvaluateReadiness seal target resolutions recorded gate =
     (if tgt_head target = [] then Inl ErrEmptyField
      else if tgt_merge target \<noteq> [] \<and> tgt_base target = None then Inl ErrEmptyField
      else if resolutions = [] then Inl (Sentinel ''ErrRequirementSetEmpty'')
      else ebind (index_states seal [] recorded) (\<lambda>by.
        ebind (evaluate_all seal target gate (sort_key res_key resolutions)
          \<lparr>evl_by = by, evl_seen = [], evl_set = None, evl_entries = [], evl_reasons = [], evl_waivers = [],
           evl_advisories = []\<rparr>)
        (conclude_evaluation seal target)))"

section \<open>The card\<close>

record ReadinessSummary =
  rsm_class :: ReadinessVerdictClass
  rsm_digest :: string

definition ReadinessSummary_Validate :: "ReadinessSummary \<Rightarrow> err option" where
  "ReadinessSummary_Validate s = first_error [
     require (ReadinessVerdictClass_valid (rsm_class s)) (Sentinel ''ErrInvalidReadinessVerdictClass''),
     require (\<not> (rsm_class s \<noteq> ReadinessReadyClean \<and> rsm_class s \<noteq> ReadinessReadyDegraded \<or> rsm_digest s = []))
       (Sentinel ''ErrReadinessSummaryInconsistent'')]"

record ReadinessWaiver =
  rwv_id :: string
  rwv_dimension :: string
  rwv_authority :: WaiverGrantingAuthority
  rwv_granted_at :: gotime

definition ReadinessWaiver_Validate :: "ReadinessWaiver \<Rightarrow> err option" where
  "ReadinessWaiver_Validate w = first_error [
     require (rwv_id w \<noteq> []) ErrEmptyID,
     require (rwv_dimension w \<noteq> []) ErrEmptyField,
     require (WaiverGrantingAuthority_valid (rwv_authority w)) (Sentinel ''ErrInvalidWaiverGrantingAuthority''),
     require (\<not> (IsZero (rwv_granted_at w) \<or> \<not> is_utc (rwv_granted_at w))) ErrTimestampNotUTC]"

record ReadinessRequirement =
  rrq_key :: string
  rrq_class :: VerificationCheckClass
  rrq_kind :: RequirementKind
  rrq_state :: ReadinessRequirementState
  rrq_recipe :: "string option"
  rrq_waiver :: "ReadinessWaiver option"

abbreviation ErrReadinessDetailInconsistent :: err where
  "ErrReadinessDetailInconsistent \<equiv> Sentinel ''ErrReadinessDetailInconsistent''"

definition ReadinessRequirement_Validate :: "ReadinessRequirement \<Rightarrow> err option" where
  "ReadinessRequirement_Validate r = first_error [
     require (rrq_key r \<noteq> []) ErrEmptyID,
     require (VerificationCheckClass_valid (rrq_class r)) (Sentinel ''ErrInvalidVerificationCheckClass''),
     require (RequirementKind_valid (rrq_kind r)) (Sentinel ''ErrInvalidRequirementKind''),
     require (ReadinessRequirementState_valid (rrq_state r)) (Sentinel ''ErrInvalidReadinessRequirementState''),
     require ((rrq_recipe r \<noteq> None) = (rrq_state r = ReadinessRequirementPassed)) ErrReadinessDetailInconsistent,
     require (rrq_recipe r \<noteq> Some []) ErrEmptyField,
     when_ptr (rrq_waiver r) (\<lambda>w. first_error [
       require (\<not> (\<not> nonPassing (rrq_state r) \<or> rrq_kind r \<noteq> RequirementRequired \<or> \<not> WaiverEligible (rrq_class r)))
         ErrReadinessDetailInconsistent,
       ReadinessWaiver_Validate w])]"

record ReadinessDetail =
  rdt_digest :: string
  rdt_head :: string
  rdt_base_ref :: string
  rdt_base_sha :: string
  rdt_handoff_tip :: string
  rdt_handoff_merge :: "ProspectiveMergeIdentity option"
  rdt_requirements :: "ReadinessRequirement list"

definition validateHandoff :: "ReadinessDetail \<Rightarrow> err option" where
  "validateHandoff d =
     (if rdt_handoff_tip d = [] then
        (if rdt_handoff_merge d \<noteq> None then Some ErrEmptyField else None)
      else let moved = (rdt_handoff_tip d \<noteq> rdt_base_sha d) in
        if moved \<and> rdt_handoff_merge d = None then Some ErrReadinessDetailInconsistent
        else if \<not> moved \<and> rdt_handoff_merge d \<noteq> None then Some ErrReadinessDetailInconsistent
        else case rdt_handoff_merge d of
            None \<Rightarrow> None
          | Some m \<Rightarrow> first_error [
              ProspectiveMergeIdentity_Validate m,
              require (\<not> (pmi_base m \<noteq> rdt_handoff_tip d \<or> pmi_head m \<noteq> rdt_head d)) ErrReadinessDetailInconsistent])"

fun validate_requirements :: "string option \<Rightarrow> ReadinessRequirement list \<Rightarrow> err option" where
  "validate_requirements prev [] = None"
| "validate_requirements prev (r # rs) = first_error [
     ReadinessRequirement_Validate r,
     when_ptr prev (\<lambda>k. require (\<not> rrq_key r \<le> k) ErrReadinessDetailInconsistent),
     validate_requirements (Some (rrq_key r)) rs]"

definition ReadinessDetail_Validate :: "ReadinessDetail \<Rightarrow> err option" where
  "ReadinessDetail_Validate d = first_error [
     require (\<not> (rdt_digest d = [] \<or> rdt_head d = [] \<or> rdt_base_ref d = [] \<or> rdt_base_sha d = [])) ErrEmptyField,
     validateHandoff d,
     require (rdt_requirements d \<noteq> []) (Sentinel ''ErrRequirementSetEmpty''),
     validate_requirements None (rdt_requirements d)]"

fun detail_class :: "ReadinessVerdictClass \<Rightarrow> ReadinessRequirement list \<Rightarrow> ReadinessVerdictClass" where
  "detail_class c [] = c"
| "detail_class c (r # rs) =
     (if \<not> nonPassing (rrq_state r) then detail_class c rs
      else if rrq_kind r = RequirementRequired \<and> rrq_waiver r = None then ReadinessBlocked
      else detail_class ReadinessReadyDegraded rs)"

definition Class :: "ReadinessDetail \<Rightarrow> ReadinessVerdictClass" where
  "Class d = detail_class ReadinessReadyClean (rdt_requirements d)"

text \<open>The conversion of the outcome's string; an outcome that is no member is no failing state.\<close>

fun state_of_outcome :: "AdvisoryOutcome \<Rightarrow> ReadinessRequirementState" where
  "state_of_outcome AdvisoryFailed = ReadinessRequirementFailed"
| "state_of_outcome AdvisoryNotRun = ReadinessRequirementNotRun"
| "state_of_outcome (AdvisoryOutcomeOther s) =
     (if s = ''passed'' then ReadinessRequirementPassed
      else if s = ''not_applicable'' then ReadinessRequirementNotApplicable
      else ReadinessRequirementStateOther s)"

definition projectReadinessRequirement :: "CheckState \<Rightarrow> err + ReadinessRequirement" where
  "projectReadinessRequirement s =
     (let r = cst_resolution s;
          q = (\<lambda>st recipe w. \<lparr>rrq_key = res_key r, rrq_class = res_class r, rrq_kind = res_kind r,
            rrq_state = st, rrq_recipe = recipe, rrq_waiver = w\<rparr>)
      in if cst_not_applicable s then Inr (q ReadinessRequirementNotApplicable None None)
         else case cst_applicable s of
            None \<Rightarrow> Inl (Panic ''nil dereference'')
          | Some a \<Rightarrow> (case acs_proof a of
              Some p \<Rightarrow> Inr (q ReadinessRequirementPassed (Some (prf_recipe p)) None)
            | None \<Rightarrow> (case acs_failure a of
                None \<Rightarrow> Inl (Panic ''nil dereference'')
              | Some f \<Rightarrow> Inr (q (state_of_outcome (cfl_outcome f)) None
                  (case cfl_waiver f of None \<Rightarrow> None
                   | Some w \<Rightarrow> Some \<lparr>rwv_id = wvr_id w, rwv_dimension = wvr_dimension w,
                       rwv_authority = wvr_authority w, rwv_granted_at = wvr_granted_at w\<rparr>)))))"

fun project_all :: "seal \<Rightarrow> CheckState list \<Rightarrow> err + ReadinessRequirement list" where
  "project_all seal [] = Inr []"
| "project_all seal (s # ss) = (case CheckState_Validate seal s of
     Some e \<Rightarrow> Inl e
   | None \<Rightarrow> ebind (projectReadinessRequirement s) (\<lambda>q. ebind (project_all seal ss) (\<lambda>qs. Inr (q # qs))))"

definition NewReadinessDetail ::
  "seal \<Rightarrow> EvaluationTarget \<Rightarrow> ReadinessVerdict \<Rightarrow> CheckState list \<Rightarrow> string \<Rightarrow> string \<Rightarrow> err + ReadinessDetail" where
  "NewReadinessDetail seal target verdict recorded handoffTip handoffMerge =
     (case ReadinessVerdict_Validate verdict of
        Some e \<Rightarrow> Inl e
      | None \<Rightarrow> (case tgt_base target of
          None \<Rightarrow> Inl ErrEmptyField
        | Some base \<Rightarrow>
            if handoffTip = [] then Inl ErrEmptyField
            else ebind (project_all seal recorded) (\<lambda>requirements.
              let detail = \<lparr>rdt_digest = rvd_digest verdict, rdt_head = tgt_head target, rdt_base_ref = bas_ref base,
                    rdt_base_sha = bas_sha base, rdt_handoff_tip = handoffTip,
                    rdt_handoff_merge = (if handoffMerge \<noteq> [] then Some \<lparr>pmi_base = handoffTip,
                       pmi_head = tgt_head target, pmi_merge = handoffMerge\<rparr> else None),
                    rdt_requirements = sort_key rrq_key requirements\<rparr>
              in case ReadinessDetail_Validate detail of
                  Some e \<Rightarrow> Inl e
                | None \<Rightarrow> if Class detail \<noteq> rvd_class verdict then Inl ErrReadinessDetailInconsistent
                    else Inr detail)))"

section \<open>Valid states\<close>

lemma Resolution_valid_digest: "RequirementResolution_Validate seal r = None \<Longrightarrow> resolution_digest seal r = res_digest r"
  by (simp add: RequirementResolution_Validate_def validation)

text \<open>A valid state is one of three shapes.\<close>

datatype check_view = NotApplicable | Passed CheckProof | Unpassed AdvisoryOutcome "ValidatedDegradedWaiver option"

definition view :: "CheckState \<Rightarrow> check_view option" where
  "view s = (if cst_not_applicable s then Some NotApplicable
     else Option.bind (cst_applicable s) (\<lambda>a. case acs_proof a of
       Some p \<Rightarrow> Some (Passed p)
     | None \<Rightarrow> map_option (\<lambda>f. Unpassed (cfl_outcome f) (cfl_waiver f)) (acs_failure a)))"

definition eligible_waiver :: "RequirementResolution \<Rightarrow> ValidatedDegradedWaiver \<Rightarrow> bool" where
  "eligible_waiver r w \<longleftrightarrow> Waiver_Validate w = None \<and> res_kind r = RequirementRequired \<and> WaiverEligible (res_class r)
     \<and> wvr_resolution w = res_digest r \<and> wvr_floor w = res_floor r"

lemma CheckState_valid_cases [consumes 1, case_names not_applicable passed unpassed]:
  assumes "CheckState_Validate seal s = None"
  obtains "view s = Some NotApplicable" "\<not> res_applicable (cst_resolution s)"
      "RequirementResolution_Validate seal (cst_resolution s) = None" "cst_not_applicable s" "cst_applicable s = None"
  | p where "view s = Some (Passed p)" "res_applicable (cst_resolution s)"
      "RequirementResolution_Validate seal (cst_resolution s) = None" "\<not> cst_not_applicable s"
      "proof_validateFor seal p (cst_resolution s) = None"
      "cst_applicable s = Some \<lparr>acs_proof = Some p, acs_failure = None\<rparr>"
  | f where "view s = Some (Unpassed (cfl_outcome f) (cfl_waiver f))" "res_applicable (cst_resolution s)"
      "RequirementResolution_Validate seal (cst_resolution s) = None" "\<not> cst_not_applicable s"
      "AdvisoryOutcome_valid (cfl_outcome f)" "\<forall>w. cfl_waiver f = Some w \<longrightarrow> eligible_waiver (cst_resolution s) w"
      "cst_applicable s = Some \<lparr>acs_proof = None, acs_failure = Some f\<rparr>"
proof -
  from assms have r: "RequirementResolution_Validate seal (cst_resolution s) = None"
    and na: "cst_not_applicable s \<noteq> (cst_applicable s \<noteq> None)" "cst_not_applicable s \<noteq> res_applicable (cst_resolution s)"
    by (auto simp: CheckState_Validate_def Let_def validation)
  show thesis
  proof (cases "cst_not_applicable s")
    case True
    with na r show ?thesis by (intro that(1)) (simp_all add: view_def)
  next
    case False
    with na(1) obtain a where a: "cst_applicable s = Some a" by auto
    obtain pr fl where a': "a = \<lparr>acs_proof = pr, acs_failure = fl\<rparr>" by (cases a)
    show ?thesis
    proof (cases pr)
      case (Some p)
      with assms False a a' na r show ?thesis
        by (intro that(2) [of p]) (simp_all add: view_def CheckState_Validate_def Let_def validation)
    next
      case None
      with assms False a a' obtain f where f: "fl = Some f"
        by (auto simp: CheckState_Validate_def Let_def validation)
      with assms False a a' None na r show ?thesis
        by (intro that(3) [of f]) (auto simp: view_def CheckState_Validate_def Let_def validation eligible_waiver_def)
    qed
  qed
qed

section \<open>The loop\<close>

definition state_digest :: "CheckState \<Rightarrow> string" where
  "state_digest s = res_digest (cst_resolution s)"

lemma index_states_Inr:
  "index_states seal by ss = Inr by' \<Longrightarrow> distinct_keys by \<Longrightarrow>
     (\<forall>s \<in> set ss. CheckState_Validate seal s = None) \<and> distinct (map state_digest ss)
     \<and> (\<forall>s \<in> set ss. map_of by (state_digest s) = None) \<and> distinct_keys by'
     \<and> (\<forall>k s. map_of by' k = Some s \<longleftrightarrow> map_of by k = Some s \<or> s \<in> set ss \<and> state_digest s = k)"
proof (induction ss arbitrary: "by")
  case (Cons s ss)
  let ?by = "AList.update (state_digest s) s by"
  from Cons.prems(1) have v: "CheckState_Validate seal s = None" "map_of by (state_digest s) = None"
    and i: "index_states seal ?by ss = Inr by'"
    by (auto simp: Let_def state_digest_def split: option.split_asm if_split_asm)
  have m: "map_of ?by k = (if k = state_digest s then Some s else map_of by k)" for k by (simp add: update_conv')
  from Cons.IH [OF i] Cons.prems(2) have h: "\<forall>x \<in> set ss. CheckState_Validate seal x = None" "distinct (map state_digest ss)"
    "\<forall>x \<in> set ss. map_of ?by (state_digest x) = None" "distinct_keys by'"
    "\<And>k x. map_of by' k = Some x \<longleftrightarrow> map_of ?by k = Some x \<or> x \<in> set ss \<and> state_digest x = k"
    by (simp_all add: tbl.keyed_upsert)
  from h(3) have nd: "\<forall>x \<in> set ss. state_digest x \<noteq> state_digest s \<and> map_of by (state_digest x) = None"
    by (auto simp: m split: if_split_asm)
  have "map_of by' k = Some x \<longleftrightarrow> map_of by k = Some x \<or> x \<in> set (s # ss) \<and> state_digest x = k" for k x
    unfolding h(5) m using v(2) by (cases "k = state_digest s") auto
  with v h(1,2,4) nd show ?case by (auto simp del: map_of_eq_Some_iff)
qed simp

lemma index_states_ok:
  "\<forall>s \<in> set ss. CheckState_Validate seal s = None \<Longrightarrow> distinct (map state_digest ss) \<Longrightarrow>
     \<forall>s \<in> set ss. map_of by (state_digest s) = None \<Longrightarrow> \<exists>by'. index_states seal by ss = Inr by'"
proof (induction ss arbitrary: "by")
  case (Cons s ss)
  have "\<forall>x \<in> set ss. map_of (AList.update (state_digest s) s by) (state_digest x) = None"
    using Cons.prems(2,3) by (auto simp: update_conv' rev_image_eqI)
  from Cons.IH [OF _ _ this] Cons.prems show ?case by (auto simp: state_digest_def Let_def)
qed simp

text \<open>What one resolution contributes, given the state recorded for it.\<close>

fun reasons_for :: "RequirementResolution \<Rightarrow> CheckState option \<Rightarrow> ReadinessBlockReason list" where
  "reasons_for r None = [\<lparr>rbr_resolution = res_digest r, rbr_outcome = AdvisoryNotRun, rbr_absent = True\<rparr>]"
| "reasons_for r (Some s) = (case view s of
     Some (Unpassed outcome None) \<Rightarrow> if res_kind r = RequirementRequired
       then [\<lparr>rbr_resolution = res_digest r, rbr_outcome = outcome, rbr_absent = False\<rparr>] else []
   | _ \<Rightarrow> [])"

fun waivers_for :: "RequirementResolution \<Rightarrow> CheckState option \<Rightarrow> string list" where
  "waivers_for r None = []"
| "waivers_for r (Some s) = (case view s of
     Some (Unpassed outcome (Some w)) \<Rightarrow> if res_kind r = RequirementRequired then [wvr_id w] else []
   | _ \<Rightarrow> [])"

fun advisories_for :: "RequirementResolution \<Rightarrow> CheckState option \<Rightarrow> AdvisoryOutcomeRecord list" where
  "advisories_for r None = []"
| "advisories_for r (Some s) = (case view s of
     Some (Unpassed outcome w) \<Rightarrow> if res_kind r = RequirementRequired then []
       else [\<lparr>aor_resolution = res_digest r, aor_outcome = outcome\<rparr>]
   | _ \<Rightarrow> [])"

definition entry_for :: "RequirementResolution \<Rightarrow> CheckState option \<Rightarrow> evaluationEntry" where
  "entry_for r s = \<lparr>ent_resolution = r, ent_missing = (s = None), ent_state = s\<rparr>"

definition state_admitted :: "EvaluationTarget \<Rightarrow> waiver_gate option \<Rightarrow> RequirementResolution \<Rightarrow> CheckState \<Rightarrow> bool" where
  "state_admitted target gate r s = (case view s of
     Some (Passed p) \<Rightarrow> covers target r p = None
   | Some (Unpassed outcome (Some w)) \<Rightarrow> res_kind r = RequirementRequired \<longrightarrow>
       (case gate of None \<Rightarrow> False | Some g \<Rightarrow> g r w = None)
   | _ \<Rightarrow> True)"

definition contribute :: "RequirementResolution \<Rightarrow> CheckState option \<Rightarrow> evaluation \<Rightarrow> evaluation" where
  "contribute r s st = st\<lparr>evl_entries := evl_entries st @ [entry_for r s],
     evl_reasons := evl_reasons st @ reasons_for r s, evl_waivers := evl_waivers st @ waivers_for r s,
     evl_advisories := evl_advisories st @ advisories_for r s\<rparr>"

lemma evaluation_id: "st\<lparr>evl_entries := evl_entries st @ [x], evl_reasons := evl_reasons st,
    evl_waivers := evl_waivers st, evl_advisories := evl_advisories st\<rparr> = st\<lparr>evl_entries := evl_entries st @ [x]\<rparr>"
  by simp

lemma evaluate_state_Inr:
  assumes "CheckState_Validate seal s = None"
  shows "evaluate_state target gate r s (st\<lparr>evl_entries := evl_entries st @ [entry_for r (Some s)]\<rparr>) = Inr st'
    \<longleftrightarrow> state_admitted target gate r s \<and> st' = contribute r (Some s) st"
  using assms
proof (cases rule: CheckState_valid_cases)
  case not_applicable
  then show ?thesis by (auto simp: evaluate_state_def state_admitted_def contribute_def)
next
  case (passed p)
  then show ?thesis by (auto simp: evaluate_state_def state_admitted_def contribute_def of_err_Inr_iff)
next
  case (unpassed f)
  then show ?thesis
    by (cases "cfl_waiver f"; cases "res_kind r = RequirementRequired"; cases gate)
      (auto simp: evaluate_state_def state_admitted_def contribute_def split: option.split)
qed

text \<open>All rounds at once.\<close>

definition common_set :: "(string \<times> int) option \<Rightarrow> RequirementResolution list \<Rightarrow> bool" where
  "common_set o' rs \<longleftrightarrow> (\<forall>r \<in> set rs. (res_set_digest r, res_floor r)
     = (case o' of Some x \<Rightarrow> x | None \<Rightarrow> (res_set_digest (hd rs), res_floor (hd rs))))"

lemma common_set_Cons: "common_set o' (r # rs) \<longleftrightarrow>
    (\<forall>x. o' = Some x \<longrightarrow> (res_set_digest r, res_floor r) = x)
    \<and> common_set (Some (case o' of None \<Rightarrow> (res_set_digest r, res_floor r) | Some x \<Rightarrow> x)) rs"
  by (cases o') (auto simp: common_set_def)

definition contributions :: "(string \<Rightarrow> CheckState option) \<Rightarrow> RequirementResolution list \<Rightarrow> evaluation \<Rightarrow> evaluation" where
  "contributions look rs st = foldl (\<lambda>st r. contribute r (look (res_digest r)) st) st rs"

definition same_results :: "evaluation \<Rightarrow> evaluation \<Rightarrow> bool" where
  "same_results a b \<longleftrightarrow> evl_entries a = evl_entries b \<and> evl_reasons a = evl_reasons b
     \<and> evl_waivers a = evl_waivers b \<and> evl_advisories a = evl_advisories b"

lemma contribute_results: "same_results a b \<Longrightarrow> same_results (contribute r s a) (contribute r s b)"
  by (simp add: same_results_def contribute_def)

lemma contributions_results: "same_results a b \<Longrightarrow> same_results (contributions look rs a) (contributions look rs b)"
proof (induction rs arbitrary: a b)
  case (Cons r rs)
  from Cons.IH [OF contribute_results [OF Cons.prems]] show ?case by (simp add: contributions_def)
qed (simp add: contributions_def)

lemma contributions_cong:
  "\<forall>r \<in> set rs. f (res_digest r) = g (res_digest r) \<Longrightarrow> contributions f rs st = contributions g rs st"
  by (induction rs arbitrary: st) (simp_all add: contributions_def)

definition one_round :: "RequirementResolution \<Rightarrow> evaluation \<Rightarrow> evaluation" where
  "one_round r st = contribute r (map_of (evl_by st) (res_digest r)) (st\<lparr>
     evl_set := Some (case evl_set st of None \<Rightarrow> (res_set_digest r, res_floor r) | Some x \<Rightarrow> x),
     evl_seen := res_key r # evl_seen st, evl_by := AList.delete (res_digest r) (evl_by st)\<rparr>)"

lemma evaluate_one_Inr:
  assumes v: "\<forall>k s. map_of (evl_by st) k = Some s \<longrightarrow> CheckState_Validate seal s = None"
  shows "evaluate_one seal target gate r st = Inr st' \<longleftrightarrow> RequirementResolution_Validate seal r = None
    \<and> (\<forall>x. evl_set st = Some x \<longrightarrow> (res_set_digest r, res_floor r) = x) \<and> res_key r \<notin> set (evl_seen st)
    \<and> (\<forall>s. map_of (evl_by st) (res_digest r) = Some s \<longrightarrow> state_admitted target gate r s)
    \<and> st' = one_round r st"
proof (cases "first_error [RequirementResolution_Validate seal r,
        when_ptr (evl_set st) (\<lambda>(set_digest, floor).
          require (\<not> (res_set_digest r \<noteq> set_digest \<or> res_floor r \<noteq> floor)) ErrParentKeyMismatch),
        require (res_key r \<notin> set (evl_seen st)) ErrDuplicate]")
  case None
  then have ok: "RequirementResolution_Validate seal r = None"
    "\<forall>x. evl_set st = Some x \<longrightarrow> (res_set_digest r, res_floor r) = x" "res_key r \<notin> set (evl_seen st)"
    by (auto simp: validation)
  show ?thesis
  proof (cases "map_of (evl_by st) (res_digest r)")
    case m: None
    then have "AList.delete (res_digest r) (evl_by st) = evl_by st"
      by (intro delete_id) (simp add: map_of_eq_None_iff)
    with m None ok show ?thesis
      by (auto simp: evaluate_one_def Let_def one_round_def contribute_def entry_for_def)
  next
    case (Some s)
    let ?st = "st\<lparr>evl_set := Some (case evl_set st of None \<Rightarrow> (res_set_digest r, res_floor r) | Some x \<Rightarrow> x),
      evl_seen := res_key r # evl_seen st, evl_by := AList.delete (res_digest r) (evl_by st)\<rparr>"
    have "evaluate_one seal target gate r st = evaluate_state target gate r s
        (?st\<lparr>evl_entries := evl_entries ?st @ [entry_for r (Some s)]\<rparr>)"
      using None Some by (simp add: evaluate_one_def Let_def entry_for_def)
    moreover have "CheckState_Validate seal s = None" using v Some by blast
    ultimately show ?thesis using ok Some evaluate_state_Inr [of seal s target gate r ?st st'] by (simp add: one_round_def)
  qed
next
  case (Some e)
  then have "\<not> (RequirementResolution_Validate seal r = None \<and> (\<forall>x. evl_set st = Some x \<longrightarrow> (res_set_digest r, res_floor r) = x)
      \<and> res_key r \<notin> set (evl_seen st))"
    by (cases "evl_set st") (auto simp: validation)
  with Some show ?thesis by (auto simp: evaluate_one_def)
qed

lemma evaluate_all_Inr:
  assumes "\<forall>k s. map_of (evl_by st) k = Some s \<longrightarrow> CheckState_Validate seal s = None"
    and "distinct (map res_digest rs)"
  shows "evaluate_all seal target gate rs st = Inr st' \<longleftrightarrow> (\<forall>r \<in> set rs. RequirementResolution_Validate seal r = None)
    \<and> common_set (evl_set st) rs \<and> distinct (map res_key rs) \<and> set (map res_key rs) \<inter> set (evl_seen st) = {}
    \<and> (\<forall>r \<in> set rs. \<forall>s. map_of (evl_by st) (res_digest r) = Some s \<longrightarrow> state_admitted target gate r s)
    \<and> st' = foldl (\<lambda>st r. one_round r st) st rs"
  using assms
proof (induction rs arbitrary: st)
  case Nil
  show ?case by (auto simp: common_set_def)
next
  case (Cons r rs)
  let ?st = "one_round r st"
  have r: "evl_by ?st = AList.delete (res_digest r) (evl_by st)" "evl_seen ?st = res_key r # evl_seen st"
    "evl_set ?st = Some (case evl_set st of None \<Rightarrow> (res_set_digest r, res_floor r) | Some x \<Rightarrow> x)"
    by (simp_all add: one_round_def contribute_def)
  have m: "map_of (evl_by ?st) k = (if k = res_digest r then None else map_of (evl_by st) k)" for k
    by (simp add: r(1) tbl.lookup_remove)
  have v: "\<forall>k s. map_of (evl_by ?st) k = Some s \<longrightarrow> CheckState_Validate seal s = None"
    using Cons.prems(1) by (simp add: m del: map_of_eq_Some_iff)
  have look: "map_of (evl_by ?st) (res_digest q) = map_of (evl_by st) (res_digest q)" if "q \<in> set rs" for q
    using Cons.prems(2) that by (auto simp: m rev_image_eqI)
  have "evaluate_all seal target gate (r # rs) st = Inr st' \<longleftrightarrow>
      (\<exists>st1. evaluate_one seal target gate r st = Inr st1 \<and> evaluate_all seal target gate rs st1 = Inr st')"
    by (simp add: ebind_Inr_iff)
  also have "\<dots> \<longleftrightarrow> RequirementResolution_Validate seal r = None
    \<and> (\<forall>x. evl_set st = Some x \<longrightarrow> (res_set_digest r, res_floor r) = x) \<and> res_key r \<notin> set (evl_seen st)
    \<and> (\<forall>s. map_of (evl_by st) (res_digest r) = Some s \<longrightarrow> state_admitted target gate r s)
    \<and> evaluate_all seal target gate rs ?st = Inr st'"
    unfolding evaluate_one_Inr [OF Cons.prems(1)] by blast
  also have "\<dots> \<longleftrightarrow> (\<forall>q \<in> set (r # rs). RequirementResolution_Validate seal q = None)
    \<and> common_set (evl_set st) (r # rs) \<and> distinct (map res_key (r # rs)) \<and> set (map res_key (r # rs)) \<inter> set (evl_seen st) = {}
    \<and> (\<forall>q \<in> set (r # rs). \<forall>s. map_of (evl_by st) (res_digest q) = Some s \<longrightarrow> state_admitted target gate q s)
    \<and> st' = foldl (\<lambda>st r. one_round r st) st (r # rs)"
    using Cons.IH [OF v] Cons.prems(2) look by (auto simp: common_set_Cons r(2,3) simp del: map_of_eq_Some_iff)
  finally show ?case .
qed

text \<open>What the rounds leave.\<close>

lemma rounds_results:
  assumes "distinct (map res_digest rs)"
  shows "same_results (foldl (\<lambda>st r. one_round r st) st rs) (contributions (map_of (evl_by st)) rs st)
    \<and> evl_by (foldl (\<lambda>st r. one_round r st) st rs) = filter (\<lambda>kv. fst kv \<notin> res_digest ` set rs) (evl_by st)"
  using assms
proof (induction rs arbitrary: st)
  case Nil
  show ?case by (simp add: same_results_def contributions_def)
next
  case (Cons r rs)
  let ?st = "one_round r st"
  have r: "evl_by ?st = AList.delete (res_digest r) (evl_by st)" by (simp add: one_round_def contribute_def)
  have look: "\<forall>q \<in> set rs. map_of (evl_by ?st) (res_digest q) = map_of (evl_by st) (res_digest q)"
    using Cons.prems by (auto simp: r tbl.lookup_remove rev_image_eqI)
  have s: "same_results ?st (contribute r (map_of (evl_by st) (res_digest r)) st)"
    by (simp add: same_results_def one_round_def contribute_def)
  from Cons.IH [of ?st] Cons.prems have i: "same_results (foldl (\<lambda>st r. one_round r st) ?st rs) (contributions (map_of (evl_by ?st)) rs ?st)"
    "evl_by (foldl (\<lambda>st r. one_round r st) ?st rs) = filter (\<lambda>kv. fst kv \<notin> res_digest ` set rs) (evl_by ?st)" by simp_all
  from i(1) contributions_results [OF s, of "map_of (evl_by st)" rs] contributions_cong [OF look, of ?st]
  have "same_results (foldl (\<lambda>st r. one_round r st) st (r # rs)) (contributions (map_of (evl_by st)) (r # rs) st)"
    by (simp add: same_results_def contributions_def)
  moreover have "evl_by (foldl (\<lambda>st r. one_round r st) st (r # rs)) = filter (\<lambda>kv. fst kv \<notin> res_digest ` set (r # rs)) (evl_by st)"
    using i(2) by (simp add: r AList.delete_eq) (rule filter_cong, auto)
  ultimately show ?case by blast
qed

lemma contributions_lists:
  "evl_entries (contributions look rs st) = evl_entries st @ map (\<lambda>r. entry_for r (look (res_digest r))) rs
   \<and> evl_reasons (contributions look rs st) = evl_reasons st @ concat (map (\<lambda>r. reasons_for r (look (res_digest r))) rs)
   \<and> evl_waivers (contributions look rs st) = evl_waivers st @ concat (map (\<lambda>r. waivers_for r (look (res_digest r))) rs)
   \<and> evl_advisories (contributions look rs st) = evl_advisories st @ concat (map (\<lambda>r. advisories_for r (look (res_digest r))) rs)"
  by (induction rs arbitrary: st) (simp_all add: contributions_def contribute_def)

section \<open>The evaluation as one judgement\<close>

text \<open>
  Digests that agree belong to equal resolutions: no collision among the resolutions at hand.
\<close>

definition no_collision :: "RequirementResolution list \<Rightarrow> CheckState list \<Rightarrow> bool" where
  "no_collision rs ss \<longleftrightarrow> (\<forall>r \<in> set rs. \<forall>q \<in> set rs \<union> cst_resolution ` set ss. res_digest q = res_digest r \<longrightarrow> q = r)"

definition recorded_state :: "CheckState list \<Rightarrow> RequirementResolution \<Rightarrow> CheckState option" where
  "recorded_state ss r = find (\<lambda>s. state_digest s = res_digest r) ss"

text \<open>What the evaluation refuses, and the verdict it gives otherwise, as functions of the whole input.\<close>

definition admissible ::
  "seal \<Rightarrow> EvaluationTarget \<Rightarrow> waiver_gate option \<Rightarrow> RequirementResolution list \<Rightarrow> CheckState list \<Rightarrow> bool" where
  "admissible seal target gate rs ss \<longleftrightarrow> tgt_head target \<noteq> [] \<and> (tgt_merge target = [] \<or> tgt_base target \<noteq> None)
     \<and> rs \<noteq> [] \<and> list_all (\<lambda>r. RequirementResolution_Validate seal r = None) rs \<and> distinct (map res_key rs)
     \<and> list_all (\<lambda>r. list_all (\<lambda>q. res_set_digest q = res_set_digest r \<and> res_floor q = res_floor r) rs) rs
     \<and> list_all (\<lambda>s. CheckState_Validate seal s = None) ss \<and> distinct (map state_digest ss)
     \<and> list_all (\<lambda>s. state_digest s \<in> res_digest ` set rs) ss
     \<and> list_all (\<lambda>r. case recorded_state ss r of None \<Rightarrow> True | Some s \<Rightarrow> state_admitted target gate r s) rs"

definition blockers :: "RequirementResolution list \<Rightarrow> CheckState list \<Rightarrow> ReadinessBlockReason list" where
  "blockers rs ss = concat (map (\<lambda>r. reasons_for r (recorded_state ss r)) (sort_key res_key rs))"

definition judgement :: "seal \<Rightarrow> EvaluationTarget \<Rightarrow> RequirementResolution list \<Rightarrow> CheckState list \<Rightarrow> err + ReadinessVerdict" where
  "judgement seal target rs ss =
     (let sorted = sort_key res_key rs;
          entries = map (\<lambda>r. entry_for r (recorded_state ss r)) sorted;
          waivers = sort (concat (map (\<lambda>r. waivers_for r (recorded_state ss r)) sorted));
          advisories = sort_key aor_resolution (concat (map (\<lambda>r. advisories_for r (recorded_state ss r)) sorted));
          v = (if blockers rs ss \<noteq> []
            then \<lparr>rvd_class = ReadinessBlocked, rvd_digest = [], rvd_reasons = blockers rs ss, rvd_waivers = [],
              rvd_advisories = []\<rparr>
            else \<lparr>rvd_class = (if length waivers + length advisories \<noteq> 0 then ReadinessReadyDegraded
                else ReadinessReadyClean),
              rvd_digest = seal (SealEvaluation target entries), rvd_reasons = [], rvd_waivers = waivers,
              rvd_advisories = advisories\<rparr>)
      in if blockers rs ss = [] \<and> \<not> list_all entry_marshals entries then Inl ErrMarshal
         else of_err (ReadinessVerdict_Validate v) v)"

lemma recorded_state_Some: "recorded_state ss r = Some s \<Longrightarrow> s \<in> set ss \<and> state_digest s = res_digest r"
  by (auto simp: recorded_state_def find_Some_iff)

lemma recorded_state_iff: "distinct (map state_digest ss) \<Longrightarrow>
    recorded_state ss r = Some s \<longleftrightarrow> s \<in> set ss \<and> state_digest s = res_digest r"
proof
  assume d: "distinct (map state_digest ss)" and s: "s \<in> set ss \<and> state_digest s = res_digest r"
  then have "recorded_state ss r \<noteq> None" by (auto simp: recorded_state_def find_None_iff)
  then obtain s' where s': "recorded_state ss r = Some s'" by blast
  from d have "inj_on state_digest (set ss)" by (simp add: distinct_map)
  with recorded_state_Some [OF s'] s have "s' = s" by (metis inj_onD)
  with s' show "recorded_state ss r = Some s" by simp
qed (rule recorded_state_Some)

lemma common_set_sorted: "rs \<noteq> [] \<Longrightarrow> common_set None (sort_key f rs)
    \<longleftrightarrow> list_all (\<lambda>r. list_all (\<lambda>q. res_set_digest q = res_set_digest r \<and> res_floor q = res_floor r) rs) rs"
proof -
  assume "rs \<noteq> []"
  then have h: "hd (sort_key f rs) \<in> set rs" by (metis list.set_sel(1) set_empty set_sort)
  show ?thesis
    unfolding common_set_def list_all_iff set_sort option.case prod.inject using h by (metis (mono_tags, lifting))
qed

lemma distinct_map_sort: "distinct (map f (sort_key g xs)) \<longleftrightarrow> distinct (map f xs)"
  by (simp add: distinct_map)

lemma evaluate_all_keys:
  "\<forall>k s. map_of (evl_by st) k = Some s \<longrightarrow> CheckState_Validate seal s = None \<Longrightarrow>
     evaluate_all seal target gate rs st = Inr st' \<Longrightarrow> distinct (map res_key rs) \<and> set (map res_key rs) \<inter> set (evl_seen st) = {}"
proof (induction rs arbitrary: st)
  case (Cons r rs)
  let ?st = "one_round r st"
  from Cons.prems(2) have e: "res_key r \<notin> set (evl_seen st)" "evaluate_all seal target gate rs ?st = Inr st'"
    by (auto simp: ebind_Inr_iff evaluate_one_Inr [OF Cons.prems(1)])
  have "\<forall>k s. map_of (evl_by ?st) k = Some s \<longrightarrow> CheckState_Validate seal s = None"
    using Cons.prems(1) by (simp add: one_round_def contribute_def tbl.lookup_remove del: map_of_eq_Some_iff)
  from Cons.IH [OF this e(2)] e(1) show ?case by (auto simp: one_round_def contribute_def)
qed simp

lemma EvaluateReadiness_reference:
  assumes nc: "no_collision rs ss"
  shows "EvaluateReadiness seal target rs ss gate = Inr v
    \<longleftrightarrow> admissible seal target gate rs ss \<and> judgement seal target rs ss = Inr v"
proof (cases "tgt_head target = [] \<or> (tgt_merge target \<noteq> [] \<and> tgt_base target = None) \<or> rs = []
    \<or> \<not> (\<forall>s \<in> set ss. CheckState_Validate seal s = None) \<or> \<not> distinct (map state_digest ss)")
  case True
  have "\<exists>e. EvaluateReadiness seal target rs ss gate = Inl e"
  proof (cases "index_states seal [] ss")
    case (Inr b)
    with index_states_Inr [OF Inr] True show ?thesis by (auto simp: EvaluateReadiness_def)
  qed (auto simp: EvaluateReadiness_def)
  with True show ?thesis by (auto simp: admissible_def list_all_iff)
next
  case False
  then have g: "tgt_head target \<noteq> []" "tgt_merge target = [] \<or> tgt_base target \<noteq> None" "rs \<noteq> []"
    "\<forall>s \<in> set ss. CheckState_Validate seal s = None" "distinct (map state_digest ss)" by auto
  from index_states_ok [OF g(4,5), of "[]"] obtain b where b: "index_states seal [] ss = Inr b" by auto
  from index_states_Inr [OF b] have bm: "\<And>k s. map_of b k = Some s \<longleftrightarrow> s \<in> set ss \<and> state_digest s = k"
    and bd: "distinct_keys b" by auto
  have look: "map_of b (res_digest r) = recorded_state ss r" for r
  proof -
    have "map_of b (res_digest r) = Some s \<longleftrightarrow> recorded_state ss r = Some s" for s
      using bm recorded_state_iff [OF g(5)] by metis
    then show ?thesis by (metis not_Some_eq)
  qed
  let ?sorted = "sort_key res_key rs"
  let ?st = "\<lparr>evl_by = b, evl_seen = [], evl_set = None, evl_entries = [], evl_reasons = [], evl_waivers = [],
           evl_advisories = []\<rparr>"
  have eval: "EvaluateReadiness seal target rs ss gate
      = ebind (evaluate_all seal target gate ?sorted ?st) (conclude_evaluation seal target)"
    using g b by (auto simp: EvaluateReadiness_def)
  have valid: "\<forall>k s. map_of (evl_by ?st) k = Some s \<longrightarrow> CheckState_Validate seal s = None"
    using g(4) bm by simp
  show ?thesis
  proof (cases "distinct (map res_key rs)")
    case False
    have "\<not> distinct (map res_key ?sorted)" using False by (simp add: distinct_map_sort)
    with evaluate_all_keys [OF valid] have "\<nexists>st'. evaluate_all seal target gate ?sorted ?st = Inr st'" by blast
    with False show ?thesis unfolding eval by (auto simp: ebind_Inr_iff admissible_def)
  next
    case True
    have dd: "distinct (map res_digest ?sorted)"
    proof -
      have "inj_on res_digest (set rs)" using nc by (auto simp: no_collision_def inj_on_def)
      moreover have "distinct rs" using True by (simp add: distinct_map)
      ultimately show ?thesis by (simp add: distinct_map)
    qed
    let ?st' = "foldl (\<lambda>st r. one_round r st) ?st ?sorted"
    have res: "evl_entries ?st' = map (\<lambda>r. entry_for r (recorded_state ss r)) ?sorted" "evl_reasons ?st' = blockers rs ss"
      "evl_waivers ?st' = concat (map (\<lambda>r. waivers_for r (recorded_state ss r)) ?sorted)"
      "evl_advisories ?st' = concat (map (\<lambda>r. advisories_for r (recorded_state ss r)) ?sorted)"
      "evl_by ?st' = filter (\<lambda>kv. fst kv \<notin> res_digest ` set rs) b"
      using rounds_results [OF dd, of ?st] contributions_lists [of "map_of b" ?sorted ?st]
      by (simp_all add: same_results_def look blockers_def)
    have all: "evl_by ?st' = [] \<longleftrightarrow> list_all (\<lambda>s. state_digest s \<in> res_digest ` set rs) ss"
    proof -
      have "evl_by ?st' = [] \<longleftrightarrow> (\<forall>k s. map_of b k = Some s \<longrightarrow> k \<in> res_digest ` set rs)"
        unfolding res(5) filter_empty_conv in_table_iff [OF bd, symmetric] by auto
      also have "\<dots> \<longleftrightarrow> list_all (\<lambda>s. state_digest s \<in> res_digest ` set rs) ss"
        unfolding bm list_all_iff by blast
      finally show ?thesis .
    qed
    have "EvaluateReadiness seal target rs ss gate = Inr v \<longleftrightarrow>
        (\<forall>r \<in> set rs. RequirementResolution_Validate seal r = None) \<and> common_set None ?sorted
        \<and> (\<forall>r \<in> set rs. \<forall>s. recorded_state ss r = Some s \<longrightarrow> state_admitted target gate r s)
        \<and> conclude_evaluation seal target ?st' = Inr v"
      unfolding eval ebind_Inr_iff evaluate_all_Inr [OF valid dd] using True by (auto simp: look distinct_map_sort)
    also have "\<dots> \<longleftrightarrow> admissible seal target gate rs ss \<and> judgement seal target rs ss = Inr v"
    proof -
      have "conclude_evaluation seal target ?st' = Inr v
          \<longleftrightarrow> list_all (\<lambda>s. state_digest s \<in> res_digest ` set rs) ss \<and> judgement seal target rs ss = Inr v"
        unfolding conclude_evaluation_def judgement_def all [symmetric] res(1-4) Let_def
        by (cases "blockers rs ss = []"; cases "evl_by ?st' = []") (simp_all add: add_is_0)
      moreover have "admissible seal target gate rs ss \<longleftrightarrow> (\<forall>r \<in> set rs. RequirementResolution_Validate seal r = None)
          \<and> common_set None ?sorted \<and> list_all (\<lambda>s. state_digest s \<in> res_digest ` set rs) ss
          \<and> (\<forall>r \<in> set rs. \<forall>s. recorded_state ss r = Some s \<longrightarrow> state_admitted target gate r s)"
        using g True unfolding admissible_def common_set_sorted [OF g(3)] list_all_iff [of _ rs] list_all_iff [of "\<lambda>s. CheckState_Validate seal s = None"]
        by (auto split: option.split)
      ultimately show ?thesis by blast
    qed
    finally show ?thesis .
  qed
qed

section \<open>What a ready verdict means\<close>

lemma judgement_class:
  assumes "judgement seal target rs ss = Inr v"
  shows "rvd_class v = ReadinessBlocked \<longleftrightarrow> blockers rs ss \<noteq> []"
    "rvd_class v = ReadinessReadyClean \<longleftrightarrow> blockers rs ss = [] \<and> (\<forall>r \<in> set rs. waivers_for r (recorded_state ss r) = []
       \<and> advisories_for r (recorded_state ss r) = [])"
    "ReadinessVerdict_Validate v = None" "rvd_class v \<in> {ReadinessBlocked, ReadinessReadyClean, ReadinessReadyDegraded}"
  using assms by (auto simp: judgement_def Let_def of_err_Inr_iff split: if_split_asm)

lemma ready_state:
  assumes a: "admissible seal target gate rs ss" and b: "blockers rs ss = []" and nc: "no_collision rs ss" and r: "r \<in> set rs"
  obtains s where "recorded_state ss r = Some s" "s \<in> set ss" "CheckState_Validate seal s = None" "cst_resolution s = r"
    "state_admitted target gate r s" "reasons_for r (Some s) = []"
proof -
  from b r have n: "reasons_for r (recorded_state ss r) = []" by (auto simp: blockers_def)
  then obtain s where s: "recorded_state ss r = Some s" by (cases "recorded_state ss r") auto
  from recorded_state_Some [OF s] have m: "s \<in> set ss" "res_digest (cst_resolution s) = res_digest r"
    by (simp_all add: state_digest_def)
  with nc r have "cst_resolution s = r" unfolding no_collision_def by blast
  moreover from a m(1) have "CheckState_Validate seal s = None" by (simp add: admissible_def list_all_iff)
  moreover from a r s have "state_admitted target gate r s" by (auto simp: admissible_def list_all_iff)
  ultimately show ?thesis using s m(1) n that by simp
qed

definition covering_proof :: "seal \<Rightarrow> EvaluationTarget \<Rightarrow> RequirementResolution \<Rightarrow> CheckState list \<Rightarrow> CheckProof \<Rightarrow> bool" where
  "covering_proof seal target r ss p \<longleftrightarrow> CheckProof_Validate seal p = None \<and> prf_resolution p = res_digest r
     \<and> list_ex (\<lambda>s. cst_resolution s = r \<and> view s = Some (Passed p)) ss \<and> prf_head p = tgt_head target
     \<and> (res_base_dependent r \<longrightarrow> prf_base p \<noteq> None \<and> prf_base p = tgt_base target \<and> prf_merge p = tgt_merge target)
     \<and> (\<not> res_base_dependent r \<longrightarrow> prf_base p = None \<and> prf_merge p = [])"

lemma covers_proof:
  assumes "CheckState_Validate seal s = None" "view s = Some (Passed p)" "covers target (cst_resolution s) p = None" "s \<in> set ss"
  shows "covering_proof seal target (cst_resolution s) ss p"
proof -
  from assms(1) have v: "proof_validateFor seal p (cst_resolution s) = None"
    by (cases rule: CheckState_valid_cases) (use assms(2) in auto)
  then have b: "CheckProof_Validate seal p = None" "prf_resolution p = res_digest (cst_resolution s)"
    "prf_base p \<noteq> None \<longleftrightarrow> res_base_dependent (cst_resolution s)"
    by (auto simp: proof_validateFor_def validation)
  then have "\<not> res_base_dependent (cst_resolution s) \<Longrightarrow> prf_merge p = []"
    by (auto simp: CheckProof_Validate_def validation split: if_split_asm)
  with b assms show ?thesis
    by (cases "tgt_base target"; cases "prf_base p")
      (auto simp: covering_proof_def covers_def list_ex_iff split: if_split_asm)
qed

text \<open>A required check of a class that admits no waiver passes with a proof that covers the target.\<close>

lemma unwaivable_passed:
  assumes "EvaluateReadiness seal target rs ss gate = Inr v" and "rvd_class v \<noteq> ReadinessBlocked"
    and "no_collision rs ss" and "r \<in> set rs" and "res_applicable r" "res_kind r = RequirementRequired"
    and "\<not> WaiverEligible (res_class r)"
  obtains s p where "recorded_state ss r = Some s" "view s = Some (Passed p)" "covering_proof seal target r ss p"
proof -
  from assms(1) have a: "admissible seal target gate rs ss" and j: "judgement seal target rs ss = Inr v"
    by (simp_all add: EvaluateReadiness_reference [OF assms(3)])
  from judgement_class(1) [OF j] assms(2) have "blockers rs ss = []" by simp
  from ready_state [OF a this assms(3,4)] obtain s where s: "recorded_state ss r = Some s" "s \<in> set ss"
    "CheckState_Validate seal s = None" "cst_resolution s = r" "state_admitted target gate r s" "reasons_for r (Some s) = []"
    by metis
  from s(3) obtain p where "view s = Some (Passed p)"
  proof (cases rule: CheckState_valid_cases)
    case (unpassed f)
    show ?thesis
    proof (cases "cfl_waiver f")
      case None
      with unpassed(1) s(6) assms(6) show ?thesis by simp
    next
      case (Some w)
      with unpassed(6) s(4) assms(7) show ?thesis by (simp add: eligible_waiver_def)
    qed
  qed (use assms(5) s(4) in auto)
  with s covers_proof [of seal s p target ss] have "covering_proof seal target r ss p" by (simp add: state_admitted_def)
  with s(1) \<open>view s = Some (Passed p)\<close> that show thesis by blast
qed

text \<open>
  C17: nothing stands in for the checks a waiver may not cover: when an evaluation over resolutions that
  include the production requirements is not blocked, clean verification and independent review each
  have a recorded, sealed, passing proof that names the evaluated head, the evaluated base and the
  evaluated merge, whatever waivers and gate were supplied.
\<close>

theorem production_ready_sound:
  assumes "EvaluateReadiness seal target rs ss gate = Inr v" and "rvd_class v \<noteq> ReadinessBlocked"
    and "no_collision rs ss" and "d \<in> set ProductionRequirementDefinitions"
    and "r \<in> set rs" and "res_key r = def_key d \<and> res_class r = def_class d \<and> res_kind r = def_kind d
      \<and> res_applicable r = def_applicable d \<and> res_base_dependent r = def_base_dependent d"
  shows "\<exists>p. covering_proof seal target r ss p \<and> prf_base p \<noteq> None \<and> prf_base p = tgt_base target
    \<and> prf_merge p = tgt_merge target"
proof -
  from assms(4,6) have r: "res_applicable r" "res_base_dependent r" "res_kind r = RequirementRequired" "\<not> WaiverEligible (res_class r)"
    by (auto simp: ProductionRequirementDefinitions_def)
  from unwaivable_passed [OF assms(1-3,5) r(1,3,4)] obtain p where "covering_proof seal target r ss p" by metis
  with r(2) show ?thesis by (auto simp: covering_proof_def)
qed

section \<open>The verdict exists\<close>

lemma all_fresh_iff: "all_fresh ok key seen xs \<longleftrightarrow> (\<forall>x \<in> set xs. ok x) \<and> distinct (map key xs)
    \<and> set (map key xs) \<inter> set seen = {}"
  by (induction xs arbitrary: seen) auto

lemma distinct_concat_single:
  assumes "\<And>r x. r \<in> set rs \<Longrightarrow> x \<in> set (f r) \<Longrightarrow> f r = [x]"
    and "\<And>r q x y. r \<in> set rs \<Longrightarrow> q \<in> set rs \<Longrightarrow> x \<in> set (f r) \<Longrightarrow> y \<in> set (f q) \<Longrightarrow> key x = key y \<Longrightarrow> r = q"
    and "distinct rs"
  shows "distinct (map key (concat (map f rs)))"
  using assms
proof (induction rs)
  case (Cons r rs)
  have "distinct (map key (f r))"
  proof (cases "f r")
    case (Cons x xs)
    with Cons.prems(1) [of r x] show ?thesis by simp
  qed simp
  moreover have "key ` set (f r) \<inter> key ` set (concat (map f rs)) = {}"
  proof (rule ccontr)
    assume "key ` set (f r) \<inter> key ` set (concat (map f rs)) \<noteq> {}"
    then obtain x q y where "x \<in> set (f r)" "q \<in> set rs" "y \<in> set (f q)" "key x = key y" by auto
    with Cons.prems(2) [of r q x y] Cons.prems(3) show False by auto
  qed
  ultimately show ?case using Cons.IH Cons.prems by simp
qed simp

definition distinct_waivers :: "CheckState list \<Rightarrow> bool" where
  "distinct_waivers ss \<longleftrightarrow> (\<forall>s \<in> set ss. \<forall>q \<in> set ss. \<forall>w w'. waiver_of s = Some w \<longrightarrow> waiver_of q = Some w'
     \<longrightarrow> wvr_id w = wvr_id w' \<longrightarrow> s = q)"

lemma view_waiver: "CheckState_Validate seal s = None \<Longrightarrow> view s = Some (Unpassed x w) \<Longrightarrow> waiver_of s = w
    \<and> AdvisoryOutcome_valid x \<and> (\<forall>v. w = Some v \<longrightarrow> eligible_waiver (cst_resolution s) v)"
  by (cases rule: CheckState_valid_cases) (auto simp: waiver_of_def)

lemma blocked_verdict_valid: "ReadinessVerdict_Validate \<lparr>rvd_class = ReadinessBlocked, rvd_digest = [],
    rvd_reasons = rs, rvd_waivers = [], rvd_advisories = []\<rparr> = None \<longleftrightarrow> rs \<noteq> []
    \<and> all_fresh (\<lambda>x. rbr_resolution x \<noteq> [] \<and> AdvisoryOutcome_valid (rbr_outcome x)) rbr_resolution [] rs"
  by (simp add: ReadinessVerdict_Validate_def validation)

lemma ready_verdict_valid: "ReadinessVerdict_Validate \<lparr>rvd_class = (if length ws + length os \<noteq> 0
    then ReadinessReadyDegraded else ReadinessReadyClean), rvd_digest = d, rvd_reasons = [], rvd_waivers = ws,
    rvd_advisories = os\<rparr> = None \<longleftrightarrow> d \<noteq> [] \<and> all_fresh (\<lambda>i. i \<noteq> []) (\<lambda>i. i) [] ws
    \<and> all_fresh (\<lambda>x. aor_resolution x \<noteq> [] \<and> AdvisoryOutcome_valid (aor_outcome x)) aor_resolution [] os"
  by (cases "length ws + length os \<noteq> 0") (auto simp: ReadinessVerdict_Validate_def validation)

lemma judgement_exists:
  assumes "all_fresh (\<lambda>x. rbr_resolution x \<noteq> [] \<and> AdvisoryOutcome_valid (rbr_outcome x)) rbr_resolution [] (blockers rs ss)"
    and "all_fresh (\<lambda>i. i \<noteq> []) (\<lambda>i. i) [] (sort (concat (map (\<lambda>r. waivers_for r (recorded_state ss r)) (sort_key res_key rs))))"
    and "all_fresh (\<lambda>x. aor_resolution x \<noteq> [] \<and> AdvisoryOutcome_valid (aor_outcome x)) aor_resolution []
      (sort_key aor_resolution (concat (map (\<lambda>r. advisories_for r (recorded_state ss r)) (sort_key res_key rs))))"
    and "list_all entry_marshals (map (\<lambda>r. entry_for r (recorded_state ss r)) (sort_key res_key rs))" and "\<And>x. seal x \<noteq> []"
  shows "\<exists>v. judgement seal target rs ss = Inr v"
proof (cases "blockers rs ss = []")
  case True
  with assms(2-5) show ?thesis
    unfolding judgement_def Let_def
    by (simp only: of_err_Inr_iff ready_verdict_valid if_False if_True not_True_eq_False simp_thms ex_simps)
next
  case False
  with assms(1) show ?thesis
    unfolding judgement_def Let_def
    by (simp only: of_err_Inr_iff blocked_verdict_valid if_False if_True not_False_eq_True simp_thms ex_simps)
qed

lemma reasons_for_single: "x \<in> set (reasons_for r o') \<Longrightarrow> reasons_for r o' = [x] \<and> rbr_resolution x = res_digest r
    \<and> (o' = None \<and> rbr_outcome x = AdvisoryNotRun \<or> (\<exists>s. o' = Some s \<and> view s = Some (Unpassed (rbr_outcome x) None)))"
  by (cases o') (auto dest: sym split: option.splits check_view.splits if_splits)

lemma waivers_for_single: "x \<in> set (waivers_for r o') \<Longrightarrow> waivers_for r o' = [x]
    \<and> (\<exists>s y w. o' = Some s \<and> view s = Some (Unpassed y (Some w)) \<and> x = wvr_id w)"
  by (cases o') (auto dest: sym split: option.splits check_view.splits if_splits)

lemma advisories_for_single: "x \<in> set (advisories_for r o') \<Longrightarrow> advisories_for r o' = [x] \<and> aor_resolution x = res_digest r
    \<and> (\<exists>s w. o' = Some s \<and> view s = Some (Unpassed (aor_outcome x) w))"
  by (cases o') (auto dest: sym split: option.splits check_view.splits if_splits)

text \<open>
  The verdict is the one the recorded states deserve: over an admissible input whose digests are
  present, whose waivers are distinct and whose instants marshal, the evaluation returns a valid verdict;
  it is blocked iff some resolution has no state or is a required failure without a waiver, and clean
  iff every resolution is inapplicable or passed by a proof that covers the target.
\<close>

theorem EvaluateReadiness_decides:
  assumes adm: "admissible seal target gate rs ss" and nc: "no_collision rs ss" and seal: "\<And>x. seal x \<noteq> []"
    and dw: "distinct_waivers ss"
    and tm: "\<And>s w. s \<in> set ss \<Longrightarrow> waiver_of s = Some w \<Longrightarrow> rfc3339_ok (wvr_granted_at w)"
  shows "\<exists>v. EvaluateReadiness seal target rs ss gate = Inr v \<and> ReadinessVerdict_Validate v = None
    \<and> (rvd_class v = ReadinessBlocked \<longleftrightarrow> (\<exists>r \<in> set rs. case recorded_state ss r of None \<Rightarrow> True
        | Some s \<Rightarrow> res_kind r = RequirementRequired \<and> (\<exists>outcome. view s = Some (Unpassed outcome None))))
    \<and> (rvd_class v = ReadinessReadyClean \<longleftrightarrow> (\<forall>r \<in> set rs. \<exists>s. recorded_state ss r = Some s
        \<and> (view s = Some NotApplicable \<or> (\<exists>p. view s = Some (Passed p) \<and> covering_proof seal target r ss p))))"
proof -
  have st: "s \<in> set ss \<and> CheckState_Validate seal s = None \<and> cst_resolution s = r \<and> state_admitted target gate r s"
    if "r \<in> set rs" "recorded_state ss r = Some s" for r s
    using that adm nc recorded_state_Some [OF that(2)]
    unfolding admissible_def list_all_iff no_collision_def state_digest_def by fastforce
  have rs: "distinct rs" and dig: "\<And>r. r \<in> set rs \<Longrightarrow> res_digest r \<noteq> []"
    and inj: "\<And>r q. r \<in> set rs \<Longrightarrow> q \<in> set rs \<Longrightarrow> res_digest r = res_digest q \<Longrightarrow> r = q"
  proof -
    show "distinct rs" using adm by (simp add: admissible_def distinct_map)
    show "res_digest r \<noteq> []" if "r \<in> set rs" for r
      using adm that Resolution_valid_digest [of seal r] seal by (auto simp: admissible_def list_all_iff resolution_digest_def)
    show "r = q" if "r \<in> set rs" "q \<in> set rs" "res_digest r = res_digest q" for r q
      using nc that by (auto simp: no_collision_def)
  qed
  let ?sorted = "sort_key res_key rs"
  have reasons: "all_fresh (\<lambda>x. rbr_resolution x \<noteq> [] \<and> AdvisoryOutcome_valid (rbr_outcome x)) rbr_resolution [] (blockers rs ss)"
    unfolding all_fresh_iff
  proof (intro conjI ballI)
    fix x assume "x \<in> set (blockers rs ss)"
    then obtain r where r: "r \<in> set rs" "x \<in> set (reasons_for r (recorded_state ss r))" by (auto simp: blockers_def)
    with reasons_for_single [OF r(2)] dig show "rbr_resolution x \<noteq> []" by simp
    from reasons_for_single [OF r(2)] show "AdvisoryOutcome_valid (rbr_outcome x)"
    proof (elim conjE disjE exE)
      fix s assume s: "recorded_state ss r = Some s" "view s = Some (Unpassed (rbr_outcome x) None)"
      from st [OF r(1) s(1)] view_waiver [OF _ s(2)] show ?thesis by blast
    qed simp
  next
    show "distinct (map rbr_resolution (blockers rs ss))"
      unfolding blockers_def using rs inj
      by (intro distinct_concat_single) (auto dest!: reasons_for_single)
  qed simp
  have waivers: "all_fresh (\<lambda>i. i \<noteq> []) (\<lambda>i. i) [] (sort (concat (map (\<lambda>r. waivers_for r (recorded_state ss r)) ?sorted)))"
    unfolding all_fresh_iff
  proof (intro conjI ballI)
    fix x assume "x \<in> set (sort (concat (map (\<lambda>r. waivers_for r (recorded_state ss r)) ?sorted)))"
    then obtain r where r: "r \<in> set rs" "x \<in> set (waivers_for r (recorded_state ss r))" by auto
    from waivers_for_single [OF r(2)] obtain s y w where s: "recorded_state ss r = Some s" "view s = Some (Unpassed y (Some w))" "x = wvr_id w"
      by blast
    with st [OF r(1) s(1)] view_waiver [OF _ s(2), of seal] have "Waiver_Validate w = None" by (simp add: eligible_waiver_def)
    then show "x \<noteq> []" using s(3) by (auto simp: Waiver_Validate_def validation)
  next
    have "distinct (map (\<lambda>i. i) (concat (map (\<lambda>r. waivers_for r (recorded_state ss r)) ?sorted)))"
    proof (rule distinct_concat_single)
      fix r q x y
      assume r: "r \<in> set ?sorted" "x \<in> set (waivers_for r (recorded_state ss r))"
        and q: "q \<in> set ?sorted" "y \<in> set (waivers_for q (recorded_state ss q))" and xy: "x = y"
      from waivers_for_single [OF r(2)] obtain s u w where s: "recorded_state ss r = Some s" "view s = Some (Unpassed u (Some w))" "x = wvr_id w"
        by blast
      from waivers_for_single [OF q(2)] obtain s' u' w' where s': "recorded_state ss q = Some s'" "view s' = Some (Unpassed u' (Some w'))" "y = wvr_id w'"
        by blast
      from st [OF _ s(1)] st [OF _ s'(1)] r(1) q(1) have v: "s \<in> set ss" "CheckState_Validate seal s = None" "cst_resolution s = r"
        "s' \<in> set ss" "CheckState_Validate seal s' = None" "cst_resolution s' = q" by auto
      from view_waiver [OF v(2) s(2)] view_waiver [OF v(5) s'(2)] dw v(1,4) s(3) s'(3) xy have "s = s'"
        unfolding distinct_waivers_def by blast
      with v show "r = q" by simp
    qed (use rs in \<open>auto dest!: waivers_for_single\<close>)
    then show "distinct (map (\<lambda>i. i) (sort (concat (map (\<lambda>r. waivers_for r (recorded_state ss r)) ?sorted))))" by simp
  qed simp
  have advisories: "all_fresh (\<lambda>x. aor_resolution x \<noteq> [] \<and> AdvisoryOutcome_valid (aor_outcome x)) aor_resolution []
      (sort_key aor_resolution (concat (map (\<lambda>r. advisories_for r (recorded_state ss r)) ?sorted)))"
    unfolding all_fresh_iff
  proof (intro conjI ballI)
    fix x assume "x \<in> set (sort_key aor_resolution (concat (map (\<lambda>r. advisories_for r (recorded_state ss r)) ?sorted)))"
    then obtain r where r: "r \<in> set rs" "x \<in> set (advisories_for r (recorded_state ss r))" by auto
    from advisories_for_single [OF r(2)] dig [OF r(1)] show "aor_resolution x \<noteq> []" by simp
    from advisories_for_single [OF r(2)] obtain s w where s: "recorded_state ss r = Some s" "view s = Some (Unpassed (aor_outcome x) w)"
      by blast
    from st [OF r(1) s(1)] view_waiver [OF _ s(2)] show "AdvisoryOutcome_valid (aor_outcome x)" by blast
  next
    have "distinct (map aor_resolution (concat (map (\<lambda>r. advisories_for r (recorded_state ss r)) ?sorted)))"
      using rs inj by (intro distinct_concat_single) (auto dest!: advisories_for_single)
    then show "distinct (map aor_resolution (sort_key aor_resolution (concat (map (\<lambda>r. advisories_for r (recorded_state ss r)) ?sorted))))"
      by (simp add: distinct_map_sort)
  qed simp
  have marshals: "list_all entry_marshals (map (\<lambda>r. entry_for r (recorded_state ss r)) ?sorted)"
  proof -
    have "entry_marshals (entry_for r (recorded_state ss r))" if r: "r \<in> set rs" for r
    proof (cases "recorded_state ss r")
      case (Some s)
      with st [OF r Some] tm show ?thesis by (cases "waiver_of s") (auto simp: entry_marshals_def entry_for_def)
    qed (simp add: entry_marshals_def entry_for_def)
    then show ?thesis by (simp add: list_all_iff)
  qed
  from judgement_exists [of rs ss seal, OF reasons waivers advisories marshals seal]
  obtain v where v: "judgement seal target rs ss = Inr v" ..
  have b: "blockers rs ss \<noteq> [] \<longleftrightarrow> (\<exists>r \<in> set rs. case recorded_state ss r of None \<Rightarrow> True
        | Some s \<Rightarrow> res_kind r = RequirementRequired \<and> (\<exists>outcome. view s = Some (Unpassed outcome None)))"
  proof -
    have "reasons_for r o' \<noteq> [] \<longleftrightarrow> (case o' of None \<Rightarrow> True
        | Some s \<Rightarrow> res_kind r = RequirementRequired \<and> (\<exists>outcome. view s = Some (Unpassed outcome None)))" for r o'
      by (cases o') (auto split: option.split check_view.split)
    then show ?thesis by (simp add: blockers_def)
  qed
  have c: "blockers rs ss = [] \<and> (\<forall>r \<in> set rs. waivers_for r (recorded_state ss r) = []
       \<and> advisories_for r (recorded_state ss r) = []) \<longleftrightarrow> (\<forall>r \<in> set rs. \<exists>s. recorded_state ss r = Some s
        \<and> (view s = Some NotApplicable \<or> (\<exists>p. view s = Some (Passed p) \<and> covering_proof seal target r ss p)))"
  proof -
    have "reasons_for r (recorded_state ss r) = [] \<and> waivers_for r (recorded_state ss r) = [] \<and> advisories_for r (recorded_state ss r) = []
      \<longleftrightarrow> (\<exists>s. recorded_state ss r = Some s
        \<and> (view s = Some NotApplicable \<or> (\<exists>p. view s = Some (Passed p) \<and> covering_proof seal target r ss p)))"
      if r: "r \<in> set rs" for r
    proof (cases "recorded_state ss r")
      case (Some s)
      note v = st [OF r Some]
      then have "CheckState_Validate seal s = None" by simp
      then show ?thesis
      proof (cases rule: CheckState_valid_cases)
        case (passed p)
        with v covers_proof [of seal s p target ss] show ?thesis by (simp add: Some state_admitted_def)
      next
        case (unpassed f)
        then show ?thesis by (cases "cfl_waiver f") (simp_all add: Some)
      qed (simp add: Some)
    qed simp
    then show ?thesis by (auto simp: blockers_def)
  qed
  from v show ?thesis
    using adm judgement_class [OF v] unfolding EvaluateReadiness_reference [OF nc] b c by blast
qed

section \<open>Order\<close>

lemma sort_key_perm:
  assumes "mset xs = mset ys" and "distinct (map f xs)"
  shows "sort_key f ys = sort_key f xs" "distinct (map f ys)" "set ys = set xs"
proof -
  have s: "set ys = set xs" using assms(1) by (metis mset_eq_setD)
  have "distinct ys" using assms by (metis distinct_map mset_eq_imp_distinct_iff)
  with s assms(2) show d: "distinct (map f ys)" by (simp add: distinct_map)
  show "sort_key f ys = sort_key f xs"
    using assms(2) s d by (intro map_sorted_distinct_set_unique [of f]) (simp_all add: distinct_map)
  show "set ys = set xs" by (rule s)
qed

text \<open>
  The evaluation does not depend on the order in which resolutions and states are supplied: a verdict
  over one order is the verdict, to the evaluation-set digest, over every other.
\<close>

theorem EvaluateReadiness_order_independent:
  assumes "EvaluateReadiness seal target rs ss gate = Inr v" and "no_collision rs ss"
    and "mset rs' = mset rs" and "mset ss' = mset ss"
  shows "EvaluateReadiness seal target rs' ss' gate = Inr v"
proof -
  from assms(1) have a: "admissible seal target gate rs ss" and j: "judgement seal target rs ss = Inr v"
    by (simp_all add: EvaluateReadiness_reference [OF assms(2)])
  from a have k: "distinct (map res_key rs)" "distinct (map state_digest ss)" by (simp_all add: admissible_def)
  note r = sort_key_perm [OF assms(3) [symmetric] k(1)] and s = sort_key_perm [OF assms(4) [symmetric] k(2)]
  have look: "recorded_state ss' q = recorded_state ss q" for q
  proof -
    have "recorded_state ss' q = Some x \<longleftrightarrow> recorded_state ss q = Some x" for x
      using s(3) by (simp add: recorded_state_iff [OF k(2)] recorded_state_iff [OF s(2)])
    then show ?thesis by (metis not_Some_eq)
  qed
  have "rs' \<noteq> [] \<longleftrightarrow> rs \<noteq> []" using r(3) by (metis set_empty)
  then have "admissible seal target gate rs' ss'"
    using a r(2) s(2) unfolding admissible_def list_all_iff r(3) s(3) look by argo
  moreover have "judgement seal target rs' ss' = judgement seal target rs ss"
  proof -
    have "blockers rs' ss' = blockers rs ss" by (simp add: blockers_def r(1) look)
    then show ?thesis unfolding judgement_def r(1) look by (simp only:)
  qed
  moreover have "no_collision rs' ss'" using assms(2) by (simp add: no_collision_def r(3) s(3))
  ultimately show ?thesis using j by (simp add: EvaluateReadiness_reference)
qed

section \<open>The detail\<close>

lemma detail_class_iff: "detail_class c qs =
    (if \<exists>q \<in> set qs. nonPassing (rrq_state q) \<and> rrq_kind q = RequirementRequired \<and> rrq_waiver q = None then ReadinessBlocked
     else if \<exists>q \<in> set qs. nonPassing (rrq_state q) then ReadinessReadyDegraded else c)"
  by (induction qs arbitrary: c) auto

lemma project_valid:
  assumes "CheckState_Validate seal s = None"
  obtains q where "projectReadinessRequirement s = Inr q" "ReadinessRequirement_Validate q = None"
    "rrq_key q = res_key (cst_resolution s)" "rrq_kind q = res_kind (cst_resolution s)"
    "nonPassing (rrq_state q) \<longleftrightarrow> (\<exists>x w. view s = Some (Unpassed x w))"
    "rrq_waiver q = None \<longleftrightarrow> waiver_of s = None"
proof -
  have r: "res_key (cst_resolution s) \<noteq> []" "VerificationCheckClass_valid (res_class (cst_resolution s))"
    "RequirementKind_valid (res_kind (cst_resolution s))"
    using assms by (auto simp: CheckState_Validate_def Let_def RequirementResolution_Validate_def validation)
  obtain q where q: "projectReadinessRequirement s = Inr q"
    using assms
  proof (cases rule: CheckState_valid_cases)
    case (unpassed f)
    then show ?thesis using that by (cases "cfl_waiver f") (simp_all add: projectReadinessRequirement_def Let_def)
  qed (use that in \<open>simp_all add: projectReadinessRequirement_def Let_def\<close>)
  have e: "rrq_key q = res_key (cst_resolution s)" "rrq_kind q = res_kind (cst_resolution s)"
    "rrq_class q = res_class (cst_resolution s)"
    using q by (auto simp: projectReadinessRequirement_def Let_def split: if_split_asm option.split_asm)
  have "ReadinessRequirement_Validate q = None \<and> (nonPassing (rrq_state q) \<longleftrightarrow> (\<exists>x w. view s = Some (Unpassed x w)))
     \<and> (rrq_waiver q = None \<longleftrightarrow> waiver_of s = None)"
    using assms
  proof (cases rule: CheckState_valid_cases)
    case not_applicable
    with q r show ?thesis by (auto simp: projectReadinessRequirement_def Let_def ReadinessRequirement_Validate_def
        validation nonPassing_def waiver_of_def)
  next
    case (passed p)
    from passed(5) have "prf_recipe p \<noteq> []" by (auto simp: proof_validateFor_def CheckProof_Validate_def validation)
    with passed q r show ?thesis
      by (auto simp: projectReadinessRequirement_def Let_def ReadinessRequirement_Validate_def validation nonPassing_def waiver_of_def)
  next
    case (unpassed f)
    then have np: "nonPassing (state_of_outcome (cfl_outcome f))" "state_of_outcome (cfl_outcome f) \<noteq> ReadinessRequirementPassed"
      "ReadinessRequirementState_valid (state_of_outcome (cfl_outcome f))"
      by (cases "cfl_outcome f"; simp add: nonPassing_def)+
    show ?thesis
    proof (cases "cfl_waiver f")
      case None
      with unpassed q r np show ?thesis
        by (auto simp: projectReadinessRequirement_def Let_def ReadinessRequirement_Validate_def validation waiver_of_def)
    next
      case (Some w)
      with unpassed(6) have "Waiver_Validate w = None" "res_kind (cst_resolution s) = RequirementRequired"
        "WaiverEligible (res_class (cst_resolution s))" by (auto simp: eligible_waiver_def)
      note w = this
      have q': "q = \<lparr>rrq_key = res_key (cst_resolution s), rrq_class = res_class (cst_resolution s),
          rrq_kind = res_kind (cst_resolution s), rrq_state = state_of_outcome (cfl_outcome f), rrq_recipe = None,
          rrq_waiver = Some \<lparr>rwv_id = wvr_id w, rwv_dimension = wvr_dimension w, rwv_authority = wvr_authority w,
            rwv_granted_at = wvr_granted_at w\<rparr>\<rparr>"
        using q unpassed(4,7) Some by (simp add: projectReadinessRequirement_def Let_def)
      have "ReadinessWaiver_Validate \<lparr>rwv_id = wvr_id w, rwv_dimension = wvr_dimension w,
          rwv_authority = wvr_authority w, rwv_granted_at = wvr_granted_at w\<rparr> = None"
        using w(1) by (simp add: Waiver_Validate_def ReadinessWaiver_Validate_def validation)
      then have "ReadinessRequirement_Validate q = None"
        unfolding q' using r w(2,3) np by (simp add: ReadinessRequirement_Validate_def validation)
      with np(1) unpassed(1,7) Some show ?thesis by (simp add: q' waiver_of_def)
    qed
  qed
  with q e show ?thesis by (intro that [of q]) simp_all
qed

fun strictly_sorted :: "string list \<Rightarrow> bool" where
  "strictly_sorted [] = True"
| "strictly_sorted (k # ks) = ((\<forall>j \<in> set ks. k < j) \<and> strictly_sorted ks)"

lemma strictly_sorted_iff: "strictly_sorted ks \<longleftrightarrow> sorted ks \<and> distinct ks"
  by (induction ks) (auto simp: less_le)

lemma validate_requirements_ok: "\<forall>q \<in> set qs. ReadinessRequirement_Validate q = None \<Longrightarrow> strictly_sorted (map rrq_key qs) \<Longrightarrow>
    (\<forall>k. prev = Some k \<longrightarrow> (\<forall>q \<in> set qs. k < rrq_key q)) \<Longrightarrow> validate_requirements prev qs = None"
proof (induction qs arbitrary: prev)
  case (Cons q qs)
  then show ?case by (cases prev) (auto simp: validation not_le)
qed simp

lemma project_all_ok: "\<forall>s \<in> set ss. CheckState_Validate seal s = None \<Longrightarrow>
    \<exists>qs. project_all seal ss = Inr qs \<and> list_all2 (\<lambda>s q. projectReadinessRequirement s = Inr q) ss qs"
proof (induction ss)
  case (Cons s ss)
  then obtain qs where qs: "project_all seal ss = Inr qs" "list_all2 (\<lambda>s q. projectReadinessRequirement s = Inr q) ss qs" by auto
  from Cons.prems have v: "CheckState_Validate seal s = None" by simp
  from project_valid [OF v] obtain q where "projectReadinessRequirement s = Inr q" by metis
  with qs v show ?case by auto
qed simp

lemma project_all_set: "list_all2 (\<lambda>s q. projectReadinessRequirement s = Inr q) ss qs \<Longrightarrow>
    (\<forall>q \<in> set qs. \<exists>s \<in> set ss. projectReadinessRequirement s = Inr q)
    \<and> (\<forall>s \<in> set ss. \<exists>q \<in> set qs. projectReadinessRequirement s = Inr q)"
  by (induction rule: list_all2_induct) auto

lemma map_sort_key: "map f (sort_key f xs) = sort (map f xs)"
  by (rule properties_for_sort [symmetric]) simp_all

text \<open>The handoff the engine names: an unmoved tip without a merge, or a merge of the head into the moved tip.\<close>

definition handoff_ok :: "EvaluationTarget \<Rightarrow> BaseRevision \<Rightarrow> string \<Rightarrow> string \<Rightarrow> bool" where
  "handoff_ok target base tip merge \<longleftrightarrow> tip \<noteq> [] \<and> (if tip = bas_sha base then merge = []
     else merge \<noteq> [] \<and> tip \<noteq> tgt_head target \<and> merge \<noteq> tip \<and> merge \<noteq> tgt_head target)"

text \<open>
  The card agrees with the verdict: from every ready verdict, over a valid base and a well-formed
  handoff, the detail is built without error, passes its own validator, implies the verdict's class and
  lists exactly the evaluated requirements in key order.
\<close>

theorem NewReadinessDetail_agrees:
  assumes "EvaluateReadiness seal target rs ss gate = Inr v" and "rvd_class v \<noteq> ReadinessBlocked" and "no_collision rs ss"
    and "tgt_base target = Some base" and "BaseRevision_Validate base = None" and "handoff_ok target base tip merge"
  shows "\<exists>d. NewReadinessDetail seal target v ss tip merge = Inr d \<and> ReadinessDetail_Validate d = None
    \<and> Class d = rvd_class v \<and> map rrq_key (rdt_requirements d) = sort (map res_key rs)"
proof -
  from assms(1) have a: "admissible seal target gate rs ss" and j: "judgement seal target rs ss = Inr v"
    by (simp_all add: EvaluateReadiness_reference [OF assms(3)])
  from judgement_class(1) [OF j] assms(2) have b: "blockers rs ss = []" by simp
  from a have keys: "distinct (map res_key rs)" and valid: "\<forall>s \<in> set ss. CheckState_Validate seal s = None"
    and ne: "rs \<noteq> []" "tgt_head target \<noteq> []" and digs: "distinct (map state_digest ss)"
    by (simp_all add: admissible_def list_all_iff)
  have ext: "r \<in> set rs \<longleftrightarrow> r \<in> cst_resolution ` set ss" for r
  proof
    assume "r \<in> set rs"
    from ready_state [OF a b assms(3) this] show "r \<in> cst_resolution ` set ss" by (metis imageI)
  next
    assume "r \<in> cst_resolution ` set ss"
    then obtain s where s: "s \<in> set ss" "r = cst_resolution s" by blast
    with a obtain q where "q \<in> set rs" "res_digest q = state_digest s" by (auto simp: admissible_def list_all_iff)
    with assms(3) s show "r \<in> set rs" unfolding no_collision_def state_digest_def by (metis UnI2 imageI)
  qed
  have rec: "recorded_state ss (cst_resolution s) = Some s" if "s \<in> set ss" for s
    using that by (simp add: recorded_state_iff [OF digs] state_digest_def)
  have inj: "inj_on cst_resolution (set ss)"
    by (rule inj_onI) (metis rec option.inject)
  have ks: "distinct (map (\<lambda>s. res_key (cst_resolution s)) ss)"
  proof -
    have "inj_on res_key (cst_resolution ` set ss)" using keys ext by (auto simp: distinct_map inj_on_def)
    then have "inj_on (\<lambda>s. res_key (cst_resolution s)) (set ss)" using comp_inj_on [OF inj] by (simp add: comp_def)
    with digs show ?thesis by (simp add: distinct_map)
  qed
  have sk: "sort (map (\<lambda>s. res_key (cst_resolution s)) ss) = sort (map res_key rs)"
    using ks keys ext by (intro sorted_distinct_set_unique) (auto simp: image_image)
  from project_all_ok [OF valid] obtain qs where qs: "project_all seal ss = Inr qs"
    "list_all2 (\<lambda>s q. projectReadinessRequirement s = Inr q) ss qs" by blast
  note pairs = project_all_set [OF qs(2)]
  have proj: "ReadinessRequirement_Validate q = None \<and> rrq_key q = res_key (cst_resolution s) \<and> rrq_kind q = res_kind (cst_resolution s)
      \<and> (nonPassing (rrq_state q) \<longleftrightarrow> (\<exists>x w. view s = Some (Unpassed x w))) \<and> (rrq_waiver q = None \<longleftrightarrow> waiver_of s = None)"
    if "s \<in> set ss" "projectReadinessRequirement s = Inr q" for s q
    using project_valid [of seal s] valid that by (metis sum.inject(2))
  have "list_all2 (\<lambda>s q. rrq_key q = res_key (cst_resolution s)) ss qs"
    using qs(2) proj by (auto simp: list_all2_conv_all_nth)
  then have mk: "map rrq_key qs = map (\<lambda>s. res_key (cst_resolution s)) ss"
    by (induction rule: list_all2_induct) simp_all
  have blocked: "\<not> (nonPassing (rrq_state q) \<and> rrq_kind q = RequirementRequired \<and> rrq_waiver q = None)" if "q \<in> set qs" for q
  proof
    assume n: "nonPassing (rrq_state q) \<and> rrq_kind q = RequirementRequired \<and> rrq_waiver q = None"
    from pairs that obtain s where s: "s \<in> set ss" "projectReadinessRequirement s = Inr q" by blast
    with n proj [OF s] obtain x w where x: "view s = Some (Unpassed x w)" "waiver_of s = None"
      "res_kind (cst_resolution s) = RequirementRequired" by auto
    with valid s(1) view_waiver [of seal s x w] have "w = None" by simp
    with x have "reasons_for (cst_resolution s) (recorded_state ss (cst_resolution s)) \<noteq> []" by (simp add: rec [OF s(1)])
    moreover have "cst_resolution s \<in> set rs" using s(1) ext by blast
    ultimately show False using b by (auto simp: blockers_def)
  qed
  have degraded: "(\<exists>q \<in> set qs. nonPassing (rrq_state q)) \<longleftrightarrow> rvd_class v \<noteq> ReadinessReadyClean"
  proof -
    have "(\<exists>q \<in> set qs. nonPassing (rrq_state q)) \<longleftrightarrow> (\<exists>s \<in> set ss. \<exists>x w. view s = Some (Unpassed x w))"
      using pairs proj by metis
    also have "\<dots> \<longleftrightarrow> (\<exists>r \<in> set rs. waivers_for r (recorded_state ss r) \<noteq> [] \<or> advisories_for r (recorded_state ss r) \<noteq> [])"
    proof
      assume "\<exists>s \<in> set ss. \<exists>x w. view s = Some (Unpassed x w)"
      then obtain s x w where s: "s \<in> set ss" "view s = Some (Unpassed x w)" by blast
      have r: "cst_resolution s \<in> set rs" using s(1) ext by blast
      with b have "reasons_for (cst_resolution s) (Some s) = []" using rec [OF s(1)] by (force simp: blockers_def)
      then have "waivers_for (cst_resolution s) (Some s) \<noteq> [] \<or> advisories_for (cst_resolution s) (Some s) \<noteq> []"
        using s(2) by (cases w) (auto split: if_split_asm)
      with r rec [OF s(1)] show "\<exists>r \<in> set rs. waivers_for r (recorded_state ss r) \<noteq> [] \<or> advisories_for r (recorded_state ss r) \<noteq> []"
        by metis
    next
      assume "\<exists>r \<in> set rs. waivers_for r (recorded_state ss r) \<noteq> [] \<or> advisories_for r (recorded_state ss r) \<noteq> []"
      then obtain r y z where "y \<in> set (waivers_for r (recorded_state ss r)) \<or> z \<in> set (advisories_for r (recorded_state ss r))"
        by (metis list.set_intros(1) neq_Nil_conv)
      then obtain s x w where "recorded_state ss r = Some s" "view s = Some (Unpassed x w)"
        using waivers_for_single advisories_for_single by metis
      with recorded_state_Some show "\<exists>s \<in> set ss. \<exists>x w. view s = Some (Unpassed x w)" by metis
    qed
    also have "\<dots> \<longleftrightarrow> rvd_class v \<noteq> ReadinessReadyClean" using judgement_class(2) [OF j] b by blast
    finally show ?thesis .
  qed
  define d where "d = \<lparr>rdt_digest = rvd_digest v, rdt_head = tgt_head target, rdt_base_ref = bas_ref base,
    rdt_base_sha = bas_sha base, rdt_handoff_tip = tip,
    rdt_handoff_merge = (if merge \<noteq> [] then Some \<lparr>pmi_base = tip, pmi_head = tgt_head target, pmi_merge = merge\<rparr> else None),
    rdt_requirements = sort_key rrq_key qs\<rparr>"
  have cls: "Class d = rvd_class v"
    using blocked degraded judgement_class(4) [OF j] assms(2) unfolding Class_def detail_class_iff by (auto simp: d_def)
  have "rvd_digest v \<noteq> []"
    using judgement_class(3,4) [OF j] assms(2) by (auto simp: ReadinessVerdict_Validate_def validation)
  moreover have "validateHandoff d = None"
    using assms(6) ne(2) by (auto simp: d_def validateHandoff_def handoff_ok_def ProspectiveMergeIdentity_Validate_def validation split: if_split_asm)
  moreover have "sort_key rrq_key qs \<noteq> []"
  proof -
    have "ss \<noteq> []" using ne(1) ext by (metis empty_is_image list.set(1) list.set_intros(1) neq_Nil_conv empty_iff)
    with mk have "qs \<noteq> []" by auto
    then show ?thesis by (metis set_empty set_sort)
  qed
  moreover have "validate_requirements None (sort_key rrq_key qs) = None"
    using pairs proj ks mk by (intro validate_requirements_ok) (auto simp: strictly_sorted_iff map_sort_key)
  ultimately have val: "ReadinessDetail_Validate d = None"
    using ne(2) assms(5) by (simp add: ReadinessDetail_Validate_def d_def BaseRevision_Validate_def validation)
  have "NewReadinessDetail seal target v ss tip merge = Inr d"
    using judgement_class(3) [OF j] assms(4,6) qs(1) val cls
    by (simp add: NewReadinessDetail_def Let_def handoff_ok_def d_def [symmetric])
  with val cls show ?thesis by (simp add: d_def map_sort_key mk sk)
qed

section \<open>A concrete evaluation\<close>

fun example_seal :: seal where
  "example_seal (SealRequirementSet g ds) = ''set''"
| "example_seal (SealResolution r) = ''resolution:'' @ res_key r"
| "example_seal (SealProof p) = ''proof:'' @ prf_resolution p"
| "example_seal (SealWaiverEvent e) = ''event''"
| "example_seal (SealEvaluation t es) = ''evaluation''"

definition example_base :: BaseRevision where
  "example_base = \<lparr>bas_repo = ''o/r'', bas_repository_id = 7, bas_ref = ''main'', bas_sha = ''b1''\<rparr>"

definition example_target :: EvaluationTarget where
  "example_target = \<lparr>tgt_head = ''h1'', tgt_base = Some example_base, tgt_merge = []\<rparr>"

definition example_resolution :: "RequirementDefinition \<Rightarrow> RequirementResolution" where
  "example_resolution d = projr (NewRequirementResolution example_seal \<lparr>rin_key = def_key d, rin_class = def_class d,
     rin_kind = def_kind d, rin_applicable = def_applicable d, rin_base_dependent = def_base_dependent d,
     rin_set_digest = ProductionRequirementSetDigest example_seal 1, rin_floor = 1, rin_policy_digest = ''policy'',
     rin_sampling = None\<rparr>)"

definition example_state :: "RequirementDefinition \<Rightarrow> CheckState" where
  "example_state d = projr (ebind (NewCheckProof example_seal (example_resolution d) ''h1'' (Some example_base) ''recipe'')
     (NewPassedCheckState example_seal (example_resolution d)))"

definition example_resolutions :: "RequirementResolution list" where
  "example_resolutions = map example_resolution ProductionRequirementDefinitions"

definition example_states :: "CheckState list" where
  "example_states = map example_state ProductionRequirementDefinitions"

definition example_verdict :: ReadinessVerdict where
  "example_verdict = projr (EvaluateReadiness example_seal example_target example_resolutions example_states None)"

lemma example_evaluated: "EvaluateReadiness example_seal example_target example_resolutions example_states None = Inr example_verdict"
proof -
  have "\<not> isl (EvaluateReadiness example_seal example_target example_resolutions example_states None)" by code_simp
  then show ?thesis by (simp add: example_verdict_def)
qed

lemma example_no_collision: "no_collision example_resolutions example_states"
  unfolding no_collision_def by code_simp

theorem production_ready_sound_witness:
  "\<exists>p. covering_proof example_seal example_target (hd example_resolutions) example_states p"
proof -
  have "rvd_class example_verdict \<noteq> ReadinessBlocked" by code_simp
  moreover have "hd ProductionRequirementDefinitions \<in> set ProductionRequirementDefinitions"
    "hd example_resolutions \<in> set example_resolutions" by code_simp+
  moreover have "let r = hd example_resolutions; d = hd ProductionRequirementDefinitions in res_key r = def_key d
      \<and> res_class r = def_class d \<and> res_kind r = def_kind d
      \<and> res_applicable r = def_applicable d \<and> res_base_dependent r = def_base_dependent d" by code_simp
  ultimately show ?thesis
    using production_ready_sound [OF example_evaluated _ example_no_collision] unfolding Let_def by blast
qed

theorem EvaluateReadiness_decides_witness:
  "\<exists>v. EvaluateReadiness example_seal example_target example_resolutions example_states None = Inr v
    \<and> rvd_class v \<noteq> ReadinessBlocked"
proof -
  have "admissible example_seal example_target None example_resolutions example_states" by code_simp
  moreover have "example_seal x \<noteq> []" for x by (cases x) simp_all
  moreover have w: "\<forall>s \<in> set example_states. waiver_of s = None" by code_simp
  moreover from w have "distinct_waivers example_states" by (simp add: distinct_waivers_def)
  moreover have "\<not> list_ex (\<lambda>r. case recorded_state example_states r of None \<Rightarrow> True
        | Some s \<Rightarrow> res_kind r = RequirementRequired \<and> (case view s of Some (Unpassed _ None) \<Rightarrow> True | _ \<Rightarrow> False)) example_resolutions"
    by code_simp
  ultimately show ?thesis
    using EvaluateReadiness_decides [of example_seal example_target None example_resolutions example_states, OF _ example_no_collision]
    by (fastforce simp: list_ex_iff split: option.splits)
qed

theorem EvaluateReadiness_order_independent_witness:
  "EvaluateReadiness example_seal example_target (rev example_resolutions) (rev example_states) None = Inr example_verdict"
  by (rule EvaluateReadiness_order_independent [OF example_evaluated example_no_collision]) simp_all

theorem NewReadinessDetail_agrees_witness:
  "\<exists>d. NewReadinessDetail example_seal example_target example_verdict example_states ''t1'' ''m1'' = Inr d
    \<and> Class d = rvd_class example_verdict"
proof -
  have "rvd_class example_verdict \<noteq> ReadinessBlocked" "tgt_base example_target = Some example_base"
    "BaseRevision_Validate example_base = None" "handoff_ok example_target example_base ''t1'' ''m1''" by code_simp+
  from NewReadinessDetail_agrees [OF example_evaluated this(1) example_no_collision this(2-4)] show ?thesis by blast
qed

end
