(* ===== verification/ReadinessStore.thy ===== *)
theory ReadinessStore
  imports ReadinessDomain StoreKernel
begin

text \<open>
  \<open>daemon/internal/store/readiness.go\<close> and the registry functions of \<open>store.go\<close>: the write-once
  tables of requirement resolutions, check proofs, degraded waivers and waiver lifecycle events, and
  the gates that every write and every read runs again.

  The daemon-owned registries of a transaction are its configuration \<open>readiness_config\<close>; the recipe
  set, which the store reads from its adoption tables, is a field of it, an error when that read
  fails. \<open>h\<close> is the content address of a body (SHA-256 of its bytes), \<open>seal\<close> the digest function of
  \<open>ReadinessDomain\<close>. The columns of an enum hold the enum. A 64-bit unsigned argument from \<open>2^63\<close> on
  is refused by \<open>database/sql\<close>. Of the \<open>CHECK\<close> constraints those are written out that a validated
  row can fail; a foreign key cannot fail, because each write has just read the row it names.

  Shown: the row invariant, that the lifecycle table of a waiver refines the automaton unrecorded,
  active, ended, and that a waiver that has ended passes no gate again.
\<close>

section \<open>Registries\<close>

definition CurrentVerificationFloorRegistryGeneration :: int where
  "CurrentVerificationFloorRegistryGeneration = 1"

definition requirementDefinitionsByKey :: "RequirementDefinition list \<Rightarrow> (string \<rightharpoonup> RequirementDefinition)" where
  "requirementDefinitionsByKey ds = foldl (\<lambda>m d. m(def_key d \<mapsto> d)) Map.empty ds"

definition resolveTrustedRequirementSets ::
  "seal \<Rightarrow> int \<Rightarrow> (string \<rightharpoonup> RequirementDefinition list) \<Rightarrow> (string \<rightharpoonup> (string \<rightharpoonup> RequirementDefinition))" where
  "resolveTrustedRequirementSets seal generation configured =
     (\<lambda>d. map_option requirementDefinitionsByKey (configured d))
       (ProductionRequirementSetDigest seal generation \<mapsto> requirementDefinitionsByKey ProductionRequirementDefinitions)"

definition resolveVerificationFloorRegistryGeneration :: "int \<Rightarrow> int \<Rightarrow> err + int" where
  "resolveVerificationFloorRegistryGeneration configured compiled =
     (if configured = 0 then Inr compiled
      else if configured < compiled then Inl (Sentinel ''ErrVerificationFloorRegressed'')
      else Inr configured)"

record readiness_config =
  cfg_generation :: int
  cfg_sets :: "string \<rightharpoonup> (string \<rightharpoonup> RequirementDefinition)"
  cfg_recipes :: "err + (string \<Rightarrow> bool)"
  cfg_review :: "string \<Rightarrow> bool"
  cfg_grants :: "WaiverGrantingAuthority \<Rightarrow> string \<Rightarrow> bool"

definition currentVerificationGeneration :: "readiness_config \<Rightarrow> int" where
  "currentVerificationGeneration c =
     (if cfg_generation c = 0 then CurrentVerificationFloorRegistryGeneration else cfg_generation c)"

definition AuthorizeIndependentReviewRecipe :: "string \<Rightarrow> readiness_config \<Rightarrow> readiness_config" where
  "AuthorizeIndependentReviewRecipe recipe c = c\<lparr>cfg_review := (cfg_review c)(recipe := True)\<rparr>"

section \<open>Gates\<close>

abbreviation ErrCheckProofAuthorityUnregistered :: err where
  "ErrCheckProofAuthorityUnregistered \<equiv> Sentinel ''ErrCheckProofAuthorityUnregistered''"

definition gateRequirementResolution :: "readiness_config \<Rightarrow> RequirementResolution \<Rightarrow> err option" where
  "gateRequirementResolution c r =
     (if res_floor r \<noteq> currentVerificationGeneration c then Some (Sentinel ''ErrVerificationFloorRegressed'')
      else case cfg_sets c (res_set_digest r) of
          None \<Rightarrow> Some (Sentinel ''ErrRequirementSetUntrusted'')
        | Some set_defs \<Rightarrow> (case set_defs (res_key r) of
            None \<Rightarrow> Some (Sentinel ''ErrRequirementDefinitionMismatch'')
          | Some d \<Rightarrow> require (\<not> (def_class d \<noteq> res_class r \<or> def_kind d \<noteq> res_kind r
              \<or> def_applicable d \<noteq> res_applicable r \<or> def_base_dependent d \<noteq> res_base_dependent r))
              (Sentinel ''ErrRequirementDefinitionMismatch'')))"

definition gateCheckProofRecipe :: "readiness_config \<Rightarrow> RequirementResolution \<Rightarrow> CheckProof \<Rightarrow> err option" where
  "gateCheckProofRecipe c r p = (case res_class r of
     CheckClassCleanVerification \<Rightarrow> (case cfg_recipes c of
         Inl e \<Rightarrow> Some e
       | Inr recipes \<Rightarrow> require (recipes (prf_recipe p)) (Sentinel ''ErrUnapprovedRecipe''))
   | CheckClassIndependentReview \<Rightarrow> require (cfg_review c (prf_recipe p)) ErrCheckProofAuthorityUnregistered
   | CheckClassRepoChangePolicy \<Rightarrow> Some ErrCheckProofAuthorityUnregistered
   | VerificationCheckClassOther _ \<Rightarrow> Some ErrCheckProofAuthorityUnregistered)"

definition gateDegradedWaiverAuthority :: "readiness_config \<Rightarrow> ValidatedDegradedWaiver \<Rightarrow> err option" where
  "gateDegradedWaiverAuthority c w = require (cfg_grants c (wvr_authority w) (wvr_grant w)) ErrWaiverInconsistent"

section \<open>Tables\<close>

datatype readiness_body = BodyResolution RequirementResolution | BodyProof CheckProof
  | BodyWaiver ValidatedDegradedWaiver | BodyEvent WaiverLifecycleEvent

type_synonym body_sum = "readiness_body \<Rightarrow> string"

record resolution_row =
  rsw_key :: string
  rsw_class :: VerificationCheckClass
  rsw_set :: string
  rsw_floor :: int
  rsw_policy :: string
  rsw_body_digest :: string
  rsw_body :: RequirementResolution

record proof_row =
  pfw_resolution :: string
  pfw_head :: string
  pfw_recipe :: string
  pfw_body_digest :: string
  pfw_body :: CheckProof

record waiver_row =
  wvw_resolution :: string
  wvw_class :: VerificationCheckClass
  wvw_authority :: WaiverGrantingAuthority
  wvw_floor :: int
  wvw_lifecycle :: string
  wvw_body_digest :: string
  wvw_body :: ValidatedDegradedWaiver

record event_row =
  evw_status :: WaiverLifecycleStatus
  evw_previous :: string
  evw_digest :: string
  evw_recorded_at :: gotime
  evw_body_digest :: string
  evw_body :: WaiverLifecycleEvent

record readiness_db =
  rdb_resolutions :: "(string \<times> resolution_row) list"
  rdb_proofs :: "(string \<times> proof_row) list"
  rdb_waivers :: "(string \<times> waiver_row) list"
  rdb_events :: "((string \<times> int) \<times> event_row) list"

definition readinessBodyDigest :: "body_sum \<Rightarrow> readiness_body \<Rightarrow> string" where
  "readinessBodyDigest h b = h b"

text \<open>\<open>readinessAuthority\<close>: the digest has a fixed length, so the concatenation is the pair.\<close>

definition readinessAuthority :: "body_sum \<Rightarrow> readiness_body \<Rightarrow> string \<times> readiness_body" where
  "readinessAuthority h b = (readinessBodyDigest h b, b)"

text \<open>The insert of a row whose unsigned arguments are \<open>ns\<close>, under the table's \<open>CHECK\<close>.\<close>

definition insert_checked ::
  "int list \<Rightarrow> bool \<Rightarrow> ('r \<Rightarrow> bool) \<Rightarrow> 'k \<Rightarrow> 'r \<Rightarrow> ('k \<times> 'r) list \<Rightarrow> err + ('k \<times> 'r) list" where
  "insert_checked ns check same k row t =
     (if list_ex (\<lambda>n. 2 ^ 63 \<le> n) ns then Inl (ErrText ''uint64 values with high bit set are not supported'')
      else if \<not> check then Inl (ErrText ''CHECK constraint failed'')
      else putImmutable same k row t)"

section \<open>Resolutions\<close>

definition resolution_columns :: "body_sum \<Rightarrow> RequirementResolution \<Rightarrow> resolution_row" where
  "resolution_columns h r = \<lparr>rsw_key = res_key r, rsw_class = res_class r, rsw_set = res_set_digest r,
     rsw_floor = res_floor r, rsw_policy = res_policy_digest r,
     rsw_body_digest = readinessBodyDigest h (BodyResolution r), rsw_body = r\<rparr>"

definition RecordRequirementResolution ::
  "seal \<Rightarrow> body_sum \<Rightarrow> readiness_config \<Rightarrow> RequirementResolution \<Rightarrow> readiness_db \<Rightarrow> err + readiness_db" where
  "RecordRequirementResolution seal h c r d = (case first_error [
       RequirementResolution_Validate seal r,
       gateRequirementResolution c r,
       encode (RequirementResolution_Validate seal) (\<lambda>_. True) r] of
     Some e \<Rightarrow> Inl e
   | None \<Rightarrow> ebind (insert_checked [res_floor r] (res_digest r \<noteq> [] \<and> readinessBodyDigest h (BodyResolution r) \<noteq> [])
       (\<lambda>row. (rsw_body_digest row, BodyResolution (rsw_body row)) = readinessAuthority h (BodyResolution r))
       (res_digest r)
       (resolution_columns h r)
       (rdb_resolutions d)) (\<lambda>t. Inr (d\<lparr>rdb_resolutions := t\<rparr>)))"

definition GetRequirementResolution ::
  "seal \<Rightarrow> body_sum \<Rightarrow> readiness_config \<Rightarrow> string \<Rightarrow> readiness_db \<Rightarrow> err + RequirementResolution" where
  "GetRequirementResolution seal h c digest d = (case map_of (rdb_resolutions d) digest of
     None \<Rightarrow> Inl ErrNotFound
   | Some row \<Rightarrow>
       if rsw_body_digest row \<noteq> readinessBodyDigest h (BodyResolution (rsw_body row)) then Inl ErrRowInconsistent
       else ebind (decode (RequirementResolution_Validate seal) (rsw_body row)) (\<lambda>r.
         if res_digest r \<noteq> digest \<or> res_key r \<noteq> rsw_key row \<or> res_class r \<noteq> rsw_class row
           \<or> res_set_digest r \<noteq> rsw_set row \<or> res_floor r \<noteq> rsw_floor row \<or> res_policy_digest r \<noteq> rsw_policy row
         then Inl ErrRowInconsistent
         else of_err (gateRequirementResolution c r) r))"

section \<open>Proofs\<close>

definition proof_columns :: "body_sum \<Rightarrow> CheckProof \<Rightarrow> proof_row" where
  "proof_columns h p = \<lparr>pfw_resolution = prf_resolution p, pfw_head = prf_head p, pfw_recipe = prf_recipe p,
     pfw_body_digest = readinessBodyDigest h (BodyProof p), pfw_body = p\<rparr>"

definition RecordCheckProof ::
  "seal \<Rightarrow> body_sum \<Rightarrow> readiness_config \<Rightarrow> CheckProof \<Rightarrow> readiness_db \<Rightarrow> err + readiness_db" where
  "RecordCheckProof seal h c p d = ebind (GetRequirementResolution seal h c (prf_resolution p) d) (\<lambda>r.
     ebind (NewPassedCheckState seal r p) (\<lambda>_.
       case first_error [gateCheckProofRecipe c r p, encode (CheckProof_Validate seal) (\<lambda>_. True) p] of
         Some e \<Rightarrow> Inl e
       | None \<Rightarrow> ebind (insert_checked [] (prf_digest p \<noteq> [] \<and> readinessBodyDigest h (BodyProof p) \<noteq> [])
           (\<lambda>row. (pfw_body_digest row, BodyProof (pfw_body row)) = readinessAuthority h (BodyProof p))
           (prf_digest p)
           (proof_columns h p)
           (rdb_proofs d)) (\<lambda>t. Inr (d\<lparr>rdb_proofs := t\<rparr>))))"

definition GetCheckProof ::
  "seal \<Rightarrow> body_sum \<Rightarrow> readiness_config \<Rightarrow> string \<Rightarrow> readiness_db \<Rightarrow> err + CheckProof" where
  "GetCheckProof seal h c digest d = (case map_of (rdb_proofs d) digest of
     None \<Rightarrow> Inl ErrNotFound
   | Some row \<Rightarrow>
       if pfw_body_digest row \<noteq> readinessBodyDigest h (BodyProof (pfw_body row)) then Inl ErrRowInconsistent
       else ebind (decode (CheckProof_Validate seal) (pfw_body row)) (\<lambda>p.
         if prf_digest p \<noteq> digest \<or> prf_resolution p \<noteq> pfw_resolution row \<or> prf_head p \<noteq> pfw_head row
           \<or> prf_recipe p \<noteq> pfw_recipe row
         then Inl ErrRowInconsistent
         else ebind (GetRequirementResolution seal h c (prf_resolution p) d) (\<lambda>r.
           ebind (NewPassedCheckState seal r p) (\<lambda>_. of_err (gateCheckProofRecipe c r p) p))))"

section \<open>Waivers and their lifecycle\<close>

definition previous_column :: "WaiverLifecycleEvent \<Rightarrow> string" where
  "previous_column e = (case wle_previous e of None \<Rightarrow> [] | Some x \<Rightarrow> x)"

definition getWaiverLifecycleEvent ::
  "seal \<Rightarrow> body_sum \<Rightarrow> string \<Rightarrow> int \<Rightarrow> readiness_db \<Rightarrow> err + WaiverLifecycleEvent" where
  "getWaiverLifecycleEvent seal h i sequence d = (case map_of (rdb_events d) (i, sequence) of
     None \<Rightarrow> Inl ErrNotFound
   | Some row \<Rightarrow>
       if evw_body_digest row \<noteq> readinessBodyDigest h (BodyEvent (evw_body row)) then Inl ErrRowInconsistent
       else ebind (decode (WaiverLifecycleEvent_Validate seal) (evw_body row)) (\<lambda>e.
         if wle_waiver e \<noteq> i \<or> wle_sequence e \<noteq> sequence \<or> wle_status e \<noteq> evw_status row
           \<or> previous_column e \<noteq> evw_previous row
           \<or> wle_digest e \<noteq> evw_digest row \<or> formatTime (wle_recorded_at e) \<noteq> evw_recorded_at row
         then Inl ErrRowInconsistent else Inr e))"

definition event_sequences :: "string \<Rightarrow> readiness_db \<Rightarrow> int list" where
  "event_sequences i d = map (snd \<circ> fst) (filter (\<lambda>x. fst (fst x) = i) (rdb_events d))"

text \<open>\<open>ORDER BY sequence DESC LIMIT 1\<close>.\<close>

definition LatestWaiverLifecycleEvent :: "seal \<Rightarrow> body_sum \<Rightarrow> string \<Rightarrow> readiness_db \<Rightarrow> err + WaiverLifecycleEvent" where
  "LatestWaiverLifecycleEvent seal h i d =
     (if event_sequences i d = [] then Inl ErrNotFound
      else getWaiverLifecycleEvent seal h i (Max (set (event_sequences i d))) d)"

definition getDegradedWaiverUnchecked ::
  "seal \<Rightarrow> body_sum \<Rightarrow> readiness_config \<Rightarrow> string \<Rightarrow> readiness_db \<Rightarrow> err + (ValidatedDegradedWaiver \<times> RequirementResolution)" where
  "getDegradedWaiverUnchecked seal h c i d = (case map_of (rdb_waivers d) i of
     None \<Rightarrow> Inl ErrNotFound
   | Some row \<Rightarrow>
       if wvw_body_digest row \<noteq> readinessBodyDigest h (BodyWaiver (wvw_body row)) then Inl ErrRowInconsistent
       else ebind (decode Waiver_Validate (wvw_body row)) (\<lambda>w.
         ebind (GetRequirementResolution seal h c (wvr_resolution w) d) (\<lambda>r.
           if wvr_id w \<noteq> i \<or> wvr_resolution w \<noteq> wvw_resolution row \<or> res_class r \<noteq> wvw_class row
             \<or> wvr_authority w \<noteq> wvw_authority row \<or> wvr_floor w \<noteq> wvw_floor row \<or> wvr_lifecycle w \<noteq> wvw_lifecycle row
           then Inl ErrRowInconsistent else Inr (w, r))))"

text \<open>
  A refusal under an ended lifecycle joins \<open>ErrWaiverLifecycleInactive\<close> to the error; the model keeps
  the joined sentinel.
\<close>

definition GetValidatedDegradedWaiver ::
  "seal \<Rightarrow> body_sum \<Rightarrow> readiness_config \<Rightarrow> string \<Rightarrow> readiness_db \<Rightarrow> err + ValidatedDegradedWaiver" where
  "GetValidatedDegradedWaiver seal h c i d = ebind (getDegradedWaiverUnchecked seal h c i d) (\<lambda>(w, r).
     ebind (LatestWaiverLifecycleEvent seal h i d) (\<lambda>e.
       case ValidateDegradedWaiver seal r e w of
         Some x \<Rightarrow> Inl (if wle_status e \<noteq> WaiverLifecycleGranted then Sentinel ''ErrWaiverLifecycleInactive'' else x)
       | None \<Rightarrow> of_err (gateDegradedWaiverAuthority c w) w))"

definition DegradedWaiverGate :: "seal \<Rightarrow> body_sum \<Rightarrow> readiness_config \<Rightarrow> readiness_db \<Rightarrow> waiver_gate" where
  "DegradedWaiverGate seal h c d r w = (case GetValidatedDegradedWaiver seal h c (wvr_id w) d of
     Inl e \<Rightarrow> Some e
   | Inr current \<Rightarrow> require (\<not> (current \<noteq> w \<or> wvr_resolution current \<noteq> res_digest r)) ErrWaiverInconsistent)"

definition event_columns :: "body_sum \<Rightarrow> WaiverLifecycleEvent \<Rightarrow> event_row" where
  "event_columns h e = \<lparr>evw_status = wle_status e, evw_previous = previous_column e, evw_digest = wle_digest e,
     evw_recorded_at = formatTime (wle_recorded_at e),
     evw_body_digest = readinessBodyDigest h (BodyEvent e), evw_body = e\<rparr>"

text \<open>The insert statement of an event; \<open>event_digest\<close> is unique across the table.\<close>

definition insertLifecycleEvent :: "body_sum \<Rightarrow> WaiverLifecycleEvent \<Rightarrow> readiness_db \<Rightarrow> err + readiness_db" where
  "insertLifecycleEvent h e d =
     (let key = (wle_waiver e, wle_sequence e); prev = previous_column e;
          check = wle_digest e \<noteq> [] \<and> readinessBodyDigest h (BodyEvent e) \<noteq> []
            \<and> (wle_sequence e = 1 \<and> wle_status e = WaiverLifecycleGranted \<and> prev = []
               \<or> 1 < wle_sequence e \<and> prev \<noteq> [])
      in if \<not> 2 ^ 63 \<le> wle_sequence e \<and> check \<and> map_of (rdb_events d) key = None
           \<and> list_ex (\<lambda>x. evw_digest (snd x) = wle_digest e) (rdb_events d)
         then Inl (ErrText ''UNIQUE constraint failed'')
         else ebind (insert_checked [wle_sequence e] check
           (\<lambda>r. (evw_body_digest r, BodyEvent (evw_body r)) = readinessAuthority h (BodyEvent e)) key (event_columns h e) (rdb_events d))
           (\<lambda>t. Inr (d\<lparr>rdb_events := t\<rparr>)))"

text \<open>\<open>event_marshals\<close>: RFC 3339 can write the instant.\<close>

definition event_marshals :: "WaiverLifecycleEvent \<Rightarrow> bool" where
  "event_marshals e \<longleftrightarrow> rfc3339_ok (wle_recorded_at e)"

definition putWaiverLifecycleEvent ::
  "seal \<Rightarrow> body_sum \<Rightarrow> readiness_config \<Rightarrow> WaiverLifecycleEvent \<Rightarrow> bool \<Rightarrow> readiness_db \<Rightarrow> err + readiness_db" where
  "putWaiverLifecycleEvent seal h c e initial d =
     ebind (getDegradedWaiverUnchecked seal h c (wle_waiver e) d) (\<lambda>(w, _).
       case WaiverLifecycleEvent_Validate seal e of
         Some x \<Rightarrow> Inl x
       | None \<Rightarrow>
           ebind (if initial
             then of_err (require (\<not> (wle_sequence e \<noteq> 1 \<or> wle_digest e \<noteq> wvr_lifecycle w)) ErrParentKeyMismatch) ()
             else ebind (LatestWaiverLifecycleEvent seal h (wle_waiver e) d) (\<lambda>previous.
               of_err (require (\<not> (wle_sequence e \<noteq> (wle_sequence previous + 1) mod 2 ^ 64 \<or> wle_previous e = None
                 \<or> wle_previous e \<noteq> Some (wle_digest previous) \<or> wle_status previous \<noteq> WaiverLifecycleGranted
                 \<or> wle_status e = WaiverLifecycleGranted)) ErrImmutableTransition) ()))
           (\<lambda>_. case encode (WaiverLifecycleEvent_Validate seal) event_marshals e of
              Some x \<Rightarrow> Inl x
            | None \<Rightarrow> insertLifecycleEvent h e d))"

definition RecordWaiverLifecycleEvent ::
  "seal \<Rightarrow> body_sum \<Rightarrow> readiness_config \<Rightarrow> WaiverLifecycleEvent \<Rightarrow> readiness_db \<Rightarrow> err + readiness_db" where
  "RecordWaiverLifecycleEvent seal h c e d = putWaiverLifecycleEvent seal h c e False d"

definition waiver_columns :: "body_sum \<Rightarrow> RequirementResolution \<Rightarrow> ValidatedDegradedWaiver \<Rightarrow> waiver_row" where
  "waiver_columns h r w = \<lparr>wvw_resolution = wvr_resolution w, wvw_class = res_class r, wvw_authority = wvr_authority w,
     wvw_floor = wvr_floor w, wvw_lifecycle = wvr_lifecycle w,
     wvw_body_digest = readinessBodyDigest h (BodyWaiver w), wvw_body = w\<rparr>"

definition RecordValidatedDegradedWaiver ::
  "seal \<Rightarrow> body_sum \<Rightarrow> readiness_config \<Rightarrow> ValidatedDegradedWaiver \<Rightarrow> WaiverLifecycleEvent \<Rightarrow> readiness_db
   \<Rightarrow> err + readiness_db" where
  "RecordValidatedDegradedWaiver seal h c w e d =
     ebind (GetRequirementResolution seal h c (wvr_resolution w) d) (\<lambda>r.
       case first_error [ValidateDegradedWaiver seal r e w, gateDegradedWaiverAuthority c w,
           encode Waiver_Validate (\<lambda>w. rfc3339_ok (wvr_granted_at w)) w] of
         Some x \<Rightarrow> Inl x
       | None \<Rightarrow> ebind (insert_checked [wvr_floor w]
           (res_class r = CheckClassRepoChangePolicy \<and> readinessBodyDigest h (BodyWaiver w) \<noteq> [])
           (\<lambda>row. (wvw_body_digest row, BodyWaiver (wvw_body row)) = readinessAuthority h (BodyWaiver w))
           (wvr_id w)
           (waiver_columns h r w)
           (rdb_waivers d))
           (\<lambda>t. putWaiverLifecycleEvent seal h c e True (d\<lparr>rdb_waivers := t\<rparr>)))"

section \<open>Inserts\<close>

lemma guard_Inr_iff: "(case r of None \<Rightarrow> m | Some e \<Rightarrow> Inl (f e)) = Inr y \<longleftrightarrow> r = None \<and> m = Inr y"
  by (cases r) auto

lemma insert_checked_Inr:
  "insert_checked ns check same k row t = Inr t' \<longleftrightarrow>
     \<not> list_ex (\<lambda>n. 2 ^ 63 \<le> n) ns \<and> check \<and> putImmutable same k row t = Inr t'"
  by (simp add: insert_checked_def)

context write_once begin

lemma put_cases [consumes 1, case_names fresh replay]:
  assumes "put same k r t = Inr t'"
  obtains "lookup t k = None" "lookup t' = (lookup t)(k \<mapsto> r)"
    | r0 where "lookup t k = Some r0" "same r0" "lookup t' = lookup t"
proof (cases "lookup t k")
  case None
  with put_result [OF assms] that show ?thesis by simp
next
  case (Some r0)
  with put_conflict [OF Some] assms have "same r0" by fastforce
  with Some put_result [OF assms] that show ?thesis by simp
qed

text \<open>Where the stored row is a function of its body, an accepted insert is an update.\<close>

lemma put_update:
  assumes "put same k r t = Inr t'" and "\<And>r0. lookup t k = Some r0 \<Longrightarrow> same r0 \<Longrightarrow> r0 = r"
  shows "lookup t' = (lookup t)(k \<mapsto> r)" "lookup t k = None \<or> lookup t k = Some r"
  using assms by (cases rule: put_cases; fastforce)+

end

section \<open>Well-formed rows\<close>

definition resolutions_ok :: "seal \<Rightarrow> body_sum \<Rightarrow> readiness_db \<Rightarrow> bool" where
  "resolutions_ok seal h d \<longleftrightarrow> (\<forall>k row. map_of (rdb_resolutions d) k = Some row \<longrightarrow>
     RequirementResolution_Validate seal (rsw_body row) = None \<and> res_digest (rsw_body row) = k
     \<and> row = resolution_columns h (rsw_body row))"

definition stored_resolution :: "readiness_db \<Rightarrow> string \<Rightarrow> RequirementResolution option" where
  "stored_resolution d k = map_option rsw_body (map_of (rdb_resolutions d) k)"

definition proof_row_ok :: "seal \<Rightarrow> body_sum \<Rightarrow> readiness_db \<Rightarrow> string \<Rightarrow> proof_row \<Rightarrow> bool" where
  "proof_row_ok seal h d k row \<longleftrightarrow> prf_digest (pfw_body row) = k \<and> row = proof_columns h (pfw_body row)
     \<and> (\<exists>r. stored_resolution d (prf_resolution (pfw_body row)) = Some r \<and> res_applicable r
          \<and> proof_validateFor seal (pfw_body row) r = None)"

definition proofs_ok :: "seal \<Rightarrow> body_sum \<Rightarrow> readiness_db \<Rightarrow> bool" where
  "proofs_ok seal h d \<longleftrightarrow> (\<forall>k row. map_of (rdb_proofs d) k = Some row \<longrightarrow> proof_row_ok seal h d k row)"

definition first_event :: "readiness_db \<Rightarrow> string \<Rightarrow> WaiverLifecycleEvent option" where
  "first_event d i = map_option evw_body (map_of (rdb_events d) (i, 1))"

definition waiver_row_ok :: "body_sum \<Rightarrow> readiness_db \<Rightarrow> string \<Rightarrow> waiver_row \<Rightarrow> bool" where
  "waiver_row_ok h d i row \<longleftrightarrow> wvr_id (wvw_body row) = i
     \<and> (\<exists>r. stored_resolution d (wvr_resolution (wvw_body row)) = Some r \<and> row = waiver_columns h r (wvw_body row)
          \<and> eligible_waiver r (wvw_body row))
     \<and> (\<exists>e. first_event d i = Some e \<and> wle_digest e = wvr_lifecycle (wvw_body row))"

definition waivers_ok :: "body_sum \<Rightarrow> readiness_db \<Rightarrow> bool" where
  "waivers_ok h d \<longleftrightarrow> (\<forall>i row. map_of (rdb_waivers d) i = Some row \<longrightarrow> waiver_row_ok h d i row)"

fun event_row_ok :: "seal \<Rightarrow> body_sum \<Rightarrow> readiness_db \<Rightarrow> string \<times> int \<Rightarrow> event_row \<Rightarrow> bool" where
  "event_row_ok seal h d (i, n) row \<longleftrightarrow> WaiverLifecycleEvent_Validate seal (evw_body row) = None
     \<and> wle_waiver (evw_body row) = i \<and> wle_sequence (evw_body row) = n \<and> row = event_columns h (evw_body row)
     \<and> map_of (rdb_waivers d) i \<noteq> None
     \<and> (n = 1 \<or> n = 2 \<and> (\<exists>e. first_event d i = Some e \<and> wle_previous (evw_body row) = Some (wle_digest e)))"

declare event_row_ok.simps [simp del]

definition events_ok :: "seal \<Rightarrow> body_sum \<Rightarrow> readiness_db \<Rightarrow> bool" where
  "events_ok seal h d \<longleftrightarrow> (\<forall>k row. map_of (rdb_events d) k = Some row \<longrightarrow> event_row_ok seal h d k row)"

definition readiness_ok :: "seal \<Rightarrow> body_sum \<Rightarrow> readiness_db \<Rightarrow> bool" where
  "readiness_ok seal h d \<longleftrightarrow> resolutions_ok seal h d \<and> proofs_ok seal h d \<and> waivers_ok h d \<and> events_ok seal h d"

text \<open>Tables only grow.\<close>

definition db_extends :: "readiness_db \<Rightarrow> readiness_db \<Rightarrow> bool" where
  "db_extends d d' \<longleftrightarrow> map_of (rdb_resolutions d) \<subseteq>\<^sub>m map_of (rdb_resolutions d')
     \<and> map_of (rdb_proofs d) \<subseteq>\<^sub>m map_of (rdb_proofs d') \<and> map_of (rdb_waivers d) \<subseteq>\<^sub>m map_of (rdb_waivers d')
     \<and> map_of (rdb_events d) \<subseteq>\<^sub>m map_of (rdb_events d')"

lemma db_extends_refl: "db_extends d d"
  by (simp add: db_extends_def)

lemma db_extends_trans: "db_extends a b \<Longrightarrow> db_extends b c \<Longrightarrow> db_extends a c"
  by (simp add: db_extends_def) (intro conjI; elim conjE; erule map_le_trans; assumption)

lemma map_le_Some: "m \<subseteq>\<^sub>m m' \<Longrightarrow> m k = Some x \<Longrightarrow> m' k = Some x"
  unfolding map_le_def by (metis domI)

lemma map_le_upd: "m' = m(k \<mapsto> x) \<Longrightarrow> m k = None \<or> m k = Some x \<Longrightarrow> m \<subseteq>\<^sub>m m'"
  by (auto simp: map_le_def)

lemma stored_resolution_extends:
  assumes "db_extends d d'" "stored_resolution d k = Some r"
  shows "stored_resolution d' k = Some r"
proof -
  from assms(2) obtain row where "map_of (rdb_resolutions d) k = Some row" "rsw_body row = r"
    unfolding stored_resolution_def by blast
  with assms(1) map_le_Some show ?thesis unfolding db_extends_def stored_resolution_def by fastforce
qed

lemma first_event_extends:
  assumes "db_extends d d'" "first_event d i = Some e"
  shows "first_event d' i = Some e"
proof -
  from assms(2) obtain row where "map_of (rdb_events d) (i, 1) = Some row" "evw_body row = e"
    unfolding first_event_def by blast
  with assms(1) map_le_Some show ?thesis unfolding db_extends_def first_event_def by fastforce
qed

lemma proof_row_extends: "db_extends d d' \<Longrightarrow> proof_row_ok seal h d k row \<Longrightarrow> proof_row_ok seal h d' k row"
  unfolding proof_row_ok_def using stored_resolution_extends by blast

lemma waiver_row_extends: "db_extends d d' \<Longrightarrow> waiver_row_ok h d i row \<Longrightarrow> waiver_row_ok h d' i row"
  unfolding waiver_row_ok_def using stored_resolution_extends first_event_extends by blast

lemma event_row_extends:
  assumes ext: "db_extends d d'" and ok: "event_row_ok seal h d k row"
  shows "event_row_ok seal h d' k row"
proof (cases k)
  case (Pair i n)
  from ok Pair obtain w where "map_of (rdb_waivers d) i = Some w" by (auto simp: event_row_ok.simps)
  with ext map_le_Some have "map_of (rdb_waivers d') i \<noteq> None" unfolding db_extends_def by fastforce
  with ok Pair first_event_extends [OF ext] show ?thesis by (simp add: event_row_ok.simps del: not_None_eq) blast
qed

text \<open>A larger table is well-formed when the old rows and the new row are.\<close>

lemma proofs_insert:
  "proofs_ok seal h d \<Longrightarrow> db_extends d d' \<Longrightarrow> map_of (rdb_proofs d') = (map_of (rdb_proofs d))(k \<mapsto> row) \<Longrightarrow>
     proof_row_ok seal h d' k row \<Longrightarrow> proofs_ok seal h d'"
  unfolding proofs_ok_def using proof_row_extends by (metis fun_upd_apply option.inject)

lemma waivers_insert:
  "waivers_ok h d \<Longrightarrow> db_extends d d' \<Longrightarrow> map_of (rdb_waivers d') = (map_of (rdb_waivers d))(k \<mapsto> row) \<Longrightarrow>
     waiver_row_ok h d' k row \<Longrightarrow> waivers_ok h d'"
  unfolding waivers_ok_def using waiver_row_extends by (metis fun_upd_apply option.inject)

lemma events_insert:
  "events_ok seal h d \<Longrightarrow> db_extends d d' \<Longrightarrow> map_of (rdb_events d') = (map_of (rdb_events d))(k \<mapsto> row) \<Longrightarrow>
     event_row_ok seal h d' k row \<Longrightarrow> events_ok seal h d'"
  unfolding events_ok_def using event_row_extends by (metis fun_upd_apply option.inject)

section \<open>Reads\<close>

lemma GetRequirementResolution_Inr:
  "GetRequirementResolution seal h c k d = Inr r \<longleftrightarrow> (\<exists>row. map_of (rdb_resolutions d) k = Some row \<and> rsw_body row = r
     \<and> res_digest r = k \<and> row = resolution_columns h r \<and> RequirementResolution_Validate seal r = None
     \<and> gateRequirementResolution c r = None)"
proof (cases "map_of (rdb_resolutions d) k")
  case (Some row)
  then show ?thesis
    by (cases row) (auto simp: GetRequirementResolution_def ebind_Inr_iff of_err_Inr_iff resolution_columns_def
        simp del: map_of_eq_Some_iff split: if_split_asm)
qed (simp add: GetRequirementResolution_def)

lemma GetRequirementResolution_ok:
  assumes "readiness_ok seal h d"
  shows "GetRequirementResolution seal h c k d = Inr r \<longleftrightarrow>
    stored_resolution d k = Some r \<and> gateRequirementResolution c r = None"
  using assms unfolding GetRequirementResolution_Inr readiness_ok_def resolutions_ok_def stored_resolution_def
  by (auto simp del: map_of_eq_Some_iff)

lemma NewPassedCheckState_Inr:
  "NewPassedCheckState seal r p = Inr s \<longleftrightarrow> RequirementResolution_Validate seal r = None \<and> res_applicable r
     \<and> proof_validateFor seal p r = None
     \<and> s = \<lparr>cst_resolution = r, cst_not_applicable = False, cst_applicable = Some \<lparr>acs_proof = Some p, acs_failure = None\<rparr>\<rparr>"
  by (auto simp: NewPassedCheckState_def CheckState_Validate_def Let_def of_err_Inr_iff validation)

lemma getWaiverLifecycleEvent_Inr:
  "getWaiverLifecycleEvent seal h i n d = Inr e \<longleftrightarrow> (\<exists>row. map_of (rdb_events d) (i, n) = Some row \<and> evw_body row = e
     \<and> wle_waiver e = i \<and> wle_sequence e = n \<and> row = event_columns h e \<and> WaiverLifecycleEvent_Validate seal e = None)"
proof (cases "map_of (rdb_events d) (i, n)")
  case (Some row)
  then show ?thesis
    by (cases row) (auto simp: getWaiverLifecycleEvent_def ebind_Inr_iff event_columns_def
        simp del: map_of_eq_Some_iff split: if_split_asm)
qed (simp add: getWaiverLifecycleEvent_def)

lemma getDegradedWaiverUnchecked_Inr:
  "getDegradedWaiverUnchecked seal h c i d = Inr (w, r) \<longleftrightarrow> (\<exists>row. map_of (rdb_waivers d) i = Some row \<and> wvw_body row = w
     \<and> wvr_id w = i \<and> row = waiver_columns h r w \<and> Waiver_Validate w = None
     \<and> GetRequirementResolution seal h c (wvr_resolution w) d = Inr r)"
proof (cases "map_of (rdb_waivers d) i")
  case (Some row)
  then show ?thesis
    by (cases row) (auto simp: getDegradedWaiverUnchecked_def ebind_Inr_iff waiver_columns_def
        simp del: map_of_eq_Some_iff split: if_split_asm)
qed (simp add: getDegradedWaiverUnchecked_def)

lemma event_sequences_iff: "n \<in> set (event_sequences i d) \<longleftrightarrow> map_of (rdb_events d) (i, n) \<noteq> None"
  unfolding event_sequences_def map_of_eq_None_iff by force

section \<open>Lifecycles\<close>

text \<open>A waiver as its lifecycle table shows it, and the automaton it follows.\<close>

datatype waiver_life = Unrecorded | Active | Ended WaiverLifecycleStatus

fun life_of :: "event_row option \<Rightarrow> event_row option \<Rightarrow> waiver_life" where
  "life_of _ (Some row) = Ended (evw_status row)"
| "life_of (Some _) None = Active"
| "life_of None None = Unrecorded"

definition life :: "readiness_db \<Rightarrow> string \<Rightarrow> waiver_life" where
  "life d i = life_of (map_of (rdb_events d) (i, 1)) (map_of (rdb_events d) (i, 2))"

lemma life_eq:
  "life d i = Unrecorded \<longleftrightarrow> map_of (rdb_events d) (i, 1) = None \<and> map_of (rdb_events d) (i, 2) = None"
  "life d i = Active \<longleftrightarrow> (\<exists>row. map_of (rdb_events d) (i, 1) = Some row) \<and> map_of (rdb_events d) (i, 2) = None"
  "life d i = Ended s \<longleftrightarrow> (\<exists>row. map_of (rdb_events d) (i, 2) = Some row \<and> evw_status row = s)"
  unfolding life_def by (cases "map_of (rdb_events d) (i, 1)"; cases "map_of (rdb_events d) (i, 2)";
      simp del: map_of_eq_Some_iff)+

inductive life_step :: "waiver_life \<Rightarrow> waiver_life \<Rightarrow> bool" where
  grant: "life_step Unrecorded Active"
| revoke: "life_step Active (Ended WaiverLifecycleRevoked)"
| expire: "life_step Active (Ended WaiverLifecycleExpired)"

lemma event_valid:
  "WaiverLifecycleEvent_Validate seal e = None \<Longrightarrow> wle_sequence e = 1 \<Longrightarrow> wle_status e = WaiverLifecycleGranted \<and> wle_previous e = None"
  "WaiverLifecycleEvent_Validate seal e = None \<Longrightarrow> 1 < wle_sequence e \<Longrightarrow> wle_status e \<in> {WaiverLifecycleRevoked, WaiverLifecycleExpired}"
  by (cases "wle_status e"; auto simp: WaiverLifecycleEvent_Validate_def validation)+

lemma initial_sequences: "S \<subseteq> {1, 2::int} \<Longrightarrow> (2 \<in> S \<longrightarrow> 1 \<in> S) \<Longrightarrow> S = {} \<or> S = {1} \<or> S = {1, 2}"
  by (cases "2 \<in> S"; cases "1 \<in> S") auto

lemma LatestWaiverLifecycleEvent_ok:
  assumes ok: "readiness_ok seal h d"
  shows "LatestWaiverLifecycleEvent seal h i d = (case life d i of
      Unrecorded \<Rightarrow> Inl ErrNotFound
    | Active \<Rightarrow> getWaiverLifecycleEvent seal h i 1 d
    | Ended _ \<Rightarrow> getWaiverLifecycleEvent seal h i 2 d)"
proof -
  let ?S = "set (event_sequences i d)"
  have sub: "?S \<subseteq> {1, 2}" and one: "2 \<in> ?S \<longrightarrow> 1 \<in> ?S"
  proof -
    have e: "n = 1 \<or> n = 2 \<and> first_event d i \<noteq> None" if n: "n \<in> ?S" for n
    proof -
      from n obtain row where "map_of (rdb_events d) (i, n) = Some row" unfolding event_sequences_iff by blast
      with ok have "event_row_ok seal h d (i, n) row" unfolding readiness_ok_def events_ok_def by blast
      then show ?thesis by (auto simp: event_row_ok.simps)
    qed
    from e show "?S \<subseteq> {1, 2}" by blast
    show "2 \<in> ?S \<longrightarrow> 1 \<in> ?S"
    proof
      assume "2 \<in> ?S"
      from e [OF this] have "first_event d i \<noteq> None" by simp
      then show "1 \<in> ?S" unfolding event_sequences_iff first_event_def by (metis option.map_disc_iff)
    qed
  qed
  consider "?S = {}" | "?S = {1}" | "?S = {1, 2}" using initial_sequences [OF sub one] by (elim disjE)
  then show ?thesis
  proof cases
    case 1
    then have "map_of (rdb_events d) (i, 1) = None \<and> map_of (rdb_events d) (i, 2) = None"
      using event_sequences_iff [of 1 i d] event_sequences_iff [of 2 i d] by simp
    with 1 show ?thesis by (simp add: LatestWaiverLifecycleEvent_def life_def)
  next
    case 2
    then obtain y where "map_of (rdb_events d) (i, 1) = Some y" "map_of (rdb_events d) (i, 2) = None"
      using event_sequences_iff [of 1 i d] event_sequences_iff [of 2 i d] by auto
    moreover from 2 have "event_sequences i d \<noteq> []" by auto
    ultimately show ?thesis using 2 by (simp add: LatestWaiverLifecycleEvent_def life_def del: map_of_eq_Some_iff)
  next
    case 3
    then obtain y where "map_of (rdb_events d) (i, 2) = Some y" using event_sequences_iff [of 2 i d] by auto
    moreover from 3 have "event_sequences i d \<noteq> []" by auto
    ultimately show ?thesis using 3 by (simp add: LatestWaiverLifecycleEvent_def life_def del: map_of_eq_Some_iff)
  qed
qed

section \<open>Writes\<close>

text \<open>What an accepted write does to the tables of a well-formed database.\<close>

lemma RecordRequirementResolution_effect:
  assumes "RecordRequirementResolution seal h c r d = Inr d'" and "readiness_ok seal h d"
  obtains t where "d' = d\<lparr>rdb_resolutions := t\<rparr>"
    "map_of t = (map_of (rdb_resolutions d))(res_digest r \<mapsto> resolution_columns h r)"
    "map_of (rdb_resolutions d) (res_digest r) = None
      \<or> map_of (rdb_resolutions d) (res_digest r) = Some (resolution_columns h r)"
    "RequirementResolution_Validate seal r = None" "gateRequirementResolution c r = None"
proof -
  from assms(1) obtain t where v: "RequirementResolution_Validate seal r = None" "gateRequirementResolution c r = None"
    and d': "d' = d\<lparr>rdb_resolutions := t\<rparr>"
    and put: "putImmutable (\<lambda>row. (rsw_body_digest row, BodyResolution (rsw_body row)) = readinessAuthority h (BodyResolution r))
      (res_digest r) (resolution_columns h r) (rdb_resolutions d) = Inr t"
    by (auto simp: RecordRequirementResolution_def guard_Inr_iff validation ebind_Inr_iff insert_checked_Inr)
  have same: "r0 = resolution_columns h r" if "map_of (rdb_resolutions d) (res_digest r) = Some r0"
    "(rsw_body_digest r0, BodyResolution (rsw_body r0)) = readinessAuthority h (BodyResolution r)" for r0
    using assms(2) that unfolding readiness_ok_def resolutions_ok_def readinessAuthority_def by (metis prod.inject readiness_body.inject(1))
  from immutable_rows.put_update [OF put same] that [OF d' _ _ v] show thesis by blast
qed

lemma RecordCheckProof_effect:
  assumes "RecordCheckProof seal h c p d = Inr d'" and "readiness_ok seal h d"
  obtains t r where "d' = d\<lparr>rdb_proofs := t\<rparr>" "map_of t = (map_of (rdb_proofs d))(prf_digest p \<mapsto> proof_columns h p)"
    "map_of (rdb_proofs d) (prf_digest p) = None \<or> map_of (rdb_proofs d) (prf_digest p) = Some (proof_columns h p)"
    "stored_resolution d (prf_resolution p) = Some r" "gateRequirementResolution c r = None" "res_applicable r"
    "proof_validateFor seal p r = None" "gateCheckProofRecipe c r p = None"
proof -
  from assms(1) obtain r s t where r: "GetRequirementResolution seal h c (prf_resolution p) d = Inr r"
    and s: "NewPassedCheckState seal r p = Inr s" and g: "gateCheckProofRecipe c r p = None"
    and d': "d' = d\<lparr>rdb_proofs := t\<rparr>"
    and put: "putImmutable (\<lambda>row. (pfw_body_digest row, BodyProof (pfw_body row)) = readinessAuthority h (BodyProof p))
      (prf_digest p) (proof_columns h p) (rdb_proofs d) = Inr t"
    by (auto simp: RecordCheckProof_def guard_Inr_iff validation ebind_Inr_iff insert_checked_Inr)
  have same: "r0 = proof_columns h p" if "map_of (rdb_proofs d) (prf_digest p) = Some r0"
    "(pfw_body_digest r0, BodyProof (pfw_body r0)) = readinessAuthority h (BodyProof p)" for r0
    using assms(2) that unfolding readiness_ok_def proofs_ok_def proof_row_ok_def readinessAuthority_def by (metis prod.inject readiness_body.inject(2))
  from r s have "stored_resolution d (prf_resolution p) = Some r" "gateRequirementResolution c r = None" "res_applicable r"
    "proof_validateFor seal p r = None"
    by (auto simp: GetRequirementResolution_ok [OF assms(2)] NewPassedCheckState_Inr)
  with immutable_rows.put_update [OF put same] that [OF d' _ _ _ _ _ _ g] show thesis by blast
qed

text \<open>An event row: a lifecycle event that the transition rule admits, or one already there.\<close>

lemma insertLifecycleEvent_effect:
  assumes "insertLifecycleEvent h e d = Inr d'" and "events_ok seal h d"
  obtains t where "d' = d\<lparr>rdb_events := t\<rparr>"
    "map_of t = (map_of (rdb_events d))((wle_waiver e, wle_sequence e) \<mapsto> event_columns h e)"
    "map_of (rdb_events d) (wle_waiver e, wle_sequence e) = None
      \<or> map_of (rdb_events d) (wle_waiver e, wle_sequence e) = Some (event_columns h e)"
proof -
  from assms(1) obtain t where d': "d' = d\<lparr>rdb_events := t\<rparr>"
    and put: "putImmutable (\<lambda>row. (evw_body_digest row, BodyEvent (evw_body row)) = readinessAuthority h (BodyEvent e))
      (wle_waiver e, wle_sequence e) (event_columns h e) (rdb_events d) = Inr t"
    by (auto simp: insertLifecycleEvent_def Let_def ebind_Inr_iff insert_checked_Inr split: if_split_asm)
  have same: "r0 = event_columns h e" if "map_of (rdb_events d) (wle_waiver e, wle_sequence e) = Some r0"
    "(evw_body_digest r0, BodyEvent (evw_body r0)) = readinessAuthority h (BodyEvent e)" for r0
    using assms(2) that unfolding events_ok_def readinessAuthority_def by (metis event_row_ok.simps prod.inject readiness_body.inject(4))
  from immutable_rows.put_update [OF put same] that [OF d'] show thesis by blast
qed

lemma RecordWaiverLifecycleEvent_effect:
  assumes "RecordWaiverLifecycleEvent seal h c e d = Inr d'" and ok: "readiness_ok seal h d"
  obtains t e0 where "d' = d\<lparr>rdb_events := t\<rparr>" "map_of t = (map_of (rdb_events d))((wle_waiver e, 2) \<mapsto> event_columns h e)"
    "map_of (rdb_events d) (wle_waiver e, 2) = None" "life d (wle_waiver e) = Active"
    "WaiverLifecycleEvent_Validate seal e = None" "wle_sequence e = 2" "first_event d (wle_waiver e) = Some e0"
    "wle_previous e = Some (wle_digest e0)" "wle_status e \<noteq> WaiverLifecycleGranted"
    "map_of (rdb_waivers d) (wle_waiver e) \<noteq> None"
proof -
  let ?i = "wle_waiver e"
  from assms(1) obtain w r previous where w: "getDegradedWaiverUnchecked seal h c ?i d = Inr (w, r)"
    and v: "WaiverLifecycleEvent_Validate seal e = None"
    and l: "LatestWaiverLifecycleEvent seal h ?i d = Inr previous"
    and p: "wle_sequence e = (wle_sequence previous + 1) mod 2 ^ 64" "wle_previous e = Some (wle_digest previous)"
      "wle_status previous = WaiverLifecycleGranted" "wle_status e \<noteq> WaiverLifecycleGranted"
    and ins: "insertLifecycleEvent h e d = Inr d'"
    by (auto simp: RecordWaiverLifecycleEvent_def putWaiverLifecycleEvent_def guard_Inr_iff validation ebind_Inr_iff of_err_Inr_iff)
  have active: "life d ?i = Active"
  proof (cases "life d ?i")
    case (Ended s)
    with l LatestWaiverLifecycleEvent_ok [OF ok] have "getWaiverLifecycleEvent seal h ?i 2 d = Inr previous" by simp
    then have "WaiverLifecycleEvent_Validate seal previous = None" "wle_sequence previous = 2"
      by (auto simp: getWaiverLifecycleEvent_Inr)
    with event_valid(2) [of seal previous] p(3) show ?thesis by simp
  qed (use l LatestWaiverLifecycleEvent_ok [OF ok] in simp_all)
  with l LatestWaiverLifecycleEvent_ok [OF ok] have g: "getWaiverLifecycleEvent seal h ?i 1 d = Inr previous" by simp
  then have one: "wle_sequence previous = 1" and f: "first_event d ?i = Some previous"
    unfolding getWaiverLifecycleEvent_Inr first_event_def by auto
  from one p(1) have two: "wle_sequence e = 2" by simp
  from active have none: "map_of (rdb_events d) (?i, 2) = None" by (simp add: life_eq)
  from w have "map_of (rdb_waivers d) ?i \<noteq> None" unfolding getDegradedWaiverUnchecked_Inr by blast
  moreover have "events_ok seal h d" using ok by (simp add: readiness_ok_def)
  ultimately show thesis
    using insertLifecycleEvent_effect [OF ins] that v none active two f p(2,4) by metis
qed

lemma RecordValidatedDegradedWaiver_effect:
  assumes "RecordValidatedDegradedWaiver seal h c w e d = Inr d'" and ok: "readiness_ok seal h d"
  obtains t u r where "d' = d\<lparr>rdb_waivers := t, rdb_events := u\<rparr>"
    "map_of t = (map_of (rdb_waivers d))(wvr_id w \<mapsto> waiver_columns h r w)"
    "map_of (rdb_waivers d) (wvr_id w) = None \<or> map_of (rdb_waivers d) (wvr_id w) = Some (waiver_columns h r w)"
    "map_of u = (map_of (rdb_events d))((wvr_id w, 1) \<mapsto> event_columns h e)"
    "map_of (rdb_events d) (wvr_id w, 1) = None \<or> map_of (rdb_events d) (wvr_id w, 1) = Some (event_columns h e)"
    "stored_resolution d (wvr_resolution w) = Some r" "gateRequirementResolution c r = None" "eligible_waiver r w"
    "cfg_grants c (wvr_authority w) (wvr_grant w)" "WaiverLifecycleEvent_Validate seal e = None" "wle_sequence e = 1"
    "wle_waiver e = wvr_id w" "wle_digest e = wvr_lifecycle w" "wle_status e = WaiverLifecycleGranted"
proof -
  from assms(1) obtain r t where r: "GetRequirementResolution seal h c (wvr_resolution w) d = Inr r"
    and v: "ValidateDegradedWaiver seal r e w = None" and g: "gateDegradedWaiverAuthority c w = None"
    and put: "putImmutable (\<lambda>row. (wvw_body_digest row, BodyWaiver (wvw_body row)) = readinessAuthority h (BodyWaiver w))
      (wvr_id w) (waiver_columns h r w) (rdb_waivers d) = Inr t"
    and ev: "putWaiverLifecycleEvent seal h c e True (d\<lparr>rdb_waivers := t\<rparr>) = Inr d'"
    by (auto simp: RecordValidatedDegradedWaiver_def guard_Inr_iff validation ebind_Inr_iff insert_checked_Inr)
  from v have el: "eligible_waiver r w" and ed: "WaiverLifecycleEvent_Validate seal e = None" "wle_waiver e = wvr_id w"
    "wle_digest e = wvr_lifecycle w" "wle_status e = WaiverLifecycleGranted"
    by (simp_all add: ValidateDegradedWaiver_def eligible_waiver_def validation)
  from ev have one: "wle_sequence e = 1" and ins: "insertLifecycleEvent h e (d\<lparr>rdb_waivers := t\<rparr>) = Inr d'"
    by (auto simp: putWaiverLifecycleEvent_def guard_Inr_iff validation ebind_Inr_iff of_err_Inr_iff)
  from r have sr: "stored_resolution d (wvr_resolution w) = Some r" "gateRequirementResolution c r = None"
    by (simp_all add: GetRequirementResolution_ok [OF ok])
  have same: "r0 = waiver_columns h r w" if "map_of (rdb_waivers d) (wvr_id w) = Some r0"
    "(wvw_body_digest r0, BodyWaiver (wvw_body r0)) = readinessAuthority h (BodyWaiver w)" for r0
  proof -
    from that(2) have b: "wvw_body r0 = w" by (simp add: readinessAuthority_def)
    from ok that(1) obtain r' where "stored_resolution d (wvr_resolution (wvw_body r0)) = Some r'"
      "r0 = waiver_columns h r' (wvw_body r0)" unfolding readiness_ok_def waivers_ok_def waiver_row_ok_def by blast
    with sr b show ?thesis by simp
  qed
  have e': "events_ok seal h (d\<lparr>rdb_waivers := t\<rparr>)"
  proof -
    from immutable_rows.put_update(1) [OF put same] have "map_of (rdb_waivers d) i \<noteq> None \<Longrightarrow> map_of t i \<noteq> None" for i
      by simp
    moreover have "event_row_ok seal h (d\<lparr>rdb_waivers := t\<rparr>) k row"
      if "event_row_ok seal h d k row" "\<And>i. map_of (rdb_waivers d) i \<noteq> None \<Longrightarrow> map_of t i \<noteq> None" for k row
      using that by (cases k) (auto simp: event_row_ok.simps first_event_def simp del: not_None_eq)
    ultimately have keep: "event_row_ok seal h d k row \<Longrightarrow> event_row_ok seal h (d\<lparr>rdb_waivers := t\<rparr>) k row" for k row
      by blast
    from ok have "\<forall>k row. map_of (rdb_events d) k = Some row \<longrightarrow> event_row_ok seal h d k row"
      unfolding readiness_ok_def events_ok_def by blast
    moreover have "rdb_events (d\<lparr>rdb_waivers := t\<rparr>) = rdb_events d" by simp
    ultimately show ?thesis using keep unfolding events_ok_def by metis
  qed
  from insertLifecycleEvent_effect [OF ins e'] obtain u where u: "d' = d\<lparr>rdb_waivers := t, rdb_events := u\<rparr>"
    "map_of u = (map_of (rdb_events d))((wvr_id w, 1) \<mapsto> event_columns h e)"
    "map_of (rdb_events d) (wvr_id w, 1) = None \<or> map_of (rdb_events d) (wvr_id w, 1) = Some (event_columns h e)"
    by (simp add: ed one) metis
  from g have "cfg_grants c (wvr_authority w) (wvr_grant w)" by (simp add: gateDegradedWaiverAuthority_def)
  with that [OF u(1) _ _ u(2,3) sr el] immutable_rows.put_update [OF put same] ed one show thesis by blast
qed

section \<open>Runs\<close>

datatype readiness_write = WriteResolution RequirementResolution | WriteProof CheckProof
  | WriteWaiver ValidatedDegradedWaiver WaiverLifecycleEvent | WriteEvent WaiverLifecycleEvent

fun apply_write ::
  "seal \<Rightarrow> body_sum \<Rightarrow> readiness_config \<Rightarrow> readiness_write \<Rightarrow> readiness_db \<Rightarrow> err + readiness_db" where
  "apply_write seal h c (WriteResolution r) = RecordRequirementResolution seal h c r"
| "apply_write seal h c (WriteProof p) = RecordCheckProof seal h c p"
| "apply_write seal h c (WriteWaiver w e) = RecordValidatedDegradedWaiver seal h c w e"
| "apply_write seal h c (WriteEvent e) = RecordWaiverLifecycleEvent seal h c e"

text \<open>Any accepted write, under any registries: a restart may change them between transactions.\<close>

inductive readiness_step :: "seal \<Rightarrow> body_sum \<Rightarrow> readiness_db \<Rightarrow> readiness_db \<Rightarrow> bool" for seal h where
  accepted: "apply_write seal h c x d = Inr d' \<Longrightarrow> readiness_step seal h d d'"

inductive_cases readiness_stepE: "readiness_step seal h d d'"

definition empty_readiness_db :: readiness_db where
  "empty_readiness_db = \<lparr>rdb_resolutions = [], rdb_proofs = [], rdb_waivers = [], rdb_events = []\<rparr>"

definition readiness_reachable :: "seal \<Rightarrow> body_sum \<Rightarrow> readiness_db \<Rightarrow> bool" where
  "readiness_reachable seal h d \<longleftrightarrow> (readiness_step seal h)\<^sup>*\<^sup>* empty_readiness_db d"

lemma readiness_extend:
  assumes ok: "readiness_ok seal h d" and ext: "db_extends d d'"
  shows "rdb_resolutions d' = rdb_resolutions d \<Longrightarrow> resolutions_ok seal h d'"
    "rdb_proofs d' = rdb_proofs d \<Longrightarrow> proofs_ok seal h d'"
    "rdb_waivers d' = rdb_waivers d \<Longrightarrow> waivers_ok h d'"
    "rdb_events d' = rdb_events d \<Longrightarrow> events_ok seal h d'"
  using ok proof_row_extends [OF ext] waiver_row_extends [OF ext] event_row_extends [OF ext]
  by (simp_all add: readiness_ok_def resolutions_ok_def proofs_ok_def waivers_ok_def events_ok_def)

lemma resolution_write_ok:
  assumes "RecordRequirementResolution seal h c r d = Inr d'" and ok: "readiness_ok seal h d"
  shows "readiness_ok seal h d' \<and> db_extends d d'"
proof -
  from RecordRequirementResolution_effect [OF assms] obtain t where d': "d' = d\<lparr>rdb_resolutions := t\<rparr>"
    and t: "map_of t = (map_of (rdb_resolutions d))(res_digest r \<mapsto> resolution_columns h r)"
      "map_of (rdb_resolutions d) (res_digest r) = None
        \<or> map_of (rdb_resolutions d) (res_digest r) = Some (resolution_columns h r)"
    and v: "RequirementResolution_Validate seal r = None" by metis
  have e: "db_extends d d'" unfolding db_extends_def d' using map_le_upd [OF t(1) t(2)] by simp
  have "resolutions_ok seal h d'"
    using ok v by (simp add: readiness_ok_def resolutions_ok_def d' t(1)) (simp add: resolution_columns_def)
  with readiness_extend [OF ok e] e d' show ?thesis by (simp add: readiness_ok_def)
qed

lemma proof_write_ok:
  assumes "RecordCheckProof seal h c p d = Inr d'" and ok: "readiness_ok seal h d"
  shows "readiness_ok seal h d' \<and> db_extends d d'"
proof -
  from RecordCheckProof_effect [OF assms] obtain t r where d': "d' = d\<lparr>rdb_proofs := t\<rparr>"
    and t: "map_of t = (map_of (rdb_proofs d))(prf_digest p \<mapsto> proof_columns h p)"
      "map_of (rdb_proofs d) (prf_digest p) = None \<or> map_of (rdb_proofs d) (prf_digest p) = Some (proof_columns h p)"
    and r: "stored_resolution d (prf_resolution p) = Some r" "res_applicable r" "proof_validateFor seal p r = None" by metis
  have e: "db_extends d d'" unfolding db_extends_def d' using map_le_upd [OF t(1) t(2)] by simp
  from r stored_resolution_extends [OF e r(1)] have new: "proof_row_ok seal h d' (prf_digest p) (proof_columns h p)"
    by (simp add: proof_row_ok_def) (simp add: proof_columns_def)
  from ok have old: "proofs_ok seal h d" by (simp add: readiness_ok_def)
  from proofs_insert [OF old e _ new] have "proofs_ok seal h d'"
    using t(1) by (simp add: d')
  with readiness_extend [OF ok e] e d' show ?thesis by (simp add: readiness_ok_def)
qed

lemma waiver_write_ok:
  assumes "RecordValidatedDegradedWaiver seal h c w ev d = Inr d'" and ok: "readiness_ok seal h d"
  shows "readiness_ok seal h d' \<and> db_extends d d'"
proof -
  from RecordValidatedDegradedWaiver_effect [OF assms] obtain t u r
    where d': "d' = d\<lparr>rdb_waivers := t, rdb_events := u\<rparr>"
    and t: "map_of t = (map_of (rdb_waivers d))(wvr_id w \<mapsto> waiver_columns h r w)"
      "map_of (rdb_waivers d) (wvr_id w) = None \<or> map_of (rdb_waivers d) (wvr_id w) = Some (waiver_columns h r w)"
    and u: "map_of u = (map_of (rdb_events d))((wvr_id w, 1) \<mapsto> event_columns h ev)"
      "map_of (rdb_events d) (wvr_id w, 1) = None \<or> map_of (rdb_events d) (wvr_id w, 1) = Some (event_columns h ev)"
    and r: "stored_resolution d (wvr_resolution w) = Some r" "eligible_waiver r w"
    and v: "WaiverLifecycleEvent_Validate seal ev = None" "wle_sequence ev = 1" "wle_waiver ev = wvr_id w"
      "wle_digest ev = wvr_lifecycle w" by metis
  have e: "db_extends d d'"
    unfolding db_extends_def d' using map_le_upd [OF t(1) t(2)] map_le_upd [OF u(1) u(2)] by simp
  from ok have old: "waivers_ok h d" "events_ok seal h d" by (simp_all add: readiness_ok_def)
  have "first_event d' (wvr_id w) = Some ev" using u(1) by (simp add: first_event_def d' event_columns_def)
  with r v stored_resolution_extends [OF e r(1)] have "waiver_row_ok h d' (wvr_id w) (waiver_columns h r w)"
    by (simp add: waiver_row_ok_def) (simp add: waiver_columns_def)
  from waivers_insert [OF old(1) e _ this] have "waivers_ok h d'"
    using t(1) by (simp add: d')
  moreover from v t(1) have "event_row_ok seal h d' (wvr_id w, 1) (event_columns h ev)"
    by (simp add: d' event_row_ok.simps) (simp add: event_columns_def)
  from events_insert [OF old(2) e _ this] have "events_ok seal h d'"
    using u(1) by (simp add: d')
  ultimately show ?thesis using readiness_extend [OF ok e] e d' by (simp add: readiness_ok_def)
qed

lemma event_write_ok:
  assumes "RecordWaiverLifecycleEvent seal h c ev d = Inr d'" and ok: "readiness_ok seal h d"
  shows "readiness_ok seal h d' \<and> db_extends d d'"
proof -
  from RecordWaiverLifecycleEvent_effect [OF assms] obtain t e0 where d': "d' = d\<lparr>rdb_events := t\<rparr>"
    and t: "map_of t = (map_of (rdb_events d))((wle_waiver ev, 2) \<mapsto> event_columns h ev)"
      "map_of (rdb_events d) (wle_waiver ev, 2) = None"
    and v: "WaiverLifecycleEvent_Validate seal ev = None" "wle_sequence ev = 2" "first_event d (wle_waiver ev) = Some e0"
      "wle_previous ev = Some (wle_digest e0)" "map_of (rdb_waivers d) (wle_waiver ev) \<noteq> None" by metis
  have e: "db_extends d d'" unfolding db_extends_def d'
    using map_le_upd [OF t(1) disjI1 [OF t(2)]] by simp
  from ok have old: "events_ok seal h d" by (simp add: readiness_ok_def)
  from v first_event_extends [OF e v(3)] have "event_row_ok seal h d' (wle_waiver ev, 2) (event_columns h ev)"
    by (simp add: d' event_row_ok.simps) (simp add: event_columns_def)
  from events_insert [OF old e _ this] have "events_ok seal h d'"
    using t(1) by (simp add: d')
  with readiness_extend [OF ok e] e d' show ?thesis by (simp add: readiness_ok_def)
qed

lemma readiness_step_ok:
  "readiness_step seal h d d' \<Longrightarrow> readiness_ok seal h d \<Longrightarrow> readiness_ok seal h d' \<and> db_extends d d'"
proof (erule readiness_stepE)
  fix c x assume "apply_write seal h c x d = Inr d'" "readiness_ok seal h d"
  then show "readiness_ok seal h d' \<and> db_extends d d'"
    by (cases x) (auto dest: resolution_write_ok proof_write_ok waiver_write_ok event_write_ok)
qed

lemma readiness_run_ok:
  "(readiness_step seal h)\<^sup>*\<^sup>* d d' \<Longrightarrow> readiness_ok seal h d \<Longrightarrow> readiness_ok seal h d' \<and> db_extends d d'"
proof (induction rule: rtranclp_induct)
  case (step y z)
  then show ?case using readiness_step_ok db_extends_trans by blast
qed (simp add: db_extends_refl)

lemma readiness_reachable_ok: "readiness_reachable seal h d \<Longrightarrow> readiness_ok seal h d"
  unfolding readiness_reachable_def
  by (drule readiness_run_ok) (simp_all add: empty_readiness_db_def readiness_ok_def resolutions_ok_def proofs_ok_def
      waivers_ok_def events_ok_def)

text \<open>
  C34: every reachable database is well-formed: each row's columns and digest agree with its body,
  every body is valid under its key, a proof and a waiver bind a stored resolution that admits them, a
  waiver has its initial event, and an event sequence is the grant and at most one linked successor;
  and no write ever changes or removes a row.
\<close>

theorem readiness_tables_typed:
  assumes "readiness_reachable seal h d" and "readiness_step seal h d d'"
  shows "readiness_ok seal h d' \<and> db_extends d d'"
  using readiness_step_ok [OF assms(2) readiness_reachable_ok [OF assms(1)]] .

section \<open>The lifecycle automaton\<close>

lemma life_same: "map_of (rdb_events d') (i, 1) = map_of (rdb_events d) (i, 1) \<Longrightarrow>
    map_of (rdb_events d') (i, 2) = map_of (rdb_events d) (i, 2) \<Longrightarrow> life d' i = life d i"
  by (simp add: life_def)

lemma event_row_read:
  assumes "readiness_ok seal h d" and "map_of (rdb_events d) (i, n) = Some row"
  shows "getWaiverLifecycleEvent seal h i n d = Inr (evw_body row)"
    "WaiverLifecycleEvent_Validate seal (evw_body row) = None" "wle_sequence (evw_body row) = n"
    "evw_status row = wle_status (evw_body row)"
proof -
  from assms have r: "event_row_ok seal h d (i, n) row" by (simp add: readiness_ok_def events_ok_def)
  then have "row = event_columns h (evw_body row)" by (simp add: event_row_ok.simps)
  then show "evw_status row = wle_status (evw_body row)" by (metis event_columns_def event_row.select_convs(1))
  show "getWaiverLifecycleEvent seal h i n d = Inr (evw_body row)"
    "WaiverLifecycleEvent_Validate seal (evw_body row) = None" "wle_sequence (evw_body row) = n"
    using assms(2) r unfolding getWaiverLifecycleEvent_Inr event_row_ok.simps by blast+
qed

lemma latest_life:
  assumes ok: "readiness_ok seal h d"
  shows "case life d i of
      Unrecorded \<Rightarrow> LatestWaiverLifecycleEvent seal h i d = Inl ErrNotFound
    | Active \<Rightarrow> (\<exists>e. LatestWaiverLifecycleEvent seal h i d = Inr e \<and> wle_status e = WaiverLifecycleGranted)
    | Ended s \<Rightarrow> (\<exists>e. LatestWaiverLifecycleEvent seal h i d = Inr e \<and> wle_status e = s \<and> s \<noteq> WaiverLifecycleGranted)"
proof (cases "life d i")
  case Active
  then obtain row where r: "map_of (rdb_events d) (i, 1) = Some row"
    by (auto simp: life_eq simp del: map_of_eq_Some_iff)
  from event_row_read [OF ok r] event_valid(1) [of seal "evw_body row"] Active LatestWaiverLifecycleEvent_ok [OF ok, of i]
  show ?thesis by simp
next
  case (Ended s)
  then obtain row where r: "map_of (rdb_events d) (i, 2) = Some row" "evw_status row = s"
    by (auto simp: life_eq simp del: map_of_eq_Some_iff)
  from event_row_read [OF ok r(1)] event_valid(2) [of seal "evw_body row"] Ended r(2) LatestWaiverLifecycleEvent_ok [OF ok, of i]
  show ?thesis by auto
qed (use LatestWaiverLifecycleEvent_ok [OF ok, of i] in simp)

lemma waiver_write_life:
  assumes "RecordValidatedDegradedWaiver seal h c w e d = Inr d'" and ok: "readiness_ok seal h d"
  shows "life d' i = life d i \<or> life d i = Unrecorded \<and> life d' i = Active"
proof -
  from RecordValidatedDegradedWaiver_effect [OF assms] obtain t u where d': "d' = d\<lparr>rdb_waivers := t, rdb_events := u\<rparr>"
    and u: "map_of u = (map_of (rdb_events d))((wvr_id w, 1) \<mapsto> event_columns h e)"
      "map_of (rdb_events d) (wvr_id w, 1) = None \<or> map_of (rdb_events d) (wvr_id w, 1) = Some (event_columns h e)" by metis
  have two: "map_of (rdb_events d') (i, 2) = map_of (rdb_events d) (i, 2)" by (simp add: d' u(1))
  show ?thesis
  proof (cases "i = wvr_id w")
    case True
    then have "map_of (rdb_events d') (i, 1) = Some (event_columns h e)" by (simp add: d' u(1))
    with two have "life d' i = life_of (Some (event_columns h e)) (map_of (rdb_events d) (i, 2))" by (simp only: life_def)
    then show ?thesis
      by (cases "map_of (rdb_events d) (i, 1)"; cases "map_of (rdb_events d) (i, 2)") (simp_all add: life_def)
  next
    case False
    then have "map_of (rdb_events d') (i, 1) = map_of (rdb_events d) (i, 1)" by (simp add: d' u(1))
    with two life_same show ?thesis by blast
  qed
qed

lemma event_write_life:
  assumes "RecordWaiverLifecycleEvent seal h c e d = Inr d'" and ok: "readiness_ok seal h d"
  shows "life d' i = (if i = wle_waiver e then Ended (wle_status e) else life d i)" "life d (wle_waiver e) = Active"
    "wle_status e \<in> {WaiverLifecycleRevoked, WaiverLifecycleExpired}"
proof -
  from RecordWaiverLifecycleEvent_effect [OF assms] obtain t where d': "d' = d\<lparr>rdb_events := t\<rparr>"
    and t: "map_of t = (map_of (rdb_events d))((wle_waiver e, 2) \<mapsto> event_columns h e)"
    and a: "life d (wle_waiver e) = Active"
    and v: "WaiverLifecycleEvent_Validate seal e = None" "wle_sequence e = 2" by metis
  from a show "life d (wle_waiver e) = Active" .
  from event_valid(2) [OF v(1)] v(2) show "wle_status e \<in> {WaiverLifecycleRevoked, WaiverLifecycleExpired}" by simp
  show "life d' i = (if i = wle_waiver e then Ended (wle_status e) else life d i)"
    by (simp add: life_def d' t event_columns_def)
qed


section \<open>The waiver gate\<close>

definition stored_waiver :: "readiness_db \<Rightarrow> string \<Rightarrow> ValidatedDegradedWaiver option" where
  "stored_waiver d i = map_option wvw_body (map_of (rdb_waivers d) i)"

lemma stored_waiver_ok:
  assumes "readiness_ok seal h d" "map_of (rdb_waivers d) i = Some row"
  obtains r e where "wvr_id (wvw_body row) = i" "stored_resolution d (wvr_resolution (wvw_body row)) = Some r"
    "row = waiver_columns h r (wvw_body row)" "eligible_waiver r (wvw_body row)"
    "first_event d i = Some e" "wle_digest e = wvr_lifecycle (wvw_body row)"
  using assms unfolding readiness_ok_def waivers_ok_def waiver_row_ok_def by metis

lemma getDegradedWaiverUnchecked_ok:
  assumes ok: "readiness_ok seal h d"
  shows "getDegradedWaiverUnchecked seal h c i d = Inr (w, r) \<longleftrightarrow> stored_waiver d i = Some w
    \<and> stored_resolution d (wvr_resolution w) = Some r \<and> gateRequirementResolution c r = None"
proof
  assume "getDegradedWaiverUnchecked seal h c i d = Inr (w, r)"
  then show "stored_waiver d i = Some w \<and> stored_resolution d (wvr_resolution w) = Some r \<and> gateRequirementResolution c r = None"
    unfolding getDegradedWaiverUnchecked_Inr GetRequirementResolution_ok [OF ok] stored_waiver_def by auto
next
  assume a: "stored_waiver d i = Some w \<and> stored_resolution d (wvr_resolution w) = Some r \<and> gateRequirementResolution c r = None"
  then obtain row where row: "map_of (rdb_waivers d) i = Some row" "wvw_body row = w" unfolding stored_waiver_def by blast
  from stored_waiver_ok [OF ok row(1)] a row(2) show "getDegradedWaiverUnchecked seal h c i d = Inr (w, r)"
    unfolding getDegradedWaiverUnchecked_Inr GetRequirementResolution_ok [OF ok] eligible_waiver_def
    by (metis option.inject row(1))
qed

lemma active_event:
  assumes ok: "readiness_ok seal h d" and l: "life d i = Active"
  obtains e where "LatestWaiverLifecycleEvent seal h i d = Inr e" "first_event d i = Some e"
    "WaiverLifecycleEvent_Validate seal e = None" "wle_waiver e = i" "wle_status e = WaiverLifecycleGranted"
proof -
  from l obtain row where r: "map_of (rdb_events d) (i, 1) = Some row" by (auto simp: life_eq)
  from event_row_read [OF ok r] event_valid(1) [of seal "evw_body row"] LatestWaiverLifecycleEvent_ok [OF ok, of i] l
  have e: "LatestWaiverLifecycleEvent seal h i d = Inr (evw_body row)" "WaiverLifecycleEvent_Validate seal (evw_body row) = None"
    "wle_status (evw_body row) = WaiverLifecycleGranted" by simp_all
  from event_row_read(1) [OF ok r] have "wle_waiver (evw_body row) = i" by (auto simp: getWaiverLifecycleEvent_Inr)
  with e r that [of "evw_body row"] show thesis by (simp add: first_event_def)
qed

lemma GetValidatedDegradedWaiver_read:
  assumes ok: "readiness_ok seal h d"
  shows "GetValidatedDegradedWaiver seal h c i d = Inr w \<longleftrightarrow> stored_waiver d i = Some w
    \<and> (\<exists>r. stored_resolution d (wvr_resolution w) = Some r \<and> gateRequirementResolution c r = None)
    \<and> life d i = Active \<and> cfg_grants c (wvr_authority w) (wvr_grant w)"
proof -
  have "GetValidatedDegradedWaiver seal h c i d = Inr w \<longleftrightarrow> (\<exists>r e. getDegradedWaiverUnchecked seal h c i d = Inr (w, r)
      \<and> LatestWaiverLifecycleEvent seal h i d = Inr e \<and> ValidateDegradedWaiver seal r e w = None
      \<and> cfg_grants c (wvr_authority w) (wvr_grant w))"
    by (auto simp: GetValidatedDegradedWaiver_def guard_Inr_iff ebind_Inr_iff of_err_Inr_iff gateDegradedWaiverAuthority_def)
  also have "\<dots> \<longleftrightarrow> stored_waiver d i = Some w
    \<and> (\<exists>r. stored_resolution d (wvr_resolution w) = Some r \<and> gateRequirementResolution c r = None)
    \<and> life d i = Active \<and> cfg_grants c (wvr_authority w) (wvr_grant w)" (is "?read \<longleftrightarrow> ?stored")
  proof
    assume ?read
    then obtain r e where r: "getDegradedWaiverUnchecked seal h c i d = Inr (w, r)" "LatestWaiverLifecycleEvent seal h i d = Inr e"
      "ValidateDegradedWaiver seal r e w = None" "cfg_grants c (wvr_authority w) (wvr_grant w)" by blast
    from r(3) have "wle_status e = WaiverLifecycleGranted" by (simp add: ValidateDegradedWaiver_def validation)
    with r(2) latest_life [OF ok, of i] have "life d i = Active" by (cases "life d i") auto
    with r show ?stored by (auto simp: getDegradedWaiverUnchecked_ok [OF ok])
  next
    assume s: ?stored
    then obtain r where r: "stored_resolution d (wvr_resolution w) = Some r" "gateRequirementResolution c r = None" by blast
    from s obtain row where row: "map_of (rdb_waivers d) i = Some row" "wvw_body row = w" by (auto simp: stored_waiver_def)
    from s obtain e where e: "LatestWaiverLifecycleEvent seal h i d = Inr e" "first_event d i = Some e"
      "WaiverLifecycleEvent_Validate seal e = None" "wle_waiver e = i" "wle_status e = WaiverLifecycleGranted"
      using active_event [OF ok] by blast
    from stored_waiver_ok [OF ok row(1)] row(2) r(1) e(2)
    have w: "wvr_id w = i" "eligible_waiver r w" "wle_digest e = wvr_lifecycle w" by (metis option.inject)+
    with e have "ValidateDegradedWaiver seal r e w = None"
      by (simp add: ValidateDegradedWaiver_def eligible_waiver_def validation)
    with s r e(1) show ?read by (auto simp: getDegradedWaiverUnchecked_ok [OF ok])
  qed
  finally show ?thesis .
qed

text \<open>
  The waiver read is exact: over a reachable database and any registries it returns a waiver exactly
  when that waiver is stored, its resolution passes the current floor and registry gate, its lifecycle
  is still active, and its grant is approved.
\<close>

theorem GetValidatedDegradedWaiver_exact:
  assumes "readiness_reachable seal h d"
  shows "GetValidatedDegradedWaiver seal h c i d = Inr w \<longleftrightarrow> stored_waiver d i = Some w
    \<and> (\<exists>r. stored_resolution d (wvr_resolution w) = Some r \<and> gateRequirementResolution c r = None)
    \<and> life d i = Active \<and> cfg_grants c (wvr_authority w) (wvr_grant w)"
  by (rule GetValidatedDegradedWaiver_read [OF readiness_reachable_ok [OF assms]])

section \<open>Ended waivers\<close>

lemma ended_stays:
  "(readiness_step seal h)\<^sup>*\<^sup>* d d' \<Longrightarrow> readiness_ok seal h d \<Longrightarrow> life d i = Ended s \<Longrightarrow> life d' i = Ended s"
proof -
  assume "(readiness_step seal h)\<^sup>*\<^sup>* d d'" "readiness_ok seal h d" and l: "life d i = Ended s"
  then have "map_of (rdb_events d) \<subseteq>\<^sub>m map_of (rdb_events d')" using readiness_run_ok by (auto simp: db_extends_def)
  with l map_le_Some show ?thesis unfolding life_eq(3) by fast
qed

text \<open>What an evaluation under a gate lists, that gate has passed.\<close>

lemma listed_waiver_gated:
  assumes ev: "EvaluateReadiness seal target rs ss gate = Inr v" and nc: "no_collision rs ss" and l: "k \<in> set (rvd_waivers v)"
  obtains g r s outcome w where "gate = Some g" "r \<in> set rs" "s \<in> set ss" "cst_resolution s = r"
    "view s = Some (Unpassed outcome (Some w))" "wvr_id w = k" "g r w = None" "eligible_waiver r w"
proof -
  from ev have a: "admissible seal target gate rs ss" and j: "judgement seal target rs ss = Inr v"
    by (simp_all add: EvaluateReadiness_reference [OF nc])
  from j l obtain r where r: "r \<in> set rs" "k \<in> set (waivers_for r (recorded_state ss r))"
    by (auto simp: judgement_def Let_def of_err_Inr_iff split: if_split_asm)
  then obtain s where s: "recorded_state ss r = Some s" by (cases "recorded_state ss r") auto
  with r(2) obtain outcome w where w: "view s = Some (Unpassed outcome (Some w))" "res_kind r = RequirementRequired" "wvr_id w = k"
  proof -
    from r(2) s have "case view s of Some (Unpassed x (Some w)) \<Rightarrow> res_kind r = RequirementRequired \<and> wvr_id w = k | _ \<Rightarrow> False"
      by (cases "view s") (auto split: option.splits check_view.splits if_split_asm)
    then show thesis using that by (cases "view s") (auto split: option.split_asm check_view.split_asm)
  qed
  from recorded_state_Some [OF s] have m: "s \<in> set ss" "res_digest (cst_resolution s) = res_digest r"
    by (simp_all add: state_digest_def)
  with nc r have c: "cst_resolution s = r" unfolding no_collision_def by blast
  from a m(1) have v: "CheckState_Validate seal s = None" by (simp add: admissible_def list_all_iff)
  from a r(1) s have "state_admitted target gate r s" by (auto simp: admissible_def list_all_iff)
  with w obtain g where g: "gate = Some g" "g r w = None" by (auto simp: state_admitted_def split: option.split_asm)
  from v have "eligible_waiver r w" by (cases rule: CheckState_valid_cases) (use w(1) c in auto)
  with that g r(1) m(1) c w(1,3) show thesis by blast
qed

text \<open>
  C20: a waiver that has been revoked or has expired stands in for nothing again: in every later state,
  under every registry, the store's gate refuses it, its lifecycle takes no further event, and no
  evaluation through that gate returns a verdict that lists it.
\<close>

theorem ended_waiver_never_passes:
  assumes "readiness_reachable seal h d" and "RecordWaiverLifecycleEvent seal h c0 e d = Inr d1"
    and "(readiness_step seal h)\<^sup>*\<^sup>* d1 d2"
  shows "(\<forall>c r w. wvr_id w = wle_waiver e \<longrightarrow> DegradedWaiverGate seal h c d2 r w \<noteq> None)
    \<and> (\<forall>c e' d3. wle_waiver e' = wle_waiver e \<longrightarrow> RecordWaiverLifecycleEvent seal h c e' d2 \<noteq> Inr d3)
    \<and> (\<forall>c target rs ss v. EvaluateReadiness seal target rs ss (Some (DegradedWaiverGate seal h c d2)) = Inr v
         \<longrightarrow> no_collision rs ss \<longrightarrow> wle_waiver e \<notin> set (rvd_waivers v))"
proof -
  have ok: "readiness_ok seal h d" using assms(1) by (rule readiness_reachable_ok)
  have s1: "readiness_step seal h d d1" using assms(2) by (intro readiness_step.accepted [of seal h c0 "WriteEvent e"]) simp
  with assms(1,3) have r2: "readiness_reachable seal h d2" unfolding readiness_reachable_def by auto
  have ended: "life d2 (wle_waiver e) = Ended (wle_status e)"
    using event_write_life(1) [OF assms(2) ok, of "wle_waiver e"] readiness_step_ok [OF s1 ok] ended_stays [OF assms(3)] by simp
  then have no_get: "GetValidatedDegradedWaiver seal h c (wle_waiver e) d2 \<noteq> Inr w" for c w
    using GetValidatedDegradedWaiver_read [OF readiness_reachable_ok [OF r2]] by (metis waiver_life.distinct(5))
  then have gate: "DegradedWaiverGate seal h c d2 r w \<noteq> None" if "wvr_id w = wle_waiver e" for c r w
    using that by (cases "GetValidatedDegradedWaiver seal h c (wle_waiver e) d2") (auto simp: DegradedWaiverGate_def)
  moreover have "RecordWaiverLifecycleEvent seal h c e' d2 \<noteq> Inr d3" if "wle_waiver e' = wle_waiver e" for c e' d3
    using event_write_life(2) [of seal h c e' d2 d3] readiness_reachable_ok [OF r2] ended that by auto
  moreover have "wle_waiver e \<notin> set (rvd_waivers v)"
    if "EvaluateReadiness seal target rs ss (Some (DegradedWaiverGate seal h c d2)) = Inr v" "no_collision rs ss" for c target rs ss v
    using listed_waiver_gated [OF that] gate by (metis option.inject)
  ultimately show ?thesis by blast
qed

section \<open>Proofs\<close>

lemma GetCheckProof_ok:
  assumes ok: "readiness_ok seal h d"
  shows "GetCheckProof seal h c k d = Inr p \<longleftrightarrow> (\<exists>row r. map_of (rdb_proofs d) k = Some row \<and> pfw_body row = p
    \<and> stored_resolution d (prf_resolution p) = Some r \<and> gateRequirementResolution c r = None
    \<and> gateCheckProofRecipe c r p = None)"
proof (cases "map_of (rdb_proofs d) k")
  case (Some row)
  with ok have "proof_row_ok seal h d k row" by (simp add: readiness_ok_def proofs_ok_def)
  then obtain r where row: "prf_digest (pfw_body row) = k" "row = proof_columns h (pfw_body row)"
    and r: "stored_resolution d (prf_resolution (pfw_body row)) = Some r" "res_applicable r"
      "proof_validateFor seal (pfw_body row) r = None" by (auto simp: proof_row_ok_def)
  from row(2) have cols: "pfw_resolution row = prf_resolution (pfw_body row)" "pfw_head row = prf_head (pfw_body row)"
    "pfw_recipe row = prf_recipe (pfw_body row)" "pfw_body_digest row = readinessBodyDigest h (BodyProof (pfw_body row))"
    by (metis proof_columns_def proof_row.select_convs)+
  from r(1) ok have "RequirementResolution_Validate seal r = None"
    by (auto simp: readiness_ok_def resolutions_ok_def stored_resolution_def)
  with r have pass: "\<exists>s. NewPassedCheckState seal r (pfw_body row) = Inr s" by (simp add: NewPassedCheckState_Inr)
  from r(3) have valid: "CheckProof_Validate seal (pfw_body row) = None" by (simp add: proof_validateFor_def validation)
  have "GetCheckProof seal h c k d = Inr p \<longleftrightarrow> pfw_body row = p \<and> (\<exists>r s. GetRequirementResolution seal h c (prf_resolution p) d = Inr r
      \<and> NewPassedCheckState seal r p = Inr s \<and> gateCheckProofRecipe c r p = None)"
    using Some row(1) cols valid by (auto simp: GetCheckProof_def ebind_Inr_iff of_err_Inr_iff simp del: map_of_eq_Some_iff)
  also have "\<dots> \<longleftrightarrow> pfw_body row = p \<and> gateRequirementResolution c r = None \<and> gateCheckProofRecipe c r p = None"
    using r(1) pass by (auto simp: GetRequirementResolution_ok [OF ok])
  finally show ?thesis using Some r(1) by (auto simp del: map_of_eq_Some_iff)
qed (simp add: GetCheckProof_def)

text \<open>
  C35: a recorded proof reads back for good, and only through the gates of the day: right after the write
  it is returned, and in every later state, under any registries, reading it gives that proof exactly
  when its resolution and its recipe pass the registries then in force.
\<close>

theorem check_proof_roundtrip:
  assumes "readiness_reachable seal h d" and "RecordCheckProof seal h c p d = Inr d1"
    and "(readiness_step seal h)\<^sup>*\<^sup>* d1 d2"
  shows "GetCheckProof seal h c (prf_digest p) d1 = Inr p \<and> (\<exists>r. stored_resolution d2 (prf_resolution p) = Some r
    \<and> (\<forall>c'. GetCheckProof seal h c' (prf_digest p) d2 = Inr p \<longleftrightarrow>
          gateRequirementResolution c' r = None \<and> gateCheckProofRecipe c' r p = None)
    \<and> (\<forall>c' q. GetCheckProof seal h c' (prf_digest p) d2 = Inr q \<longrightarrow> q = p))"
proof -
  have ok: "readiness_ok seal h d" using assms(1) by (rule readiness_reachable_ok)
  from RecordCheckProof_effect [OF assms(2) ok] obtain t r where d1: "d1 = d\<lparr>rdb_proofs := t\<rparr>"
    and t: "map_of t = (map_of (rdb_proofs d))(prf_digest p \<mapsto> proof_columns h p)"
    and r: "stored_resolution d (prf_resolution p) = Some r" "gateRequirementResolution c r = None"
      "gateCheckProofRecipe c r p = None" by metis
  have e1: "readiness_ok seal h d1" "db_extends d d1" using proof_write_ok [OF assms(2) ok] by simp_all
  have e2: "readiness_ok seal h d2" "db_extends d1 d2" using readiness_run_ok [OF assms(3) e1(1)] by simp_all
  have row1: "map_of (rdb_proofs d1) (prf_digest p) = Some (proof_columns h p)" by (simp add: d1 t)
  with e2(2) map_le_Some have row2: "map_of (rdb_proofs d2) (prf_digest p) = Some (proof_columns h p)"
    unfolding db_extends_def by fast
  have body: "pfw_body (proof_columns h p) = p" by (simp add: proof_columns_def)
  have r1: "stored_resolution d1 (prf_resolution p) = Some r" using stored_resolution_extends [OF e1(2) r(1)] .
  then have r2: "stored_resolution d2 (prf_resolution p) = Some r" using stored_resolution_extends [OF e2(2)] by blast
  have "GetCheckProof seal h c (prf_digest p) d1 = Inr p"
    unfolding GetCheckProof_ok [OF e1(1)] using row1 body r1 r(2,3) by metis
  moreover have "GetCheckProof seal h c' (prf_digest p) d2 = Inr q \<longleftrightarrow> q = p \<and> gateRequirementResolution c' r = None
      \<and> gateCheckProofRecipe c' r p = None" for c' q
    unfolding GetCheckProof_ok [OF e2(1)] row2 using body r2 by (auto simp del: map_of_eq_Some_iff)
  ultimately show ?thesis using r2 by blast
qed

section \<open>Evaluation over the store\<close>

text \<open>
  A verdict rests on live waivers only: every waiver that an evaluation through the store's gate
  lists is stored, is bound to a repository-policy resolution of the evaluation whose stored form passes
  the current floor and registry, is still active, and has an approved grant.
\<close>

theorem stored_verdict_waivers_live:
  assumes "readiness_reachable seal h d"
    and "EvaluateReadiness seal target rs ss (Some (DegradedWaiverGate seal h c d)) = Inr v"
    and "no_collision rs ss" and "k \<in> set (rvd_waivers v)"
  shows "\<exists>w r q. stored_waiver d k = Some w \<and> r \<in> set rs \<and> res_class r = CheckClassRepoChangePolicy
    \<and> wvr_resolution w = res_digest r \<and> wvr_floor w = res_floor r
    \<and> stored_resolution d (res_digest r) = Some q \<and> gateRequirementResolution c q = None
    \<and> life d k = Active \<and> cfg_grants c (wvr_authority w) (wvr_grant w)"
proof -
  have ok: "readiness_ok seal h d" using assms(1) by (rule readiness_reachable_ok)
  from listed_waiver_gated [OF assms(2-4)] obtain r w where r: "r \<in> set rs" "wvr_id w = k"
    and g: "DegradedWaiverGate seal h c d r w = None" and el: "eligible_waiver r w" by (metis option.inject)
  from g r(2) have get: "GetValidatedDegradedWaiver seal h c k d = Inr w"
    by (auto simp: DegradedWaiverGate_def split: sum.split_asm)
  then have s: "stored_waiver d k = Some w" "life d k = Active" "cfg_grants c (wvr_authority w) (wvr_grant w)"
    and q: "\<exists>q. stored_resolution d (wvr_resolution w) = Some q \<and> gateRequirementResolution c q = None"
    unfolding GetValidatedDegradedWaiver_read [OF ok] by simp_all
  from el have e: "WaiverEligible (res_class r)" "wvr_resolution w = res_digest r" "wvr_floor w = res_floor r"
    by (simp_all add: eligible_waiver_def)
  from e(1) have "res_class r = CheckClassRepoChangePolicy" by (cases "res_class r") simp_all
  with s q e r show ?thesis by metis
qed

lemma production_definition:
  assumes "cfg_sets c = resolveTrustedRequirementSets seal g configured" and "gateRequirementResolution c r = None"
    and "res_set_digest r = ProductionRequirementSetDigest seal g"
  shows "res_applicable r \<and> res_base_dependent r \<and> res_kind r = RequirementRequired \<and> \<not> WaiverEligible (res_class r)"
proof -
  have "requirementDefinitionsByKey ProductionRequirementDefinitions =
    [''clean-verification'' \<mapsto> ProductionRequirementDefinitions ! 0, ''independent-review'' \<mapsto> ProductionRequirementDefinitions ! 1]"
    by (simp add: requirementDefinitionsByKey_def ProductionRequirementDefinitions_def)
  with assms show ?thesis
    by (auto simp: gateRequirementResolution_def resolveTrustedRequirementSets_def ProductionRequirementDefinitions_def
        require_None split: if_split_asm option.split_asm)
qed

text \<open>
  C23: a production candidate is ready only clean: where every resolution has passed the store's gate
  under the compiled production set, whatever sets the configuration adds, a verdict that is not blocked
  is ready clean with no waiver, and each resolution has a sealed passing proof for the evaluated head,
  base and merge.
\<close>

theorem production_ready_only_clean:
  assumes "cfg_sets c = resolveTrustedRequirementSets seal g configured"
    and "\<And>r. r \<in> set rs \<Longrightarrow> gateRequirementResolution c r = None \<and> res_set_digest r = ProductionRequirementSetDigest seal g"
    and "EvaluateReadiness seal target rs ss gate = Inr v" and "rvd_class v \<noteq> ReadinessBlocked" and "no_collision rs ss"
  shows "rvd_class v = ReadinessReadyClean \<and> rvd_waivers v = []
    \<and> (\<forall>r \<in> set rs. \<exists>p. covering_proof seal target r ss p \<and> prf_base p = tgt_base target \<and> prf_merge p = tgt_merge target)"
proof -
  have def: "res_applicable r \<and> res_base_dependent r \<and> res_kind r = RequirementRequired \<and> \<not> WaiverEligible (res_class r)"
    if "r \<in> set rs" for r using production_definition [OF assms(1)] assms(2) [OF that] by blast
  have passed: "\<exists>s p. recorded_state ss r = Some s \<and> view s = Some (Passed p) \<and> covering_proof seal target r ss p"
    if "r \<in> set rs" for r using unwaivable_passed [OF assms(3-5) that] def [OF that] by metis
  from assms(3) have j: "judgement seal target rs ss = Inr v" by (simp add: EvaluateReadiness_reference [OF assms(5)])
  from judgement_class(1) [OF j] assms(4) have b: "blockers rs ss = []" by simp
  have none: "waivers_for r (recorded_state ss r) = [] \<and> advisories_for r (recorded_state ss r) = []" if "r \<in> set rs" for r
    using passed [OF that] by auto
  with b have clean: "rvd_class v = ReadinessReadyClean" unfolding judgement_class(2) [OF j] by blast
  from judgement_class(3) [OF j] clean have "rvd_waivers v = []"
    by (auto simp: ReadinessVerdict_Validate_def validation split: if_split_asm)
  moreover have "\<exists>p. covering_proof seal target r ss p \<and> prf_base p = tgt_base target \<and> prf_merge p = tgt_merge target"
    if r: "r \<in> set rs" for r
  proof -
    from passed [OF r] obtain p where "covering_proof seal target r ss p" by blast
    with def [OF r] show ?thesis by (auto simp: covering_proof_def)
  qed
  ultimately show ?thesis using clean by blast
qed

section \<open>An example\<close>

definition example_cfg :: readiness_config where
  "example_cfg = \<lparr>cfg_generation = 0,
     cfg_sets = [''set'' \<mapsto> requirementDefinitionsByKey [\<lparr>def_key = ''policy'', def_class = CheckClassRepoChangePolicy,
        def_kind = RequirementRequired, def_applicable = True, def_base_dependent = False\<rparr>,
        \<lparr>def_key = ''clean'', def_class = CheckClassCleanVerification,
        def_kind = RequirementRequired, def_applicable = True, def_base_dependent = True\<rparr>]],
     cfg_recipes = Inr (\<lambda>r. r = ''recipe''), cfg_review = (\<lambda>_. False),
     cfg_grants = (\<lambda>a g. a = WaiverAuthorityHumanApproval \<and> g = ''grant'')\<rparr>"

fun store_seal :: seal where
  "store_seal (SealResolution r) = ''r-'' @ res_key r"
| "store_seal (SealProof p) = ''p''"
| "store_seal (SealWaiverEvent e) = (if wle_sequence e = 1 then ''e1'' else ''e2'')"
| "store_seal (SealEvaluation t es) = ''v''"
| "store_seal (SealRequirementSet g ds) = ''set''"

definition store_sum :: body_sum where "store_sum b = ''sum''"

definition policy_resolution :: RequirementResolution where
  "policy_resolution = \<lparr>res_digest = ''r-policy'', res_key = ''policy'', res_class = CheckClassRepoChangePolicy,
     res_kind = RequirementRequired, res_applicable = True, res_base_dependent = False, res_set_digest = ''set'',
     res_floor = 1, res_policy_digest = ''pd'', res_sampling = None\<rparr>"

definition clean_resolution :: RequirementResolution where
  "clean_resolution = \<lparr>res_digest = ''r-clean'', res_key = ''clean'', res_class = CheckClassCleanVerification,
     res_kind = RequirementRequired, res_applicable = True, res_base_dependent = True, res_set_digest = ''set'',
     res_floor = 1, res_policy_digest = ''pd'', res_sampling = None\<rparr>"

definition clean_proof :: CheckProof where
  "clean_proof = \<lparr>prf_digest = ''p'', prf_resolution = ''r-clean'', prf_head = ''head'', prf_base = Some example_base,
     prf_merge = [], prf_recipe = ''recipe''\<rparr>"

definition granted_event :: WaiverLifecycleEvent where
  "granted_event = \<lparr>wle_waiver = ''w'', wle_sequence = 1, wle_status = WaiverLifecycleGranted, wle_previous = None,
     wle_digest = ''e1'', wle_recorded_at = \<lparr>unix_ns = 5, is_utc = True\<rparr>\<rparr>"

definition revoked_event :: WaiverLifecycleEvent where
  "revoked_event = \<lparr>wle_waiver = ''w'', wle_sequence = 2, wle_status = WaiverLifecycleRevoked, wle_previous = Some ''e1'',
     wle_digest = ''e2'', wle_recorded_at = \<lparr>unix_ns = 9, is_utc = True\<rparr>\<rparr>"

definition example_waiver :: ValidatedDegradedWaiver where
  "example_waiver = \<lparr>wvr_id = ''w'', wvr_resolution = ''r-policy'', wvr_dimension = ''coverage'',
     wvr_authority = WaiverAuthorityHumanApproval, wvr_grant = ''grant'', wvr_lifecycle = ''e1'', wvr_floor = 1,
     wvr_granted_at = \<lparr>unix_ns = 5, is_utc = True\<rparr>\<rparr>"

fun apply_writes ::
  "seal \<Rightarrow> body_sum \<Rightarrow> readiness_config \<Rightarrow> readiness_write list \<Rightarrow> readiness_db \<Rightarrow> err + readiness_db" where
  "apply_writes seal h c [] d = Inr d"
| "apply_writes seal h c (x # xs) d = ebind (apply_write seal h c x d) (apply_writes seal h c xs)"

lemma apply_writes_run: "apply_writes seal h c xs d = Inr d' \<Longrightarrow> (readiness_step seal h)\<^sup>*\<^sup>* d d'"
proof (induction xs arbitrary: d)
  case (Cons x xs)
  then obtain d1 where "apply_write seal h c x d = Inr d1" "apply_writes seal h c xs d1 = Inr d'"
    by (auto simp: ebind_Inr_iff)
  with Cons.IH show ?case by (meson converse_rtranclp_into_rtranclp readiness_step.accepted)
qed simp

definition granted_db :: readiness_db where
  "granted_db = projr (apply_writes store_seal store_sum example_cfg [WriteResolution policy_resolution,
     WriteResolution clean_resolution, WriteWaiver example_waiver granted_event] empty_readiness_db)"

definition revoked_db :: readiness_db where
  "revoked_db = projr (RecordWaiverLifecycleEvent store_seal store_sum example_cfg revoked_event granted_db)"

definition proved_db :: readiness_db where
  "proved_db = projr (RecordCheckProof store_seal store_sum example_cfg clean_proof granted_db)"

lemma granted_db_reached: "readiness_reachable store_seal store_sum granted_db"
  unfolding readiness_reachable_def
  by (rule apply_writes_run [of _ _ example_cfg "[WriteResolution policy_resolution,
     WriteResolution clean_resolution, WriteWaiver example_waiver granted_event]"]) code_simp

lemma example_revoked: "RecordWaiverLifecycleEvent store_seal store_sum example_cfg revoked_event granted_db = Inr revoked_db"
  by code_simp

lemma example_proved: "RecordCheckProof store_seal store_sum example_cfg clean_proof granted_db = Inr proved_db"
  by code_simp

lemma revoked_db_step: "readiness_step store_seal store_sum granted_db revoked_db"
  using readiness_step.accepted [of store_seal store_sum example_cfg "WriteEvent revoked_event"] example_revoked by simp

theorem readiness_tables_typed_witness: "readiness_ok store_seal store_sum revoked_db \<and> db_extends granted_db revoked_db"
  by (rule readiness_tables_typed [OF granted_db_reached revoked_db_step])


theorem GetValidatedDegradedWaiver_exact_witness:
  "GetValidatedDegradedWaiver store_seal store_sum example_cfg ''w'' granted_db = Inr example_waiver \<and> life granted_db ''w'' = Active"
proof -
  have "GetValidatedDegradedWaiver store_seal store_sum example_cfg ''w'' granted_db = Inr example_waiver" by code_simp
  with GetValidatedDegradedWaiver_exact [OF granted_db_reached] show ?thesis by blast
qed

theorem ended_waiver_never_passes_witness:
  "DegradedWaiverGate store_seal store_sum example_cfg revoked_db policy_resolution example_waiver \<noteq> None
   \<and> DegradedWaiverGate store_seal store_sum example_cfg granted_db policy_resolution example_waiver = None"
proof -
  have "wvr_id example_waiver = wle_waiver revoked_event" by (simp add: example_waiver_def revoked_event_def)
  with ended_waiver_never_passes [OF granted_db_reached example_revoked rtranclp.rtrancl_refl]
  have "DegradedWaiverGate store_seal store_sum example_cfg revoked_db policy_resolution example_waiver \<noteq> None" by blast
  moreover have "DegradedWaiverGate store_seal store_sum example_cfg granted_db policy_resolution example_waiver = None" by code_simp
  ultimately show ?thesis by blast
qed

theorem check_proof_roundtrip_witness: "GetCheckProof store_seal store_sum example_cfg ''p'' proved_db = Inr clean_proof"
proof -
  have "prf_digest clean_proof = ''p''" by (simp add: clean_proof_def)
  with check_proof_roundtrip [OF granted_db_reached example_proved rtranclp.rtrancl_refl] show ?thesis by simp
qed

definition waived_state :: CheckState where
  "waived_state = \<lparr>cst_resolution = policy_resolution, cst_not_applicable = False,
     cst_applicable = Some \<lparr>acs_proof = None, acs_failure = Some \<lparr>cfl_outcome = AdvisoryFailed, cfl_waiver = Some example_waiver\<rparr>\<rparr>\<rparr>"

theorem stored_verdict_waivers_live_witness:
  "\<exists>v. EvaluateReadiness store_seal example_target [policy_resolution] [waived_state]
      (Some (DegradedWaiverGate store_seal store_sum example_cfg granted_db)) = Inr v
    \<and> rvd_class v = ReadinessReadyDegraded \<and> rvd_waivers v = [''w''] \<and> life granted_db ''w'' = Active"
proof -
  let ?v = "\<lparr>rvd_class = ReadinessReadyDegraded, rvd_digest = ''v'', rvd_reasons = [], rvd_waivers = [''w''], rvd_advisories = []\<rparr>"
  have e: "EvaluateReadiness store_seal example_target [policy_resolution] [waived_state]
      (Some (DegradedWaiverGate store_seal store_sum example_cfg granted_db)) = Inr ?v" by code_simp
  have "no_collision [policy_resolution] [waived_state]" by (simp add: no_collision_def waived_state_def)
  from stored_verdict_waivers_live [OF granted_db_reached e this, of "''w''"] have "life granted_db ''w'' = Active" by auto
  with e show ?thesis by auto
qed

definition production_cfg :: readiness_config where
  "production_cfg = example_cfg\<lparr>cfg_sets := resolveTrustedRequirementSets example_seal 1 Map.empty\<rparr>"

theorem production_ready_only_clean_witness: "rvd_waivers example_verdict = []
  \<and> (\<exists>p. covering_proof example_seal example_target (hd example_resolutions) example_states p)"
proof -
  have c: "cfg_sets production_cfg = resolveTrustedRequirementSets example_seal 1 Map.empty" by (simp add: production_cfg_def)
  have "list_all (\<lambda>r. gateRequirementResolution production_cfg r = None
    \<and> res_set_digest r = ProductionRequirementSetDigest example_seal 1) example_resolutions" by code_simp
  then have g: "gateRequirementResolution production_cfg r = None
    \<and> res_set_digest r = ProductionRequirementSetDigest example_seal 1" if "r \<in> set example_resolutions" for r
    using that by (simp add: list_all_iff)
  have "rvd_class example_verdict \<noteq> ReadinessBlocked" by code_simp
  moreover have "hd example_resolutions \<in> set example_resolutions" by code_simp
  ultimately show ?thesis
    using production_ready_only_clean [OF c g example_evaluated _ example_no_collision] by blast
qed

end
