(* ===== verification/GoPath.thy ===== *)
theory GoPath
  imports GoText GoStrings
begin

text \<open>
  What the repository's path code uses of the Go library, on byte strings: UTF-8 decoding as
  \<open>unicode/utf8\<close> does it (an invalid byte is \<open>U+FFFD\<close> of width one), \<open>strings.Join\<close>,
  \<open>strings.EqualFold\<close> against an ASCII word, \<open>io/fs.ValidPath\<close> and \<open>path.Match\<close>.
\<close>

abbreviation SLASH :: char where "SLASH \<equiv> CHR 0x2F"
abbreviation NUL :: char where "NUL \<equiv> CHR 0x00"
abbreviation BSLASH :: char where "BSLASH \<equiv> CHR 0x5C"
abbreviation STAR :: char where "STAR \<equiv> CHR 0x2A"

section \<open>UTF-8\<close>

definition RuneError :: nat where "RuneError = 65533"

definition byte :: "char \<Rightarrow> nat" where "byte c = of_char c"

text \<open>The width a leading byte announces and the range of its second byte.\<close>

definition lead :: "nat \<Rightarrow> (nat \<times> nat \<times> nat) option" where
  "lead b = (if 194 \<le> b \<and> b \<le> 223 then Some (2, 128, 191)
     else if b = 224 then Some (3, 160, 191)
     else if 225 \<le> b \<and> b \<le> 236 \<or> b = 238 \<or> b = 239 then Some (3, 128, 191)
     else if b = 237 then Some (3, 128, 159)
     else if b = 240 then Some (4, 144, 191)
     else if 241 \<le> b \<and> b \<le> 243 then Some (4, 128, 191)
     else if b = 244 then Some (4, 128, 143)
     else None)"

definition continuation :: "char \<Rightarrow> bool" where
  "continuation c \<longleftrightarrow> 128 \<le> byte c \<and> byte c \<le> 191"

fun DecodeRune :: "string \<Rightarrow> nat \<times> nat" where
  "DecodeRune [] = (RuneError, 0)"
| "DecodeRune (c # s) =
     (if byte c < 128 then (byte c, 1)
      else case lead (byte c) of
          None \<Rightarrow> (RuneError, 1)
        | Some (n, lo, hi) \<Rightarrow> (case s of
            [] \<Rightarrow> (RuneError, 1)
          | c1 # s1 \<Rightarrow>
              if length s < n - 1 \<or> byte c1 < lo \<or> hi < byte c1 then (RuneError, 1)
              else if n = 2 then ((byte c mod 32) * 64 + byte c1 mod 64, 2)
              else (case s1 of
                  [] \<Rightarrow> (RuneError, 1)
                | c2 # s2 \<Rightarrow>
                    if \<not> continuation c2 then (RuneError, 1)
                    else if n = 3 then (((byte c mod 16) * 64 + byte c1 mod 64) * 64 + byte c2 mod 64, 3)
                    else (case s2 of
                        [] \<Rightarrow> (RuneError, 1)
                      | c3 # _ \<Rightarrow>
                          if \<not> continuation c3 then (RuneError, 1)
                          else ((((byte c mod 8) * 64 + byte c1 mod 64) * 64 + byte c2 mod 64) * 64 + byte c3 mod 64, 4)))))"

definition EncodeRune :: "nat \<Rightarrow> string" where
  "EncodeRune r = map char_of (if r < 128 then [r]
     else if r < 2048 then [192 + r div 64, 128 + r mod 64]
     else if r < 65536 then [224 + r div 4096, 128 + r div 64 mod 64, 128 + r mod 64]
     else [240 + r div 262144, 128 + r div 4096 mod 64, 128 + r div 64 mod 64, 128 + r mod 64])"

lemma DecodeRune_width: "s \<noteq> [] \<Longrightarrow> 1 \<le> snd (DecodeRune s) \<and> snd (DecodeRune s) \<le> length s"
  by (cases s) (auto split: option.split list.split)

lemma DecodeRune_shorter: "s \<noteq> [] \<Longrightarrow> (r, n) = DecodeRune s \<Longrightarrow> length (drop n s) < length s"
  using DecodeRune_width [of s] by (cases "DecodeRune s") auto

text \<open>\<open>for _, r := range s\<close>.\<close>

function runes :: "string \<Rightarrow> nat list" where
  "runes s = (if s = [] then [] else case DecodeRune s of (r, n) \<Rightarrow> r # runes (drop n s))"
  by pat_completeness auto
termination by (relation "measure length") (simp, metis DecodeRune_shorter in_measure)

function ValidString :: "string \<Rightarrow> bool" where
  "ValidString s = (if s = [] then True else case DecodeRune s of (r, n) \<Rightarrow>
     if r = RuneError \<and> n = 1 then False else ValidString (drop n s))"
  by pat_completeness auto
termination by (relation "measure length") (simp, metis DecodeRune_shorter in_measure)

declare runes.simps [simp del] ValidString.simps [simp del]

lemma runes_Nil [simp]: "runes [] = []"
  by (simp add: runes.simps)

lemma runes_ascii: "byte c < 128 \<Longrightarrow> runes (c # s) = byte c # runes s"
  by (subst runes.simps) simp

lemma runes_ascii_append: "\<forall>c \<in> set a. byte c < 128 \<Longrightarrow> runes (a @ s) = map byte a @ runes s"
  by (induction a) (simp_all add: runes_ascii)

section \<open>Strings and paths\<close>

fun Join :: "string list \<Rightarrow> char \<Rightarrow> string" where
  "Join [] c = []"
| "Join [x] c = x"
| "Join (x # y # ys) c = x @ c # Join (y # ys) c"

definition TrimRightSet :: "string \<Rightarrow> string \<Rightarrow> string" where
  "TrimRightSet s cutset = rev (dropWhile (\<lambda>c. c \<in> set cutset) (rev s))"

definition ascii_lower :: "char \<Rightarrow> char" where
  "ascii_lower c = (if 65 \<le> byte c \<and> byte c \<le> 90 then char_of (byte c + 32) else c)"

text \<open>
  \<open>strings.EqualFold\<close> where \<open>t\<close> is an ASCII word without \<open>k\<close> and \<open>s\<close>: only those two letters
  have a fold outside ASCII.
\<close>

definition EqualFold :: "string \<Rightarrow> string \<Rightarrow> bool" where
  "EqualFold s t \<longleftrightarrow> map ascii_lower s = map ascii_lower t"

definition ValidPath :: "string \<Rightarrow> bool" where
  "ValidPath p \<longleftrightarrow> ValidString p
     \<and> (p = ''.'' \<or> list_all (\<lambda>e. e \<noteq> [] \<and> e \<noteq> ''.'' \<and> e \<noteq> ''..'') (Split p SLASH))"

section \<open>\<open>path.Match\<close>\<close>

text \<open>The end of the chunk before the next star; \<open>inrange\<close> is inside a bracket.\<close>

fun chunk_length :: "bool \<Rightarrow> string \<Rightarrow> nat" where
  "chunk_length inrange [] = 0"
| "chunk_length inrange (c # p) =
     (if c = BSLASH then (case p of [] \<Rightarrow> 1 | _ # q \<Rightarrow> 2 + chunk_length inrange q)
      else if c = CHR ''['' then Suc (chunk_length True p)
      else if c = CHR '']'' then Suc (chunk_length False p)
      else if c = STAR \<and> \<not> inrange then 0
      else Suc (chunk_length inrange p))"

definition scanChunk :: "string \<Rightarrow> bool \<times> string \<times> string" where
  "scanChunk pattern =
     (let p = dropWhile (\<lambda>c. c = STAR) pattern; i = chunk_length False p
      in (pattern \<noteq> [] \<and> hd pattern = STAR, take i p, drop i p))"

abbreviation ErrBadPattern :: err where "ErrBadPattern \<equiv> Sentinel ''ErrBadPattern''"

definition getEsc :: "string \<Rightarrow> err + (nat \<times> string)" where
  "getEsc chunk =
     (if chunk = [] \<or> hd chunk = CHR ''-'' \<or> hd chunk = CHR '']'' then Inl ErrBadPattern
      else (let c = (if hd chunk = BSLASH then tl chunk else chunk) in
        if c = [] then Inl ErrBadPattern
        else (case DecodeRune c of (r, n) \<Rightarrow>
          if r = RuneError \<and> n = 1 \<or> drop n c = [] then Inl ErrBadPattern else Inr (r, drop n c))))"

lemma getEsc_shorter: "getEsc chunk = Inr (r, rest) \<Longrightarrow> length rest < length chunk \<and> rest \<noteq> []"
proof -
  assume a: "getEsc chunk = Inr (r, rest)"
  let ?c = "if hd chunk = BSLASH then tl chunk else chunk"
  from a obtain n where c: "chunk \<noteq> []" "?c \<noteq> []" "DecodeRune ?c = (r, n)" "rest = drop n ?c" "rest \<noteq> []"
    by (auto simp: getEsc_def Let_def split: if_split_asm prod.split_asm)
  from DecodeRune_width [OF c(2)] c(3) have "1 \<le> n" by simp
  with c show ?thesis by (cases chunk) (auto split: if_split_asm)
qed

text \<open>The ranges of a character class up to its closing bracket; \<open>r\<close> is the rune to match.\<close>

function class_ranges :: "nat \<Rightarrow> bool \<Rightarrow> bool \<Rightarrow> string \<Rightarrow> err + (bool \<times> string)" where
  "class_ranges r found some_range chunk =
     (if chunk \<noteq> [] \<and> hd chunk = CHR '']'' \<and> some_range then Inr (found, tl chunk)
      else case getEsc chunk of
          Inl e \<Rightarrow> Inl e
        | Inr (lo, rest) \<Rightarrow>
            if hd rest = CHR ''-'' then
              (case getEsc (tl rest) of
                 Inl e \<Rightarrow> Inl e
               | Inr (hi, rest') \<Rightarrow> class_ranges r (found \<or> lo \<le> r \<and> r \<le> hi) True rest')
            else class_ranges r (found \<or> lo \<le> r \<and> r \<le> lo) True rest)"
  by pat_completeness auto
termination
proof (relation "measure (\<lambda>(_, _, _, chunk). length chunk)", goal_cases)
  case (2 r found some_range chunk y lo rest z hi rest')
  then have "length rest < length chunk" "length rest' < length (tl rest)" using getEsc_shorter by metis+
  then show ?case by simp
next
  case (3 r found some_range chunk y lo rest)
  then have "length rest < length chunk" using getEsc_shorter by metis
  then show ?case by simp
qed simp

declare class_ranges.simps [simp del]

lemma class_ranges_shorter: "class_ranges r found some_range chunk = Inr (x, rest) \<Longrightarrow> length rest < length chunk"
proof (induction r found some_range chunk rule: class_ranges.induct)
  case (1 r found some_range chunk)
  show ?case
  proof (cases "chunk \<noteq> [] \<and> hd chunk = CHR '']'' \<and> some_range")
    case True
    with "1.prems" class_ranges.simps [of r found some_range chunk] have "chunk \<noteq> []" "rest = tl chunk" by simp_all
    then show ?thesis by simp
  next
    case False
    with "1.prems" obtain lo more where e: "getEsc chunk = Inr (lo, more)"
      by (cases "getEsc chunk") (auto simp: class_ranges.simps)
    note sh = getEsc_shorter [OF e]
    show ?thesis
    proof (cases "hd more = CHR ''-''")
      case True
      with False e "1.prems" obtain hi more' where h: "getEsc (tl more) = Inr (hi, more')"
        by (cases "getEsc (tl more)") (auto simp: class_ranges.simps [of r found some_range chunk])
      from e True h "1.prems" have "class_ranges r (found \<or> lo \<le> r \<and> r \<le> hi) True more' = Inr (x, rest)"
        unfolding class_ranges.simps [of r found some_range chunk] if_not_P [OF False] by simp
      from "1.IH"(1) [OF False e refl True h refl this] getEsc_shorter [OF h] sh show ?thesis by auto
    next
      case False2: False
      from e False2 "1.prems" have "class_ranges r (found \<or> lo \<le> r \<and> r \<le> lo) True more = Inr (x, rest)"
        unfolding class_ranges.simps [of r found some_range chunk] if_not_P [OF False] by simp
      from "1.IH"(2) [OF False e refl False2 this] sh show ?thesis by simp
    qed
  qed
qed

text \<open>\<open>matchChunk\<close>: once it has failed it goes on, reading the pattern only, to report a bad one.\<close>

definition negated_class :: "string \<Rightarrow> bool" where
  "negated_class c \<longleftrightarrow> c \<noteq> [] \<and> hd c = CHR ''^''"

function matchChunk :: "bool \<Rightarrow> string \<Rightarrow> string \<Rightarrow> err + (string \<times> bool)" where
  "matchChunk failed [] s = Inr (if failed then ([], False) else (s, True))"
| "matchChunk failed (c # chunk) s =
     (let bad = (failed \<or> s = []) in
      if c = CHR ''['' then
        (case (if bad then (0, 0) else DecodeRune s) of (r, n) \<Rightarrow>
           (case class_ranges r False False (if negated_class chunk then tl chunk else chunk) of
              Inl e \<Rightarrow> Inl e
            | Inr (found, rest) \<Rightarrow> matchChunk (bad \<or> found = negated_class chunk) rest (drop n s)))
      else if c = CHR ''?'' then
        (if bad then matchChunk True chunk s
         else matchChunk (hd s = SLASH) chunk (drop (snd (DecodeRune s)) s))
      else if c = BSLASH then
        (case chunk of
           [] \<Rightarrow> Inl ErrBadPattern
         | x # rest \<Rightarrow> if bad then matchChunk True rest s else matchChunk (x \<noteq> hd s) rest (tl s))
      else if bad then matchChunk True chunk s
      else matchChunk (c \<noteq> hd s) chunk (tl s))"
  by pat_completeness auto
termination
  by (relation "measure (\<lambda>(_, chunk, _). length chunk)") (auto dest!: class_ranges_shorter split: if_split_asm)

text \<open>The skip loop of a star, the final check of the remaining pattern, and \<open>Match\<close>.\<close>

fun skip_match :: "string \<Rightarrow> bool \<Rightarrow> string \<Rightarrow> err + string option" where
  "skip_match chunk is_last [] = Inr None"
| "skip_match chunk is_last (c # name) =
     (if c = SLASH then Inr None
      else case matchChunk False chunk name of
          Inl e \<Rightarrow> Inl e
        | Inr (t, ok) \<Rightarrow> if ok \<and> \<not> (is_last \<and> t \<noteq> []) then Inr (Some t) else skip_match chunk is_last name)"

lemma chunk_length_pos: "c \<noteq> STAR \<Longrightarrow> 0 < chunk_length False (c # p)"
  by (cases p) auto

lemma scanChunk_shorter:
  assumes "pattern \<noteq> []" "scanChunk pattern = (star, chunk, rest)"
  shows "length rest < length pattern"
proof -
  let ?p = "dropWhile (\<lambda>c. c = STAR) pattern"
  from assms(2) have r: "rest = drop (chunk_length False ?p) ?p" by (simp add: scanChunk_def Let_def)
  show ?thesis
  proof (cases "hd pattern = STAR")
    case True
    with assms(1) have "length ?p < length pattern"
      by (cases pattern) (simp_all add: le_imp_less_Suc length_dropWhile_le)
    with r show ?thesis by simp
  next
    case False
    with assms(1) obtain c p where "pattern = c # p" "c \<noteq> STAR" by (cases pattern) auto
    with r chunk_length_pos [of c p] show ?thesis by simp
  qed
qed

function check_pattern :: "string \<Rightarrow> err + bool" where
  "check_pattern pattern = (if pattern = [] then Inr False
     else case scanChunk pattern of (star, chunk, rest) \<Rightarrow>
       (case matchChunk False chunk [] of Inl e \<Rightarrow> Inl e | Inr _ \<Rightarrow> check_pattern rest))"
  by pat_completeness auto
termination by (relation "measure length") (simp, metis scanChunk_shorter in_measure)

function Match :: "string \<Rightarrow> string \<Rightarrow> err + bool" where
  "Match pattern name = (if pattern = [] then Inr (name = [])
     else case scanChunk pattern of (star, chunk, rest) \<Rightarrow>
       if star \<and> chunk = [] then Inr (SLASH \<notin> set name)
       else case matchChunk False chunk name of
           Inl e \<Rightarrow> Inl e
         | Inr (t, ok) \<Rightarrow>
             if ok \<and> (t = [] \<or> rest \<noteq> []) then Match rest t
             else if \<not> star then check_pattern rest
             else case skip_match chunk (rest = []) name of
                 Inl e \<Rightarrow> Inl e
               | Inr (Some t') \<Rightarrow> Match rest t'
               | Inr None \<Rightarrow> check_pattern rest)"
  by pat_completeness auto
termination
  by (relation "measure (length \<circ> fst)") (simp_all, (metis scanChunk_shorter)+)

declare check_pattern.simps [simp del] Match.simps [simp del]

section \<open>Literal patterns\<close>

definition literal :: "string \<Rightarrow> bool" where
  "literal p \<longleftrightarrow> set p \<inter> {STAR, CHR ''?'', CHR ''['', BSLASH} = {}"

lemma chunk_length_literal: "literal p \<Longrightarrow> chunk_length b p = length p"
  by (induction p arbitrary: b) (auto simp: literal_def)

lemma matchChunk_failed: "literal p \<Longrightarrow> matchChunk True p s = Inr ([], False)"
  by (induction p) (auto simp: literal_def)

lemma matchChunk_literal:
  "literal p \<Longrightarrow> matchChunk False p s = Inr (if HasPrefix s p then (drop (length p) s, True) else ([], False))"
proof (induction p arbitrary: s)
  case Nil
  then show ?case by (simp add: HasPrefix_def)
next
  case (Cons c p)
  then have l: "literal p" "c \<noteq> CHR ''[''" "c \<noteq> CHR ''?''" "c \<noteq> BSLASH" by (auto simp: literal_def)
  show ?case
  proof (cases s)
    case Nil
    with l matchChunk_failed [OF l(1)] show ?thesis by (simp add: HasPrefix_def)
  next
    case (Cons d t)
    with l Cons.IH [OF l(1)] matchChunk_failed [OF l(1)] show ?thesis by (cases "c = d") (auto simp: HasPrefix_def)
  qed
qed

lemma Match_literal: "literal p \<Longrightarrow> Match p s = Inr (s = p)"
proof (cases p)
  case (Cons c q)
  assume l: "literal p"
  with Cons have "c \<noteq> STAR" by (auto simp: literal_def)
  with Cons have "dropWhile (\<lambda>c. c = STAR) p = p" by simp
  have "p \<noteq> []" using Cons by simp
  with Cons \<open>c \<noteq> STAR\<close> have scan: "scanChunk p = (False, p, [])"
    using chunk_length_literal [OF l, of False] by (simp add: scanChunk_def Let_def del: chunk_length.simps)
  have "Match p s = Inr (HasPrefix s p \<and> drop (length p) s = [])" using \<open>p \<noteq> []\<close>
    by (subst Match.simps, unfold scan)
      (simp add: matchChunk_literal [OF l] Match.simps [of "[]"] check_pattern.simps [of "[]"])
  moreover have "HasPrefix s p \<and> drop (length p) s = [] \<longleftrightarrow> s = p" by (auto simp: HasPrefix_def)
  ultimately show ?thesis by simp
qed (simp add: Match.simps)

end
