(* ===== verification/CandidateAuth.thy ===== *)
theory CandidateAuth
  imports GoTime ContentAddr "HOL-Library.Multiset"
begin

text \<open>
  \<open>daemon/internal/domain/authorization.go\<close> and its enumerations of \<open>enums.go\<close>: the findings the
  publication gate consumes and the record that authorizes the publication of one candidate.

  The JSON of a finding is the parameter \<open>enc\<close>, the content address of the JSON of a
  \<open>canonicalAuthorization\<close> the parameter \<open>seal\<close>; a time outside RFC 3339 makes either fail. A nil
  finding list is \<open>None\<close>, so the empty list stays apart from it. \<open>clone\<close> only detaches pointers.

  Shown: what an accepted record that authorizes a publication says of every finding; that a record
  is built exactly from well-formed facts; and that its identity does not depend on the order the
  findings were emitted in.
\<close>

section \<open>Enumerations\<close>

datatype Author = AuthorUser | AuthorAgent | AuthorDaemon | AuthorOther string

fun Author_valid :: "Author \<Rightarrow> bool" where
  "Author_valid (AuthorOther _) = False"
| "Author_valid _ = True"

datatype CandidateFindingClass = FindingClassControlPlane | FindingClassImportIntegrity
  | FindingClassRepoChangePolicy | FindingClassSecret | FindingClassOther string

fun CandidateFindingClass_valid :: "CandidateFindingClass \<Rightarrow> bool" where
  "CandidateFindingClass_valid (FindingClassOther _) = False"
| "CandidateFindingClass_valid _ = True"

fun Waivable :: "CandidateFindingClass \<Rightarrow> bool" where
  "Waivable FindingClassControlPlane = False"
| "Waivable FindingClassImportIntegrity = False"
| "Waivable FindingClassSecret = False"
| "Waivable FindingClassRepoChangePolicy = True"
| "Waivable (FindingClassOther _) = False"

datatype ControlPlaneCategory = ControlPlaneWorkflowConfiguration | ControlPlanePromptsAndPolicy
  | ControlPlaneEgressAndTrust | ControlPlaneVerificationRecipes | ControlPlaneMaterialityRules
  | ControlPlaneReviewerInstructions | ControlPlaneCategoryOther string

fun ControlPlaneCategory_valid :: "ControlPlaneCategory \<Rightarrow> bool" where
  "ControlPlaneCategory_valid (ControlPlaneCategoryOther _) = False"
| "ControlPlaneCategory_valid _ = True"

fun ControlPlaneCategory_Advisory :: "ControlPlaneCategory \<Rightarrow> bool" where
  "ControlPlaneCategory_Advisory ControlPlaneReviewerInstructions = True"
| "ControlPlaneCategory_Advisory _ = False"

datatype FindingDisposition = DispositionBlocking | DispositionWaived | DispositionAdvisory
  | DispositionOther string

fun FindingDisposition_valid :: "FindingDisposition \<Rightarrow> bool" where
  "FindingDisposition_valid (DispositionOther _) = False"
| "FindingDisposition_valid _ = True"

datatype CandidateFindingOrigin = FindingOriginImport | FindingOriginVerification | FindingOriginOther string

fun CandidateFindingOrigin_valid :: "CandidateFindingOrigin \<Rightarrow> bool" where
  "CandidateFindingOrigin_valid (FindingOriginOther _) = False"
| "CandidateFindingOrigin_valid _ = True"

datatype VerificationOutcome = VerificationPassed | VerificationFailed | VerificationOther string

fun VerificationOutcome_valid :: "VerificationOutcome \<Rightarrow> bool" where
  "VerificationOutcome_valid (VerificationOther _) = False"
| "VerificationOutcome_valid _ = True"

section \<open>Findings\<close>

record WaiverRecord =
  wvr_decision_id :: string
  wvr_decided_by :: Author
  wvr_decided_at :: gotime
  wvr_justification :: string
  wvr_decision_digest :: string

definition WaiverRecord_Validate :: "WaiverRecord \<Rightarrow> err option" where
  "WaiverRecord_Validate w = first_error [
     require (wvr_decision_id w \<noteq> []) ErrEmptyID,
     require (Author_valid (wvr_decided_by w)) ErrInvalidAuthor,
     require (wvr_decided_by w \<noteq> AuthorAgent) (Sentinel ''ErrAgentWaiver''),
     require (\<not> IsZero (wvr_decided_at w)) ErrMissingTimestamp,
     require (is_utc (wvr_decided_at w)) ErrTimestampNotUTC,
     require (wvr_justification w \<noteq> []) ErrEmptyField,
     require (wvr_decision_digest w \<noteq> []) ErrEmptyField]"

record CandidateFinding =
  cf_class :: CandidateFindingClass
  cf_category :: "ControlPlaneCategory option"
  cf_origin :: CandidateFindingOrigin
  cf_kind :: string
  cf_path :: string
  cf_path_hex :: string
  cf_detail :: string
  cf_disposition :: FindingDisposition
  cf_waiver :: "WaiverRecord option"

definition validate_category :: "CandidateFinding \<Rightarrow> err option" where
  "validate_category f = (case cf_class f of
     FindingClassControlPlane \<Rightarrow> (case cf_category f of
         None \<Rightarrow> Some (Sentinel ''ErrCategoryInconsistent'')
       | Some category \<Rightarrow> require (ControlPlaneCategory_valid category) (Sentinel ''ErrInvalidFindingCategory''))
   | FindingClassOther _ \<Rightarrow> None
   | _ \<Rightarrow> require (cf_category f = None) (Sentinel ''ErrCategoryInconsistent''))"

definition validate_disposition :: "CandidateFinding \<Rightarrow> err option" where
  "validate_disposition f = (case cf_disposition f of
     DispositionWaived \<Rightarrow> first_error [
       require (Waivable (cf_class f)) (Sentinel ''ErrNonWaivableFinding''),
       (case cf_waiver f of None \<Rightarrow> Some (Sentinel ''ErrWaiverInconsistent'') | Some w \<Rightarrow> WaiverRecord_Validate w)]
   | DispositionBlocking \<Rightarrow> require (cf_waiver f = None) (Sentinel ''ErrWaiverInconsistent'')
   | DispositionAdvisory \<Rightarrow> first_error [
       (if cf_class f \<noteq> FindingClassControlPlane then Some (Sentinel ''ErrNonAdvisoryFinding'')
        else deref (cf_category f) (\<lambda>category.
          require (ControlPlaneCategory_Advisory category) (Sentinel ''ErrNonAdvisoryFinding''))),
       require (cf_waiver f = None) (Sentinel ''ErrWaiverInconsistent'')]
   | DispositionOther _ \<Rightarrow> None)"

definition CandidateFinding_Validate :: "CandidateFinding \<Rightarrow> err option" where
  "CandidateFinding_Validate f = first_error [
     require (CandidateFindingClass_valid (cf_class f)) (Sentinel ''ErrInvalidFindingClass''),
     validate_category f,
     require (CandidateFindingOrigin_valid (cf_origin f)) (Sentinel ''ErrInvalidFindingOrigin''),
     require (cf_kind f \<noteq> []) ErrEmptyField,
     require (\<not> (cf_path f \<noteq> [] \<and> cf_path_hex f \<noteq> [])) (Sentinel ''ErrFindingPathConflict''),
     require (FindingDisposition_valid (cf_disposition f)) (Sentinel ''ErrInvalidFindingDisposition''),
     validate_disposition f]"

text \<open>\<open>json.Marshal\<close> of a finding succeeds.\<close>

definition marshals :: "CandidateFinding \<Rightarrow> bool" where
  "marshals f \<longleftrightarrow> (case cf_waiver f of None \<Rightarrow> True | Some w \<Rightarrow> rfc3339_ok (wvr_decided_at w))"

section \<open>The authorization\<close>

record CandidateAuthorization =
  ca_id :: string
  ca_repo :: string
  ca_base_sha :: string
  ca_head_sha :: string
  ca_import_result :: string
  ca_recipe :: string
  ca_evidence :: string
  ca_outcome :: VerificationOutcome
  ca_findings :: "CandidateFinding list option"
  ca_trust_profile :: string
  ca_invocation :: string
  ca_created_at :: gotime
  ca_authorizes :: bool

record CandidateAuthorizationInput =
  cai_repo :: string
  cai_base_sha :: string
  cai_head_sha :: string
  cai_import_result :: string
  cai_recipe :: string
  cai_evidence :: string
  cai_outcome :: VerificationOutcome
  cai_findings :: "CandidateFinding list"
  cai_trust_profile :: string
  cai_invocation :: string
  cai_created_at :: gotime

definition authorizationEncodingVersion :: string where
  "authorizationEncodingVersion = ''freeside-candidate-authorization/v2''"

record canonicalAuthorization =
  can_version :: string
  can_repo :: string
  can_base_sha :: string
  can_head_sha :: string
  can_import_result :: string
  can_recipe :: string
  can_evidence :: string
  can_outcome :: VerificationOutcome
  can_findings :: "CandidateFinding list option"
  can_trust_profile :: string
  can_invocation :: string
  can_created_at :: gotime

type_synonym finding_encoding = "CandidateFinding \<Rightarrow> string"
type_synonym authorization_seal = "canonicalAuthorization \<Rightarrow> string"

definition canonicalFindings :: "finding_encoding \<Rightarrow> CandidateFinding list \<Rightarrow> err + CandidateFinding list option" where
  "canonicalFindings enc fs = (if fs = [] then Inr None
     else if \<not> list_all marshals fs then Inl ErrMarshal
     else Inr (Some (sort_key enc fs)))"

definition findings_of :: "CandidateFinding list option \<Rightarrow> CandidateFinding list" where
  "findings_of fs = (case fs of None \<Rightarrow> [] | Some xs \<Rightarrow> xs)"

definition ComputeID :: "finding_encoding \<Rightarrow> authorization_seal \<Rightarrow> CandidateAuthorization \<Rightarrow> err + string" where
  "ComputeID enc seal a = ebind (canonicalFindings enc (findings_of (ca_findings a))) (\<lambda>fs.
     if \<not> rfc3339_ok (ca_created_at a) then Inl ErrMarshal
     else Inr (seal \<lparr>can_version = authorizationEncodingVersion, can_repo = ca_repo a, can_base_sha = ca_base_sha a,
       can_head_sha = ca_head_sha a, can_import_result = ca_import_result a, can_recipe = ca_recipe a,
       can_evidence = ca_evidence a, can_outcome = ca_outcome a, can_findings = fs,
       can_trust_profile = ca_trust_profile a, can_invocation = ca_invocation a, can_created_at = ca_created_at a\<rparr>))"

definition findingBlocks :: "FindingDisposition \<Rightarrow> bool" where
  "findingBlocks d = (case d of DispositionBlocking \<Rightarrow> True | DispositionWaived \<Rightarrow> False | DispositionAdvisory \<Rightarrow> False
     | DispositionOther _ \<Rightarrow> True)"

definition computeAuthorizesPublication :: "VerificationOutcome \<Rightarrow> CandidateFinding list \<Rightarrow> bool" where
  "computeAuthorizesPublication outcome fs = (case outcome of
     VerificationFailed \<Rightarrow> False
   | VerificationPassed \<Rightarrow> \<not> list_ex (\<lambda>f. findingBlocks (cf_disposition f)) fs
   | VerificationOther _ \<Rightarrow> False)"

text \<open>The loop over the findings; \<open>prev\<close> is the encoding of the finding before.\<close>

fun check_findings :: "finding_encoding \<Rightarrow> string option \<Rightarrow> CandidateFinding list \<Rightarrow> err option" where
  "check_findings enc prev [] = None"
| "check_findings enc prev (f # fs) = (case CandidateFinding_Validate f of
     Some e \<Rightarrow> Some e
   | None \<Rightarrow>
       if \<not> marshals f then Some ErrMarshal
       else (case prev of
           None \<Rightarrow> check_findings enc (Some (enc f)) fs
         | Some p \<Rightarrow>
             if Compare p (enc f) = 0 then Some ErrDuplicate
             else if Compare p (enc f) = 1 then Some (Sentinel ''ErrFindingsNotCanonical'')
             else check_findings enc (Some (enc f)) fs))"

definition CandidateAuthorization_Validate ::
  "finding_encoding \<Rightarrow> authorization_seal \<Rightarrow> CandidateAuthorization \<Rightarrow> err option" where
  "CandidateAuthorization_Validate enc seal a = first_error [
     require (ca_repo a \<noteq> []) ErrEmptyField,
     require (ca_base_sha a \<noteq> []) ErrEmptyField,
     require (ca_head_sha a \<noteq> []) ErrEmptyField,
     require (ca_import_result a \<noteq> []) ErrEmptyField,
     require (ca_recipe a \<noteq> []) ErrEmptyField,
     require (ca_evidence a \<noteq> []) ErrEmptyField,
     require (VerificationOutcome_valid (ca_outcome a)) (Sentinel ''ErrInvalidOutcome''),
     require (ca_trust_profile a \<noteq> []) ErrEmptyField,
     require (ca_invocation a \<noteq> []) ErrEmptyID,
     require (\<not> IsZero (ca_created_at a)) ErrMissingTimestamp,
     require (is_utc (ca_created_at a)) ErrTimestampNotUTC,
     require (ca_findings a \<noteq> Some []) (Sentinel ''ErrFindingsNotCanonical''),
     check_findings enc None (findings_of (ca_findings a)),
     require (ca_id a \<noteq> []) ErrEmptyID,
     (case ComputeID enc seal a of
        Inl e \<Rightarrow> Some e
      | Inr computed \<Rightarrow> require (ca_id a = computed) (Sentinel ''ErrAuthorizationInconsistent'')),
     require (ca_authorizes a = computeAuthorizesPublication (ca_outcome a) (findings_of (ca_findings a)))
       (Sentinel ''ErrAuthorizationInconsistent'')]"

definition NewCandidateAuthorization ::
  "finding_encoding \<Rightarrow> authorization_seal \<Rightarrow> CandidateAuthorizationInput \<Rightarrow> err + CandidateAuthorization" where
  "NewCandidateAuthorization enc seal x = ebind (canonicalFindings enc (cai_findings x)) (\<lambda>fs.
     let a = \<lparr>ca_id = [], ca_repo = cai_repo x, ca_base_sha = cai_base_sha x, ca_head_sha = cai_head_sha x,
           ca_import_result = cai_import_result x, ca_recipe = cai_recipe x, ca_evidence = cai_evidence x,
           ca_outcome = cai_outcome x, ca_findings = fs, ca_trust_profile = cai_trust_profile x,
           ca_invocation = cai_invocation x, ca_created_at = UTC (cai_created_at x), ca_authorizes = False\<rparr>
     in ebind (ComputeID enc seal a) (\<lambda>digest.
          let a' = a\<lparr>ca_id := digest,
                ca_authorizes := computeAuthorizesPublication (ca_outcome a) (findings_of (ca_findings a))\<rparr>
          in of_err (CandidateAuthorization_Validate enc seal a') a'))"

section \<open>Findings of an accepted record\<close>

lemma check_findings_None: "check_findings enc prev fs = None \<longleftrightarrow>
    (\<forall>f \<in> set fs. CandidateFinding_Validate f = None \<and> marshals f) \<and> sorted_wrt (<) (map enc fs)
    \<and> (case prev of None \<Rightarrow> True | Some p \<Rightarrow> \<forall>f \<in> set fs. p < enc f)"
proof (induction fs arbitrary: prev)
  case (Cons f fs)
  have "check_findings enc prev (f # fs) = None \<longleftrightarrow> CandidateFinding_Validate f = None \<and> marshals f
      \<and> (case prev of None \<Rightarrow> True | Some p \<Rightarrow> p < enc f) \<and> check_findings enc (Some (enc f)) fs = None"
    by (cases prev; cases "CandidateFinding_Validate f") (auto simp: Compare_def)
  with Cons.IH [of "Some (enc f)"] show ?case
    by (cases prev) (auto intro: less_trans)
qed (simp split: option.split)

lemma canonicalFindings_Inr: "canonicalFindings enc fs = Inr r \<longleftrightarrow> (fs = [] \<longrightarrow> r = None)
    \<and> (fs \<noteq> [] \<longrightarrow> list_all marshals fs \<and> r = Some (sort_key enc fs))"
  by (auto simp: canonicalFindings_def)

lemma findings_of_canonical: "canonicalFindings enc fs = Inr r \<Longrightarrow> findings_of r = sort_key enc fs"
  by (cases "fs = []") (simp_all add: canonicalFindings_Inr findings_of_def)

lemma sorted_enc: "sorted_wrt (<) (map enc (sort_key enc fs)) \<longleftrightarrow> distinct (map enc fs)"
  by (simp add: strict_sorted_iff distinct_map inj_on_def)

lemma sort_key_Nil_iff [simp]: "sort_key enc fs = [] \<longleftrightarrow> fs = []"
  by (metis set_empty2 set_sort)

lemma sort_key_strict: "sorted_wrt (<) (map enc fs) \<Longrightarrow> sort_key enc fs = fs"
  using properties_for_sort_key [of fs fs enc] by (simp add: strict_sorted_iff)

text \<open>The findings of an accepted record are their own canonical form.\<close>

lemma canonical_of_accepted:
  assumes "check_findings enc None (findings_of r) = None" "r \<noteq> Some []"
  shows "canonicalFindings enc (findings_of r) = Inr r"
proof -
  from assms(1) have "sort_key enc (findings_of r) = findings_of r" "list_all marshals (findings_of r)"
    by (simp_all add: check_findings_None sort_key_strict list_all_iff)
  with assms(2) show ?thesis by (cases r) (auto simp: canonicalFindings_Inr findings_of_def)
qed

text \<open>A well-formed finding that does not block is waived by someone other than the agent, or advisory.\<close>

lemma nonblocking_finding:
  assumes "CandidateFinding_Validate f = None" "\<not> findingBlocks (cf_disposition f)"
  shows "cf_class f = FindingClassRepoChangePolicy \<and> cf_disposition f = DispositionWaived
      \<and> (\<exists>w. cf_waiver f = Some w \<and> WaiverRecord_Validate w = None)
    \<or> cf_class f = FindingClassControlPlane \<and> cf_category f = Some ControlPlaneReviewerInstructions
      \<and> cf_disposition f = DispositionAdvisory \<and> cf_waiver f = None"
proof -
  from assms(1) have v: "validate_disposition f = None" by (simp add: CandidateFinding_Validate_def validation)
  from assms(2) consider "cf_disposition f = DispositionWaived" | "cf_disposition f = DispositionAdvisory"
    by (cases "cf_disposition f") (simp_all add: findingBlocks_def)
  then show ?thesis
  proof cases
    case 1
    with v have "Waivable (cf_class f)" "\<exists>w. cf_waiver f = Some w \<and> WaiverRecord_Validate w = None"
      by (auto simp: validate_disposition_def validation split: option.splits)
    with 1 show ?thesis by (cases "cf_class f") simp_all
  next
    case 2
    with v obtain category where "cf_class f = FindingClassControlPlane" "cf_category f = Some category"
      "ControlPlaneCategory_Advisory category" "cf_waiver f = None"
      by (auto simp: validate_disposition_def validation split: if_split_asm)
    with 2 show ?thesis by (cases category) simp_all
  qed
qed

lemma Validate_ID:
  assumes "CandidateAuthorization_Validate enc seal a = None"
  shows "ComputeID enc seal a = Inr (ca_id a)"
  using assms by (auto simp: CandidateAuthorization_Validate_def validation split: sum.splits)

lemma Validate_facts:
  assumes "CandidateAuthorization_Validate enc seal a = None"
  shows "ca_authorizes a = computeAuthorizesPublication (ca_outcome a) (findings_of (ca_findings a))"
    "check_findings enc None (findings_of (ca_findings a)) = None" "ca_findings a \<noteq> Some []"
  using assms by (simp_all add: CandidateAuthorization_Validate_def validation)

lemma computeAuthorizes_iff: "computeAuthorizesPublication outcome fs \<longleftrightarrow> outcome = VerificationPassed
    \<and> (\<forall>f \<in> set fs. \<not> findingBlocks (cf_disposition f))"
  by (auto simp: computeAuthorizesPublication_def list_ex_iff split: VerificationOutcome.split)

section \<open>Properties\<close>

text \<open>
  C18: a record that validates and authorizes publication binds a passed verification, and each of its
  findings either is an ordinary repository policy finding that a well-formed waiver of the user or
  the daemon waives, or is the advisory finding on reviewer instructions: no control-plane,
  integrity or secret finding is ever published over, and the agent waives nothing.
\<close>

theorem authorization_sound:
  assumes "CandidateAuthorization_Validate enc seal a = None" "ca_authorizes a"
  shows "ca_outcome a = VerificationPassed \<and> (\<forall>f \<in> set (findings_of (ca_findings a)).
     cf_class f = FindingClassRepoChangePolicy \<and> cf_disposition f = DispositionWaived
       \<and> (\<exists>w. cf_waiver f = Some w \<and> wvr_decided_by w \<in> {AuthorUser, AuthorDaemon} \<and> wvr_decision_digest w \<noteq> [])
   \<or> cf_class f = FindingClassControlPlane \<and> cf_category f = Some ControlPlaneReviewerInstructions
       \<and> cf_disposition f = DispositionAdvisory \<and> cf_waiver f = None)"
proof -
  have w: "wvr_decided_by w \<in> {AuthorUser, AuthorDaemon} \<and> wvr_decision_digest w \<noteq> []"
    if "WaiverRecord_Validate w = None" for w
    using that by (cases "wvr_decided_by w") (simp_all add: WaiverRecord_Validate_def validation)
  note facts = Validate_facts [OF assms(1)]
  from facts(1) assms(2) have c: "ca_outcome a = VerificationPassed"
    "\<forall>f \<in> set (findings_of (ca_findings a)). \<not> findingBlocks (cf_disposition f)"
    by (simp_all add: computeAuthorizes_iff)
  from facts(2) have v: "\<forall>f \<in> set (findings_of (ca_findings a)). CandidateFinding_Validate f = None"
    by (simp add: check_findings_None)
  show ?thesis using c v w nonblocking_finding by metis
qed

text \<open>What a constructed record is built from.\<close>

definition input_ok :: "finding_encoding \<Rightarrow> CandidateAuthorizationInput \<Rightarrow> bool" where
  "input_ok enc x \<longleftrightarrow> cai_repo x \<noteq> [] \<and> cai_base_sha x \<noteq> [] \<and> cai_head_sha x \<noteq> [] \<and> cai_import_result x \<noteq> []
     \<and> cai_recipe x \<noteq> [] \<and> cai_evidence x \<noteq> [] \<and> VerificationOutcome_valid (cai_outcome x)
     \<and> cai_trust_profile x \<noteq> [] \<and> cai_invocation x \<noteq> [] \<and> \<not> IsZero (cai_created_at x) \<and> rfc3339_ok (cai_created_at x)
     \<and> (\<forall>f \<in> set (cai_findings x). CandidateFinding_Validate f = None \<and> marshals f)
     \<and> distinct (map enc (cai_findings x))"

definition canonical_of :: "finding_encoding \<Rightarrow> CandidateAuthorizationInput \<Rightarrow> canonicalAuthorization" where
  "canonical_of enc x = \<lparr>can_version = authorizationEncodingVersion, can_repo = cai_repo x, can_base_sha = cai_base_sha x,
     can_head_sha = cai_head_sha x, can_import_result = cai_import_result x, can_recipe = cai_recipe x,
     can_evidence = cai_evidence x, can_outcome = cai_outcome x,
     can_findings = (if cai_findings x = [] then None else Some (sort_key enc (cai_findings x))),
     can_trust_profile = cai_trust_profile x, can_invocation = cai_invocation x, can_created_at = UTC (cai_created_at x)\<rparr>"

definition built :: "finding_encoding \<Rightarrow> authorization_seal \<Rightarrow> CandidateAuthorizationInput \<Rightarrow> CandidateAuthorization" where
  "built enc seal x = \<lparr>ca_id = seal (canonical_of enc x), ca_repo = cai_repo x, ca_base_sha = cai_base_sha x,
     ca_head_sha = cai_head_sha x, ca_import_result = cai_import_result x, ca_recipe = cai_recipe x,
     ca_evidence = cai_evidence x, ca_outcome = cai_outcome x,
     ca_findings = (if cai_findings x = [] then None else Some (sort_key enc (cai_findings x))),
     ca_trust_profile = cai_trust_profile x, ca_invocation = cai_invocation x, ca_created_at = UTC (cai_created_at x),
     ca_authorizes = computeAuthorizesPublication (cai_outcome x) (cai_findings x)\<rparr>"

lemma built_accepted:
  assumes "input_ok enc x" "\<And>c. seal c \<noteq> []"
  shows "CandidateAuthorization_Validate enc seal (built enc seal x) = None"
proof -
  let ?a = "built enc seal x" and ?s = "sort_key enc (cai_findings x)"
  have fs: "findings_of (ca_findings ?a) = ?s" "set ?s = set (cai_findings x)"
    "ca_findings ?a = (if ?s = [] then None else Some ?s)"
    by (simp_all add: built_def findings_of_def)
  from assms(1) have ok: "list_all marshals ?s" "check_findings enc None ?s = None" "sort_key enc ?s = ?s"
    "rfc3339_ok (ca_created_at ?a)"
    by (simp_all add: input_ok_def check_findings_None sorted_enc list_all_iff built_def rfc3339_ok_def
        sort_key_strict)
  then have "canonicalFindings enc ?s = Inr (ca_findings ?a)" by (auto simp: canonicalFindings_Inr fs(3))
  with ok(4) have "ComputeID enc seal ?a = Inr (ca_id ?a)"
    by (simp add: ComputeID_def fs(1)) (simp add: built_def canonical_of_def)
  moreover have "computeAuthorizesPublication (cai_outcome x) ?s = ca_authorizes ?a"
    by (auto simp: built_def computeAuthorizes_iff)
  moreover have "ca_findings ?a \<noteq> Some []" by (simp add: fs(3))
  ultimately show ?thesis using assms ok
    by (simp add: CandidateAuthorization_Validate_def validation fs(1)) (simp add: built_def input_ok_def)
qed

lemma New_built:
  assumes "\<And>c. seal c \<noteq> []"
  shows "NewCandidateAuthorization enc seal x = Inr a \<longleftrightarrow> input_ok enc x \<and> a = built enc seal x"
proof (cases "list_all marshals (cai_findings x) \<and> rfc3339_ok (cai_created_at x)")
  case True
  let ?fs = "if cai_findings x = [] then None else Some (sort_key enc (cai_findings x))"
  from True have c: "canonicalFindings enc (cai_findings x) = Inr ?fs" by (simp add: canonicalFindings_Inr)
  have f: "findings_of ?fs = sort_key enc (cai_findings x)" by (simp add: findings_of_def)
  have k: "sort_key enc (sort_key enc (cai_findings x)) = sort_key enc (cai_findings x)"
    using properties_for_sort_key [of "sort_key enc (cai_findings x)" "sort_key enc (cai_findings x)" enc] by simp
  have "canonicalFindings enc (sort_key enc (cai_findings x)) = Inr ?fs"
    using True k by (simp add: canonicalFindings_Inr list_all_iff)
  moreover have "computeAuthorizesPublication (cai_outcome x) (sort_key enc (cai_findings x))
      = computeAuthorizesPublication (cai_outcome x) (cai_findings x)"
    using computeAuthorizes_iff set_sort by metis
  ultimately have n: "NewCandidateAuthorization enc seal x
      = of_err (CandidateAuthorization_Validate enc seal (built enc seal x)) (built enc seal x)"
    using True by (simp add: NewCandidateAuthorization_def c Let_def ComputeID_def f rfc3339_ok_def built_def
        canonical_of_def del: findings_of_def)
  have "input_ok enc x" if v: "CandidateAuthorization_Validate enc seal (built enc seal x) = None"
  proof -
    have b: "findings_of (ca_findings (built enc seal x)) = sort_key enc (cai_findings x)"
      by (simp add: built_def findings_of_def)
    from Validate_facts(2) [OF v] have "\<forall>f \<in> set (cai_findings x). CandidateFinding_Validate f = None \<and> marshals f"
      "distinct (map enc (cai_findings x))"
      unfolding b check_findings_None sorted_enc by simp_all
    with v True show ?thesis
      by (simp add: input_ok_def CandidateAuthorization_Validate_def validation) (simp add: built_def)
  qed
  with built_accepted [OF _ assms] show ?thesis by (auto simp: n of_err_Inr_iff)
next
  case False
  then have "\<not> input_ok enc x" by (auto simp: input_ok_def list_all_iff)
  moreover have "NewCandidateAuthorization enc seal x \<noteq> Inr a"
    using False by (auto simp: NewCandidateAuthorization_def ebind_Inr_iff ComputeID_def Let_def rfc3339_ok_def
        canonicalFindings_Inr split: if_split_asm)
  ultimately show ?thesis by simp
qed

lemma distinct_map_mset: "mset xs = mset ys \<Longrightarrow> distinct (map enc xs) \<longleftrightarrow> distinct (map enc ys)"
  by (metis mset_eq_imp_distinct_iff mset_map)

lemma input_ok_perm: "mset (cai_findings x) = mset fs \<Longrightarrow> input_ok enc x \<longleftrightarrow> input_ok enc (x\<lparr>cai_findings := fs\<rparr>)"
proof -
  assume a: "mset (cai_findings x) = mset fs"
  have "distinct (map enc (cai_findings x)) \<longleftrightarrow> distinct (map enc fs)" by (rule distinct_map_mset [OF a])
  with mset_eq_setD [OF a] show ?thesis by (simp add: input_ok_def)
qed

lemma built_perm:
  assumes "mset (cai_findings x) = mset fs" "distinct (map enc (cai_findings x))"
  shows "built enc seal (x\<lparr>cai_findings := fs\<rparr>) = built enc seal x"
proof -
  have s: "set (cai_findings x) = set fs" using mset_eq_setD assms(1) by blast
  have "distinct (map enc fs)" using assms distinct_map_mset by blast
  then have "sort_key enc (cai_findings x) = sort_key enc fs"
    using s assms by (intro sort_key_inj_key_eq) (simp_all add: distinct_map)
  moreover have "computeAuthorizesPublication out fs = computeAuthorizesPublication out (cai_findings x)" for out
    by (simp add: computeAuthorizes_iff s)
  moreover have "fs = [] \<longleftrightarrow> cai_findings x = []" using assms(1) by auto
  ultimately show ?thesis by (simp add: built_def canonical_of_def)
qed

lemma NewCandidateAuthorization_iff:
  assumes "\<And>c. seal c \<noteq> []"
  shows "(\<exists>a. NewCandidateAuthorization enc seal x = Inr a) = input_ok enc x
    \<and> (\<forall>a. NewCandidateAuthorization enc seal x = Inr a \<longrightarrow>
      ca_authorizes a = (cai_outcome x = VerificationPassed
        \<and> (\<forall>f \<in> set (cai_findings x). cf_disposition f = DispositionWaived \<or> cf_disposition f = DispositionAdvisory)))"
proof -
  have "ca_authorizes (built enc seal x) = computeAuthorizesPublication (cai_outcome x) (cai_findings x)"
    by (simp add: built_def)
  moreover have "\<not> findingBlocks d \<longleftrightarrow> d = DispositionWaived \<or> d = DispositionAdvisory" for d
    by (cases d) (simp_all add: findingBlocks_def)
  ultimately show ?thesis by (simp add: New_built [of seal enc x, OF assms] computeAuthorizes_iff)
qed

text \<open>
  C32: a record is built exactly when every bound fact is present, the outcome is known, the time can be
  written, and the findings are well-formed and pairwise distinct in their encodings; a failed
  verification and blocking findings are recorded too, and the trust bit is computed from them.
\<close>

theorem NewCandidateAuthorization_accepts:
  assumes "\<And>c. seal c \<noteq> []"
  shows "(\<exists>a. NewCandidateAuthorization enc seal x = Inr a) = input_ok enc x
    \<and> (\<forall>a. NewCandidateAuthorization enc seal x = Inr a \<longrightarrow>
      ca_authorizes a = (cai_outcome x = VerificationPassed
        \<and> (\<forall>f \<in> set (cai_findings x). cf_disposition f = DispositionWaived \<or> cf_disposition f = DispositionAdvisory)))"
  by (rule NewCandidateAuthorization_iff [OF assms])

text \<open>
  The record does not depend on the order in which the stages emitted the findings: any
  reordering of an accepted input builds the same record, identity included.
\<close>

theorem authorization_order_independent:
  assumes "\<And>c. seal c \<noteq> []" "mset fs = mset (cai_findings x)"
    and "NewCandidateAuthorization enc seal x = Inr a"
  shows "NewCandidateAuthorization enc seal (x\<lparr>cai_findings := fs\<rparr>) = Inr a"
proof -
  from assms(3) have "input_ok enc x" "a = built enc seal x" by (simp_all add: New_built [of seal enc, OF assms(1)])
  moreover from this(1) have "distinct (map enc (cai_findings x))" by (simp add: input_ok_def)
  ultimately show ?thesis
    using input_ok_perm [OF assms(2) [symmetric]] built_perm [OF assms(2) [symmetric]]
    by (simp add: New_built [of seal enc, OF assms(1)])
qed

text \<open>
  The identity determines the record: two records that validate under one identity are the same,
  trust bit included, or they exhibit a collision of the digest; so no store or export can carry one
  identity with another verdict.
\<close>

theorem authorization_id_determines:
  assumes "CandidateAuthorization_Validate enc seal a = None" "CandidateAuthorization_Validate enc seal b = None"
    and "ca_id a = ca_id b"
  shows "a = b \<or> (\<exists>c d. c \<noteq> d \<and> seal c = seal d)"
proof -
  define body where "body c = \<lparr>can_version = authorizationEncodingVersion, can_repo = ca_repo c, can_base_sha = ca_base_sha c,
       can_head_sha = ca_head_sha c, can_import_result = ca_import_result c, can_recipe = ca_recipe c,
       can_evidence = ca_evidence c, can_outcome = ca_outcome c, can_findings = ca_findings c,
       can_trust_profile = ca_trust_profile c, can_invocation = ca_invocation c, can_created_at = ca_created_at c\<rparr>"
    for c :: CandidateAuthorization
  have "ca_id c = seal (body c)" if "CandidateAuthorization_Validate enc seal c = None" for c
    using Validate_ID [OF that] canonical_of_accepted [OF Validate_facts(2,3) [OF that]]
    by (auto simp: ComputeID_def ebind_Inr_iff body_def split: if_split_asm)
  with assms have "seal (body a) = seal (body b)" by simp
  moreover have "a = b" if "body a = body b"
    using that Validate_facts(1) [OF assms(1)] Validate_facts(1) [OF assms(2)] assms(3) by (simp add: body_def)
  ultimately show ?thesis by blast
qed

section \<open>Witnesses\<close>

definition example_waiver :: WaiverRecord where
  "example_waiver = \<lparr>wvr_decision_id = ''d1'', wvr_decided_by = AuthorUser, wvr_decided_at = UnixZero 5,
     wvr_justification = ''generated file'', wvr_decision_digest = ''sha256:aa''\<rparr>"

definition example_findings :: "CandidateFinding list" where
  "example_findings = [
     \<lparr>cf_class = FindingClassRepoChangePolicy, cf_category = None, cf_origin = FindingOriginImport,
       cf_kind = ''size_violation'', cf_path = ''gen/table.go'', cf_path_hex = [], cf_detail = [],
       cf_disposition = DispositionWaived, cf_waiver = Some example_waiver\<rparr>,
     \<lparr>cf_class = FindingClassControlPlane, cf_category = Some ControlPlaneReviewerInstructions,
       cf_origin = FindingOriginImport, cf_kind = ''reviewer_instruction_path'', cf_path = ''AGENTS.md'',
       cf_path_hex = [], cf_detail = ''modified'', cf_disposition = DispositionAdvisory, cf_waiver = None\<rparr>]"

definition example_authorization_input :: CandidateAuthorizationInput where
  "example_authorization_input = \<lparr>cai_repo = ''o/r'', cai_base_sha = ''b'', cai_head_sha = ''h'', cai_import_result = ''i'',
     cai_recipe = ''v'', cai_evidence = ''e'', cai_outcome = VerificationPassed, cai_findings = example_findings,
     cai_trust_profile = ''t'', cai_invocation = ''n'', cai_created_at = \<lparr>unix_ns = 7, is_utc = False\<rparr>\<rparr>"

definition example_enc :: finding_encoding where "example_enc f = cf_kind f @ cf_path f"

definition example_authorization_seal :: authorization_seal where
  "example_authorization_seal c = can_repo c @ can_base_sha c @ can_head_sha c"

lemma example_input_ok: "input_ok example_enc example_authorization_input"
  by code_simp

abbreviation example_authorization :: CandidateAuthorization where
  "example_authorization \<equiv> built example_enc (Cons CHR ''x'' \<circ> example_authorization_seal) example_authorization_input"

lemma example_new: "NewCandidateAuthorization example_enc (Cons CHR ''x'' \<circ> example_authorization_seal)
    example_authorization_input = Inr example_authorization"
  using New_built [of "Cons CHR ''x'' \<circ> example_authorization_seal"] example_input_ok by simp

lemma example_validates: "CandidateAuthorization_Validate example_enc (Cons CHR ''x'' \<circ> example_authorization_seal)
    example_authorization = None" "ca_authorizes example_authorization"
  by (rule built_accepted [OF example_input_ok], simp) code_simp

lemma authorization_sound_witness: "ca_outcome example_authorization = VerificationPassed"
  using authorization_sound [OF example_validates] by blast

lemma NewCandidateAuthorization_accepts_witness:
  "\<exists>a. NewCandidateAuthorization example_enc (Cons CHR ''x'' \<circ> example_authorization_seal) example_authorization_input = Inr a"
  using NewCandidateAuthorization_accepts [of "Cons CHR ''x'' \<circ> example_authorization_seal" example_enc
      example_authorization_input] example_input_ok by simp

lemma authorization_order_independent_witness:
  "NewCandidateAuthorization example_enc (Cons CHR ''x'' \<circ> example_authorization_seal)
     (example_authorization_input\<lparr>cai_findings := rev example_findings\<rparr>) = Inr example_authorization"
  by (rule authorization_order_independent [OF _ _ example_new])
    (simp_all add: example_authorization_input_def)

lemma authorization_id_determines_witness:
  "example_authorization = example_authorization
    \<or> (\<exists>c d. c \<noteq> d \<and> (Cons CHR ''x'' \<circ> example_authorization_seal) c = (Cons CHR ''x'' \<circ> example_authorization_seal) d)"
  by (rule authorization_id_determines [OF example_validates(1) example_validates(1) refl])

end
