(* ===== verification/ImportFindings.thy ===== *)
theory ImportFindings
  imports PathFold GoTime CandidateAuth
begin

text \<open>
  \<open>daemon/internal/importer/finding.go\<close>, \<open>change.go\<close> and \<open>policy.go\<close>: the derived changes of an
  import, the findings on them, which findings block what, the path-class, allowlist and size policy,
  and the lift of a finding into the publication gate's \<open>CandidateFinding\<close>.

  Shown: the lift is well-formed and blocks except for the advisory category; the path classes are
  exact over the names a checkout would materialize; no candidate that touches an automation-control
  path is authorized, whatever its policy; the gate and the import's clean bar agree; and what each
  profile tolerates.
\<close>

section \<open>Changes\<close>

datatype ChangeKind = ChangeAdded | ChangeModified | ChangeDeleted | ChangeKindOther string

definition AllChangeKinds :: "ChangeKind list" where
  "AllChangeKinds = [ChangeAdded, ChangeModified, ChangeDeleted]"

fun ChangeKind_valid :: "ChangeKind \<Rightarrow> bool" where
  "ChangeKind_valid (ChangeKindOther _) = False"
| "ChangeKind_valid _ = True"

fun ChangeKind_text :: "ChangeKind \<Rightarrow> string" where
  "ChangeKind_text ChangeAdded = ''added''"
| "ChangeKind_text ChangeModified = ''modified''"
| "ChangeKind_text ChangeDeleted = ''deleted''"
| "ChangeKind_text (ChangeKindOther s) = s"

record Change =
  chg_path :: string
  chg_path_hex :: string
  chg_kind :: ChangeKind
  chg_mode :: string
  chg_digest :: string

record plannedChange =
  pl_path :: string
  pl_kind :: ChangeKind
  pl_mode :: string
  pl_oid :: string
  pl_digest :: string
  pl_size :: int
  pl_verified_path :: string
  pl_path_hex :: string
  pl_from_base :: bool

definition public :: "plannedChange \<Rightarrow> Change" where
  "public c = (if pl_path_hex c \<noteq> []
     then \<lparr>chg_path = [], chg_path_hex = pl_path_hex c, chg_kind = pl_kind c, chg_mode = pl_mode c, chg_digest = pl_digest c\<rparr>
     else \<lparr>chg_path = pl_path c, chg_path_hex = [], chg_kind = pl_kind c, chg_mode = pl_mode c, chg_digest = pl_digest c\<rparr>)"

section \<open>Findings\<close>

datatype FindingKind = FindingNonRegularChange | FindingInvalidPathEntry | FindingBlobOmitted
  | FindingAutomationControlPath | FindingReviewerInstructionPath | FindingGitMetadataPath
  | FindingVerificationRecipePath | FindingPromptsPolicyPath | FindingEgressTrustPath | FindingMaterialityRulesPath
  | FindingAllowlistViolation | FindingSizeViolation | FindingPathCollision | FindingSecret
  | FindingSecretScanSkipped | FindingCommitPlanSecret | FindingKindOther string

fun FindingKind_text :: "FindingKind \<Rightarrow> string" where
  "FindingKind_text FindingNonRegularChange = ''non_regular_change''"
| "FindingKind_text FindingInvalidPathEntry = ''invalid_path_entry''"
| "FindingKind_text FindingBlobOmitted = ''blob_omitted''"
| "FindingKind_text FindingAutomationControlPath = ''automation_control_path''"
| "FindingKind_text FindingReviewerInstructionPath = ''reviewer_instruction_path''"
| "FindingKind_text FindingGitMetadataPath = ''git_metadata_path''"
| "FindingKind_text FindingVerificationRecipePath = ''verification_recipe_path''"
| "FindingKind_text FindingPromptsPolicyPath = ''prompts_policy_path''"
| "FindingKind_text FindingEgressTrustPath = ''egress_trust_path''"
| "FindingKind_text FindingMaterialityRulesPath = ''materiality_rules_path''"
| "FindingKind_text FindingAllowlistViolation = ''allowlist_violation''"
| "FindingKind_text FindingSizeViolation = ''size_violation''"
| "FindingKind_text FindingPathCollision = ''path_collision''"
| "FindingKind_text FindingSecret = ''secret''"
| "FindingKind_text FindingSecretScanSkipped = ''secret_scan_skipped''"
| "FindingKind_text FindingCommitPlanSecret = ''commit_plan_secret''"
| "FindingKind_text (FindingKindOther s) = s"

definition AllFindingKinds :: "FindingKind list" where
  "AllFindingKinds = [FindingNonRegularChange, FindingInvalidPathEntry, FindingBlobOmitted,
     FindingAutomationControlPath, FindingReviewerInstructionPath, FindingGitMetadataPath,
     FindingVerificationRecipePath, FindingPromptsPolicyPath, FindingEgressTrustPath, FindingMaterialityRulesPath,
     FindingAllowlistViolation, FindingSizeViolation, FindingPathCollision, FindingSecret, FindingSecretScanSkipped,
     FindingCommitPlanSecret]"

fun FindingKind_valid :: "FindingKind \<Rightarrow> bool" where
  "FindingKind_valid (FindingKindOther _) = False"
| "FindingKind_valid _ = True"

definition blocksCommit :: "FindingKind \<Rightarrow> bool" where
  "blocksCommit k = (case k of
     FindingNonRegularChange \<Rightarrow> True | FindingInvalidPathEntry \<Rightarrow> True | FindingBlobOmitted \<Rightarrow> True
   | FindingCommitPlanSecret \<Rightarrow> True | _ \<Rightarrow> False)"

record Finding =
  fnd_path :: string
  fnd_path_hex :: string
  fnd_kind :: FindingKind
  fnd_rule :: string
  fnd_line :: int
  fnd_detail :: string

definition path_finding :: "string \<Rightarrow> FindingKind \<Rightarrow> string \<Rightarrow> Finding" where
  "path_finding p k detail = \<lparr>fnd_path = p, fnd_path_hex = [], fnd_kind = k, fnd_rule = [], fnd_line = 0, fnd_detail = detail\<rparr>"

definition hex_finding :: "string \<Rightarrow> FindingKind \<Rightarrow> string \<Rightarrow> Finding" where
  "hex_finding x k detail = \<lparr>fnd_path = [], fnd_path_hex = x, fnd_kind = k, fnd_rule = [], fnd_line = 0, fnd_detail = detail\<rparr>"

definition change_finding :: "plannedChange \<Rightarrow> FindingKind \<Rightarrow> string \<Rightarrow> Finding" where
  "change_finding c k detail = (if pl_path_hex c \<noteq> [] then hex_finding (pl_path_hex c) k detail
     else path_finding (pl_path c) k detail)"

section \<open>The policy\<close>

datatype FindingProfile = FindingProfilePublishStrict | FindingProfileSpecification | FindingProfileOther string

text \<open>\<open>CommitPlan\<close> and \<open>MessageRuleset\<close> hold the text of their enum.\<close>

record Policy =
  plc_commit_plan :: string
  plc_message_ruleset :: string
  plc_allowlist :: "string list option"
  plc_automation :: "string list"
  plc_reviewer :: "string list"
  plc_git_metadata :: "string list"
  plc_recipes :: "string list"
  plc_prompts :: "string list"
  plc_egress :: "string list"
  plc_materiality :: "string list"
  plc_max_entries :: int
  plc_max_blob_bytes :: int
  plc_max_total_bytes :: int
  plc_max_path_bytes :: int
  plc_max_path_depth :: int
  plc_max_groups :: int
  plc_max_message_bytes :: int
  plc_max_plan_bytes :: int
  plc_max_manifest_bytes :: int
  plc_max_evidence_blob_bytes :: int
  plc_max_evidence_total_bytes :: int
  plc_secret_max_scan :: int
  plc_dir_batch :: int
  plc_finding_profile :: "FindingProfile option"

definition DefaultAutomationControlPatterns :: "string list" where
  "DefaultAutomationControlPatterns = [''.github/workflows/**'', ''.github/actions/**'', ''.github/dependabot.yml'',
     ''.github/hooks/**'', ''**/action.yml'', ''**/action.yaml'', ''.gitlab-ci.yml'', ''Jenkinsfile'', ''.circleci/**'',
     ''azure-pipelines.yml'', ''.travis.yml'']"

definition DefaultReviewerInstructionPatterns :: "string list" where
  "DefaultReviewerInstructionPatterns = [''**/AGENTS.md'', ''**/AGENTS.override.md'', ''.codex/**'', ''**/CLAUDE.md'',
     ''**/CLAUDE.local.md'', ''.claude/**'', ''**/GEMINI.md'', ''.gemini/**'', ''.cursor/**'', ''.cursorrules'',
     ''.windsurfrules'', ''.windsurf/rules/**'', ''.github/copilot-instructions.md'', ''.github/instructions/**'',
     ''.github/agents/**'', ''.github/skills/**'', ''.agents/skills/**'']"

definition DefaultGitMetadataPatterns :: "string list" where
  "DefaultGitMetadataPatterns = [''**/.gitmodules'', ''**/.gitattributes'']"

definition automationControl :: "Policy \<Rightarrow> string list" where
  "automationControl p = DefaultAutomationControlPatterns @ plc_automation p"

definition reviewerInstruction :: "Policy \<Rightarrow> string list" where
  "reviewerInstruction p = DefaultReviewerInstructionPatterns @ plc_reviewer p"

definition gitMetadata :: "Policy \<Rightarrow> string list" where
  "gitMetadata p = DefaultGitMetadataPatterns @ plc_git_metadata p"

definition verificationRecipe :: "Policy \<Rightarrow> string list" where "verificationRecipe p = plc_recipes p"
definition promptsPolicy :: "Policy \<Rightarrow> string list" where "promptsPolicy p = plc_prompts p"
definition egressTrust :: "Policy \<Rightarrow> string list" where "egressTrust p = plc_egress p"
definition materialityRules :: "Policy \<Rightarrow> string list" where "materialityRules p = plc_materiality p"

definition controlPlaneClasses :: "(FindingKind \<times> ControlPlaneCategory \<times> (Policy \<Rightarrow> string list)) list" where
  "controlPlaneClasses = [
     (FindingAutomationControlPath, ControlPlaneWorkflowConfiguration, automationControl),
     (FindingReviewerInstructionPath, ControlPlaneReviewerInstructions, reviewerInstruction),
     (FindingVerificationRecipePath, ControlPlaneVerificationRecipes, verificationRecipe),
     (FindingPromptsPolicyPath, ControlPlanePromptsAndPolicy, promptsPolicy),
     (FindingEgressTrustPath, ControlPlaneEgressAndTrust, egressTrust),
     (FindingMaterialityRulesPath, ControlPlaneMaterialityRules, materialityRules)]"

definition categoryFor :: "FindingKind \<Rightarrow> ControlPlaneCategory option" where
  "categoryFor k = map_option (\<lambda>(_, category, _). category) (find (\<lambda>(kind, _, _). kind = k) controlPlaneClasses)"

section \<open>Dispositions\<close>

definition AllFindingProfiles :: "FindingProfile list" where
  "AllFindingProfiles = [FindingProfilePublishStrict, FindingProfileSpecification]"

fun FindingProfile_valid :: "FindingProfile \<Rightarrow> bool" where
  "FindingProfile_valid (FindingProfileOther _) = False"
| "FindingProfile_valid _ = True"

definition kind_advisory :: "FindingKind \<Rightarrow> bool" where
  "kind_advisory k = (case categoryFor k of None \<Rightarrow> False | Some category \<Rightarrow> ControlPlaneCategory_Advisory category)"

definition fatalForSpecification :: "FindingKind \<Rightarrow> bool" where
  "fatalForSpecification k = (case k of
     FindingNonRegularChange \<Rightarrow> True | FindingInvalidPathEntry \<Rightarrow> True | FindingBlobOmitted \<Rightarrow> True
   | FindingCommitPlanSecret \<Rightarrow> True
   | FindingSecret \<Rightarrow> True | FindingAutomationControlPath \<Rightarrow> True | FindingReviewerInstructionPath \<Rightarrow> True
   | FindingVerificationRecipePath \<Rightarrow> True | FindingPromptsPolicyPath \<Rightarrow> True | FindingEgressTrustPath \<Rightarrow> True
   | FindingMaterialityRulesPath \<Rightarrow> True | FindingGitMetadataPath \<Rightarrow> True
   | FindingAllowlistViolation \<Rightarrow> False | FindingSizeViolation \<Rightarrow> False | FindingPathCollision \<Rightarrow> False
   | FindingSecretScanSkipped \<Rightarrow> False
   | FindingKindOther _ \<Rightarrow> True)"

definition fatalForProfile :: "FindingProfile option \<Rightarrow> FindingKind \<Rightarrow> bool" where
  "fatalForProfile profile k = (case profile of
     None \<Rightarrow> \<not> kind_advisory k
   | Some FindingProfilePublishStrict \<Rightarrow> \<not> kind_advisory k
   | Some FindingProfileSpecification \<Rightarrow> fatalForSpecification k
   | Some (FindingProfileOther _) \<Rightarrow> True)"

definition Fatal :: "FindingProfile option \<Rightarrow> Finding \<Rightarrow> bool" where
  "Fatal profile f = fatalForProfile profile (fnd_kind f)"

definition Finding_Advisory :: "Finding \<Rightarrow> bool" where
  "Finding_Advisory f = kind_advisory (fnd_kind f)"

definition AllAdvisory :: "Finding list \<Rightarrow> bool" where
  "AllAdvisory fs = list_all Finding_Advisory fs"

section \<open>Applying the policy\<close>

definition matchAny :: "(string \<Rightarrow> string) \<Rightarrow> string list \<Rightarrow> string \<Rightarrow> bool \<Rightarrow> bool" where
  "matchAny foldc patterns p fold_case = MatchAny foldc patterns p fold_case"

definition MatchesAllowlist :: "(string \<Rightarrow> string) \<Rightarrow> string list \<Rightarrow> string \<Rightarrow> bool" where
  "MatchesAllowlist foldc patterns p = matchAny foldc patterns p False"

text \<open>A 64-bit amount in a finding's text.\<close>

definition int_text :: "int \<Rightarrow> string" where
  "int_text n = (if n < 0 then CHR ''-'' # decimal (nat (- n)) else decimal (nat n))"

text \<open>The classes, the git metadata class and the allowlist on one change.\<close>

definition class_findings :: "(string \<Rightarrow> string) \<Rightarrow> Policy \<Rightarrow> plannedChange \<Rightarrow> Finding list" where
  "class_findings foldc pol c =
     (let classPath = NormalizeAliases (pl_path c); kind = ChangeKind_text (pl_kind c)
      in map (\<lambda>(k, _, _). change_finding c k kind)
           (filter (\<lambda>(_, _, patterns). matchAny foldc (patterns pol) classPath True) controlPlaneClasses)
         @ (if matchAny foldc (gitMetadata pol) classPath True then [change_finding c FindingGitMetadataPath kind] else [])
         @ (case plc_allowlist pol of
              None \<Rightarrow> []
            | Some allowlist \<Rightarrow> if \<not> matchAny foldc allowlist (pl_path c) False
                then [change_finding c FindingAllowlistViolation kind] else []))"

definition size_exempt :: "plannedChange \<Rightarrow> bool" where
  "size_exempt c \<longleftrightarrow> pl_kind c = ChangeDeleted \<or> pl_from_base c"

definition size_findings :: "Policy \<Rightarrow> plannedChange \<Rightarrow> Finding list" where
  "size_findings pol c =
     (if \<not> size_exempt c \<and> 0 < plc_max_blob_bytes pol \<and> plc_max_blob_bytes pol < pl_size c
      then [path_finding (pl_path c) FindingSizeViolation
        (int_text (pl_size c) @ '' bytes exceed the per-file cap of '' @ int_text (plc_max_blob_bytes pol))]
      else [])"

text \<open>The loop carries the findings and the content bytes, a 64-bit sum.\<close>

fun apply_changes :: "(string \<Rightarrow> string) \<Rightarrow> Policy \<Rightarrow> Finding list \<Rightarrow> int \<Rightarrow> plannedChange list \<Rightarrow> Finding list \<times> int" where
  "apply_changes foldc pol fs content [] = (fs, content)"
| "apply_changes foldc pol fs content (c # cs) =
     apply_changes foldc pol (fs @ class_findings foldc pol c @ size_findings pol c)
       (if size_exempt c then content else wrap64 (content + pl_size c)) cs"

definition applyPolicy :: "(string \<Rightarrow> string) \<Rightarrow> plannedChange list \<Rightarrow> Policy \<Rightarrow> Finding list" where
  "applyPolicy foldc changes pol = (case apply_changes foldc pol [] 0 changes of (fs, content) \<Rightarrow>
     if 0 < plc_max_total_bytes pol \<and> plc_max_total_bytes pol < content
     then fs @ [path_finding [] FindingSizeViolation
       (''change set carries '' @ int_text content @ '' content bytes, cap '' @ int_text (plc_max_total_bytes pol))]
     else fs)"

section \<open>The lift\<close>

definition candidate_detail :: "Finding \<Rightarrow> string" where
  "candidate_detail f = (if fnd_rule f \<noteq> [] \<or> fnd_line f \<noteq> 0
     then (let loc = ''rule='' @ fnd_rule f @ '' line='' @ int_text (fnd_line f)
       in if fnd_detail f = [] then loc else fnd_detail f @ ''; '' @ loc)
     else fnd_detail f)"

definition Finding_Candidate :: "Finding \<Rightarrow> CandidateFinding" where
  "Finding_Candidate f =
     (let cf = \<lparr>cf_class = FindingClassOther [], cf_category = None, cf_origin = FindingOriginImport,
           cf_kind = FindingKind_text (fnd_kind f), cf_path = fnd_path f, cf_path_hex = fnd_path_hex f,
           cf_detail = candidate_detail f, cf_disposition = DispositionBlocking, cf_waiver = None\<rparr>;
         control = cf\<lparr>cf_class := FindingClassControlPlane,
           cf_category := Some (case categoryFor (fnd_kind f) of None \<Rightarrow> ControlPlaneCategoryOther [] | Some c \<Rightarrow> c),
           cf_disposition := (if kind_advisory (fnd_kind f) then DispositionAdvisory else DispositionBlocking)\<rparr>
      in case fnd_kind f of
           FindingNonRegularChange \<Rightarrow> cf\<lparr>cf_class := FindingClassImportIntegrity\<rparr>
         | FindingInvalidPathEntry \<Rightarrow> cf\<lparr>cf_class := FindingClassImportIntegrity\<rparr>
         | FindingBlobOmitted \<Rightarrow> cf\<lparr>cf_class := FindingClassImportIntegrity\<rparr>
         | FindingAllowlistViolation \<Rightarrow> cf\<lparr>cf_class := FindingClassRepoChangePolicy\<rparr>
         | FindingSizeViolation \<Rightarrow> cf\<lparr>cf_class := FindingClassRepoChangePolicy\<rparr>
         | FindingPathCollision \<Rightarrow> cf\<lparr>cf_class := FindingClassRepoChangePolicy\<rparr>
         | FindingGitMetadataPath \<Rightarrow> cf\<lparr>cf_class := FindingClassRepoChangePolicy\<rparr>
         | FindingSecret \<Rightarrow> cf\<lparr>cf_class := FindingClassSecret\<rparr>
         | FindingSecretScanSkipped \<Rightarrow> cf\<lparr>cf_class := FindingClassSecret\<rparr>
         | FindingCommitPlanSecret \<Rightarrow> cf\<lparr>cf_class := FindingClassSecret\<rparr>
         | FindingAutomationControlPath \<Rightarrow> control
         | FindingReviewerInstructionPath \<Rightarrow> control
         | FindingVerificationRecipePath \<Rightarrow> control
         | FindingPromptsPolicyPath \<Rightarrow> control
         | FindingEgressTrustPath \<Rightarrow> control
         | FindingMaterialityRulesPath \<Rightarrow> control
         | FindingKindOther _ \<Rightarrow> cf)"

lemma categoryFor_simps:
  "categoryFor k = (case k of FindingAutomationControlPath \<Rightarrow> Some ControlPlaneWorkflowConfiguration
     | FindingReviewerInstructionPath \<Rightarrow> Some ControlPlaneReviewerInstructions
     | FindingVerificationRecipePath \<Rightarrow> Some ControlPlaneVerificationRecipes
     | FindingPromptsPolicyPath \<Rightarrow> Some ControlPlanePromptsAndPolicy
     | FindingEgressTrustPath \<Rightarrow> Some ControlPlaneEgressAndTrust
     | FindingMaterialityRulesPath \<Rightarrow> Some ControlPlaneMaterialityRules | _ \<Rightarrow> None)"
  by (cases k) (simp_all add: categoryFor_def controlPlaneClasses_def)

lemma kind_advisory_iff: "kind_advisory k \<longleftrightarrow> k = FindingReviewerInstructionPath"
  by (cases k) (simp_all add: kind_advisory_def categoryFor_simps)

lemma FindingKind_text_nonempty: "FindingKind_valid k \<Longrightarrow> FindingKind_text k \<noteq> []"
  by (cases k) simp_all

lemma Candidate_disposition:
  "cf_disposition (Finding_Candidate f) = (if kind_advisory (fnd_kind f) then DispositionAdvisory else DispositionBlocking)"
  by (cases "fnd_kind f") (simp_all add: Finding_Candidate_def kind_advisory_iff Let_def)

lemma Candidate_fields:
  "cf_path (Finding_Candidate f) = fnd_path f" "cf_path_hex (Finding_Candidate f) = fnd_path_hex f"
  "cf_kind (Finding_Candidate f) = FindingKind_text (fnd_kind f)" "cf_detail (Finding_Candidate f) = candidate_detail f"
  "cf_waiver (Finding_Candidate f) = None" "cf_origin (Finding_Candidate f) = FindingOriginImport"
  by (cases "fnd_kind f"; simp add: Finding_Candidate_def Let_def)+

text \<open>
  A finding lifts to a well-formed candidate finding exactly when its kind is registered and it
  names at most one form of its path; the lift blocks publication except for the reviewer
  instructions, so the import's clean bar and the gate's agree, and only the kinds of repository
  policy can be waived.
\<close>

theorem Candidate_well_formed:
  "(CandidateFinding_Validate (Finding_Candidate f) = None
      \<longleftrightarrow> FindingKind_valid (fnd_kind f) \<and> (fnd_path f = [] \<or> fnd_path_hex f = []))
   \<and> findingBlocks (cf_disposition (Finding_Candidate f)) = (\<not> Finding_Advisory f)
   \<and> Waivable (cf_class (Finding_Candidate f)) = (fnd_kind f \<in>
       {FindingAllowlistViolation, FindingSizeViolation, FindingPathCollision, FindingGitMetadataPath})"
  by (cases "fnd_kind f") (auto simp: CandidateFinding_Validate_def validation validate_category_def
      validate_disposition_def Finding_Candidate_def Let_def kind_advisory_iff Finding_Advisory_def
      categoryFor_simps findingBlocks_def)

section \<open>What the policy finds\<close>

lemma apply_changes_append: "fst (apply_changes foldc pol fs content cs)
    = fs @ concat (map (\<lambda>c. class_findings foldc pol c @ size_findings pol c) cs)"
  by (induction cs arbitrary: fs content) simp_all

lemma apply_changes_bytes: "snd (apply_changes foldc pol fs content cs)
    = foldl (\<lambda>n c. if size_exempt c then n else wrap64 (n + pl_size c)) content cs"
  by (induction cs arbitrary: fs content) simp_all

lemma applyPolicy_eq: "applyPolicy foldc cs pol = concat (map (\<lambda>c. class_findings foldc pol c @ size_findings pol c) cs)
    @ (let content = foldl (\<lambda>n c. if size_exempt c then n else wrap64 (n + pl_size c)) 0 cs in
       if 0 < plc_max_total_bytes pol \<and> plc_max_total_bytes pol < content then [path_finding [] FindingSizeViolation
         (''change set carries '' @ int_text content @ '' content bytes, cap '' @ int_text (plc_max_total_bytes pol))] else [])"
  using apply_changes_append [of foldc pol "[]" 0 cs] apply_changes_bytes [of foldc pol "[]" 0 cs]
  by (simp add: applyPolicy_def case_prod_unfold Let_def)

lemma change_finding_kind [simp]: "fnd_kind (change_finding c k d) = k"
  by (simp add: change_finding_def hex_finding_def path_finding_def)

lemma path_finding_kind [simp]: "fnd_kind (path_finding p k d) = k"
  by (simp add: path_finding_def)

text \<open>The patterns of a path class.\<close>

definition class_patterns :: "FindingKind \<Rightarrow> Policy \<Rightarrow> string list option" where
  "class_patterns k pol = (case k of
     FindingAutomationControlPath \<Rightarrow> Some (automationControl pol)
   | FindingReviewerInstructionPath \<Rightarrow> Some (reviewerInstruction pol)
   | FindingVerificationRecipePath \<Rightarrow> Some (verificationRecipe pol)
   | FindingPromptsPolicyPath \<Rightarrow> Some (promptsPolicy pol)
   | FindingEgressTrustPath \<Rightarrow> Some (egressTrust pol)
   | FindingMaterialityRulesPath \<Rightarrow> Some (materialityRules pol)
   | FindingGitMetadataPath \<Rightarrow> Some (gitMetadata pol)
   | _ \<Rightarrow> None)"

lemma class_findings_set: "f \<in> set (class_findings foldc pol c) \<longleftrightarrow>
    (let kind = ChangeKind_text (pl_kind c); classPath = NormalizeAliases (pl_path c) in
      (\<exists>(k, category, patterns) \<in> set controlPlaneClasses. f = change_finding c k kind \<and> matchAny foldc (patterns pol) classPath True)
    \<or> f = change_finding c FindingGitMetadataPath kind \<and> matchAny foldc (gitMetadata pol) classPath True
    \<or> (\<exists>allowlist. plc_allowlist pol = Some allowlist \<and> f = change_finding c FindingAllowlistViolation kind
        \<and> \<not> matchAny foldc allowlist (pl_path c) False))"
proof -
  have "f \<in> set (map (\<lambda>(k, _, _). change_finding c k kind) (filter (\<lambda>(_, _, patterns). q patterns) xs))
      \<longleftrightarrow> (\<exists>(k, category, patterns) \<in> set xs. f = change_finding c k kind \<and> q patterns)" for kind q
    and xs :: "(FindingKind \<times> ControlPlaneCategory \<times> (Policy \<Rightarrow> string list)) list"
    by force
  then show ?thesis by (cases "plc_allowlist pol") (simp_all add: class_findings_def Let_def)
qed

lemma class_findings_kind:
  assumes "class_patterns k pol = Some patterns"
  shows "f \<in> set (class_findings foldc pol c) \<and> fnd_kind f = k
    \<longleftrightarrow> f = change_finding c k (ChangeKind_text (pl_kind c)) \<and> MatchAny foldc patterns (NormalizeAliases (pl_path c)) True"
    (is "?l \<longleftrightarrow> ?r")
proof
  assume l: ?l
  then have "\<exists>j. f = change_finding c j (ChangeKind_text (pl_kind c))" by (auto simp: class_findings_set Let_def)
  with l have f: "f = change_finding c k (ChangeKind_text (pl_kind c))" by auto
  from l assms show ?r unfolding f class_findings_set Let_def
    by (elim conjE disjE bexE exE) (cases k; auto simp: class_patterns_def controlPlaneClasses_def matchAny_def
      dest: arg_cong [of _ _ fnd_kind])+
next
  assume r: ?r
  with assms show ?l unfolding class_findings_set Let_def
    by (cases k) (simp_all add: class_patterns_def controlPlaneClasses_def matchAny_def)
qed

lemma applyPolicy_class_iff:
  assumes "class_patterns k pol = Some patterns"
  shows "f \<in> set (applyPolicy foldc cs pol) \<and> fnd_kind f = k \<longleftrightarrow>
    (\<exists>c \<in> set cs. f = change_finding c k (ChangeKind_text (pl_kind c))
       \<and> MatchAny foldc patterns (NormalizeAliases (pl_path c)) True)"
proof -
  have "f \<in> set (size_findings pol c) \<Longrightarrow> fnd_kind f = FindingSizeViolation" for c
    by (auto simp: size_findings_def split: if_split_asm)
  moreover have "k \<noteq> FindingSizeViolation" using assms by (auto simp: class_patterns_def)
  ultimately have "f \<in> set (applyPolicy foldc cs pol) \<and> fnd_kind f = k
      \<longleftrightarrow> (\<exists>c \<in> set cs. f \<in> set (class_findings foldc pol c) \<and> fnd_kind f = k)"
    by (auto simp: applyPolicy_eq Let_def)
  then show ?thesis by (simp add: class_findings_kind [OF assms])
qed

text \<open>
  The path classes are exact and fire on the name a checkout would materialize: a finding of a
  class is raised precisely for the changes, deletions included, whose path with every filesystem
  alias normalized away matches a pattern of the class under case folding; each carries its path.
\<close>

theorem applyPolicy_classes:
  assumes "class_patterns k pol = Some patterns"
  shows "f \<in> set (applyPolicy foldc cs pol) \<and> fnd_kind f = k \<longleftrightarrow>
    (\<exists>c \<in> set cs. f = change_finding c k (ChangeKind_text (pl_kind c))
       \<and> MatchAny foldc patterns (NormalizeAliases (pl_path c)) True)"
  by (rule applyPolicy_class_iff [OF assms])

lemma default_patterns_kept: "set DefaultAutomationControlPatterns \<subseteq> set (automationControl pol)"
  "set DefaultReviewerInstructionPatterns \<subseteq> set (reviewerInstruction pol)"
  "set DefaultGitMetadataPatterns \<subseteq> set (gitMetadata pol)"
  by (auto simp: automationControl_def reviewerInstruction_def gitMetadata_def)

lemma matched_default: "MatchAny foldc defaults p f \<Longrightarrow> set defaults \<subseteq> set patterns \<Longrightarrow> MatchAny foldc patterns p f"
  by (rule MatchAny_mono)

text \<open>
  C5: no candidate that touches an automation-control path is ever authorized: whatever the policy
  adds, whatever other findings any stage reports and in whatever order, and whichever alias of the
  path it uses, a record built over the lifted findings of the import does not authorize publication.
\<close>

theorem automation_never_published:
  assumes "\<And>x. seal x \<noteq> []"
    and "c \<in> set cs" "MatchAny foldc DefaultAutomationControlPatterns (NormalizeAliases (pl_path c)) True"
    and "set (map Finding_Candidate (applyPolicy foldc cs pol)) \<subseteq> set (cai_findings x)"
    and "NewCandidateAuthorization enc seal x = Inr a"
  shows "\<not> ca_authorizes a"
proof -
  let ?f = "change_finding c FindingAutomationControlPath (ChangeKind_text (pl_kind c))"
  have "?f \<in> set (applyPolicy foldc cs pol)"
    using applyPolicy_class_iff [of FindingAutomationControlPath pol "automationControl pol" ?f foldc cs] assms(2,3)
      matched_default [OF _ default_patterns_kept(1)] by (auto simp: class_patterns_def)
  with assms(4) have "Finding_Candidate ?f \<in> set (cai_findings x)" by auto
  moreover have "cf_disposition (Finding_Candidate ?f) = DispositionBlocking"
    by (simp add: Candidate_disposition kind_advisory_iff)
  ultimately show ?thesis
    using NewCandidateAuthorization_iff [of seal enc x, OF assms(1)] assms(5) by fastforce
qed

text \<open>
  For the findings of an import alone, the gate and the import's own clean bar agree: the record
  authorizes publication exactly when verification passed and every finding is advisory; and a finding
  that is not fatal to a publishing pipeline never blocks the record.
\<close>

theorem import_gate_agrees:
  assumes "\<And>x. seal x \<noteq> []" "cai_findings x = map Finding_Candidate fs"
    and "NewCandidateAuthorization enc seal x = Inr a"
  shows "(ca_authorizes a \<longleftrightarrow> cai_outcome x = VerificationPassed \<and> AllAdvisory fs)
    \<and> (AllAdvisory fs \<longleftrightarrow> (\<forall>f \<in> set fs. \<not> Fatal None f))"
proof -
  have "cf_disposition (Finding_Candidate f) = DispositionWaived \<or> cf_disposition (Finding_Candidate f) = DispositionAdvisory
      \<longleftrightarrow> Finding_Advisory f" for f
    by (simp add: Candidate_disposition Finding_Advisory_def)
  then have "ca_authorizes a \<longleftrightarrow> cai_outcome x = VerificationPassed \<and> AllAdvisory fs"
    using NewCandidateAuthorization_iff [of seal enc x, OF assms(1)] assms(2,3)
    by (simp add: AllAdvisory_def list_all_iff)
  moreover have "AllAdvisory fs \<longleftrightarrow> (\<forall>f \<in> set fs. \<not> Fatal None f)"
    by (simp add: AllAdvisory_def list_all_iff Fatal_def fatalForProfile_def Finding_Advisory_def)
  ultimately show ?thesis by blast
qed

text \<open>
  What each profile tolerates: publishing tolerates the reviewer instructions alone; the
  specification profile tolerates the workspace debris alone (allowlist, size, collision, unscanned);
  an unknown profile tolerates nothing; and what blocks the commit is fatal under every profile.
\<close>

theorem Fatal_exact:
  "(\<not> Fatal profile f \<longleftrightarrow> (case profile of
      Some FindingProfileSpecification \<Rightarrow> fnd_kind f \<in>
        {FindingAllowlistViolation, FindingSizeViolation, FindingPathCollision, FindingSecretScanSkipped}
    | Some (FindingProfileOther _) \<Rightarrow> False
    | _ \<Rightarrow> fnd_kind f = FindingReviewerInstructionPath))
   \<and> (blocksCommit (fnd_kind f) \<longrightarrow> Fatal profile f)"
  by (cases "fnd_kind f")
    (simp_all add: Fatal_def fatalForProfile_def fatalForSpecification_def kind_advisory_iff blocksCommit_def
      split: option.split FindingProfile.split)


section \<open>Witnesses\<close>

definition example_policy :: Policy where
  "example_policy = \<lparr>plc_commit_plan = [], plc_message_ruleset = [], plc_allowlist = Some [''src/**''], plc_automation = [],
     plc_reviewer = [], plc_git_metadata = [], plc_recipes = [''ci/recipe.json''], plc_prompts = [], plc_egress = [],
     plc_materiality = [], plc_max_entries = 0, plc_max_blob_bytes = 30, plc_max_total_bytes = 0, plc_max_path_bytes = 0,
     plc_max_path_depth = 0, plc_max_groups = 0, plc_max_message_bytes = 0, plc_max_plan_bytes = 0,
     plc_max_manifest_bytes = 0, plc_max_evidence_blob_bytes = 0, plc_max_evidence_total_bytes = 0, plc_secret_max_scan = 0,
     plc_dir_batch = 0, plc_finding_profile = None\<rparr>"

text \<open>A workflow file behind a changed case, a trailing dot and an NTFS stream suffix.\<close>

definition example_change :: "plannedChange" where
  "example_change = \<lparr>pl_path = ''.GitHub./workflows/ci.yml:x'', pl_kind = ChangeAdded, pl_mode = ''100644'', pl_oid = ''bb'',
     pl_digest = ''e'', pl_size = 20, pl_verified_path = [], pl_path_hex = [], pl_from_base = False\<rparr>"

text \<open>A fold of two letters stands for the full one.\<close>

definition example_fold :: "string \<Rightarrow> string" where
  "example_fold = map (\<lambda>c. if c = CHR ''G'' then CHR ''g'' else if c = CHR ''H'' then CHR ''h'' else c)"

lemma example_alias: "Split (FoldPath example_fold (NormalizeAliases (pl_path example_change))) SLASH
    = [''.github'', ''workflows'', ''ci.yml'']"
proof -
  have "Split (pl_path example_change) SLASH = [''.GitHub.'', ''workflows'', ''ci.yml:x'']" by code_simp
  moreover have "list_all (\<lambda>c. list_all (\<lambda>x. byte x < 128) c) [''.GitHub.'', ''workflows'', ''ci.yml:x'']" by code_simp
  ultimately have "NormalizeAliases (pl_path example_change) = ''.GitHub/workflows/ci.yml''"
    by (simp add: NormalizeAliases_def normalizeComponentAliases_def strip_ignorable_ascii list_all_iff TrimRightSet_def)
  moreover have "Split (FoldPath example_fold ''.GitHub/workflows/ci.yml'') SLASH = [''.github'', ''workflows'', ''ci.yml'']"
    by code_simp
  ultimately show ?thesis by simp
qed

lemma example_workflow: "MatchAny example_fold DefaultAutomationControlPatterns (NormalizeAliases (pl_path example_change)) True"
proof -
  have "Split (FoldPath example_fold ''.github/workflows/**'') SLASH = [''.github'', ''workflows'', ''**'']" by code_simp
  moreover have "matchSegments [''.github'', ''workflows'', ''**''] [''.github'', ''workflows'', ''ci.yml'']"
    using matchSegments_spans [of "[]" "[]" "[''ci.yml'']"]
    by (simp add: matchSegments_segment Match_literal literal_def)
  ultimately have "MatchAny example_fold [''.github/workflows/**''] (NormalizeAliases (pl_path example_change)) True"
    by (simp add: MatchAny_def example_alias)
  then show ?thesis by (rule MatchAny_mono [rotated]) (simp add: DefaultAutomationControlPatterns_def)
qed

text \<open>Every finding the policy could raise on the change, and one of the verification stage.\<close>

definition example_raised :: "Finding list" where
  "example_raised = map (\<lambda>k. change_finding example_change k ''added'')
     (map fst controlPlaneClasses @ [FindingGitMetadataPath, FindingAllowlistViolation])"

lemma example_raised: "set (applyPolicy example_fold [example_change] example_policy) \<subseteq> set example_raised"
proof
  fix f assume "f \<in> set (applyPolicy example_fold [example_change] example_policy)"
  then have "f \<in> set (class_findings example_fold example_policy example_change)"
    by (simp add: applyPolicy_eq size_findings_def example_policy_def example_change_def Let_def split: if_split_asm)
  then show "f \<in> set example_raised"
    by (auto simp: class_findings_set Let_def example_raised_def controlPlaneClasses_def example_change_def)
qed

definition example_import_input :: CandidateAuthorizationInput where
  "example_import_input = example_authorization_input\<lparr>cai_findings :=
     (last example_findings)\<lparr>cf_origin := FindingOriginVerification\<rparr> # map Finding_Candidate example_raised\<rparr>"

abbreviation example_import_seal :: authorization_seal where
  "example_import_seal \<equiv> Cons CHR ''x'' \<circ> example_authorization_seal"

lemma example_import_new: "NewCandidateAuthorization example_enc example_import_seal example_import_input
    = Inr (built example_enc example_import_seal example_import_input)"
proof -
  have "input_ok example_enc example_import_input" by code_simp
  then show ?thesis by (simp add: New_built)
qed

lemma applyPolicy_classes_witness:
  "change_finding example_change FindingAutomationControlPath ''added''
     \<in> set (applyPolicy example_fold [example_change] example_policy)"
proof -
  have "class_patterns FindingAutomationControlPath example_policy = Some (automationControl example_policy)"
    by (simp add: class_patterns_def)
  from applyPolicy_classes [OF this, of "change_finding example_change FindingAutomationControlPath ''added''" example_fold
      "[example_change]"] example_workflow MatchAny_mono [OF default_patterns_kept(1)]
  show ?thesis by (simp add: example_change_def)
qed

lemma automation_never_published_witness:
  "\<not> ca_authorizes (built example_enc example_import_seal example_import_input)"
proof -
  have "set (map Finding_Candidate (applyPolicy example_fold [example_change] example_policy)) \<subseteq> set (cai_findings example_import_input)"
    using example_raised by (auto simp: example_import_input_def)
  from automation_never_published [OF _ _ example_workflow this example_import_new] show ?thesis by simp
qed

definition example_advisory_input :: CandidateAuthorizationInput where
  "example_advisory_input = example_authorization_input\<lparr>cai_findings :=
     map Finding_Candidate [path_finding ''AGENTS.md'' FindingReviewerInstructionPath ''modified'']\<rparr>"

lemma example_advisory_input: "cai_findings example_advisory_input =
    map Finding_Candidate [path_finding ''AGENTS.md'' FindingReviewerInstructionPath ''modified'']"
  "cai_outcome example_advisory_input = VerificationPassed" "input_ok example_enc example_advisory_input"
  by (simp add: example_advisory_input_def, simp add: example_advisory_input_def example_authorization_input_def) code_simp

lemma import_gate_agrees_witness: "ca_authorizes (built example_enc example_import_seal example_advisory_input)"
proof -
  have n: "NewCandidateAuthorization example_enc example_import_seal example_advisory_input
      = Inr (built example_enc example_import_seal example_advisory_input)"
    using example_advisory_input(3) by (simp add: New_built)
  have "AllAdvisory [path_finding ''AGENTS.md'' FindingReviewerInstructionPath ''modified'']"
    by (simp add: AllAdvisory_def Finding_Advisory_def kind_advisory_iff)
  with import_gate_agrees [OF _ example_advisory_input(1) n] example_advisory_input(2)
  show ?thesis by (metis comp_apply list.distinct(1))
qed

lemma Fatal_exact_witness: "Fatal None (path_finding ''x'' FindingBlobOmitted [])"
  using Fatal_exact [of None "path_finding ''x'' FindingBlobOmitted []"] by (simp add: blocksCommit_def)

end
