(* ===== verification/ExportManifest.thy ===== *)
theory ExportManifest
  imports GoPath ContentAddr
begin

text \<open>
  \<open>daemon/internal/export/manifest.go\<close> and the reserved namespace of \<open>export/commit_plan.go\<close>: the
  manifest of an exported workspace and its validation. A manifest comes from an untrusted workspace;
  the JSON encoding is not modelled.
\<close>

section \<open>Entries\<close>

datatype EntryKind = EntryRegular | EntrySymlink | EntrySubmodule | EntrySpecial | EntryUnusualMode
  | EntryGitDir | EntryInvalidPath | EntryKindOther string

fun EntryKind_valid :: "EntryKind \<Rightarrow> bool" where
  "EntryKind_valid (EntryKindOther _) = False"
| "EntryKind_valid _ = True"

definition AllEntryKinds :: "EntryKind list" where
  "AllEntryKinds = [EntryRegular, EntrySymlink, EntrySubmodule, EntrySpecial, EntryUnusualMode, EntryGitDir,
     EntryInvalidPath]"

record Entry =
  en_path :: string
  en_path_hex :: string
  en_kind :: EntryKind
  en_mode :: "string option"
  en_size :: "int option"
  en_digest :: "string option"
  en_target :: "string option"
  en_blob_omitted :: bool

record Manifest =
  mf_version :: string
  mf_entries :: "Entry list"

definition ManifestVersion :: string where "ManifestVersion = ''freeside.export.manifest/v1''"

definition EvidenceWorkspaceDir :: string where "EvidenceWorkspaceDir = ''.freeside-evidence''"

section \<open>Names\<close>

definition hex_nibble :: "char \<Rightarrow> nat option" where
  "hex_nibble c = (let b = byte c in
     if 48 \<le> b \<and> b \<le> 57 then Some (b - 48)
     else if 97 \<le> b \<and> b \<le> 102 then Some (b - 87)
     else if 65 \<le> b \<and> b \<le> 70 then Some (b - 55) else None)"

text \<open>\<open>hex.DecodeString\<close>.\<close>

fun hex_decode :: "string \<Rightarrow> string option" where
  "hex_decode [] = Some []"
| "hex_decode [_] = None"
| "hex_decode (a # b # s) = (case (hex_nibble a, hex_nibble b) of
     (Some x, Some y) \<Rightarrow> map_option ((#) (char_of (x * 16 + y))) (hex_decode s)
   | _ \<Rightarrow> None)"

definition ValidCanonicalPath :: "string \<Rightarrow> bool" where
  "ValidCanonicalPath p \<longleftrightarrow> p \<noteq> ''.'' \<and> ValidPath p \<and> ValidString p \<and> NUL \<notin> set p"

definition sortKey :: "Entry \<Rightarrow> string" where
  "sortKey e = (if en_kind e = EntryInvalidPath
     then (case hex_decode (en_path_hex e) of Some raw \<Rightarrow> raw | None \<Rightarrow> en_path_hex e)
     else en_path e)"

section \<open>Validation\<close>

datatype allowedField = fieldNone | fieldMode | fieldTarget

abbreviation ErrKindFieldMismatch :: err where "ErrKindFieldMismatch \<equiv> Sentinel ''ErrKindFieldMismatch''"
abbreviation ErrInvalidPathHex :: err where "ErrInvalidPathHex \<equiv> Sentinel ''ErrInvalidPathHex''"
abbreviation ErrInvalidMode :: err where "ErrInvalidMode \<equiv> Sentinel ''ErrInvalidMode''"
abbreviation ErrInvalidPath :: err where "ErrInvalidPath \<equiv> Sentinel ''ErrInvalidPath''"
abbreviation ErrInvalidEntryKind :: err where "ErrInvalidEntryKind \<equiv> Sentinel ''ErrInvalidEntryKind''"

definition forbidExcept :: "allowedField \<Rightarrow> Entry \<Rightarrow> err option" where
  "forbidExcept allowed e = first_error [
     require (\<not> (en_mode e \<noteq> None \<and> allowed \<noteq> fieldMode)) ErrKindFieldMismatch,
     require (\<not> (en_target e \<noteq> None \<and> allowed \<noteq> fieldTarget)) ErrKindFieldMismatch,
     require (en_size e = None) ErrKindFieldMismatch,
     require (en_digest e = None) ErrKindFieldMismatch,
     require (\<not> en_blob_omitted e) ErrKindFieldMismatch]"

definition validateRegular :: "Entry \<Rightarrow> err option" where
  "validateRegular e = first_error [
     require (\<not> (en_mode e = None \<or> en_mode e \<noteq> Some ''0644'' \<and> en_mode e \<noteq> Some ''0755'')) ErrInvalidMode,
     require (en_size e \<noteq> None) ErrKindFieldMismatch,
     deref (en_size e) (\<lambda>n. require (\<not> n < 0) (Sentinel ''ErrNegativeSize'')),
     (case en_digest e of None \<Rightarrow> Some (Sentinel ''ErrInvalidDigest'')
      | Some d \<Rightarrow> require (Valid d) (Sentinel ''ErrInvalidDigest'')),
     require (en_target e = None) ErrKindFieldMismatch]"

definition validateInvalidPath :: "Entry \<Rightarrow> err option" where
  "validateInvalidPath e = first_error [
     require (en_path e = []) ErrKindFieldMismatch,
     require (\<not> (en_path_hex e = [] \<or> odd (length (en_path_hex e))
       \<or> en_path_hex e \<noteq> map ascii_lower (en_path_hex e))) ErrInvalidPathHex,
     (case hex_decode (en_path_hex e) of
        None \<Rightarrow> Some ErrInvalidPathHex
      | Some raw \<Rightarrow> require (\<not> ValidCanonicalPath raw) ErrInvalidPathHex),
     forbidExcept fieldNone e]"

text \<open>\<open>strconv.ParseUint(s, 8, 32)\<close> of five characters.\<close>

definition octal_value :: "string \<Rightarrow> nat option" where
  "octal_value s = (if list_all (\<lambda>c. 48 \<le> byte c \<and> byte c \<le> 55) s \<and> s \<noteq> []
     then Some (foldl (\<lambda>n c. n * 8 + (byte c - 48)) 0 s) else None)"

definition validUnusualMode :: "string \<Rightarrow> bool" where
  "validUnusualMode s = (if length s \<noteq> 5 \<or> hd s \<noteq> CHR ''0'' then False
     else case octal_value s of None \<Rightarrow> False | Some m \<Rightarrow> m div 512 mod 8 \<noteq> 0)"

definition Entry_Validate :: "Entry \<Rightarrow> err option" where
  "Entry_Validate e = first_error [
     require (EntryKind_valid (en_kind e)) ErrInvalidEntryKind,
     (if en_kind e \<noteq> EntryInvalidPath then first_error [
        require (ValidCanonicalPath (en_path e)) ErrInvalidPath,
        require (en_path_hex e = []) ErrKindFieldMismatch] else None),
     (case en_kind e of
        EntryRegular \<Rightarrow> validateRegular e
      | EntrySymlink \<Rightarrow> if en_target e = None then Some ErrKindFieldMismatch else forbidExcept fieldTarget e
      | EntrySubmodule \<Rightarrow> forbidExcept fieldNone e
      | EntrySpecial \<Rightarrow> forbidExcept fieldNone e
      | EntryUnusualMode \<Rightarrow> (case en_mode e of None \<Rightarrow> Some ErrInvalidMode
          | Some m \<Rightarrow> if \<not> validUnusualMode m then Some ErrInvalidMode else forbidExcept fieldMode e)
      | EntryGitDir \<Rightarrow> if en_path e \<noteq> ''.git'' then Some ErrInvalidPath else forbidExcept fieldNone e
      | EntryInvalidPath \<Rightarrow> validateInvalidPath e
      | EntryKindOther _ \<Rightarrow> Some ErrInvalidEntryKind)]"

text \<open>The loop over the entries; the first has no predecessor.\<close>

fun check_entries :: "Entry option \<Rightarrow> Entry list \<Rightarrow> err option" where
  "check_entries prev [] = None"
| "check_entries prev (e # es) = (case Entry_Validate e of
     Some x \<Rightarrow> Some x
   | None \<Rightarrow>
       if (case prev of None \<Rightarrow> False | Some p \<Rightarrow> 0 \<le> Compare (sortKey p) (sortKey e))
       then Some (Sentinel ''ErrEntriesNotCanonical'') else check_entries (Some e) es)"

definition Manifest_Validate :: "Manifest \<Rightarrow> err option" where
  "Manifest_Validate m = (if mf_version m \<noteq> ManifestVersion then Some (Sentinel ''ErrUnknownManifestVersion'')
     else check_entries None (mf_entries m))"

section \<open>The reserved plan namespace\<close>

definition CommitPlanFilename :: string where "CommitPlanFilename = ''.freeside-commit-plan.json''"

definition IsCommitPlanNamespacePath :: "(string \<Rightarrow> string) \<Rightarrow> string \<Rightarrow> bool" where
  "IsCommitPlanNamespacePath foldc p \<longleftrightarrow> foldc (takeWhile (\<lambda>c. c \<noteq> SLASH) p) = foldc CommitPlanFilename"

section \<open>Properties\<close>

lemma Compare_nonneg: "0 \<le> Compare a b \<longleftrightarrow> b \<le> a"
  by (auto simp: Compare_def)

lemma Split_not_Nil' [simp]: "Split s c \<noteq> []"
  by (induction s c rule: Split.induct) (auto split: list.split)

lemma check_entries_None:
  "check_entries prev es = None \<longleftrightarrow> (\<forall>e \<in> set es. Entry_Validate e = None)
     \<and> sorted_wrt (<) (map sortKey es) \<and> (case prev of None \<Rightarrow> True | Some p \<Rightarrow> \<forall>e \<in> set es. sortKey p < sortKey e)"
proof (induction es arbitrary: prev)
  case (Cons e es)
  have "check_entries prev (e # es) = None \<longleftrightarrow> Entry_Validate e = None
      \<and> (case prev of None \<Rightarrow> True | Some p \<Rightarrow> sortKey p < sortKey e) \<and> check_entries (Some e) es = None"
    by (cases prev; cases "Entry_Validate e") (auto simp: Compare_nonneg not_le)
  with Cons.IH [of "Some e"] show ?case
    by (cases prev) (auto intro: less_trans)
qed (simp split: option.split)

text \<open>The paths of the entries that name one are pairwise distinct.\<close>

lemma Manifest_paths:
  assumes "Manifest_Validate m = None"
  shows "distinct (map sortKey (mf_entries m))" "e \<in> set (mf_entries m) \<Longrightarrow> Entry_Validate e = None"
proof -
  from assms have c: "check_entries None (mf_entries m) = None" by (simp add: Manifest_Validate_def split: if_split_asm)
  then have "sorted_wrt (<) (map sortKey (mf_entries m))" by (simp add: check_entries_None)
  then show "distinct (map sortKey (mf_entries m))" by (simp add: strict_sorted_iff)
  from c show "e \<in> set (mf_entries m) \<Longrightarrow> Entry_Validate e = None" by (simp add: check_entries_None)
qed

lemma valid_entry_path:
  "Entry_Validate e = None \<Longrightarrow> en_kind e \<noteq> EntryInvalidPath \<Longrightarrow> ValidCanonicalPath (en_path e)"
  by (simp add: Entry_Validate_def validation)

lemma canonical_components:
  "ValidCanonicalPath p \<Longrightarrow> c \<in> set (Split p SLASH) \<Longrightarrow> c \<noteq> [] \<and> c \<noteq> ''.'' \<and> c \<noteq> ''..''"
  by (auto simp: ValidCanonicalPath_def ValidPath_def list_all_iff)

end
