(* ===== verification/ImportPaths.thy ===== *)
theory ImportPaths
  imports ImportFindings ExportManifest
begin

text \<open>
  \<open>daemon/internal/importer/paths.go\<close> and \<open>collision.go\<close>: the structural gates over the paths of a
  manifest from an untrusted workspace, and the collisions a case- or normalization-insensitive
  checkout would turn the imported tree into. \<open>foldc\<close> is the component fold of \<open>PathFold\<close>. The base
  tree, a Go map, is an association list in its iteration order; \<open>sort.SearchStrings\<close> on a sorted list
  is the first index whose element is not below the key.

  Shown: the gate accepts exactly the manifests without reserved or git-metadata names and without a
  path that is a file and a directory; every disguise of the git directory's name is refused; and the
  collision search is exact although it keeps two owners of a folded name and looks at one leaf.
\<close>

section \<open>Path gates\<close>

abbreviation ErrCommitPlanCollision :: err where "ErrCommitPlanCollision \<equiv> Sentinel ''ErrCommitPlanCollision''"
abbreviation ErrGitPathInjection :: err where "ErrGitPathInjection \<equiv> Sentinel ''ErrGitPathInjection''"
abbreviation ErrPathConflict :: err where "ErrPathConflict \<equiv> Sentinel ''ErrPathConflict''"

definition parentDir :: "string \<Rightarrow> string" where
  "parentDir p = (if SLASH \<notin> set p then [] else rev (tl (dropWhile (\<lambda>c. c \<noteq> SLASH) (rev p))))"

definition isDotGitVariant :: "string \<Rightarrow> bool" where
  "isDotGitVariant c = (let c' = TrimRightSet c ''. '' in EqualFold c' ''.git'' \<or> EqualFold c' ''git~1'')"

definition GitUnsafeComponent :: "string \<Rightarrow> bool" where
  "GitUnsafeComponent c = (if BSLASH \<in> set c then True else isDotGitVariant (NormalizeAliases c))"

lemma parentDir_shorter: "p \<noteq> [] \<Longrightarrow> length (parentDir p) < length p"
proof -
  assume "p \<noteq> []"
  have "length (dropWhile (\<lambda>c. c \<noteq> SLASH) (rev p)) \<le> length p" using length_dropWhile_le [of _ "rev p"] by simp
  with \<open>p \<noteq> []\<close> show ?thesis by (cases "dropWhile (\<lambda>c. c \<noteq> SLASH) (rev p)") (auto simp: parentDir_def)
qed

text \<open>The loop over the ancestors of one path; \<open>dir\<close> is where it stands.\<close>

function ancestor_in :: "string set \<Rightarrow> string \<Rightarrow> bool" where
  "ancestor_in paths dir = (if dir = [] then False else if dir \<in> paths then True else ancestor_in paths (parentDir dir))"
  by pat_completeness auto
termination by (relation "measure (length \<circ> snd)") (simp_all add: parentDir_shorter)

declare ancestor_in.simps [simp del]

definition in_tree :: "Entry \<Rightarrow> bool" where
  "in_tree e \<longleftrightarrow> en_kind e \<noteq> EntryInvalidPath \<and> en_kind e \<noteq> EntryGitDir"

definition gate_names :: "(string \<Rightarrow> string) \<Rightarrow> Entry \<Rightarrow> err option" where
  "gate_names foldc e = (if \<not> in_tree e then None
     else if IsCommitPlanNamespacePath foldc (en_path e) then Some ErrCommitPlanCollision
     else if list_ex GitUnsafeComponent (Split (en_path e) SLASH) then Some ErrGitPathInjection
     else None)"

definition gatePaths :: "(string \<Rightarrow> string) \<Rightarrow> Manifest \<Rightarrow> err option" where
  "gatePaths foldc m =
     (let paths = set (map en_path (filter in_tree (mf_entries m)))
      in first_error [
        first_error (map (gate_names foldc) (mf_entries m)),
        first_error (map (\<lambda>e. if in_tree e \<and> ancestor_in paths (parentDir (en_path e)) then Some ErrPathConflict else None)
          (mf_entries m))])"

section \<open>Collisions\<close>

record treeEntry =
  te_mode :: string
  te_oid :: string

type_synonym base_tree = "(string \<times> treeEntry) list"

definition post_paths :: "plannedChange list \<Rightarrow> base_tree \<Rightarrow> string list" where
  "post_paths cs base =
     (let deleted = map pl_path (filter (\<lambda>c. pl_kind c = ChangeDeleted) cs)
      in sort (remdups (filter (\<lambda>p. p \<notin> set deleted) (map fst base)
           @ map pl_path (filter (\<lambda>c. pl_kind c \<noteq> ChangeDeleted) cs))))"

type_synonym fold_owners = "(string \<times> string list) list"

definition owners_at :: "fold_owners \<Rightarrow> string \<Rightarrow> string list" where
  "owners_at m key = (case map_of m key of None \<Rightarrow> [] | Some os \<Rightarrow> os)"

definition add_owner :: "(string \<Rightarrow> string) \<Rightarrow> fold_owners \<Rightarrow> string \<Rightarrow> fold_owners" where
  "add_owner foldc m p = (let key = FoldPath foldc p; lst = owners_at m key in
     if length lst < 2 \<and> (lst = [] \<or> hd lst \<noteq> p) then AList.update key (lst @ [p]) m else m)"

definition fileOwner :: "(string \<Rightarrow> string) \<Rightarrow> string list \<Rightarrow> fold_owners" where
  "fileOwner foldc post = foldl (add_owner foldc) [] post"

definition leafPartner :: "string list \<Rightarrow> string \<Rightarrow> string option" where
  "leafPartner owners self = find (\<lambda>o'. o' \<noteq> self) owners"

definition otherOwner :: "fold_owners \<Rightarrow> string \<Rightarrow> string \<Rightarrow> string option" where
  "otherOwner m key self = leafPartner (owners_at m key) self"

fun first_some :: "'a option list \<Rightarrow> 'a option" where
  "first_some [] = None"
| "first_some (x # xs) = (case x of None \<Rightarrow> first_some xs | Some a \<Rightarrow> Some a)"

definition SearchStrings :: "string list \<Rightarrow> string \<Rightarrow> nat" where
  "SearchStrings xs key = length (takeWhile (\<lambda>x. x < key) xs)"

text \<open>The partner of one added path: an equal fold, a file where it needs a directory, or a leaf below it.\<close>

definition collision_partner :: "(string \<Rightarrow> string) \<Rightarrow> fold_owners \<Rightarrow> string list \<Rightarrow> string \<Rightarrow> string option" where
  "collision_partner foldc m sortedLeaves p =
     (let comps = Split (FoldPath foldc p) SLASH; key = Join comps SLASH; below = key @ [SLASH];
          i = SearchStrings sortedLeaves below
      in first_some ([otherOwner m key p] @ map (\<lambda>j. otherOwner m (Join (take j comps) SLASH) p) [1..<length comps]
           @ [if i < length sortedLeaves \<and> HasPrefix (sortedLeaves ! i) below
              then leafPartner (owners_at m (sortedLeaves ! i)) p else None]))"

definition detectCollisions :: "(string \<Rightarrow> string) \<Rightarrow> plannedChange list \<Rightarrow> base_tree \<Rightarrow> Finding list" where
  "detectCollisions foldc cs base =
     (let m = fileOwner foldc (post_paths cs base); sortedLeaves = sort (map fst m)
      in concat (map (\<lambda>c. if pl_kind c \<noteq> ChangeAdded \<or> pl_mode c = [] then []
           else (case collision_partner foldc m sortedLeaves (pl_path c) of
               None \<Rightarrow> []
             | Some partner \<Rightarrow> [path_finding (pl_path c) FindingPathCollision
                 (''collides with '' @ partner @ '' under case/normalization folding'')])) cs))"

section \<open>The path gate is exact\<close>

lemma parentDir_split: "SLASH \<notin> set b \<Longrightarrow> parentDir (a @ SLASH # b) = a"
  by (simp add: parentDir_def) (subst dropWhile_append2; auto)

lemma no_parentDir: "SLASH \<notin> set p \<Longrightarrow> parentDir p = []"
  by (simp add: parentDir_def)

lemma ancestor_in_iff: "ancestor_in paths (parentDir p) \<longleftrightarrow> (\<exists>d r. p = d @ SLASH # r \<and> d \<noteq> [] \<and> d \<in> paths)"
proof (induction p rule: length_induct)
  case (1 p)
  show ?case
  proof (cases "SLASH \<in> set p")
    case False
    then show ?thesis by (auto simp: no_parentDir ancestor_in.simps [of _ "[]"])
  next
    case True
    then obtain a b where p: "p = a @ SLASH # b" "SLASH \<notin> set b" using split_list_last by fastforce
    have step: "(\<exists>d r. p = d @ SLASH # r \<and> d \<noteq> [] \<and> d \<in> paths)
        \<longleftrightarrow> a \<noteq> [] \<and> a \<in> paths \<or> (\<exists>d r. a = d @ SLASH # r \<and> d \<noteq> [] \<and> d \<in> paths)"
    proof -
      have "p = d @ SLASH # r \<longleftrightarrow> d = a \<and> r = b \<or> (\<exists>r'. a = d @ SLASH # r' \<and> r = r' @ SLASH # b)" for d r
        using p by (auto simp: append_eq_append_conv2 append_eq_Cons_conv Cons_eq_append_conv)
      then show ?thesis by blast
    qed
    have "length a < length p" by (simp add: p)
    with 1 have IH: "ancestor_in paths (parentDir a) \<longleftrightarrow> (\<exists>d r. a = d @ SLASH # r \<and> d \<noteq> [] \<and> d \<in> paths)" by blast
    have "ancestor_in paths (parentDir p) \<longleftrightarrow> a \<noteq> [] \<and> (a \<in> paths \<or> ancestor_in paths (parentDir a))"
      using parentDir_split [OF p(2), of a] by (simp add: p(1) ancestor_in.simps [of _ a])
    with step IH show ?thesis by auto
  qed
qed

text \<open>
  The path gate is exact: it accepts a manifest precisely when no entry that can enter the tree
  lies in the reserved plan namespace or has a git-unsafe component, and no such path is also a
  directory of another.
\<close>

theorem gatePaths_exact:
  "gatePaths foldc m = None \<longleftrightarrow>
     (let paths = set (map en_path (filter in_tree (mf_entries m))) in
       (\<forall>p \<in> paths. \<not> IsCommitPlanNamespacePath foldc p \<and> (\<forall>c \<in> set (Split p SLASH). \<not> GitUnsafeComponent c))
     \<and> (\<forall>p \<in> paths. \<forall>d \<in> paths. d \<noteq> [] \<longrightarrow> (\<forall>r. p \<noteq> d @ SLASH # r)))"
proof -
  define paths where "paths = set (map en_path (filter in_tree (mf_entries m)))"
  have p: "(\<forall>p \<in> paths. Q p) \<longleftrightarrow> (\<forall>e \<in> set (mf_entries m). in_tree e \<longrightarrow> Q (en_path e))" for Q
    by (auto simp: paths_def)
  have "first_error (map (gate_names foldc) (mf_entries m)) = None \<longleftrightarrow>
      (\<forall>p \<in> paths. \<not> IsCommitPlanNamespacePath foldc p \<and> (\<forall>c \<in> set (Split p SLASH). \<not> GitUnsafeComponent c))"
  proof -
    have "gate_names foldc e = None \<longleftrightarrow> (in_tree e \<longrightarrow> \<not> IsCommitPlanNamespacePath foldc (en_path e)
        \<and> (\<forall>c \<in> set (Split (en_path e) SLASH). \<not> GitUnsafeComponent c))" for e
      by (simp add: gate_names_def list_ex_iff)
    then show ?thesis unfolding first_error_map_None p by simp
  qed
  moreover have "first_error (map (\<lambda>e. if in_tree e \<and> ancestor_in paths (parentDir (en_path e)) then Some ErrPathConflict
      else None) (mf_entries m)) = None \<longleftrightarrow> (\<forall>p \<in> paths. \<not> ancestor_in paths (parentDir p))"
    unfolding first_error_map_None p by simp
  moreover have "(\<forall>p \<in> paths. \<not> ancestor_in paths (parentDir p))
      \<longleftrightarrow> (\<forall>p \<in> paths. \<forall>d \<in> paths. d \<noteq> [] \<longrightarrow> (\<forall>r. p \<noteq> d @ SLASH # r))"
    unfolding ancestor_in_iff by blast
  ultimately show ?thesis unfolding gatePaths_def Let_def paths_def [symmetric] by (simp add: validation)
qed

section \<open>The collision search is exact\<close>

lemma map_of_add_owner: "owners_at (add_owner foldc m p) key =
    (if key = FoldPath foldc p \<and> length (owners_at m key) < 2 \<and> (owners_at m key = [] \<or> hd (owners_at m key) \<noteq> p)
     then owners_at m key @ [p] else owners_at m key)"
  by (auto simp: add_owner_def owners_at_def Let_def update_conv')

lemma take2_snoc: "take 2 (xs @ [p]) = (if length xs < 2 then take 2 xs @ [p] else take 2 xs)"
  by (cases xs; cases "tl xs") (auto simp: numeral_2_eq_2)

lemma fileOwner_take: "distinct xs \<Longrightarrow> owners_at (fileOwner foldc xs) key = take 2 (filter (\<lambda>p. FoldPath foldc p = key) xs)"
proof (induction xs rule: rev_induct)
  case (snoc p xs)
  let ?ys = "filter (\<lambda>p. FoldPath foldc p = key) xs"
  from snoc have "hd (take 2 ?ys) \<noteq> p" if "?ys \<noteq> []" using that hd_in_set [of ?ys] by auto
  moreover have "length (take 2 ?ys) < 2 \<longleftrightarrow> length ?ys < 2" by auto
  ultimately show ?case
    using snoc by (auto simp: fileOwner_def map_of_add_owner take2_snoc)
qed (simp add: fileOwner_def owners_at_def)

lemma fileOwner_keys: "distinct (map fst (fileOwner foldc xs)) \<and> set (map fst (fileOwner foldc xs)) = FoldPath foldc ` set xs"
proof (induction xs rule: rev_induct)
  case (snoc p xs)
  let ?m = "fileOwner foldc xs" and ?k = "FoldPath foldc p"
  have s: "fileOwner foldc (xs @ [p]) = add_owner foldc ?m p" by (simp add: fileOwner_def)
  have "?k \<in> set (map fst ?m)" if "owners_at ?m ?k \<noteq> []"
    using that by (metis list.set_map map_of_eq_None_iff option.simps(4) owners_at_def)
  with snoc show ?case
    unfolding s add_owner_def Let_def by (cases "owners_at ?m ?k = []") (auto simp: distinct_update dom_update)
qed (simp add: fileOwner_def)

lemma leafPartner_take: "distinct ys \<Longrightarrow> leafPartner (take 2 ys) self = None \<longleftrightarrow> set ys \<subseteq> {self}"
  by (cases ys; cases "tl ys") (auto simp: leafPartner_def numeral_2_eq_2)

lemma leafPartner_Some: "leafPartner ys self = Some q \<Longrightarrow> q \<in> set ys \<and> q \<noteq> self"
  by (auto simp: leafPartner_def find_Some_iff)

lemma otherOwner_None: "distinct post \<Longrightarrow>
    otherOwner (fileOwner foldc post) key self = None \<longleftrightarrow> (\<forall>q \<in> set post. FoldPath foldc q = key \<longrightarrow> q = self)"
  by (auto simp: otherOwner_def fileOwner_take leafPartner_take)

lemma otherOwner_Some: "distinct post \<Longrightarrow> otherOwner (fileOwner foldc post) key self = Some q \<Longrightarrow>
    q \<in> set post \<and> FoldPath foldc q = key \<and> q \<noteq> self"
  by (auto simp: otherOwner_def fileOwner_take dest!: leafPartner_Some in_set_takeD)

lemma prefix_between: "p \<le> x \<Longrightarrow> x \<le> p @ r \<Longrightarrow> HasPrefix x (p :: string)"
proof (induction p arbitrary: x)
  case (Cons a p)
  then show ?case by (cases x) (auto simp: HasPrefix_def)
qed (simp add: HasPrefix_def)

lemma le_append: "(p :: string) \<le> p @ r"
  by (induction p) simp_all

lemma SearchStrings_prefix:
  assumes "sorted xs"
  shows "(SearchStrings xs p < length xs \<and> HasPrefix (xs ! SearchStrings xs p) p) \<longleftrightarrow> (\<exists>x \<in> set xs. HasPrefix x p)"
proof
  assume "\<exists>x \<in> set xs. HasPrefix x p"
  then obtain j r where j: "j < length xs" "xs ! j = p @ r" by (auto simp: in_set_conv_nth HasPrefix_iff)
  let ?i = "SearchStrings xs p"
  have le: "?i \<le> j"
  proof (rule ccontr)
    assume "\<not> ?i \<le> j"
    then have "j < length (takeWhile (\<lambda>x. x < p) xs)" by (simp add: SearchStrings_def)
    then have "xs ! j < p" using nth_mem set_takeWhileD takeWhile_nth by metis
    with j le_append [of p r] show False by simp
  qed
  with j have i: "?i < length xs" by simp
  then have "\<not> xs ! ?i < p" unfolding SearchStrings_def by (rule nth_length_takeWhile)
  then have "p \<le> xs ! ?i" by simp
  moreover have "xs ! ?i \<le> p @ r" using sorted_nth_mono [OF assms le j(1)] j(2) by simp
  ultimately show "?i < length xs \<and> HasPrefix (xs ! ?i) p" using i prefix_between by blast
qed auto

lemma Join_Cons: "xs \<noteq> [] \<Longrightarrow> Join (x # xs) c = x @ c # Join xs c"
  by (cases xs) simp_all

lemma Join_head: "Join ((x # y) # ys) c = x # Join (y # ys) c"
  by (cases ys) simp_all

lemma Join_Split [simp]: "Join (Split s c) c = s"
proof (induction s)
  case (Cons x xs)
  then show ?case by (cases "Split xs c") (auto simp: Join_Cons Join_head)
qed simp

lemma Join_take_Split:
  "(\<exists>j. 1 \<le> j \<and> j < length (Split s c) \<and> d = Join (take j (Split s c)) c) \<longleftrightarrow> (\<exists>r. s = d @ c # r)"
proof (induction s arbitrary: d)
  case (Cons x xs)
  obtain y ys where y: "Split xs c = y # ys" by (cases "Split xs c") auto
  have n: "(\<exists>j. 1 \<le> j \<and> j < Suc n \<and> P j) \<longleftrightarrow> 1 \<le> n \<and> P 1 \<or> (\<exists>j. 1 \<le> j \<and> j < n \<and> P (Suc j))" for n P
    by (auto, metis One_nat_def Suc_leI Suc_le_D Suc_less_eq2 le_neq_implies_less less_Suc_eq_0_disj not_one_le_zero)
  show ?case
  proof (cases "x = c")
    case True
    have t: "Join (take (Suc j) ([] # Split xs c)) c = c # Join (take j (Split xs c)) c" if "1 \<le> j" for j
      using that by (simp add: Join_Cons)
    have "(\<exists>j. 1 \<le> j \<and> j < length (Split (x # xs) c) \<and> d = Join (take j (Split (x # xs) c)) c)
        \<longleftrightarrow> d = [] \<or> (\<exists>d'. d = c # d' \<and> (\<exists>j. 1 \<le> j \<and> j < length (Split xs c) \<and> d' = Join (take j (Split xs c)) c))"
    proof -
      have sp: "Split (x # xs) c = [] # Split xs c" and len: "length ([] # Split xs c) = Suc (length (Split xs c))"
        using True by simp_all
      have "take 1 ([] # Split xs c) = [[]]" "1 \<le> length (Split xs c)" by (simp_all add: y)
      then show ?thesis unfolding sp len n using t by auto
    qed
    with True show ?thesis unfolding Cons.IH by (cases d) auto
  next
    case False
    have t: "Join (take j ((x # y) # ys)) c = x # Join (take j (y # ys)) c" if "1 \<le> j" for j
      using that by (cases j) (simp_all add: Join_head)
    have "(\<exists>j. 1 \<le> j \<and> j < length (Split (x # xs) c) \<and> d = Join (take j (Split (x # xs) c)) c)
        \<longleftrightarrow> (\<exists>d'. d = x # d' \<and> (\<exists>j. 1 \<le> j \<and> j < length (Split xs c) \<and> d' = Join (take j (Split xs c)) c))"
      using False t by (simp add: y) auto
    with False show ?thesis unfolding Cons.IH by (cases d) auto
  qed
qed auto

text \<open>Two folded paths a checkout cannot keep apart: equal, or one a directory of the other.\<close>

definition fold_conflict :: "string \<Rightarrow> string \<Rightarrow> bool" where
  "fold_conflict a b \<longleftrightarrow> a = b \<or> (\<exists>r. a = b @ SLASH # r) \<or> (\<exists>r. b = a @ SLASH # r)"

lemma first_some_None: "first_some xs = None \<longleftrightarrow> (\<forall>x \<in> set xs. x = None)"
  by (induction xs) (auto split: option.splits)

lemma first_some_SomeD: "first_some xs = Some a \<Longrightarrow> Some a \<in> set xs"
  by (induction xs) (auto split: option.splits)


lemma distinct_post: "distinct (post_paths cs base)"
  by (simp add: post_paths_def Let_def)

lemma set_post: "set (post_paths cs base) =
    {p \<in> fst ` set base. \<forall>c \<in> set cs. pl_path c = p \<longrightarrow> pl_kind c \<noteq> ChangeDeleted}
    \<union> pl_path ` {c \<in> set cs. pl_kind c \<noteq> ChangeDeleted}"
  by (auto simp: post_paths_def Let_def)

definition clash :: "(string \<Rightarrow> string) \<Rightarrow> string list \<Rightarrow> string \<Rightarrow> string \<Rightarrow> bool" where
  "clash foldc post p q \<longleftrightarrow> q \<in> set post \<and> q \<noteq> p \<and> fold_conflict (FoldPath foldc q) (FoldPath foldc p)"

abbreviation search_partner :: "(string \<Rightarrow> string) \<Rightarrow> string list \<Rightarrow> string \<Rightarrow> string option" where
  "search_partner foldc post p \<equiv>
     collision_partner foldc (fileOwner foldc post) (sort (map fst (fileOwner foldc post))) p"

text \<open>The leaf the binary search lands on is below the path exactly when some leaf is.\<close>

lemma leaf_below:
  fixes foldc post below
  defines "leaves \<equiv> sort (map fst (fileOwner foldc post))"
  shows "(SearchStrings leaves below < length leaves \<and> HasPrefix (leaves ! SearchStrings leaves below) below)
    \<longleftrightarrow> (\<exists>q \<in> set post. HasPrefix (FoldPath foldc q) below)"
    "i < length leaves \<Longrightarrow> \<exists>q \<in> set post. leaves ! i = FoldPath foldc q"
proof -
  have s: "set leaves = FoldPath foldc ` set post" using fileOwner_keys [of foldc post] by (simp add: leaves_def)
  then show "(SearchStrings leaves below < length leaves \<and> HasPrefix (leaves ! SearchStrings leaves below) below)
    \<longleftrightarrow> (\<exists>q \<in> set post. HasPrefix (FoldPath foldc q) below)"
    using SearchStrings_prefix [of leaves below] by (simp add: leaves_def)
  show "i < length leaves \<Longrightarrow> \<exists>q \<in> set post. leaves ! i = FoldPath foldc q"
    using s nth_mem [of i leaves] by auto
qed

lemma search_partner_Some:
  assumes "distinct post" "search_partner foldc post p = Some q"
  shows "clash foldc post p q"
proof -
  let ?key = "FoldPath foldc p" and ?m = "fileOwner foldc post"
  let ?leaves = "sort (map fst ?m)"
  from first_some_SomeD [OF assms(2) [unfolded collision_partner_def Let_def Join_Split]]
  consider "otherOwner ?m ?key p = Some q"
    | j where "1 \<le> j" "j < length (Split ?key SLASH)" "otherOwner ?m (Join (take j (Split ?key SLASH)) SLASH) p = Some q"
    | i where "HasPrefix (?leaves ! i) (?key @ [SLASH])" "otherOwner ?m (?leaves ! i) p = Some q"
    by (auto simp: otherOwner_def split: if_split_asm)
  then show ?thesis
  proof cases
    case 1
    then show ?thesis using otherOwner_Some [OF assms(1)] by (auto simp: clash_def fold_conflict_def)
  next
    case 2
    then have "\<exists>r. ?key = FoldPath foldc q @ SLASH # r" "q \<in> set post" "q \<noteq> p"
      using otherOwner_Some [OF assms(1) 2(3)] Join_take_Split [of ?key SLASH "FoldPath foldc q"] by auto
    then show ?thesis by (auto simp: clash_def fold_conflict_def)
  next
    case 3
    then show ?thesis using otherOwner_Some [OF assms(1) 3(2)] by (auto simp: clash_def fold_conflict_def HasPrefix_iff)
  qed
qed

lemma search_partner_None:
  assumes "distinct post" "search_partner foldc post p = None"
  shows "\<not> clash foldc post p q"
proof
  assume c: "clash foldc post p q"
  let ?key = "FoldPath foldc p" and ?m = "fileOwner foldc post"
  let ?leaves = "sort (map fst ?m)" and ?below = "?key @ [SLASH]"
  let ?i = "SearchStrings ?leaves ?below"
  from assms(2) [unfolded collision_partner_def Let_def Join_Split first_some_None]
  have n: "otherOwner ?m ?key p = None"
    "\<forall>j. 1 \<le> j \<and> j < length (Split ?key SLASH) \<longrightarrow> otherOwner ?m (Join (take j (Split ?key SLASH)) SLASH) p = None"
    "?i < length ?leaves \<and> HasPrefix (?leaves ! ?i) ?below \<longrightarrow> otherOwner ?m (?leaves ! ?i) p = None"
    by (auto simp: otherOwner_def split: if_split_asm)
  from c have q: "q \<in> set post" "q \<noteq> p" by (simp_all add: clash_def)
  from c consider "FoldPath foldc q = ?key" | r where "?key = FoldPath foldc q @ SLASH # r"
    | r where "FoldPath foldc q = ?key @ SLASH # r"
    unfolding clash_def fold_conflict_def by blast
  then show False
  proof cases
    case 1
    with n(1) q otherOwner_None [OF assms(1)] show False by blast
  next
    case 2
    with Join_take_Split [of ?key SLASH "FoldPath foldc q"] n(2) have "otherOwner ?m (FoldPath foldc q) p = None" by metis
    with q otherOwner_None [OF assms(1)] show False by blast
  next
    case 3
    then have "HasPrefix (FoldPath foldc q) ?below" by (auto simp: HasPrefix_iff)
    with q leaf_below(1) [of foldc post ?below]
    have i: "?i < length ?leaves" "HasPrefix (?leaves ! ?i) ?below" by blast+
    with leaf_below(2) obtain q' where q': "q' \<in> set post" "?leaves ! ?i = FoldPath foldc q'" by blast
    from i(2) q'(2) have "FoldPath foldc q' \<noteq> ?key" by (auto simp: HasPrefix_iff)
    then have "q' \<noteq> p" by auto
    with n(3) i q' otherOwner_None [OF assms(1)] show False by metis
  qed
qed

text \<open>
  C22: the collision findings are exact: they are raised, in order, for precisely the added regular
  files whose folded path equals, lies above or lies below the folded path of another file of the
  tree after the import, untouched base files included; and each names such a file.
\<close>

theorem detectCollisions_exact:
  "map fnd_path (detectCollisions foldc cs base) = map pl_path (filter (\<lambda>c. pl_kind c = ChangeAdded \<and> pl_mode c \<noteq> []
       \<and> (\<exists>q. clash foldc (post_paths cs base) (pl_path c) q)) cs)
   \<and> (\<forall>f \<in> set (detectCollisions foldc cs base). fnd_kind f = FindingPathCollision
       \<and> (\<exists>q. clash foldc (post_paths cs base) (fnd_path f) q
            \<and> fnd_detail f = ''collides with '' @ q @ '' under case/normalization folding''))"
proof -
  let ?post = "post_paths cs base"
  define raise where "raise = (\<lambda>c :: plannedChange. if pl_kind c \<noteq> ChangeAdded \<or> pl_mode c = [] then []
      else (case search_partner foldc ?post (pl_path c) of None \<Rightarrow> []
        | Some q \<Rightarrow> [path_finding (pl_path c) FindingPathCollision
            (''collides with '' @ q @ '' under case/normalization folding'')]))"
  have d: "detectCollisions foldc cs base = concat (map raise cs)"
    by (simp add: detectCollisions_def Let_def raise_def)
  have r: "map fnd_path (raise c) = (if pl_kind c = ChangeAdded \<and> pl_mode c \<noteq> [] \<and> (\<exists>q. clash foldc ?post (pl_path c) q)
      then [pl_path c] else [])" for c
  proof (cases "search_partner foldc ?post (pl_path c)")
    case None
    then show ?thesis using search_partner_None [OF distinct_post None] by (simp add: raise_def)
  next
    case (Some q)
    then show ?thesis using search_partner_Some [OF distinct_post Some] by (auto simp: raise_def path_finding_def)
  qed
  have "map fnd_path (concat (map raise xs)) = map pl_path (filter (\<lambda>c. pl_kind c = ChangeAdded \<and> pl_mode c \<noteq> []
      \<and> (\<exists>q. clash foldc ?post (pl_path c) q)) xs)" for xs
    by (induction xs) (simp_all add: r)
  moreover have "fnd_kind f = FindingPathCollision \<and> (\<exists>q. clash foldc ?post (fnd_path f) q
      \<and> fnd_detail f = ''collides with '' @ q @ '' under case/normalization folding'')" if "f \<in> set (raise c)" for f c
    using that search_partner_Some [OF distinct_post]
    by (auto simp: raise_def path_finding_def split: if_split_asm option.splits)
  ultimately show ?thesis by (auto simp: d)
qed


definition example_base :: base_tree where
  "example_base = [(''docs/guide'', \<lparr>te_mode = ''100644'', te_oid = ''aa''\<rparr>), (''src/main.go'', \<lparr>te_mode = ''100644'', te_oid = ''bb''\<rparr>)]"

lemma detectCollisions_exact_witness: "map fnd_path (detectCollisions example_fold
    [example_change\<lparr>pl_path := ''docs/Guide/x''\<rparr>, example_change\<lparr>pl_path := ''src/b.go''\<rparr>] example_base) = [''docs/Guide/x'']"
proof -
  let ?cs = "[example_change\<lparr>pl_path := ''docs/Guide/x''\<rparr>, example_change\<lparr>pl_path := ''src/b.go''\<rparr>]"
  have p: "set (post_paths ?cs example_base) = {''docs/Guide/x'', ''docs/guide'', ''src/b.go'', ''src/main.go''}"
    by (simp add: post_paths_def Let_def example_base_def example_change_def)
  have f: "FoldPath example_fold ''docs/guide'' = ''docs/guide''" "FoldPath example_fold ''src/main.go'' = ''src/main.go''"
    "FoldPath example_fold ''docs/Guide/x'' = ''docs/guide/x''" "FoldPath example_fold ''src/b.go'' = ''src/b.go''"
    by code_simp+
  have "clash example_fold (post_paths ?cs example_base) ''docs/Guide/x'' ''docs/guide''"
    by (simp add: clash_def p f fold_conflict_def)
  moreover have "\<not> clash example_fold (post_paths ?cs example_base) ''src/b.go'' q" for q
    by (auto simp: clash_def p f fold_conflict_def)
  ultimately have "filter (\<lambda>c. pl_kind c = ChangeAdded \<and> pl_mode c \<noteq> []
      \<and> (\<exists>q. clash example_fold (post_paths ?cs example_base) (pl_path c) q)) ?cs = [hd ?cs]"
    by (auto simp: example_change_def)
  then show ?thesis
    unfolding conjunct1 [OF detectCollisions_exact [of example_fold ?cs example_base]] by simp
qed

section \<open>Disguises of the git directory\<close>

text \<open>
  The spellings of a name that a case-folding or HFS checkout resolves to it: letters in either case,
  with ignorable code points anywhere; and what an NTFS or HFS checkout drops at the end of a name:
  dots, spaces, ignorable code points and the name of a stream.
\<close>

inductive spells :: "string \<Rightarrow> string \<Rightarrow> bool" where
  finish: "spells [] []"
| letter: "spells w s \<Longrightarrow> spells (ascii_lower x # w) (x # s)"
| ignorable: "spells w s \<Longrightarrow> hfsIgnorable r \<Longrightarrow> spells w (EncodeRune r @ s)"

inductive dropped_tail :: "string \<Rightarrow> bool" where
  finish: "dropped_tail []"
| trimmed: "dropped_tail t \<Longrightarrow> x \<in> {CHR ''.'', CHR '' ''} \<Longrightarrow> dropped_tail (x # t)"
| ignorable: "dropped_tail t \<Longrightarrow> hfsIgnorable r \<Longrightarrow> dropped_tail (EncodeRune r @ t)"
| stream: "dropped_tail (CHR '':'' # anything)"

lemma runes_ignorable:
  assumes "hfsIgnorable r"
  shows "runes (EncodeRune r @ s) = r # runes s"
proof -
  have "r \<in> {0x200c, 0x200d, 0x200e, 0x200f, 0x202a, 0x202b, 0x202c, 0x202d, 0x202e, 0x206a, 0x206b, 0x206c, 0x206d,
      0x206e, 0x206f, 0xfeff}"
    using assms by (auto simp: hfsIgnorable_def)
  then have "DecodeRune (EncodeRune r @ s) = (r, 3)"
    by (elim insertE emptyE; simp add: EncodeRune_def byte_def lead_def continuation_def)
  moreover have "length (EncodeRune r) = 3" using assms by (auto simp: EncodeRune_def hfsIgnorable_def)
  ultimately show ?thesis by (subst runes.simps) auto
qed

abbreviation visible :: "string \<Rightarrow> nat list" where
  "visible s \<equiv> filter (\<lambda>r. \<not> hfsIgnorable r) (runes s)"

abbreviation plain :: "string \<Rightarrow> bool" where
  "plain s \<equiv> \<not> list_ex hfsIgnorable (runes s)"

lemma ascii_visible: "byte c < 128 \<Longrightarrow> \<not> hfsIgnorable (byte c)"
  by (simp add: hfsIgnorable_def)

lemma EncodeRune_byte: "byte c < 128 \<Longrightarrow> EncodeRune (byte c) = [c]"
  by (simp add: EncodeRune_def byte_def)

lemma byte_ascii_lower: "byte (ascii_lower x) < 128 \<Longrightarrow> byte x < 128"
  by (auto simp: ascii_lower_def split: if_split_asm)

lemma spells_visible:
  assumes "spells w s" "\<forall>a \<in> set w. byte a < 128"
  shows "\<exists>xs. map ascii_lower xs = w \<and> (\<forall>x \<in> set xs. byte x < 128)
    \<and> (\<forall>rest. visible (s @ rest) = map byte xs @ visible rest) \<and> (\<forall>rest. plain (s @ rest) \<longrightarrow> s = xs \<and> plain rest)"
  using assms
proof (induction rule: spells.induct)
  case (letter w s x)
  then obtain xs where xs: "map ascii_lower xs = w" "\<forall>x \<in> set xs. byte x < 128"
    "\<forall>rest. visible (s @ rest) = map byte xs @ visible rest" "\<forall>rest. plain (s @ rest) \<longrightarrow> s = xs \<and> plain rest" by auto
  have "byte x < 128" using letter.prems byte_ascii_lower by simp
  with xs ascii_visible [of x] show ?case by (intro exI [of _ "x # xs"]) (simp add: runes_ascii)
next
  case (ignorable w s r)
  then show ?case by (simp add: runes_ignorable) blast
qed simp

lemma dropped_visible:
  assumes "dropped_tail t"
  shows "\<exists>ds. set ds \<subseteq> {CHR ''.'', CHR '' ''}
    \<and> (visible t = map byte ds \<or> (\<exists>rs. visible t = map byte ds @ byte CHR '':'' # rs))
    \<and> (plain t \<longrightarrow> t = ds \<or> (\<exists>u. t = ds @ CHR '':'' # u))"
  using assms
proof (induction rule: dropped_tail.induct)
  case (trimmed t x)
  then obtain ds where ds: "set ds \<subseteq> {CHR ''.'', CHR '' ''}"
    "visible t = map byte ds \<or> (\<exists>rs. visible t = map byte ds @ byte CHR '':'' # rs)"
    "plain t \<longrightarrow> t = ds \<or> (\<exists>u. t = ds @ CHR '':'' # u)" by auto
  have "byte x < 128" using trimmed.hyps(2) by (auto simp: byte_def)
  with ds ascii_visible [of x] trimmed.hyps(2) show ?case by (intro exI [of _ "x # ds"]) (simp add: runes_ascii)
next
  case (ignorable t r)
  then show ?case by (simp add: runes_ignorable) blast
next
  case (stream anything)
  have "byte CHR '':'' < 128" by (simp add: byte_def)
  with ascii_visible [of "CHR '':''"] show ?case by (intro exI [of _ "[]"]) (simp add: runes_ascii)
qed simp

lemma concat_EncodeRune: "\<forall>x \<in> set xs. byte x < 128 \<Longrightarrow> concat (map EncodeRune (map byte xs)) = xs"
  by (induction xs) (simp_all add: EncodeRune_byte)

text \<open>Stripped of ignorable code points, a disguise is the name in some case, dots and spaces, and a stream.\<close>

lemma strip_disguise:
  assumes "spells w s" "\<forall>a \<in> set w. byte a < 128" "dropped_tail t"
  obtains xs ds where "map ascii_lower xs = w" "set ds \<subseteq> {CHR ''.'', CHR '' ''}"
    "strip_ignorable (s @ t) = xs @ ds \<or> (\<exists>u. strip_ignorable (s @ t) = xs @ ds @ CHR '':'' # u)"
proof -
  from spells_visible [OF assms(1,2)] obtain xs where xs: "map ascii_lower xs = w" "\<forall>x \<in> set xs. byte x < 128"
    "visible (s @ t) = map byte xs @ visible t" "plain (s @ t) \<longrightarrow> s = xs \<and> plain t" by blast
  from dropped_visible [OF assms(3)] obtain ds where ds: "set ds \<subseteq> {CHR ''.'', CHR '' ''}"
    "visible t = map byte ds \<or> (\<exists>rs. visible t = map byte ds @ byte CHR '':'' # rs)"
    "plain t \<longrightarrow> t = ds \<or> (\<exists>u. t = ds @ CHR '':'' # u)" by blast
  from ds(1) have a: "\<forall>x \<in> set ds. byte x < 128" "byte CHR '':'' < 128" by (auto simp: byte_def)
  have "strip_ignorable (s @ t) = xs @ ds \<or> (\<exists>u. strip_ignorable (s @ t) = xs @ ds @ CHR '':'' # u)"
  proof (cases "plain (s @ t)")
    case True
    with xs ds show ?thesis by (auto simp: strip_ignorable_def)
  next
    case False
    then have "strip_ignorable (s @ t) = concat (map EncodeRune (map byte xs)) @ concat (map EncodeRune (visible t))"
      by (simp add: strip_ignorable_def xs(3))
    with ds(2) concat_EncodeRune [OF xs(2)] concat_EncodeRune [OF a(1)] EncodeRune_byte [OF a(2)] show ?thesis by auto
  qed
  with xs(1) ds(1) show thesis by (rule that)
qed

lemma Split_no_sep: "c \<notin> set s \<Longrightarrow> Split s c = [s]"
  by (induction s) auto

lemma Split_component: "x \<in> set (Split s c) \<Longrightarrow> c \<notin> set x"
  by (induction s arbitrary: x) (auto split: list.splits if_splits)

lemma TrimRightSet_append:
  assumes "set ds \<subseteq> set cutset" "xs \<noteq> []" "last xs \<notin> set cutset"
  shows "TrimRightSet (xs @ ds) cutset = xs"
proof -
  from assms(2,3) obtain ys y where "xs = ys @ [y]" "y \<notin> set cutset" by (cases xs rule: rev_cases) auto
  with assms(1) show ?thesis by (simp add: TrimRightSet_def) (subst dropWhile_append2; auto)
qed

text \<open>The names the gate guards.\<close>

definition git_name :: "string \<Rightarrow> bool" where
  "git_name w \<longleftrightarrow> w = ''.git'' \<or> w = ''git~1''"

lemma disguise_unsafe:
  assumes "git_name w" "spells w s" "dropped_tail t" "SLASH \<notin> set (s @ t)"
  shows "GitUnsafeComponent (s @ t)"
proof -
  from assms(1) have w: "\<forall>a \<in> set w. byte a < 128" "CHR '':'' \<notin> set w" "w \<noteq> []" "last w \<notin> {CHR ''.'', CHR '' ''}"
    by (auto simp: git_name_def byte_def)
  from strip_disguise [OF assms(2) w(1) assms(3)] obtain xs ds where x: "map ascii_lower xs = w"
    "set ds \<subseteq> {CHR ''.'', CHR '' ''}"
    "strip_ignorable (s @ t) = xs @ ds \<or> (\<exists>u. strip_ignorable (s @ t) = xs @ ds @ CHR '':'' # u)" .
  have low: "ascii_lower CHR '':'' = CHR '':''" "ascii_lower CHR ''.'' = CHR ''.''" "ascii_lower CHR '' '' = CHR '' ''"
    by (simp_all add: ascii_lower_def byte_def)
  from x(1) w(2) low(1) have colon: "CHR '':'' \<notin> set xs" by (metis image_eqI list.set_map)
  from x(1) w(3) have "xs \<noteq> []" by auto
  with x(1) w(4) low have lst: "last xs \<notin> {CHR ''.'', CHR '' ''}" by (metis insert_iff last_map singletonD)
  have c: "\<forall>y \<in> set (xs @ ds). y \<noteq> CHR '':''" using colon x(2) by auto
  from x(3) have "takeWhile (\<lambda>y. y \<noteq> CHR '':'') (strip_ignorable (s @ t)) = xs @ ds"
  proof
    assume "\<exists>u. strip_ignorable (s @ t) = xs @ ds @ CHR '':'' # u"
    then obtain u where "strip_ignorable (s @ t) = (xs @ ds) @ CHR '':'' # u" by auto
    with takeWhile_append2 [of "xs @ ds" "\<lambda>y. y \<noteq> CHR '':''" "CHR '':'' # u"] c show ?thesis by simp
  qed (use c in simp)
  with TrimRightSet_append [of ds "''. ''" xs] x(2) lst \<open>xs \<noteq> []\<close>
  have "NormalizeAliases (s @ t) = xs"
    using assms(4) by (simp add: NormalizeAliases_def Split_no_sep normalizeComponentAliases_def)
  moreover have "TrimRightSet xs ''. '' = xs" using TrimRightSet_append [of "[]" "''. ''" xs] lst \<open>xs \<noteq> []\<close> by simp
  moreover have "map ascii_lower w = w" using assms(1) by (auto simp: git_name_def ascii_lower_def byte_def)
  ultimately show ?thesis using x(1) assms(1)
    by (auto simp: GitUnsafeComponent_def isDotGitVariant_def EqualFold_def git_name_def)
qed

text \<open>
  C19: no path of an accepted manifest names git metadata in a disguise: a component that spells the git
  directory or its short name in any case, with ignorable code points anywhere, trailing dots, spaces
  or a stream suffix, or that holds a backslash, is refused wherever it stands in the path.
\<close>

theorem git_disguise_refused:
  assumes "gatePaths foldc m = None" "e \<in> set (mf_entries m)" "in_tree e"
    and "c \<in> set (Split (en_path e) SLASH)"
  shows "BSLASH \<notin> set c \<and> \<not> (\<exists>w s t. git_name w \<and> spells w s \<and> dropped_tail t \<and> c = s @ t)"
proof -
  from assms have "\<not> GitUnsafeComponent c"
    by (auto simp: gatePaths_def Let_def validation first_error_map_None gate_names_def list_ex_iff split: if_split_asm)
  with Split_component [OF assms(4)] disguise_unsafe show ?thesis by (metis GitUnsafeComponent_def)
qed


definition example_entry :: Entry where
  "example_entry = \<lparr>en_path = ''src/main.go'', en_path_hex = [], en_kind = EntryRegular, en_mode = Some ''0644'', en_size = Some 3,
     en_digest = Some ''d'', en_target = None, en_blob_omitted = False\<rparr>"

definition example_manifest :: Manifest where
  "example_manifest = \<lparr>mf_version = ManifestVersion, mf_entries = [example_entry]\<rparr>"

lemma example_gate: "gatePaths example_fold example_manifest = None"
proof -
  have "\<not> GitUnsafeComponent c" if "c \<in> {''src'', ''main.go''}" for c
  proof -
    from that have "\<forall>x \<in> set c. byte x < 128" by (auto simp: byte_def)
    with that show ?thesis
      by (auto simp: GitUnsafeComponent_def NormalizeAliases_def normalizeComponentAliases_def strip_ignorable_ascii
          isDotGitVariant_def TrimRightSet_def EqualFold_def)
  qed
  moreover have "Split ''src/main.go'' SLASH = [''src'', ''main.go'']" by code_simp
  moreover have "\<not> IsCommitPlanNamespacePath example_fold ''src/main.go''" by code_simp
  ultimately have "gate_names example_fold example_entry = None"
    by (simp add: gate_names_def example_entry_def)
  moreover have "\<not> ancestor_in {''src/main.go''} (parentDir ''src/main.go'')"
    unfolding ancestor_in_iff by (auto simp: append_eq_Cons_conv Cons_eq_append_conv)
  ultimately show ?thesis
    by (simp add: gatePaths_def example_manifest_def Let_def validation) (simp add: example_entry_def in_tree_def)
qed

lemma gatePaths_exact_witness: "\<not> IsCommitPlanNamespacePath example_fold ''src/main.go''"
  using gatePaths_exact [of example_fold example_manifest] example_gate
  by (simp add: example_manifest_def example_entry_def in_tree_def Let_def)

lemma git_disguise_refused_witness: "BSLASH \<notin> set ''main.go''"
proof -
  have "''main.go'' \<in> set (Split (en_path example_entry) SLASH)" by (simp add: example_entry_def)
  from git_disguise_refused [OF example_gate _ _ this] show ?thesis
    by (simp add: example_manifest_def example_entry_def in_tree_def)
qed

end
