(* ===== verification/ImportDerive.thy ===== *)
theory ImportDerive
  imports ImportPaths "HOL-Library.Product_Lexorder"
begin

text \<open>
  \<open>daemon/internal/importer/derive.go\<close>, with the blob comparison of \<open>gitrunner.go\<close>, the stored-blob
  accounting of \<open>blobs.go\<close> and the tree check of \<open>commit.go\<close>: what changed between the trusted base
  and the snapshot an untrusted workspace exported, and whether a built tree holds exactly that.

  The git plumbing that reads a base object (its size, its SHA-256 and size, its content) is the
  parameter \<open>git_reader\<close>. A Go map that is read is a function, the base tree an association list in
  iteration order; \<open>sort.Slice\<close> is a stable sort here, which matters only between findings that
  agree in every compared field. A size is a 64-bit integer.

  Shown: the derived deletions are exactly the base paths the snapshot could see and does not hold;
  with no finding that blocks the commit, the changes applied to the base give exactly the tree the
  manifest describes; and a built tree that passes the check against a faithful diff is that tree.
\<close>

section \<open>Stored blobs\<close>

record blobInfo =
  bi_size :: int
  bi_oid :: string
  bi_path :: string

text \<open>The zero value a lookup of an absent digest yields.\<close>

definition no_blob :: blobInfo where "no_blob = \<lparr>bi_size = 0, bi_oid = [], bi_path = []\<rparr>"

type_synonym needed_blobs = "(string \<times> int) list"

abbreviation ErrBlobTooLarge :: err where "ErrBlobTooLarge \<equiv> Sentinel ''ErrBlobTooLarge''"
abbreviation ErrSizeMismatch :: err where "ErrSizeMismatch \<equiv> Sentinel ''ErrSizeMismatch''"
abbreviation ErrDigestMismatch :: err where "ErrDigestMismatch \<equiv> Sentinel ''ErrDigestMismatch''"
abbreviation ErrTreeMismatch :: err where "ErrTreeMismatch \<equiv> Sentinel ''ErrTreeMismatch''"

definition accumulateNeeded ::
  "needed_blobs \<Rightarrow> int \<Rightarrow> string \<Rightarrow> int \<Rightarrow> int \<Rightarrow> int \<Rightarrow> err + (needed_blobs \<times> int)" where
  "accumulateNeeded needed storedTotal digest nbytes maxBlob maxTotal =
     (if 0 < maxBlob \<and> maxBlob < nbytes then Inl ErrBlobTooLarge
      else case map_of needed digest of
          Some prev \<Rightarrow> if prev \<noteq> nbytes then Inl ErrSizeMismatch else Inr (needed, storedTotal)
        | None \<Rightarrow>
            if 0 < maxTotal \<and> wrap64 (maxTotal - storedTotal) < nbytes then Inl ErrBlobTooLarge
            else Inr (AList.update digest nbytes needed, wrap64 (storedTotal + nbytes)))"

text \<open>The loop of \<open>verifyBlobs\<close> over the entries of the repository channel.\<close>

fun accumulate_entries :: "Policy \<Rightarrow> needed_blobs \<Rightarrow> int \<Rightarrow> Entry list \<Rightarrow> err + (needed_blobs \<times> int)" where
  "accumulate_entries pol needed storedTotal [] = Inr (needed, storedTotal)"
| "accumulate_entries pol needed storedTotal (e # es) =
     (if en_kind e \<noteq> EntryRegular \<or> en_blob_omitted e then accumulate_entries pol needed storedTotal es
      else case (en_digest e, en_size e) of
          (Some digest, Some n) \<Rightarrow>
            (case accumulateNeeded needed storedTotal digest n (plc_max_blob_bytes pol) (plc_max_total_bytes pol) of
               Inl x \<Rightarrow> Inl x
             | Inr (needed', total') \<Rightarrow> accumulate_entries pol needed' total' es)
        | _ \<Rightarrow> Inl (Panic ''nil dereference''))"

section \<open>Base objects\<close>

record git_reader =
  gr_size :: "string \<Rightarrow> err + int"
  gr_digest :: "string \<Rightarrow> err + (string \<times> int)"
  gr_content :: "string \<Rightarrow> err + string"

definition blobMatchesDigest :: "git_reader \<Rightarrow> string \<Rightarrow> string \<Rightarrow> int \<Rightarrow> err + bool" where
  "blobMatchesDigest g oid digest nbytes = ebind (gr_size g oid) (\<lambda>objectSize.
     if objectSize \<noteq> nbytes then Inr False
     else ebind (gr_digest g oid) (\<lambda>(got, _). Inr (got = digest)))"

section \<open>Derivation\<close>

definition ptr :: "'a option \<Rightarrow> err + 'a" where
  "ptr p = (case p of None \<Rightarrow> Inl (Panic ''nil dereference'') | Some x \<Rightarrow> Inr x)"

definition regular_mode :: "string \<Rightarrow> bool" where
  "regular_mode m \<longleftrightarrow> m = ''100644'' \<or> m = ''100755''"

definition changeKindAgainst :: "base_tree \<Rightarrow> string \<Rightarrow> ChangeKind" where
  "changeKindAgainst base p = (if map_of base p \<noteq> None then ChangeModified else ChangeAdded)"

definition blank_change :: "string \<Rightarrow> ChangeKind \<Rightarrow> plannedChange" where
  "blank_change p k = \<lparr>pl_path = p, pl_kind = k, pl_mode = [], pl_oid = [], pl_digest = [], pl_size = 0,
     pl_verified_path = [], pl_path_hex = [], pl_from_base = False\<rparr>"

text \<open>Whether the base blob holds the bytes of an omitted entry, and its size.\<close>

definition base_holds :: "git_reader \<Rightarrow> treeEntry \<Rightarrow> Entry \<Rightarrow> err + int option" where
  "base_holds g be e = ebind (gr_size g (te_oid be)) (\<lambda>baseSize. ebind (ptr (en_size e)) (\<lambda>n.
     if baseSize \<noteq> n then Inr None
     else ebind (gr_digest g (te_oid be)) (\<lambda>(digest, _). ebind (ptr (en_digest e)) (\<lambda>d.
       Inr (if digest = d then Some baseSize else None)))))"

definition replaces_nonregular :: "Entry \<Rightarrow> treeEntry option \<Rightarrow> Finding list" where
  "replaces_nonregular e be = (case be of None \<Rightarrow> []
     | Some b \<Rightarrow> if regular_mode (te_mode b) then []
         else [path_finding (en_path e) FindingNonRegularChange (''replaces non-regular base entry (mode '' @ te_mode b @ '')'')])"

definition derive_omitted ::
  "git_reader \<Rightarrow> base_tree \<Rightarrow> Entry \<Rightarrow> string \<Rightarrow> err + (plannedChange option \<times> Finding list)" where
  "derive_omitted g base e gitMode =
     (let be = map_of base (en_path e);
          baseRegular = (case be of None \<Rightarrow> False | Some b \<Rightarrow> regular_mode (te_mode b))
      in ebind (case be of None \<Rightarrow> Inr None | Some b \<Rightarrow> if baseRegular then base_holds g b e else Inr None) (\<lambda>held.
        case (held, be) of
          (Some baseSize, Some b) \<Rightarrow>
            if te_mode b = gitMode then Inr (None, [])
            else ebind (ptr (en_digest e)) (\<lambda>d. Inr (Some ((blank_change (en_path e) ChangeModified)\<lparr>pl_mode := gitMode,
              pl_oid := te_oid b, pl_digest := d, pl_size := baseSize, pl_from_base := True\<rparr>), []))
        | _ \<Rightarrow> ebind (ptr (en_digest e)) (\<lambda>d. ebind (ptr (en_size e)) (\<lambda>n.
            Inr (Some ((blank_change (en_path e) (changeKindAgainst base (en_path e)))\<lparr>pl_mode := gitMode, pl_digest := d,
                pl_size := n\<rparr>),
              path_finding (en_path e) FindingBlobOmitted ''content changed but its blob was withheld by export caps''
                # replaces_nonregular e be)))))"

definition derive_stored ::
  "git_reader \<Rightarrow> base_tree \<Rightarrow> (string \<Rightarrow> blobInfo option) \<Rightarrow> Entry \<Rightarrow> string \<Rightarrow> err + (plannedChange option \<times> Finding list)" where
  "derive_stored g base blobs e gitMode = ebind (ptr (en_digest e)) (\<lambda>d.
     let info = (case blobs d of None \<Rightarrow> no_blob | Some i \<Rightarrow> i); be = map_of base (en_path e)
     in case be of
          Some b \<Rightarrow>
            if regular_mode (te_mode b) \<and> te_oid b = bi_oid info then
              ebind (ptr (en_size e)) (\<lambda>n. ebind (blobMatchesDigest g (te_oid b) d n) (\<lambda>matches.
                if \<not> matches then Inl ErrDigestMismatch
                else if te_mode b = gitMode then Inr (None, [])
                else Inr (Some ((blank_change (en_path e) ChangeModified)\<lparr>pl_mode := gitMode, pl_oid := bi_oid info,
                  pl_digest := d, pl_size := bi_size info, pl_from_base := True\<rparr>), [])))
            else Inr (Some ((blank_change (en_path e) (changeKindAgainst base (en_path e)))\<lparr>pl_mode := gitMode,
                pl_oid := bi_oid info, pl_digest := d, pl_size := bi_size info, pl_verified_path := bi_path info\<rparr>),
              replaces_nonregular e be)
        | None \<Rightarrow> Inr (Some ((blank_change (en_path e) (changeKindAgainst base (en_path e)))\<lparr>pl_mode := gitMode,
                pl_oid := bi_oid info, pl_digest := d, pl_size := bi_size info, pl_verified_path := bi_path info\<rparr>), []))"

definition deriveRegular ::
  "git_reader \<Rightarrow> base_tree \<Rightarrow> (string \<Rightarrow> blobInfo option) \<Rightarrow> Entry \<Rightarrow> err + (plannedChange option \<times> Finding list)" where
  "deriveRegular g base blobs e = ebind (ptr (en_mode e)) (\<lambda>m.
     let gitMode = (if m = ''0755'' then ''100755'' else ''100644'')
     in if en_blob_omitted e then derive_omitted g base e gitMode else derive_stored g base blobs e gitMode)"

definition deriveSymlink :: "git_reader \<Rightarrow> base_tree \<Rightarrow> Entry \<Rightarrow> err + (plannedChange option \<times> Finding list)" where
  "deriveSymlink g base e = ebind (ptr (en_target e)) (\<lambda>target.
     let changed = (Some (blank_change (en_path e) (changeKindAgainst base (en_path e))),
           [path_finding (en_path e) FindingNonRegularChange ''symlink''])
     in case map_of base (en_path e) of
          None \<Rightarrow> Inr changed
        | Some be \<Rightarrow>
            if te_mode be = ''120000'' \<and> RuneError \<notin> set (runes target) then
              ebind (gr_size g (te_oid be)) (\<lambda>baseSize.
                if baseSize \<noteq> int (length target) then Inr changed
                else ebind (gr_content g (te_oid be)) (\<lambda>content.
                  if content = target then Inr (None, []) else Inr changed))
            else Inr changed)"

text \<open>What one entry appends to the loop's state.\<close>

record derived =
  dr_changes :: "plannedChange list"
  dr_findings :: "Finding list"
  dr_consumed :: "string list"
  dr_opaque :: "string list"

definition nothing_derived :: derived where
  "nothing_derived = \<lparr>dr_changes = [], dr_findings = [], dr_consumed = [], dr_opaque = []\<rparr>"

definition derived_from :: "Entry \<Rightarrow> plannedChange option \<times> Finding list \<Rightarrow> derived" where
  "derived_from e r = nothing_derived\<lparr>dr_changes := (case fst r of None \<Rightarrow> [] | Some c \<Rightarrow> [c]), dr_findings := snd r,
     dr_consumed := [en_path e]\<rparr>"

definition nonregular :: "base_tree \<Rightarrow> Entry \<Rightarrow> string \<Rightarrow> derived" where
  "nonregular base e detail = nothing_derived\<lparr>dr_changes := [blank_change (en_path e) (changeKindAgainst base (en_path e))],
     dr_findings := [path_finding (en_path e) FindingNonRegularChange detail], dr_consumed := [en_path e]\<rparr>"

definition derive_entry :: "git_reader \<Rightarrow> base_tree \<Rightarrow> (string \<Rightarrow> blobInfo option) \<Rightarrow> Entry \<Rightarrow> err + derived" where
  "derive_entry g base blobs e = (case en_kind e of
     EntryRegular \<Rightarrow> ebind (deriveRegular g base blobs e) (\<lambda>r. Inr (derived_from e r))
   | EntrySymlink \<Rightarrow> ebind (deriveSymlink g base e) (\<lambda>r. Inr (derived_from e r))
   | EntrySubmodule \<Rightarrow> (case map_of base (en_path e) of
       Some be \<Rightarrow> if te_mode be = ''160000''
         then Inr (nothing_derived\<lparr>dr_consumed := [en_path e], dr_opaque := [en_path e]\<rparr>)
         else Inr ((nonregular base e ''submodule'')\<lparr>dr_opaque := [en_path e]\<rparr>)
     | None \<Rightarrow> Inr ((nonregular base e ''submodule'')\<lparr>dr_opaque := [en_path e]\<rparr>))
   | EntrySpecial \<Rightarrow> Inr (nonregular base e ''special file'')
   | EntryUnusualMode \<Rightarrow> ebind (ptr (en_mode e)) (\<lambda>m. Inr (nonregular base e (''unusual mode '' @ m)))
   | EntryGitDir \<Rightarrow> Inr nothing_derived
   | EntryInvalidPath \<Rightarrow> (case hex_decode (en_path_hex e) of
       None \<Rightarrow> Inl (ErrText ''invalid_path entry'')
     | Some raw \<Rightarrow> Inr (nothing_derived\<lparr>dr_findings := [hex_finding (en_path_hex e) FindingInvalidPathEntry []],
         dr_consumed := [raw], dr_opaque := [raw]\<rparr>))
   | EntryKindOther _ \<Rightarrow> Inr nothing_derived)"

fun derive_entries :: "git_reader \<Rightarrow> base_tree \<Rightarrow> (string \<Rightarrow> blobInfo option) \<Rightarrow> derived \<Rightarrow> Entry list \<Rightarrow> err + derived" where
  "derive_entries g base blobs st [] = Inr st"
| "derive_entries g base blobs st (e # es) = (case derive_entry g base blobs e of
     Inl x \<Rightarrow> Inl x
   | Inr d \<Rightarrow> derive_entries g base blobs \<lparr>dr_changes = dr_changes st @ dr_changes d, dr_findings = dr_findings st @ dr_findings d,
       dr_consumed = dr_consumed st @ dr_consumed d, dr_opaque = dr_opaque st @ dr_opaque d\<rparr> es)"

definition underAnyOpaque :: "string list \<Rightarrow> string \<Rightarrow> bool" where
  "underAnyOpaque opaque p = (if opaque = [] then False
     else list_ex (\<lambda>i. p ! i = SLASH \<and> take i p \<in> set opaque) [0..<length p])"

text \<open>One base path the snapshot does not hold.\<close>

definition deleted_change :: "string \<Rightarrow> plannedChange" where
  "deleted_change p = (if ValidString p then blank_change p ChangeDeleted
     else (blank_change p ChangeDeleted)\<lparr>pl_path_hex := EncodeToString (map byte p)\<rparr>)"

definition deletion_findings :: "string \<Rightarrow> treeEntry \<Rightarrow> Finding list" where
  "deletion_findings p be = (if \<not> ValidString p
     then [hex_finding (EncodeToString (map byte p)) FindingInvalidPathEntry ''deletes a non-representable base path'']
     else if \<not> regular_mode (te_mode be)
       then [path_finding p FindingNonRegularChange (''deletes non-regular base entry (mode '' @ te_mode be @ '')'')]
     else [])"

definition sortChanges :: "plannedChange list \<Rightarrow> plannedChange list" where
  "sortChanges cs = sort_key pl_path cs"

definition sortFindings :: "Finding list \<Rightarrow> Finding list" where
  "sortFindings fs = sort_key (\<lambda>f. (fnd_path f, fnd_path_hex f, FindingKind_text (fnd_kind f), fnd_rule f, fnd_line f)) fs"

definition deriveChanges ::
  "git_reader \<Rightarrow> base_tree \<Rightarrow> Manifest \<Rightarrow> (string \<Rightarrow> blobInfo option) \<Rightarrow> err + (plannedChange list \<times> Finding list)" where
  "deriveChanges g base m blobs = ebind (derive_entries g base blobs nothing_derived (mf_entries m)) (\<lambda>st.
     let consumed = EvidenceWorkspaceDir # dr_consumed st; opaque = dr_opaque st @ [EvidenceWorkspaceDir];
         gone = filter (\<lambda>(p, be). p \<notin> set consumed \<and> \<not> underAnyOpaque opaque p) base
     in Inr (sortChanges (dr_changes st @ map (\<lambda>(p, be). deleted_change p) gone),
          sortFindings (dr_findings st @ concat (map (\<lambda>(p, be). deletion_findings p be) gone))))"

section \<open>The derived changes rebuild the snapshot\<close>

definition git_mode :: "Entry \<Rightarrow> string" where
  "git_mode e = (if en_mode e = Some ''0755'' then ''100755'' else ''100644'')"

definition apply_change :: "(string \<rightharpoonup> treeEntry) \<Rightarrow> plannedChange \<Rightarrow> (string \<rightharpoonup> treeEntry)" where
  "apply_change m c = (if pl_kind c = ChangeDeleted then m(pl_path c := None)
     else m(pl_path c \<mapsto> \<lparr>te_mode = pl_mode c, te_oid = pl_oid c\<rparr>))"

definition apply_all :: "(string \<rightharpoonup> treeEntry) \<Rightarrow> plannedChange list \<Rightarrow> (string \<rightharpoonup> treeEntry)" where
  "apply_all m cs = foldl apply_change m cs"

text \<open>
  What it means that a tree slot holds a manifest entry: a regular file at its mode whose object is the
  verified blob, or for an omitted or unchanged blob a base object git hashes to the entry's digest; a
  symbolic link with its target; a submodule pointer. No other kind can stand in a tree.
\<close>

definition slot_holds :: "git_reader \<Rightarrow> (string \<rightharpoonup> treeEntry) \<Rightarrow> (string \<Rightarrow> blobInfo option) \<Rightarrow> Entry \<Rightarrow> treeEntry option \<Rightarrow> bool" where
  "slot_holds g base blobs e t = (case t of None \<Rightarrow> False | Some r \<Rightarrow> (case en_kind e of
     EntryRegular \<Rightarrow> (\<exists>d. en_digest e = Some d \<and> te_mode r = git_mode e
       \<and> (if en_blob_omitted e then (\<exists>n. gr_digest g (te_oid r) = Inr (d, n))
          else te_oid r = bi_oid (case blobs d of None \<Rightarrow> no_blob | Some i \<Rightarrow> i)
            \<and> (\<forall>b. base (en_path e) = Some b \<and> regular_mode (te_mode b) \<and> te_oid b = te_oid r \<longrightarrow>
                (\<exists>n. gr_digest g (te_oid r) = Inr (d, n)))))
   | EntrySymlink \<Rightarrow> te_mode r = ''120000'' \<and> base (en_path e) = t \<and> en_target e \<noteq> None
       \<and> gr_content g (te_oid r) = Inr (the (en_target e))
   | EntrySubmodule \<Rightarrow> te_mode r = ''160000'' \<and> base (en_path e) = t
   | _ \<Rightarrow> False))"

lemma apply_all_snoc [simp]: "apply_all m (cs @ [c]) = apply_change (apply_all m cs) c"
  by (simp add: apply_all_def)

lemma apply_all_Nil [simp]: "apply_all m [] = m"
  by (simp add: apply_all_def)

lemma apply_change_other: "p \<noteq> pl_path c \<Longrightarrow> apply_change m c p = m p"
  by (simp add: apply_change_def)

lemma apply_change_at: "apply_change m c (pl_path c) = apply_change m' c (pl_path c)"
  by (simp add: apply_change_def)

lemma apply_all_other: "p \<notin> pl_path ` set cs \<Longrightarrow> apply_all m cs p = m p"
  by (induction cs rule: rev_induct) (simp_all add: apply_change_other)

lemma apply_all_at:
  "distinct (map pl_path cs) \<Longrightarrow> c \<in> set cs \<Longrightarrow> apply_all m cs (pl_path c) = apply_change m' c (pl_path c)"
proof (induction cs rule: rev_induct)
  case (snoc x cs)
  show ?case
  proof (cases "c = x")
    case True
    then show ?thesis using apply_change_at [of "apply_all m cs" x m'] by simp
  next
    case False
    with snoc.prems have c: "c \<in> set cs" by simp
    from snoc.prems(1) have "pl_path x \<notin> pl_path ` set cs" by simp
    with c have "pl_path c \<noteq> pl_path x" by (metis imageI)
    with c show ?thesis using snoc by (simp add: apply_change_other)
  qed
qed simp

lemma changeKindAgainst_live [simp]: "changeKindAgainst base p \<noteq> ChangeDeleted"
  by (simp add: changeKindAgainst_def)

lemma blank_change_simps [simp]: "pl_path (blank_change p k) = p" "pl_kind (blank_change p k) = k"
  by (simp_all add: blank_change_def)

lemma ptr_Inr [simp]: "ptr p = Inr x \<longleftrightarrow> p = Some x"
  by (cases p) (simp_all add: ptr_def)

lemma ptr_Some [simp]: "ptr (Some x) = Inr x"
  by (simp add: ptr_def)

lemma blocks_simps [simp]: "blocksCommit FindingNonRegularChange" "blocksCommit FindingInvalidPathEntry"
  "blocksCommit FindingBlobOmitted"
  by (simp_all add: blocksCommit_def)

text \<open>What a derived entry says: the slot its change leaves, or the base slot it keeps.\<close>

definition entry_slot :: "(string \<rightharpoonup> treeEntry) \<Rightarrow> Entry \<Rightarrow> plannedChange option \<Rightarrow> treeEntry option" where
  "entry_slot base e c = (case c of None \<Rightarrow> base (en_path e) | Some c \<Rightarrow> apply_change Map.empty c (en_path e))"

definition live_change_of :: "Entry \<Rightarrow> plannedChange option \<Rightarrow> bool" where
  "live_change_of e c \<longleftrightarrow> (\<forall>x. c = Some x \<longrightarrow> pl_path x = en_path e \<and> pl_kind x \<noteq> ChangeDeleted)"

lemma base_holds_Some: "base_holds g b e = Inr (Some n) \<Longrightarrow> \<exists>d k. en_digest e = Some d \<and> gr_digest g (te_oid b) = Inr (d, k)"
  by (auto simp: base_holds_def ebind_Inr_iff split: if_split_asm prod.split_asm)

lemma blobMatchesDigest_True: "blobMatchesDigest g oid d n = Inr True \<Longrightarrow> \<exists>k. gr_digest g oid = Inr (d, k)"
  by (auto simp: blobMatchesDigest_def ebind_Inr_iff split: if_split_asm prod.split_asm)

lemma derive_omitted_slot:
  assumes "derive_omitted g base e (git_mode e) = Inr (c, fs)" "en_kind e = EntryRegular" "en_blob_omitted e"
  shows "live_change_of e c" "\<forall>f \<in> set fs. \<not> blocksCommit (fnd_kind f) \<Longrightarrow> slot_holds g (map_of base) blobs e (entry_slot (map_of base) e c)"
proof -
  obtain held where h: "(case map_of base (en_path e) of None \<Rightarrow> Inr None
      | Some b \<Rightarrow> if regular_mode (te_mode b) then base_holds g b e else Inr None) = Inr held"
    using assms(1) by (auto simp: derive_omitted_def Let_def ebind_Inr_iff cong: option.case_cong split: option.splits)
  let ?changed = "ebind (ptr (en_digest e)) (\<lambda>d. ebind (ptr (en_size e)) (\<lambda>n.
            Inr (Some ((blank_change (en_path e) (changeKindAgainst base (en_path e)))\<lparr>pl_mode := git_mode e, pl_digest := d,
                pl_size := n\<rparr>),
              path_finding (en_path e) FindingBlobOmitted ''content changed but its blob was withheld by export caps''
                # replaces_nonregular e (map_of base (en_path e)))))"
  have r: "(case (held, map_of base (en_path e)) of (Some baseSize, Some b) \<Rightarrow>
            if te_mode b = git_mode e then Inr (None, [])
            else ebind (ptr (en_digest e)) (\<lambda>d. Inr (Some ((blank_change (en_path e) ChangeModified)\<lparr>pl_mode := git_mode e,
              pl_oid := te_oid b, pl_digest := d, pl_size := baseSize, pl_from_base := True\<rparr>), []))
        | _ \<Rightarrow> ?changed) = Inr (c, fs)"
    using assms(1) h by (simp add: derive_omitted_def Let_def cong: option.case_cong split: option.splits)
  then show "live_change_of e c"
    by (auto simp: live_change_of_def ebind_Inr_iff split: option.splits if_split_asm)
  show "slot_holds g (map_of base) blobs e (entry_slot (map_of base) e c)" if nb: "\<forall>f \<in> set fs. \<not> blocksCommit (fnd_kind f)"
  proof -
    from r nb obtain n b where hb: "held = Some n" "map_of base (en_path e) = Some b"
      by (auto simp: ebind_Inr_iff split: option.splits)
    with h have "base_holds g b e = Inr (Some n)" by (simp split: if_split_asm)
    from base_holds_Some [OF this] obtain d k where d: "en_digest e = Some d" "gr_digest g (te_oid b) = Inr (d, k)" by blast
    show ?thesis
    proof (cases "te_mode b = git_mode e")
      case True
      with r hb d assms(2,3) show ?thesis by (simp add: slot_holds_def entry_slot_def)
    next
      case False
      with r hb d have "c = Some ((blank_change (en_path e) ChangeModified)\<lparr>pl_mode := git_mode e,
          pl_oid := te_oid b, pl_digest := d, pl_size := n, pl_from_base := True\<rparr>)" by simp
      with d assms(2,3) show ?thesis by (simp add: slot_holds_def entry_slot_def apply_change_def)
    qed
  qed
qed

lemma derive_stored_slot:
  assumes "derive_stored g base blobs e (git_mode e) = Inr (c, fs)" "en_kind e = EntryRegular" "\<not> en_blob_omitted e"
  shows "live_change_of e c" "slot_holds g (map_of base) blobs e (entry_slot (map_of base) e c)"
proof -
  obtain d where d: "en_digest e = Some d" using assms(1) by (auto simp: derive_stored_def ebind_Inr_iff)
  let ?i = "case blobs d of None \<Rightarrow> no_blob | Some i \<Rightarrow> i"
  consider "map_of base (en_path e) = None"
    | b where "map_of base (en_path e) = Some b" "\<not> (regular_mode (te_mode b) \<and> te_oid b = bi_oid ?i)"
    | b where "map_of base (en_path e) = Some b" "regular_mode (te_mode b)" "te_oid b = bi_oid ?i"
    by (cases "map_of base (en_path e)") auto
  then have "live_change_of e c \<and> slot_holds g (map_of base) blobs e (entry_slot (map_of base) e c)"
  proof cases
    case 1
    with assms d show ?thesis
      by (auto simp: derive_stored_def live_change_of_def slot_holds_def entry_slot_def apply_change_def Let_def)
  next
    case 2
    with assms d show ?thesis
      by (auto simp: derive_stored_def live_change_of_def slot_holds_def entry_slot_def apply_change_def Let_def)
  next
    case 3
    with assms(1) d obtain n where n: "blobMatchesDigest g (te_oid b) d n = Inr True"
      by (auto simp: derive_stored_def Let_def ebind_Inr_iff split: if_split_asm)
    from blobMatchesDigest_True [OF n] 3 assms d show ?thesis
      by (auto simp: derive_stored_def live_change_of_def slot_holds_def entry_slot_def apply_change_def Let_def ebind_Inr_iff
          split: if_split_asm)
  qed
  then show "live_change_of e c" "slot_holds g (map_of base) blobs e (entry_slot (map_of base) e c)" by simp_all
qed

lemma deriveSymlink_slot:
  assumes "deriveSymlink g base e = Inr (c, fs)" "en_kind e = EntrySymlink"
  shows "live_change_of e c" "\<forall>f \<in> set fs. \<not> blocksCommit (fnd_kind f) \<Longrightarrow> slot_holds g (map_of base) blobs e (entry_slot (map_of base) e c)"
  using assms
  by (auto simp: deriveSymlink_def Let_def ebind_Inr_iff live_change_of_def slot_holds_def entry_slot_def
      split: option.splits if_split_asm)


section \<open>The whole derivation\<close>

text \<open>What one entry contributes.\<close>

definition part :: "git_reader \<Rightarrow> base_tree \<Rightarrow> (string \<Rightarrow> blobInfo option) \<Rightarrow> Entry \<Rightarrow> derived" where
  "part g base blobs e = (case derive_entry g base blobs e of Inl _ \<Rightarrow> nothing_derived | Inr d \<Rightarrow> d)"

lemma derive_entries_parts:
  "derive_entries g base blobs st es = Inr st' \<Longrightarrow>
     (\<forall>e \<in> set es. derive_entry g base blobs e = Inr (part g base blobs e))
   \<and> dr_changes st' = dr_changes st @ concat (map (\<lambda>e. dr_changes (part g base blobs e)) es)
   \<and> dr_findings st' = dr_findings st @ concat (map (\<lambda>e. dr_findings (part g base blobs e)) es)
   \<and> dr_consumed st' = dr_consumed st @ concat (map (\<lambda>e. dr_consumed (part g base blobs e)) es)
   \<and> dr_opaque st' = dr_opaque st @ concat (map (\<lambda>e. dr_opaque (part g base blobs e)) es)"
proof (induction es arbitrary: st)
  case (Cons e es)
  then obtain d where d: "derive_entry g base blobs e = Inr d" by (cases "derive_entry g base blobs e") auto
  then have "part g base blobs e = d" by (simp add: part_def)
  with Cons.prems Cons.IH d show ?case by fastforce
qed simp

text \<open>The paths of the manifest: those of tree entries, and the raw names it could not represent.\<close>

definition seen_path :: "Entry \<Rightarrow> string option" where
  "seen_path e = (case en_kind e of EntryGitDir \<Rightarrow> None | EntryInvalidPath \<Rightarrow> hex_decode (en_path_hex e)
     | EntryKindOther _ \<Rightarrow> None | _ \<Rightarrow> Some (en_path e))"

definition opaque_path :: "Entry \<Rightarrow> string option" where
  "opaque_path e = (if en_kind e = EntrySubmodule then Some (en_path e)
     else if en_kind e = EntryInvalidPath then hex_decode (en_path_hex e) else None)"

lemma live_derived: "live_change_of e c \<Longrightarrow> x \<in> set (dr_changes (derived_from e (c, fs))) \<Longrightarrow>
    pl_path x = en_path e \<and> pl_kind x \<noteq> ChangeDeleted"
  by (auto simp: derived_from_def nothing_derived_def live_change_of_def split: option.splits)

lemma deriveRegular_Inr: "deriveRegular g base blobs e = Inr r \<Longrightarrow>
    (if en_blob_omitted e then derive_omitted g base e (git_mode e) else derive_stored g base blobs e (git_mode e)) = Inr r"
  by (auto simp: deriveRegular_def ebind_Inr_iff Let_def git_mode_def)

lemma deriveRegular_slot:
  assumes "deriveRegular g base blobs e = Inr (c, fs)" "en_kind e = EntryRegular"
  shows "live_change_of e c" "\<forall>f \<in> set fs. \<not> blocksCommit (fnd_kind f) \<Longrightarrow> slot_holds g (map_of base) blobs e (entry_slot (map_of base) e c)"
  using deriveRegular_Inr [OF assms(1)] assms(2) derive_omitted_slot derive_stored_slot
  by (cases "en_blob_omitted e"; simp)+

lemma part_paths:
  assumes "derive_entry g base blobs e = Inr d"
  shows "x \<in> set (dr_changes d) \<Longrightarrow> pl_path x = en_path e \<and> pl_kind x \<noteq> ChangeDeleted \<and> in_tree e \<and> seen_path e = Some (en_path e)"
    and "length (dr_changes d) \<le> 1"
    and "set (dr_consumed d) = set_option (seen_path e)"
    and "set (dr_opaque d) = set_option (opaque_path e)"
proof -
  note defs = derive_entry_def nonregular_def nothing_derived_def derived_from_def seen_path_def opaque_path_def in_tree_def
  show "pl_path x = en_path e \<and> pl_kind x \<noteq> ChangeDeleted \<and> in_tree e \<and> seen_path e = Some (en_path e)"
    if "x \<in> set (dr_changes d)"
  proof (cases "en_kind e = EntryRegular \<or> en_kind e = EntrySymlink")
    case True
    with assms obtain c fs where c: "d = derived_from e (c, fs)"
      "deriveRegular g base blobs e = Inr (c, fs) \<and> en_kind e = EntryRegular
        \<or> deriveSymlink g base e = Inr (c, fs) \<and> en_kind e = EntrySymlink"
      by (auto simp: derive_entry_def ebind_Inr_iff)
    from c(2) have "live_change_of e c" using deriveRegular_slot(1) deriveSymlink_slot(1) by blast
    with live_derived that c(1) True show ?thesis by (auto simp: in_tree_def seen_path_def)
  next
    case False
    with assms that show ?thesis
      by (cases "en_kind e") (auto simp: defs ebind_Inr_iff split: option.splits if_split_asm)
  qed
  have "length (dr_changes d) \<le> 1 \<and> set (dr_consumed d) = set_option (seen_path e) \<and> set (dr_opaque d) = set_option (opaque_path e)"
  proof (cases "en_kind e = EntryRegular \<or> en_kind e = EntrySymlink")
    case True
    with assms obtain c fs where "d = derived_from e (c, fs)" by (auto simp: derive_entry_def ebind_Inr_iff)
    with True show ?thesis by (cases c) (auto simp: derived_from_def nothing_derived_def seen_path_def opaque_path_def)
  next
    case False
    with assms show ?thesis
      by (cases "en_kind e"; clarsimp simp: defs ebind_Inr_iff split: option.splits if_split_asm)
  qed
  then show "length (dr_changes d) \<le> 1" "set (dr_consumed d) = set_option (seen_path e)"
    "set (dr_opaque d) = set_option (opaque_path e)" by simp_all
qed

lemma underAnyOpaque_iff: "underAnyOpaque opaque p \<longleftrightarrow> (\<exists>d r. p = d @ SLASH # r \<and> d \<in> set opaque)"
proof
  assume "underAnyOpaque opaque p"
  then obtain i where "i < length p" "p ! i = SLASH" "take i p \<in> set opaque"
    by (auto simp: underAnyOpaque_def list_ex_iff split: if_split_asm)
  then show "\<exists>d r. p = d @ SLASH # r \<and> d \<in> set opaque" by (metis id_take_nth_drop)
next
  assume "\<exists>d r. p = d @ SLASH # r \<and> d \<in> set opaque"
  then obtain d r where p: "p = d @ SLASH # r" "d \<in> set opaque" by blast
  then have "length d < length p" "p ! length d = SLASH" "take (length d) p \<in> set opaque" by auto
  with p(2) show "underAnyOpaque opaque p" by (auto simp: underAnyOpaque_def list_ex_iff)
qed

lemma kept_slot:
  assumes "derive_entry g base blobs e = Inr d" "Entry_Validate e = None" "seen_path e = Some p"
    and "\<forall>f \<in> set (dr_findings d). \<not> blocksCommit (fnd_kind f)"
  shows "p = en_path e \<and> in_tree e \<and> (\<exists>c. dr_changes d = (case c of None \<Rightarrow> [] | Some x \<Rightarrow> [x]) \<and> live_change_of e c
     \<and> slot_holds g (map_of base) blobs e (entry_slot (map_of base) e c))"
proof -
  consider (regular) "en_kind e = EntryRegular" | (symlink) "en_kind e = EntrySymlink" | (submodule) "en_kind e = EntrySubmodule"
    | (blocked) "en_kind e = EntrySpecial \<or> en_kind e = EntryUnusualMode \<or> en_kind e = EntryInvalidPath"
    using assms(3) by (cases "en_kind e") (simp_all add: seen_path_def)
  then show ?thesis
  proof cases
    case regular
    with assms(1) obtain c fs where c: "deriveRegular g base blobs e = Inr (c, fs)" "d = derived_from e (c, fs)"
      by (auto simp: derive_entry_def ebind_Inr_iff)
    with deriveRegular_slot [OF c(1) regular] regular assms(3,4) show ?thesis
      by (auto simp: derived_from_def nothing_derived_def seen_path_def in_tree_def)
  next
    case symlink
    with assms(1) obtain c fs where c: "deriveSymlink g base e = Inr (c, fs)" "d = derived_from e (c, fs)"
      by (auto simp: derive_entry_def ebind_Inr_iff)
    with deriveSymlink_slot [OF c(1) symlink] symlink assms(3,4) show ?thesis
      by (auto simp: derived_from_def nothing_derived_def seen_path_def in_tree_def)
  next
    case submodule
    with assms(1,4) obtain b where "map_of base (en_path e) = Some b" "te_mode b = ''160000''" "dr_changes d = []"
      by (auto simp: derive_entry_def nonregular_def nothing_derived_def path_finding_def split: option.splits if_split_asm)
    with submodule assms(3) show ?thesis
      by (intro conjI exI [of _ None]) (auto simp: seen_path_def in_tree_def live_change_of_def slot_holds_def entry_slot_def)
  next
    case blocked
    have "\<exists>f \<in> set (dr_findings d). blocksCommit (fnd_kind f)"
      using blocked assms(1) by (elim disjE) (auto simp: derive_entry_def nonregular_def nothing_derived_def ebind_Inr_iff
        path_finding_def hex_finding_def split: option.splits)
    with assms(4) show ?thesis by blast
  qed
qed

lemma deriveChanges_parts:
  assumes "deriveChanges g base m blobs = Inr (cs, fs)"
  defines "es \<equiv> mf_entries m"
  defines "gone \<equiv> filter (\<lambda>(p, be). p \<noteq> EvidenceWorkspaceDir \<and> (\<forall>e \<in> set es. seen_path e \<noteq> Some p)
      \<and> \<not> (\<exists>d r. p = d @ SLASH # r \<and> (d = EvidenceWorkspaceDir \<or> (\<exists>e \<in> set es. opaque_path e = Some d)))) base"
  shows "\<forall>e \<in> set es. derive_entry g base blobs e = Inr (part g base blobs e)"
    and "cs = sortChanges (concat (map (\<lambda>e. dr_changes (part g base blobs e)) es) @ map (\<lambda>(p, be). deleted_change p) gone)"
    and "set fs = (\<Union>e \<in> set es. set (dr_findings (part g base blobs e))) \<union> (\<Union>(p, be) \<in> set gone. set (deletion_findings p be))"
proof -
  from assms(1) obtain st where st: "derive_entries g base blobs nothing_derived es = Inr st"
    by (auto simp: deriveChanges_def ebind_Inr_iff es_def)
  note parts = derive_entries_parts [OF st]
  from parts show ok: "\<forall>e \<in> set es. derive_entry g base blobs e = Inr (part g base blobs e)" by blast
  from parts have st_eq: "dr_changes st = concat (map (\<lambda>e. dr_changes (part g base blobs e)) es)"
    "dr_findings st = concat (map (\<lambda>e. dr_findings (part g base blobs e)) es)"
    "set (dr_consumed st) = (\<Union>e \<in> set es. set (dr_consumed (part g base blobs e)))"
    "set (dr_opaque st) = (\<Union>e \<in> set es. set (dr_opaque (part g base blobs e)))"
    by (simp_all add: nothing_derived_def)
  have c: "p \<in> set (dr_consumed st) \<longleftrightarrow> (\<exists>e \<in> set es. seen_path e = Some p)" for p
  proof -
    have "set (dr_consumed (part g base blobs e)) = set_option (seen_path e)" if "e \<in> set es" for e
      using ok that part_paths(3) by blast
    then show ?thesis unfolding st_eq(3) by (auto simp: elem_set)
  qed
  have o: "p \<in> set (dr_opaque st) \<longleftrightarrow> (\<exists>e \<in> set es. opaque_path e = Some p)" for p
  proof -
    have "set (dr_opaque (part g base blobs e)) = set_option (opaque_path e)" if "e \<in> set es" for e
      using ok that part_paths(4) by blast
    then show ?thesis unfolding st_eq(4) by (auto simp: elem_set)
  qed
  have g: "filter (\<lambda>(p, be). p \<notin> set (EvidenceWorkspaceDir # dr_consumed st)
      \<and> \<not> underAnyOpaque (dr_opaque st @ [EvidenceWorkspaceDir]) p) base = gone"
    unfolding gone_def underAnyOpaque_iff using c o by (intro filter_cong) auto
  from assms(1) st g show "cs = sortChanges (concat (map (\<lambda>e. dr_changes (part g base blobs e)) es) @ map (\<lambda>(p, be). deleted_change p) gone)"
    by (simp add: deriveChanges_def es_def [symmetric] Let_def st_eq(1))
  from assms(1) st g have "fs = sortFindings (dr_findings st @ concat (map (\<lambda>(p, be). deletion_findings p be) gone))"
    by (simp add: deriveChanges_def es_def [symmetric] Let_def)
  then show "set fs = (\<Union>e \<in> set es. set (dr_findings (part g base blobs e))) \<union> (\<Union>(p, be) \<in> set gone. set (deletion_findings p be))"
    by (simp add: sortFindings_def st_eq(2) case_prod_unfold)
qed


text \<open>The paths of a valid manifest name one entry each.\<close>

lemma seen_path_key: "seen_path e = Some p \<Longrightarrow> sortKey e = p"
  by (cases "en_kind e") (auto simp: seen_path_def sortKey_def)

lemma seen_path_unique:
  assumes "Manifest_Validate m = None" "e \<in> set (mf_entries m)" "e' \<in> set (mf_entries m)"
    and "seen_path e = Some p" "seen_path e' = Some p"
  shows "e = e'"
  using inj_onD [of sortKey "set (mf_entries m)" e e'] Manifest_paths(1) [OF assms(1)] assms(2-) seen_path_key
  by (metis distinct_map)

lemma derived_deletions_exact':
  assumes "deriveChanges g base m blobs = Inr (cs, fs)"
  shows "c \<in> set cs \<and> pl_kind c = ChangeDeleted \<longleftrightarrow> c = deleted_change (pl_path c) \<and> pl_path c \<in> fst ` set base
    \<and> pl_path c \<noteq> EvidenceWorkspaceDir \<and> (\<forall>e \<in> set (mf_entries m). seen_path e \<noteq> Some (pl_path c))
    \<and> (\<forall>d r. pl_path c = d @ SLASH # r \<longrightarrow> d \<noteq> EvidenceWorkspaceDir \<and> (\<forall>e \<in> set (mf_entries m). opaque_path e \<noteq> Some d))"
proof -
  note parts = deriveChanges_parts [OF assms]
  have live: "pl_kind x \<noteq> ChangeDeleted" if "e \<in> set (mf_entries m)" "x \<in> set (dr_changes (part g base blobs e))" for e x
    using part_paths(1) parts(1) that by blast
  have d: "pl_path (deleted_change p) = p" "pl_kind (deleted_change p) = ChangeDeleted" for p
    by (simp_all add: deleted_change_def blank_change_def)
  define Q where "Q p \<longleftrightarrow> p \<noteq> EvidenceWorkspaceDir \<and> (\<forall>e \<in> set (mf_entries m). seen_path e \<noteq> Some p)
      \<and> \<not> (\<exists>d r. p = d @ SLASH # r \<and> (d = EvidenceWorkspaceDir \<or> (\<exists>e \<in> set (mf_entries m). opaque_path e = Some d)))" for p
  have "c \<in> set cs \<and> pl_kind c = ChangeDeleted \<longleftrightarrow> c \<in> (\<lambda>(p, be). deleted_change p) ` {(p, be) \<in> set base. Q p}"
    unfolding parts(2) sortChanges_def Q_def using live d(2) by auto
  also have "\<dots> \<longleftrightarrow> c = deleted_change (pl_path c) \<and> pl_path c \<in> fst ` set base \<and> Q (pl_path c)"
  proof
    assume "c \<in> (\<lambda>(p, be). deleted_change p) ` {(p, be) \<in> set base. Q p}"
    then obtain p be where "(p, be) \<in> set base" "c = deleted_change p" "Q p" by auto
    then show "c = deleted_change (pl_path c) \<and> pl_path c \<in> fst ` set base \<and> Q (pl_path c)"
      by (simp add: d(1)) force
  next
    assume r: "c = deleted_change (pl_path c) \<and> pl_path c \<in> fst ` set base \<and> Q (pl_path c)"
    then obtain be where "(pl_path c, be) \<in> set base" by force
    with r show "c \<in> (\<lambda>(p, be). deleted_change p) ` {(p, be) \<in> set base. Q p}" by (intro image_eqI [of _ _ "(pl_path c, be)"]) simp_all
  qed
  finally show ?thesis unfolding Q_def by blast
qed


text \<open>
  The derived deletions are exact: a base path is deleted precisely when the snapshot could see its
  place and holds nothing there, so no entry names it, it is not the reserved evidence directory, and
  it lies under neither that directory, nor a submodule, nor a name the exporter could not represent:
  no mass deletion falls out of blindness.
\<close>

theorem derived_deletions_exact:
  assumes "deriveChanges g base m blobs = Inr (cs, fs)"
  shows "c \<in> set cs \<and> pl_kind c = ChangeDeleted \<longleftrightarrow> c = deleted_change (pl_path c) \<and> pl_path c \<in> fst ` set base
    \<and> pl_path c \<noteq> EvidenceWorkspaceDir \<and> (\<forall>e \<in> set (mf_entries m). seen_path e \<noteq> Some (pl_path c))
    \<and> (\<forall>d r. pl_path c = d @ SLASH # r \<longrightarrow> d \<noteq> EvidenceWorkspaceDir \<and> (\<forall>e \<in> set (mf_entries m). opaque_path e \<noteq> Some d))"
  by (rule derived_deletions_exact' [OF assms])

lemma in_tree_seen: "Entry_Validate e = None \<Longrightarrow> in_tree e \<Longrightarrow> seen_path e = Some (en_path e)"
  by (cases "en_kind e") (simp_all add: Entry_Validate_def validation in_tree_def seen_path_def)

text \<open>The base paths an import keeps although the snapshot holds no entry for them.\<close>

definition retained :: "Manifest \<Rightarrow> string \<Rightarrow> bool" where
  "retained m p \<longleftrightarrow> p = EvidenceWorkspaceDir \<or> (\<exists>d r. p = d @ SLASH # r
     \<and> (d = EvidenceWorkspaceDir \<or> (\<exists>e \<in> set (mf_entries m). en_kind e = EntrySubmodule \<and> en_path e = d)))"

lemma derived_paths_distinct:
  assumes "Manifest_Validate m = None" "distinct (map fst base)" "deriveChanges g base m blobs = Inr (cs, fs)"
  shows "distinct (map pl_path cs)"
proof -
  let ?es = "mf_entries m"
  note parts = deriveChanges_parts [OF assms(3)]
  let ?live = "concat (map (\<lambda>e. dr_changes (part g base blobs e)) ?es)"
  let ?gone = "filter (\<lambda>(p, be). p \<noteq> EvidenceWorkspaceDir \<and> (\<forall>e \<in> set ?es. seen_path e \<noteq> Some p)
      \<and> \<not> (\<exists>d r. p = d @ SLASH # r \<and> (d = EvidenceWorkspaceDir \<or> (\<exists>e \<in> set ?es. opaque_path e = Some d)))) base"
  have live: "pl_path x = en_path e \<and> seen_path e = Some (en_path e)"
    if "e \<in> set ?es" "x \<in> set (dr_changes (part g base blobs e))" for e x
    using part_paths(1) parts(1) that by blast
  have one: "length (dr_changes (part g base blobs e)) \<le> 1" if "e \<in> set ?es" for e
    using part_paths(2) parts(1) that by blast
  have "distinct ?es" using Manifest_paths(1) [OF assms(1)] by (simp add: distinct_map)
  have "distinct (map pl_path (concat (map (\<lambda>e. dr_changes (part g base blobs e)) xs)))" if "set xs \<subseteq> set ?es" "distinct xs" for xs
    using that
  proof (induction xs)
    case (Cons e xs)
    from Cons.prems one [of e] have "dr_changes (part g base blobs e) = [] \<or> (\<exists>x. dr_changes (part g base blobs e) = [x])"
      by (cases "dr_changes (part g base blobs e)") auto
    moreover have "pl_path x \<noteq> pl_path y" if "x \<in> set (dr_changes (part g base blobs e))" "e' \<in> set xs"
      "y \<in> set (dr_changes (part g base blobs e'))" for x y e'
    proof
      assume eq: "pl_path x = pl_path y"
      from Cons.prems that(2) have e: "e \<in> set ?es" "e' \<in> set ?es" "e \<noteq> e'" by auto
      from live [OF e(1) that(1)] live [OF e(2) that(3)] eq seen_path_unique [OF assms(1) e(1,2)] e(3) show False by metis
    qed
    ultimately show ?case using Cons by auto
  qed simp
  with \<open>distinct ?es\<close> have "distinct (map pl_path ?live)" by blast
  moreover have "map pl_path (map (\<lambda>(p, be). deleted_change p) xs) = map fst xs" for xs :: base_tree
    by (induction xs) (auto simp: deleted_change_def blank_change_def)
  moreover have "distinct (map fst (filter P base))" for P using assms(2) by (rule distinct_map_filter)
  moreover have "pl_path ` set ?live \<inter> fst ` set ?gone = {}"
  proof -
    have "pl_path x \<notin> fst ` set ?gone" if "x \<in> set ?live" for x
    proof -
      from that obtain e where "e \<in> set ?es" "x \<in> set (dr_changes (part g base blobs e))" by auto
      with live have "e \<in> set ?es" "seen_path e = Some (pl_path x)" by metis+
      then show ?thesis by auto
    qed
    then show ?thesis by blast
  qed
  ultimately have "distinct (map pl_path ?live @ map pl_path (map (\<lambda>(p, be). deleted_change p) ?gone))"
    by (simp only: distinct_append list.set_map simp_thms)
  then have d: "distinct (map pl_path (?live @ map (\<lambda>(p, be). deleted_change p) ?gone))" by (simp only: map_append)
  have "mset (map pl_path cs) = mset (map pl_path (?live @ map (\<lambda>(p, be). deleted_change p) ?gone))"
    unfolding parts(2) sortChanges_def by (simp only: mset_map mset_sort)
  with d show ?thesis using mset_eq_imp_distinct_iff by blast
qed

lemma derived_changes:
  assumes "deriveChanges g base m blobs = Inr (cs, fs)"
  shows "e \<in> set (mf_entries m) \<Longrightarrow> x \<in> set (dr_changes (part g base blobs e)) \<Longrightarrow>
      x \<in> set cs \<and> pl_path x = en_path e \<and> in_tree e \<and> seen_path e = Some (en_path e)"
    and "c \<in> set cs \<Longrightarrow> (\<exists>e \<in> set (mf_entries m). c \<in> set (dr_changes (part g base blobs e))) \<or> pl_kind c = ChangeDeleted"
proof -
  note parts = deriveChanges_parts [OF assms]
  show "x \<in> set cs \<and> pl_path x = en_path e \<and> in_tree e \<and> seen_path e = Some (en_path e)"
    if "e \<in> set (mf_entries m)" "x \<in> set (dr_changes (part g base blobs e))"
    using that part_paths(1) [OF bspec [OF parts(1) that(1)] that(2)] unfolding parts(2) sortChanges_def by auto
  show "c \<in> set cs \<Longrightarrow> (\<exists>e \<in> set (mf_entries m). c \<in> set (dr_changes (part g base blobs e))) \<or> pl_kind c = ChangeDeleted"
    unfolding parts(2) sortChanges_def by (auto simp: deleted_change_def blank_change_def)
qed

lemma unblocked_part:
  assumes "deriveChanges g base m blobs = Inr (cs, fs)" "\<forall>f \<in> set fs. \<not> blocksCommit (fnd_kind f)" "e \<in> set (mf_entries m)"
  shows "\<forall>f \<in> set (dr_findings (part g base blobs e)). \<not> blocksCommit (fnd_kind f)"
  using assms(2,3) unfolding deriveChanges_parts(3) [OF assms(1)] by blast

lemma entry_keeps_or_changes:
  assumes "Manifest_Validate m = None" "deriveChanges g base m blobs = Inr (cs, fs)"
    and "e \<in> set (mf_entries m)" "seen_path e = Some (en_path e)" "dr_changes (part g base blobs e) = []"
  shows "en_path e \<notin> pl_path ` set cs"
proof
  assume "en_path e \<in> pl_path ` set cs"
  then obtain y where y: "y \<in> set cs" "pl_path y = en_path e" by auto
  from derived_changes(2) [OF assms(2) y(1)] show False
  proof
    assume "\<exists>e' \<in> set (mf_entries m). y \<in> set (dr_changes (part g base blobs e'))"
    then obtain e' where e': "e' \<in> set (mf_entries m)" "y \<in> set (dr_changes (part g base blobs e'))" by blast
    with derived_changes(1) [OF assms(2)] y(2) have "seen_path e' = Some (en_path e)" by metis
    from seen_path_unique [OF assms(1) assms(3) e'(1) assms(4) this] e'(2) assms(5) show False by simp
  next
    assume "pl_kind y = ChangeDeleted"
    with derived_deletions_exact' [OF assms(2), of y] y assms(3,4) show False by metis
  qed
qed

lemma derived_entry_slot:
  assumes "Manifest_Validate m = None" "distinct (map fst base)" "deriveChanges g base m blobs = Inr (cs, fs)"
    and "\<forall>f \<in> set fs. \<not> blocksCommit (fnd_kind f)" "e \<in> set (mf_entries m)" "in_tree e"
  shows "slot_holds g (map_of base) blobs e (apply_all (map_of base) cs (en_path e))"
proof -
  from Manifest_paths(2) [OF assms(1,5)] have v: "Entry_Validate e = None" .
  from in_tree_seen [OF v assms(6)] have seen: "seen_path e = Some (en_path e)" .
  from kept_slot [OF bspec [OF deriveChanges_parts(1) [OF assms(3)] assms(5)] v seen unblocked_part [OF assms(3,4,5)]]
  obtain c where c: "dr_changes (part g base blobs e) = (case c of None \<Rightarrow> [] | Some x \<Rightarrow> [x])" "live_change_of e c"
    "slot_holds g (map_of base) blobs e (entry_slot (map_of base) e c)" by blast
  show ?thesis
  proof (cases c)
    case (Some x)
    with c(1) derived_changes(1) [OF assms(3,5), of x] have "x \<in> set cs" "pl_path x = en_path e" by simp_all
    with apply_all_at [OF derived_paths_distinct [OF assms(1-3)], of x "map_of base" Map.empty] Some c(3)
    show ?thesis by (simp add: entry_slot_def)
  next
    case None
    with entry_keeps_or_changes [OF assms(1,3,5) seen] c(1) have "en_path e \<notin> pl_path ` set cs" by simp
    with apply_all_other c(3) None show ?thesis by (simp add: entry_slot_def)
  qed
qed

lemma derived_other_slot:
  assumes "Manifest_Validate m = None" "distinct (map fst base)" "deriveChanges g base m blobs = Inr (cs, fs)"
    and "\<forall>f \<in> set fs. \<not> blocksCommit (fnd_kind f)" "\<forall>e \<in> set (mf_entries m). in_tree e \<longrightarrow> en_path e \<noteq> p"
  shows "apply_all (map_of base) cs p = (if retained m p then map_of base p else None)"
proof -
  have tree: "q = en_path e \<and> in_tree e" if "e \<in> set (mf_entries m)" "seen_path e = Some q" for e q
    using kept_slot [OF bspec [OF deriveChanges_parts(1) [OF assms(3)] that(1)] Manifest_paths(2) [OF assms(1) that(1)]
      that(2) unblocked_part [OF assms(3,4) that(1)]] by blast
  have unseen: "\<forall>e \<in> set (mf_entries m). seen_path e \<noteq> Some p" using tree assms(5) by metis
  have opq: "opaque_path e = Some d \<longleftrightarrow> en_kind e = EntrySubmodule \<and> en_path e = d" if "e \<in> set (mf_entries m)" for e d
    using tree [OF that, of d] by (cases "en_kind e") (auto simp: opaque_path_def seen_path_def in_tree_def)
  have ret: "retained m p \<longleftrightarrow> p = EvidenceWorkspaceDir \<or> (\<exists>d r. p = d @ SLASH # r
      \<and> (d = EvidenceWorkspaceDir \<or> (\<exists>e \<in> set (mf_entries m). opaque_path e = Some d)))"
    unfolding retained_def using opq by metis
  have del: "c \<in> set cs \<and> pl_path c = p \<longleftrightarrow> c = deleted_change p \<and> p \<in> fst ` set base \<and> \<not> retained m p" for c
  proof -
    have d: "pl_path (deleted_change p) = p" "pl_kind (deleted_change p) = ChangeDeleted"
      by (simp_all add: deleted_change_def blank_change_def)
    have "c \<in> set cs \<and> pl_path c = p \<Longrightarrow> pl_kind c = ChangeDeleted"
      using derived_changes [OF assms(3)] assms(5) by metis
    then show ?thesis using derived_deletions_exact' [OF assms(3), of c] d unseen unfolding ret by metis
  qed
  show ?thesis
  proof (cases "p \<in> fst ` set base \<and> \<not> retained m p")
    case True
    with del have "deleted_change p \<in> set cs" "pl_path (deleted_change p) = p" by blast+
    with apply_all_at [OF derived_paths_distinct [OF assms(1-3)], of "deleted_change p" "map_of base" Map.empty] True
    show ?thesis by (simp add: apply_change_def deleted_change_def)
  next
    case False
    with del have "p \<notin> pl_path ` set cs" by blast
    with False show ?thesis by (auto simp: apply_all_other map_of_eq_None_iff)
  qed
qed

text \<open>
  The derived changes rebuild the snapshot: when no finding blocks the commit, applying them to the
  base tree leaves each entry of the manifest in its slot, at its mode and with an object that holds
  its content, keeps the base beneath the evidence directory and the submodules, and leaves nothing
  else.
\<close>

theorem derived_tree_is_snapshot:
  assumes "Manifest_Validate m = None" "distinct (map fst base)" "deriveChanges g base m blobs = Inr (cs, fs)"
    and "\<forall>f \<in> set fs. \<not> blocksCommit (fnd_kind f)"
  shows "(\<forall>e \<in> set (mf_entries m). in_tree e \<longrightarrow> slot_holds g (map_of base) blobs e (apply_all (map_of base) cs (en_path e)))
    \<and> (\<forall>p. (\<forall>e \<in> set (mf_entries m). in_tree e \<longrightarrow> en_path e \<noteq> p)
        \<longrightarrow> apply_all (map_of base) cs p = (if retained m p then map_of base p else None))"
  using derived_entry_slot [OF assms] derived_other_slot [OF assms] by blast

section \<open>The tree check of a commit\<close>

definition nullOID :: string where "nullOID = replicate 40 CHR ''0''"

record diffRecord =
  df_path :: string
  df_status :: string
  df_mode :: string
  df_oid :: string

definition diffStatus :: "ChangeKind \<Rightarrow> string" where
  "diffStatus k = (case k of ChangeAdded \<Rightarrow> ''A'' | ChangeModified \<Rightarrow> ''M'' | ChangeDeleted \<Rightarrow> ''D'' | ChangeKindOther _ \<Rightarrow> ''?'')"

text \<open>The text of one \<open>--index-info\<close> record of each change; \<open>ingested\<close> is what \<open>hash-object\<close> answered.\<close>

fun indexRecords :: "(string \<Rightarrow> string) \<Rightarrow> plannedChange list \<Rightarrow> err + string list" where
  "indexRecords ingested [] = Inr []"
| "indexRecords ingested (c # cs) =
     (case pl_kind c of
        ChangeDeleted \<Rightarrow> ebind (indexRecords ingested cs) (\<lambda>rs. Inr ((''0 '' @ nullOID @ CHR 0x09 # pl_path c) # rs))
      | ChangeKindOther _ \<Rightarrow> indexRecords ingested cs
      | _ \<Rightarrow>
          if pl_oid c = [] then Inl ErrTreeMismatch
          else if \<not> pl_from_base c \<and> ingested (pl_digest c) \<noteq> pl_oid c then Inl ErrTreeMismatch
          else ebind (indexRecords ingested cs) (\<lambda>rs. Inr ((pl_mode c @ '' '' @ pl_oid c @ CHR 0x09 # pl_path c) # rs)))"

definition check_record :: "(string \<rightharpoonup> plannedChange) \<Rightarrow> diffRecord \<Rightarrow> err option" where
  "check_record planned r = (case planned (df_path r) of
     None \<Rightarrow> Some ErrTreeMismatch
   | Some c \<Rightarrow> first_error [
       require (df_status r = diffStatus (pl_kind c)) ErrTreeMismatch,
       (let (wantMode, wantOID) = (if pl_kind c = ChangeDeleted then (''000000'', nullOID) else (pl_mode c, pl_oid c))
        in require (df_mode r = wantMode \<and> df_oid r = wantOID) ErrTreeMismatch)])"

definition verifyTreeMatchesChanges :: "diffRecord list \<Rightarrow> plannedChange list \<Rightarrow> err option" where
  "verifyTreeMatchesChanges recs cs = (if length recs \<noteq> length cs then Some ErrTreeMismatch
     else first_error (map (check_record (map_of (rev (map (\<lambda>c. (pl_path c, c)) cs)))) recs))"

text \<open>
  What \<open>diff-tree -r --no-renames\<close> documents: one record for each path whose slot differs, added, deleted
  or otherwise modified (or retyped, \<open>T\<close>), with the new mode and object.
\<close>

definition faithful_diff :: "(string \<rightharpoonup> treeEntry) \<Rightarrow> (string \<rightharpoonup> treeEntry) \<Rightarrow> diffRecord list \<Rightarrow> bool" where
  "faithful_diff base tree recs \<longleftrightarrow> distinct (map df_path recs) \<and> (\<forall>p. base p \<noteq> tree p \<longleftrightarrow> p \<in> df_path ` set recs)
     \<and> (\<forall>r \<in> set recs. case tree (df_path r) of
          None \<Rightarrow> df_status r = ''D''
        | Some t \<Rightarrow> df_mode r = te_mode t \<and> df_oid r = te_oid t
            \<and> (if base (df_path r) = None then df_status r = ''A'' else df_status r = ''M'' \<or> df_status r = ''T''))"

lemma planned_lookup: "distinct (map pl_path cs) \<Longrightarrow>
    map_of (rev (map (\<lambda>c. (pl_path c, c)) cs)) p = Some c \<longleftrightarrow> c \<in> set cs \<and> pl_path c = p"
proof -
  assume "distinct (map pl_path cs)"
  then have "distinct (map fst (rev (map (\<lambda>c. (pl_path c, c)) cs)))" by (simp add: rev_map [symmetric] o_def)
  then show ?thesis by (auto simp flip: in_table_iff)
qed

lemma verified_paths:
  assumes "verifyTreeMatchesChanges recs cs = None" "distinct (map pl_path cs)" "distinct (map df_path recs)"
  shows "df_path ` set recs = pl_path ` set cs"
    and "r \<in> set recs \<Longrightarrow> \<exists>c \<in> set cs. pl_path c = df_path r \<and> check_record (\<lambda>_. Some c) r = None"
proof -
  have checked: "\<exists>c \<in> set cs. pl_path c = df_path r \<and> check_record (\<lambda>_. Some c) r = None" if "r \<in> set recs" for r
  proof -
    from assms(1) that have "check_record (map_of (rev (map (\<lambda>c. (pl_path c, c)) cs))) r = None"
      by (simp add: verifyTreeMatchesChanges_def first_error_map_None split: if_split_asm)
    then obtain c where "map_of (rev (map (\<lambda>c. (pl_path c, c)) cs)) (df_path r) = Some c" "check_record (\<lambda>_. Some c) r = None"
      by (cases "map_of (rev (map (\<lambda>c. (pl_path c, c)) cs)) (df_path r)") (simp_all add: check_record_def)
    with planned_lookup [OF assms(2)] show ?thesis by blast
  qed
  then show "r \<in> set recs \<Longrightarrow> \<exists>c \<in> set cs. pl_path c = df_path r \<and> check_record (\<lambda>_. Some c) r = None" .
  from checked have sub: "df_path ` set recs \<subseteq> pl_path ` set cs" by (metis image_subsetI imageI)
  have "length recs = length cs" using assms(1) by (simp add: verifyTreeMatchesChanges_def split: if_split_asm)
  then have "card (df_path ` set recs) = card (pl_path ` set cs)"
    using distinct_card [OF assms(2)] distinct_card [OF assms(3)] by simp
  with sub show "df_path ` set recs = pl_path ` set cs" by (intro card_subset_eq) simp_all
qed

lemma verified_tree:
  assumes "verifyTreeMatchesChanges recs cs = None" "distinct (map pl_path cs)" "faithful_diff base tree recs"
  shows "tree = apply_all base cs"
proof
  fix p
  from assms(3) have dist: "distinct (map df_path recs)" and diff: "base p \<noteq> tree p \<longleftrightarrow> p \<in> df_path ` set recs"
    by (auto simp: faithful_diff_def)
  note paths = verified_paths [OF assms(1,2) dist]
  show "tree p = apply_all base cs p"
  proof (cases "p \<in> df_path ` set recs")
    case False
    with paths(1) diff show ?thesis by (simp add: apply_all_other)
  next
    case True
    then obtain r where r: "r \<in> set recs" "df_path r = p" by auto
    with paths(2) obtain c where c: "c \<in> set cs" "pl_path c = p" "check_record (\<lambda>_. Some c) r = None" by metis
    from assms(3) have "\<forall>r \<in> set recs. case tree (df_path r) of None \<Rightarrow> df_status r = ''D''
        | Some t \<Rightarrow> df_mode r = te_mode t \<and> df_oid r = te_oid t
            \<and> (if base (df_path r) = None then df_status r = ''A'' else df_status r = ''M'' \<or> df_status r = ''T'')"
      unfolding faithful_diff_def by blast
    from bspec [OF this r(1)] have s: "case tree p of None \<Rightarrow> df_status r = ''D''
        | Some t \<Rightarrow> df_mode r = te_mode t \<and> df_oid r = te_oid t
            \<and> (if base p = None then df_status r = ''A'' else df_status r = ''M'' \<or> df_status r = ''T'')"
      unfolding r(2) .
    from c(3) have st: "df_status r = diffStatus (pl_kind c)"
      "pl_kind c \<noteq> ChangeDeleted \<Longrightarrow> df_mode r = pl_mode c \<and> df_oid r = pl_oid c"
      by (simp_all add: check_record_def validation)
    have "tree p = apply_change Map.empty c p"
      using s st c(2) by (cases "pl_kind c"; cases "tree p") (auto simp: diffStatus_def apply_change_def split: if_split_asm)
    with apply_all_at [OF assms(2) c(1), of base Map.empty] c(2) show ?thesis by simp
  qed
qed


text \<open>
  What an import commits is the snapshot: when the manifest is valid, no finding blocks the commit
  and the built tree passes the check against a faithful diff from the base, then every slot of the
  tree holds the manifest's entry, the base stands beneath the evidence directory and the submodules,
  and there is nothing else; whatever the index commands in between did.
\<close>

theorem committed_tree_is_snapshot:
  assumes "Manifest_Validate m = None" "distinct (map fst base)" "deriveChanges g base m blobs = Inr (cs, fs)"
    and "\<forall>f \<in> set fs. \<not> blocksCommit (fnd_kind f)"
    and "faithful_diff (map_of base) tree recs" "verifyTreeMatchesChanges recs cs = None"
  shows "(\<forall>e \<in> set (mf_entries m). in_tree e \<longrightarrow> slot_holds g (map_of base) blobs e (tree (en_path e)))
    \<and> (\<forall>p. (\<forall>e \<in> set (mf_entries m). in_tree e \<longrightarrow> en_path e \<noteq> p)
        \<longrightarrow> tree p = (if retained m p then map_of base p else None))"
proof -
  have "tree = apply_all (map_of base) cs"
    by (rule verified_tree [OF assms(6) derived_paths_distinct [OF assms(1-3)] assms(5)])
  with derived_entry_slot [OF assms(1-4)] derived_other_slot [OF assms(1-4)] show ?thesis by blast
qed

section \<open>The caps on stored blobs\<close>

lemma accumulateNeeded_Inr:
  assumes "accumulateNeeded needed t d n maxBlob maxTotal = Inr (needed', t')"
    and "distinct (map fst needed)" "t = sum_list (map snd needed)" "0 \<le> n" "n \<le> max_int64"
    and "0 < maxTotal" "maxTotal \<le> max_int64" "0 \<le> t" "t \<le> maxTotal"
  shows "distinct (map fst needed') \<and> t' = sum_list (map snd needed') \<and> 0 \<le> t' \<and> t' \<le> maxTotal
    \<and> map_of needed' = (map_of needed)(d \<mapsto> n) \<and> (\<forall>k. map_of needed d = Some k \<longrightarrow> k = n) \<and> (0 < maxBlob \<longrightarrow> n \<le> maxBlob)"
proof (cases "map_of needed d")
  case (Some k)
  with assms show ?thesis by (auto simp: accumulateNeeded_def split: if_split_asm)
next
  case None
  have w: "wrap64 (maxTotal - t) = maxTotal - t" by (rule wrap64_id) (use assms in \<open>auto simp: max_int64_def min_int64_def\<close>)
  from None have u: "AList.update d n needed = needed @ [(d, n)]" by (induction needed) (auto split: if_split_asm)
  from assms(1) None w have n: "n \<le> maxTotal - t" "needed' = needed @ [(d, n)]" "t' = wrap64 (t + n)" "0 < maxBlob \<longrightarrow> n \<le> maxBlob"
    using assms(6) by (auto simp: accumulateNeeded_def u split: if_split_asm)
  have "wrap64 (t + n) = t + n" by (rule wrap64_id) (use assms n(1) in \<open>auto simp: max_int64_def min_int64_def\<close>)
  moreover have "map_of (needed @ [(d, n)]) = (map_of needed)(d \<mapsto> n)"
    by (rule ext) (use None in \<open>auto simp: map_add_def split: option.split\<close>)
  moreover have "\<forall>k. map_of needed d = Some k \<longrightarrow> k = n" using None by simp
  moreover have "d \<notin> fst ` set needed" using None by (simp add: map_of_eq_None_iff)
  ultimately show ?thesis using assms(2-) n by simp
qed


text \<open>The stored blobs a list of entries needs.\<close>

definition stored :: "Entry list \<Rightarrow> string \<Rightarrow> int \<Rightarrow> bool" where
  "stored es d n \<longleftrightarrow> (\<exists>e \<in> set es. en_kind e = EntryRegular \<and> \<not> en_blob_omitted e \<and> en_digest e = Some d \<and> en_size e = Some n)"

lemma stored_Cons: "stored (e # es) d n \<longleftrightarrow>
    (en_kind e = EntryRegular \<and> \<not> en_blob_omitted e \<and> en_digest e = Some d \<and> en_size e = Some n) \<or> stored es d n"
  by (simp add: stored_def)

lemma accumulate_entries_Inr:
  assumes "accumulate_entries pol needed t es = Inr (needed', t')"
    and "\<forall>e \<in> set es. \<forall>n. en_size e = Some n \<longrightarrow> 0 \<le> n \<and> n \<le> max_int64"
    and "0 < plc_max_total_bytes pol" "plc_max_total_bytes pol \<le> max_int64"
    and "distinct (map fst needed)" "t = sum_list (map snd needed)" "0 \<le> t" "t \<le> plc_max_total_bytes pol"
  shows "distinct (map fst needed') \<and> t' = sum_list (map snd needed') \<and> t' \<le> plc_max_total_bytes pol
    \<and> map_of needed \<subseteq>\<^sub>m map_of needed' \<and> (\<forall>d n. map_of needed' d = Some n \<longleftrightarrow> map_of needed d = Some n \<or> stored es d n)
    \<and> (\<forall>d n. stored es d n \<and> 0 < plc_max_blob_bytes pol \<longrightarrow> n \<le> plc_max_blob_bytes pol)"
  using assms
proof (induction es arbitrary: needed t)
  case Nil
  then show ?case by (auto simp: stored_def)
next
  case (Cons e es)
  show ?case
  proof (cases "en_kind e \<noteq> EntryRegular \<or> en_blob_omitted e")
    case True
    have r: "accumulate_entries pol needed t es = Inr (needed', t')" using Cons.prems(1) True by simp
    have ih: "distinct (map fst needed') \<and> t' = sum_list (map snd needed')
        \<and> t' \<le> plc_max_total_bytes pol \<and> map_of needed \<subseteq>\<^sub>m map_of needed'
        \<and> (\<forall>d n. map_of needed' d = Some n \<longleftrightarrow> map_of needed d = Some n \<or> stored es d n)
        \<and> (\<forall>d n. stored es d n \<and> 0 < plc_max_blob_bytes pol \<longrightarrow> n \<le> plc_max_blob_bytes pol)"
      by (rule Cons.IH [OF r _ Cons.prems(3-)]) (use Cons.prems(2) in simp)
    have st: "stored (e # es) = stored es" using True by (intro ext) (auto simp: stored_Cons)
    show ?thesis unfolding st by (rule ih)
  next
    case False
    with Cons.prems(1) obtain d n needed1 t1 where e: "en_digest e = Some d" "en_size e = Some n"
      and a: "accumulateNeeded needed t d n (plc_max_blob_bytes pol) (plc_max_total_bytes pol) = Inr (needed1, t1)"
      and r: "accumulate_entries pol needed1 t1 es = Inr (needed', t')"
      by (auto split: option.splits sum.splits)
    from Cons.prems(2) e(2) have n: "0 \<le> n" "n \<le> max_int64" by auto
    note step = accumulateNeeded_Inr [OF a Cons.prems(5,6) n Cons.prems(3,4,7,8)]
    then have inv: "distinct (map fst needed1)" "t1 = sum_list (map snd needed1)" "0 \<le> t1" "t1 \<le> plc_max_total_bytes pol" by blast+
    have ih: "distinct (map fst needed') \<and> t' = sum_list (map snd needed')
        \<and> t' \<le> plc_max_total_bytes pol \<and> map_of needed1 \<subseteq>\<^sub>m map_of needed'
        \<and> (\<forall>d n. map_of needed' d = Some n \<longleftrightarrow> map_of needed1 d = Some n \<or> stored es d n)
        \<and> (\<forall>d n. stored es d n \<and> 0 < plc_max_blob_bytes pol \<longrightarrow> n \<le> plc_max_blob_bytes pol)"
      by (rule Cons.IH [OF r _ Cons.prems(3,4) inv]) (use Cons.prems(2) in simp)
    from step have up: "map_of needed1 = (map_of needed)(d \<mapsto> n)" "\<forall>k. map_of needed d = Some k \<longrightarrow> k = n"
      "0 < plc_max_blob_bytes pol \<longrightarrow> n \<le> plc_max_blob_bytes pol" by blast+
    have sc: "stored (e # es) d' n' \<longleftrightarrow> d' = d \<and> n' = n \<or> stored es d' n'" for d' n'
      using False e by (auto simp: stored_Cons)
    have m1: "map_of needed1 d' = Some n' \<longleftrightarrow> d' = d \<and> n' = n \<or> map_of needed d' = Some n'" for d' n'
      using up(1,2) by (auto split: if_split_asm)
    have "map_of needed \<subseteq>\<^sub>m map_of needed1" unfolding map_le_def using m1 by (metis domD)
    with ih have "map_of needed \<subseteq>\<^sub>m map_of needed'" using map_le_trans by blast
    with ih up(3) show ?thesis unfolding sc m1 by blast
  qed
qed

text \<open>
  The bytes an import reads from the handoff are bounded before any is read: when the accounting
  accepts the entries of a valid manifest, the needed blobs are exactly those of its stored regular
  entries, each digest once at one size within the blob cap, and their sizes add up, without
  overflow, to the counted total, which is within the total cap.
\<close>

theorem stored_blobs_bounded:
  assumes "accumulate_entries pol [] 0 es = Inr (needed, counted)"
    and "\<forall>e \<in> set es. \<forall>n. en_size e = Some n \<longrightarrow> 0 \<le> n \<and> n \<le> max_int64"
    and "0 < plc_max_total_bytes pol" "plc_max_total_bytes pol \<le> max_int64"
  shows "distinct (map fst needed) \<and> counted = sum_list (map snd needed) \<and> counted \<le> plc_max_total_bytes pol
    \<and> (\<forall>d n. map_of needed d = Some n \<longleftrightarrow> stored es d n)
    \<and> (\<forall>d n. map_of needed d = Some n \<and> 0 < plc_max_blob_bytes pol \<longrightarrow> n \<le> plc_max_blob_bytes pol)"
proof -
  have "distinct (map fst needed) \<and> counted = sum_list (map snd needed) \<and> counted \<le> plc_max_total_bytes pol
    \<and> map_of [] \<subseteq>\<^sub>m map_of needed \<and> (\<forall>d n. map_of needed d = Some n \<longleftrightarrow> map_of [] d = Some n \<or> stored es d n)
    \<and> (\<forall>d n. stored es d n \<and> 0 < plc_max_blob_bytes pol \<longrightarrow> n \<le> plc_max_blob_bytes pol)"
    by (rule accumulate_entries_Inr [OF assms(1-4)]) (use assms(3) in simp_all)
  then show ?thesis by (metis map_of.simps(1) option.distinct(1))
qed


section \<open>Witnesses\<close>

definition example_digest :: string where "example_digest = ''sha256:'' @ replicate 64 CHR ''a''"

definition example_snapshot :: Manifest where
  "example_snapshot = \<lparr>mf_version = ManifestVersion, mf_entries = [example_entry\<lparr>en_digest := Some example_digest\<rparr>]\<rparr>"

definition example_tree :: base_tree where
  "example_tree = [(''a.md'', \<lparr>te_mode = ''100644'', te_oid = ''rr''\<rparr>), (''src/main.go'', \<lparr>te_mode = ''100644'', te_oid = ''aa''\<rparr>)]"

definition example_reader :: git_reader where
  "example_reader = \<lparr>gr_size = (\<lambda>_. Inr 3), gr_digest = (\<lambda>_. Inr (example_digest, 3)), gr_content = (\<lambda>_. Inr [])\<rparr>"

definition example_blobs :: "string \<Rightarrow> blobInfo option" where
  "example_blobs d = (if d = example_digest then Some \<lparr>bi_size = 3, bi_oid = ''bb'', bi_path = ''snap''\<rparr> else None)"

definition example_derived :: "plannedChange list" where
  "example_derived = [blank_change ''a.md'' ChangeDeleted,
     (blank_change ''src/main.go'' ChangeModified)\<lparr>pl_mode := ''100644'', pl_oid := ''bb'', pl_digest := example_digest, pl_size := 3,
       pl_verified_path := ''snap''\<rparr>]"

lemma ValidString_ascii: "\<forall>c \<in> set s. byte c < 128 \<Longrightarrow> ValidString s"
proof (induction s)
  case (Cons c s)
  then show ?case by (subst ValidString.simps) (simp add: RuneError_def)
qed (simp add: ValidString.simps)

lemma example_derive: "deriveChanges example_reader example_tree example_snapshot example_blobs = Inr (example_derived, [])"
proof -
  have e: "derive_entry example_reader example_tree example_blobs (example_entry\<lparr>en_digest := Some example_digest\<rparr>)
      = Inr (nothing_derived\<lparr>dr_changes := [(blank_change ''src/main.go'' ChangeModified)\<lparr>pl_mode := ''100644'', pl_oid := ''bb'',
          pl_digest := example_digest, pl_size := 3, pl_verified_path := ''snap''\<rparr>], dr_consumed := [''src/main.go'']\<rparr>)"
    by (simp add: derive_entry_def example_entry_def deriveRegular_def derive_stored_def example_tree_def regular_mode_def
        example_blobs_def Let_def changeKindAgainst_def replaces_nonregular_def derived_from_def nothing_derived_def)
  have "ValidString ''a.md''" by (rule ValidString_ascii) (auto simp: byte_def)
  moreover have "\<not> underAnyOpaque [EvidenceWorkspaceDir] ''a.md''" by code_simp
  ultimately show ?thesis
    by (simp add: deriveChanges_def example_snapshot_def e nothing_derived_def Let_def sortFindings_def sortChanges_def
        deleted_change_def deletion_findings_def regular_mode_def example_derived_def)
      (auto simp: example_tree_def EvidenceWorkspaceDir_def blank_change_def)
qed


lemma example_snapshot_valid: "Manifest_Validate example_snapshot = None"
proof -
  have "Valid example_digest"
    using Parse_iff [of example_digest "replicate 64 CHR ''a''"]
    by (simp add: Valid_def example_digest_def prefix_def is_lower_hex_def)
  moreover have "ValidString ''src/main.go''" by (rule ValidString_ascii) (auto simp: byte_def)
  ultimately show ?thesis
    by (simp add: Manifest_Validate_def example_snapshot_def example_entry_def Entry_Validate_def validateRegular_def validation
        ValidCanonicalPath_def ValidPath_def require_def first_error.simps)
qed

lemma derived_deletions_exact_witness: "deleted_change ''a.md'' \<in> set example_derived"
proof -
  have "pl_path (deleted_change ''a.md'') = ''a.md''" by (simp add: deleted_change_def blank_change_def)
  with derived_deletions_exact [OF example_derive, of "deleted_change ''a.md''"] show ?thesis
    by (simp add: example_tree_def example_snapshot_def example_entry_def EvidenceWorkspaceDir_def seen_path_def Cons_eq_append_conv)
qed

lemma derived_tree_is_snapshot_witness:
  "apply_all (map_of example_tree) example_derived ''a.md'' = None
   \<and> slot_holds example_reader (map_of example_tree) example_blobs (hd (mf_entries example_snapshot))
       (apply_all (map_of example_tree) example_derived ''src/main.go'')"
proof -
  have "distinct (map fst example_tree)" by (simp add: example_tree_def)
  note t = derived_tree_is_snapshot [OF example_snapshot_valid this example_derive]
  have e: "hd (mf_entries example_snapshot) \<in> set (mf_entries example_snapshot)" "in_tree (hd (mf_entries example_snapshot))"
    "en_path (hd (mf_entries example_snapshot)) = ''src/main.go''"
    "\<forall>e \<in> set (mf_entries example_snapshot). in_tree e \<longrightarrow> en_path e \<noteq> ''a.md''"
    by (simp_all add: example_snapshot_def example_entry_def in_tree_def)
  moreover have "\<not> retained example_snapshot ''a.md''"
    by (auto simp: retained_def EvidenceWorkspaceDir_def Cons_eq_append_conv)
  ultimately show ?thesis using t by fastforce
qed

definition example_recs :: "diffRecord list" where
  "example_recs = [\<lparr>df_path = ''a.md'', df_status = ''D'', df_mode = ''000000'', df_oid = nullOID\<rparr>,
     \<lparr>df_path = ''src/main.go'', df_status = ''M'', df_mode = ''100644'', df_oid = ''bb''\<rparr>]"

lemma committed_tree_is_snapshot_witness:
  "slot_holds example_reader (map_of example_tree) example_blobs (hd (mf_entries example_snapshot))
     (Some \<lparr>te_mode = ''100644'', te_oid = ''bb''\<rparr>)"
proof -
  let ?tree = "[''src/main.go'' \<mapsto> \<lparr>te_mode = ''100644'', te_oid = ''bb''\<rparr>]"
  have d: "distinct (map fst example_tree)" by (simp add: example_tree_def)
  have f: "faithful_diff (map_of example_tree) ?tree example_recs"
    by (auto simp: faithful_diff_def example_tree_def example_recs_def)
  have v: "verifyTreeMatchesChanges example_recs example_derived = None"
    by (simp add: verifyTreeMatchesChanges_def example_recs_def example_derived_def check_record_def validation
        diffStatus_def blank_change_def)
  have "hd (mf_entries example_snapshot) \<in> set (mf_entries example_snapshot)" "in_tree (hd (mf_entries example_snapshot))"
    "en_path (hd (mf_entries example_snapshot)) = ''src/main.go''"
    by (simp_all add: example_snapshot_def example_entry_def in_tree_def)
  with committed_tree_is_snapshot [OF example_snapshot_valid d example_derive _ f v] show ?thesis by fastforce
qed

lemma stored_blobs_bounded_witness: "map_of [(example_digest, 3 :: int)] example_digest = Some 3
    \<and> stored (mf_entries example_snapshot) example_digest 3"
proof -
  have a: "accumulate_entries (example_policy\<lparr>plc_max_total_bytes := 100\<rparr>) [] 0 (mf_entries example_snapshot)
      = Inr ([(example_digest, 3)], 3)"
    by (simp add: example_snapshot_def example_entry_def accumulateNeeded_def example_policy_def wrap64_def)
  have "\<forall>e \<in> set (mf_entries example_snapshot). \<forall>n. en_size e = Some n \<longrightarrow> 0 \<le> n \<and> n \<le> max_int64"
    by (simp add: example_snapshot_def example_entry_def max_int64_def)
  from stored_blobs_bounded [OF a this] have "\<forall>d n. map_of [(example_digest, 3 :: int)] d = Some n
      \<longleftrightarrow> stored (mf_entries example_snapshot) d n"
    by (simp add: max_int64_def)
  then show ?thesis by (metis map_of_Cons_code(2))
qed

end
