(* ===== verification/GoRegex.thy ===== *)
theory GoRegex
  imports GoPath
begin

text \<open>
  The regular expressions of the Go library, as far as the source uses them, over the code points of a
  text: classes, sequences, alternatives, repetition, the ASCII word boundary and the beginning of a
  line. Whether an expression matches anywhere does not depend on how the library prefers among
  matches. \<open>ends\<close> computes where a match from a position can end; \<open>spans\<close> says what a match is.
\<close>

datatype regex =
    Class "nat \<Rightarrow> bool"
  | Empty
  | Seq regex regex
  | Alt regex regex
  | Star regex
  | Times nat regex
  | WordBoundary
  | LineStart

section \<open>Matching\<close>

definition word_rune :: "nat \<Rightarrow> bool" where
  "word_rune r \<longleftrightarrow> 48 \<le> r \<and> r \<le> 57 \<or> 65 \<le> r \<and> r \<le> 90 \<or> r = 95 \<or> 97 \<le> r \<and> r \<le> 122"

text \<open>Whether a word rune stands before a position, and at it.\<close>

definition word_before :: "nat list \<Rightarrow> nat \<Rightarrow> bool" where
  "word_before s i \<longleftrightarrow> 0 < i \<and> word_rune (s ! (i - 1))"

definition word_at :: "nat list \<Rightarrow> nat \<Rightarrow> bool" where
  "word_at s i \<longleftrightarrow> i < length s \<and> word_rune (s ! i)"

fun star_ends :: "(nat \<Rightarrow> nat list) \<Rightarrow> nat \<Rightarrow> nat \<Rightarrow> nat list" where
  "star_ends f 0 i = [i]"
| "star_ends f (Suc n) i = i # concat (map (star_ends f n) (filter (\<lambda>j. i < j) (f i)))"

fun times_ends :: "(nat \<Rightarrow> nat list) \<Rightarrow> nat \<Rightarrow> nat \<Rightarrow> nat list" where
  "times_ends f 0 i = [i]"
| "times_ends f (Suc n) i = concat (map (times_ends f n) (f i))"

primrec ends :: "nat list \<Rightarrow> regex \<Rightarrow> nat \<Rightarrow> nat list" where
  "ends s (Class P) i = (if i < length s \<and> P (s ! i) then [Suc i] else [])"
| "ends s Empty i = [i]"
| "ends s (Seq r1 r2) i = concat (map (ends s r2) (ends s r1 i))"
| "ends s (Alt r1 r2) i = ends s r1 i @ ends s r2 i"
| "ends s (Star r) i = star_ends (ends s r) (length s - i) i"
| "ends s (Times n r) i = times_ends (ends s r) n i"
| "ends s WordBoundary i = (if word_before s i \<noteq> word_at s i then [i] else [])"
| "ends s LineStart i = (if i = 0 \<or> s ! (i - 1) = 10 then [i] else [])"

text \<open>\<open>Regexp.Match\<close>: a match somewhere in the text.\<close>

definition Match :: "regex \<Rightarrow> nat list \<Rightarrow> bool" where
  "Match r s \<longleftrightarrow> list_ex (\<lambda>i. ends s r i \<noteq> []) [0..<Suc (length s)]"

section \<open>What a match is\<close>

inductive spans :: "nat list \<Rightarrow> regex \<Rightarrow> nat \<Rightarrow> nat \<Rightarrow> bool" for s where
  span_class: "i < length s \<Longrightarrow> P (s ! i) \<Longrightarrow> spans s (Class P) i (Suc i)"
| span_empty: "spans s Empty i i"
| span_seq: "spans s r1 i j \<Longrightarrow> spans s r2 j k \<Longrightarrow> spans s (Seq r1 r2) i k"
| span_left: "spans s r1 i j \<Longrightarrow> spans s (Alt r1 r2) i j"
| span_right: "spans s r2 i j \<Longrightarrow> spans s (Alt r1 r2) i j"
| span_stop: "spans s (Star r) i i"
| span_step: "spans s r i j \<Longrightarrow> spans s (Star r) j k \<Longrightarrow> spans s (Star r) i k"
| span_none: "spans s (Times 0 r) i i"
| span_more: "spans s r i j \<Longrightarrow> spans s (Times n r) j k \<Longrightarrow> spans s (Times (Suc n) r) i k"
| span_word: "word_before s i \<noteq> word_at s i \<Longrightarrow> spans s WordBoundary i i"
| span_line: "i = 0 \<or> s ! (i - 1) = 10 \<Longrightarrow> spans s LineStart i i"

inductive_cases spans_starE: "spans s (Star r) i j"

lemma spans_le: "spans s r i j \<Longrightarrow> i \<le> j \<and> (i \<le> length s \<longrightarrow> j \<le> length s)"
  by (induction rule: spans.induct) auto

lemma star_ends_spans:
  "(\<And>i j. j \<in> set (f i) \<Longrightarrow> spans s r i j) \<Longrightarrow> j \<in> set (star_ends f n i) \<Longrightarrow> spans s (Star r) i j"
  by (induction f n i rule: star_ends.induct) (auto intro: span_stop span_step)

lemma times_ends_spans:
  "(\<And>i j. j \<in> set (f i) \<Longrightarrow> spans s r i j) \<Longrightarrow> j \<in> set (times_ends f n i) \<Longrightarrow> spans s (Times n r) i j"
  by (induction f n i rule: times_ends.induct) (auto intro: span_none span_more)

lemma ends_spans: "j \<in> set (ends s r i) \<Longrightarrow> spans s r i j"
proof (induction r arbitrary: i j)
  case (Star r)
  then show ?case using star_ends_spans [of "ends s r" s r] by simp
next
  case (Times n r)
  then show ?case using times_ends_spans [of "ends s r" s r] by simp
next
  case (Seq r1 r2)
  from Seq.prems obtain k where "k \<in> set (ends s r1 i)" "j \<in> set (ends s r2 k)" by auto
  with Seq.IH show ?case by (meson span_seq)
qed (auto intro: spans.intros split: if_split_asm)

lemma star_ends_mono: "j \<in> set (star_ends f n i) \<Longrightarrow> n \<le> m \<Longrightarrow> j \<in> set (star_ends f m i)"
proof (induction f n i arbitrary: m rule: star_ends.induct)
  case (1 f i)
  then show ?case by (cases m) auto
next
  case (2 f n i)
  from \<open>Suc n \<le> m\<close> obtain k where m: "m = Suc k" "n \<le> k" by (cases m) auto
  from "2.prems"(1) consider "j = i" | x where "x \<in> set (f i)" "i < x" "j \<in> set (star_ends f n x)" by auto
  then show ?case
  proof cases
    case 2
    with "2.IH" [of x k] m(2) have "j \<in> set (star_ends f k x)" by auto
    with 2 show ?thesis unfolding m(1) by auto
  qed (simp add: m(1))
qed

lemma star_ends_step:
  assumes "j \<in> set (f i)" "i \<le> j" "j \<le> L" "k \<in> set (star_ends f (L - j) j)"
  shows "k \<in> set (star_ends f (L - i) i)"
proof (cases "i = j")
  case False
  with assms(2,3) obtain n where n: "L - i = Suc n" "L - j \<le> n" by (cases "L - i") auto
  from star_ends_mono [OF assms(4) n(2)] False assms(1,2) show ?thesis unfolding n(1) by fastforce
qed (use assms in simp)

lemma spans_ends: "spans s r i j \<Longrightarrow> i \<le> length s \<Longrightarrow> j \<in> set (ends s r i)"
proof (induction rule: spans.induct)
  case (span_seq r1 i j r2 k)
  then show ?case using spans_le [OF span_seq.hyps(1)] by auto
next
  case (span_stop r i)
  then show ?case by (cases "length s - i") auto
next
  case (span_step r i j k)
  with spans_le [OF span_step.hyps(1)] show ?case by (simp add: star_ends_step [of j "ends s r" i "length s"])
next
  case (span_more r i j n k)
  then show ?case using spans_le [OF span_more.hyps(1)] by auto
qed auto

lemma Match_iff: "Match r s \<longleftrightarrow> (\<exists>i j. i \<le> length s \<and> spans s r i j)"
proof
  assume "Match r s"
  then obtain i where "i \<le> length s" "ends s r i \<noteq> []" by (auto simp: Match_def list_ex_iff less_Suc_eq_le simp del: upt_Suc)
  then show "\<exists>i j. i \<le> length s \<and> spans s r i j" using ends_spans by (metis list.set_sel(1))
next
  assume "\<exists>i j. i \<le> length s \<and> spans s r i j"
  then obtain i j where "i \<le> length s" "j \<in> set (ends s r i)" using spans_ends by blast
  then have "i \<in> set [0..<Suc (length s)]" "ends s r i \<noteq> []" by auto
  then show "Match r s" unfolding Match_def list_ex_iff by blast
qed

section \<open>A match inside a longer text\<close>

text \<open>The expression does not look at where lines begin.\<close>

fun line_free :: "regex \<Rightarrow> bool" where
  "line_free LineStart = False"
| "line_free (Seq r1 r2) = (line_free r1 \<and> line_free r2)"
| "line_free (Alt r1 r2) = (line_free r1 \<and> line_free r2)"
| "line_free (Star r) = line_free r"
| "line_free (Times _ r) = line_free r"
| "line_free _ = True"

text \<open>No word continues over the edges of the part.\<close>

definition set_off :: "nat list \<Rightarrow> nat list \<Rightarrow> bool" where
  "set_off before after \<longleftrightarrow> (before = [] \<or> \<not> word_rune (last before)) \<and> (after = [] \<or> \<not> word_rune (hd after))"

lemma word_in_context:
  assumes "set_off before after" "i \<le> length s"
  shows "word_before (before @ s @ after) (length before + i) = word_before s i"
    "word_at (before @ s @ after) (length before + i) = word_at s i"
proof -
  show "word_before (before @ s @ after) (length before + i) = word_before s i"
  proof (cases i)
    case 0
    with assms(1) show ?thesis
      by (cases before rule: rev_cases) (auto simp: word_before_def set_off_def nth_append)
  next
    case (Suc k)
    with assms(2) show ?thesis by (simp add: word_before_def nth_append)
  qed
  show "word_at (before @ s @ after) (length before + i) = word_at s i"
  proof (cases "i < length s")
    case False
    with assms show ?thesis by (cases after) (auto simp: word_at_def set_off_def nth_append)
  qed (simp add: word_at_def nth_append)
qed

lemma spans_in_context:
  assumes "spans s r i j" "set_off before after"
  shows "i \<le> length s \<Longrightarrow> line_free r \<Longrightarrow> spans (before @ s @ after) r (length before + i) (length before + j)"
  using assms(1)
proof (induction rule: spans.induct)
  case (span_class i P)
  then show ?case
    using spans.span_class [of "length before + i" "before @ s @ after" P] by (simp add: nth_append)
next
  case (span_seq r1 i j r2 k)
  then show ?case using spans_le [OF span_seq.hyps(1)] by (auto intro: spans.span_seq)
next
  case (span_step r i j k)
  then show ?case using spans_le [OF span_step.hyps(1)] by (auto intro: spans.span_step)
next
  case (span_more r i j n k)
  then show ?case using spans_le [OF span_more.hyps(1)] by (auto intro: spans.span_more)
next
  case (span_word i)
  then show ?case by (simp add: spans.span_word word_in_context [OF assms(2)])
qed (auto intro: spans.intros)

lemma Match_in_context: "Match r s \<Longrightarrow> line_free r \<Longrightarrow> set_off before after \<Longrightarrow> Match r (before @ s @ after)"
proof -
  assume m: "Match r s" "line_free r" "set_off before after"
  then obtain i j where i: "i \<le> length s" "spans s r i j" by (auto simp: Match_iff)
  from i(1) have "length before + i \<le> length (before @ s @ after)" by simp
  with spans_in_context [OF i(2) m(3) i(1) m(2)] show ?thesis unfolding Match_iff by blast
qed

section \<open>Building expressions\<close>

text \<open>Classes are written with the characters they hold; a literal is a sequence of them.\<close>

definition chars :: "string \<Rightarrow> nat \<Rightarrow> bool" where
  "chars cs r \<longleftrightarrow> r \<in> set (map byte cs)"

definition digit_rune :: "nat \<Rightarrow> bool" where "digit_rune r \<longleftrightarrow> 48 \<le> r \<and> r \<le> 57"

definition upper_rune :: "nat \<Rightarrow> bool" where "upper_rune r \<longleftrightarrow> 65 \<le> r \<and> r \<le> 90"

definition lower_rune :: "nat \<Rightarrow> bool" where "lower_rune r \<longleftrightarrow> 97 \<le> r \<and> r \<le> 122"

definition alnum_rune :: "nat \<Rightarrow> bool" where "alnum_rune r \<longleftrightarrow> digit_rune r \<or> upper_rune r \<or> lower_rune r"

text \<open>\<open>\s\<close>.\<close>

definition space_rune :: "nat \<Rightarrow> bool" where "space_rune r \<longleftrightarrow> r \<in> {9, 10, 12, 13, 32}"

definition literal :: "string \<Rightarrow> regex" where
  "literal w = foldr (\<lambda>c r. Seq (Class (\<lambda>x. x = byte c)) r) w Empty"

text \<open>
  The flag \<open>(?i)\<close>: a letter stands for both its cases, and \<open>k\<close> and \<open>s\<close> for the Kelvin sign and the
  long s too.
\<close>

definition same_letter :: "char \<Rightarrow> nat \<Rightarrow> bool" where
  "same_letter c r \<longleftrightarrow> (if r < 128 then ascii_lower (char_of r) = ascii_lower c
     else ascii_lower c = CHR ''k'' \<and> r = 8490 \<or> ascii_lower c = CHR ''s'' \<and> r = 383)"

definition folded :: "string \<Rightarrow> regex" where
  "folded w = foldr (\<lambda>c r. Seq (Class (same_letter c)) r) w Empty"

definition one_of :: "regex list \<Rightarrow> regex" where
  "one_of rs = foldr Alt (butlast rs) (last rs)"

definition in_sequence :: "regex list \<Rightarrow> regex" where
  "in_sequence rs = foldr Seq rs Empty"

definition at_least :: "nat \<Rightarrow> regex \<Rightarrow> regex" where
  "at_least n r = Seq (Times n r) (Star r)"

definition optional :: "regex \<Rightarrow> regex" where "optional r = Alt r Empty"

lemma line_free_build [simp]:
  "line_free (literal w)" "line_free (folded w)" "line_free (at_least n r) = line_free r"
  "line_free (optional r) = line_free r"
  by (induction w) (simp_all add: literal_def folded_def at_least_def optional_def)

lemma line_free_lists [simp]:
  "line_free (in_sequence []) = True" "line_free (in_sequence (r # rs)) = (line_free r \<and> line_free (in_sequence rs))"
  "line_free (one_of [r]) = line_free r" "line_free (one_of (r # r' # rs)) = (line_free r \<and> line_free (one_of (r' # rs)))"
  by (simp_all add: in_sequence_def one_of_def)

section \<open>Code points of a text in context\<close>

text \<open>An ASCII byte ends whatever an unfinished sequence before it began.\<close>

lemma DecodeRune_ascii_after:
  assumes "a \<noteq> []" "byte c < 128"
  shows "DecodeRune (a @ c # s) = DecodeRune a"
proof -
  from assms(1) obtain x t where a: "a = x # t" by (cases a) auto
  have c: "\<not> continuation c" "lo \<ge> 128 \<Longrightarrow> byte c < lo" for lo using assms(2) by (auto simp: continuation_def)
  show ?thesis
  proof (cases "byte x < 128")
    case False
    show ?thesis
    proof (cases "lead (byte x)")
      case (Some l)
      obtain n lo hi where l: "l = (n, lo, hi)" by (cases l)
      with Some have n: "n \<in> {2, 3, 4}" "128 \<le> lo" by (auto simp: lead_def split: if_split_asm)
      consider "t = []" | b where "t = [b]" | b d where "t = [b, d]" | b d e u where "t = b # d # e # u"
        by (cases t; cases "tl t"; cases "tl (tl t)") auto
      then show ?thesis
        by cases (use n c False Some l a in \<open>auto\<close>)
    qed (use False a in simp)
  qed (use a in simp)
qed

lemma runes_ascii_after: "byte c < 128 \<Longrightarrow> runes (a @ c # s) = runes a @ runes (c # s)"
proof (induction a rule: length_induct)
  case (1 a)
  show ?case
  proof (cases "a = []")
    case False
    obtain r n where d: "DecodeRune a = (r, n)" by (cases "DecodeRune a")
    with DecodeRune_width [OF False] have n: "1 \<le> n" "n \<le> length a" by simp_all
    have "runes (a @ c # s) = r # runes (drop n a @ c # s)"
      using DecodeRune_ascii_after [OF False 1(2), of s] d n by (subst runes.simps) simp
    also have "\<dots> = r # runes (drop n a) @ runes (c # s)" using 1 n False by (simp add: less_le_trans)
    also have "\<dots> = runes a @ runes (c # s)" using d False by (subst (2) runes.simps) simp
    finally show ?thesis .
  qed simp
qed

section \<open>Expressions that fit a part wherever it stands\<close>

definition fits :: "regex \<Rightarrow> nat list \<Rightarrow> bool" where
  "fits r u \<longleftrightarrow> (\<forall>x y. spans (x @ u @ y) r (length x) (length x + length u))"

named_theorems fitting \<open>introduction rules for expressions that fit a text\<close>

lemma fits_empty [fitting]: "fits Empty []"
  by (simp add: fits_def spans.span_empty)

lemma fits_class [fitting]: "P a \<Longrightarrow> fits (Class P) [a]"
proof -
  assume "P a"
  then have "spans (x @ [a] @ y) (Class P) (length x) (Suc (length x))" for x y by (intro spans.span_class) simp_all
  then show ?thesis by (simp add: fits_def)
qed

lemma fits_append:
  assumes "fits r1 u" "fits r2 v" "\<And>s i j k. spans s r1 i j \<Longrightarrow> spans s r2 j k \<Longrightarrow> spans s r i k"
  shows "fits r (u @ v)"
  unfolding fits_def
proof (intro allI)
  fix x y
  have "spans (x @ (u @ v) @ y) r1 (length x) (length x + length u)"
    using assms(1) unfolding fits_def by (metis append.assoc)
  moreover have "spans (x @ (u @ v) @ y) r2 (length x + length u) (length x + length u + length v)"
    using assms(2) unfolding fits_def by (metis append.assoc length_append)
  ultimately show "spans (x @ (u @ v) @ y) r (length x) (length x + length (u @ v))"
    using assms(3) by (simp add: add.assoc)
qed

lemma fits_seq: "fits r1 u \<Longrightarrow> fits r2 v \<Longrightarrow> fits (Seq r1 r2) (u @ v)"
  by (erule fits_append) (auto intro: span_seq)

lemma fits_left: "fits r1 u \<Longrightarrow> fits (Alt r1 r2) u" and fits_right: "fits r2 u \<Longrightarrow> fits (Alt r1 r2) u"
  unfolding fits_def by (blast intro: span_left span_right)+

lemma fits_star_Nil [fitting]: "fits (Star r) []"
  by (simp add: fits_def span_stop)

lemma fits_star_append: "fits r u \<Longrightarrow> fits (Star r) v \<Longrightarrow> fits (Star r) (u @ v)"
  by (erule fits_append) (auto intro: span_step)

lemma fits_star_class: "list_all P u \<Longrightarrow> fits (Star (Class P)) u"
  by (induction u) (use fits_star_append [OF fits_class] fits_star_Nil in fastforce)+

lemma fits_times_append: "fits r u \<Longrightarrow> fits (Times n r) v \<Longrightarrow> fits (Times (Suc n) r) (u @ v)"
  by (erule fits_append) (auto intro: span_more)

lemma fits_times_class: "list_all P u \<Longrightarrow> length u = n \<Longrightarrow> fits (Times n (Class P)) u"
proof (induction u arbitrary: n)
  case Nil
  then show ?case by (simp add: fits_def span_none)
next
  case (Cons a u)
  then obtain m where "n = Suc m" "length u = m" by auto
  with Cons fits_times_append [OF fits_class, of P a m u] show ?case by simp
qed

lemma fits_at_least: "list_all P u \<Longrightarrow> n \<le> length u \<Longrightarrow> fits (at_least n (Class P)) u"
proof -
  assume u: "list_all P u" "n \<le> length u"
  then have "list_all P (take n u)" "list_all P (drop n u)" by (metis append_take_drop_id list_all_append)+
  with fits_seq [OF fits_times_class fits_star_class, of P "take n u" n P "drop n u"] u(2) show ?thesis
    by (simp add: at_least_def)
qed

lemma fits_optional: "u = [] \<or> fits r u \<Longrightarrow> fits (optional r) u"
  unfolding optional_def using fits_left fits_right fits_empty by blast

lemma fits_sequence_Nil [fitting]: "fits (in_sequence []) []"
  by (simp add: in_sequence_def fits_empty)

lemma fits_sequence: "fits r u \<Longrightarrow> fits (in_sequence rs) v \<Longrightarrow> fits (in_sequence (r # rs)) (u @ v)"
  by (simp add: in_sequence_def fits_seq)

lemma fits_literal: "fits (literal w) (map byte w)"
proof (induction w)
  case (Cons c w)
  then show ?case using fits_seq [OF fits_class [of "\<lambda>x. x = byte c" "byte c"], of "literal w"] by (simp add: literal_def)
qed (simp add: literal_def fits_empty)

text \<open>A literal under \<open>(?i)\<close> fits every ASCII spelling of it.\<close>

lemma same_letter_ascii: "byte d < 128 \<Longrightarrow> ascii_lower d = ascii_lower c \<Longrightarrow> same_letter c (byte d)"
  by (simp add: same_letter_def byte_def)

lemma ascii_lower_ascii: "byte c < 128 \<Longrightarrow> ascii_lower d = c \<Longrightarrow> byte d < 128"
  by (auto simp: ascii_lower_def split: if_split_asm)

lemma ascii_lower_idem: "ascii_lower (ascii_lower c) = ascii_lower c"
  by (simp add: ascii_lower_def byte_def)

lemma fits_folded: "map ascii_lower v = w \<Longrightarrow> \<forall>c \<in> set w. byte c < 128 \<Longrightarrow> fits (folded w) (map byte v)"
proof (induction v arbitrary: w)
  case (Cons d v)
  then have d: "byte d < 128" using ascii_lower_ascii [of "ascii_lower d" d] by auto
  from Cons have "fits (folded (map ascii_lower v)) (map byte v)" by auto
  with fits_seq [OF fits_class [of "same_letter (ascii_lower d)", OF same_letter_ascii [OF d]]] Cons.prems(1)
  show ?case by (auto simp: folded_def ascii_lower_idem)
qed (simp add: folded_def fits_empty)

lemma fits_one_of: "r \<in> set rs \<Longrightarrow> fits r u \<Longrightarrow> fits (one_of rs) u"
proof (induction rs)
  case (Cons q rs)
  show ?case
  proof (cases rs)
    case Nil
    with Cons.prems show ?thesis by (simp add: one_of_def)
  next
    case (Cons p ps)
    with Cons.IH Cons.prems show ?thesis by (auto simp: one_of_def intro: fits_left fits_right)
  qed
qed simp

lemma fits_Match: "fits r u \<Longrightarrow> Match r (x @ u @ y)"
  unfolding fits_def Match_iff by (metis le_add1 length_append)

text \<open>Between word boundaries, a part that begins and ends in a word fits where it is set off.\<close>

lemma spans_sequence_append:
  "spans s (in_sequence rs) i j \<Longrightarrow> spans s (in_sequence ss) j k \<Longrightarrow> spans s (in_sequence (rs @ ss)) i k"
proof (induction rs arbitrary: i)
  case Nil
  then have "i = j" by (auto simp: in_sequence_def elim: spans.cases)
  with Nil show ?case by simp
next
  case (Cons r rs)
  from Cons.prems(1) obtain m where "spans s r i m" "spans s (in_sequence rs) m j"
    by (auto simp: in_sequence_def elim: spans.cases)
  with Cons.IH Cons.prems(2) show ?case by (auto simp: in_sequence_def intro: span_seq)
qed

lemma Match_between_boundaries:
  assumes "fits (in_sequence rs) u" "u \<noteq> []" "word_rune (hd u)" "word_rune (last u)" "set_off x y"
  shows "Match (in_sequence (WordBoundary # rs @ [WordBoundary])) (x @ u @ y)"
proof -
  let ?s = "x @ u @ y"
  have "word_before ?s (length x) = word_before u 0" "word_at ?s (length x) = word_at u 0"
    using word_in_context [OF assms(5), of 0 u] by simp_all
  then have b: "spans ?s WordBoundary (length x) (length x)"
    using assms(2,3) by (intro span_word) (simp add: word_before_def word_at_def hd_conv_nth)
  have "word_before ?s (length x + length u) = word_before u (length u)" "word_at ?s (length x + length u) = word_at u (length u)"
    using word_in_context [OF assms(5), of "length u" u] by simp_all
  then have e: "spans ?s WordBoundary (length x + length u) (length x + length u)"
    using assms(2,4) by (intro span_word) (simp add: word_before_def word_at_def last_conv_nth)
  have "spans ?s (in_sequence (rs @ [WordBoundary])) (length x) (length x + length u)"
    using assms(1) by (intro spans_sequence_append [of _ _ _ "length x + length u"])
      (auto simp: fits_def in_sequence_def intro: span_seq [OF e span_empty])
  with b have "spans ?s (in_sequence (WordBoundary # rs @ [WordBoundary])) (length x) (length x + length u)"
    by (auto simp: in_sequence_def intro: span_seq)
  then show ?thesis unfolding Match_iff by (metis le_add1 length_append)
qed

section \<open>Where words end, in bytes\<close>

lemma continuation_bits: "128 \<le> b \<Longrightarrow> b \<le> 191 \<Longrightarrow> b mod 64 = b - 128" for b :: nat
proof -
  assume "128 \<le> b" "b \<le> 191"
  then have "b = (b - 128) + 2 * 64" "b - 128 < 64" by auto
  then show ?thesis by (metis mod_less mod_mult_self1)
qed

lemma DecodeRune_ascii_only:
  assumes "s \<noteq> []" "fst (DecodeRune s) < 128"
  shows "snd (DecodeRune s) = 1 \<and> byte (hd s) < 128 \<and> fst (DecodeRune s) = byte (hd s)"
proof (cases s)
  case (Cons c t)
  show ?thesis
  proof (cases "byte c < 128")
    case False
    have mods: "194 \<le> b \<Longrightarrow> b \<le> 223 \<Longrightarrow> 2 \<le> b mod 32" "225 \<le> b \<Longrightarrow> b \<le> 236 \<Longrightarrow> Suc 0 \<le> b mod 16"
      "241 \<le> b \<Longrightarrow> b \<le> 243 \<Longrightarrow> Suc 0 \<le> b mod 8" for b :: nat by presburger+
    have tails: "\<not> b < 160 \<Longrightarrow> \<not> 191 < b \<Longrightarrow> 32 \<le> b mod 64" "\<not> b < 144 \<Longrightarrow> \<not> 191 < b \<Longrightarrow> 16 \<le> b mod 64"
      for b :: nat by (simp_all add: continuation_bits)
    have high: "128 \<le> fst (DecodeRune (c # t))"
    proof (cases "lead (byte c)")
      case (Some l)
      then consider (two) "l = (2, 128, 191)" "2 \<le> byte c mod 32" | (three) "l = (3, 160, 191)"
        | (three') lo hi where "l = (3, lo, hi)" "1 \<le> byte c mod 16" | (four) "l = (4, 144, 191)"
        | (four') lo hi where "l = (4, lo, hi)" "1 \<le> byte c mod 8"
        by (auto simp: lead_def dest: mods split: if_split_asm)
      then show ?thesis
        by cases (use False Some in \<open>auto simp: RuneError_def dest: tails split: list.split\<close>)
    qed (use False in \<open>simp add: RuneError_def\<close>)
    with assms(2) Cons show ?thesis by simp
  qed (simp add: Cons)
qed (use assms in simp)


lemma runes_decode: "s \<noteq> [] \<Longrightarrow> runes s = fst (DecodeRune s) # runes (drop (snd (DecodeRune s)) s)"
  by (subst runes.simps) (simp split: prod.split)

lemma runes_Nil_iff: "runes s = [] \<longleftrightarrow> s = []"
  by (cases "s = []") (simp_all add: runes_decode)

text \<open>A code point below 128 at an edge of a text is the byte there.\<close>

lemma hd_runes: "s \<noteq> [] \<Longrightarrow> hd (runes s) < 128 \<Longrightarrow> hd (runes s) = byte (hd s)"
  using runes_decode [of s] DecodeRune_ascii_only [of s] by simp

lemma last_runes: "s \<noteq> [] \<Longrightarrow> last (runes s) < 128 \<Longrightarrow> last (runes s) = byte (last s)"
proof (induction s rule: length_induct)
  case (1 s)
  let ?n = "snd (DecodeRune s)"
  show ?case
  proof (cases "drop ?n s = []")
    case True
    with runes_decode [OF 1(2)] 1(3) have "fst (DecodeRune s) < 128" "last (runes s) = fst (DecodeRune s)" by simp_all
    with DecodeRune_ascii_only [OF 1(2)] True 1(2) show ?thesis by (cases s) auto
  next
    case False
    moreover have "length (drop ?n s) < length s" using DecodeRune_width [OF 1(2)] 1(2) by auto
    moreover have "last (runes s) = last (runes (drop ?n s))" using runes_decode [OF 1(2)] False runes_Nil_iff by auto
    moreover have "last s = last (drop ?n s)" using False by (simp add: last_drop)
    ultimately show ?thesis using 1(1,3) by metis
  qed
qed

definition word_byte :: "char \<Rightarrow> bool" where "word_byte c \<longleftrightarrow> word_rune (byte c)"

text \<open>No word byte touches the part.\<close>

definition stands_apart :: "string \<Rightarrow> string \<Rightarrow> bool" where
  "stands_apart before after \<longleftrightarrow> (before = [] \<or> \<not> word_byte (last before)) \<and> (after = [] \<or> \<not> word_byte (hd after))"

lemma word_rune_ascii: "word_rune r \<Longrightarrow> r < 128"
  by (auto simp: word_rune_def)

lemma stands_apart_runes: "stands_apart before after \<Longrightarrow> set_off (runes before) (runes after)"
  unfolding stands_apart_def set_off_def word_byte_def runes_Nil_iff
  using hd_runes [of after] last_runes [of before] word_rune_ascii by metis

lemma runes_in_text:
  "u \<noteq> [] \<Longrightarrow> \<forall>c \<in> set u. byte c < 128 \<Longrightarrow> runes (before @ u @ after) = runes before @ map byte u @ runes after"
  using runes_ascii_after [of "hd u" before "tl u @ after"] runes_ascii_append [of u after] by (cases u) auto

end
