(* ===== verification/CommitPlan.thy ===== *)
theory CommitPlan
  imports ImportDerive
begin

text \<open>
  \<open>daemon/internal/importer/commit_plan.go\<close>: how an untrusted commit plan partitions the derived
  changes into commits. The document is the JSON value its bytes hold, \<open>None\<close> where they are no
  UTF-8 text of exactly one value; reading that value from the bytes is left to the library, its typed
  decoding, as \<open>strictjson.Decode\<close> calls it, is modelled, duplicate and case-folded keys included.

  Shown: an accepted plan assigns every change to exactly one group, each of its trees can be checked
  out on a folding filesystem, and the last is the tree of the unified commit; what the plan allocates
  is bounded before it is decoded; and a plan of one remainder group is accepted exactly when that
  tree can be checked out.
\<close>

section \<open>JSON documents\<close>

datatype json = JNull | JBool bool | JNumber string | JString string | JArray "json list"
  | JObject "(string \<times> json) list"

text \<open>
  \<open>strings.EqualFold\<close>, and the key matching of \<open>encoding/json\<close>, of valid UTF-8 against an ASCII
  word: outside ASCII only the long s and the Kelvin sign fold to a letter.
\<close>

fun fold_word :: "string \<Rightarrow> string" where
  "fold_word (a # b # s) =
     (if byte a = 197 \<and> byte b = 191 then CHR ''s'' # fold_word s
      else if byte a = 226 \<and> byte b = 132 then
        (case s of [] \<Rightarrow> ascii_lower a # fold_word (b # s)
         | c # s' \<Rightarrow> if byte c = 170 then CHR ''k'' # fold_word s' else ascii_lower a # fold_word (b # s))
      else ascii_lower a # fold_word (b # s))"
| "fold_word [a] = [ascii_lower a]"
| "fold_word [] = []"

definition key_is :: "string \<Rightarrow> string \<Rightarrow> bool" where
  "key_is key word \<longleftrightarrow> fold_word key = map ascii_lower word"

section \<open>The plan\<close>

definition commitPlanVersion :: string where "commitPlanVersion = ''freeside.commit-plan/v1''"

abbreviation errPlanStructural :: err where "errPlanStructural \<equiv> Sentinel ''errPlanStructural''"

text \<open>A raw member is \<open>None\<close> where the document does not give it.\<close>

record rawCommitPlanGroup =
  rcp_name :: string
  rcp_message :: string
  rcp_paths :: "json option"
  rcp_remainder :: "json option"

record commitPlan =
  cpl_version :: string
  cpl_groups :: "rawCommitPlanGroup list"

record resolvedCommitGroup =
  rcg_name :: string
  rcg_message :: string
  rcg_changes :: "plannedChange list"

section \<open>The bounds before decoding\<close>

text \<open>The paths counted so far against the cap, one element at a time.\<close>

fun prebound_paths :: "int \<Rightarrow> int \<Rightarrow> json list \<Rightarrow> err + int" where
  "prebound_paths maxPaths paths [] = Inr paths"
| "prebound_paths maxPaths paths (_ # ps) =
     (if paths + 1 > maxPaths then Inl errPlanStructural else prebound_paths maxPaths (paths + 1) ps)"

fun prebound_group_members :: "int \<Rightarrow> int \<Rightarrow> (string \<times> json) list \<Rightarrow> err + int" where
  "prebound_group_members maxPaths paths [] = Inr paths"
| "prebound_group_members maxPaths paths ((key, v) # ms) =
     (if \<not> key_is key ''paths'' then prebound_group_members maxPaths paths ms
      else case v of
          JArray ps \<Rightarrow> ebind (prebound_paths maxPaths paths ps) (\<lambda>n. prebound_group_members maxPaths n ms)
        | _ \<Rightarrow> prebound_group_members maxPaths paths ms)"

definition preboundCommitPlanGroup :: "int \<Rightarrow> int \<Rightarrow> json \<Rightarrow> err + int" where
  "preboundCommitPlanGroup maxPaths paths v = (case v of
     JObject ms \<Rightarrow> prebound_group_members maxPaths paths ms
   | _ \<Rightarrow> Inl errPlanStructural)"

fun prebound_groups :: "int \<Rightarrow> int \<Rightarrow> int \<Rightarrow> int \<Rightarrow> json list \<Rightarrow> err + (int \<times> int)" where
  "prebound_groups maxGroups maxPaths groups paths [] = Inr (groups, paths)"
| "prebound_groups maxGroups maxPaths groups paths (g # gs) =
     (if groups + 1 > maxGroups then Inl errPlanStructural
      else ebind (preboundCommitPlanGroup maxPaths paths g) (\<lambda>n. prebound_groups maxGroups maxPaths (groups + 1) n gs))"

fun prebound_members :: "int \<Rightarrow> int \<Rightarrow> int \<Rightarrow> int \<Rightarrow> (string \<times> json) list \<Rightarrow> err option" where
  "prebound_members maxGroups maxPaths groups paths [] = None"
| "prebound_members maxGroups maxPaths groups paths ((key, v) # ms) =
     (if \<not> key_is key ''groups'' then prebound_members maxGroups maxPaths groups paths ms
      else case v of
          JArray gs \<Rightarrow> (case prebound_groups maxGroups maxPaths groups paths gs of
              Inl e \<Rightarrow> Some e
            | Inr (groups', paths') \<Rightarrow> prebound_members maxGroups maxPaths groups' paths' ms)
        | _ \<Rightarrow> Some errPlanStructural)"

definition preboundCommitPlan :: "json \<Rightarrow> int \<Rightarrow> int \<Rightarrow> err option" where
  "preboundCommitPlan doc maxGroups maxPaths = (case doc of
     JObject ((key, v) # ms) \<Rightarrow>
       if \<not> key_is key ''version'' then Some errPlanStructural
       else if v \<noteq> JString commitPlanVersion then Some errPlanStructural
       else prebound_members maxGroups maxPaths 0 0 ms
   | _ \<Rightarrow> Some errPlanStructural)"

section \<open>Typed decoding\<close>

text \<open>
  A null leaves a string or a struct as it is and a raw member keeps it; an element of an array is
  decoded over what the slice already holds at its index, as a repeated key leaves it.
\<close>

definition decode_string :: "string \<Rightarrow> json \<Rightarrow> string option" where
  "decode_string old v = (case v of JString s \<Rightarrow> Some s | JNull \<Rightarrow> Some old | _ \<Rightarrow> None)"

definition zero_group :: rawCommitPlanGroup where
  "zero_group = \<lparr>rcp_name = [], rcp_message = [], rcp_paths = None, rcp_remainder = None\<rparr>"

fun decode_group_members :: "rawCommitPlanGroup \<Rightarrow> (string \<times> json) list \<Rightarrow> rawCommitPlanGroup option" where
  "decode_group_members g [] = Some g"
| "decode_group_members g ((key, v) # ms) =
     (if key_is key ''name'' then
        Option.bind (decode_string (rcp_name g) v) (\<lambda>s. decode_group_members (g\<lparr>rcp_name := s\<rparr>) ms)
      else if key_is key ''message'' then
        Option.bind (decode_string (rcp_message g) v) (\<lambda>s. decode_group_members (g\<lparr>rcp_message := s\<rparr>) ms)
      else if key_is key ''paths'' then decode_group_members (g\<lparr>rcp_paths := Some v\<rparr>) ms
      else if key_is key ''remainder'' then decode_group_members (g\<lparr>rcp_remainder := Some v\<rparr>) ms
      else None)"

definition decode_group :: "rawCommitPlanGroup \<Rightarrow> json \<Rightarrow> rawCommitPlanGroup option" where
  "decode_group old v = (case v of JNull \<Rightarrow> Some old | JObject ms \<Rightarrow> decode_group_members old ms | _ \<Rightarrow> None)"

fun decode_elements :: "rawCommitPlanGroup list \<Rightarrow> json list \<Rightarrow> rawCommitPlanGroup list option" where
  "decode_elements held [] = Some []"
| "decode_elements held (v # vs) =
     (case decode_group (case held of [] \<Rightarrow> zero_group | g # _ \<Rightarrow> g) v of
        None \<Rightarrow> None
      | Some g \<Rightarrow> map_option ((#) g) (decode_elements (tl held) vs))"

text \<open>The members of the plan; \<open>held\<close> is the memory of the groups slice, of which the plan shows a part.\<close>

fun decode_members :: "commitPlan \<Rightarrow> rawCommitPlanGroup list \<Rightarrow> (string \<times> json) list \<Rightarrow> commitPlan option" where
  "decode_members plan held [] = Some plan"
| "decode_members plan held ((key, v) # ms) =
     (if key_is key ''version'' then
        Option.bind (decode_string (cpl_version plan) v) (\<lambda>s. decode_members (plan\<lparr>cpl_version := s\<rparr>) held ms)
      else if key_is key ''groups'' then (case v of
          JNull \<Rightarrow> decode_members (plan\<lparr>cpl_groups := []\<rparr>) [] ms
        | JArray vs \<Rightarrow> (case decode_elements held vs of
              None \<Rightarrow> None
            | Some gs \<Rightarrow> decode_members (plan\<lparr>cpl_groups := gs\<rparr>) (if gs = [] then [] else gs @ drop (length gs) held) ms)
        | _ \<Rightarrow> None)
      else None)"

definition decode_plan :: "json \<Rightarrow> commitPlan option" where
  "decode_plan doc = (case doc of
     JNull \<Rightarrow> Some \<lparr>cpl_version = [], cpl_groups = []\<rparr>
   | JObject ms \<Rightarrow> decode_members \<lparr>cpl_version = [], cpl_groups = []\<rparr> [] ms
   | _ \<Rightarrow> None)"

text \<open>\<open>json.Unmarshal\<close> of a raw member into a fresh \<open>[]string\<close> and into a fresh \<open>bool\<close>.\<close>

definition unmarshal_strings :: "json \<Rightarrow> string list option" where
  "unmarshal_strings v = (case v of
     JArray vs \<Rightarrow> those (map (decode_string []) vs) | JNull \<Rightarrow> Some [] | _ \<Rightarrow> None)"

definition unmarshal_bool :: "json \<Rightarrow> bool option" where
  "unmarshal_bool v = (case v of JBool b \<Rightarrow> Some b | JNull \<Rightarrow> Some False | _ \<Rightarrow> None)"

section \<open>Trees\<close>

text \<open>The first loop of \<open>validateTreePathSet\<close>: each folded path is new.\<close>

fun folds_apart :: "(string \<Rightarrow> string) \<Rightarrow> string set \<Rightarrow> string list \<Rightarrow> bool" where
  "folds_apart foldc folded [] = True"
| "folds_apart foldc folded (p # ps) =
     (let f = FoldPath foldc p in if f \<in> folded then False else folds_apart foldc (insert f folded) ps)"

definition validateTreePathSet :: "(string \<Rightarrow> string) \<Rightarrow> base_tree \<Rightarrow> err option" where
  "validateTreePathSet foldc state =
     (let paths = sort (map fst state); exact = set paths; folded = set (map (FoldPath foldc) paths)
      in first_error [
        require (folds_apart foldc {} paths) (ErrText ''fold collision''),
        first_error (map (\<lambda>p. first_error [
          require (\<not> ancestor_in exact (parentDir p)) (ErrText ''file and directory''),
          require (\<not> ancestor_in folded (parentDir (FoldPath foldc p))) (ErrText ''fold collision'')]) paths)])"

definition apply_to_state :: "plannedChange \<Rightarrow> base_tree \<Rightarrow> base_tree" where
  "apply_to_state c state = (if pl_kind c = ChangeDeleted then AList.delete (pl_path c) state
     else AList.update (pl_path c) \<lparr>te_mode = pl_mode c, te_oid = pl_oid c\<rparr> state)"

fun validate_order :: "(string \<Rightarrow> string) \<Rightarrow> base_tree \<Rightarrow> resolvedCommitGroup list \<Rightarrow> err option" where
  "validate_order foldc state [] = None"
| "validate_order foldc state (g # gs) =
     (let state' = fold apply_to_state (rcg_changes g) state
      in case validateTreePathSet foldc state' of
          Some _ \<Rightarrow> Some errPlanStructural
        | None \<Rightarrow> validate_order foldc state' gs)"

definition validateCommitPlanOrder :: "(string \<Rightarrow> string) \<Rightarrow> resolvedCommitGroup list \<Rightarrow> base_tree \<Rightarrow> err option" where
  "validateCommitPlanOrder foldc groups base = validate_order foldc base groups"

section \<open>Resolution\<close>

definition validateCommitPlanPath :: "(string \<Rightarrow> string) \<Rightarrow> string \<Rightarrow> Policy \<Rightarrow> err option" where
  "validateCommitPlanPath foldc p pol = first_error [
     require (\<not> (p = ''.'' \<or> \<not> ValidPath p \<or> \<not> ValidString p \<or> NUL \<in> set p
       \<or> int (length p) > plc_max_path_bytes pol
       \<or> int (length (filter (\<lambda>c. c = SLASH) p)) + 1 > plc_max_path_depth pol)) errPlanStructural,
     require (\<not> (IsCommitPlanNamespacePath foldc p
       \<or> p = EvidenceWorkspaceDir \<or> HasPrefix p (EvidenceWorkspaceDir @ [SLASH]))) errPlanStructural,
     require (\<not> list_ex GitUnsafeComponent (Split p SLASH)) errPlanStructural]"

definition plan_by_path :: "plannedChange list \<Rightarrow> (string \<rightharpoonup> plannedChange)" where
  "plan_by_path changes =
     foldl (\<lambda>m c. if pl_path_hex c = [] then m(pl_path c \<mapsto> c) else m) Map.empty changes"

fun resolve_paths ::
  "(string \<Rightarrow> string) \<Rightarrow> Policy \<Rightarrow> (string \<rightharpoonup> plannedChange) \<Rightarrow> string set \<Rightarrow> string list
    \<Rightarrow> err + (plannedChange list \<times> string set)" where
  "resolve_paths foldc pol byPath assigned [] = Inr ([], assigned)"
| "resolve_paths foldc pol byPath assigned (p # ps) =
     (case validateCommitPlanPath foldc p pol of
        Some e \<Rightarrow> Inl e
      | None \<Rightarrow> (case byPath p of
            None \<Rightarrow> Inl errPlanStructural
          | Some c \<Rightarrow> if p \<in> assigned then Inl errPlanStructural
              else ebind (resolve_paths foldc pol byPath (insert p assigned) ps)
                (\<lambda>(cs, assigned'). Inr (c # cs, assigned'))))"

text \<open>The changes no earlier group took.\<close>

fun take_remainder :: "string set \<Rightarrow> plannedChange list \<Rightarrow> plannedChange list \<times> string set" where
  "take_remainder assigned [] = ([], assigned)"
| "take_remainder assigned (c # cs) =
     (if pl_path c \<in> assigned then take_remainder assigned cs
      else case take_remainder (insert (pl_path c) assigned) cs of (ds, a) \<Rightarrow> (c # ds, a))"

definition resolve_group ::
  "(string \<Rightarrow> string) \<Rightarrow> Policy \<Rightarrow> plannedChange list \<Rightarrow> bool \<Rightarrow> bool \<Rightarrow> string set \<Rightarrow> rawCommitPlanGroup
    \<Rightarrow> err + (plannedChange list \<times> string set)" where
  "resolve_group foldc pol changes remainderSeen is_last assigned g =
     (if TrimSpace (rcp_name g) = [] then Inl errPlanStructural
      else case (rcp_paths g, rcp_remainder g) of
        (None, None) \<Rightarrow> Inl errPlanStructural
      | (Some _, Some _) \<Rightarrow> Inl errPlanStructural
      | (None, Some r) \<Rightarrow>
          if r = JNull \<or> unmarshal_bool r \<noteq> Some True \<or> remainderSeen \<or> \<not> is_last then Inl errPlanStructural
          else Inr (take_remainder assigned changes)
      | (Some v, None) \<Rightarrow>
          if v = JNull then Inl errPlanStructural
          else (case unmarshal_strings v of
              None \<Rightarrow> Inl errPlanStructural
            | Some [] \<Rightarrow> Inl errPlanStructural
            | Some paths \<Rightarrow> resolve_paths foldc pol (plan_by_path changes) assigned paths))"

fun resolve_groups ::
  "(string \<Rightarrow> string) \<Rightarrow> Policy \<Rightarrow> plannedChange list \<Rightarrow> bool \<Rightarrow> string set \<Rightarrow> rawCommitPlanGroup list
    \<Rightarrow> err + (resolvedCommitGroup list \<times> string set)" where
  "resolve_groups foldc pol changes remainderSeen assigned [] = Inr ([], assigned)"
| "resolve_groups foldc pol changes remainderSeen assigned (g # gs) =
     ebind (resolve_group foldc pol changes remainderSeen (gs = []) assigned g) (\<lambda>(cs, assigned').
       ebind (resolve_groups foldc pol changes (remainderSeen \<or> rcp_remainder g \<noteq> None) assigned' gs) (\<lambda>(rgs, a).
         Inr (\<lparr>rcg_name = rcp_name g, rcg_message = rcp_message g, rcg_changes = cs\<rparr> # rgs, a)))"

definition resolve_plan ::
  "(string \<Rightarrow> string) \<Rightarrow> commitPlan \<Rightarrow> plannedChange list \<Rightarrow> base_tree \<Rightarrow> Policy \<Rightarrow> err + resolvedCommitGroup list" where
  "resolve_plan foldc plan changes base pol =
     (if cpl_version plan \<noteq> commitPlanVersion then Inl errPlanStructural
      else if cpl_groups plan = [] \<or> int (length (cpl_groups plan)) > plc_max_groups pol then Inl errPlanStructural
      else ebind (resolve_groups foldc pol changes False {} (cpl_groups plan)) (\<lambda>(resolved, assigned).
        if card assigned \<noteq> length changes then Inl errPlanStructural
        else of_err (validateCommitPlanOrder foldc resolved base) resolved))"

definition decodeAndResolveCommitPlan ::
  "(string \<Rightarrow> string) \<Rightarrow> json option \<Rightarrow> plannedChange list \<Rightarrow> base_tree \<Rightarrow> Policy \<Rightarrow> err + resolvedCommitGroup list" where
  "decodeAndResolveCommitPlan foldc raw changes base pol = (case raw of
     None \<Rightarrow> Inl errPlanStructural
   | Some doc \<Rightarrow> (case preboundCommitPlan doc (plc_max_groups pol) (plc_max_entries pol) of
        Some e \<Rightarrow> Inl e
      | None \<Rightarrow> (case decode_plan doc of
            None \<Rightarrow> Inl errPlanStructural
          | Some plan \<Rightarrow> resolve_plan foldc plan changes base pol)))"

definition preflightCommitPlanBase :: "(string \<Rightarrow> string) \<Rightarrow> base_tree \<Rightarrow> err option" where
  "preflightCommitPlanBase foldc base =
     first_error (map (\<lambda>(p, _). require (\<not> IsCommitPlanNamespacePath foldc p) ErrCommitPlanCollision) base)"

section \<open>Names that are not blank\<close>

text \<open>A byte that neither begins nor ends the encoding of a space.\<close>

definition solid :: "char \<Rightarrow> bool" where
  "solid c \<longleftrightarrow> 33 \<le> byte c \<and> byte c < 128"

lemma strip_rune_solid: "list_all (\<lambda>r. r = [] \<or> \<not> solid (hd r)) rs \<Longrightarrow> solid c \<Longrightarrow> strip_rune rs (c # s) = None"
proof (induction rs)
  case (Cons r rs)
  then show ?case by (cases r) (auto simp: HasPrefix_iff)
qed simp

lemma spaces_not_solid: "list_all (\<lambda>r. r = [] \<or> \<not> solid (hd r)) space_runes"
  "list_all (\<lambda>r. r = [] \<or> \<not> solid (hd r)) (map rev space_runes)"
  by (simp_all add: space_runes_def solid_def byte_def)

lemma TrimSpace_solid: "s \<noteq> [] \<Longrightarrow> solid (hd s) \<Longrightarrow> solid (last s) \<Longrightarrow> TrimSpace s = s"
proof -
  assume s: "s \<noteq> []" "solid (hd s)" "solid (last s)"
  then obtain c t where c: "s = c # t" "solid c" by (cases s) auto
  from s obtain d u where d: "rev s = d # u" "solid d" by (cases s rule: rev_cases) auto
  have "trim_left space_runes s = s" unfolding c(1) by (rule trim_left_id [OF strip_rune_solid [OF spaces_not_solid(1) c(2)]])
  moreover have "trim_left (map rev space_runes) (rev s) = rev s"
    unfolding d(1) by (rule trim_left_id [OF strip_rune_solid [OF spaces_not_solid(2) d(2)]])
  ultimately show ?thesis by (simp add: TrimSpace_def)
qed

section \<open>What resolution assigns\<close>

lemma plan_by_path_Some: "plan_by_path changes p = Some c \<Longrightarrow> c \<in> set changes \<and> pl_path c = p"
proof -
  have "foldl (\<lambda>m c. if pl_path_hex c = [] then m(pl_path c \<mapsto> c) else m) m cs p = Some c
    \<Longrightarrow> c \<in> set cs \<and> pl_path c = p \<or> m p = Some c" for m cs
  proof (induction cs arbitrary: m)
    case (Cons x cs)
    let ?m = "if pl_path_hex x = [] then m(pl_path x \<mapsto> x) else m"
    from Cons.prems have "c \<in> set cs \<and> pl_path c = p \<or> ?m p = Some c" by (intro Cons.IH) simp
    then show ?case by (auto split: if_split_asm)
  qed simp
  then show "plan_by_path changes p = Some c \<Longrightarrow> ?thesis" by (fastforce simp: plan_by_path_def)
qed

text \<open>What a step of the resolution adds: changes at new paths, each once.\<close>

definition assigns :: "plannedChange list \<Rightarrow> string set \<Rightarrow> plannedChange list \<Rightarrow> string set \<Rightarrow> bool" where
  "assigns changes assigned cs assigned' \<longleftrightarrow> set cs \<subseteq> set changes \<and> distinct (map pl_path cs)
     \<and> assigned \<inter> pl_path ` set cs = {} \<and> assigned' = assigned \<union> pl_path ` set cs"

lemma assigns_Nil: "assigns changes assigned [] assigned"
  by (simp add: assigns_def)

lemma assigns_Cons:
  assumes "c \<in> set changes" "pl_path c \<notin> assigned" "assigns changes (insert (pl_path c) assigned) cs a"
  shows "assigns changes assigned (c # cs) a"
proof -
  have "pl_path c \<notin> pl_path ` set cs" using assms(3) unfolding assigns_def by blast
  with assms show ?thesis by (simp add: assigns_def)
qed

lemma assigns_append:
  assumes "assigns changes assigned cs a" "assigns changes a ds b"
  shows "assigns changes assigned (cs @ ds) b"
proof -
  have "pl_path ` set cs \<inter> pl_path ` set ds = {}" "assigned \<inter> pl_path ` set ds = {}"
    using assms unfolding assigns_def by blast+
  with assms show ?thesis by (simp add: assigns_def Int_Un_distrib Un_assoc image_Un)
qed

lemma resolve_paths_assigns:
  assumes "resolve_paths foldc pol (plan_by_path changes) assigned ps = Inr (cs, a)"
  shows "assigns changes assigned cs a \<and> map pl_path cs = ps \<and> (\<forall>p \<in> set ps. validateCommitPlanPath foldc p pol = None)"
  using assms
proof (induction ps arbitrary: assigned cs a)
  case (Cons p ps)
  then obtain c cs' where c: "validateCommitPlanPath foldc p pol = None" "plan_by_path changes p = Some c"
    "p \<notin> assigned" "resolve_paths foldc pol (plan_by_path changes) (insert p assigned) ps = Inr (cs', a)" "cs = c # cs'"
    by (auto simp: sum_results split: option.split_asm if_split_asm)
  from plan_by_path_Some [OF c(2)] c Cons.IH [OF c(4)] show ?case by (auto intro: assigns_Cons)
qed (simp add: assigns_Nil)

lemma take_remainder_assigns:
  assumes "take_remainder assigned cs = (ds, a)" "set cs \<subseteq> set changes"
  shows "assigns changes assigned ds a \<and> pl_path ` set cs \<subseteq> a"
  using assms
proof (induction cs arbitrary: assigned ds a)
  case (Cons c cs)
  show ?case
  proof (cases "pl_path c \<in> assigned")
    case True
    with Cons show ?thesis by (auto simp: assigns_def)
  next
    case False
    with Cons.prems obtain ds' where d: "take_remainder (insert (pl_path c) assigned) cs = (ds', a)" "ds = c # ds'"
      by (auto split: prod.split_asm)
    with Cons.IH [OF d(1)] Cons.prems(2) False have "assigns changes (insert (pl_path c) assigned) ds' a"
      "pl_path ` set cs \<subseteq> a" by auto
    with d(2) False Cons.prems(2) assigns_Cons [of c changes assigned ds' a] show ?thesis by (auto simp: assigns_def)
  qed
qed (simp add: assigns_Nil)

lemma resolve_group_assigns:
  assumes "resolve_group foldc pol changes seen is_last assigned g = Inr (cs, a)"
  shows "assigns changes assigned cs a"
proof -
  from assms consider "take_remainder assigned changes = (cs, a)"
    | ps where "resolve_paths foldc pol (plan_by_path changes) assigned ps = Inr (cs, a)"
    by (auto simp: resolve_group_def simp del: resolve_paths.simps split: if_split_asm option.split_asm list.split_asm)
  then show ?thesis
    by cases (auto dest: take_remainder_assigns [where changes = changes] resolve_paths_assigns)
qed

lemma resolve_groups_assigns:
  assumes "resolve_groups foldc pol changes seen assigned gs = Inr (rgs, a)"
  shows "assigns changes assigned (concat (map rcg_changes rgs)) a \<and> length rgs = length gs"
  using assms
proof (induction gs arbitrary: seen assigned rgs a)
  case (Cons g gs)
  then obtain cs b rgs' where g: "resolve_group foldc pol changes seen (gs = []) assigned g = Inr (cs, b)"
    "resolve_groups foldc pol changes (seen \<or> rcp_remainder g \<noteq> None) b gs = Inr (rgs', a)"
    "rgs = \<lparr>rcg_name = rcp_name g, rcg_message = rcp_message g, rcg_changes = cs\<rparr> # rgs'"
    by (auto simp: sum_results)
  from assigns_append [OF resolve_group_assigns [OF g(1)]] Cons.IH [OF g(2)] g(3) show ?case by simp
qed (simp add: assigns_Nil)

lemma assigned_all:
  assumes "assigns changes {} cs a" "card a = length changes"
  shows "mset cs = mset changes \<and> distinct (map pl_path changes)"
proof -
  from assms have l: "length cs = length changes"
    by (metis assigns_def distinct_card length_map list.set_map sup_bot_left)
  from assms(1) have d: "distinct cs" "set cs \<subseteq> set changes" by (auto simp: assigns_def distinct_map)
  from d(1) l have "card (set cs) = length changes" by (simp add: distinct_card)
  with d(2) have s: "set cs = set changes" using card_length [of changes] by (metis card_mono card_subset_eq finite_set le_antisym)
  with l d(1) have "distinct changes" by (metis card_distinct distinct_card)
  with s d(1) have m: "mset cs = mset changes" by (simp add: set_eq_iff_mset_eq_distinct)
  then have "mset (map pl_path cs) = mset (map pl_path changes)" by (metis mset_map)
  with m assms(1) show ?thesis by (metis assigns_def mset_eq_imp_distinct_iff)
qed

section \<open>Trees that can be checked out\<close>

definition below :: "string \<Rightarrow> string \<Rightarrow> bool" where
  "below p d \<longleftrightarrow> d \<noteq> [] \<and> (\<exists>r. p = d @ SLASH # r)"

text \<open>
  No path of the tree is a directory of another, as it is spelled or as it folds, and no two fold to
  one name: a case-insensitive or normalizing filesystem can hold the tree.
\<close>

definition checkout_safe :: "(string \<Rightarrow> string) \<Rightarrow> string set \<Rightarrow> bool" where
  "checkout_safe foldc paths \<longleftrightarrow> (\<forall>p \<in> paths. \<forall>q \<in> paths. \<not> below p q \<and> \<not> below (FoldPath foldc p) (FoldPath foldc q)
     \<and> (FoldPath foldc p = FoldPath foldc q \<longrightarrow> p = q))"

lemma folds_apart_iff: "folds_apart foldc X ps \<longleftrightarrow> distinct (map (FoldPath foldc) ps) \<and> X \<inter> FoldPath foldc ` set ps = {}"
  by (induction ps arbitrary: X) (auto simp: Let_def)

lemma ancestor_below: "ancestor_in paths (parentDir p) \<longleftrightarrow> (\<exists>d \<in> paths. below p d)"
  unfolding ancestor_in_iff below_def by blast

lemma validateTreePathSet_iff:
  assumes "distinct (map fst state)"
  shows "validateTreePathSet foldc state = None \<longleftrightarrow> checkout_safe foldc (fst ` set state)"
proof -
  have "distinct (map (FoldPath foldc) (sort (map fst state)))
      \<longleftrightarrow> (\<forall>p \<in> fst ` set state. \<forall>q \<in> fst ` set state. FoldPath foldc p = FoldPath foldc q \<longrightarrow> p = q)"
    using assms by (simp add: distinct_map [of "FoldPath foldc"] inj_on_def)
  then show ?thesis
    unfolding validateTreePathSet_def Let_def checkout_safe_def
    by (simp add: validation first_error_map_None folds_apart_iff ancestor_below) blast
qed

lemma map_of_apply_to_state: "map_of (apply_to_state c state) = apply_change (map_of state) c"
  by (simp add: apply_to_state_def apply_change_def delete_conv' update_conv')

lemma distinct_apply_to_state: "distinct (map fst state) \<Longrightarrow> distinct (map fst (apply_to_state c state))"
  by (simp add: apply_to_state_def distinct_update distinct_delete)

lemma fold_apply_to_state: "map_of (fold apply_to_state cs state) = apply_all (map_of state) cs"
  by (induction cs arbitrary: state) (simp_all add: apply_all_def map_of_apply_to_state)

lemma distinct_fold_apply: "distinct (map fst state) \<Longrightarrow> distinct (map fst (fold apply_to_state cs state))"
  by (induction cs arbitrary: state) (simp_all add: distinct_apply_to_state)

lemma apply_all_append: "apply_all m (cs @ ds) = apply_all (apply_all m cs) ds"
  by (simp add: apply_all_def)

text \<open>The order of changes at distinct paths does not matter.\<close>

lemma apply_all_mset:
  assumes "mset cs = mset ds" "distinct (map pl_path cs)"
  shows "apply_all m cs = apply_all m ds"
proof
  fix p
  have s: "set cs = set ds" using assms(1) by (rule mset_eq_setD)
  have d: "distinct (map pl_path ds)" using assms by (metis mset_eq_imp_distinct_iff mset_map)
  show "apply_all m cs p = apply_all m ds p"
  proof (cases "p \<in> pl_path ` set cs")
    case True
    then obtain c where "c \<in> set cs" "p = pl_path c" by blast
    with s apply_all_at [OF assms(2), of c m Map.empty] apply_all_at [OF d, of c m Map.empty] show ?thesis by simp
  next
    case False
    with s show ?thesis by (simp add: apply_all_other)
  qed
qed

abbreviation group_changes :: "resolvedCommitGroup list \<Rightarrow> plannedChange list" where
  "group_changes groups \<equiv> concat (map rcg_changes groups)"

lemma validate_order_iff:
  assumes "distinct (map fst state)"
  shows "validate_order foldc state groups = None \<longleftrightarrow>
    (\<forall>i < length groups. checkout_safe foldc (dom (apply_all (map_of state) (group_changes (take (Suc i) groups)))))"
  using assms
proof (induction groups arbitrary: state)
  case (Cons g gs)
  let ?s = "fold apply_to_state (rcg_changes g) state"
  have d: "distinct (map fst ?s)" using Cons.prems by (rule distinct_fold_apply)
  have k: "fst ` set ?s = dom (apply_all (map_of state) (rcg_changes g))"
    by (simp add: dom_map_of_conv_image_fst [symmetric] fold_apply_to_state)
  have "validate_order foldc state (g # gs) = None
      \<longleftrightarrow> checkout_safe foldc (fst ` set ?s) \<and> validate_order foldc ?s gs = None"
    using validateTreePathSet_iff [OF d, of foldc] by (auto simp: Let_def split: option.split)
  also have "\<dots> \<longleftrightarrow> (\<forall>i < length (g # gs). checkout_safe foldc
      (dom (apply_all (map_of state) (group_changes (take (Suc i) (g # gs))))))"
    unfolding Cons.IH [OF d] k fold_apply_to_state All_less_Suc2 list.size add_0_right add_Suc_right
    by (simp add: apply_all_append)
  finally show ?case .
qed simp

section \<open>Properties\<close>

lemma resolved_plan:
  assumes "decodeAndResolveCommitPlan foldc raw changes base pol = Inr groups" "distinct (map fst base)"
  shows "mset (group_changes groups) = mset changes" "distinct (map pl_path (group_changes groups))"
    "distinct (map pl_path changes)"
    "\<forall>i < length groups. checkout_safe foldc (dom (apply_all (map_of base) (group_changes (take (Suc i) groups))))"
    "0 < length groups \<and> int (length groups) \<le> plc_max_groups pol"
proof -
  from assms(1) obtain plan :: commitPlan and a where
    p: "resolve_groups foldc pol changes False {} (cpl_groups plan) = Inr (groups, a)" "card a = length changes"
      "validate_order foldc base groups = None" "cpl_groups plan \<noteq> []"
      "int (length (cpl_groups plan)) \<le> plc_max_groups pol"
    by (auto simp: decodeAndResolveCommitPlan_def resolve_plan_def validateCommitPlanOrder_def sum_results not_less
        split: option.split_asm if_split_asm)
  from resolve_groups_assigns [OF p(1)] have g: "assigns changes {} (group_changes groups) a"
    "length groups = length (cpl_groups plan)" by simp_all
  from assigned_all [OF g(1) p(2)] have m: "mset (group_changes groups) = mset changes" by simp
  have "distinct (map pl_path (group_changes groups))" using g(1) by (simp add: assigns_def)
  with m p(3) validate_order_iff [OF assms(2)] g(2) p(4,5) assigned_all [OF g(1) p(2)]
  show "mset (group_changes groups) = mset changes" "distinct (map pl_path (group_changes groups))"
    "distinct (map pl_path changes)"
    "\<forall>i < length groups. checkout_safe foldc (dom (apply_all (map_of base) (group_changes (take (Suc i) groups))))"
    "0 < length groups \<and> int (length groups) \<le> plc_max_groups pol" by simp_all
qed

text \<open>
  C6: an accepted commit plan splits the import without changing it: every derived change is in
  exactly one group, the tree after every group can be checked out on a case-folding, normalizing
  filesystem, and the last tree is the one the unified commit would have; the groups are within their cap.
\<close>

theorem commit_plan_partitions:
  assumes "decodeAndResolveCommitPlan foldc raw changes base pol = Inr groups" "distinct (map fst base)"
  shows "mset (group_changes groups) = mset changes
    \<and> apply_all (map_of base) (group_changes groups) = apply_all (map_of base) changes
    \<and> (\<forall>i < length groups. checkout_safe foldc (dom (apply_all (map_of base) (group_changes (take (Suc i) groups)))))
    \<and> 0 < length groups \<and> int (length groups) \<le> plc_max_groups pol"
  using resolved_plan [OF assms] apply_all_mset [OF resolved_plan(1,2) [OF assms]] by simp

text \<open>The plan that leaves everything to one group.\<close>

definition unified_plan :: "string \<Rightarrow> string \<Rightarrow> json" where
  "unified_plan name message = JObject [(''version'', JString commitPlanVersion),
     (''groups'', JArray [JObject [(''name'', JString name), (''message'', JString message), (''remainder'', JBool True)]])]"

lemma take_remainder_all:
  "distinct (map pl_path cs) \<Longrightarrow> assigned \<inter> pl_path ` set cs = {} \<Longrightarrow>
    take_remainder assigned cs = (cs, assigned \<union> pl_path ` set cs)"
proof (induction cs arbitrary: assigned)
  case (Cons c cs)
  have "insert (pl_path c) assigned \<inter> pl_path ` set cs = {}" using Cons.prems by auto
  with Cons show ?case by simp
qed simp

lemma word_keys: "key_is ''version'' ''version''" "key_is ''groups'' ''groups''" "\<not> key_is ''groups'' ''version''"
  "key_is ''name'' ''name''" "key_is ''message'' ''message''" "\<not> key_is ''message'' ''name''"
  "key_is ''remainder'' ''remainder''" "\<not> key_is ''remainder'' ''name''" "\<not> key_is ''remainder'' ''message''"
  "\<not> key_is ''remainder'' ''paths''" "\<not> key_is ''name'' ''paths''" "\<not> key_is ''message'' ''paths''"
  "key_is ''paths'' ''paths''" "\<not> key_is ''paths'' ''name''" "\<not> key_is ''paths'' ''message''"
  by (code_simp)+

lemma unified_plan_decodes:
  "preboundCommitPlan (unified_plan name message) maxGroups maxPaths = None \<longleftrightarrow> 1 \<le> maxGroups"
  "decode_plan (unified_plan name message) = Some \<lparr>cpl_version = commitPlanVersion,
     cpl_groups = [\<lparr>rcp_name = name, rcp_message = message, rcp_paths = None, rcp_remainder = Some (JBool True)\<rparr>]\<rparr>"
  by (simp_all add: unified_plan_def preboundCommitPlan_def preboundCommitPlanGroup_def word_keys decode_plan_def
      decode_group_def decode_string_def zero_group_def split: sum.split)

text \<open>
  The plan of one remainder group is the unified commit: it is accepted exactly when a checkout of
  the whole import is possible, and then its one group holds all changes in their order.
\<close>

theorem unified_plan_accepted:
  assumes "distinct (map fst base)" "distinct (map pl_path changes)" "TrimSpace name \<noteq> []" "1 \<le> plc_max_groups pol"
  shows "decodeAndResolveCommitPlan foldc (Some (unified_plan name message)) changes base pol =
    (if checkout_safe foldc (dom (apply_all (map_of base) changes))
     then Inr [\<lparr>rcg_name = name, rcg_message = message, rcg_changes = changes\<rparr>] else Inl errPlanStructural)"
proof -
  let ?g = "\<lparr>rcg_name = name, rcg_message = message, rcg_changes = changes\<rparr>"
  have "card (pl_path ` set changes) = length changes" using assms(2) distinct_card by fastforce
  moreover have "validate_order foldc base [?g] = (if checkout_safe foldc (dom (apply_all (map_of base) changes))
      then None else Some errPlanStructural)"
    using validate_order_iff [OF assms(1), of foldc "[?g]"] by (auto simp: Let_def split: option.split_asm)
  ultimately show ?thesis
    using assms unified_plan_decodes(1) [of name message "plc_max_groups pol" "plc_max_entries pol"]
    by (simp add: decodeAndResolveCommitPlan_def unified_plan_decodes(2) resolve_plan_def resolve_group_def
        unmarshal_bool_def take_remainder_all validateCommitPlanOrder_def)
qed

section \<open>The bounds\<close>

definition named_paths :: "rawCommitPlanGroup \<Rightarrow> int" where
  "named_paths g = (case rcp_paths g of Some (JArray ps) \<Rightarrow> int (length ps) | _ \<Rightarrow> 0)"

lemma named_paths_nonneg: "0 \<le> named_paths g"
  by (simp add: named_paths_def split: option.split json.split)

lemma prebound_paths_Inr: "prebound_paths m n ps = Inr k \<Longrightarrow> k = n + int (length ps) \<and> (n \<le> m \<longrightarrow> k \<le> m)"
  by (induction m n ps rule: prebound_paths.induct) (auto split: if_split_asm)

lemma fold_word_paths: "key_is key ''paths'' \<Longrightarrow> \<not> key_is key ''name'' \<and> \<not> key_is key ''message''"
  by (auto simp: key_is_def ascii_lower_def byte_def)

lemma group_members_counted:
  assumes "prebound_group_members m n ms = Inr k" "decode_group_members g ms = Some g'"
  shows "named_paths g' - named_paths g \<le> k - n \<and> n \<le> k \<and> (n \<le> m \<longrightarrow> k \<le> m)"
  using assms
proof (induction ms arbitrary: g n)
  case (Cons x ms)
  obtain key v where x: "x = (key, v)" by (cases x)
  show ?case
  proof (cases "key_is key ''paths''")
    case False
    with Cons.prems(1) x have n: "prebound_group_members m n ms = Inr k" by simp
    from False Cons.prems(2) x obtain h where "decode_group_members h ms = Some g'" "rcp_paths h = rcp_paths g"
      by (auto split: if_split_asm bind_split_asm)
    with Cons.IH [OF n] show ?thesis by (metis named_paths_def)
  next
    case True
    then have d: "decode_group_members (g\<lparr>rcp_paths := Some v\<rparr>) ms = Some g'"
      using Cons.prems(2) x fold_word_paths [OF True] by simp
    from True Cons.prems(1) x obtain j where j: "prebound_group_members m j ms = Inr k"
      "j = n + named_paths (g\<lparr>rcp_paths := Some v\<rparr>)" "n \<le> m \<longrightarrow> j \<le> m"
      by (cases v) (auto simp: sum_results named_paths_def dest!: prebound_paths_Inr)
    from Cons.IH [OF j(1) d] j(2,3) named_paths_nonneg [of g] named_paths_nonneg [of "g\<lparr>rcp_paths := Some v\<rparr>"]
    show ?thesis by auto
  qed
qed simp

abbreviation named_total :: "rawCommitPlanGroup list \<Rightarrow> int" where
  "named_total gs \<equiv> sum_list (map named_paths gs)"

lemma named_total_nonneg: "0 \<le> named_total gs"
  by (induction gs) (simp_all add: named_paths_nonneg)

lemma elements_counted:
  assumes "prebound_groups M m c n vs = Inr (c', n')" "decode_elements held vs = Some gs"
  shows "named_total gs + named_total (drop (length gs) held) \<le> named_total held + (n' - n)
    \<and> c' = c + int (length gs) \<and> n \<le> n' \<and> (n \<le> m \<longrightarrow> n' \<le> m) \<and> (c \<le> M \<longrightarrow> c' \<le> M)"
  using assms
proof (induction vs arbitrary: c n held gs)
  case (Cons v vs)
  let ?g = "case held of [] \<Rightarrow> zero_group | g # _ \<Rightarrow> g"
  from Cons.prems(1) obtain k where k: "c + 1 \<le> M" "preboundCommitPlanGroup m n v = Inr k"
    "prebound_groups M m (c + 1) k vs = Inr (c', n')" by (auto simp: sum_results split: if_split_asm)
  from k(2) obtain ms where v: "v = JObject ms" "prebound_group_members m n ms = Inr k"
    by (auto simp: preboundCommitPlanGroup_def split: json.split_asm)
  from Cons.prems(2) v(1) obtain g gs' where g: "decode_group_members ?g ms = Some g"
    "decode_elements (tl held) vs = Some gs'" "gs = g # gs'"
    by (auto simp: decode_group_def split: option.split_asm)
  have "named_total held = named_paths ?g + named_total (tl held)"
    by (cases held) (simp_all add: named_paths_def zero_group_def)
  moreover have "drop (length gs) held = drop (length gs') (tl held)" by (simp add: g(3) drop_Suc)
  ultimately show ?case
    using group_members_counted [OF v(2) g(1)] Cons.IH [OF k(3) g(2)] k(1) g(3) by auto
qed simp

lemma groups_key: "key_is key ''groups'' \<Longrightarrow> \<not> key_is key ''version''"
  by (auto simp: key_is_def ascii_lower_def byte_def)

lemma members_counted:
  assumes "prebound_members M m c n ms = None" "decode_members plan held ms = Some plan'"
    and "named_total held \<le> n" "named_total (cpl_groups plan) \<le> n" "n \<le> m" "int (length (cpl_groups plan)) \<le> c" "c \<le> M"
  shows "int (length (cpl_groups plan')) \<le> M \<and> named_total (cpl_groups plan') \<le> m"
  using assms
proof (induction ms arbitrary: c n plan held)
  case (Cons x ms)
  obtain key v where x: "x = (key, v)" by (cases x)
  show ?case
  proof (cases "key_is key ''groups''")
    case False
    with Cons.prems(1) x have n: "prebound_members M m c n ms = None" by simp
    from False Cons.prems(2) x obtain p :: commitPlan where p: "decode_members p held ms = Some plan'"
      "cpl_groups p = cpl_groups plan" by (auto split: if_split_asm bind_split_asm)
    from Cons.IH [OF n p(1)] p(2) Cons.prems(3-7) show ?thesis by simp
  next
    case True
    with Cons.prems(1) x obtain vs c' n' where vs: "v = JArray vs" "prebound_groups M m c n vs = Inr (c', n')"
      "prebound_members M m c' n' ms = None" by (auto split: json.split_asm sum.split_asm)
    from True groups_key [OF True] Cons.prems(2) x vs(1) obtain gs where gs: "decode_elements held vs = Some gs"
      "decode_members (plan\<lparr>cpl_groups := gs\<rparr>) (if gs = [] then [] else gs @ drop (length gs) held) ms = Some plan'"
      by (auto split: option.split_asm)
    from elements_counted [OF vs(2) gs(1)] Cons.prems(3-7) named_total_nonneg [of "drop (length gs) held"]
      named_total_nonneg [of held]
    have b: "named_total gs + named_total (drop (length gs) held) \<le> n'" "n' \<le> m" "c' \<le> M" "int (length gs) \<le> c'" "0 \<le> n'"
      by auto
    show ?thesis
      by (rule Cons.IH [OF vs(3) gs(2)]) (use b named_total_nonneg [of "drop (length gs) held"] in auto)
  qed
qed simp

text \<open>
  C28: what a plan makes the importer allocate is bounded before it is decoded: when the token pass
  accepts the document, whatever keys it repeats and however they are spelled, the decoded plan holds
  at most the capped number of groups and, over all of them, at most the capped number of paths.
\<close>

theorem decoded_plan_bounded:
  assumes "preboundCommitPlan doc maxGroups maxPaths = None" "decode_plan doc = Some plan"
    and "0 \<le> maxGroups" "0 \<le> maxPaths"
  shows "int (length (cpl_groups plan)) \<le> maxGroups \<and> named_total (cpl_groups plan) \<le> maxPaths"
proof -
  from assms(1) obtain key ms where d: "doc = JObject ((key, JString commitPlanVersion) # ms)" "key_is key ''version''"
    "prebound_members maxGroups maxPaths 0 0 ms = None"
    by (auto simp: preboundCommitPlan_def split: json.split_asm list.split_asm if_split_asm)
  with assms(2) have "decode_members \<lparr>cpl_version = commitPlanVersion, cpl_groups = []\<rparr> [] ms = Some plan"
    by (simp add: decode_plan_def decode_string_def)
  from members_counted [OF d(3) this] assms(3,4) show ?thesis by simp
qed

section \<open>Witnesses\<close>

definition example_added :: "string \<Rightarrow> plannedChange" where
  "example_added p = \<lparr>pl_path = p, pl_kind = ChangeAdded, pl_mode = ''100644'', pl_oid = ''1'', pl_digest = ''d'', pl_size = 1,
     pl_verified_path = ''v'', pl_path_hex = [], pl_from_base = False\<rparr>"

definition example_plan :: json where
  "example_plan = JObject [(''version'', JString commitPlanVersion), (''groups'', JArray [
     JObject [(''name'', JString ''first''), (''message'', JString ''m''), (''paths'', JArray [JString ''a/x''])],
     JObject [(''name'', JString ''rest''), (''message'', JString ''n''), (''remainder'', JBool True)]])]"

definition example_plan_base :: base_tree where
  "example_plan_base = [(''b'', \<lparr>te_mode = ''100644'', te_oid = ''2''\<rparr>)]"

definition example_plan_policy :: Policy where
  "example_plan_policy = example_policy\<lparr>plc_max_groups := 2, plc_max_entries := 5, plc_max_path_bytes := 9, plc_max_path_depth := 3\<rparr>"

definition id_fold :: "string \<Rightarrow> string" where "id_fold s = s"

definition example_resolved :: "resolvedCommitGroup list" where
  "example_resolved = [\<lparr>rcg_name = ''first'', rcg_message = ''m'', rcg_changes = [example_added ''a/x'']\<rparr>,
     \<lparr>rcg_name = ''rest'', rcg_message = ''n'', rcg_changes = [example_added ''c'']\<rparr>]"

lemma example_path_ok: "validateCommitPlanPath id_fold ''a/x'' example_plan_policy = None"
proof -
  have "\<not> GitUnsafeComponent c" if "c \<in> {''a'', ''x''}" for c
    using that by (auto simp: GitUnsafeComponent_def NormalizeAliases_def normalizeComponentAliases_def strip_ignorable_ascii
        isDotGitVariant_def TrimRightSet_def EqualFold_def byte_def)
  moreover have "Split ''a/x'' SLASH = [''a'', ''x'']" by code_simp
  moreover have "\<not> IsCommitPlanNamespacePath id_fold ''a/x''" by code_simp
  moreover have "ValidString ''a/x''" by (simp add: ValidString_ascii byte_def)
  ultimately show ?thesis
    by (simp add: validateCommitPlanPath_def validation ValidPath_def EvidenceWorkspaceDir_def HasPrefix_def
        example_plan_policy_def)
qed

lemma example_order_ok: "validateCommitPlanOrder id_fold example_resolved example_plan_base = None"
  by code_simp

definition example_decoded :: commitPlan where
  "example_decoded = \<lparr>cpl_version = commitPlanVersion, cpl_groups =
    [\<lparr>rcp_name = ''first'', rcp_message = ''m'', rcp_paths = Some (JArray [JString ''a/x'']), rcp_remainder = None\<rparr>,
     \<lparr>rcp_name = ''rest'', rcp_message = ''n'', rcp_paths = None, rcp_remainder = Some (JBool True)\<rparr>]\<rparr>"

lemma example_plan_decodes: "preboundCommitPlan example_plan 2 1 = None" "preboundCommitPlan example_plan 2 5 = None"
  "decode_plan example_plan = Some example_decoded"
  by code_simp+

lemma example_plan_resolves: "decodeAndResolveCommitPlan id_fold (Some example_plan)
    [example_added ''a/x'', example_added ''c''] example_plan_base example_plan_policy = Inr example_resolved"
proof -
  have "TrimSpace ''first'' \<noteq> []" "TrimSpace ''rest'' \<noteq> []" by (simp_all add: TrimSpace_solid solid_def byte_def)
  moreover have "plc_max_groups example_plan_policy = 2" "plc_max_entries example_plan_policy = 5"
    by (simp_all add: example_plan_policy_def)
  moreover have "plan_by_path [example_added ''a/x'', example_added ''c''] ''a/x'' = Some (example_added ''a/x'')"
    by (simp add: plan_by_path_def example_added_def)
  ultimately show ?thesis using example_order_ok
    by (simp add: decodeAndResolveCommitPlan_def example_plan_decodes resolve_plan_def resolve_group_def
        example_decoded_def unmarshal_strings_def unmarshal_bool_def decode_string_def example_path_ok example_resolved_def)
      (simp add: example_added_def)
qed

lemma commit_plan_partitions_witness: "mset (group_changes example_resolved) = mset [example_added ''a/x'', example_added ''c'']"
  by (rule conjunct1 [OF commit_plan_partitions [OF example_plan_resolves]]) (simp add: example_plan_base_def)

lemma unified_plan_accepted_witness: "decodeAndResolveCommitPlan id_fold (Some (unified_plan ''n'' ''m''))
    [example_added ''a/x'', example_added ''a''] [] example_plan_policy = Inl errPlanStructural"
proof -
  let ?cs = "[example_added ''a/x'', example_added ''a'']"
  have "below ''a/x'' ''a''" by (simp add: below_def)
  moreover have "''a/x'' \<in> dom (apply_all (map_of []) ?cs)" "''a'' \<in> dom (apply_all (map_of []) ?cs)"
    by (simp_all add: apply_all_def apply_change_def example_added_def dom_def)
  ultimately have n: "\<not> checkout_safe id_fold (dom (apply_all (map_of []) ?cs))" unfolding checkout_safe_def by metis
  have "decodeAndResolveCommitPlan id_fold (Some (unified_plan ''n'' ''m'')) ?cs [] example_plan_policy =
    (if checkout_safe id_fold (dom (apply_all (map_of []) ?cs))
     then Inr [\<lparr>rcg_name = ''n'', rcg_message = ''m'', rcg_changes = ?cs\<rparr>] else Inl errPlanStructural)"
    by (rule unified_plan_accepted)
      (simp_all add: example_added_def example_plan_policy_def TrimSpace_solid solid_def byte_def)
  with n show ?thesis by (simp only: if_False)
qed

lemma decoded_plan_bounded_witness: "named_total (cpl_groups example_decoded) \<le> 1"
  using decoded_plan_bounded [OF example_plan_decodes(1,3)] by simp

end
