(* ===== verification/ImportScan.thy ===== *)
theory ImportScan
  imports GoRegex CommitPlan
begin

text \<open>
  \<open>daemon/internal/importer/secrets.go\<close> and \<open>message.go\<close>: the credential scan over what an import
  brings in, and the screening of the commit messages an untrusted plan proposes. The read of a
  verified blob is the parameter \<open>read\<close>.

  Shown: a credential that a rule matches is reported with its line whatever bytes stand around it; the
  scan misses no content the import adds and reports only real matches, never a byte of them; a
  screened message carries no directive that GitHub acts on, in any letter case.
\<close>

section \<open>Credential rules\<close>

record secretRule =
  sr_id :: string
  sr_re :: regex

definition name_rune :: "nat \<Rightarrow> bool" where "name_rune r \<longleftrightarrow> alnum_rune r \<or> chars ''_-'' r"

definition secretRules :: "secretRule list" where
  "secretRules = [
     \<lparr>sr_id = ''anthropic_token'', sr_re = in_sequence [literal ''sk-ant-'', at_least 16 (Class name_rune)]\<rparr>,
     \<lparr>sr_id = ''github_token'', sr_re = in_sequence [WordBoundary, literal ''gh'', Class (chars ''pousr''), literal ''_'',
        at_least 36 (Class alnum_rune), WordBoundary]\<rparr>,
     \<lparr>sr_id = ''github_pat'', sr_re = in_sequence [WordBoundary, literal ''github_pat_'', at_least 22 (Class word_rune),
        WordBoundary]\<rparr>,
     \<lparr>sr_id = ''aws_access_key_id'', sr_re = in_sequence [WordBoundary, one_of [literal ''AKIA'', literal ''ASIA''],
        Times 16 (Class (\<lambda>r. digit_rune r \<or> upper_rune r)), WordBoundary]\<rparr>,
     \<lparr>sr_id = ''slack_token'', sr_re = in_sequence [WordBoundary, literal ''xox'', Class (chars ''abprs''), literal ''-'',
        at_least 10 (Class (\<lambda>r. alnum_rune r \<or> chars ''-'' r)), WordBoundary]\<rparr>,
     \<lparr>sr_id = ''pem_private_key'', sr_re = in_sequence [literal ''-----BEGIN '',
        Star (Seq (at_least 1 (Class (\<lambda>r. upper_rune r \<or> digit_rune r))) (literal '' '')), literal ''PRIVATE KEY-----'']\<rparr>,
     \<lparr>sr_id = ''gcp_service_account_key'', sr_re = in_sequence [Class (\<lambda>r. r = 34), literal ''private_key_id'', Class (\<lambda>r. r = 34),
        Star (Class space_rune), literal '':'', Star (Class space_rune), Class (\<lambda>r. r = 34),
        Times 40 (Class (\<lambda>r. digit_rune r \<or> chars ''abcdef'' r)), Class (\<lambda>r. r = 34)]\<rparr>]"

abbreviation LF :: char where "LF \<equiv> CHR 0x0A"

definition TrimCR :: "string \<Rightarrow> string" where
  "TrimCR l = (if l \<noteq> [] \<and> last l = CHR 0x0D then butlast l else l)"

function splitLines :: "string \<Rightarrow> string list" where
  "splitLines b = (if b = [] then []
     else if LF \<notin> set b then [TrimCR b]
     else TrimCR (takeWhile (\<lambda>c. c \<noteq> LF) b) # splitLines (tl (dropWhile (\<lambda>c. c \<noteq> LF) b)))"
  by pat_completeness auto
termination
proof (relation "measure length")
  fix b :: string
  assume "b \<noteq> []" "\<not> LF \<notin> set b"
  then have "dropWhile (\<lambda>c. c \<noteq> LF) b \<noteq> []" by auto
  moreover have "length (dropWhile (\<lambda>c. c \<noteq> LF) b) \<le> length b" by (rule length_dropWhile_le)
  ultimately show "(tl (dropWhile (\<lambda>c. c \<noteq> LF) b), b) \<in> measure length" by (cases "dropWhile (\<lambda>c. c \<noteq> LF) b") auto
qed simp

declare splitLines.simps [simp del]

definition secret_finding :: "string \<Rightarrow> string \<Rightarrow> nat \<Rightarrow> Finding" where
  "secret_finding p rule line = \<lparr>fnd_path = p, fnd_path_hex = [], fnd_kind = FindingSecret, fnd_rule = rule,
     fnd_line = int line + 1, fnd_detail = []\<rparr>"

definition scanText :: "string \<Rightarrow> string \<Rightarrow> Finding list" where
  "scanText p content = concat (map (\<lambda>(line, b).
     map (\<lambda>rule. secret_finding p (sr_id rule) line) (filter (\<lambda>rule. Match (sr_re rule) (runes b)) secretRules))
     (enumerate 0 (splitLines content)))"

definition ContainsSecret :: "string \<Rightarrow> bool" where
  "ContainsSecret content \<longleftrightarrow> length (scanText [] content) > 0"

section \<open>The scan of an import\<close>

text \<open>
  The bytes of one verified snapshot: at most one more than its size is read, and they must be as many
  and hash to the digest. \<open>file\<close> is the content of a path, \<open>sha256\<close> the library's sum.
\<close>

definition readScanBlob ::
  "(string \<Rightarrow> err + string) \<Rightarrow> (string \<Rightarrow> nat list) \<Rightarrow> blobInfo \<Rightarrow> string \<Rightarrow> err + string" where
  "readScanBlob file sha256 info digest = (case file (bi_path info) of
     Inl _ \<Rightarrow> Inl (Sentinel ''ErrHandoffUnreadable'')
   | Inr bytes \<Rightarrow> (let data = take (nat (wrap64 (bi_size info + 1))) bytes in
       if int (length data) \<noteq> bi_size info then Inl ErrSizeMismatch
       else ebind (Format (sha256 data)) (\<lambda>got. if got \<noteq> digest then Inl ErrDigestMismatch else Inr data)))"

definition skipped_finding :: "plannedChange \<Rightarrow> int \<Rightarrow> Finding" where
  "skipped_finding c maxScan = path_finding (pl_path c) FindingSecretScanSkipped
     (decimal (nat (pl_size c)) @ '' bytes exceed the '' @ decimal (nat maxScan) @ ''-byte scan cap; not scanned'')"

text \<open>A change that brings no new content has nothing to scan.\<close>

definition nothing_to_scan :: "plannedChange \<Rightarrow> bool" where
  "nothing_to_scan c \<longleftrightarrow> pl_kind c = ChangeDeleted \<or> pl_oid c = [] \<or> pl_from_base c"

definition scan_blob ::
  "(blobInfo \<Rightarrow> string \<Rightarrow> err + string) \<Rightarrow> (string \<rightharpoonup> blobInfo) \<Rightarrow> string \<Rightarrow> err + Finding list" where
  "scan_blob read blobs digest = (case blobs digest of
     None \<Rightarrow> Inl ErrTreeMismatch
   | Some info \<Rightarrow> ebind (read info digest) (\<lambda>content. Inr (scanText [] content)))"

text \<open>\<open>scans\<close> holds the matches of each digest scanned so far.\<close>

fun scan_changes ::
  "(blobInfo \<Rightarrow> string \<Rightarrow> err + string) \<Rightarrow> (string \<rightharpoonup> blobInfo) \<Rightarrow> int \<Rightarrow> (string \<rightharpoonup> Finding list) \<Rightarrow> plannedChange list
    \<Rightarrow> err + Finding list" where
  "scan_changes read blobs maxScan scans [] = Inr []"
| "scan_changes read blobs maxScan scans (c # cs) =
     (if nothing_to_scan c then scan_changes read blobs maxScan scans cs
      else if maxScan > 0 \<and> pl_size c > maxScan then
        ebind (scan_changes read blobs maxScan scans cs) (\<lambda>fs. Inr (skipped_finding c maxScan # fs))
      else ebind (case scans (pl_digest c) of Some matches \<Rightarrow> Inr matches | None \<Rightarrow> scan_blob read blobs (pl_digest c))
          (\<lambda>matches. ebind (scan_changes read blobs maxScan (scans(pl_digest c \<mapsto> matches)) cs)
            (\<lambda>fs. Inr (map (\<lambda>m. m\<lparr>fnd_path := pl_path c\<rparr>) matches @ fs))))"

definition scanSecrets ::
  "(blobInfo \<Rightarrow> string \<Rightarrow> err + string) \<Rightarrow> (string \<rightharpoonup> blobInfo) \<Rightarrow> plannedChange list \<Rightarrow> int \<Rightarrow> err + Finding list" where
  "scanSecrets read blobs changes maxScan = scan_changes read blobs maxScan Map.empty changes"

text \<open>The strings of a document, keys included, in the order of its tokens.\<close>

fun json_strings :: "json \<Rightarrow> string list" where
  "json_strings (JString s) = [s]"
| "json_strings (JArray vs) = concat (map json_strings vs)"
| "json_strings (JObject ms) = concat (map (\<lambda>m. fst m # json_strings (snd m)) ms)"
| "json_strings _ = []"

text \<open>The first string that holds a credential, and its ordinal.\<close>

fun first_secret :: "nat \<Rightarrow> string list \<Rightarrow> Finding option" where
  "first_secret n [] = None"
| "first_secret n (s # ss) = (case scanText CommitPlanFilename s of
     [] \<Rightarrow> first_secret (Suc n) ss
   | match # _ \<Rightarrow> Some (match\<lparr>fnd_kind := FindingCommitPlanSecret,
       fnd_detail := ''decoded commit-plan JSON string '' @ decimal (Suc n)\<rparr>))"

definition scanCommitPlanStrings :: "json option \<Rightarrow> Finding list" where
  "scanCommitPlanStrings raw = (case raw of
     None \<Rightarrow> []
   | Some doc \<Rightarrow> (case first_secret 0 (json_strings doc) of None \<Rightarrow> [] | Some f \<Rightarrow> [f]))"

section \<open>Commit messages\<close>

datatype commitMessageFindingKind = messageFindingOverCap | messageFindingEmpty | messageFindingControl
  | messageFindingCloseDirective | messageFindingSkipDirective | messageFindingSpoofedTrailer

record commitMessageFinding =
  cmf_group_ordinal :: nat
  cmf_kind :: commitMessageFindingKind

definition close_words :: "string list" where
  "close_words = [''close'', ''closes'', ''closed'', ''fix'', ''fixes'', ''fixed'', ''resolve'', ''resolves'', ''resolved'']"

text \<open>\<open>[A-Za-z0-9_.-]\<close> under \<open>(?i)\<close>.\<close>

definition repo_rune :: "nat \<Rightarrow> bool" where
  "repo_rune r \<longleftrightarrow> alnum_rune r \<or> chars ''_.-'' r \<or> r = 383 \<or> r = 8490"

definition githubCloseDirective :: regex where
  "githubCloseDirective = in_sequence [WordBoundary, one_of (map folded close_words), Star (Class space_rune),
     optional (literal '':''), at_least 1 (Class space_rune),
     one_of [in_sequence [literal ''#'', at_least 1 (Class digit_rune)],
       in_sequence [at_least 1 (Class repo_rune), literal ''/'', at_least 1 (Class repo_rune), literal ''#'',
         at_least 1 (Class digit_rune)],
       in_sequence [folded ''https://github.com/'', at_least 1 (Class repo_rune), literal ''/'', at_least 1 (Class repo_rune),
         folded ''/issues/'', at_least 1 (Class digit_rune)]],
     WordBoundary]"

definition githubSkipDirective :: regex where
  "githubSkipDirective = in_sequence [literal ''['',
     one_of (map folded [''skip ci'', ''ci skip'', ''no ci'', ''skip actions'', ''actions skip'']), literal '']'']"

definition trailer_names :: "string list" where
  "trailer_names = [''skip-checks'', ''signed-off-by'', ''co-authored-by'', ''reviewed-by'', ''acked-by'', ''tested-by'',
     ''reported-by'', ''suggested-by'', ''helped-by'', ''mentored-by'', ''freeside-agent-proposed'']"

definition githubTrailer :: regex where
  "githubTrailer = in_sequence [LineStart, Star (Class space_rune), one_of (map folded trailer_names),
     Star (Class space_rune), literal '':'']"

text \<open>\<open>unicode.IsControl\<close> and the table \<open>unicode.Cf\<close>.\<close>

definition IsControl :: "nat \<Rightarrow> bool" where
  "IsControl r \<longleftrightarrow> r < 32 \<or> 127 \<le> r \<and> r < 160"

definition Cf_ranges :: "(nat \<times> nat) list" where
  "Cf_ranges = [(0xAD, 0xAD), (0x600, 0x605), (0x61C, 0x61C), (0x6DD, 0x6DD), (0x70F, 0x70F), (0x890, 0x891), (0x8E2, 0x8E2),
     (0x180E, 0x180E), (0x200B, 0x200F), (0x202A, 0x202E), (0x2060, 0x2064), (0x2066, 0x206F), (0xFEFF, 0xFEFF),
     (0xFFF9, 0xFFFB), (0x110BD, 0x110BD), (0x110CD, 0x110CD), (0x13430, 0x1343F), (0x1BCA0, 0x1BCA3), (0x1D173, 0x1D17A),
     (0xE0001, 0xE0001), (0xE0020, 0xE007F)]"

definition is_Cf :: "nat \<Rightarrow> bool" where
  "is_Cf r \<longleftrightarrow> list_ex (\<lambda>(lo, hi). lo \<le> r \<and> r \<le> hi) Cf_ranges"

definition screenCommitMessage :: "string \<Rightarrow> Policy \<Rightarrow> commitMessageFindingKind option" where
  "screenCommitMessage message pol = first_error [
     require (\<not> int (length message) > plc_max_message_bytes pol) messageFindingOverCap,
     require (TrimSpace message \<noteq> []) messageFindingEmpty,
     require (\<not> list_ex (\<lambda>r. r \<noteq> 10 \<and> (IsControl r \<or> is_Cf r)) (runes message)) messageFindingControl,
     (if plc_message_ruleset pol = ''github/1'' then first_error [
        require (\<not> Match githubCloseDirective (runes message)) messageFindingCloseDirective,
        require (\<not> Match githubSkipDirective (runes message)) messageFindingSkipDirective,
        require (\<not> Match githubTrailer (runes message)) messageFindingSpoofedTrailer] else None)]"

definition screenCommitMessages :: "resolvedCommitGroup list \<Rightarrow> Policy \<Rightarrow> commitMessageFinding list" where
  "screenCommitMessages groups pol = concat (map (\<lambda>(i, group).
     if rcg_changes group = [] then []
     else (case screenCommitMessage (rcg_message group) pol of
         None \<Rightarrow> []
       | Some kind \<Rightarrow> [\<lparr>cmf_group_ordinal = i + 1, cmf_kind = kind\<rparr>])) (enumerate 0 groups))"

definition agentProposedTrailer :: string where "agentProposedTrailer = ''Freeside-Agent-Proposed: true''"

definition labelAgentMessage :: "string \<Rightarrow> string" where
  "labelAgentMessage message = TrimRightSet message [LF] @ [LF, LF] @ agentProposedTrailer"

section \<open>Lines\<close>

lemma splitLines_Nil [simp]: "splitLines [] = []"
  by (simp add: splitLines.simps)

lemma splitLines_line: "LF \<notin> set l \<Longrightarrow> splitLines (l @ LF # s) = TrimCR l # splitLines s"
  by (subst splitLines.simps) (auto simp: takeWhile_append dropWhile_append)

lemma splitLines_last: "LF \<notin> set l \<Longrightarrow> l \<noteq> [] \<Longrightarrow> splitLines l = [TrimCR l]"
  by (subst splitLines.simps) simp

lemma splitLines_unlines: "\<forall>l \<in> set ls. LF \<notin> set l \<Longrightarrow> splitLines (unlines LF ls @ s) = map TrimCR ls @ splitLines s"
  by (induction ls) (simp_all add: splitLines_line)

lemma count_list_LF_free: "LF \<notin> set l \<Longrightarrow> count_list l LF = 0"
  by (simp add: count_notin)

lemma split_last_line: "\<exists>ls x. s = unlines LF ls @ x \<and> (\<forall>l \<in> set ls. LF \<notin> set l) \<and> LF \<notin> set x \<and> length ls = count_list s LF"
proof (induction s rule: length_induct)
  case (1 s)
  show ?case
  proof (cases "LF \<in> set s")
    case True
    then obtain a b where s: "s = a @ LF # b" "LF \<notin> set a" by (auto dest: split_list_first)
    with 1 obtain ls x where "b = unlines LF ls @ x" "\<forall>l \<in> set ls. LF \<notin> set l" "LF \<notin> set x" "length ls = count_list b LF"
      by (metis add_Suc_right length_append length_Cons le_add2 le_imp_less_Suc)
    with s show ?thesis by (intro exI [of _ "a # ls"] exI [of _ x]) (simp add: count_list_LF_free)
  qed (use count_list_LF_free in \<open>fastforce intro: exI [of _ "[]"]\<close>)
qed

text \<open>The line a part of the text stands in, without the line end around it.\<close>

lemma line_of_part:
  assumes "u \<noteq> []" "LF \<notin> set u" "last u \<noteq> CHR 0x0D"
  shows "\<exists>x y. (count_list before LF, x @ u @ y) \<in> set (enumerate 0 (splitLines (before @ u @ after)))
    \<and> (stands_apart before after \<longrightarrow> stands_apart x y)"
proof -
  obtain ls x where b: "before = unlines LF ls @ x" "\<forall>l \<in> set ls. LF \<notin> set l" "LF \<notin> set x" "length ls = count_list before LF"
    using split_last_line by blast
  define y where "y = takeWhile (\<lambda>c. c \<noteq> LF) after"
  define z where "z = (if y \<noteq> [] \<and> last y = CHR 0x0D then butlast y else y)"
  have y: "LF \<notin> set y" using set_takeWhileD by (fastforce simp: y_def)
  have trim: "TrimCR (x @ u @ y) = x @ u @ z"
  proof (cases "y = []")
    case True
    then have "last (x @ u @ y) \<noteq> CHR 0x0D" "z = []" using assms(1,3) by (simp_all add: z_def)
    with True show ?thesis unfolding TrimCR_def by (simp only: if_False simp_thms append_Nil2)
  next
    case False
    then have "last (x @ u @ y) = last y" "butlast (x @ u @ y) = x @ u @ butlast y" by (simp_all add: butlast_append)
    with False show ?thesis unfolding TrimCR_def z_def by (cases "last y = CHR 0x0D") simp_all
  qed
  have l: "LF \<notin> set (x @ u @ y)" "x @ u @ y \<noteq> []" using assms b(3) y by auto
  have "\<exists>ms. splitLines (x @ u @ after) = TrimCR (x @ u @ y) # ms"
  proof (cases "LF \<in> set after")
    case True
    then obtain a v where v: "after = a @ LF # v" "LF \<notin> set a" by (auto dest: split_list_first)
    moreover have "takeWhile (\<lambda>c. c \<noteq> LF) a = a" using v(2) by (intro takeWhile_eq_all_conv [THEN iffD2]) auto
    ultimately have "after = y @ LF # v" by (simp add: y_def takeWhile_tail)
    then show ?thesis using splitLines_line [of "x @ u @ y"] l by auto
  next
    case False
    then have "y = after" unfolding y_def by (intro takeWhile_eq_all_conv [THEN iffD2]) auto
    then show ?thesis using splitLines_last [OF l] by auto
  qed
  then obtain ms where "splitLines (before @ u @ after) = map TrimCR ls @ (x @ u @ z) # ms"
    using splitLines_unlines [OF b(2)] trim by (auto simp: b(1))
  then have "(count_list before LF, x @ u @ z) \<in> set (enumerate 0 (splitLines (before @ u @ after)))"
    using b(4) by (auto simp: in_set_enumerate_eq nth_append)
  moreover have "stands_apart before after \<longrightarrow> stands_apart x z"
  proof
    assume s: "stands_apart before after"
    have "z = [] \<or> hd z = hd after" by (cases after) (auto simp: z_def y_def split: if_split_asm)
    moreover have "z \<noteq> [] \<Longrightarrow> after \<noteq> []" by (auto simp: z_def y_def split: if_split_asm)
    ultimately show "stands_apart x z" using s by (auto simp: stands_apart_def b(1) split: if_split_asm)
  qed
  ultimately show ?thesis by blast
qed

lemma secretRules_line_free: "rule \<in> set secretRules \<Longrightarrow> line_free (sr_re rule)"
  by (auto simp: secretRules_def)

lemma scanText_iff: "f \<in> set (scanText p content) \<longleftrightarrow> (\<exists>line b rule. (line, b) \<in> set (enumerate 0 (splitLines content))
    \<and> rule \<in> set secretRules \<and> Match (sr_re rule) (runes b) \<and> f = secret_finding p (sr_id rule) line)"
  by (auto simp: scanText_def)

text \<open>A credential the rule matches alone is found in every text around it.\<close>

lemma scanText_finds:
  assumes "rule \<in> set secretRules" "Match (sr_re rule) (map byte token)" "token \<noteq> []" "\<forall>c \<in> set token. 32 \<le> byte c \<and> byte c < 128"
    and "stands_apart before after"
  shows "secret_finding p (sr_id rule) (count_list before LF) \<in> set (scanText p (before @ token @ after))"
proof -
  have "LF \<notin> set token" "last token \<noteq> CHR 0x0D" using assms(3,4) by (force simp: byte_def dest: last_in_set)+
  from line_of_part [OF assms(3) this] assms(5) obtain x y where
    xy: "(count_list before LF, x @ token @ y) \<in> set (enumerate 0 (splitLines (before @ token @ after)))" "stands_apart x y"
    by blast
  have "runes (x @ token @ y) = runes x @ map byte token @ runes y" using assms(3,4) by (intro runes_in_text) auto
  with Match_in_context [OF assms(2) secretRules_line_free [OF assms(1)] stands_apart_runes [OF xy(2)]]
  have "Match (sr_re rule) (runes (x @ token @ y))" by simp
  with xy(1) assms(1) show ?thesis unfolding scanText_iff by blast
qed

section \<open>The scan and its memory\<close>

definition change_scan ::
  "(blobInfo \<Rightarrow> string \<Rightarrow> err + string) \<Rightarrow> (string \<rightharpoonup> blobInfo) \<Rightarrow> int \<Rightarrow> plannedChange \<Rightarrow> err + Finding list" where
  "change_scan read blobs maxScan c =
     (if nothing_to_scan c then Inr []
      else if maxScan > 0 \<and> pl_size c > maxScan then Inr [skipped_finding c maxScan]
      else ebind (scan_blob read blobs (pl_digest c)) (\<lambda>matches. Inr (map (\<lambda>m. m\<lparr>fnd_path := pl_path c\<rparr>) matches)))"

lemma scan_changes_direct:
  assumes "\<And>d matches. scans d = Some matches \<Longrightarrow> scan_blob read blobs d = Inr matches"
    and "scan_changes read blobs maxScan scans cs = Inr fs" "c \<in> set cs"
  shows "\<exists>gs. change_scan read blobs maxScan c = Inr gs \<and> set gs \<subseteq> set fs"
  using assms
proof (induction cs arbitrary: scans fs)
  case (Cons x cs)
  show ?case
  proof (cases "nothing_to_scan x \<or> maxScan > 0 \<and> pl_size x > maxScan")
    case True
    with Cons.prems(2) obtain fs' where f: "scan_changes read blobs maxScan scans cs = Inr fs'" "\<forall>g. g \<in> set fs' \<longrightarrow> g \<in> set fs"
      "\<not> nothing_to_scan x \<Longrightarrow> skipped_finding x maxScan \<in> set fs"
      by (auto simp: sum_results split: if_split_asm)
    show ?thesis
    proof (cases "c = x")
      case True
      with \<open>nothing_to_scan x \<or> _\<close> f(3) show ?thesis by (auto simp: change_scan_def)
    next
      case False
      with Cons.IH [OF Cons.prems(1) f(1)] Cons.prems(3) f(2) show ?thesis by (metis set_ConsD subset_code(1))
    qed
  next
    case False
    with Cons.prems(2) obtain matches fs' where
      m: "(case scans (pl_digest x) of Some ms \<Rightarrow> Inr ms | None \<Rightarrow> scan_blob read blobs (pl_digest x)) = Inr matches"
        "scan_changes read blobs maxScan (scans(pl_digest x \<mapsto> matches)) cs = Inr fs'"
        "fs = map (\<lambda>m. m\<lparr>fnd_path := pl_path x\<rparr>) matches @ fs'"
      by (auto simp: sum_results)
    then have b: "scan_blob read blobs (pl_digest x) = Inr matches"
      using Cons.prems(1) by (auto split: option.split_asm)
    show ?thesis
    proof (cases "c = x")
      case True
      with False b m(3) show ?thesis by (auto simp: change_scan_def)
    next
      case False
      have "\<And>d ms. (scans(pl_digest x \<mapsto> matches)) d = Some ms \<Longrightarrow> scan_blob read blobs d = Inr ms"
        using Cons.prems(1) b by (auto split: if_split_asm)
      from Cons.IH [OF this m(2)] False Cons.prems(3) m(3) show ?thesis by fastforce
    qed
  qed
qed simp

lemma readScanBlob_whole:
  assumes "readScanBlob file sha256 info digest = Inr content" "file (bi_path info) = Inr bytes"
    and "0 \<le> bi_size info" "bi_size info < max_int64"
  shows "content = bytes \<and> Format (sha256 bytes) = Inr digest"
proof -
  have w: "wrap64 (bi_size info + 1) = bi_size info + 1" using assms(3,4) by (simp add: wrap64_def max_int64_def)
  from assms(1,2) have c: "content = take (nat (bi_size info + 1)) bytes" "int (length content) = bi_size info"
    "Format (sha256 content) = Inr digest"
    by (auto simp: readScanBlob_def w Let_def sum_results split: if_split_asm)
  have "length content = nat (bi_size info)" using c(2) by simp
  then have "length bytes = nat (bi_size info)" using c(1) assms(3) by (auto simp: min_def split: if_split_asm)
  with c(1) have "content = bytes" by simp
  with c(3) show ?thesis by simp
qed

text \<open>A finding that no profile of the gate tolerates keeps the record from authorizing.\<close>

lemma blocking_finding_refuses:
  assumes "\<And>x. seal x \<noteq> []" "f \<in> set fs" "fnd_kind f \<noteq> FindingReviewerInstructionPath"
    and "set (map Finding_Candidate fs) \<subseteq> set (cai_findings x)" "NewCandidateAuthorization enc seal x = Inr a"
  shows "\<not> ca_authorizes a"
proof -
  have "Finding_Candidate f \<in> set (cai_findings x)" using assms(2,4) by auto
  moreover have "cf_disposition (Finding_Candidate f) = DispositionBlocking"
    using assms(3) by (simp add: Candidate_disposition kind_advisory_iff)
  ultimately show ?thesis
    using NewCandidateAuthorization_iff [of seal enc x, OF assms(1)] assms(5) by (metis FindingDisposition.distinct(1,3))
qed

section \<open>Properties\<close>


section \<open>What a screened message holds\<close>

lemma screened_facts:
  assumes "screenCommitMessage m pol = None"
  shows "int (length m) \<le> plc_max_message_bytes pol" "TrimSpace m \<noteq> []" "\<forall>r \<in> set (runes m). r = 10 \<or> \<not> IsControl r \<and> \<not> is_Cf r"
    "plc_message_ruleset pol = ''github/1'' \<Longrightarrow> \<not> Match githubCloseDirective (runes m) \<and> \<not> Match githubSkipDirective (runes m)
       \<and> \<not> Match githubTrailer (runes m)"
  using assms by (auto simp: screenCommitMessage_def validation list_ex_iff)

definition ascii_text :: "string \<Rightarrow> bool" where
  "ascii_text s \<longleftrightarrow> (\<forall>c \<in> set s. byte c < 128)"

lemma lower_ascii: "map ascii_lower v = w \<Longrightarrow> ascii_text w \<Longrightarrow> ascii_text v"
  unfolding ascii_text_def using ascii_lower_ascii by fastforce

lemma words_ascii: "w \<in> set (close_words @ trailer_names @ [''skip ci'', ''ci skip'', ''no ci'', ''skip actions'', ''actions skip''])
    \<Longrightarrow> ascii_text w \<and> w \<noteq> []"
  by (auto simp: close_words_def trailer_names_def ascii_text_def byte_def)

text \<open>A close directive: a closing word, white space with an optional colon in it, and an issue number.\<close>

definition closes_issue :: "string \<Rightarrow> bool" where
  "closes_issue u \<longleftrightarrow> (\<exists>verb colon gap digits. u = verb @ colon @ gap @ ''#'' @ digits \<and> map ascii_lower verb \<in> set close_words
     \<and> (colon = [] \<or> colon = '':'') \<and> gap \<noteq> [] \<and> list_all (\<lambda>c. c = CHR '' '' \<or> c = LF) gap
     \<and> digits \<noteq> [] \<and> list_all is_digit digits)"

text \<open>A directive that keeps the checks from running.\<close>

definition skips_checks :: "string \<Rightarrow> bool" where
  "skips_checks u \<longleftrightarrow> (\<exists>w. u = ''['' @ w @ '']'' \<and>
     map ascii_lower w \<in> {''skip ci'', ''ci skip'', ''no ci'', ''skip actions'', ''actions skip''})"

text \<open>A trailer line other tools read as a statement of its author.\<close>

definition claims_trailer :: "string \<Rightarrow> bool" where
  "claims_trailer u \<longleftrightarrow> (\<exists>w gap. u = w @ gap @ '':'' \<and> map ascii_lower w \<in> set trailer_names
     \<and> list_all (\<lambda>c. c = CHR '' '' \<or> c = LF) gap)"

lemma blank_rune: "c = CHR '' '' \<or> c = LF \<Longrightarrow> space_rune (byte c) \<and> byte c < 128"
  by (auto simp: space_rune_def byte_def)

lemma list_all_byte: "list_all (\<lambda>c. P (byte c)) s \<Longrightarrow> list_all P (map byte s)"
  by (simp add: list_all_iff)

lemma blank_runes: "list_all (\<lambda>c. c = CHR '' '' \<or> c = LF) gap \<Longrightarrow> list_all space_rune (map byte gap) \<and> ascii_text gap"
  using blank_rune by (fastforce simp: list_all_iff ascii_text_def)

lemma is_digit_byte: "is_digit c \<longleftrightarrow> digit_rune (byte c)"
  by (simp add: is_digit_def digit_rune_def byte_def less_eq_char_def)

lemma digit_runes: "list_all is_digit ds \<Longrightarrow> list_all digit_rune (map byte ds) \<and> ascii_text ds"
  by (auto simp: list_all_iff ascii_text_def is_digit_byte digit_rune_def)

lemma fits_word: "map ascii_lower v \<in> set ws \<Longrightarrow> ascii_text (map ascii_lower v) \<Longrightarrow> fits (one_of (map folded ws)) (map byte v)"
proof -
  assume v: "map ascii_lower v \<in> set ws" "ascii_text (map ascii_lower v)"
  have "fits (folded (map ascii_lower v)) (map byte v)"
    by (rule fits_folded [OF refl]) (use v(2) in \<open>simp add: ascii_text_def\<close>)
  with v(1) show ?thesis by (intro fits_one_of [of "folded (map ascii_lower v)"]) simp_all
qed

lemma ascii_text_append: "ascii_text (a @ b) \<longleftrightarrow> ascii_text a \<and> ascii_text b"
  by (auto simp: ascii_text_def)

lemma ascii_text_marks: "ascii_text []" "ascii_text ''#''" "ascii_text '':''" "ascii_text ''[''" "ascii_text '']''"
  by (simp_all add: ascii_text_def byte_def)

lemma letters_are_words: "w \<in> set close_words \<Longrightarrow> list_all (\<lambda>c. lower_rune (byte c)) w"
  by (auto simp: close_words_def lower_rune_def byte_def)

lemma lower_word: "lower_rune (byte (ascii_lower c)) \<Longrightarrow> word_rune (byte c)"
  by (auto simp: ascii_lower_def lower_rune_def word_rune_def split: if_split_asm)

lemma closes_issue_matches:
  assumes "closes_issue u" "stands_apart before after"
  shows "Match githubCloseDirective (runes (before @ u @ after))"
proof -
  obtain verb colon gap digits where u: "u = verb @ colon @ gap @ ''#'' @ digits" "map ascii_lower verb \<in> set close_words"
    "colon = [] \<or> colon = '':''" "gap \<noteq> []" "list_all (\<lambda>c. c = CHR '' '' \<or> c = LF) gap" "digits \<noteq> []" "list_all is_digit digits"
    using assms(1) unfolding closes_issue_def by blast
  have w: "ascii_text (map ascii_lower verb)" "map ascii_lower verb \<noteq> []" using words_ascii [of "map ascii_lower verb"] u(2) by simp_all
  note gap = blank_runes [OF u(5)] and digs = digit_runes [OF u(7)]
  have asc: "ascii_text u" using lower_ascii [OF refl w(1)] gap digs u(3) by (auto simp only: u(1) ascii_text_append ascii_text_marks)
  let ?verb = "map byte verb" and ?gap = "map byte gap" and ?digs = "map byte digits"
  have number: "fits (in_sequence [literal ''#'', at_least 1 (Class digit_rune)]) (map byte ''#'' @ ?digs @ [])"
    using digs u(6) by (intro fits_sequence fits_sequence_Nil fits_literal fits_at_least) (auto simp: Suc_le_eq)
  let ?target = "one_of [in_sequence [literal ''#'', at_least 1 (Class digit_rune)],
       in_sequence [at_least 1 (Class repo_rune), literal ''/'', at_least 1 (Class repo_rune), literal ''#'',
         at_least 1 (Class digit_rune)],
       in_sequence [folded ''https://github.com/'', at_least 1 (Class repo_rune), literal ''/'', at_least 1 (Class repo_rune),
         folded ''/issues/'', at_least 1 (Class digit_rune)]]"
  have target: "fits ?target (map byte ''#'' @ ?digs @ [])" by (rule fits_one_of [OF list.set_intros(1) number])
  have "fits (optional (literal '':'')) (map byte colon)" using u(3) fits_literal by (intro fits_optional) auto
  then have f: "fits (in_sequence [one_of (map folded close_words), Star (Class space_rune), optional (literal '':''),
      at_least 1 (Class space_rune), ?target]) (?verb @ [] @ map byte colon @ ?gap @ (map byte ''#'' @ ?digs @ []) @ [])"
    using gap u(4) by (intro fits_sequence fits_sequence_Nil fits_star_Nil fits_at_least fits_word [OF u(2) w(1)] target)
      (simp_all add: Suc_le_eq)
  have "map byte u = ?verb @ [] @ map byte colon @ ?gap @ (map byte ''#'' @ ?digs @ []) @ []" by (simp add: u(1))
  with f have f: "fits (in_sequence [one_of (map folded close_words), Star (Class space_rune), optional (literal '':''),
      at_least 1 (Class space_rune), ?target]) (map byte u)" by simp
  have h: "word_rune (hd (map byte u))"
  proof -
    from w(2) obtain c v where "verb = c # v" by (cases verb) auto
    moreover have "list_all (\<lambda>c. lower_rune (byte c)) (map ascii_lower verb)" by (rule letters_are_words [OF u(2)])
    ultimately show ?thesis using lower_word by (simp add: u(1))
  qed
  have l: "word_rune (last (map byte u))"
  proof -
    have "last u = last digits" "is_digit (last digits)" using u(6,7) by (simp_all add: u(1) list_all_iff)
    then show ?thesis using u(6) by (simp add: last_map u(1) is_digit_byte digit_rune_def word_rune_def)
  qed
  have n: "u \<noteq> []" using u(4) by (simp add: u(1))
  from Match_between_boundaries [OF f _ h l stands_apart_runes [OF assms(2)]] n
  have "Match githubCloseDirective (runes before @ map byte u @ runes after)"
    by (simp add: githubCloseDirective_def)
  then show ?thesis using runes_in_text [of u before after] asc n by (simp add: ascii_text_def)
qed

lemma skips_checks_matches: "skips_checks u \<Longrightarrow> Match githubSkipDirective (runes (before @ u @ after))"
proof -
  assume "skips_checks u"
  then obtain w where u: "u = ''['' @ w @ '']''"
    "map ascii_lower w \<in> set [''skip ci'', ''ci skip'', ''no ci'', ''skip actions'', ''actions skip'']"
    by (auto simp: skips_checks_def)
  have a: "ascii_text (map ascii_lower w)" using words_ascii [of "map ascii_lower w"] u(2) by auto
  have "fits githubSkipDirective (map byte ''['' @ map byte w @ map byte '']'' @ [])"
    unfolding githubSkipDirective_def by (intro fits_sequence fits_sequence_Nil fits_literal fits_word [OF u(2) a])
  then have "fits githubSkipDirective (map byte u)" by (simp add: u(1))
  then have "Match githubSkipDirective (runes before @ map byte u @ runes after)" by (rule fits_Match)
  moreover have "ascii_text u" "u \<noteq> []" using lower_ascii [OF refl a] by (simp_all only: u(1) ascii_text_append ascii_text_marks) simp_all
  ultimately show ?thesis using runes_in_text [of u before after] by (simp add: ascii_text_def)
qed

lemma claims_trailer_matches:
  assumes "claims_trailer u" "before = [] \<or> last before = LF"
  shows "Match githubTrailer (runes (before @ u @ after))"
proof -
  obtain w gap where u: "u = w @ gap @ '':''" "map ascii_lower w \<in> set trailer_names" "list_all (\<lambda>c. c = CHR '' '' \<or> c = LF) gap"
    using assms(1) unfolding claims_trailer_def by blast
  have a: "ascii_text (map ascii_lower w)" using words_ascii [of "map ascii_lower w"] u(2) by auto
  note gap = blank_runes [OF u(3)]
  have f: "fits (in_sequence [Star (Class space_rune), one_of (map folded trailer_names), Star (Class space_rune), literal '':''])
      ([] @ map byte w @ map byte gap @ map byte '':'' @ [])"
    using gap by (intro fits_sequence fits_sequence_Nil fits_star_Nil fits_star_class fits_literal fits_word [OF u(2) a]) simp
  have "ascii_text u" unfolding u(1) ascii_text_append using lower_ascii [OF refl a] gap ascii_text_marks by blast
  moreover have "u \<noteq> []" by (simp add: u(1))
  ultimately have r: "runes (before @ u @ after) = runes before @ map byte u @ runes after"
    using runes_in_text [of u before after] by (simp add: ascii_text_def)
  let ?i = "length (runes before)"
  have "?i = 0 \<or> (runes before @ map byte u @ runes after) ! (?i - 1) = 10"
  proof (cases "before = []")
    case False
    with assms(2) obtain b where b: "before = b @ [LF]" by (cases before rule: rev_cases) auto
    have "runes before = runes b @ [10]" unfolding b using runes_ascii_after [of LF b "[]"] runes_ascii [of LF "[]"] by (simp add: byte_def)
    then show ?thesis by (simp add: nth_append)
  qed simp
  from span_line [OF this] f have "spans (runes before @ map byte u @ runes after) githubTrailer ?i (?i + length (map byte u))"
    unfolding githubTrailer_def in_sequence_def fits_def by (auto simp: u(1) intro: span_seq)
  then show ?thesis unfolding r Match_iff by (metis le_add1 length_append)
qed

text \<open>
  C27: a message that passes the screen acts on nothing: it is not blank and within its cap, holds no
  control or format character, closes no issue by a closing word and a number set off from its
  surroundings, skips no checks and claims no trailer, in whatever mixture of letter cases.
\<close>

theorem screened_message_acts_on_nothing:
  assumes "screenCommitMessage m pol = None" "plc_message_ruleset pol = ''github/1''"
  shows "int (length m) \<le> plc_max_message_bytes pol \<and> TrimSpace m \<noteq> []
    \<and> (\<forall>r \<in> set (runes m). r = 10 \<or> \<not> IsControl r \<and> \<not> is_Cf r)
    \<and> \<not> (\<exists>before u after. m = before @ u @ after \<and> (skips_checks u \<or> closes_issue u \<and> stands_apart before after
          \<or> claims_trailer u \<and> (before = [] \<or> last before = LF)))"
proof -
  note clean = screened_facts(4) [OF assms]
  have "\<not> (skips_checks u \<or> closes_issue u \<and> stands_apart before after \<or> claims_trailer u \<and> (before = [] \<or> last before = LF))"
    if m: "m = before @ u @ after" for before u after
    using clean skips_checks_matches [of u before after] closes_issue_matches [of u before after]
      claims_trailer_matches [of u before after] unfolding m by argo
  with screened_facts(1-3) [OF assms(1)] show ?thesis by metis
qed

section \<open>Witnesses\<close>

definition example_token :: string where "example_token = ''AKIA0123456789ABCDEF''"

definition example_rule :: secretRule where "example_rule = secretRules ! 3"

lemma example_rule_matches: "Match (sr_re example_rule) (map byte example_token)" "sr_id example_rule = ''aws_access_key_id''"
  "example_rule \<in> set secretRules"
  by (code_simp, code_simp) (simp add: example_rule_def secretRules_def)

lemma example_scan: "scanText [] (''k='' @ example_token @ []) = [secret_finding [] ''aws_access_key_id'' 0]"
proof -
  let ?s = "''k='' @ example_token"
  have "filter (\<lambda>rule. Match (sr_re rule) (map byte ?s)) secretRules = [example_rule]"
    by (simp add: secretRules_def example_rule_def numeral_3_eq_3) code_simp
  moreover have "runes ?s = map byte ?s" using runes_ascii_append [of ?s "[]"] by (simp add: example_token_def byte_def)
  moreover have "splitLines ?s = [?s]" by (simp add: splitLines_last example_token_def TrimCR_def)
  ultimately show ?thesis by (simp add: scanText_def example_rule_matches(2))
qed


definition example_sum_digest :: string where "example_sum_digest = ContentAddr.prefix @ EncodeToString (replicate 32 171)"

definition example_secret_change :: plannedChange where
  "example_secret_change = (example_added ''a'')\<lparr>pl_digest := example_sum_digest\<rparr>"

definition example_info :: blobInfo where "example_info = \<lparr>bi_size = 22, bi_oid = ''1'', bi_path = ''v''\<rparr>"

definition example_secret_finding :: Finding where
  "example_secret_finding = secret_finding ''a'' ''aws_access_key_id'' 0"

lemma example_secret_scan: "scanSecrets (readScanBlob (\<lambda>_. Inr (''k='' @ example_token @ [])) (\<lambda>_. replicate 32 171))
    [example_sum_digest \<mapsto> example_info] [example_secret_change] 100 = Inr [example_secret_finding]"
proof -
  have "readScanBlob (\<lambda>_. Inr (''k='' @ example_token @ [])) (\<lambda>_. replicate 32 171) example_info example_sum_digest
      = Inr (''k='' @ example_token @ [])"
    by (simp add: readScanBlob_def example_info_def example_token_def Format_def sha256_Size_def example_sum_digest_def
        wrap64_def)
  moreover have "\<not> nothing_to_scan example_secret_change"
    by (simp add: nothing_to_scan_def example_secret_change_def example_added_def)
  ultimately show ?thesis
    using example_scan by (simp add: scanSecrets_def scan_blob_def example_secret_finding_def secret_finding_def
        example_secret_change_def example_added_def)
qed

definition example_secret_input :: CandidateAuthorizationInput where
  "example_secret_input = example_authorization_input\<lparr>cai_findings := map Finding_Candidate [example_secret_finding]\<rparr>"


definition example_message :: string where "example_message = ''Prefix #12''"

lemma screened_message_acts_on_nothing_witness: "\<not> closes_issue example_message"
proof -
  let ?pol = "example_policy\<lparr>plc_message_ruleset := ''github/1'', plc_max_message_bytes := 100\<rparr>"
  have r: "runes example_message = map byte example_message"
    using runes_ascii_append [of example_message "[]"] by (simp add: example_message_def byte_def)
  have "\<not> Match githubCloseDirective (map byte example_message)" "\<not> Match githubSkipDirective (map byte example_message)"
    "\<not> Match githubTrailer (map byte example_message)" by code_simp+
  moreover have "\<not> list_ex (\<lambda>r. r \<noteq> 10 \<and> (IsControl r \<or> is_Cf r)) (map byte example_message)"
    by (simp add: example_message_def IsControl_def is_Cf_def Cf_ranges_def byte_def)
  moreover have "TrimSpace example_message = example_message" by (simp add: TrimSpace_solid example_message_def solid_def byte_def)
  ultimately have "screenCommitMessage example_message ?pol = None"
    unfolding screenCommitMessage_def r by (simp add: validation) (simp add: example_message_def)
  from screened_message_acts_on_nothing [OF this]
  have "\<not> (\<exists>before u after. example_message = before @ u @ after \<and> closes_issue u \<and> stands_apart before after)" by simp
  then have "\<not> (example_message = [] @ example_message @ [] \<and> closes_issue example_message \<and> stands_apart [] [])" by blast
  then show ?thesis by (simp add: stands_apart_def)
qed

end
