(* ===== verification/ImportOptions.thy ===== *)
theory ImportOptions
  imports ImportScan GoTime
begin

text \<open>
  \<open>daemon/internal/importer/options.go\<close>, the admission of a decoded manifest (\<open>handoff.go\<close>) and the
  exclusion of ignored additions (\<open>ignored.go\<close>). The answer of \<open>git check-ignore\<close> and the base objects
  are parameters.

  Shown: every cap of a validated import is positive and every pattern compiles; and only an added
  regular file outside the declared scope, which an exact ignore file of the base at one of its own
  directories excludes, is ever left out of a commit.
\<close>

section \<open>Options\<close>

record Options =
  opt_base_sha :: string
  opt_import_ref :: string
  opt_commit_message :: string
  opt_author_name :: string
  opt_author_email :: string
  opt_commit_date :: gotime
  opt_now :: gotime
  opt_git_path :: string
  opt_expect_no_changes :: bool
  opt_policy :: Policy

abbreviation ErrInvalidOptions :: err where "ErrInvalidOptions \<equiv> Sentinel ''ErrInvalidOptions''"
abbreviation ErrUnsupportedRepo :: err where "ErrUnsupportedRepo \<equiv> Sentinel ''ErrUnsupportedRepo''"
abbreviation ErrGitPlumbing :: err where "ErrGitPlumbing \<equiv> Sentinel ''ErrGitPlumbing''"
abbreviation ErrManifestTooLarge :: err where "ErrManifestTooLarge \<equiv> Sentinel ''ErrManifestTooLarge''"
abbreviation ErrManifestInvalid :: err where "ErrManifestInvalid \<equiv> Sentinel ''ErrManifestInvalid''"

abbreviation SingleCommit :: string where "SingleCommit \<equiv> ''single_commit''"
abbreviation PlanPreferred :: string where "PlanPreferred \<equiv> ''plan_preferred''"
abbreviation MessageRulesetGitHub1 :: string where "MessageRulesetGitHub1 \<equiv> ''github/1''"

definition or_default :: "'a \<Rightarrow> 'a \<Rightarrow> 'a \<Rightarrow> 'a" where
  "or_default zero d x = (if x = zero then d else x)"

definition policy_withDefaults :: "Policy \<Rightarrow> Policy" where
  "policy_withDefaults p = p\<lparr>
     plc_commit_plan := or_default [] SingleCommit (plc_commit_plan p),
     plc_message_ruleset := or_default [] MessageRulesetGitHub1 (plc_message_ruleset p),
     plc_max_manifest_bytes := or_default 0 268435456 (plc_max_manifest_bytes p),
     plc_max_entries := or_default 0 1000000 (plc_max_entries p),
     plc_max_blob_bytes := or_default 0 104857600 (plc_max_blob_bytes p),
     plc_max_total_bytes := or_default 0 1073741824 (plc_max_total_bytes p),
     plc_max_evidence_blob_bytes := or_default 0 104857600 (plc_max_evidence_blob_bytes p),
     plc_max_evidence_total_bytes := or_default 0 1073741824 (plc_max_evidence_total_bytes p),
     plc_secret_max_scan := or_default 0 1048576 (plc_secret_max_scan p),
     plc_max_path_bytes := or_default 0 4096 (plc_max_path_bytes p),
     plc_max_path_depth := or_default 0 256 (plc_max_path_depth p),
     plc_max_plan_bytes := or_default 0 67108864 (plc_max_plan_bytes p),
     plc_max_groups := or_default 0 100 (plc_max_groups p),
     plc_max_message_bytes := or_default 0 8192 (plc_max_message_bytes p),
     plc_dir_batch := or_default 0 4096 (plc_dir_batch p)\<rparr>"

definition withDefaults :: "Options \<Rightarrow> Options" where
  "withDefaults o' = o'\<lparr>
     opt_commit_message := or_default [] ''freeside: gauntlet import'' (opt_commit_message o'),
     opt_author_name := or_default [] ''freeside-daemon'' (opt_author_name o'),
     opt_author_email := or_default [] ''daemon@freeside.invalid'' (opt_author_email o'),
     opt_git_path := or_default [] ''git'' (opt_git_path o'),
     opt_policy := policy_withDefaults (opt_policy o')\<rparr>"

definition evidenceCreatedAt :: "gotime \<Rightarrow> Options \<Rightarrow> gotime" where
  "evidenceCreatedAt now o' =
     (if \<not> IsZero (opt_now o') then UTC (opt_now o')
      else if \<not> IsZero (opt_commit_date o') then UTC (opt_commit_date o')
      else UTC now)"

definition importRefValid :: "string \<Rightarrow> bool" where
  "importRefValid ref \<longleftrightarrow> HasPrefix ref ''refs/'' \<and> \<not> list_ex (\<lambda>c. c \<in> set ('' ~^:?*['' @ [BSLASH, LF])) ref"

definition ValidatePathPatterns :: "string list \<Rightarrow> err option" where
  "ValidatePathPatterns patterns = first_error (map (\<lambda>p. require (ValidGlob p = None) ErrInvalidOptions) patterns)"

definition policy_caps :: "Policy \<Rightarrow> int list" where
  "policy_caps p = [plc_max_manifest_bytes p, plc_max_entries p, plc_max_blob_bytes p, plc_max_total_bytes p,
     plc_max_evidence_blob_bytes p, plc_max_evidence_total_bytes p, plc_secret_max_scan p, plc_max_path_bytes p,
     plc_max_path_depth p, plc_max_plan_bytes p, plc_max_groups p, plc_max_message_bytes p]"

definition pattern_groups :: "Policy \<Rightarrow> string list list" where
  "pattern_groups p = [(case plc_allowlist p of None \<Rightarrow> [] | Some l \<Rightarrow> l), plc_automation p, plc_reviewer p, plc_git_metadata p,
     plc_recipes p, plc_prompts p, plc_egress p, plc_materiality p]"

definition Options_validate :: "Options \<Rightarrow> err option" where
  "Options_validate o' = (let p = opt_policy o' in first_error [
     require (ValidSHA1Hex (opt_base_sha o')) ErrInvalidOptions,
     require (\<not> (opt_import_ref o' \<noteq> [] \<and> \<not> importRefValid (opt_import_ref o'))) ErrInvalidOptions,
     require (\<not> list_ex (\<lambda>n. n < 0) (policy_caps p)) ErrInvalidOptions,
     require (plc_commit_plan p \<in> {[], SingleCommit, PlanPreferred}) ErrInvalidOptions,
     require (plc_message_ruleset p \<in> {[], MessageRulesetGitHub1}) ErrInvalidOptions,
     when_ptr (plc_finding_profile p) (\<lambda>fp. require (FindingProfile_valid fp) ErrInvalidOptions),
     first_error (map ValidatePathPatterns (pattern_groups p))])"

section \<open>The manifest at the boundary\<close>

definition capPaths :: "Manifest \<Rightarrow> Policy \<Rightarrow> err option" where
  "capPaths m pol = first_error (map (\<lambda>e.
     let name = (if en_kind e = EntryInvalidPath then en_path_hex e else en_path e);
         depth = (if en_kind e = EntryInvalidPath then 0 else int (length (filter (\<lambda>c. c = SLASH) (en_path e))) + 1)
     in first_error [
       require (\<not> int (length name) > plc_max_path_bytes pol) ErrManifestTooLarge,
       require (\<not> depth > plc_max_path_depth pol) ErrManifestTooLarge]) (mf_entries m))"

text \<open>What \<open>loadManifest\<close> does with the manifest it has decoded.\<close>

definition admit_manifest :: "Policy \<Rightarrow> Manifest \<Rightarrow> err option" where
  "admit_manifest pol m = first_error [
     require (\<not> int (length (mf_entries m)) > plc_max_entries pol) ErrManifestTooLarge,
     require (Manifest_Validate m = None) ErrManifestInvalid,
     capPaths m pol]"

section \<open>Ignored additions\<close>

text \<open>\<open>path.Base\<close> and \<open>path.Dir\<close> of the names git answers, which are clean.\<close>

definition Base :: "string \<Rightarrow> string" where
  "Base p = (if p = [] then ''.''
     else (let q = TrimRightSet p [SLASH] in if q = [] then [SLASH] else last (Split q SLASH)))"

definition eligible_additions :: "(string \<Rightarrow> string) \<Rightarrow> plannedChange list \<Rightarrow> Policy \<Rightarrow> string list" where
  "eligible_additions foldc changes pol = remdups (map pl_path (filter (\<lambda>c. pl_kind c = ChangeAdded \<and> pl_mode c \<noteq> []
     \<and> (case plc_allowlist pol of None \<Rightarrow> False | Some allowlist \<Rightarrow> \<not> MatchesAllowlist foldc allowlist (pl_path c))) changes))"

definition ignore_files :: "base_tree \<Rightarrow> (string \<times> string) list" where
  "ignore_files base = map (\<lambda>(name, e). (parentDir name, name))
     (filter (\<lambda>(name, e). Base name = ''.gitignore'' \<and> (te_mode e = ''100644'' \<or> te_mode e = ''100755'')) base)"

text \<open>The rules that govern a directory: its own and those above it, the root included.\<close>

function rules_above :: "(string \<times> string) list \<Rightarrow> string \<Rightarrow> string list" where
  "rules_above byDirectory dir =
     (case map_of byDirectory dir of None \<Rightarrow> [] | Some rule \<Rightarrow> [rule])
     @ (if dir = [] then [] else rules_above byDirectory (parentDir dir))"
  by pat_completeness auto
termination by (relation "measure (length \<circ> snd)") (simp_all add: parentDir_shorter)

declare rules_above.simps [simp del]

definition selectIgnoreRules :: "base_tree \<Rightarrow> string list \<Rightarrow> string list" where
  "selectIgnoreRules base eligible = (let byDirectory = ignore_files base in
     if byDirectory = [] then []
     else sort (remdups (concat (map (\<lambda>name. rules_above byDirectory (parentDir name)) eligible))))"

definition slashes_to_nul :: "string \<Rightarrow> string" where
  "slashes_to_nul s = map (\<lambda>c. if c = SLASH then NUL else c) s"

text \<open>Two paths that spell a directory they share on the checkout differently.\<close>

fun spelled_apart :: "(string \<Rightarrow> string) \<Rightarrow> string list \<Rightarrow> string list \<Rightarrow> bool" where
  "spelled_apart foldc (x # xs) (y # ys) =
     (if foldc x \<noteq> foldc y then False else if x \<noteq> y then True else spelled_apart foldc xs ys)"
| "spelled_apart foldc _ _ = False"

fun adjacent_ok :: "(string \<Rightarrow> string) \<Rightarrow> string list \<Rightarrow> bool" where
  "adjacent_ok foldc (a # b # names) =
     (\<not> spelled_apart foldc (Split a SLASH) (Split b SLASH) \<and> adjacent_ok foldc (b # names))"
| "adjacent_ok foldc _ = True"

definition validateIgnoreSpellings :: "(string \<Rightarrow> string) \<Rightarrow> string list \<Rightarrow> string list \<Rightarrow> err option" where
  "validateIgnoreSpellings foldc rules eligible =
     (let names = sort_key (\<lambda>n. slashes_to_nul (FoldPath foldc n)) (rules @ map parentDir eligible)
      in require (adjacent_ok foldc names) ErrUnsupportedRepo)"

fun materialize_loop :: "git_reader \<Rightarrow> base_tree \<Rightarrow> Policy \<Rightarrow> int \<Rightarrow> string list \<Rightarrow> err + (string \<times> string) list" where
  "materialize_loop g base pol used [] = Inr []"
| "materialize_loop g base pol used (name # rules) =
     (let oid = (case map_of base name of None \<Rightarrow> [] | Some e \<Rightarrow> te_oid e) in
      if \<not> ValidCanonicalPath name \<or> int (length name) > plc_max_path_bytes pol then Inl ErrUnsupportedRepo
      else if int (length (Split name SLASH)) > plc_max_path_depth pol then Inl ErrUnsupportedRepo
      else if list_ex GitUnsafeComponent (Split name SLASH) then Inl ErrUnsupportedRepo
      else ebind (gr_size g oid) (\<lambda>n.
        if n < 0 \<or> n > plc_max_blob_bytes pol \<or> n > wrap64 (plc_max_total_bytes pol - used) then Inl ErrUnsupportedRepo
        else ebind (gr_content g oid) (\<lambda>body.
          if int (length body) \<noteq> n then Inl ErrTreeMismatch
          else ebind (materialize_loop g base pol (wrap64 (used + n)) rules) (\<lambda>files. Inr ((name, body) # files)))))"

text \<open>The files the matcher's tree holds; writing them is left out.\<close>

definition materializeIgnoreRules :: "git_reader \<Rightarrow> base_tree \<Rightarrow> string list \<Rightarrow> Policy \<Rightarrow> err + (string \<times> string) list" where
  "materializeIgnoreRules g base rules pol =
     (if int (length rules) > plc_max_entries pol then Inl ErrUnsupportedRepo else materialize_loop g base pol 0 rules)"

text \<open>One record of the answer: source, line, pattern and path.\<close>

definition rule_governs :: "string list \<Rightarrow> string \<Rightarrow> string \<Rightarrow> bool" where
  "rule_governs rules source name \<longleftrightarrow> source \<in> set rules
     \<and> (source = ''.gitignore'' \<or> HasPrefix name (parentDir source @ [SLASH]))"

fun decode_records :: "string list \<Rightarrow> string list \<Rightarrow> string list \<Rightarrow> string list \<Rightarrow> string list \<Rightarrow> err + string list" where
  "decode_records eligible rules seen ignored (source # line # pattern # name # parts) =
     (if name \<notin> set eligible \<or> name \<in> set seen then Inl ErrGitPlumbing
      else decode_records eligible rules (name # seen)
        (if source = [] \<or> pattern = [] \<or> HasPrefix pattern ''!'' then ignored
         else if rule_governs rules source name then name # ignored else ignored) parts)"
| "decode_records eligible rules seen ignored _ = Inr ignored"

definition decodeIgnoredAdditions :: "string \<Rightarrow> string list \<Rightarrow> string list \<Rightarrow> err + string list" where
  "decodeIgnoredAdditions out eligible rules = (let parts = Split out NUL in
     if length parts \<noteq> length eligible * 4 + 1 \<or> last parts \<noteq> [] then Inl ErrGitPlumbing
     else decode_records eligible rules [] [] (butlast parts))"

text \<open>\<open>check\<close> is what \<open>git check-ignore\<close> answers for the paths in a tree of the rule files.\<close>

definition ignoredAdditions ::
  "(string \<Rightarrow> string) \<Rightarrow> git_reader \<Rightarrow> ((string \<times> string) list \<Rightarrow> string list \<Rightarrow> err + string)
    \<Rightarrow> base_tree \<Rightarrow> plannedChange list \<Rightarrow> Options \<Rightarrow> err + string list" where
  "ignoredAdditions foldc g check base changes opts =
     (let pol = opt_policy opts; eligible = eligible_additions foldc changes pol; rules = selectIgnoreRules base eligible in
      if opt_expect_no_changes opts \<or> plc_finding_profile pol = Some FindingProfileSpecification then Inr []
      else if eligible = [] then Inr []
      else if rules = [] then Inr []
      else ebind (of_err (validateIgnoreSpellings foldc rules eligible) ()) (\<lambda>_.
        ebind (materializeIgnoreRules g base rules pol) (\<lambda>files.
        ebind (check files eligible) (\<lambda>out. decodeIgnoredAdditions out eligible rules))))"

section \<open>Validated options\<close>

text \<open>
  C30: a validated import is never uncapped or open by accident: after the defaults every cap is
  positive, the plan mode and the message rules are known ones, and every pattern of every class and
  of the declared scope compiles, so that none silently matches nothing.
\<close>

theorem validated_options_bounded:
  assumes "Options_validate (withDefaults opts) = None"
  shows "let p = opt_policy (withDefaults opts) in
     (\<forall>cap \<in> set (policy_caps p). 0 < cap) \<and> plc_commit_plan p \<in> {SingleCommit, PlanPreferred}
     \<and> plc_message_ruleset p = MessageRulesetGitHub1
     \<and> (\<forall>patterns \<in> set (pattern_groups p). \<forall>pattern \<in> set patterns. ValidGlob pattern = None)"
proof -
  let ?p = "opt_policy (withDefaults opts)"
  note v = assms [unfolded Options_validate_def Let_def]
  have caps: "\<forall>cap \<in> set (policy_caps ?p). 0 \<le> cap" using v by (simp add: validation list_ex_iff not_less)
  have "\<forall>cap \<in> set (policy_caps ?p). cap \<noteq> 0"
    by (simp add: policy_caps_def withDefaults_def policy_withDefaults_def or_default_def)
  with caps have "\<forall>cap \<in> set (policy_caps ?p). 0 < cap" by (simp add: order_less_le)
  moreover have "plc_commit_plan ?p \<in> {[], SingleCommit, PlanPreferred}" "plc_message_ruleset ?p \<in> {[], MessageRulesetGitHub1}"
    using v by (simp_all add: validation)
  moreover have "plc_commit_plan ?p \<noteq> []" "plc_message_ruleset ?p \<noteq> []"
    by (simp_all add: withDefaults_def policy_withDefaults_def or_default_def)
  moreover have "\<forall>patterns \<in> set (pattern_groups ?p). \<forall>pattern \<in> set patterns. ValidGlob pattern = None"
    using v by (simp add: validation first_error_map_None ValidatePathPatterns_def)
  ultimately show ?thesis by (simp add: Let_def)
qed

section \<open>What may be excluded\<close>

lemma decode_records_sound:
  assumes "decode_records eligible rules seen ignored parts = Inr out" "p \<in> set out"
  shows "p \<in> set ignored \<or> p \<in> set eligible \<and> (\<exists>source. rule_governs rules source p)"
  using assms
  by (induction eligible rules seen ignored parts rule: decode_records.induct) (auto split: if_split_asm)

lemma rules_above_files: "rule \<in> set (rules_above byDirectory dir) \<Longrightarrow> rule \<in> snd ` set byDirectory"
proof (induction byDirectory dir rule: rules_above.induct)
  case (1 byDirectory dir)
  from 1(2) consider "map_of byDirectory dir = Some rule" | "dir \<noteq> []" "rule \<in> set (rules_above byDirectory (parentDir dir))"
    by (subst (asm) rules_above.simps) (auto split: option.split_asm if_split_asm)
  then show ?case
  proof cases
    case 1
    then show ?thesis by (force dest: map_of_SomeD)
  qed (use 1(1) in blast)
qed

lemma selected_rules: "rule \<in> set (selectIgnoreRules base eligible) \<Longrightarrow>
    \<exists>e. (rule, e) \<in> set base \<and> Base rule = ''.gitignore'' \<and> (te_mode e = ''100644'' \<or> te_mode e = ''100755'')"
  by (auto simp: selectIgnoreRules_def Let_def ignore_files_def split: if_split_asm dest!: rules_above_files)

lemma ignored_additions_sound:
  assumes "ignoredAdditions foldc g check base changes opts = Inr ignored" "p \<in> set ignored"
  shows "(\<exists>c \<in> set changes. pl_path c = p \<and> pl_kind c = ChangeAdded \<and> pl_mode c \<noteq> []
       \<and> (\<exists>allowlist. plc_allowlist (opt_policy opts) = Some allowlist \<and> \<not> MatchesAllowlist foldc allowlist p))
    \<and> (\<exists>source e. (source, e) \<in> set base \<and> Base source = ''.gitignore'' \<and> (te_mode e = ''100644'' \<or> te_mode e = ''100755'')
       \<and> (source = ''.gitignore'' \<or> HasPrefix p (parentDir source @ [SLASH])))"
proof -
  let ?eligible = "eligible_additions foldc changes (opt_policy opts)"
  let ?rules = "selectIgnoreRules base ?eligible"
  from assms obtain out where "decodeIgnoredAdditions out ?eligible ?rules = Inr ignored"
    by (auto simp: ignoredAdditions_def Let_def sum_results split: if_split_asm)
  with assms(2) have d: "p \<in> set ?eligible" "\<exists>source. rule_governs ?rules source p"
    using decode_records_sound [of ?eligible ?rules "[]" "[]" _ ignored p]
    by (auto simp: decodeIgnoredAdditions_def Let_def split: if_split_asm)
  from d(1) have "\<exists>c \<in> set changes. pl_path c = p \<and> pl_kind c = ChangeAdded \<and> pl_mode c \<noteq> []
       \<and> (\<exists>allowlist. plc_allowlist (opt_policy opts) = Some allowlist \<and> \<not> MatchesAllowlist foldc allowlist p)"
    by (auto simp: eligible_additions_def split: option.split_asm)
  moreover from d(2) have "\<exists>source e. (source, e) \<in> set base \<and> Base source = ''.gitignore''
       \<and> (te_mode e = ''100644'' \<or> te_mode e = ''100755'') \<and> (source = ''.gitignore'' \<or> HasPrefix p (parentDir source @ [SLASH]))"
    unfolding rule_governs_def using selected_rules [of _ base ?eligible] by blast
  ultimately show ?thesis by blast
qed

text \<open>
  C15: nothing else is left out of a commit: whatever git answers about ignore rules, an excluded path
  is an added regular file outside the declared scope, and the rule that excludes it comes from a
  regular ignore file of the trusted base, at the root or at a directory above the path as it is spelled.
\<close>

theorem ignored_only_out_of_scope:
  assumes "ignoredAdditions foldc g check base changes opts = Inr ignored" "p \<in> set ignored"
  shows "(\<exists>c \<in> set changes. pl_path c = p \<and> pl_kind c = ChangeAdded \<and> pl_mode c \<noteq> []
       \<and> (\<exists>allowlist. plc_allowlist (opt_policy opts) = Some allowlist \<and> \<not> MatchesAllowlist foldc allowlist p))
    \<and> (\<exists>source e. (source, e) \<in> set base \<and> Base source = ''.gitignore'' \<and> (te_mode e = ''100644'' \<or> te_mode e = ''100755'')
       \<and> (source = ''.gitignore'' \<or> HasPrefix p (parentDir source @ [SLASH])))"
  using assms by (rule ignored_additions_sound)

section \<open>Witnesses\<close>

definition example_options :: Options where
  "example_options = \<lparr>opt_base_sha = nullOID, opt_import_ref = ''refs/freeside/import'', opt_commit_message = [],
     opt_author_name = [], opt_author_email = [], opt_commit_date = UnixZero 0, opt_now = UnixZero 0, opt_git_path = [],
     opt_expect_no_changes = False, opt_policy = example_policy\<rparr>"

lemma example_options_valid: "Options_validate (withDefaults example_options) = None"
  by code_simp

lemma validated_options_bounded_witness: "0 < plc_max_entries (opt_policy (withDefaults example_options))"
  using validated_options_bounded [OF example_options_valid] by (simp add: Let_def policy_caps_def)

definition example_ignore_base :: base_tree where
  "example_ignore_base = [(''.gitignore'', \<lparr>te_mode = ''100644'', te_oid = ''1''\<rparr>)]"

definition example_ignore_reader :: git_reader where
  "example_ignore_reader = \<lparr>gr_size = \<lambda>_. Inr 2, gr_digest = \<lambda>_. Inr ([], 2), gr_content = \<lambda>_. Inr ''*o''\<rparr>"

definition example_check :: "(string \<times> string) list \<Rightarrow> string list \<Rightarrow> err + string" where
  "example_check files names = Inr (''.gitignore'' @ [NUL] @ ''1'' @ [NUL] @ ''*o'' @ [NUL] @ ''a.o'' @ [NUL])"

lemma example_ignored: "ignoredAdditions id_fold example_ignore_reader example_check example_ignore_base
    [example_added ''a.o''] (withDefaults example_options) = Inr [''a.o'']"
proof -
  have "\<not> GitUnsafeComponent ''.gitignore''"
    by (simp add: GitUnsafeComponent_def NormalizeAliases_def normalizeComponentAliases_def strip_ignorable_ascii
        isDotGitVariant_def TrimRightSet_def EqualFold_def byte_def)
  moreover have "Split ''.gitignore'' SLASH = [''.gitignore'']" by code_simp
  moreover have "ValidString ''.gitignore''" by (simp add: ValidString_ascii byte_def)
  ultimately have m: "materializeIgnoreRules example_ignore_reader example_ignore_base [''.gitignore'']
      (opt_policy (withDefaults example_options)) = Inr [(''.gitignore'', ''*o'')]"
    by (simp add: materializeIgnoreRules_def ValidCanonicalPath_def ValidPath_def withDefaults_def policy_withDefaults_def
        or_default_def example_options_def example_policy_def example_ignore_base_def example_ignore_reader_def wrap64_def)
  have "eligible_additions id_fold [example_added ''a.o''] (opt_policy (withDefaults example_options)) = [''a.o'']"
    "selectIgnoreRules example_ignore_base [''a.o''] = [''.gitignore'']"
    "validateIgnoreSpellings id_fold [''.gitignore''] [''a.o''] = None"
    "decodeIgnoredAdditions (''.gitignore'' @ [NUL] @ ''1'' @ [NUL] @ ''*o'' @ [NUL] @ ''a.o'' @ [NUL]) [''a.o''] [''.gitignore'']
      = Inr [''a.o'']"
    "opt_expect_no_changes (withDefaults example_options) = False"
    "plc_finding_profile (opt_policy (withDefaults example_options)) = None"
    by code_simp+
  with m show ?thesis by (simp add: ignoredAdditions_def Let_def example_check_def)
qed

lemma ignored_only_out_of_scope_witness: "example_added ''a.o'' \<in> {c. pl_kind c = ChangeAdded} \<and>
    (\<exists>source e. (source, e) \<in> set example_ignore_base \<and> Base source = ''.gitignore'')"
proof -
  note i = ignored_only_out_of_scope [OF example_ignored, of "''a.o''"]
  have "pl_kind (example_added ''a.o'') = ChangeAdded" by (simp add: example_added_def)
  moreover from i have "\<exists>source e. (source, e) \<in> set example_ignore_base \<and> Base source = ''.gitignore''"
    by (simp only: list.set insert_iff) blast
  ultimately show ?thesis by simp
qed

end
