(* ===== verification/Evidence.thy ===== *)
theory Evidence
  imports ImportOptions
begin

text \<open>
  The evidence channel: the manifest of \<open>daemon/internal/export/evidence.go\<close>, the provenance, metadata
  and claim of \<open>domain/artifact.go\<close>, \<open>evidence_metadata.go\<close> and \<open>attention_item.go\<close>, and
  \<open>importer/evidence.go\<close>, which turns entries whose blobs are verified into labelled claims. The
  scanner behind \<open>json.Valid\<close> is the one of the Go library. SHA-256 and the content of a path are
  parameters.

  Shown: a claim names the agent, has the declared type by its bytes, shows text only when the text is
  what its digest names, and never text that holds a credential; and the identity of an artifact
  determines its digest and its whole provenance.
\<close>

section \<open>The manifest of the channel\<close>

datatype EvidenceProducerClass = EvidenceProducerAgent | EvidenceProducerOther string
datatype EvidenceHeadBinding = EvidenceHeadBound | EvidenceHeadIndependent | EvidenceHeadOther string
datatype EvidenceSensitivityClass = EvidenceSensitivityNormal | EvidenceSensitivitySensitive | EvidenceSensitivityHigh
  | EvidenceSensitivityOther string

fun EvidenceProducerClass_valid :: "EvidenceProducerClass \<Rightarrow> bool" where
  "EvidenceProducerClass_valid EvidenceProducerAgent = True"
| "EvidenceProducerClass_valid _ = False"

fun EvidenceHeadBinding_valid :: "EvidenceHeadBinding \<Rightarrow> bool" where
  "EvidenceHeadBinding_valid (EvidenceHeadOther _) = False"
| "EvidenceHeadBinding_valid _ = True"

fun EvidenceSensitivityClass_valid :: "EvidenceSensitivityClass \<Rightarrow> bool" where
  "EvidenceSensitivityClass_valid (EvidenceSensitivityOther _) = False"
| "EvidenceSensitivityClass_valid _ = True"

record EvidenceProvenance =
  ep_producer :: EvidenceProducerClass
  ep_invocation :: string
  ep_binding :: EvidenceHeadBinding
  ep_head :: string
  ep_sensitivity :: EvidenceSensitivityClass

record EvidenceEntry =
  ev_label :: string
  ev_media_type :: string
  ev_size :: int
  ev_digest :: string
  ev_provenance :: EvidenceProvenance

text \<open>A nil slice of entries is \<open>None\<close>.\<close>

record EvidenceManifest =
  em_version :: string
  em_entries :: "EvidenceEntry list option"

definition EvidenceManifestVersion :: string where "EvidenceManifestVersion = ''freeside.export.evidence/v1''"

abbreviation ErrProvenanceInconsistent :: err where "ErrProvenanceInconsistent \<equiv> Sentinel ''ErrProvenanceInconsistent''"
abbreviation ErrInvalidHeadBinding :: err where "ErrInvalidHeadBinding \<equiv> Sentinel ''ErrInvalidHeadBinding''"
abbreviation ErrInvalidSensitivityClass :: err where "ErrInvalidSensitivityClass \<equiv> Sentinel ''ErrInvalidSensitivityClass''"
abbreviation ErrEvidenceInvalid :: err where "ErrEvidenceInvalid \<equiv> Sentinel ''ErrEvidenceInvalid''"
abbreviation ErrEvidenceMediaMismatch :: err where "ErrEvidenceMediaMismatch \<equiv> Sentinel ''ErrEvidenceMediaMismatch''"
abbreviation ErrMissingBlob :: err where "ErrMissingBlob \<equiv> Sentinel ''ErrMissingBlob''"

definition EvidenceProvenance_Validate :: "EvidenceProvenance \<Rightarrow> err option" where
  "EvidenceProvenance_Validate p = first_error [
     require (EvidenceProducerClass_valid (ep_producer p)) (Sentinel ''ErrInvalidEvidenceProducer''),
     require (ep_invocation p \<noteq> []) (Sentinel ''ErrEmptyInvocationID''),
     require (EvidenceHeadBinding_valid (ep_binding p)) ErrInvalidHeadBinding,
     require (\<not> (ep_binding p = EvidenceHeadBound \<and> ep_head p = [])) ErrProvenanceInconsistent,
     require (\<not> (ep_binding p = EvidenceHeadIndependent \<and> ep_head p \<noteq> [])) ErrProvenanceInconsistent,
     require (EvidenceSensitivityClass_valid (ep_sensitivity p)) ErrInvalidSensitivityClass]"

definition validLabel :: "string \<Rightarrow> bool" where
  "validLabel s \<longleftrightarrow> s \<noteq> [] \<and> ValidString s \<and> NUL \<notin> set s"

definition EvidenceEntry_Validate :: "EvidenceEntry \<Rightarrow> err option" where
  "EvidenceEntry_Validate e = first_error [
     require (validLabel (ev_label e)) (Sentinel ''ErrInvalidLabel''),
     require (ev_media_type e \<noteq> []) (Sentinel ''ErrInvalidMediaType''),
     require (\<not> ev_size e < 0) (Sentinel ''ErrNegativeSize''),
     require (ContentAddr.Valid (ev_digest e)) (Sentinel ''ErrInvalidDigest''),
     EvidenceProvenance_Validate (ev_provenance e)]"

fun check_evidence :: "string option \<Rightarrow> EvidenceEntry list \<Rightarrow> err option" where
  "check_evidence prev [] = None"
| "check_evidence prev (e # es) = first_error [
     EvidenceEntry_Validate e,
     require (\<not> (case prev of None \<Rightarrow> False | Some p \<Rightarrow> p \<ge> ev_label e)) (Sentinel ''ErrEvidenceNotCanonical''),
     check_evidence (Some (ev_label e)) es]"

definition EvidenceManifest_Validate :: "EvidenceManifest \<Rightarrow> err option" where
  "EvidenceManifest_Validate m = first_error [
     require (em_version m = EvidenceManifestVersion) (Sentinel ''ErrUnknownEvidenceVersion''),
     (case em_entries m of None \<Rightarrow> Some (Sentinel ''ErrNullEntries'') | Some es \<Rightarrow> check_evidence None es)]"

definition evidence_entries :: "EvidenceManifest \<Rightarrow> EvidenceEntry list" where
  "evidence_entries m = (case em_entries m of None \<Rightarrow> [] | Some es \<Rightarrow> es)"

section \<open>Claims\<close>

datatype ProducerClass = ProducerVerifier | ProducerAgent | ProducerDaemon | ProducerOther string
datatype HeadBinding = HeadBound | HeadIndependent | HeadOther string
datatype SensitivityClass = SensitivityNormal | SensitivitySensitive | SensitivityHigh | SensitivityOther string
datatype EvidenceMediaType = EvidenceMediaImagePNG | EvidenceMediaImageJPEG | EvidenceMediaImageGIF
  | EvidenceMediaImageWEBP | EvidenceMediaTextPlain | EvidenceMediaTextMarkdown | EvidenceMediaApplicationJSON
  | EvidenceMediaApplicationJSONL | EvidenceMediaOther string
datatype ClaimMediaType = MediaTypeTextPlain | MediaTypeTextMarkdown | ClaimMediaOther string
datatype EvidenceSource = EvidenceSourceRun | EvidenceSourceClaim | EvidenceSourceOther string
datatype EvidenceAvailability = EvidenceAvailable | EvidenceBytesAbsent | EvidenceAvailabilityOther string

fun ProducerClass_text :: "ProducerClass \<Rightarrow> string" where
  "ProducerClass_text ProducerVerifier = ''verifier''"
| "ProducerClass_text ProducerAgent = ''agent''"
| "ProducerClass_text ProducerDaemon = ''daemon''"
| "ProducerClass_text (ProducerOther s) = s"

fun ProducerClass_valid :: "ProducerClass \<Rightarrow> bool" where
  "ProducerClass_valid (ProducerOther _) = False"
| "ProducerClass_valid _ = True"

fun HeadBinding_text :: "HeadBinding \<Rightarrow> string" where
  "HeadBinding_text HeadBound = ''head_bound''"
| "HeadBinding_text HeadIndependent = ''head_independent''"
| "HeadBinding_text (HeadOther s) = s"

fun HeadBinding_valid :: "HeadBinding \<Rightarrow> bool" where
  "HeadBinding_valid (HeadOther _) = False"
| "HeadBinding_valid _ = True"

fun SensitivityClass_text :: "SensitivityClass \<Rightarrow> string" where
  "SensitivityClass_text SensitivityNormal = ''normal''"
| "SensitivityClass_text SensitivitySensitive = ''sensitive''"
| "SensitivityClass_text SensitivityHigh = ''high_sensitivity''"
| "SensitivityClass_text (SensitivityOther s) = s"

fun SensitivityClass_valid :: "SensitivityClass \<Rightarrow> bool" where
  "SensitivityClass_valid (SensitivityOther _) = False"
| "SensitivityClass_valid _ = True"

fun EvidenceMediaType_text :: "EvidenceMediaType \<Rightarrow> string" where
  "EvidenceMediaType_text EvidenceMediaImagePNG = ''image/png''"
| "EvidenceMediaType_text EvidenceMediaImageJPEG = ''image/jpeg''"
| "EvidenceMediaType_text EvidenceMediaImageGIF = ''image/gif''"
| "EvidenceMediaType_text EvidenceMediaImageWEBP = ''image/webp''"
| "EvidenceMediaType_text EvidenceMediaTextPlain = ''text/plain''"
| "EvidenceMediaType_text EvidenceMediaTextMarkdown = ''text/markdown''"
| "EvidenceMediaType_text EvidenceMediaApplicationJSON = ''application/json''"
| "EvidenceMediaType_text EvidenceMediaApplicationJSONL = ''application/jsonl''"
| "EvidenceMediaType_text (EvidenceMediaOther s) = s"

fun EvidenceMediaType_valid :: "EvidenceMediaType \<Rightarrow> bool" where
  "EvidenceMediaType_valid (EvidenceMediaOther _) = False"
| "EvidenceMediaType_valid _ = True"

fun ClaimMediaType_text :: "ClaimMediaType \<Rightarrow> string" where
  "ClaimMediaType_text MediaTypeTextPlain = ''text/plain''"
| "ClaimMediaType_text MediaTypeTextMarkdown = ''text/markdown''"
| "ClaimMediaType_text (ClaimMediaOther s) = s"

fun ClaimMediaType_valid :: "ClaimMediaType \<Rightarrow> bool" where
  "ClaimMediaType_valid (ClaimMediaOther _) = False"
| "ClaimMediaType_valid _ = True"

fun EvidenceSource_valid :: "EvidenceSource \<Rightarrow> bool" where
  "EvidenceSource_valid (EvidenceSourceOther _) = False"
| "EvidenceSource_valid _ = True"

fun EvidenceAvailability_valid :: "EvidenceAvailability \<Rightarrow> bool" where
  "EvidenceAvailability_valid (EvidenceAvailabilityOther _) = False"
| "EvidenceAvailability_valid _ = True"

record Provenance =
  prov_producer :: ProducerClass
  prov_invocation :: string
  prov_binding :: HeadBinding
  prov_head :: string
  prov_recipe :: "string option"
  prov_sensitivity :: SensitivityClass

definition Provenance_Validate :: "Provenance \<Rightarrow> err option" where
  "Provenance_Validate p = first_error [
     require (ProducerClass_valid (prov_producer p)) (Sentinel ''ErrInvalidProducerClass''),
     require (prov_invocation p \<noteq> []) ErrEmptyID,
     require (HeadBinding_valid (prov_binding p)) ErrInvalidHeadBinding,
     require (\<not> (prov_binding p = HeadBound \<and> prov_head p = [])) ErrEmptyField,
     require (\<not> (prov_binding p = HeadIndependent \<and> prov_head p \<noteq> [])) ErrProvenanceInconsistent,
     require (SensitivityClass_valid (prov_sensitivity p)) ErrInvalidSensitivityClass,
     require (prov_recipe p \<noteq> Some []) ErrEmptyField,
     require (\<not> (prov_producer p = ProducerAgent \<and> prov_recipe p \<noteq> None)) ErrProvenanceInconsistent]"

record EvidenceMetadata =
  emd_media_type :: EvidenceMediaType
  emd_size_bytes :: int
  emd_created_at :: gotime
  emd_source :: EvidenceSource
  emd_availability :: EvidenceAvailability

definition EvidenceMetadata_Validate :: "EvidenceMetadata \<Rightarrow> err option" where
  "EvidenceMetadata_Validate m = first_error [
     require (EvidenceMediaType_valid (emd_media_type m)) (Sentinel ''ErrInvalidEvidenceMediaType''),
     require (\<not> emd_size_bytes m < 0) (Sentinel ''ErrNegativeSize''),
     require (EvidenceSource_valid (emd_source m)) (Sentinel ''ErrInvalidEvidenceSource''),
     require (EvidenceAvailability_valid (emd_availability m)) (Sentinel ''ErrInvalidEvidenceAvailability''),
     require (\<not> IsZero (emd_created_at m)) ErrMissingTimestamp,
     require (is_utc (emd_created_at m)) ErrTimestampNotUTC]"

record ClaimText =
  ct_media_type :: ClaimMediaType
  ct_content :: string

record AgentClaim =
  ac_label :: string
  ac_artifact :: string
  ac_digest :: string
  ac_provenance :: Provenance
  ac_text :: "ClaimText option"
  ac_metadata :: EvidenceMetadata

definition MaxClaimTextBytes :: int where "MaxClaimTextBytes = 65536"

definition ClaimText_ComputeDigest :: "(string \<Rightarrow> nat list) \<Rightarrow> ClaimText \<Rightarrow> err + string" where
  "ClaimText_ComputeDigest sha256 t = Format (sha256 (ct_content t))"

text \<open>The checks of a claim's text.\<close>

definition validate_text :: "(string \<Rightarrow> nat list) \<Rightarrow> AgentClaim \<Rightarrow> ClaimText \<Rightarrow> err option" where
  "validate_text sha256 c t = first_error [
     require (prov_sensitivity (ac_provenance c) \<noteq> SensitivityHigh) (Sentinel ''ErrHighSensitivityClaimText''),
     require (ClaimMediaType_valid (ct_media_type t)) (Sentinel ''ErrInvalidClaimMediaType''),
     require (ct_content t \<noteq> []) ErrEmptyField,
     require (ValidString (ct_content t)) (Sentinel ''ErrClaimTextNotUTF8''),
     require (\<not> int (length (ct_content t)) > MaxClaimTextBytes) (Sentinel ''ErrClaimTextTooLarge''),
     (case ClaimText_ComputeDigest sha256 t of Inl e \<Rightarrow> Some e
      | Inr computed \<Rightarrow> require (ac_digest c = computed) (Sentinel ''ErrClaimTextDigestMismatch''))]"

definition AgentClaim_Validate :: "(string \<Rightarrow> nat list) \<Rightarrow> AgentClaim \<Rightarrow> err option" where
  "AgentClaim_Validate sha256 c = first_error [
     require (ac_label c \<noteq> []) ErrEmptyField,
     require (ac_artifact c \<noteq> []) ErrEmptyID,
     require (ac_digest c \<noteq> []) ErrEmptyField,
     Provenance_Validate (ac_provenance c),
     require (prov_producer (ac_provenance c) = ProducerAgent) (Sentinel ''ErrNonAgentClaim''),
     when_ptr (ac_text c) (validate_text sha256 c),
     EvidenceMetadata_Validate (ac_metadata c),
     require (emd_source (ac_metadata c) = EvidenceSourceClaim) (Sentinel ''ErrEvidenceSourceMismatch''),
     when_ptr (ac_text c) (\<lambda>t. require (ClaimMediaType_text (ct_media_type t) = EvidenceMediaType_text (emd_media_type (ac_metadata c)))
       (Sentinel ''ErrClaimTextMediaTypeMismatch'')),
     when_ptr (ac_text c) (\<lambda>t. require (emd_size_bytes (ac_metadata c) = int (length (ct_content t))) (Sentinel ''ErrClaimTextSizeMismatch''))]"

section \<open>The scanner of JSON\<close>

text \<open>
  The pushdown scanner behind \<open>json.Valid\<close>: the step that takes the next byte and the open containers,
  innermost first. \<open>EndTop\<close> is the step after a complete value.
\<close>

datatype jparse = ObjectKey | ObjectValue | ArrayValue

datatype jstep = BeginValue | BeginValueOrEmpty | BeginString | BeginStringOrEmpty | EndValue | EndTop
  | InString | InStringEsc | InHex nat | Neg | Num0 | Num1 | Dot | Dot0 | Exp | ExpSign | Exp0 | Literal string

definition json_space :: "char \<Rightarrow> bool" where
  "json_space c \<longleftrightarrow> c \<in> {CHR '' '', CHR 0x09, CHR 0x0D, LF}"

definition maxNestingDepth :: nat where "maxNestingDepth = 10000"

definition push_state :: "jstep \<Rightarrow> jparse \<Rightarrow> jparse list \<Rightarrow> (jstep \<times> jparse list) option" where
  "push_state step p st = (if length (p # st) \<le> maxNestingDepth then Some (step, p # st) else None)"

definition pop_state :: "jparse list \<Rightarrow> (jstep \<times> jparse list) option" where
  "pop_state st = Some (if tl st = [] then EndTop else EndValue, tl st)"

definition end_value :: "char \<Rightarrow> jparse list \<Rightarrow> (jstep \<times> jparse list) option" where
  "end_value c st =
     (if st = [] then (if json_space c then Some (EndTop, []) else None)
      else if json_space c then Some (EndValue, st)
      else case hd st of
          ObjectKey \<Rightarrow> if c = CHR '':'' then Some (BeginValue, ObjectValue # tl st) else None
        | ObjectValue \<Rightarrow> if c = CHR '','' then Some (BeginString, ObjectKey # tl st)
            else if c = CHR ''}'' then pop_state st else None
        | ArrayValue \<Rightarrow> if c = CHR '','' then Some (BeginValue, st) else if c = CHR '']'' then pop_state st else None)"

definition begin_value :: "char \<Rightarrow> jparse list \<Rightarrow> (jstep \<times> jparse list) option" where
  "begin_value c st =
     (if json_space c then Some (BeginValue, st)
      else if c = CHR ''{'' then push_state BeginStringOrEmpty ObjectKey st
      else if c = CHR ''['' then push_state BeginValueOrEmpty ArrayValue st
      else if c = CHR 0x22 then Some (InString, st)
      else if c = CHR ''-'' then Some (Neg, st)
      else if c = CHR ''0'' then Some (Num0, st)
      else if c = CHR ''t'' then Some (Literal ''rue'', st)
      else if c = CHR ''f'' then Some (Literal ''alse'', st)
      else if c = CHR ''n'' then Some (Literal ''ull'', st)
      else if is_digit c then Some (Num1, st)
      else None)"

definition begin_string :: "char \<Rightarrow> jparse list \<Rightarrow> (jstep \<times> jparse list) option" where
  "begin_string c st = (if json_space c then Some (BeginString, st) else if c = CHR 0x22 then Some (InString, st) else None)"

definition after_zero :: "char \<Rightarrow> jparse list \<Rightarrow> (jstep \<times> jparse list) option" where
  "after_zero c st = (if c = CHR ''.'' then Some (Dot, st) else if c = CHR ''e'' \<or> c = CHR ''E'' then Some (Exp, st)
     else end_value c st)"

fun json_step :: "jstep \<Rightarrow> char \<Rightarrow> jparse list \<Rightarrow> (jstep \<times> jparse list) option" where
  "json_step BeginValue c st = begin_value c st"
| "json_step BeginValueOrEmpty c st =
     (if json_space c then Some (BeginValueOrEmpty, st) else if c = CHR '']'' then end_value c st else begin_value c st)"
| "json_step BeginStringOrEmpty c st =
     (if json_space c then Some (BeginStringOrEmpty, st)
      else if c = CHR ''}'' then end_value c (ObjectValue # tl st) else begin_string c st)"
| "json_step BeginString c st = begin_string c st"
| "json_step EndValue c st = end_value c st"
| "json_step EndTop c st = (if json_space c then Some (EndTop, st) else None)"
| "json_step InString c st = (if c = CHR 0x22 then Some (EndValue, st) else if c = BSLASH then Some (InStringEsc, st)
     else if byte c < 32 then None else Some (InString, st))"
| "json_step InStringEsc c st = (if c \<in> set (BSLASH # CHR 0x22 # ''bfnrt/'') then Some (InString, st)
     else if c = CHR ''u'' then Some (InHex 3, st) else None)"
| "json_step (InHex n) c st = (if hex_nibble c = None then None else Some (case n of 0 \<Rightarrow> InString | Suc m \<Rightarrow> InHex m, st))"
| "json_step Neg c st = (if c = CHR ''0'' then Some (Num0, st) else if is_digit c then Some (Num1, st) else None)"
| "json_step Num1 c st = (if is_digit c then Some (Num1, st) else after_zero c st)"
| "json_step Num0 c st = after_zero c st"
| "json_step Dot c st = (if is_digit c then Some (Dot0, st) else None)"
| "json_step Dot0 c st = (if is_digit c then Some (Dot0, st) else if c = CHR ''e'' \<or> c = CHR ''E'' then Some (Exp, st)
     else end_value c st)"
| "json_step Exp c st = (if c = CHR ''+'' \<or> c = CHR ''-'' then Some (ExpSign, st) else if is_digit c then Some (Exp0, st) else None)"
| "json_step ExpSign c st = (if is_digit c then Some (Exp0, st) else None)"
| "json_step Exp0 c st = (if is_digit c then Some (Exp0, st) else end_value c st)"
| "json_step (Literal s) c st = (case s of [] \<Rightarrow> None | l # ls \<Rightarrow>
     if c = l then Some (if ls = [] then EndValue else Literal ls, st) else None)"

fun json_scan :: "jstep \<Rightarrow> jparse list \<Rightarrow> string \<Rightarrow> (jstep \<times> jparse list) option" where
  "json_scan step st [] = Some (step, st)"
| "json_scan step st (c # s) = (case json_step step c st of None \<Rightarrow> None | Some (step', st') \<Rightarrow> json_scan step' st' s)"

text \<open>At the end of the input a space closes a number that is still open.\<close>

definition json_Valid :: "string \<Rightarrow> bool" where
  "json_Valid s = (case json_scan BeginValue [] s of None \<Rightarrow> False
     | Some (step, st) \<Rightarrow> step = EndTop \<or> map_option fst (json_step step (CHR '' '') st) = Some EndTop)"

section \<open>Media types\<close>

definition validateJSONDocument :: "(string \<Rightarrow> err + string) \<Rightarrow> string \<Rightarrow> int \<Rightarrow> err option" where
  "validateJSONDocument file verifiedPath n =
     (if n \<le> 0 then Some ErrEvidenceMediaMismatch
      else case file verifiedPath of Inl e \<Rightarrow> Some e
        | Inr body \<Rightarrow> require (int (length body) = n \<and> ValidString body \<and> json_Valid body) ErrEvidenceMediaMismatch)"

text \<open>
  One record per line. The scanner may hold a line of one byte more than the size, which the verified
  blob has, so it never stops at a long line.
\<close>

definition validateJSONLines :: "(string \<Rightarrow> err + string) \<Rightarrow> string \<Rightarrow> int \<Rightarrow> err option" where
  "validateJSONLines file verifiedPath n =
     (case file verifiedPath of Inl e \<Rightarrow> Some e
      | Inr body \<Rightarrow>
        if n \<le> 0 \<or> n > max_int64 - 1 then Some ErrEvidenceMediaMismatch
        else let ls = splitLines body in
          first_error [
            first_error (map (\<lambda>l. require (TrimSpace l \<noteq> [] \<and> ValidString l \<and> json_Valid l) ErrEvidenceMediaMismatch) ls),
            require (ls \<noteq> []) ErrEvidenceMediaMismatch])"

definition validateUTF8Markdown :: "(string \<Rightarrow> err + string) \<Rightarrow> string \<Rightarrow> int \<Rightarrow> err option" where
  "validateUTF8Markdown file verifiedPath n =
     (if n \<le> 0 then Some ErrEvidenceMediaMismatch
      else case file verifiedPath of Inl e \<Rightarrow> Some e
        | Inr body \<Rightarrow> require (ValidString body) ErrEvidenceMediaMismatch)"

definition evidenceMagicPeek :: nat where "evidenceMagicPeek = 12"

definition readEvidenceHeader :: "(string \<Rightarrow> err + string) \<Rightarrow> string \<Rightarrow> err + string" where
  "readEvidenceHeader file verifiedPath = (case file verifiedPath of
     Inl _ \<Rightarrow> Inl (Sentinel ''ErrEvidenceUnreadable'') | Inr body \<Rightarrow> Inr (take evidenceMagicPeek body))"

definition evidenceMediaMagic :: "string \<Rightarrow> (string \<Rightarrow> bool) option" where
  "evidenceMediaMagic t =
     (if t = ''image/png'' then Some (\<lambda>b. HasPrefix b (map char_of [0x89 :: nat, 0x50, 0x4E, 0x47, 0x0D, 0x0A, 0x1A, 0x0A]))
      else if t = ''image/jpeg'' then Some (\<lambda>b. HasPrefix b (map char_of [0xFF :: nat, 0xD8, 0xFF]))
      else if t = ''image/gif'' then Some (\<lambda>b. HasPrefix b ''GIF87a'' \<or> HasPrefix b ''GIF89a'')
      else if t = ''image/webp'' then Some (\<lambda>b. length b \<ge> 12 \<and> take 4 b = ''RIFF'' \<and> take 4 (drop 8 b) = ''WEBP'')
      else None)"

definition validateEvidenceType :: "(string \<Rightarrow> err + string) \<Rightarrow> EvidenceEntry \<Rightarrow> string \<Rightarrow> err option" where
  "validateEvidenceType file e verifiedPath =
     (if ev_media_type e = ''application/jsonl'' then validateJSONLines file verifiedPath (ev_size e)
      else if ev_media_type e = ''application/json'' then validateJSONDocument file verifiedPath (ev_size e)
      else if ev_media_type e = ''text/markdown'' then validateUTF8Markdown file verifiedPath (ev_size e)
      else case evidenceMediaMagic (ev_media_type e) of None \<Rightarrow> Some ErrEvidenceMediaMismatch
        | Some matcher \<Rightarrow> (case readEvidenceHeader file verifiedPath of Inl x \<Rightarrow> Some x
            | Inr header \<Rightarrow> require (matcher header) ErrEvidenceMediaMismatch))"

section \<open>From entries to claims\<close>

fun mapProducerClass :: "EvidenceProducerClass \<Rightarrow> err + ProducerClass" where
  "mapProducerClass EvidenceProducerAgent = Inr ProducerAgent"
| "mapProducerClass _ = Inl ErrEvidenceInvalid"

fun mapHeadBinding :: "EvidenceHeadBinding \<Rightarrow> err + HeadBinding" where
  "mapHeadBinding EvidenceHeadBound = Inr HeadBound"
| "mapHeadBinding EvidenceHeadIndependent = Inr HeadIndependent"
| "mapHeadBinding _ = Inl ErrEvidenceInvalid"

fun mapSensitivityClass :: "EvidenceSensitivityClass \<Rightarrow> err + SensitivityClass" where
  "mapSensitivityClass EvidenceSensitivityNormal = Inr SensitivityNormal"
| "mapSensitivityClass EvidenceSensitivitySensitive = Inr SensitivitySensitive"
| "mapSensitivityClass EvidenceSensitivityHigh = Inr SensitivityHigh"
| "mapSensitivityClass _ = Inl ErrEvidenceInvalid"

definition mapEvidenceMediaType :: "string \<Rightarrow> err + EvidenceMediaType" where
  "mapEvidenceMediaType t =
     (if t = ''image/png'' then Inr EvidenceMediaImagePNG
      else if t = ''image/jpeg'' then Inr EvidenceMediaImageJPEG
      else if t = ''image/gif'' then Inr EvidenceMediaImageGIF
      else if t = ''image/webp'' then Inr EvidenceMediaImageWEBP
      else if t = ''application/jsonl'' then Inr EvidenceMediaApplicationJSONL
      else if t = ''application/json'' then Inr EvidenceMediaApplicationJSON
      else if t = ''text/markdown'' then Inr EvidenceMediaTextMarkdown
      else Inl ErrEvidenceMediaMismatch)"

definition mapEvidenceProvenance :: "EvidenceProvenance \<Rightarrow> err + Provenance" where
  "mapEvidenceProvenance p =
     ebind (mapProducerClass (ep_producer p)) (\<lambda>producer.
     ebind (mapHeadBinding (ep_binding p)) (\<lambda>binding.
     ebind (mapSensitivityClass (ep_sensitivity p)) (\<lambda>sensitivity.
     Inr \<lparr>prov_producer = producer, prov_invocation = ep_invocation p, prov_binding = binding, prov_head = ep_head p,
       prov_recipe = None, prov_sensitivity = sensitivity\<rparr>)))"

definition length_prefixed :: "string \<Rightarrow> string" where
  "length_prefixed s = decimal (length s) @ CHR '':'' # s"

definition agentArtifactID :: "(string \<Rightarrow> nat list) \<Rightarrow> Provenance \<Rightarrow> string \<Rightarrow> string" where
  "agentArtifactID sha256 prov digest = ''agent:'' @ EncodeToString (sha256 (concat (map length_prefixed
     [digest, ProducerClass_text (prov_producer prov), prov_invocation prov, HeadBinding_text (prov_binding prov),
      prov_head prov, (case prov_recipe prov of None \<Rightarrow> [] | Some recipe \<Rightarrow> recipe),
      SensitivityClass_text (prov_sensitivity prov)])))"

definition inline_ok :: "EvidenceEntry \<Rightarrow> Provenance \<Rightarrow> bool" where
  "inline_ok e prov \<longleftrightarrow> ev_size e \<le> MaxClaimTextBytes \<and> prov_sensitivity prov \<noteq> SensitivityHigh"

text \<open>The text and the findings of an entry.\<close>

definition claim_text ::
  "(string \<Rightarrow> err + string) \<Rightarrow> (string \<Rightarrow> nat list) \<Rightarrow> Policy \<Rightarrow> EvidenceEntry \<Rightarrow> blobInfo \<Rightarrow> Provenance
    \<Rightarrow> err + (ClaimText option \<times> Finding list)" where
  "claim_text file sha256 pol e info prov =
     (if ev_media_type e = ''text/markdown'' \<and> ev_size e \<le> plc_secret_max_scan pol
      then ebind (readScanBlob file sha256 info (ev_digest e)) (\<lambda>body.
        let matches = scanText (ev_label e) body in
        Inr (if matches = [] \<and> inline_ok e prov then Some \<lparr>ct_media_type = MediaTypeTextMarkdown, ct_content = body\<rparr> else None,
             matches))
      else Inr (None, []))"

definition build_claim ::
  "(string \<Rightarrow> err + string) \<Rightarrow> (string \<Rightarrow> nat list) \<Rightarrow> (string \<rightharpoonup> blobInfo) \<Rightarrow> Policy \<Rightarrow> gotime \<Rightarrow> EvidenceEntry
    \<Rightarrow> err + (AgentClaim \<times> Finding list)" where
  "build_claim file sha256 blobs pol createdAt e = (case blobs (ev_digest e) of None \<Rightarrow> Inl ErrMissingBlob
     | Some info \<Rightarrow>
        ebind (of_err (validateEvidenceType file e (bi_path info)) ()) (\<lambda>_.
        ebind (mapEvidenceProvenance (ev_provenance e)) (\<lambda>prov.
        ebind (mapEvidenceMediaType (ev_media_type e)) (\<lambda>mediaType.
        ebind (claim_text file sha256 pol e info prov) (\<lambda>(text, matches).
          let claim = \<lparr>ac_label = ev_label e, ac_artifact = agentArtifactID sha256 prov (ev_digest e),
            ac_digest = ev_digest e, ac_provenance = prov, ac_text = text,
            ac_metadata = \<lparr>emd_media_type = mediaType, emd_size_bytes = ev_size e, emd_created_at = createdAt,
              emd_source = EvidenceSourceClaim, emd_availability = EvidenceAvailable\<rparr>\<rparr>
          in ebind (of_err (AgentClaim_Validate sha256 claim) ()) (\<lambda>_. Inr (claim, matches)))))))"

fun build_claims ::
  "(string \<Rightarrow> err + string) \<Rightarrow> (string \<Rightarrow> nat list) \<Rightarrow> (string \<rightharpoonup> blobInfo) \<Rightarrow> Policy \<Rightarrow> gotime \<Rightarrow> EvidenceEntry list
    \<Rightarrow> err + (AgentClaim list \<times> Finding list)" where
  "build_claims file sha256 blobs pol createdAt [] = Inr ([], [])"
| "build_claims file sha256 blobs pol createdAt (e # es) =
     ebind (build_claim file sha256 blobs pol createdAt e) (\<lambda>(c, fs).
     ebind (build_claims file sha256 blobs pol createdAt es) (\<lambda>(cs, fs'). Inr (c # cs, fs @ fs')))"

definition buildClaims ::
  "(string \<Rightarrow> err + string) \<Rightarrow> (string \<Rightarrow> nat list) \<Rightarrow> gotime \<Rightarrow> EvidenceManifest \<Rightarrow> (string \<rightharpoonup> blobInfo) \<Rightarrow> Options
    \<Rightarrow> err + (AgentClaim list \<times> Finding list)" where
  "buildClaims file sha256 now em blobs opts =
     build_claims file sha256 blobs (policy_withDefaults (opt_policy opts)) (evidenceCreatedAt now opts) (evidence_entries em)"

section \<open>Claims\<close>

lemma mapped_provenance: "mapEvidenceProvenance p = Inr q \<Longrightarrow> prov_producer q = ProducerAgent \<and> prov_recipe q = None"
  by (cases "ep_producer p") (auto simp: mapEvidenceProvenance_def sum_results)

lemma mapped_media: "mapEvidenceMediaType t = Inr m \<Longrightarrow> EvidenceMediaType_text m = t"
  by (auto simp: mapEvidenceMediaType_def split: if_split_asm)

text \<open>What a claim says of its entry, given the bytes its digest names.\<close>

definition honest_claim :: "(string \<Rightarrow> nat list) \<Rightarrow> EvidenceEntry \<Rightarrow> AgentClaim \<Rightarrow> bool" where
  "honest_claim sha256 e c \<longleftrightarrow> ac_label c = ev_label e \<and> ac_digest c = ev_digest e
     \<and> prov_producer (ac_provenance c) = ProducerAgent \<and> prov_recipe (ac_provenance c) = None
     \<and> EvidenceMediaType_text (emd_media_type (ac_metadata c)) = ev_media_type e
     \<and> emd_source (ac_metadata c) = EvidenceSourceClaim \<and> emd_size_bytes (ac_metadata c) = ev_size e
     \<and> (\<forall>t. ac_text c = Some t \<longrightarrow> Format (sha256 (ct_content t)) = Inr (ev_digest e) \<and> scanText (ev_label e) (ct_content t) = []
         \<and> prov_sensitivity (ac_provenance c) \<noteq> SensitivityHigh \<and> int (length (ct_content t)) = ev_size e
         \<and> ev_size e \<le> MaxClaimTextBytes \<and> ValidString (ct_content t))"

lemma valid_claim_text: "AgentClaim_Validate sha256 c = None \<Longrightarrow> ac_text c = Some t \<Longrightarrow>
    Format (sha256 (ct_content t)) = Inr (ac_digest c) \<and> prov_sensitivity (ac_provenance c) \<noteq> SensitivityHigh
    \<and> int (length (ct_content t)) = emd_size_bytes (ac_metadata c) \<and> int (length (ct_content t)) \<le> MaxClaimTextBytes
    \<and> ValidString (ct_content t)"
  by (auto simp: AgentClaim_Validate_def validate_text_def ClaimText_ComputeDigest_def validation split: sum.split_asm)

lemma built_claim:
  assumes "build_claim file sha256 blobs pol now e = Inr (c, fs)"
  shows "honest_claim sha256 e c \<and> AgentClaim_Validate sha256 c = None
    \<and> (\<exists>info. blobs (ev_digest e) = Some info \<and> validateEvidenceType file e (bi_path info) = None
       \<and> (ev_media_type e = ''text/markdown'' \<and> ev_size e \<le> plc_secret_max_scan pol \<longrightarrow>
           (\<exists>body. readScanBlob file sha256 info (ev_digest e) = Inr body \<and> fs = scanText (ev_label e) body)))"
proof -
  from assms obtain info prov mediaType inline where b: "blobs (ev_digest e) = Some info" "validateEvidenceType file e (bi_path info) = None"
    "mapEvidenceProvenance (ev_provenance e) = Inr prov" "mapEvidenceMediaType (ev_media_type e) = Inr mediaType"
    "claim_text file sha256 pol e info prov = Inr (inline, fs)" "AgentClaim_Validate sha256 c = None"
    and c: "c = \<lparr>ac_label = ev_label e, ac_artifact = agentArtifactID sha256 prov (ev_digest e),
            ac_digest = ev_digest e, ac_provenance = prov, ac_text = inline,
            ac_metadata = \<lparr>emd_media_type = mediaType, emd_size_bytes = ev_size e, emd_created_at = now,
              emd_source = EvidenceSourceClaim, emd_availability = EvidenceAvailable\<rparr>\<rparr>"
    by (auto simp: build_claim_def Let_def sum_results split: option.split_asm)
  have "scanText (ev_label e) (ct_content t) = []" if "inline = Some t" for t
    using b(5) that by (auto simp: claim_text_def Let_def sum_results split: if_split_asm)
  moreover have "ev_media_type e = ''text/markdown'' \<and> ev_size e \<le> plc_secret_max_scan pol \<longrightarrow>
      (\<exists>body. readScanBlob file sha256 info (ev_digest e) = Inr body \<and> fs = scanText (ev_label e) body)"
    using b(5) by (auto simp: claim_text_def Let_def sum_results split: if_split_asm)
  ultimately show ?thesis using b mapped_provenance [OF b(3)] mapped_media [OF b(4)] valid_claim_text [OF b(6)]
    by (auto simp: honest_claim_def c)
qed

lemma built_claims:
  "build_claims file sha256 blobs pol now es = Inr (cs, fs) \<Longrightarrow>
    list_all2 (honest_claim sha256) es cs \<and> (\<forall>e \<in> set es. \<exists>c fs'. build_claim file sha256 blobs pol now e = Inr (c, fs') \<and> set fs' \<subseteq> set fs)"
proof (induction es arbitrary: cs fs)
  case (Cons e es)
  then obtain c fs1 cs' fs2 where b: "build_claim file sha256 blobs pol now e = Inr (c, fs1)"
    "build_claims file sha256 blobs pol now es = Inr (cs', fs2)" "cs = c # cs'" "fs = fs1 @ fs2"
    by (auto simp: sum_results)
  with Cons.IH [OF b(2)] built_claim [OF b(1)] show ?case by fastforce
qed simp

text \<open>
  C12: an agent's evidence enters only as a claim that is what it says: the claims are one per entry of
  the manifest, each by the agent and under no recipe, with the digest, the size and the media type of
  its entry; a claim shows text only when the bytes the digest names are that text, within the bound, of
  a tier that may be stored and with no credential in it; and what the scan of a text entry finds is
  among the findings of the import.
\<close>

theorem claims_honest:
  assumes "buildClaims file sha256 now em blobs opts = Inr (claims, findings)"
  shows "list_all2 (honest_claim sha256) (evidence_entries em) claims
    \<and> (\<forall>e \<in> set (evidence_entries em). ev_media_type e = ''text/markdown''
         \<and> ev_size e \<le> plc_secret_max_scan (policy_withDefaults (opt_policy opts)) \<longrightarrow>
       (\<exists>info body. blobs (ev_digest e) = Some info \<and> readScanBlob file sha256 info (ev_digest e) = Inr body
          \<and> set (scanText (ev_label e) body) \<subseteq> set findings))"
proof -
  note b = built_claims [OF assms [unfolded buildClaims_def]]
  have "\<exists>info body. blobs (ev_digest e) = Some info \<and> readScanBlob file sha256 info (ev_digest e) = Inr body
          \<and> set (scanText (ev_label e) body) \<subseteq> set findings"
    if "e \<in> set (evidence_entries em)" "ev_media_type e = ''text/markdown''"
      "ev_size e \<le> plc_secret_max_scan (policy_withDefaults (opt_policy opts))" for e
  proof -
    from b that(1) obtain c fs' where "build_claim file sha256 blobs (policy_withDefaults (opt_policy opts)) (evidenceCreatedAt now opts) e
        = Inr (c, fs')" "set fs' \<subseteq> set findings" by blast
    with built_claim [OF this(1)] that(2,3) show ?thesis by blast
  qed
  with b show ?thesis by blast
qed

section \<open>Artifact identities\<close>

lemma length_prefixed_inj: "length_prefixed a @ s = length_prefixed b @ t \<longleftrightarrow> a = b \<and> s = t"
proof
  assume e: "length_prefixed a @ s = length_prefixed b @ t"
  have d: "digits (length_prefixed x @ y) = (decimal (length x), CHR '':'' # x @ y)" for x y
    by (simp add: length_prefixed_def digits_decimal is_digit_def)
  from e d [of a s] d [of b t] have "decimal (length a) = decimal (length b)" "a @ s = b @ t" by simp_all
  then show "a = b \<and> s = t" using numeral_value_decimal by (metis append_eq_append_conv)
qed simp

lemma prefixed_list_inj: "length xs = length ys \<Longrightarrow> concat (map length_prefixed xs) = concat (map length_prefixed ys) \<longleftrightarrow> xs = ys"
  by (induction xs ys rule: list_induct2) (simp_all add: length_prefixed_inj)

lemma texts_inj: "ProducerClass_valid p \<Longrightarrow> ProducerClass_valid p' \<Longrightarrow> ProducerClass_text p = ProducerClass_text p' \<longleftrightarrow> p = p'"
  "HeadBinding_valid b \<Longrightarrow> HeadBinding_valid b' \<Longrightarrow> HeadBinding_text b = HeadBinding_text b' \<longleftrightarrow> b = b'"
  "SensitivityClass_valid c \<Longrightarrow> SensitivityClass_valid c' \<Longrightarrow> SensitivityClass_text c = SensitivityClass_text c' \<longleftrightarrow> c = c'"
    apply (cases p; cases p'; simp)
   apply (cases b; cases b'; simp)
  apply (cases c; cases c'; simp)
  done

text \<open>
  C29: an artifact identity names one artifact row: two identities are equal exactly when the digests and
  every field of the two valid provenances are, whatever bytes the fields hold, as long as SHA-256 does
  not collide.
\<close>

theorem artifact_id_determines:
  assumes "Provenance_Validate p = None" "Provenance_Validate p' = None" "inj sha256" "\<And>s. \<forall>b \<in> set (sha256 s). b < 256"
  shows "agentArtifactID sha256 p digest = agentArtifactID sha256 p' digest' \<longleftrightarrow> p = p' \<and> digest = digest'"
proof -
  let ?fields = "\<lambda>p digest. [digest, ProducerClass_text (prov_producer p), prov_invocation p, HeadBinding_text (prov_binding p),
      prov_head p, (case prov_recipe p of None \<Rightarrow> [] | Some recipe \<Rightarrow> recipe), SensitivityClass_text (prov_sensitivity p)]"
  have e: "EncodeToString (sha256 a) = EncodeToString (sha256 b) \<longleftrightarrow> a = b" for a b
    using assms(3,4) EncodeToString_inj by (metis injD)
  have f: "agentArtifactID sha256 p digest = agentArtifactID sha256 p' digest' \<longleftrightarrow> ?fields p digest = ?fields p' digest'"
    unfolding agentArtifactID_def same_append_eq e by (rule prefixed_list_inj) simp
  note v = assms(1,2) [unfolded Provenance_Validate_def validation, simplified]
  have "(case prov_recipe p of None \<Rightarrow> [] | Some r \<Rightarrow> r) = (case prov_recipe p' of None \<Rightarrow> [] | Some r \<Rightarrow> r)
      \<longleftrightarrow> prov_recipe p = prov_recipe p'"
    using v by (auto split: option.split)
  with v show ?thesis unfolding f by (auto simp: texts_inj intro!: Provenance.equality)
qed

section \<open>Witnesses\<close>

definition example_sha256 :: "string \<Rightarrow> nat list" where "example_sha256 s = replicate 32 (length s)"

definition example_evidence_digest :: string where "example_evidence_digest = ''sha256:'' @ concat (replicate 32 ''02'')"

definition example_evidence_entry :: EvidenceEntry where
  "example_evidence_entry = \<lparr>ev_label = ''s'', ev_media_type = ''text/markdown'', ev_size = 2, ev_digest = example_evidence_digest,
     ev_provenance = \<lparr>ep_producer = EvidenceProducerAgent, ep_invocation = ''i'', ep_binding = EvidenceHeadIndependent,
       ep_head = [], ep_sensitivity = EvidenceSensitivityNormal\<rparr>\<rparr>"

definition example_evidence :: EvidenceManifest where
  "example_evidence = \<lparr>em_version = EvidenceManifestVersion, em_entries = Some [example_evidence_entry]\<rparr>"

definition example_file :: "string \<Rightarrow> err + string" where "example_file p = Inr ''hi''"

definition example_blob :: blobInfo where
  "example_blob = \<lparr>bi_size = 2, bi_oid = [], bi_path = ''/t/verified-blobs/evidence/'' @ concat (replicate 32 ''02'')\<rparr>"

definition example_evidence_blobs :: "string \<Rightarrow> blobInfo option" where
  "example_evidence_blobs = map_of [(example_evidence_digest, example_blob)]"

definition example_provenance :: Provenance where
  "example_provenance = \<lparr>prov_producer = ProducerAgent, prov_invocation = ''i'', prov_binding = HeadIndependent, prov_head = [],
     prov_recipe = None, prov_sensitivity = SensitivityNormal\<rparr>"

definition example_claim :: AgentClaim where
  "example_claim = \<lparr>ac_label = ''s'', ac_artifact = agentArtifactID example_sha256 example_provenance example_evidence_digest,
     ac_digest = example_evidence_digest, ac_provenance = example_provenance,
     ac_text = Some \<lparr>ct_media_type = MediaTypeTextMarkdown, ct_content = ''hi''\<rparr>,
     ac_metadata = \<lparr>emd_media_type = EvidenceMediaTextMarkdown, emd_size_bytes = 2, emd_created_at = UTC (UnixZero 0),
       emd_source = EvidenceSourceClaim, emd_availability = EvidenceAvailable\<rparr>\<rparr>"

lemma example_claim_valid: "AgentClaim_Validate example_sha256 example_claim = None"
proof -
  have "Format (example_sha256 ''hi'') = Inr example_evidence_digest" "example_evidence_digest \<noteq> []"
    "agentArtifactID example_sha256 example_provenance example_evidence_digest \<noteq> []"
    "Provenance_Validate example_provenance = None" "EvidenceMetadata_Validate (ac_metadata example_claim) = None"
    by code_simp+
  moreover have "ValidString ''hi''" by (simp add: ValidString_ascii byte_def)
  ultimately show ?thesis
    by (simp add: AgentClaim_Validate_def validate_text_def ClaimText_ComputeDigest_def validation MaxClaimTextBytes_def
        example_claim_def) (simp add: example_provenance_def)
qed

lemma example_claims: "buildClaims example_file example_sha256 (UnixZero 0) example_evidence example_evidence_blobs
    (withDefaults example_options) = Inr ([example_claim], [])"
proof -
  let ?e = example_evidence_entry and ?pol = "policy_withDefaults (opt_policy (withDefaults example_options))"
    and ?info = example_blob
  have "Format (example_sha256 ''hi'') = Inr example_evidence_digest" by code_simp
  then have r: "readScanBlob example_file example_sha256 ?info example_evidence_digest = Inr ''hi''"
    by (simp add: readScanBlob_def example_file_def example_blob_def wrap64_def)
  have "plc_secret_max_scan ?pol = 1048576" "scanText ''s'' ''hi'' = []" by code_simp+
  with r have t: "claim_text example_file example_sha256 ?pol ?e ?info example_provenance = Inr (ac_text example_claim, [])"
    by (simp add: claim_text_def example_evidence_entry_def inline_ok_def MaxClaimTextBytes_def example_provenance_def example_claim_def)
  have digest: "ev_digest ?e = example_evidence_digest" by (simp add: example_evidence_entry_def)
  have now: "evidenceCreatedAt (UnixZero 0) (withDefaults example_options) = UTC (UnixZero 0)" by code_simp
  have "ValidString ''hi''" by (simp add: ValidString_ascii byte_def)
  then have "validateEvidenceType example_file ?e (bi_path example_blob) = None"
    by (simp add: validateEvidenceType_def example_evidence_entry_def validateUTF8Markdown_def example_file_def validation)
  moreover have "mapEvidenceProvenance (ev_provenance ?e) = Inr example_provenance" by code_simp
  moreover have "mapEvidenceMediaType (ev_media_type ?e) = Inr EvidenceMediaTextMarkdown" by code_simp
  moreover have "\<lparr>ac_label = ev_label ?e, ac_artifact = agentArtifactID example_sha256 example_provenance (ev_digest ?e),
      ac_digest = ev_digest ?e, ac_provenance = example_provenance, ac_text = ac_text example_claim,
      ac_metadata = \<lparr>emd_media_type = EvidenceMediaTextMarkdown, emd_size_bytes = ev_size ?e, emd_created_at = UTC (UnixZero 0),
        emd_source = EvidenceSourceClaim, emd_availability = EvidenceAvailable\<rparr>\<rparr> = example_claim"
    by (simp add: example_claim_def example_evidence_entry_def)
  ultimately have "build_claim example_file example_sha256 example_evidence_blobs ?pol (UTC (UnixZero 0)) ?e = Inr (example_claim, [])"
    using digest by (simp add: build_claim_def example_evidence_blobs_def t example_claim_valid Let_def)
  then show ?thesis by (simp add: buildClaims_def evidence_entries_def example_evidence_def now)
qed

lemma claims_honest_witness: "honest_claim example_sha256 example_evidence_entry example_claim"
  using claims_honest [OF example_claims] by (simp add: evidence_entries_def example_evidence_def)

lemma artifact_id_determines_witness:
  "agentArtifactID (map byte) example_provenance ''a'' \<noteq> agentArtifactID (map byte) example_provenance ''b''"
proof -
  have v: "Provenance_Validate example_provenance = None" by code_simp
  have i: "inj (map byte)" by (simp add: byte_def inj_def inj_map_eq_map)
  have "\<forall>b \<in> set (map byte s). b < 256" for s by (auto simp: byte_def)
  from artifact_id_determines [OF v v i this] show ?thesis by simp
qed

end
