(* ===== verification/Handoff.thy ===== *)
theory Handoff
  imports Evidence
begin

text \<open>
  The audit of the handoff volume of \<open>daemon/internal/importer/blobs.go\<close>: the layout scan, the two blob
  stores and the verification of every blob. The volume is a tree of files and directories that does not
  change while it is read and whose reads succeed; anything else an inode can be (a symbolic link, a
  pipe, a device) is \<open>IOther\<close>. SHA-256 and SHA-1 are parameters.

  A directory is read in batches until it is exhausted, which with a batch of no entries never ends: what
  reads one is a partial function, and that the audit ends is part of what is shown. Shown: the audit
  accepts exactly the volumes that hold the manifests and the blobs they name, each with its size and
  digest, and nothing else.
\<close>

section \<open>The volume\<close>

datatype inode = IFile string | IDir "(string \<times> inode) list" | IOther

type_synonym dir_entry = "string \<times> inode"

fun is_regular :: "inode \<Rightarrow> bool" where
  "is_regular (IFile _) = True"
| "is_regular _ = False"

fun is_dir :: "inode \<Rightarrow> bool" where
  "is_dir (IDir _) = True"
| "is_dir _ = False"

abbreviation ErrHandoffUnreadable :: err where "ErrHandoffUnreadable \<equiv> Sentinel ''ErrHandoffUnreadable''"
abbreviation ErrOrphanBlob :: err where "ErrOrphanBlob \<equiv> Sentinel ''ErrOrphanBlob''"

text \<open>The opens relative to a directory already open: one path component, the kind asked for.\<close>

definition child_name :: "string \<Rightarrow> bool" where
  "child_name name \<longleftrightarrow> \<not> (name = [] \<or> name = ''.'' \<or> name = ''..'' \<or> SLASH \<in> set name)"

definition openDirectoryAt :: "dir_entry list \<Rightarrow> string \<Rightarrow> dir_entry list option" where
  "openDirectoryAt parent name = (if \<not> child_name name then None
     else case map_of parent name of Some (IDir d) \<Rightarrow> Some d | _ \<Rightarrow> None)"

definition openRegularAt :: "dir_entry list \<Rightarrow> string \<Rightarrow> string option" where
  "openRegularAt parent name = (if \<not> child_name name then None
     else case map_of parent name of Some (IFile c) \<Rightarrow> Some c | _ \<Rightarrow> None)"

section \<open>Runs that may not end\<close>

type_synonym 'a run = "(err + 'a) option"

definition rbind :: "'a run \<Rightarrow> ('a \<Rightarrow> 'b run) \<Rightarrow> 'b run" where
  "rbind m f = (case m of None \<Rightarrow> None | Some (Inl e) \<Rightarrow> Some (Inl e) | Some (Inr x) \<Rightarrow> f x)"

definition ret :: "err + 'a \<Rightarrow> 'a run" where "ret r = Some r"

text \<open>One batch.\<close>

fun scan_entries :: "('s \<Rightarrow> dir_entry \<Rightarrow> err + 's) \<Rightarrow> 's \<Rightarrow> dir_entry list \<Rightarrow> err + 's" where
  "scan_entries fn st [] = Inr st"
| "scan_entries fn st (de # des) = ebind (fn st de) (\<lambda>st'. scan_entries fn st' des)"

text \<open>
  \<open>ReadDir\<close> of a positive batch yields the next entries and reports the end on an empty directory; of
  any other batch it yields all that is left, and never reports an end.
\<close>

partial_function (option) scanOpenDirBatched ::
  "int \<Rightarrow> ('s \<Rightarrow> dir_entry \<Rightarrow> err + 's) \<Rightarrow> 's \<Rightarrow> dir_entry list \<Rightarrow> 's run" where
  "scanOpenDirBatched batch fn st entries =
     (if 0 < batch \<and> entries = [] then Some (Inr st)
      else case scan_entries fn st (if 0 < batch then take (nat batch) entries else entries) of
          Inl e \<Rightarrow> Some (Inl e)
        | Inr st' \<Rightarrow> scanOpenDirBatched batch fn st' (if 0 < batch then drop (nat batch) entries else []))"

declare scanOpenDirBatched.simps [code]

section \<open>The stores\<close>

definition store_entry :: "bool \<Rightarrow> dir_entry \<Rightarrow> err + bool" where
  "store_entry seen de = (if fst de \<noteq> ''sha256'' \<or> \<not> is_dir (snd de) then Inl ErrOrphanBlob else Inr True)"

definition blob_entry :: "needed_blobs \<Rightarrow> string list \<Rightarrow> dir_entry \<Rightarrow> err + string list" where
  "blob_entry needed found bf =
     (let (digest, validName) = FromHex (fst bf) in
      if \<not> validName \<or> map_of needed digest = None \<or> \<not> is_regular (snd bf) then Inl ErrOrphanBlob
      else Inr (fst bf # found))"

definition auditBlobStore ::
  "int \<Rightarrow> dir_entry list \<Rightarrow> string \<Rightarrow> bool \<Rightarrow> needed_blobs \<Rightarrow> dir_entry list option run" where
  "auditBlobStore batch root storeName present needed =
     (if \<not> present then ret (if needed \<noteq> [] then Inl ErrMissingBlob else Inr None)
      else case openDirectoryAt root storeName of None \<Rightarrow> ret (Inl ErrHandoffUnreadable)
        | Some store \<Rightarrow>
            rbind (scanOpenDirBatched batch store_entry False store) (\<lambda>sha256Present.
            if \<not> sha256Present then ret (if needed \<noteq> [] then Inl ErrMissingBlob else Inr None)
            else case openDirectoryAt store ''sha256'' of None \<Rightarrow> ret (Inl ErrHandoffUnreadable)
              | Some sha256 \<Rightarrow>
                  rbind (scanOpenDirBatched batch (blob_entry needed) [] sha256) (\<lambda>found.
                  ret (if list_ex (\<lambda>(digest, n). Hex digest \<notin> set found) needed then Inl ErrMissingBlob
                       else Inr (Some sha256)))))"

definition ManifestFilename :: string where "ManifestFilename = ''manifest.json''"
definition EvidenceFilename :: string where "EvidenceFilename = ''evidence.json''"
definition EvidenceBlobsDirname :: string where "EvidenceBlobsDirname = ''evidence''"
definition RepoBlobsDirname :: string where "RepoBlobsDirname = ''blobs''"

definition root_entry :: "bool \<Rightarrow> bool \<Rightarrow> bool \<times> bool \<Rightarrow> dir_entry \<Rightarrow> err + (bool \<times> bool)" where
  "root_entry evidencePresent planPresent st de =
     (let (blobsDir, evidenceDir) = st; (name, node) = de in
      if name = ManifestFilename \<and> is_regular node then Inr st
      else if name = RepoBlobsDirname \<and> is_dir node then Inr (True, evidenceDir)
      else if evidencePresent \<and> name = EvidenceFilename \<and> is_regular node then Inr st
      else if evidencePresent \<and> name = EvidenceBlobsDirname \<and> is_dir node then Inr (blobsDir, True)
      else if planPresent \<and> name = CommitPlanFilename \<and> is_regular node then Inr st
      else Inl ErrOrphanBlob)"

definition auditHandoffLayout ::
  "inode \<Rightarrow> needed_blobs \<Rightarrow> needed_blobs \<Rightarrow> bool \<Rightarrow> bool \<Rightarrow> int \<Rightarrow> (dir_entry list option \<times> dir_entry list option) run" where
  "auditHandoffLayout dir repoNeeded evidenceNeeded evidencePresent planPresent batch = (case dir of
     IDir root \<Rightarrow>
       rbind (scanOpenDirBatched batch (root_entry evidencePresent planPresent) (False, False) root) (\<lambda>(blobsDir, evidenceDir).
       rbind (auditBlobStore batch root RepoBlobsDirname blobsDir repoNeeded) (\<lambda>repoSha256.
       rbind (auditBlobStore batch root EvidenceBlobsDirname evidenceDir evidenceNeeded) (\<lambda>evidenceSha256.
       ret (Inr (repoSha256, evidenceSha256)))))
   | _ \<Rightarrow> ret (Inl ErrHandoffUnreadable))"

section \<open>The blobs\<close>

definition verifyBlobTo ::
  "(string \<Rightarrow> nat list) \<Rightarrow> (string \<Rightarrow> nat list) \<Rightarrow> dir_entry list \<Rightarrow> string \<Rightarrow> int \<Rightarrow> err + blobInfo" where
  "verifyBlobTo sha256 sha1 dir digest n = (case openRegularAt dir (Hex digest) of None \<Rightarrow> Inl ErrMissingBlob
     | Some file \<Rightarrow> (let stream = take (nat (wrap64 (n + 1))) file in
         if int (length stream) \<noteq> n then Inl ErrSizeMismatch
         else ebind (Format (sha256 stream)) (\<lambda>got. if got \<noteq> digest then Inl ErrDigestMismatch
           else Inr \<lparr>bi_size = n, bi_oid = EncodeToString (sha1 (''blob '' @ decimal (nat n) @ NUL # stream)), bi_path = []\<rparr>)))"

definition snapshotVerifiedBlob ::
  "(string \<Rightarrow> nat list) \<Rightarrow> (string \<Rightarrow> nat list) \<Rightarrow> dir_entry list \<Rightarrow> string \<Rightarrow> string \<Rightarrow> int \<Rightarrow> err + blobInfo" where
  "snapshotVerifiedBlob sha256 sha1 dir dst digest n = ebind (verifyBlobTo sha256 sha1 dir digest n) (\<lambda>info. Inr (info\<lparr>bi_path := dst\<rparr>))"

fun snapshot_all ::
  "(string \<Rightarrow> nat list) \<Rightarrow> (string \<Rightarrow> nat list) \<Rightarrow> string \<Rightarrow> dir_entry list \<Rightarrow> needed_blobs \<Rightarrow> err + (string \<times> blobInfo) list" where
  "snapshot_all sha256 sha1 verifiedDir dir [] = Inr []"
| "snapshot_all sha256 sha1 verifiedDir dir ((digest, n) # needed) =
     ebind (snapshotVerifiedBlob sha256 sha1 dir (verifiedDir @ SLASH # Hex digest) digest n) (\<lambda>info.
     ebind (snapshot_all sha256 sha1 verifiedDir dir needed) (\<lambda>blobs. Inr ((digest, info) # blobs)))"

text \<open>The needed digests in the order of the manifest, where the source ranges over a map.\<close>

definition snapshotChannel ::
  "(string \<Rightarrow> nat list) \<Rightarrow> (string \<Rightarrow> nat list) \<Rightarrow> string \<Rightarrow> string \<Rightarrow> dir_entry list option \<Rightarrow> needed_blobs
    \<Rightarrow> err + (string \<times> blobInfo) list" where
  "snapshotChannel sha256 sha1 scratch name sha256Dir needed =
     (if needed = [] then Inr []
      else case sha256Dir of None \<Rightarrow> Inl ErrMissingBlob
        | Some dir \<Rightarrow> snapshot_all sha256 sha1 (scratch @ ''/verified-blobs/'' @ name) dir needed)"

fun accumulate_evidence :: "Policy \<Rightarrow> needed_blobs \<Rightarrow> int \<Rightarrow> EvidenceEntry list \<Rightarrow> err + (needed_blobs \<times> int)" where
  "accumulate_evidence pol needed storedTotal [] = Inr (needed, storedTotal)"
| "accumulate_evidence pol needed storedTotal (e # es) =
     (case accumulateNeeded needed storedTotal (ev_digest e) (ev_size e) (plc_max_evidence_blob_bytes pol)
         (plc_max_evidence_total_bytes pol) of
        Inl x \<Rightarrow> Inl x
      | Inr (needed', total') \<Rightarrow> accumulate_evidence pol needed' total' es)"

definition verifyBlobs ::
  "(string \<Rightarrow> nat list) \<Rightarrow> (string \<Rightarrow> nat list) \<Rightarrow> inode \<Rightarrow> string \<Rightarrow> Manifest \<Rightarrow> EvidenceManifest \<Rightarrow> bool \<Rightarrow> bool \<Rightarrow> Policy
    \<Rightarrow> ((string \<times> blobInfo) list \<times> (string \<times> blobInfo) list) run" where
  "verifyBlobs sha256 sha1 handoff scratch m em emPresent planPresent pol =
     rbind (ret (accumulate_entries pol [] 0 (mf_entries m))) (\<lambda>(repoNeeded, repoTotal).
     rbind (ret (accumulate_evidence pol [] 0 (evidence_entries em))) (\<lambda>(evidenceNeeded, evidenceTotal).
     rbind (auditHandoffLayout handoff repoNeeded evidenceNeeded emPresent planPresent (plc_dir_batch pol)) (\<lambda>(repoSha256, evidenceSha256).
     rbind (ret (snapshotChannel sha256 sha1 scratch ''repo'' repoSha256 repoNeeded)) (\<lambda>repo.
     rbind (ret (snapshotChannel sha256 sha1 scratch ''evidence'' evidenceSha256 evidenceNeeded)) (\<lambda>evidence.
     ret (Inr (repo, evidence)))))))"

section \<open>Scans\<close>

lemma rbind_simps [simp]: "rbind None f = None" "rbind (Some (Inl e)) f = Some (Inl e)" "rbind (Some (Inr x)) f = f x"
  by (simp_all add: rbind_def)

lemma scan_entries_append: "scan_entries fn st (xs @ ys) = ebind (scan_entries fn st xs) (\<lambda>st'. scan_entries fn st' ys)"
proof (induction xs arbitrary: st)
  case (Cons x xs)
  then show ?case by (cases "fn st x") simp_all
qed simp

text \<open>A directory read in positive batches is read whole, in order, and the reading ends.\<close>

lemma scanOpenDirBatched_whole: "0 < batch \<Longrightarrow> scanOpenDirBatched batch fn st entries = Some (scan_entries fn st entries)"
proof (induction entries arbitrary: st rule: length_induct)
  case (1 entries)
  show ?case
  proof (cases "entries = []")
    case True
    with 1(2) show ?thesis by (subst scanOpenDirBatched.simps) simp
  next
    case False
    then have "length (drop (nat batch) entries) < length entries" using 1(2) by simp
    with 1 have rest: "scanOpenDirBatched batch fn st' (drop (nat batch) entries) = Some (scan_entries fn st' (drop (nat batch) entries))" for st'
      by blast
    have whole: "scan_entries fn st entries = ebind (scan_entries fn st (take (nat batch) entries)) (\<lambda>st'. scan_entries fn st' (drop (nat batch) entries))"
      by (simp only: scan_entries_append [symmetric] append_take_drop_id)
    have "scanOpenDirBatched batch fn st entries = (case scan_entries fn st (take (nat batch) entries) of Inl e \<Rightarrow> Some (Inl e)
        | Inr st' \<Rightarrow> scanOpenDirBatched batch fn st' (drop (nat batch) entries))"
      using False 1(2) by (subst scanOpenDirBatched.simps) (simp only: simp_thms if_True if_False)
    then show ?thesis unfolding rest whole by (simp add: ebind_def split: sum.split)
  qed
qed

lemma scan_store: "scan_entries store_entry seen des = (if \<forall>de \<in> set des. fst de = ''sha256'' \<and> is_dir (snd de)
    then Inr (seen \<or> des \<noteq> []) else Inl ErrOrphanBlob)"
  by (induction des arbitrary: seen) (auto simp: store_entry_def)

definition blob_ok :: "needed_blobs \<Rightarrow> dir_entry \<Rightarrow> bool" where
  "blob_ok needed bf \<longleftrightarrow> (\<exists>digest. FromHex (fst bf) = (digest, True) \<and> map_of needed digest \<noteq> None) \<and> is_regular (snd bf)"

lemma scan_blobs: "scan_entries (blob_entry needed) found des = (if \<forall>bf \<in> set des. blob_ok needed bf
    then Inr (rev (map fst des) @ found) else Inl ErrOrphanBlob)"
proof (induction des arbitrary: found)
  case (Cons bf des)
  obtain digest ok where f: "FromHex (fst bf) = (digest, ok)" by fastforce
  have "blob_entry needed found bf = (if blob_ok needed bf then Inr (fst bf # found) else Inl ErrOrphanBlob)"
    using f by (auto simp: blob_entry_def blob_ok_def)
  with Cons show ?case by auto
qed simp

definition root_ok :: "bool \<Rightarrow> bool \<Rightarrow> dir_entry \<Rightarrow> bool" where
  "root_ok ev plan de \<longleftrightarrow> (fst de = ManifestFilename \<or> ev \<and> fst de = EvidenceFilename \<or> plan \<and> fst de = CommitPlanFilename) \<and> is_regular (snd de)
     \<or> (fst de = RepoBlobsDirname \<or> ev \<and> fst de = EvidenceBlobsDirname) \<and> is_dir (snd de)"

lemma handoff_names [simp]: "RepoBlobsDirname \<noteq> ManifestFilename" "EvidenceFilename \<noteq> ManifestFilename"
  "EvidenceBlobsDirname \<noteq> ManifestFilename" "CommitPlanFilename \<noteq> ManifestFilename" "EvidenceFilename \<noteq> RepoBlobsDirname"
  "EvidenceBlobsDirname \<noteq> RepoBlobsDirname" "CommitPlanFilename \<noteq> RepoBlobsDirname" "EvidenceBlobsDirname \<noteq> EvidenceFilename"
  "CommitPlanFilename \<noteq> EvidenceFilename" "CommitPlanFilename \<noteq> EvidenceBlobsDirname"
  by (simp_all add: RepoBlobsDirname_def ManifestFilename_def EvidenceFilename_def EvidenceBlobsDirname_def CommitPlanFilename_def)

lemma node_kind: "is_dir x \<Longrightarrow> \<not> is_regular x"
  by (cases x) simp_all

lemma scan_root: "scan_entries (root_entry ev plan) st des = (if \<forall>de \<in> set des. root_ok ev plan de
    then Inr (fst st \<or> (\<exists>de \<in> set des. fst de = RepoBlobsDirname), snd st \<or> (\<exists>de \<in> set des. fst de = EvidenceBlobsDirname))
    else Inl ErrOrphanBlob)"
proof (induction des arbitrary: st)
  case (Cons de des)
  obtain b e where st: "st = (b, e)" by fastforce
  have "root_entry ev plan st de = (if root_ok ev plan de
      then Inr (b \<or> fst de = RepoBlobsDirname, e \<or> fst de = EvidenceBlobsDirname) else Inl ErrOrphanBlob)"
    by (cases de) (auto simp: root_entry_def root_ok_def st node_kind handoff_names [symmetric] Let_def)
  with Cons st show ?case by auto
qed (simp add: prod_eq_iff)

section \<open>The exact volume\<close>

text \<open>What is at a path, and directories whose names are distinct single components.\<close>

fun at :: "inode \<Rightarrow> string list \<Rightarrow> inode option" where
  "at node [] = Some node"
| "at (IDir des) (n # p) = (case map_of des n of None \<Rightarrow> None | Some x \<Rightarrow> at x p)"
| "at _ (n # p) = None"

fun well_named :: "inode \<Rightarrow> bool" where
  "well_named (IDir des) \<longleftrightarrow> distinct (map fst des) \<and> (\<forall>de \<in> set des. child_name (fst de) \<and> well_named (snd de))"
| "well_named _ \<longleftrightarrow> True"

definition in_store :: "string \<Rightarrow> needed_blobs \<Rightarrow> string list \<Rightarrow> inode \<Rightarrow> bool" where
  "in_store name needed p x \<longleftrightarrow> (p = [name] \<or> p = [name, ''sha256'']) \<and> is_dir x
     \<or> (\<exists>digest \<in> fst ` set needed. p = [name, ''sha256'', Hex digest]) \<and> is_regular x"

text \<open>What may be in a handoff, given the channels that are present and the blobs they need.\<close>

definition allowed_at :: "bool \<Rightarrow> bool \<Rightarrow> needed_blobs \<Rightarrow> needed_blobs \<Rightarrow> string list \<Rightarrow> inode \<Rightarrow> bool" where
  "allowed_at ev plan repo evidence p x \<longleftrightarrow> p = [] \<and> is_dir x
     \<or> (p = [ManifestFilename] \<or> ev \<and> p = [EvidenceFilename] \<or> plan \<and> p = [CommitPlanFilename]) \<and> is_regular x
     \<or> in_store RepoBlobsDirname repo p x \<or> ev \<and> in_store EvidenceBlobsDirname evidence p x"

definition blob_at :: "(string \<Rightarrow> nat list) \<Rightarrow> inode \<Rightarrow> string \<Rightarrow> string \<Rightarrow> int \<Rightarrow> bool" where
  "blob_at sha256 handoff name digest n \<longleftrightarrow>
     (\<exists>c. at handoff [name, ''sha256'', Hex digest] = Some (IFile c) \<and> int (length c) = n \<and> Format (sha256 c) = Inr digest)"

definition verifiable :: "needed_blobs \<Rightarrow> bool" where
  "verifiable needed \<longleftrightarrow> (\<forall>(digest, n) \<in> set needed. Valid digest \<and> 0 \<le> n \<and> n < max_int64)"

lemma all_at: "(\<forall>p y. at (IDir des) p = Some y \<longrightarrow> P p y) \<longleftrightarrow> P [] (IDir des)
    \<and> (\<forall>n x. map_of des n = Some x \<longrightarrow> (\<forall>p y. at x p = Some y \<longrightarrow> P (n # p) y))"
    (is "?L \<longleftrightarrow> ?R")
proof
  assume l: ?L
  have "P (n # p) y" if "map_of des n = Some x" "at x p = Some y" for n x p y
    using l [rule_format, of "n # p" y] that by simp
  with l [rule_format, of "[]"] show ?R by simp
next
  assume r: ?R
  have "P p y" if "at (IDir des) p = Some y" for p y
    using r that by (cases p) (auto split: option.split_asm)
  then show ?L by blast
qed

lemma all_at_leaf: "\<not> is_dir x \<Longrightarrow> (\<forall>p y. at x p = Some y \<longrightarrow> P p y) \<longleftrightarrow> P [] x"
proof -
  assume "\<not> is_dir x"
  then have e: "at x p = Some y \<longleftrightarrow> p = [] \<and> y = x" for p y by (cases x; cases p) auto
  show ?thesis by (simp add: e)
qed

lemma is_dirE: "is_dir x \<Longrightarrow> (\<And>d. x = IDir d \<Longrightarrow> P) \<Longrightarrow> P"
  by (cases x) simp_all

lemma all_entries: "distinct (map fst des) \<Longrightarrow> (\<forall>n x. map_of des n = Some x \<longrightarrow> Q n x) \<longleftrightarrow> (\<forall>de \<in> set des. Q (fst de) (snd de))"
proof -
  assume d: "distinct (map fst des)"
  have e: "map_of des n = Some x \<longleftrightarrow> (n, x) \<in> set des" for n x using d by simp
  show ?thesis unfolding e by fastforce
qed

lemma FromHex_needed: "verifiable needed \<Longrightarrow> (\<exists>digest. FromHex h = (digest, True) \<and> map_of needed digest \<noteq> None)
    \<longleftrightarrow> (\<exists>digest \<in> fst ` set needed. h = Hex digest)"
proof -
  assume v: "verifiable needed"
  have "FromHex h = (digest, True) \<longleftrightarrow> h = Hex digest" if "digest \<in> fst ` set needed" for digest
  proof -
    from v that have "Valid digest" by (auto simp: verifiable_def)
    then obtain k where k: "digest = ContentAddr.prefix @ k" "length k = 64" "\<forall>c \<in> set k. is_lower_hex c" by (auto simp: Valid_iff)
    then have "Hex digest = k" using Parse_iff [of digest k] by (simp add: Hex_def)
    with k show ?thesis by (auto simp: FromHex_def Let_def Valid_iff)
  qed
  then show ?thesis by (metis map_of_eq_None_iff)
qed

lemma blob_dir_fits:
  assumes "verifiable needed" "distinct (map fst d)"
  shows "(\<forall>p y. at (IDir d) p = Some y \<longrightarrow> in_store name needed (name # n # p) y)
    \<longleftrightarrow> n = ''sha256'' \<and> (\<forall>bf \<in> set d. blob_ok needed bf)"
proof -
  have "(\<forall>p y. at x p = Some y \<longrightarrow> in_store name needed (name # n # h # p) y)
      \<longleftrightarrow> n = ''sha256'' \<and> (\<exists>digest \<in> fst ` set needed. h = Hex digest) \<and> is_regular x" (is "?L x h \<longleftrightarrow> ?R x h") for x h
  proof (cases "is_dir x")
    case True
    then have "at x [] = Some x \<and> \<not> in_store name needed [name, n, h] x" by (auto simp: in_store_def node_kind)
    with True node_kind show ?thesis by blast
  next
    case False
    then show ?thesis by (subst all_at_leaf) (auto simp: in_store_def)
  qed
  then have "(\<forall>h x. map_of d h = Some x \<longrightarrow> ?L x h) \<longleftrightarrow> (\<forall>de \<in> set d. ?R (snd de) (fst de))"
    by (simp only: all_entries [OF assms(2)])
  also have "\<dots> \<longleftrightarrow> (\<forall>de \<in> set d. n = ''sha256'' \<and> blob_ok needed de)"
    by (simp only: blob_ok_def FromHex_needed [OF assms(1)])
  finally have rest: "(\<forall>h x. map_of d h = Some x \<longrightarrow> ?L x h) \<longleftrightarrow> (\<forall>de \<in> set d. n = ''sha256'' \<and> blob_ok needed de)" .
  have "in_store name needed [name, n] (IDir d) \<longleftrightarrow> n = ''sha256''" by (simp add: in_store_def)
  with rest show ?thesis by (subst all_at) blast
qed

text \<open>A store that fits, by its shape.\<close>

lemma store_fits:
  assumes "verifiable needed" "well_named (IDir store)"
  shows "(\<forall>p y. at (IDir store) p = Some y \<longrightarrow> in_store name needed (name # p) y)
    \<longleftrightarrow> (\<forall>de \<in> set store. fst de = ''sha256'' \<and> is_dir (snd de))
      \<and> (\<forall>d. map_of store ''sha256'' = Some (IDir d) \<longrightarrow> (\<forall>bf \<in> set d. blob_ok needed bf))"
proof -
  have d: "distinct (map fst store)" using assms(2) by simp
  have fit: "(\<forall>p y. at (snd de) p = Some y \<longrightarrow> in_store name needed (name # fst de # p) y)
      \<longleftrightarrow> fst de = ''sha256'' \<and> (\<exists>d. snd de = IDir d \<and> (\<forall>bf \<in> set d. blob_ok needed bf))" if "de \<in> set store" for de
  proof (cases "snd de")
    case (IDir d)
    with that assms(2) have "distinct (map fst d)" by fastforce
    with IDir blob_dir_fits [OF assms(1) this] show ?thesis by simp
  next
    case (IFile c)
    then show ?thesis by (subst all_at_leaf) (auto simp: in_store_def)
  next
    case IOther
    then show ?thesis by (subst all_at_leaf) (auto simp: in_store_def)
  qed
  have "(\<forall>p y. at (IDir store) p = Some y \<longrightarrow> in_store name needed (name # p) y)
      \<longleftrightarrow> (\<forall>de \<in> set store. fst de = ''sha256'' \<and> (\<exists>d. snd de = IDir d \<and> (\<forall>bf \<in> set d. blob_ok needed bf)))"
    using fit by (subst all_at) (simp add: all_entries [OF d] in_store_def)
  also have "\<dots> \<longleftrightarrow> (\<forall>de \<in> set store. fst de = ''sha256'' \<and> is_dir (snd de))
      \<and> (\<forall>d. map_of store ''sha256'' = Some (IDir d) \<longrightarrow> (\<forall>bf \<in> set d. blob_ok needed bf))"
    using d by (fastforce elim!: is_dirE)
  finally show ?thesis .
qed

lemma hex_child: "Valid digest \<Longrightarrow> child_name (Hex digest)"
proof -
  assume "Valid digest"
  then obtain k where k: "digest = ContentAddr.prefix @ k" "length k = 64" "\<forall>c \<in> set k. is_lower_hex c" by (auto simp: Valid_iff)
  then have "Hex digest = k" using Parse_iff [of digest k] by (simp add: Hex_def)
  with k show ?thesis by (auto simp: child_name_def is_lower_hex_def)
qed

lemma verifyBlobTo_ok:
  assumes "Valid digest" "0 \<le> n" "n < max_int64"
  shows "(\<exists>info. verifyBlobTo sha256 sha1 dir digest n = Inr info)
    \<longleftrightarrow> (\<exists>c. map_of dir (Hex digest) = Some (IFile c) \<and> int (length c) = n \<and> Format (sha256 c) = Inr digest)"
proof -
  have w: "wrap64 (n + 1) = n + 1" using assms(2,3) by (simp add: wrap64_def max_int64_def)
  have "int (length (take (nat (n + 1)) c)) = n \<longleftrightarrow> int (length c) = n" for c :: string using assms(2) by (auto simp: min_def)
  moreover have "int (length c) = n \<Longrightarrow> take (nat (n + 1)) c = c" for c :: string by simp
  ultimately show ?thesis using hex_child [OF assms(1)]
    by (auto simp: verifyBlobTo_def openRegularAt_def Let_def w sum_results split: option.split inode.split)
qed

lemma snapshot_all_ok: "(\<exists>blobs. snapshot_all sha256 sha1 verifiedDir dir needed = Inr blobs)
    \<longleftrightarrow> (\<forall>(digest, n) \<in> set needed. \<exists>info. verifyBlobTo sha256 sha1 dir digest n = Inr info)"
  by (induction needed) (auto simp: snapshotVerifiedBlob_def sum_results)

text \<open>One channel: its audit ends, and with the verification of its blobs it accepts an exact store.\<close>

definition channel_ok :: "(string \<Rightarrow> nat list) \<Rightarrow> dir_entry list \<Rightarrow> string \<Rightarrow> needed_blobs \<Rightarrow> bool" where
  "channel_ok sha256 root name needed \<longleftrightarrow>
     (\<forall>x. map_of root name = Some x \<longrightarrow> (\<forall>p y. at x p = Some y \<longrightarrow> in_store name needed (name # p) y))
     \<and> (\<forall>(digest, n) \<in> set needed. blob_at sha256 (IDir root) name digest n)"

lemma empty_channel: "\<forall>digest. at (IDir root) [name, ''sha256'', Hex digest] = None \<Longrightarrow>
    (\<forall>(digest, n) \<in> set needed. blob_at sha256 (IDir root) name digest n) \<longleftrightarrow> needed = []"
  by (cases needed) (auto simp: blob_at_def)

lemma filled_channel:
  assumes "0 < batch" "verifiable needed" "child_name name" "map_of root name = Some (IDir [(''sha256'', IDir d)])" "well_named (IDir d)"
  shows "\<exists>r. auditBlobStore batch root name True needed = Some r
    \<and> ((\<exists>sha blobs. r = Inr sha \<and> snapshotChannel sha256 sha1 scratch chan sha needed = Inr blobs) \<longleftrightarrow> channel_ok sha256 root name needed)"
proof -
  let ?store = "[(''sha256'', IDir d)]" and ?verified = "\<lambda>digest n. \<exists>info. verifyBlobTo sha256 sha1 d digest n = Inr info"
  let ?r = "if \<forall>bf \<in> set d. blob_ok needed bf
     then if list_ex (\<lambda>(digest, n). Hex digest \<notin> set (rev (map fst d))) needed then Inl ErrMissingBlob else Inr (Some d)
     else Inl ErrOrphanBlob"
  have opened: "openDirectoryAt root name = Some ?store" "openDirectoryAt ?store ''sha256'' = Some d"
    using assms(3,4) by (simp_all add: openDirectoryAt_def child_name_def)
  have audit: "auditBlobStore batch root name True needed = Some ?r"
    using assms(1) by (simp add: auditBlobStore_def opened scanOpenDirBatched_whole store_entry_def scan_blobs ret_def)
  have "well_named (IDir ?store)" using assms(5) by (simp add: child_name_def)
  with store_fits [OF assms(2) this, of name]
  have "(\<forall>x. map_of root name = Some x \<longrightarrow> (\<forall>p y. at x p = Some y \<longrightarrow> in_store name needed (name # p) y))
      \<longleftrightarrow> (\<forall>bf \<in> set d. blob_ok needed bf)" by (simp add: assms(4))
  moreover have "blob_at sha256 (IDir root) name digest n \<longleftrightarrow> ?verified digest n" if "(digest, n) \<in> set needed" for digest n
    using that assms(2) verifyBlobTo_ok [of digest n sha256 sha1 d] unfolding blob_at_def
    by (auto simp: verifiable_def assms(4) split: option.split)
  ultimately have ok: "channel_ok sha256 root name needed \<longleftrightarrow>
      (\<forall>bf \<in> set d. blob_ok needed bf) \<and> (\<forall>(digest, n) \<in> set needed. ?verified digest n)"
    unfolding channel_ok_def by fastforce
  have present: "Hex digest \<in> fst ` set d" if "verifyBlobTo sha256 sha1 d digest n = Inr info" for digest n info
  proof -
    from that have "map_of d (Hex digest) \<noteq> None"
      by (auto simp: verifyBlobTo_def openRegularAt_def split: option.split_asm if_split_asm)
    then show ?thesis by (simp add: map_of_eq_None_iff)
  qed
  have snap: "(\<exists>blobs. snapshotChannel sha256 sha1 scratch chan (Some d) needed = Inr blobs) \<longleftrightarrow> (\<forall>(digest, n) \<in> set needed. ?verified digest n)"
    by (cases "needed = []") (simp_all add: snapshotChannel_def snapshot_all_ok)
  have "(\<exists>sha blobs. ?r = Inr sha \<and> snapshotChannel sha256 sha1 scratch chan sha needed = Inr blobs) \<longleftrightarrow> channel_ok sha256 root name needed"
    using snap present by (auto simp: ok list_ex_iff split: prod.split_asm) blast+
  with audit show ?thesis by blast
qed

lemma channel_exact:
  assumes "0 < batch" "well_named (IDir root)" "verifiable needed" "child_name name"
    and "present \<longleftrightarrow> map_of root name \<noteq> None" "\<forall>x. map_of root name = Some x \<longrightarrow> is_dir x"
  shows "\<exists>r. auditBlobStore batch root name present needed = Some r
    \<and> ((\<exists>sha blobs. r = Inr sha \<and> snapshotChannel sha256 sha1 scratch chan sha needed = Inr blobs) \<longleftrightarrow> channel_ok sha256 root name needed)"
proof (cases "map_of root name")
  case None
  then have "channel_ok sha256 root name needed \<longleftrightarrow> needed = []"
    using empty_channel [of root name needed] by (simp add: channel_ok_def)
  with None assms(5) show ?thesis by (auto simp: auditBlobStore_def ret_def snapshotChannel_def)
next
  case (Some x)
  with assms(6) obtain store where x: "x = IDir store" by (cases x) auto
  from Some x assms(2) have w: "well_named (IDir store)" by (force dest: map_of_SomeD simp del: well_named.simps(1) simp: well_named.simps(1) [of root])
  note fits = store_fits [OF assms(3) w, of name]
  have opened: "openDirectoryAt root name = Some store" using Some x assms(4) by (simp add: openDirectoryAt_def)
  show ?thesis
  proof (cases "\<forall>de \<in> set store. fst de = ''sha256'' \<and> is_dir (snd de)")
    case False
    then have "\<not> channel_ok sha256 root name needed" using fits Some x by (auto simp: channel_ok_def)
    with False Some assms(1,5) show ?thesis
      by (auto simp: auditBlobStore_def opened scanOpenDirBatched_whole scan_store)
  next
    case dirs: True
    show ?thesis
    proof (cases "store = []")
      case True
      then have "channel_ok sha256 root name needed \<longleftrightarrow> needed = []"
        using fits Some x empty_channel [of root name needed] by (simp add: channel_ok_def)
      with True Some assms(1,5) show ?thesis
        by (auto simp: auditBlobStore_def opened scanOpenDirBatched_whole scan_store ret_def snapshotChannel_def)
    next
      case False
      then obtain d rest where s: "store = (''sha256'', IDir d) # rest"
        using dirs by (cases store) (auto elim!: is_dirE)
      with dirs w have "rest = []" by (cases rest) auto
      with s Some x w filled_channel [OF assms(1,3,4), of root d] assms(5) show ?thesis by simp
    qed
  qed
qed

lemma accumulated_verifiable:
  assumes "accumulateNeeded needed t digest n a b = Inr (needed', t')" "verifiable needed" "Valid digest" "0 \<le> n" "n < max_int64"
  shows "verifiable needed'"
proof -
  have "set (AList.update digest n needed) \<subseteq> insert (digest, n) (set needed)" for needed :: needed_blobs
    by (induction needed) auto
  with assms show ?thesis
    by (fastforce simp: accumulateNeeded_def verifiable_def split: option.split_asm if_split_asm)
qed

lemma repo_verifiable:
  "accumulate_entries pol needed t es = Inr (needed', t') \<Longrightarrow> verifiable needed
    \<Longrightarrow> \<forall>d n. stored es d n \<longrightarrow> Valid d \<and> 0 \<le> n \<and> n < max_int64 \<Longrightarrow> verifiable needed'"
proof (induction es arbitrary: needed t)
  case (Cons e es)
  have es: "\<forall>d n. stored es d n \<longrightarrow> Valid d \<and> 0 \<le> n \<and> n < max_int64" using Cons.prems(3) by (simp add: stored_Cons)
  show ?case
  proof (cases "en_kind e \<noteq> EntryRegular \<or> en_blob_omitted e")
    case True
    with Cons.IH [OF _ Cons.prems(2) es] Cons.prems(1) show ?thesis by simp
  next
    case False
    with Cons.prems(1) obtain d n needed1 t1 where s: "en_digest e = Some d" "en_size e = Some n"
      "accumulateNeeded needed t d n (plc_max_blob_bytes pol) (plc_max_total_bytes pol) = Inr (needed1, t1)"
      "accumulate_entries pol needed1 t1 es = Inr (needed', t')"
      by (auto split: option.split_asm sum.split_asm)
    from False s(1,2) Cons.prems(3) have "Valid d \<and> 0 \<le> n \<and> n < max_int64" by (simp add: stored_Cons)
    then have "verifiable needed1" using accumulated_verifiable [OF s(3) Cons.prems(2)] by blast
    from Cons.IH [OF s(4) this es] show ?thesis .
  qed
qed simp

lemma evidence_verifiable:
  "accumulate_evidence pol needed t es = Inr (needed', t') \<Longrightarrow> verifiable needed
    \<Longrightarrow> \<forall>e \<in> set es. Valid (ev_digest e) \<and> 0 \<le> ev_size e \<and> ev_size e < max_int64 \<Longrightarrow> verifiable needed'"
proof (induction es arbitrary: needed t)
  case (Cons e es)
  then obtain needed1 t1 where s: "accumulateNeeded needed t (ev_digest e) (ev_size e) (plc_max_evidence_blob_bytes pol)
      (plc_max_evidence_total_bytes pol) = Inr (needed1, t1)" "accumulate_evidence pol needed1 t1 es = Inr (needed', t')"
    by (auto split: sum.split_asm)
  with Cons.IH [OF s(2) accumulated_verifiable [OF s(1)]] Cons.prems show ?case by simp
qed simp

lemma snapshot_sizes: "snapshotChannel sha256 sha1 scratch chan sha needed = Inr blobs \<Longrightarrow> map (\<lambda>(d, i). (d, bi_size i)) blobs = needed"
proof -
  have "snapshot_all sha256 sha1 v d needed = Inr blobs \<Longrightarrow> map (\<lambda>(d, i). (d, bi_size i)) blobs = needed" for v d
    by (induction needed arbitrary: blobs)
      (auto simp: snapshotVerifiedBlob_def verifyBlobTo_def Let_def sum_results split: option.split_asm if_split_asm)
  then show "snapshotChannel sha256 sha1 scratch chan sha needed = Inr blobs \<Longrightarrow> ?thesis"
    by (auto simp: snapshotChannel_def split: if_split_asm option.split_asm)
qed

text \<open>Everything in the volume is allowed when the root is and the stores fit.\<close>

definition store_fits_in :: "dir_entry list \<Rightarrow> string \<Rightarrow> needed_blobs \<Rightarrow> bool" where
  "store_fits_in root name needed \<longleftrightarrow>
     (\<forall>x. map_of root name = Some x \<longrightarrow> (\<forall>p y. at x p = Some y \<longrightarrow> in_store name needed (name # p) y))"

lemma allowed_entry:
  "(\<forall>p y. at x p = Some y \<longrightarrow> allowed_at ev plan repo evidence (n # p) y)
    \<longleftrightarrow> root_ok ev plan (n, x)
      \<and> (n = RepoBlobsDirname \<longrightarrow> (\<forall>p y. at x p = Some y \<longrightarrow> in_store n repo (n # p) y))
      \<and> (n = EvidenceBlobsDirname \<longrightarrow> (\<forall>p y. at x p = Some y \<longrightarrow> in_store n evidence (n # p) y))"
proof -
  have top: "at x [] = Some x" by simp
  consider "n = RepoBlobsDirname" | "n = EvidenceBlobsDirname" | "n \<noteq> RepoBlobsDirname" "n \<noteq> EvidenceBlobsDirname" by blast
  then show ?thesis
  proof cases
    case 1
    then have "allowed_at ev plan repo evidence (n # p) y \<longleftrightarrow> in_store n repo (n # p) y" for p y
      by (auto simp: allowed_at_def in_store_def handoff_names [symmetric])
    moreover have "in_store n repo [n] x \<Longrightarrow> root_ok ev plan (n, x)" using 1 by (auto simp: in_store_def root_ok_def)
    ultimately show ?thesis using 1 top by (auto simp: handoff_names [symmetric])
  next
    case 2
    then have "allowed_at ev plan repo evidence (n # p) y \<longleftrightarrow> ev \<and> in_store n evidence (n # p) y" for p y
      by (auto simp: allowed_at_def in_store_def handoff_names [symmetric])
    moreover have "root_ok ev plan (n, x) \<longleftrightarrow> ev \<and> is_dir x" using 2 by (auto simp: root_ok_def handoff_names [symmetric])
    moreover have "in_store n evidence [n] x \<Longrightarrow> is_dir x" by (auto simp: in_store_def)
    moreover have "\<exists>p y. at x p = Some y" using top by blast
    ultimately show ?thesis using 2 top by (cases ev) auto
  next
    case 3
    then have a: "allowed_at ev plan repo evidence (n # p) y \<longleftrightarrow> p = [] \<and> root_ok ev plan (n, y)" for p y
      by (auto simp: allowed_at_def in_store_def root_ok_def)
    show ?thesis
    proof (cases "is_dir x")
      case True
      then have "\<not> root_ok ev plan (n, x)" using 3 by (auto simp: root_ok_def node_kind)
      with top 3 show ?thesis unfolding a by blast
    next
      case False
      then show ?thesis using 3 by (subst all_at_leaf) (simp_all add: a)
    qed
  qed
qed

lemma allowed_volume:
  assumes "distinct (map fst root)"
  shows "(\<forall>p x. at (IDir root) p = Some x \<longrightarrow> allowed_at ev plan repo evidence p x)
    \<longleftrightarrow> (\<forall>de \<in> set root. root_ok ev plan de)
      \<and> store_fits_in root RepoBlobsDirname repo \<and> store_fits_in root EvidenceBlobsDirname evidence"
proof -
  have "allowed_at ev plan repo evidence [] (IDir root)" by (simp add: allowed_at_def)
  then have "(\<forall>p x. at (IDir root) p = Some x \<longrightarrow> allowed_at ev plan repo evidence p x)
      \<longleftrightarrow> (\<forall>n x. map_of root n = Some x \<longrightarrow> root_ok ev plan (n, x)
        \<and> (n = RepoBlobsDirname \<longrightarrow> (\<forall>p y. at x p = Some y \<longrightarrow> in_store n repo (n # p) y))
        \<and> (n = EvidenceBlobsDirname \<longrightarrow> (\<forall>p y. at x p = Some y \<longrightarrow> in_store n evidence (n # p) y)))"
    by (subst all_at) (simp only: allowed_entry simp_thms)
  also have "\<dots> \<longleftrightarrow> (\<forall>n x. map_of root n = Some x \<longrightarrow> root_ok ev plan (n, x))
      \<and> store_fits_in root RepoBlobsDirname repo \<and> store_fits_in root EvidenceBlobsDirname evidence"
    unfolding store_fits_in_def by blast
  also have "(\<forall>n x. map_of root n = Some x \<longrightarrow> root_ok ev plan (n, x)) \<longleftrightarrow> (\<forall>de \<in> set root. root_ok ev plan de)"
    by (simp add: all_entries [OF assms])
  finally show ?thesis .
qed

text \<open>
  C9: what a handoff may hold, to the byte: the audit ends on every volume, and it accepts exactly the
  volumes that hold, under the names of the format, every blob the two manifests store with its size and
  the content its digest names, each in the store of its channel, and no other file, directory or link at
  any path.
\<close>

theorem handoff_audit_exact:
  assumes "0 < plc_dir_batch pol" "well_named handoff"
    and "accumulate_entries pol [] 0 (mf_entries m) = Inr (repo, t1)"
    and "accumulate_evidence pol [] 0 (evidence_entries em) = Inr (evidence, t2)"
    and "\<forall>d n. stored (mf_entries m) d n \<longrightarrow> Valid d \<and> 0 \<le> n \<and> n < max_int64"
    and "\<forall>e \<in> set (evidence_entries em). Valid (ev_digest e) \<and> 0 \<le> ev_size e \<and> ev_size e < max_int64"
  shows "\<exists>r. verifyBlobs sha256 sha1 handoff scratch m em emPresent planPresent pol = Some r
    \<and> ((\<exists>blobs. r = Inr blobs) \<longleftrightarrow>
        (\<forall>p x. at handoff p = Some x \<longrightarrow> allowed_at emPresent planPresent repo evidence p x)
        \<and> (\<forall>(digest, n) \<in> set repo. blob_at sha256 handoff RepoBlobsDirname digest n)
        \<and> (\<forall>(digest, n) \<in> set evidence. blob_at sha256 handoff EvidenceBlobsDirname digest n))
    \<and> (\<forall>repoBlobs evidenceBlobs. r = Inr (repoBlobs, evidenceBlobs) \<longrightarrow>
        map (\<lambda>(d, i). (d, bi_size i)) repoBlobs = repo \<and> map (\<lambda>(d, i). (d, bi_size i)) evidenceBlobs = evidence)"
proof (cases handoff)
  case (IDir root)
  have v: "verifiable repo" "verifiable evidence"
    using repo_verifiable [OF assms(3)] evidence_verifiable [OF assms(4)] assms(5,6) by (simp_all add: verifiable_def)
  have w: "well_named (IDir root)" "distinct (map fst root)" using assms(2) IDir by simp_all
  have names: "child_name RepoBlobsDirname" "child_name EvidenceBlobsDirname"
    by (simp_all add: child_name_def RepoBlobsDirname_def EvidenceBlobsDirname_def)
  note start = verifyBlobs_def assms(3,4) IDir auditHandoffLayout_def ret_def scanOpenDirBatched_whole [OF assms(1)] scan_root
  show ?thesis
  proof (cases "\<forall>de \<in> set root. root_ok emPresent planPresent de")
    case False
    then have "\<not> (\<forall>p x. at handoff p = Some x \<longrightarrow> allowed_at emPresent planPresent repo evidence p x)"
      unfolding IDir allowed_volume [OF w(2)] by blast
    moreover have "verifyBlobs sha256 sha1 handoff scratch m em emPresent planPresent pol = Some (Inl ErrOrphanBlob)"
      by (simp only: start if_not_P [OF False] rbind_simps prod.case sum.case inode.case)
    ultimately show ?thesis by auto
  next
    case True
    let ?present = "\<lambda>name. \<exists>de \<in> set root. fst de = name"
    have p: "?present name \<longleftrightarrow> map_of root name \<noteq> None" for name by (auto simp: map_of_eq_None_iff)
    have kinds: "\<forall>x. map_of root name = Some x \<longrightarrow> is_dir x" if "name \<in> {RepoBlobsDirname, EvidenceBlobsDirname}" for name
      using True that by (auto simp: root_ok_def handoff_names [symmetric] dest!: map_of_SomeD)
    obtain r1 where r1: "auditBlobStore (plc_dir_batch pol) root RepoBlobsDirname (?present RepoBlobsDirname) repo = Some r1"
      "(\<exists>sha blobs. r1 = Inr sha \<and> snapshotChannel sha256 sha1 scratch ''repo'' sha repo = Inr blobs) \<longleftrightarrow> channel_ok sha256 root RepoBlobsDirname repo"
      using channel_exact [OF assms(1) w(1) v(1) names(1) p kinds, of sha256 sha1 scratch "''repo''"] by auto
    obtain r2 where r2: "auditBlobStore (plc_dir_batch pol) root EvidenceBlobsDirname (?present EvidenceBlobsDirname) evidence = Some r2"
      "(\<exists>sha blobs. r2 = Inr sha \<and> snapshotChannel sha256 sha1 scratch ''evidence'' sha evidence = Inr blobs)
        \<longleftrightarrow> channel_ok sha256 root EvidenceBlobsDirname evidence"
      using channel_exact [OF assms(1) w(1) v(2) names(2) p kinds, of sha256 sha1 scratch "''evidence''"] by auto
    let ?run = "case r1 of Inl e \<Rightarrow> Inl e | Inr sha1' \<Rightarrow> (case r2 of Inl e \<Rightarrow> Inl e | Inr sha2 \<Rightarrow>
        ebind (snapshotChannel sha256 sha1 scratch ''repo'' sha1' repo) (\<lambda>b1.
        ebind (snapshotChannel sha256 sha1 scratch ''evidence'' sha2 evidence) (\<lambda>b2. Inr (b1, b2))))"
    have run: "verifyBlobs sha256 sha1 handoff scratch m em emPresent planPresent pol = Some ?run"
      using True r1(1) r2(1) by (simp add: start rbind_def ebind_def split: sum.split)
    have "(\<exists>blobs. ?run = Inr blobs) \<longleftrightarrow> channel_ok sha256 root RepoBlobsDirname repo \<and> channel_ok sha256 root EvidenceBlobsDirname evidence"
      unfolding r1(2) [symmetric] r2(2) [symmetric] by (auto simp: sum_results split: sum.split)
    also have "\<dots> \<longleftrightarrow> (\<forall>p x. at handoff p = Some x \<longrightarrow> allowed_at emPresent planPresent repo evidence p x)
        \<and> (\<forall>(digest, n) \<in> set repo. blob_at sha256 handoff RepoBlobsDirname digest n)
        \<and> (\<forall>(digest, n) \<in> set evidence. blob_at sha256 handoff EvidenceBlobsDirname digest n)"
      using True unfolding IDir allowed_volume [OF w(2)] channel_ok_def store_fits_in_def by blast
    moreover have "\<forall>b1 b2. ?run = Inr (b1, b2) \<longrightarrow>
        map (\<lambda>(d, i). (d, bi_size i)) b1 = repo \<and> map (\<lambda>(d, i). (d, bi_size i)) b2 = evidence"
      using snapshot_sizes by (auto simp: sum_results split: sum.split_asm)
    ultimately show ?thesis using run by blast
  qed
qed (use assms(3,4) in \<open>auto simp: verifyBlobs_def auditHandoffLayout_def ret_def allowed_at_def in_store_def intro!: exI [of _ "[]"]\<close>)

section \<open>A volume\<close>

definition example_content :: string where "example_content = ''hi''"

definition example_handoff :: inode where
  "example_handoff = IDir [(ManifestFilename, IFile ''m''), (RepoBlobsDirname, IDir [(''sha256'', IDir [])]),
     (EvidenceFilename, IFile ''e''),
     (EvidenceBlobsDirname, IDir [(''sha256'', IDir [(concat (replicate 32 ''02''), IFile example_content)])])]"

definition example_empty_manifest :: Manifest where
  "example_empty_manifest = \<lparr>mf_version = ManifestVersion, mf_entries = []\<rparr>"

lemma handoff_audit_exact_witness: "\<exists>r. verifyBlobs example_sha256 (\<lambda>_. []) example_handoff ''/t'' example_empty_manifest
    example_evidence True False (policy_withDefaults example_policy) = Some r
  \<and> ((\<exists>blobs. r = Inr blobs) \<longleftrightarrow>
      (\<forall>p x. at example_handoff p = Some x \<longrightarrow> allowed_at True False [] [(example_evidence_digest, 2)] p x)
      \<and> blob_at example_sha256 example_handoff EvidenceBlobsDirname example_evidence_digest 2)"
proof -
  have 1: "0 < plc_dir_batch (policy_withDefaults example_policy)"
    "accumulate_entries (policy_withDefaults example_policy) [] 0 (mf_entries example_empty_manifest) = Inr ([], 0)"
    "accumulate_evidence (policy_withDefaults example_policy) [] 0 (evidence_entries example_evidence) = Inr ([(example_evidence_digest, 2)], 2)"
    "Valid example_evidence_digest"
    by code_simp+
  have 2: "well_named example_handoff"
    by (simp add: example_handoff_def child_name_def ManifestFilename_def EvidenceFilename_def RepoBlobsDirname_def EvidenceBlobsDirname_def
        eval_nat_numeral)
  have 3: "\<forall>d n. stored (mf_entries example_empty_manifest) d n \<longrightarrow> Valid d \<and> 0 \<le> n \<and> n < max_int64"
    by (simp add: example_empty_manifest_def stored_def)
  have 4: "\<forall>e \<in> set (evidence_entries example_evidence). Valid (ev_digest e) \<and> 0 \<le> ev_size e \<and> ev_size e < max_int64"
    using 1(4) by (simp add: evidence_entries_def example_evidence_def example_evidence_entry_def max_int64_def)
  from handoff_audit_exact [OF 1(1) 2 1(2,3) 3 4, of example_sha256 "\<lambda>_. []" "''/t''" True False]
  show ?thesis by auto
qed

end
