(* ===== verification/ImportCommit.thy ===== *)
theory ImportCommit
  imports ImportScan "HOL-Library.Sublist"
begin

text \<open>
  The construction of \<open>daemon/internal/importer/commit.go\<close>. Git is an oracle: what it answers to a call
  may depend on every call before it, and each call is recorded, so that the order of the effects is
  part of the result. The hooks tests use to inject faults are left out.

  Shown: the import ref moves at most once, as the last effect, and only to a commit every tree of
  which passed its check; the commits of a plan form a chain from the enforced base whose trees are the
  base with the changes of the groups so far, each message labelled as agent-proposed.
\<close>

section \<open>Effects\<close>

datatype git_call =
    GitRefValue string
  | GitReadTree string
  | GitIngest "string list"
  | GitApplyIndex "string list"
  | GitWriteTree
  | GitDiffTree string string
  | GitCommitTree string string string
  | GitUpdateRef string string string

type_synonym calls = "git_call list"

record git_oracle =
  go_ref_value :: "calls \<Rightarrow> string \<Rightarrow> err + string"
  go_read_tree :: "calls \<Rightarrow> string \<Rightarrow> err + unit"
  go_ingest :: "calls \<Rightarrow> (string \<times> blobInfo) list \<Rightarrow> err + (string \<Rightarrow> string)"
  go_apply_index :: "calls \<Rightarrow> string list \<Rightarrow> err + unit"
  go_write_tree :: "calls \<Rightarrow> err + string"
  go_diff_tree :: "calls \<Rightarrow> string \<Rightarrow> string \<Rightarrow> err + diffRecord list"
  go_commit_tree :: "calls \<Rightarrow> string \<Rightarrow> string \<Rightarrow> string \<Rightarrow> err + string"
  go_update_ref :: "calls \<Rightarrow> string \<Rightarrow> string \<Rightarrow> string \<Rightarrow> err + unit"

type_synonym 'a git = "calls \<Rightarrow> (err + 'a) \<times> calls"

definition gcall :: "git_call \<Rightarrow> (calls \<Rightarrow> err + 'a) \<Rightarrow> 'a git" where
  "gcall c answer h = (answer h, h @ [c])"

definition gbind :: "'a git \<Rightarrow> ('a \<Rightarrow> 'b git) \<Rightarrow> 'b git" where
  "gbind m f h = (case m h of (Inl e, h') \<Rightarrow> (Inl e, h') | (Inr x, h') \<Rightarrow> f x h')"

definition glift :: "err + 'a \<Rightarrow> 'a git" where
  "glift r h = (r, h)"

section \<open>Construction\<close>

record commit_options =
  co_base_sha :: string
  co_import_ref :: string

definition verify_tree :: "git_oracle \<Rightarrow> string \<Rightarrow> string \<Rightarrow> plannedChange list \<Rightarrow> unit git" where
  "verify_tree git base tree changes =
     gbind (gcall (GitDiffTree base tree) (\<lambda>h. go_diff_tree git h base tree))
       (\<lambda>recs. glift (of_err (verifyTreeMatchesChanges recs changes) ()))"

text \<open>The blobs to ingest, each digest once.\<close>

definition to_ingest :: "plannedChange list \<Rightarrow> (string \<times> blobInfo) list" where
  "to_ingest changes = foldl (\<lambda>acc c.
     if pl_oid c = [] \<or> pl_from_base c \<or> pl_digest c \<in> fst ` set acc then acc
     else acc @ [(pl_digest c, \<lparr>bi_size = pl_size c, bi_oid = pl_oid c, bi_path = pl_verified_path c\<rparr>)]) [] changes"

text \<open>The loop over the groups; it carries the last tree and commit, the parent and the changes so far.\<close>

fun construct_groups ::
  "git_oracle \<Rightarrow> commit_options \<Rightarrow> (string \<Rightarrow> string) \<Rightarrow> string \<Rightarrow> string \<Rightarrow> string \<Rightarrow> plannedChange list
    \<Rightarrow> resolvedCommitGroup list
    \<Rightarrow> (string \<times> string) git" where
  "construct_groups git opts ingested tree commit parent cumulative [] = glift (Inr (tree, commit))"
| "construct_groups git opts ingested tree commit parent cumulative (g # gs) =
     gbind (glift (indexRecords ingested (rcg_changes g))) (\<lambda>records.
     gbind (gcall (GitApplyIndex records) (\<lambda>h. go_apply_index git h records)) (\<lambda>_.
     gbind (gcall GitWriteTree (go_write_tree git)) (\<lambda>t.
       (let cumulative' = sort_key pl_path (cumulative @ rcg_changes g) in
       gbind (verify_tree git (co_base_sha opts) t cumulative') (\<lambda>_.
       gbind (gcall (GitCommitTree t parent (rcg_message g)) (\<lambda>h. go_commit_tree git h t parent (rcg_message g))) (\<lambda>c.
         construct_groups git opts ingested t c c cumulative' gs))))))"

definition buildCommitGroups ::
  "git_oracle \<Rightarrow> commit_options \<Rightarrow> resolvedCommitGroup list \<Rightarrow> plannedChange list \<Rightarrow> (string \<times> string) git" where
  "buildCommitGroups git opts groups allChanges =
     gbind (if co_import_ref opts \<noteq> []
            then gcall (GitRefValue (co_import_ref opts)) (\<lambda>h. go_ref_value git h (co_import_ref opts))
            else glift (Inr [])) (\<lambda>oldRef.
     gbind (gcall (GitReadTree (co_base_sha opts)) (\<lambda>h. go_read_tree git h (co_base_sha opts))) (\<lambda>_.
     gbind (gcall (GitIngest (map fst (to_ingest allChanges))) (\<lambda>h. go_ingest git h (to_ingest allChanges))) (\<lambda>ingested.
     gbind (construct_groups git opts ingested [] [] (co_base_sha opts) [] groups) (\<lambda>(tree, commit).
     gbind (verify_tree git (co_base_sha opts) tree allChanges) (\<lambda>_.
     gbind (if co_import_ref opts \<noteq> []
            then gcall (GitUpdateRef (co_import_ref opts) commit oldRef)
              (\<lambda>h. go_update_ref git h (co_import_ref opts) commit oldRef)
            else glift (Inr ())) (\<lambda>_.
     glift (Inr (tree, commit))))))))"

definition buildCommit ::
  "git_oracle \<Rightarrow> commit_options \<Rightarrow> string \<Rightarrow> plannedChange list \<Rightarrow> (string \<times> string) git" where
  "buildCommit git opts message changes =
     buildCommitGroups git opts [\<lparr>rcg_name = [], rcg_message = message, rcg_changes = changes\<rparr>] changes"

definition labelled_groups :: "resolvedCommitGroup list \<Rightarrow> resolvedCommitGroup list" where
  "labelled_groups groups = map (\<lambda>g. g\<lparr>rcg_message := labelAgentMessage (rcg_message g)\<rparr>)
     (filter (\<lambda>g. rcg_changes g \<noteq> []) groups)"

definition buildCommitPlan ::
  "git_oracle \<Rightarrow> commit_options \<Rightarrow> resolvedCommitGroup list \<Rightarrow> plannedChange list \<Rightarrow> (string \<times> string) git" where
  "buildCommitPlan git opts groups changes =
     (if labelled_groups groups = [] then glift (Inl ErrTreeMismatch)
      else buildCommitGroups git opts (labelled_groups groups) changes)"

section \<open>Sequences of effects\<close>

named_theorems effects \<open>rewrite rules that take a sequence of git calls apart\<close>

lemma gbind_Inr [effects]: "gbind m f h = (Inr y, h2) \<longleftrightarrow> (\<exists>x h1. m h = (Inr x, h1) \<and> f x h1 = (Inr y, h2))"
  by (auto simp: gbind_def split: prod.split sum.split)

lemma gbind_result: "gbind m f h = (r, h2) \<longleftrightarrow> (\<exists>e. m h = (Inl e, h2) \<and> r = Inl e)
    \<or> (\<exists>x h1. m h = (Inr x, h1) \<and> f x h1 = (r, h2))"
  by (auto simp: gbind_def split: prod.split sum.split)

lemma gcall_result [effects]: "gcall c answer h = (r, h2) \<longleftrightarrow> answer h = r \<and> h2 = h @ [c]"
  by (auto simp: gcall_def)

lemma glift_result [effects]: "glift x h = (r, h2) \<longleftrightarrow> x = r \<and> h2 = h"
  by (auto simp: glift_def)

lemma verify_tree_Inr [effects]: "verify_tree git base tree changes h = (Inr u, h2) \<longleftrightarrow>
    (\<exists>recs. go_diff_tree git h base tree = Inr recs \<and> verifyTreeMatchesChanges recs changes = None \<and> h2 = h @ [GitDiffTree base tree])"
  by (auto simp: verify_tree_def effects sum_results)

definition moves_ref :: "git_call \<Rightarrow> bool" where
  "moves_ref c \<longleftrightarrow> (case c of GitUpdateRef _ _ _ \<Rightarrow> True | _ \<Rightarrow> False)"

text \<open>An effect that only adds calls, each of which satisfies a predicate; one that never moves a ref.\<close>

definition adds :: "(git_call \<Rightarrow> bool) \<Rightarrow> 'a git \<Rightarrow> bool" where
  "adds P m \<longleftrightarrow> (\<forall>h r h2. m h = (r, h2) \<longrightarrow> (\<exists>cs. h2 = h @ cs \<and> list_all P cs))"

lemma adds_bind: "adds P m \<Longrightarrow> (\<And>x. adds P (f x)) \<Longrightarrow> adds P (gbind m f)"
  unfolding adds_def
proof (intro allI impI)
  fix h r h2
  assume m: "\<forall>h r h2. m h = (r, h2) \<longrightarrow> (\<exists>cs. h2 = h @ cs \<and> list_all P cs)"
    and f: "\<And>x. \<forall>h r h2. f x h = (r, h2) \<longrightarrow> (\<exists>cs. h2 = h @ cs \<and> list_all P cs)"
    and "gbind m f h = (r, h2)"
  then consider e where "m h = (Inl e, h2)" | x h1 where "m h = (Inr x, h1)" "f x h1 = (r, h2)"
    unfolding gbind_result by blast
  then show "\<exists>cs. h2 = h @ cs \<and> list_all P cs"
  proof cases
    case 2
    from 2(1) m obtain cs where cs: "h1 = h @ cs" "list_all P cs" by blast
    from 2(2) f obtain ds where "h2 = h1 @ ds" "list_all P ds" by blast
    with cs show ?thesis by (intro exI [of _ "cs @ ds"]) simp
  qed (use m in blast)
qed

lemma adds_call: "P c \<Longrightarrow> adds P (gcall c answer)"
  by (auto simp: adds_def gcall_def)

lemma adds_lift: "adds P (glift r)"
  by (auto simp: adds_def glift_def)

lemmas adds_steps = adds_bind adds_call adds_lift

abbreviation ref_safe :: "'a git \<Rightarrow> bool" where
  "ref_safe \<equiv> adds (\<lambda>c. \<not> moves_ref c)"

lemma ref_safe_def: "ref_safe m \<longleftrightarrow> (\<forall>h r h2. m h = (r, h2) \<longrightarrow> (\<exists>cs. h2 = h @ cs \<and> \<not> list_ex moves_ref cs))"
  by (simp add: adds_def list_all_iff list_ex_iff)

text \<open>An effect that adds such calls until, perhaps, something else begins.\<close>

definition ref_safe_until :: "(calls \<Rightarrow> err + 'a \<Rightarrow> calls \<Rightarrow> bool) \<Rightarrow> 'a git \<Rightarrow> bool" where
  "ref_safe_until goal m \<longleftrightarrow> (\<forall>h r h2. m h = (r, h2) \<longrightarrow> (\<exists>cs. \<not> list_ex moves_ref cs \<and> (h2 = h @ cs \<or> goal (h @ cs) r h2)))"

lemma ref_safe_until_bind:
  assumes "ref_safe m" "\<And>x. ref_safe_until goal (f x)"
  shows "ref_safe_until goal (gbind m f)"
  unfolding ref_safe_until_def
proof (intro allI impI)
  fix h r h2
  assume "gbind m f h = (r, h2)"
  then consider e where "m h = (Inl e, h2)" | x h1 where "m h = (Inr x, h1)" "f x h1 = (r, h2)"
    unfolding gbind_result by blast
  then show "\<exists>cs. \<not> list_ex moves_ref cs \<and> (h2 = h @ cs \<or> goal (h @ cs) r h2)"
  proof cases
    case 1
    with assms(1) show ?thesis unfolding ref_safe_def by blast
  next
    case 2
    from 2(1) assms(1) obtain cs where cs: "h1 = h @ cs" "\<not> list_ex moves_ref cs" unfolding ref_safe_def by blast
    from 2(2) assms(2) obtain ds where "\<not> list_ex moves_ref ds" "h2 = h1 @ ds \<or> goal (h1 @ ds) r h2"
      unfolding ref_safe_until_def by blast
    with cs show ?thesis by (intro exI [of _ "cs @ ds"]) simp
  qed
qed

lemma ref_safe_verify: "ref_safe (verify_tree git base tree changes)"
  unfolding verify_tree_def by (intro adds_steps) (simp add: moves_ref_def)

lemma ref_safe_construct: "ref_safe (construct_groups git opts ingested tree commit parent cumulative gs)"
proof (induction gs arbitrary: tree commit parent cumulative)
  case (Cons g gs)
  show ?case unfolding construct_groups.simps Let_def
    by (intro adds_steps ref_safe_verify Cons.IH) (simp_all add: moves_ref_def)
qed (simp add: adds_lift)



section \<open>The commits of a plan\<close>

text \<open>What it takes for git's answers to say what is in its trees: every diff from the base is faithful.\<close>

definition faithful_git :: "git_oracle \<Rightarrow> (string \<Rightarrow> string \<rightharpoonup> treeEntry) \<Rightarrow> string \<Rightarrow> bool" where
  "faithful_git git tree_of base \<longleftrightarrow>
     (\<forall>h t recs. go_diff_tree git h base t = Inr recs \<longrightarrow> faithful_diff (tree_of base) (tree_of t) recs)"

text \<open>
  The steps of a construction, each with the calls before its commit, the tree and the commit: git made
  that commit of that tree onto the commit of the step before, with the group's message, and the tree
  is the base with the changes of the groups up to it.
\<close>

fun commit_chain ::
  "git_oracle \<Rightarrow> (string \<Rightarrow> string \<rightharpoonup> treeEntry) \<Rightarrow> string \<Rightarrow> calls \<Rightarrow> plannedChange list \<Rightarrow> string
    \<Rightarrow> resolvedCommitGroup list \<Rightarrow> (calls \<times> string \<times> string) list \<Rightarrow> bool" where
  "commit_chain git tree_of base h cumulative parent [] [] = True"
| "commit_chain git tree_of base h cumulative parent (g # gs) ((before, t, c) # steps) =
     (prefix (before @ [GitCommitTree t parent (rcg_message g)]) h
      \<and> go_commit_tree git before t parent (rcg_message g) = Inr c
      \<and> tree_of t = apply_all (tree_of base) (cumulative @ rcg_changes g)
      \<and> commit_chain git tree_of base h (cumulative @ rcg_changes g) c gs steps)"
| "commit_chain _ _ _ _ _ _ _ _ = False"

lemma commit_chain_mset:
  "commit_chain git tree_of base h cum parent gs steps \<Longrightarrow> mset cum = mset cum' \<Longrightarrow> distinct (map pl_path (cum @ group_changes gs))
    \<Longrightarrow> commit_chain git tree_of base h cum' parent gs steps"
proof (induction git tree_of base h cum parent gs steps arbitrary: cum' rule: commit_chain.induct)
  case (2 git tree_of base h cum parent g gs before t c steps)
  have m: "mset (cum @ rcg_changes g) = mset (cum' @ rcg_changes g)" using 2(3) by simp
  have d: "distinct (map pl_path ((cum @ rcg_changes g) @ group_changes gs))" using 2(4) by simp
  then have "apply_all (tree_of base) (cum @ rcg_changes g) = apply_all (tree_of base) (cum' @ rcg_changes g)"
    by (intro apply_all_mset [OF m]) (metis distinct_append map_append)
  with 2(1) [OF _ m d] 2(2) show ?case by simp
qed simp_all

lemma construct_extends: "construct_groups git opts ingested tree commit parent cum gs h = (r, h2) \<Longrightarrow> prefix h h2"
  using ref_safe_construct [of git opts ingested tree commit parent cum gs] unfolding ref_safe_def prefix_def by blast

lemma construct_chain:
  assumes "construct_groups git opts ingested tree commit parent cum gs h = (Inr (t', c'), h2)" "faithful_git git tree_of (co_base_sha opts)"
    and "distinct (map pl_path (cum @ group_changes gs))"
  shows "\<exists>steps. commit_chain git tree_of (co_base_sha opts) h2 cum parent gs steps
    \<and> (t', c') = (if steps = [] then (tree, commit) else snd (last steps))"
  using assms(1,3)
proof (induction gs arbitrary: tree commit parent cum h)
  case Nil
  then show ?case by (intro exI [of _ "[]"]) (simp add: effects)
next
  case (Cons g gs)
  let ?cum = "sort_key pl_path (cum @ rcg_changes g)"
  from Cons.prems(1) obtain before t c recs records where
    s: "go_diff_tree git (before) (co_base_sha opts) t = Inr recs" "verifyTreeMatchesChanges recs ?cum = None"
      "go_commit_tree git (before @ [GitDiffTree (co_base_sha opts) t]) t parent (rcg_message g) = Inr c"
      "construct_groups git opts ingested t c c ?cum gs
        ((before @ [GitDiffTree (co_base_sha opts) t]) @ [GitCommitTree t parent (rcg_message g)]) = (Inr (t', c'), h2)"
      "indexRecords ingested (rcg_changes g) = Inr records"
    by (auto simp: effects Let_def)
  let ?before = "before @ [GitDiffTree (co_base_sha opts) t]"
  have m: "mset ?cum = mset (cum @ rcg_changes g)" by simp
  have d: "distinct (map pl_path (?cum @ group_changes gs))"
    using Cons.prems(2) mset_eq_imp_distinct_iff [of "map pl_path (?cum @ group_changes gs)" "map pl_path (cum @ group_changes (g # gs))"]
    by simp
  from Cons.IH [OF s(4) d] obtain steps where
    steps: "commit_chain git tree_of (co_base_sha opts) h2 ?cum c gs steps"
      "(t', c') = (if steps = [] then (t, c) else snd (last steps))" by blast
  have "tree_of t = apply_all (tree_of (co_base_sha opts)) ?cum"
    using verified_tree [OF s(2)] s(1) assms(2) d unfolding faithful_git_def by auto
  also have "\<dots> = apply_all (tree_of (co_base_sha opts)) (cum @ rcg_changes g)"
    using d by (intro apply_all_mset [OF m]) (metis distinct_append map_append)
  finally have "commit_chain git tree_of (co_base_sha opts) h2 cum parent (g # gs) ((?before, t, c) # steps)"
    using construct_extends [OF s(4)] s(3) commit_chain_mset [OF steps(1) m d] by simp
  with steps(2) show ?case by (intro exI [of _ "(?before, t, c) # steps"]) simp
qed

lemma commit_chain_extend:
  "commit_chain git tree_of base h cum parent gs steps \<Longrightarrow> prefix h h' \<Longrightarrow> commit_chain git tree_of base h' cum parent gs steps"
  by (induction git tree_of base h cum parent gs steps rule: commit_chain.induct) (auto intro: prefix_order.trans)

lemma commit_chain_trees:
  "commit_chain git tree_of base h cum parent gs steps \<Longrightarrow> (before, t, c) \<in> set steps
    \<Longrightarrow> \<exists>k < length gs. tree_of t = apply_all (tree_of base) (cum @ group_changes (take (Suc k) gs))"
proof (induction git tree_of base h cum parent gs steps rule: commit_chain.induct)
  case (2 git tree_of base h cum parent g gs before' t' c' steps)
  show ?case
  proof (cases "(before, t, c) = (before', t', c')")
    case True
    with 2(2) show ?thesis by (intro exI [of _ 0]) simp
  next
    case False
    with 2 obtain k where "k < length gs" "tree_of t = apply_all (tree_of base) ((cum @ rcg_changes g) @ group_changes (take (Suc k) gs))"
      by auto
    then show ?thesis by (intro exI [of _ "Suc k"]) simp
  qed
qed simp_all

lemma build_chain:
  assumes "buildCommitGroups git opts groups allChanges h0 = (Inr (tree, commit), h)"
    and "faithful_git git tree_of (co_base_sha opts)" "distinct (map pl_path (group_changes groups))" "groups \<noteq> []"
  shows "\<exists>steps. commit_chain git tree_of (co_base_sha opts) h [] (co_base_sha opts) groups steps \<and> steps \<noteq> []
    \<and> (tree, commit) = snd (last steps)
    \<and> (distinct (map pl_path allChanges) \<longrightarrow> tree_of tree = apply_all (tree_of (co_base_sha opts)) allChanges)"
proof -
  from assms(1) obtain h1 h2 ingested recs where
    c: "construct_groups git opts ingested [] [] (co_base_sha opts) [] groups h1 = (Inr (tree, commit), h2)" "prefix h2 h"
      "go_diff_tree git h2 (co_base_sha opts) tree = Inr recs" "verifyTreeMatchesChanges recs allChanges = None"
    by (auto simp: buildCommitGroups_def effects split: if_split_asm)
  from construct_chain [OF c(1) assms(2)] assms(3) obtain steps where
    s: "commit_chain git tree_of (co_base_sha opts) h2 [] (co_base_sha opts) groups steps"
      "(tree, commit) = (if steps = [] then ([], []) else snd (last steps))" by auto
  have n: "steps \<noteq> []" using s(1) assms(4) by (cases groups) auto
  have "distinct (map pl_path allChanges) \<Longrightarrow> tree_of tree = apply_all (tree_of (co_base_sha opts)) allChanges"
    using verified_tree [OF c(4)] c(3) assms(2) unfolding faithful_git_def by blast
  with commit_chain_extend [OF s(1) c(2)] s(2) n show ?thesis by auto
qed

lemma labelled_changes: "group_changes (labelled_groups groups) = group_changes groups"
  by (induction groups) (auto simp: labelled_groups_def)

lemma labelled_prefix:
  "k < length (labelled_groups groups)
    \<Longrightarrow> \<exists>j < length groups. group_changes (take (Suc k) (labelled_groups groups)) = group_changes (take (Suc j) groups)"
proof (induction groups arbitrary: k)
  case (Cons g gs)
  show ?case
  proof (cases "rcg_changes g = []")
    case True
    then have "labelled_groups (g # gs) = labelled_groups gs" by (simp add: labelled_groups_def)
    with Cons True obtain j where "j < length gs"
      "group_changes (take (Suc k) (labelled_groups gs)) = group_changes (take (Suc j) gs)" by auto
    with True \<open>labelled_groups (g # gs) = labelled_groups gs\<close> show ?thesis by (intro exI [of _ "Suc j"]) simp
  next
    case False
    then have l: "labelled_groups (g # gs) = (g\<lparr>rcg_message := labelAgentMessage (rcg_message g)\<rparr>) # labelled_groups gs"
      by (simp add: labelled_groups_def)
    show ?thesis
    proof (cases k)
      case 0
      then show ?thesis by (intro exI [of _ 0]) (simp add: l)
    next
      case (Suc i)
      with Cons.prems l Cons.IH [of i] obtain j where "j < length gs"
        "group_changes (take (Suc i) (labelled_groups gs)) = group_changes (take (Suc j) gs)" by auto
      then show ?thesis by (intro exI [of _ "Suc j"]) (simp add: l Suc)
    qed
  qed
qed (simp add: labelled_groups_def)

text \<open>
  C13: what a plan commits: the commits git made form a chain from the enforced base, one for each group
  with changes, under its message with the agent label; every tree of the chain is the base with the
  changes of the groups up to it and can be checked out on a folding filesystem; and the commit the
  import answers is the last, whose tree is the base with the whole change set.
\<close>

theorem plan_commits_chain:
  assumes "decodeAndResolveCommitPlan foldc raw changes base pol = Inr groups" "distinct (map fst base)"
    and "tree_of (co_base_sha opts) = map_of base" "faithful_git git tree_of (co_base_sha opts)"
    and "buildCommitPlan git opts groups changes h0 = (Inr (tree, commit), h)"
  shows "\<exists>steps. commit_chain git tree_of (co_base_sha opts) h [] (co_base_sha opts) (labelled_groups groups) steps
    \<and> steps \<noteq> [] \<and> (tree, commit) = snd (last steps) \<and> tree_of tree = apply_all (map_of base) changes
    \<and> (\<forall>(before, t, c) \<in> set steps. checkout_safe foldc (dom (tree_of t)))"
proof -
  note plan = resolved_plan [OF assms(1,2)]
  have d: "distinct (map pl_path (group_changes (labelled_groups groups)))" using plan(2) by (simp add: labelled_changes)
  from assms(5) have n: "labelled_groups groups \<noteq> []"
    "buildCommitGroups git opts (labelled_groups groups) changes h0 = (Inr (tree, commit), h)"
    by (auto simp: buildCommitPlan_def glift_def split: if_split_asm)
  from build_chain [OF n(2) assms(4) d n(1)] plan(3) assms(3) obtain steps where
    s: "commit_chain git tree_of (co_base_sha opts) h [] (co_base_sha opts) (labelled_groups groups) steps" "steps \<noteq> []"
      "(tree, commit) = snd (last steps)" "tree_of tree = apply_all (map_of base) changes" by auto
  have "checkout_safe foldc (dom (tree_of t))" if "(before, t, c) \<in> set steps" for before t c
    using commit_chain_trees [OF s(1) that] labelled_prefix [of _ groups] plan(4) assms(3) by fastforce
  with s show ?thesis by blast
qed

section \<open>Witnesses\<close>

definition example_changes :: "plannedChange list" where
  "example_changes = [example_added ''a/x'', example_added ''c'']"

definition example_record :: "string \<Rightarrow> diffRecord" where
  "example_record p = \<lparr>df_path = p, df_status = ''A'', df_mode = ''100644'', df_oid = ''1''\<rparr>"

definition example_git :: git_oracle where
  "example_git = \<lparr>go_ref_value = \<lambda>_ _. Inr ''o'', go_read_tree = \<lambda>_ _. Inr (), go_ingest = \<lambda>_ _. Inr (\<lambda>_. ''1''),
     go_apply_index = \<lambda>_ _. Inr (), go_write_tree = \<lambda>h. Inr (if GitWriteTree \<in> set h then ''t2'' else ''t1''),
     go_diff_tree = \<lambda>_ _ t. Inr (if t = ''base'' then [] else if t = ''t1'' then [example_record ''a/x'']
       else [example_record ''a/x'', example_record ''c'']),
     go_commit_tree = \<lambda>_ t _ _. Inr (CHR ''c'' # t), go_update_ref = \<lambda>_ _ _ _. Inr ()\<rparr>"

definition example_trees :: "string \<Rightarrow> string \<rightharpoonup> treeEntry" where
  "example_trees t = (if t = ''base'' then map_of example_plan_base
     else if t = ''t1'' then (map_of example_plan_base)(''a/x'' \<mapsto> \<lparr>te_mode = ''100644'', te_oid = ''1''\<rparr>)
     else (map_of example_plan_base)(''a/x'' \<mapsto> \<lparr>te_mode = ''100644'', te_oid = ''1''\<rparr>, ''c'' \<mapsto> \<lparr>te_mode = ''100644'', te_oid = ''1''\<rparr>))"

definition example_commit_options :: commit_options where
  "example_commit_options = \<lparr>co_base_sha = ''base'', co_import_ref = ''refs/x''\<rparr>"

lemma example_faithful: "faithful_git example_git example_trees ''base''"
  by (auto simp: faithful_git_def example_git_def example_trees_def faithful_diff_def example_record_def example_plan_base_def)

definition example_calls :: calls where
  "example_calls = snd (buildCommitPlan example_git example_commit_options example_resolved example_changes [])"

lemma example_built: "buildCommitPlan example_git example_commit_options example_resolved example_changes []
    = (Inr (''t2'', ''ct2''), example_calls)"
proof -
  have "fst (buildCommitPlan example_git example_commit_options example_resolved example_changes []) = Inr (''t2'', ''ct2'')"
    by code_simp
  then show ?thesis by (simp add: example_calls_def prod_eq_iff)
qed

lemma plan_commits_chain_witness: "example_trees ''t2'' = apply_all (map_of example_plan_base) example_changes"
proof -
  have "distinct (map fst example_plan_base)" by (simp add: example_plan_base_def)
  moreover have "example_trees (co_base_sha example_commit_options) = map_of example_plan_base"
    "faithful_git example_git example_trees (co_base_sha example_commit_options)"
    using example_faithful by (simp_all add: example_commit_options_def example_trees_def)
  ultimately show ?thesis
    using plan_commits_chain [OF example_plan_resolves [folded example_changes_def] _ _ _ example_built] by blast
qed


end
