(* ===== verification/Importer.thy ===== *)
theory Importer
  imports Handoff ImportCommit
begin

text \<open>
  \<open>Import\<close> of \<open>daemon/internal/importer/importer.go\<close>: the composition of the package. What the handoff
  files decode to, the volume, the verified snapshots, the answers of git before the construction and the
  oracle of the construction are one environment; only the calls of the construction are recorded.

  Shown: the import ends; it makes no construction call unless every check passed and no finding blocks;
  what it commits is the snapshot with only base-ignored additions left out, whichever plan came with
  it; and a message of the agent reaches a commit only screened and labelled.
\<close>

section \<open>The result\<close>

datatype CommitPlanNoticeReason = CommitPlanNoticeAbsent | CommitPlanNoticeStructural | CommitPlanNoticeScreening
  | CommitPlanNoticePresentButNotHonored | CommitPlanNoticeOther string

record Result =
  res_commit :: string
  res_tree :: string
  res_changes :: "Change list"
  res_findings :: "Finding list"
  res_claims :: "AgentClaim list"
  res_notice :: "CommitPlanNoticeReason option"

definition setPlanNotice :: "Result \<Rightarrow> CommitPlanNoticeReason \<Rightarrow> Result" where
  "setPlanNotice result reason = result\<lparr>res_notice := Some reason\<rparr>"

text \<open>
  The environment of an import. An absent evidence manifest or plan is \<open>None\<close>; a plan that is present is
  the value it parses to, \<open>None\<close> when it is not one JSON value.
\<close>

record import_env =
  ie_foldc :: "string \<Rightarrow> string"
  ie_sha256 :: "string \<Rightarrow> nat list"
  ie_sha1 :: "string \<Rightarrow> nat list"
  ie_now :: gotime
  ie_scratch :: string
  ie_handoff :: inode
  ie_manifest :: "err + Manifest"
  ie_evidence :: "err + EvidenceManifest option"
  ie_plan :: "err + json option option"
  ie_file :: "string \<Rightarrow> err + string"
  ie_runner :: "err + unit"
  ie_verify_base :: "err + unit"
  ie_base :: "err + base_tree"
  ie_reader :: git_reader
  ie_check :: "(string \<times> string) list \<Rightarrow> string list \<Rightarrow> err + string"
  ie_git :: git_oracle

abbreviation ErrUnexpectedChanges :: err where "ErrUnexpectedChanges \<equiv> Sentinel ''ErrUnexpectedChanges''"

section \<open>The stages\<close>

definition loadManifest :: "import_env \<Rightarrow> Policy \<Rightarrow> err + Manifest" where
  "loadManifest env pol = ebind (ie_manifest env) (\<lambda>m. ebind (of_err (admit_manifest pol m) ()) (\<lambda>_. Inr m))"

definition no_evidence :: EvidenceManifest where
  "no_evidence = \<lparr>em_version = [], em_entries = None\<rparr>"

definition loadEvidenceManifest :: "import_env \<Rightarrow> err + (EvidenceManifest \<times> bool)" where
  "loadEvidenceManifest env = ebind (ie_evidence env) (\<lambda>found. case found of
     None \<Rightarrow> Inr (no_evidence, False)
   | Some em \<Rightarrow> if EvidenceManifest_Validate em \<noteq> None then Inl ErrEvidenceInvalid else Inr (em, True))"

text \<open>What is read of the handoff.\<close>

record intake =
  in_manifest :: Manifest
  in_plan :: "json option option"
  in_blobs :: "(string \<times> blobInfo) list"
  in_claims :: "AgentClaim list"
  in_evidence_findings :: "Finding list"

definition take_in :: "import_env \<Rightarrow> Options \<Rightarrow> intake run" where
  "take_in env opts = (let pol = opt_policy opts in
     rbind (ret (loadManifest env pol)) (\<lambda>m.
     rbind (ret (of_err (gatePaths (ie_foldc env) m) ())) (\<lambda>_.
     rbind (ret (loadEvidenceManifest env)) (\<lambda>(em, emPresent).
     rbind (ret (ie_plan env)) (\<lambda>plan.
     rbind (verifyBlobs (ie_sha256 env) (ie_sha1 env) (ie_handoff env) (ie_scratch env) m em emPresent (plan \<noteq> None) pol)
       (\<lambda>(blobs, evidenceBlobs).
     rbind (ret (buildClaims (ie_file env) (ie_sha256 env) (ie_now env) em (map_of evidenceBlobs) opts)) (\<lambda>(claims, fs).
     ret (Inr \<lparr>in_manifest = m, in_plan = plan, in_blobs = blobs, in_claims = claims, in_evidence_findings = fs\<rparr>))))))))"

text \<open>What is decided about it: the base, the changes that are kept and the findings.\<close>

definition kept_changes :: "string list \<Rightarrow> plannedChange list \<Rightarrow> plannedChange list" where
  "kept_changes ignored changes = filter (\<lambda>c. pl_path c \<notin> set ignored) changes"

definition kept_findings :: "string list \<Rightarrow> Finding list \<Rightarrow> Finding list" where
  "kept_findings ignored findings =
     filter (\<lambda>f. fnd_kind f \<noteq> FindingAllowlistViolation \<or> fnd_path f \<notin> set ignored) findings"

definition judge :: "import_env \<Rightarrow> Options \<Rightarrow> intake \<Rightarrow> err + (base_tree \<times> plannedChange list \<times> Finding list)" where
  "judge env opts i = (let pol = opt_policy opts; foldc = ie_foldc env; blobs = map_of (in_blobs i) in
     ebind (ie_runner env) (\<lambda>_.
     ebind (ie_verify_base env) (\<lambda>_.
     ebind (ie_base env) (\<lambda>base.
     ebind (of_err (preflightCommitPlanBase foldc base) ()) (\<lambda>_.
     ebind (deriveChanges (ie_reader env) base (in_manifest i) blobs) (\<lambda>(changes, derived).
     ebind (scanSecrets (readScanBlob (ie_file env) (ie_sha256 env)) blobs changes (plc_secret_max_scan pol)) (\<lambda>secrets.
     ebind (ignoredAdditions foldc (ie_reader env) (ie_check env) base changes opts) (\<lambda>ignored.
       let findings = derived @ applyPolicy foldc changes pol @ detectCollisions foldc changes base @ secrets @ in_evidence_findings i;
           planFindings = (case in_plan i of None \<Rightarrow> []
             | Some raw \<Rightarrow> if plc_commit_plan pol = PlanPreferred then scanCommitPlanStrings raw else [])
       in Inr (base, kept_changes ignored changes, sortFindings (kept_findings ignored findings @ planFindings))))))))))"

definition account :: "Options \<Rightarrow> intake \<Rightarrow> plannedChange list \<Rightarrow> Finding list \<Rightarrow> Result" where
  "account opts i changes findings =
     (let result = \<lparr>res_commit = [], res_tree = [], res_changes = map public changes, res_findings = findings,
            res_claims = in_claims i, res_notice = None\<rparr>
      in if in_plan i \<noteq> None \<and> plc_commit_plan (opt_policy opts) = SingleCommit
         then setPlanNotice result CommitPlanNoticePresentButNotHonored else result)"

definition commit_options_of :: "Options \<Rightarrow> commit_options" where
  "commit_options_of opts = \<lparr>co_base_sha = opt_base_sha opts, co_import_ref = opt_import_ref opts\<rparr>"

definition with_commit :: "Result \<Rightarrow> (string \<times> string) git \<Rightarrow> Result git" where
  "with_commit result build = gbind build (\<lambda>(tree, commit). glift (Inr (result\<lparr>res_tree := tree, res_commit := commit\<rparr>)))"

text \<open>The construction the plan mode asks for, once nothing blocks it.\<close>

definition construct :: "import_env \<Rightarrow> Options \<Rightarrow> json option option \<Rightarrow> base_tree \<Rightarrow> plannedChange list \<Rightarrow> Result \<Rightarrow> Result git" where
  "construct env opts plan base changes result =
     (let co = commit_options_of opts;
          daemon_commit = (\<lambda>result. with_commit result (buildCommit (ie_git env) co (opt_commit_message opts) changes))
      in if plc_commit_plan (opt_policy opts) = PlanPreferred then
           (if changes = [] then daemon_commit (if plan \<noteq> None then setPlanNotice result CommitPlanNoticePresentButNotHonored else result)
            else case plan of None \<Rightarrow> daemon_commit (setPlanNotice result CommitPlanNoticeAbsent)
              | Some raw \<Rightarrow> (case decodeAndResolveCommitPlan (ie_foldc env) raw changes base (opt_policy opts) of
                    Inr groups \<Rightarrow>
                      if screenCommitMessages groups (opt_policy opts) = []
                      then with_commit result (buildCommitPlan (ie_git env) co groups changes)
                      else daemon_commit (setPlanNotice result CommitPlanNoticeScreening)
                  | Inl planErr \<Rightarrow>
                      if planErr = errPlanStructural then daemon_commit (setPlanNotice result CommitPlanNoticeStructural)
                      else glift (Inl planErr)))
         else daemon_commit result)"

definition conclude_import :: "import_env \<Rightarrow> Options \<Rightarrow> intake \<Rightarrow> base_tree \<Rightarrow> plannedChange list \<Rightarrow> Finding list \<Rightarrow> Result git" where
  "conclude_import env opts i base changes findings =
     (let result = account opts i changes findings in
      if list_ex (\<lambda>f. blocksCommit (fnd_kind f)) findings then glift (Inr result)
      else if opt_expect_no_changes opts then
        (if 0 < length changes \<or> in_plan i \<noteq> None then glift (Inl ErrUnexpectedChanges) else glift (Inr result))
      else construct env opts (in_plan i) base changes result)"

definition Import :: "import_env \<Rightarrow> Options \<Rightarrow> calls \<Rightarrow> ((err + Result) \<times> calls) option" where
  "Import env opts0 h = (let opts = withDefaults opts0 in
     case Options_validate opts of Some e \<Rightarrow> Some (Inl e, h)
     | None \<Rightarrow> (case take_in env opts of None \<Rightarrow> None
        | Some (Inl e) \<Rightarrow> Some (Inl e, h)
        | Some (Inr i) \<Rightarrow> (case judge env opts i of Inl e \<Rightarrow> Some (Inl e, h)
            | Inr (base, changes, findings) \<Rightarrow> Some (conclude_import env opts i base changes findings h))))"

section \<open>The import ends\<close>

lemma ends_bind: "m \<noteq> None \<Longrightarrow> (\<And>x. f x \<noteq> None) \<Longrightarrow> rbind m f \<noteq> None"
  by (auto simp: rbind_def split: option.split sum.split)

lemma ends_ret: "ret r \<noteq> None"
  by (simp add: ret_def)

lemma ends_prod: "(\<And>a b. f a b \<noteq> None) \<Longrightarrow> (case p of (a, b) \<Rightarrow> f a b) \<noteq> None"
  by (cases p) simp

lemma ends_scan: "0 < batch \<Longrightarrow> scanOpenDirBatched batch fn st entries \<noteq> None"
  by (simp add: scanOpenDirBatched_whole)

lemmas ends = ends_bind ends_ret ends_prod ends_scan

lemma auditBlobStore_ends: "0 < batch \<Longrightarrow> auditBlobStore batch root name present needed \<noteq> None"
  by (auto simp: auditBlobStore_def scanOpenDirBatched_whole ret_def rbind_def split: option.split sum.split)

lemma verifyBlobs_ends:
  assumes "0 < plc_dir_batch pol"
  shows "verifyBlobs sha256 sha1 handoff scratch m em ev plan pol \<noteq> None"
proof -
  have "auditHandoffLayout handoff repo evidence ev plan (plc_dir_batch pol) \<noteq> None" for repo evidence
  proof (cases handoff)
    case (IDir root)
    show ?thesis unfolding auditHandoffLayout_def IDir inode.case by (intro ends auditBlobStore_ends assms)
  qed (simp_all add: auditHandoffLayout_def ret_def)
  then show ?thesis unfolding verifyBlobs_def by (intro ends)
qed

lemma take_in_ends: "0 < plc_dir_batch (opt_policy opts) \<Longrightarrow> take_in env opts \<noteq> None"
  unfolding take_in_def Let_def by (intro ends verifyBlobs_ends)

text \<open>An import that returns, and one that reaches the construction.\<close>

lemma Import_cases:
  assumes "Import env opts0 h = Some (r, h')"
  obtains e where "r = Inl e" "h' = h"
  | i base changes findings where "Options_validate (withDefaults opts0) = None" "take_in env (withDefaults opts0) = Some (Inr i)"
      "judge env (withDefaults opts0) i = Inr (base, changes, findings)"
      "conclude_import env (withDefaults opts0) i base changes findings h = (r, h')"
  using assms by (auto simp: Import_def Let_def split: option.split_asm sum.split_asm)

lemma conclude_blocked: "list_ex (\<lambda>f. blocksCommit (fnd_kind f)) findings \<or> opt_expect_no_changes opts \<Longrightarrow>
    conclude_import env opts i base changes findings h = (r, h') \<Longrightarrow> h' = h"
  by (auto simp: conclude_import_def Let_def glift_def split: if_split_asm)


section \<open>What is committed\<close>

lemma with_commit_Inr: "with_commit result build h = (Inr r, h') \<longleftrightarrow>
    (\<exists>tree commit. build h = (Inr (tree, commit), h') \<and> r = result\<lparr>res_tree := tree, res_commit := commit\<rparr>)"
  by (auto simp: with_commit_def gbind_def glift_def split: sum.split prod.split)

text \<open>Whatever the plan was, the tree is the base with the kept changes.\<close>

lemma constructed_tree:
  assumes "construct env opts plan base changes result h = (Inr r, h')" "distinct (map fst base)" "distinct (map pl_path changes)"
    and "tree_of (opt_base_sha opts) = map_of base" "faithful_git (ie_git env) tree_of (opt_base_sha opts)"
  shows "tree_of (res_tree r) = apply_all (map_of base) changes"
proof -
  let ?co = "commit_options_of opts"
  have b: "co_base_sha ?co = opt_base_sha opts" by (simp add: commit_options_of_def)
  have single: "tree_of tree = apply_all (map_of base) changes"
    if "buildCommit (ie_git env) ?co message changes h = (Inr (tree, commit), h')" for message tree commit
    using build_chain [of "ie_git env" ?co "[\<lparr>rcg_name = [], rcg_message = message, rcg_changes = changes\<rparr>]" changes h tree commit h' tree_of]
      that assms(3-5) by (auto simp: buildCommit_def b)
  have plan: "tree_of tree = apply_all (map_of base) changes"
    if "decodeAndResolveCommitPlan (ie_foldc env) raw changes base (opt_policy opts) = Inr groups"
      "buildCommitPlan (ie_git env) ?co groups changes h = (Inr (tree, commit), h')" for raw groups tree commit
  proof -
    from that(2) have g: "labelled_groups groups \<noteq> []" "buildCommitGroups (ie_git env) ?co (labelled_groups groups) changes h = (Inr (tree, commit), h')"
      by (auto simp: buildCommitPlan_def glift_def split: if_split_asm)
    have "distinct (map pl_path (group_changes (labelled_groups groups)))"
      using resolved_plan(2) [OF that(1) assms(2)] by (simp add: labelled_changes)
    with build_chain [OF g(2), of tree_of] assms(3-5) g(1) show ?thesis by (auto simp: b)
  qed
  from assms(1) single plan show ?thesis
    by (auto simp: construct_def Let_def with_commit_Inr glift_def setPlanNotice_def split: if_split_asm option.split_asm sum.split_asm)
qed

lemma kept_tree: "p \<notin> set ignored \<Longrightarrow> distinct (map pl_path cs) \<Longrightarrow> apply_all m (kept_changes ignored cs) p = apply_all m cs p"
proof -
  assume p: "p \<notin> set ignored" and d: "distinct (map pl_path cs)"
  have k: "distinct (map pl_path (kept_changes ignored cs))" using d by (simp add: kept_changes_def distinct_map_filter)
  show ?thesis
  proof (cases "p \<in> pl_path ` set cs")
    case True
    then obtain c where c: "c \<in> set cs" "pl_path c = p" by auto
    with p have "c \<in> set (kept_changes ignored cs)" by (simp add: kept_changes_def)
    from apply_all_at [OF d c(1), of m Map.empty] apply_all_at [OF k this, of m Map.empty] c(2) show ?thesis by simp
  next
    case False
    then show ?thesis by (subst (1 2) apply_all_other) (auto simp: kept_changes_def)
  qed
qed

lemma ignored_tree: "p \<in> set ignored \<Longrightarrow> apply_all m (kept_changes ignored cs) p = m p"
  by (rule apply_all_other) (auto simp: kept_changes_def)

lemma judged:
  assumes "judge env opts i = Inr (base, changes, findings)"
  shows "\<exists>derived fs ignored. ie_base env = Inr base \<and> deriveChanges (ie_reader env) base (in_manifest i) (map_of (in_blobs i)) = Inr (derived, fs)
    \<and> ignoredAdditions (ie_foldc env) (ie_reader env) (ie_check env) base derived opts = Inr ignored
    \<and> changes = kept_changes ignored derived \<and> {f \<in> set fs. blocksCommit (fnd_kind f)} \<subseteq> set findings"
proof -
  from assms obtain derived fs ignored secrets where j: "ie_base env = Inr base"
    "deriveChanges (ie_reader env) base (in_manifest i) (map_of (in_blobs i)) = Inr (derived, fs)"
    "ignoredAdditions (ie_foldc env) (ie_reader env) (ie_check env) base derived opts = Inr ignored"
    "changes = kept_changes ignored derived"
    "findings = sortFindings (kept_findings ignored (fs @ applyPolicy (ie_foldc env) derived (opt_policy opts)
       @ detectCollisions (ie_foldc env) derived base @ secrets @ in_evidence_findings i) @ (case in_plan i of None \<Rightarrow> []
         | Some raw \<Rightarrow> if plc_commit_plan (opt_policy opts) = PlanPreferred then scanCommitPlanStrings raw else []))"
    by (auto simp: judge_def Let_def sum_results)
  from j(5) have "{f \<in> set fs. blocksCommit (fnd_kind f)} \<subseteq> set findings"
    by (auto simp: sortFindings_def kept_findings_def blocksCommit_def)
  with j show ?thesis by blast
qed


section \<open>The messages of an import\<close>

text \<open>A commit carries the daemon's message, or one the screen passed, with the agent label.\<close>

definition message_ok :: "Options \<Rightarrow> git_call \<Rightarrow> bool" where
  "message_ok opts c \<longleftrightarrow> (case c of GitCommitTree tree parent message \<Rightarrow> message = opt_commit_message opts
      \<or> (\<exists>proposed. screenCommitMessage proposed (opt_policy opts) = None \<and> message = labelAgentMessage proposed)
    | _ \<Rightarrow> True)"

lemma message_ok_simps [simp]: "message_ok opts (GitRefValue x)" "message_ok opts (GitReadTree x)" "message_ok opts (GitIngest ds)"
  "message_ok opts (GitApplyIndex ds)" "message_ok opts GitWriteTree" "message_ok opts (GitDiffTree x y)" "message_ok opts (GitUpdateRef x y z)"
  by (simp_all add: message_ok_def)

lemma construct_messages: "\<forall>g \<in> set gs. \<forall>t p. message_ok opts (GitCommitTree t p (rcg_message g)) \<Longrightarrow>
    adds (message_ok opts) (construct_groups git co ingested tree commit parent cumulative gs)"
proof (induction gs arbitrary: tree commit parent cumulative)
  case (Cons g gs)
  then show ?case unfolding construct_groups.simps Let_def verify_tree_def
    by (intro adds_steps Cons.IH) simp_all
qed (simp add: adds_lift)

lemma build_messages: "\<forall>g \<in> set groups. \<forall>t p. message_ok opts (GitCommitTree t p (rcg_message g)) \<Longrightarrow>
    adds (message_ok opts) (buildCommitGroups git co groups changes)"
  unfolding buildCommitGroups_def verify_tree_def split_def by (intro adds_steps construct_messages) (simp_all add: adds_steps)

lemma screened_groups: "screenCommitMessages groups pol = [] \<Longrightarrow> g \<in> set groups \<Longrightarrow> rcg_changes g \<noteq> []
    \<Longrightarrow> screenCommitMessage (rcg_message g) pol = None"
proof -
  assume s: "screenCommitMessages groups pol = []" and g: "g \<in> set groups" "rcg_changes g \<noteq> []"
  from g(1) obtain k where "k < length groups" "g = groups ! k" by (auto simp: in_set_conv_nth)
  then have "(k, g) \<in> set (enumerate 0 groups)" by (simp add: in_set_enumerate_eq)
  with s g(2) show ?thesis by (force simp: screenCommitMessages_def split: option.split_asm)
qed

text \<open>
  C11: no text of the agent becomes a commit message unless it passed the screen and carries the label:
  every commit an import makes has the message the daemon was given or the labelled form of a screened
  proposal.
\<close>

theorem import_messages_screened:
  assumes "Import env opts0 h = Some (r, h')"
  shows "\<exists>cs. h' = h @ cs \<and> list_all (message_ok (withDefaults opts0)) cs"
  using assms
proof (cases rule: Import_cases)
  case (2 i base changes findings)
  let ?opts = "withDefaults opts0"
  have single: "adds (message_ok ?opts) (buildCommit git co (opt_commit_message ?opts) changes)" for git co
    unfolding buildCommit_def by (rule build_messages) (simp add: message_ok_def)
  have plan: "adds (message_ok ?opts) (buildCommitPlan git co groups changes)"
    if "screenCommitMessages groups (opt_policy ?opts) = []" for git co groups
  proof -
    have "message_ok ?opts (GitCommitTree t p (rcg_message g))" if "g \<in> set (labelled_groups groups)" for g t p
      using screened_groups [OF \<open>screenCommitMessages groups (opt_policy ?opts) = []\<close>] that
      by (force simp: labelled_groups_def message_ok_def)
    then show ?thesis by (simp add: buildCommitPlan_def adds_lift build_messages)
  qed
  have "adds (message_ok ?opts) (with_commit a b)" if "adds (message_ok ?opts) b" for a b
    unfolding with_commit_def split_def by (intro adds_bind that adds_lift)
  then have "adds (message_ok ?opts) (conclude_import env ?opts i base changes findings)"
    using single plan by (auto simp: conclude_import_def construct_def Let_def adds_lift split: option.split sum.split)
  with 2(4) show ?thesis unfolding adds_def by blast
qed simp

section \<open>An import\<close>

text \<open>An empty snapshot with one piece of evidence over a base of one file, which is deleted.\<close>

definition deleting_git :: git_oracle where
  "deleting_git = example_git\<lparr>go_write_tree := \<lambda>_. Inr ''t1'', go_ingest := \<lambda>_ _. Inr (\<lambda>_. []),
     go_diff_tree := \<lambda>_ _ t. Inr (if t = nullOID then [] else [\<lparr>df_path = ''b'', df_status = ''D'', df_mode = ''000000'', df_oid = nullOID\<rparr>])\<rparr>"

definition example_env :: import_env where
  "example_env = \<lparr>ie_foldc = id_fold, ie_sha256 = example_sha256, ie_sha1 = \<lambda>_. [], ie_now = UnixZero 0, ie_scratch = ''/t'',
     ie_handoff = example_handoff, ie_manifest = Inr example_empty_manifest, ie_evidence = Inr (Some example_evidence), ie_plan = Inr None,
     ie_file = example_file, ie_runner = Inr (), ie_verify_base = Inr (), ie_base = Inr example_plan_base,
     ie_reader = example_ignore_reader, ie_check = example_check, ie_git = deleting_git\<rparr>"

definition example_verified :: "(string \<times> blobInfo) list" where
  "example_verified = [(example_evidence_digest, example_blob)]"

lemma example_verifies: "verifyBlobs example_sha256 (\<lambda>_. []) example_handoff ''/t'' example_empty_manifest example_evidence True False
    (opt_policy (withDefaults example_options)) = Some (Inr ([], example_verified))"
  by code_simp

lemma example_admitted: "admit_manifest (opt_policy (withDefaults example_options)) example_empty_manifest = None"
  "gatePaths id_fold example_empty_manifest = None" "Options_validate (withDefaults example_options) = None"
  by code_simp+


definition example_intake :: intake where
  "example_intake = \<lparr>in_manifest = example_empty_manifest, in_plan = None, in_blobs = [], in_claims = [example_claim], in_evidence_findings = []\<rparr>"

lemma example_claimed: "buildClaims example_file example_sha256 (UnixZero 0) example_evidence (map_of example_verified)
    (withDefaults example_options) = Inr ([example_claim], [])"
  using example_claims by (simp add: example_verified_def example_evidence_blobs_def)

lemma example_taken: "take_in example_env (withDefaults example_options) = Some (Inr example_intake)"
proof -
  have "Valid example_evidence_digest" by code_simp
  moreover have "ValidString ''s''" by (simp add: ValidString_ascii byte_def)
  ultimately have "EvidenceManifest_Validate example_evidence = None"
    by (simp add: EvidenceManifest_Validate_def example_evidence_def validation EvidenceEntry_Validate_def example_evidence_entry_def
        validLabel_def EvidenceProvenance_Validate_def)
  then have "loadEvidenceManifest example_env = Inr (example_evidence, True)"
    by (simp add: loadEvidenceManifest_def example_env_def)
  then show ?thesis
    by (simp add: take_in_def Let_def ret_def loadManifest_def example_env_def example_admitted example_verifies example_claimed
        example_intake_def)
qed

lemma class_never_blocks: "f \<in> set (class_findings foldc pol c) \<Longrightarrow> \<not> blocksCommit (fnd_kind f)"
proof -
  assume "f \<in> set (class_findings foldc pol c)"
  then have "fnd_kind f \<in> fst ` set controlPlaneClasses \<union> {FindingGitMetadataPath, FindingAllowlistViolation}"
    unfolding class_findings_def Let_def by (force split: if_split_asm option.split_asm)
  moreover have "\<forall>k \<in> fst ` set controlPlaneClasses. \<not> blocksCommit k" by (simp add: controlPlaneClasses_def blocksCommit_def)
  ultimately show ?thesis by (auto simp: blocksCommit_def)
qed

lemma policy_never_blocks: "f \<in> set (applyPolicy foldc changes pol) \<Longrightarrow> \<not> blocksCommit (fnd_kind f)"
  using class_never_blocks
  by (auto simp: applyPolicy_eq size_findings_def Let_def blocksCommit_def path_finding_def split: if_split_asm)

lemma example_judged: "\<exists>fs. judge example_env (withDefaults example_options) example_intake = Inr (example_plan_base, [deleted_change ''b''], fs)
    \<and> \<not> list_ex (\<lambda>f. blocksCommit (fnd_kind f)) fs"
proof -
  let ?opts = "withDefaults example_options" and ?cs = "[deleted_change ''b'']"
  have v: "ValidString ''b''" by (simp add: ValidString_ascii byte_def)
  have "preflightCommitPlanBase id_fold example_plan_base = None" by code_simp
  moreover have "deriveChanges example_ignore_reader example_plan_base example_empty_manifest Map.empty = Inr (?cs, [])"
    by (simp add: deriveChanges_def example_empty_manifest_def nothing_derived_def example_plan_base_def EvidenceWorkspaceDir_def
        underAnyOpaque_def deletion_findings_def regular_mode_def sortChanges_def sortFindings_def v)
  moreover have "scanSecrets read Map.empty ?cs n = Inr []" for read n
    by (simp add: scanSecrets_def nothing_to_scan_def deleted_change_def blank_change_def)
  moreover have "ignoredAdditions id_fold example_ignore_reader example_check example_plan_base ?cs ?opts = Inr []"
    by (auto simp: ignoredAdditions_def eligible_additions_def deleted_change_def blank_change_def Let_def)
  moreover have "detectCollisions id_fold ?cs example_plan_base = []"
    by (simp add: detectCollisions_def deleted_change_def blank_change_def Let_def)
  ultimately have "judge example_env ?opts example_intake = Inr (example_plan_base, ?cs,
      sortFindings (applyPolicy id_fold ?cs (opt_policy ?opts)))"
    by (simp add: judge_def Let_def example_env_def example_intake_def kept_changes_def kept_findings_def)
  moreover have "\<not> list_ex (\<lambda>f. blocksCommit (fnd_kind f)) (sortFindings (applyPolicy id_fold ?cs (opt_policy ?opts)))"
    using policy_never_blocks by (auto simp: list_ex_iff sortFindings_def)
  ultimately show ?thesis by blast
qed


definition example_result :: Result where
  "example_result = (case fst (the (Import example_env example_options [])) of Inr result \<Rightarrow> result | Inl _ \<Rightarrow> undefined)"

definition example_import_calls :: calls where
  "example_import_calls = snd (the (Import example_env example_options []))"

lemma example_constructed: "buildCommit deleting_git (commit_options_of (withDefaults example_options))
    (opt_commit_message (withDefaults example_options)) [deleted_change ''b''] []
    = (Inr (''t1'', ''ct1''),
       [GitRefValue ''refs/freeside/import'', GitReadTree nullOID, GitIngest [], GitApplyIndex [''0 '' @ nullOID @ CHR 0x09 # ''b''],
        GitWriteTree, GitDiffTree nullOID ''t1'', GitCommitTree ''t1'' nullOID ''freeside: gauntlet import'', GitDiffTree nullOID ''t1'',
        GitUpdateRef ''refs/freeside/import'' ''ct1'' ''o''])"
proof -
  have o: "commit_options_of (withDefaults example_options) = \<lparr>co_base_sha = nullOID, co_import_ref = ''refs/freeside/import''\<rparr>"
    "opt_commit_message (withDefaults example_options) = ''freeside: gauntlet import''"
    by (simp_all add: commit_options_of_def withDefaults_def or_default_def example_options_def)
  have n: "''t1'' \<noteq> nullOID" by (simp add: nullOID_def eval_nat_numeral)
  have v: "verifyTreeMatchesChanges [\<lparr>df_path = ''b'', df_status = ''D'', df_mode = ''000000'', df_oid = nullOID\<rparr>] [deleted_change ''b''] = None"
    by (simp add: verifyTreeMatchesChanges_def check_record_def validation diffStatus_def deleted_change_def blank_change_def)
  have t: "verify_tree deleting_git nullOID ''t1'' [deleted_change ''b''] h = (Inr (), h @ [GitDiffTree nullOID ''t1''])" for h
    by (simp add: verify_tree_def gbind_def gcall_def glift_def deleting_git_def n v)
  have r: "indexRecords ingested [deleted_change ''b''] = Inr [''0 '' @ nullOID @ CHR 0x09 # ''b'']" for ingested
    by (simp add: deleted_change_def blank_change_def)
  have a: "go_ref_value deleting_git h x = Inr ''o''" "go_read_tree deleting_git h x = Inr ()" "go_ingest deleting_git h ds = Inr (\<lambda>_. [])"
    "go_apply_index deleting_git h xs = Inr ()" "go_write_tree deleting_git h = Inr ''t1''"
    "go_commit_tree deleting_git h x y z = Inr (CHR ''c'' # x)" "go_update_ref deleting_git h x y z = Inr ()" for h x y z ds xs
    by (simp_all add: deleting_git_def example_git_def)
  have i: "to_ingest [deleted_change ''b''] = []" by (simp add: to_ingest_def deleted_change_def blank_change_def)
  show ?thesis
    by (simp add: buildCommit_def buildCommitGroups_def o gbind_def gcall_def glift_def t r i a Let_def del: indexRecords.simps)
qed

lemma example_imported: "Import example_env example_options [] = Some (Inr example_result, example_import_calls)
    \<and> res_tree example_result = ''t1'' \<and> \<not> list_ex (\<lambda>f. blocksCommit (fnd_kind f)) (res_findings example_result)
    \<and> GitCommitTree ''t1'' nullOID ''freeside: gauntlet import'' \<in> set example_import_calls"
proof -
  from example_judged obtain fs where j: "judge example_env (withDefaults example_options) example_intake
      = Inr (example_plan_base, [deleted_change ''b''], fs)" "\<not> list_ex (\<lambda>f. blocksCommit (fnd_kind f)) fs" by blast
  have o: "opt_expect_no_changes (withDefaults example_options) = False" "plc_commit_plan (opt_policy (withDefaults example_options)) = SingleCommit"
    "ie_git example_env = deleting_git" "in_plan example_intake = None"
    by (simp_all add: withDefaults_def policy_withDefaults_def or_default_def example_options_def example_policy_def example_env_def
        example_intake_def)
  have "\<exists>result calls. Import example_env example_options [] = Some (Inr result, calls) \<and> res_tree result = ''t1'' \<and> res_findings result = fs
      \<and> GitCommitTree ''t1'' nullOID ''freeside: gauntlet import'' \<in> set calls"
    by (simp add: Import_def Let_def example_admitted example_taken j conclude_import_def o construct_def with_commit_def gbind_def
        example_constructed glift_def account_def)
  with j(2) show ?thesis by (auto simp: example_result_def example_import_calls_def)
qed


definition example_import_trees :: "string \<Rightarrow> string \<rightharpoonup> treeEntry" where
  "example_import_trees t = (if t = nullOID then map_of example_plan_base else Map.empty)"

lemma example_import_faithful: "faithful_git deleting_git example_import_trees nullOID"
  by (auto simp: faithful_git_def deleting_git_def faithful_diff_def example_import_trees_def example_plan_base_def)


lemma import_messages_screened_witness: "message_ok (withDefaults example_options) (GitCommitTree ''t1'' nullOID ''freeside: gauntlet import'')"
proof -
  have "Import example_env example_options [] = Some (Inr example_result, example_import_calls)" using example_imported by blast
  from import_messages_screened [OF this] example_imported show ?thesis by (auto simp: list_all_iff)
qed

end
