(* ===== verification/Spec2Isabelle.thy ===== *)
theory Spec2Isabelle
  imports Prelude ContentAddr Scheduler Pairing Delivery DiffScope ReadinessStore ImportDerive Importer
begin

text \<open>
  A model of the decision logic of the freeside daemon (\<open>daemon/internal\<close>): the part of the Go
  program that decides what is stored, what fires, who is let in and what is owed, with the theorems
  that make those decisions correct.

  \<^bold>\<open>The program.\<close> The daemon keeps its state in one SQLite database. Package \<open>domain\<close> holds the
  aggregates: plain structs with a \<open>Validate\<close> method and, for the mutable ones, a
  \<open>Validate...Transition\<close> function that says which stored value may follow which. Package \<open>store\<close>
  writes and reads rows through those two gates inside transactions, stamping each row with a
  revision. Packages \<open>scheduler\<close> and \<open>signet\<close> are services over the store: the first fires durable
  timers and delivers each occurrence to its handler, the second pairs devices, authorizes their
  requests and notifies them of items that await a decision. Package \<open>importer\<close> derives a commit from
  the untrusted tree an agent left behind, over the path folding of \<open>pathfold\<close> and the manifest of
  \<open>export\<close>; its findings, with those of the later stages, make the authorization without which no
  candidate is published.

  \<^bold>\<open>Theories.\<close>
  \<^item> \<open>Prelude\<close>: errors as values of the sum type (\<open>ebind\<close>, \<open>first_error\<close>), 64-bit integers as \<open>int\<close>
    with the wrap-around written out (\<open>wrap64\<close>), tables as association lists with a key
    (locale \<open>keyed_table\<close>), string-valued enums (locale \<open>string_enum\<close>), immutable histories.
  \<^item> \<open>GoTime\<close>: \<open>time.Time\<close> as nanoseconds from the Unix epoch with its location flag, \<open>Sub\<close>, \<open>Add\<close>
    and \<open>UnixNano\<close> with their saturation and wrap; the pointer helpers of \<open>domain/clone.go\<close>.
  \<^item> \<open>GoStrings\<close>, \<open>Base64\<close>: the string and base64 functions of the Go library the source calls.
  \<^item> \<open>ContentAddr\<close>: \<open>contentaddr/contentaddr.go\<close>.
  \<^item> \<open>StoreKernel\<close>: \<open>store/kernel.go\<close>, encoding and decoding of bodies, write-once rows.
  \<^item> \<open>ScheduleDomain\<close>, \<open>ScheduleStore\<close>, \<open>Scheduler\<close>: \<open>domain/schedule.go\<close>, \<open>store/schedule.go\<close> and
    \<open>scheduler/scheduler.go\<close>.
  \<^item> \<open>DeviceDomain\<close>, \<open>PairingStore\<close>, \<open>Pairing\<close>: \<open>domain/device.go\<close>, \<open>domain/pairing_code.go\<close>,
    \<open>store/pairing.go\<close>, \<open>store/device_activity.go\<close>, \<open>signet/pairing.go\<close> and \<open>signet/device.go\<close>.
  \<^item> \<open>DeliveryDomain\<close>, \<open>Delivery\<close>: \<open>domain/attention_delivery.go\<close>, \<open>signet/delivery.go\<close> and
    \<open>signet/delivery_dispatch.go\<close>.
  \<^item> \<open>GoText\<close>, \<open>DiffScope\<close>: \<open>diffscope/diffscope.go\<close> over byte strings, with the string splitting and
    number parsing it uses.
  \<^item> \<open>ReadinessDomain\<close>, \<open>ReadinessStore\<close>: \<open>domain/readiness.go\<close> and \<open>store/readiness.go\<close>, the
    requirements, proofs and waivers, the evaluation that decides whether a candidate is ready, and the
    tables and gates behind it.
  \<^item> \<open>GoPath\<close>, \<open>PathFold\<close>: the UTF-8 decoding and \<open>path.Match\<close> of the Go library, and
    \<open>pathfold/pathfold.go\<close>: folding, alias normalization and the glob matcher.
  \<^item> \<open>CandidateAuth\<close>: \<open>domain/authorization.go\<close>, the record that says whether a candidate may be
    published, its findings and its waivers.
  \<^item> \<open>ExportManifest\<close>: the types and validators of \<open>export/manifest.go\<close>.
  \<^item> \<open>ImportFindings\<close>, \<open>ImportPaths\<close>, \<open>ImportDerive\<close>, \<open>CommitPlan\<close>, \<open>GoRegex\<close>,
    \<open>ImportScan\<close>, \<open>ImportCommit\<close>, \<open>ImportOptions\<close>, \<open>Evidence\<close>, \<open>Handoff\<close>,
    \<open>Importer\<close>: package \<open>importer\<close>, which turns an untrusted
    snapshot into a commit: the finding classes and the path policy; the path gate and the collision
    check; the derivation of the changes, the bounds on what is read and the audit of the tree; the
    commit plan; the regular expressions of the library, the credential scan and the message screen; the
    construction of the commits over an oracle for git; the options, their defaults and caps, and what an
    ignore file may leave out; the evidence channel and its claims; the audit of the handoff volume; and
    \<open>Import\<close>, which composes them.

  \<^bold>\<open>Correspondence.\<close> A struct is a record with one field per struct field, an enum a datatype with one
  constructor per member and one for every other string, a pointer an \<open>option\<close>. A function that
  returns an error returns \<open>err option\<close> or \<open>err + 'a\<close>; error chains are reduced to the sentinel they
  wrap, and a Go panic (a nil dereference, a division by zero, a negative shift) is the error \<open>Panic\<close>.
  A table is an association list in row order, a transaction a function from database to
  \<open>err + database\<close>: an error leaves the database as it was, as a rollback does. A handler goroutine
  is a job in the scheduler's state, and the interleavings of passes, handlers, operator calls and
  clock readings are the step relations (\<open>scheduler_step\<close>, \<open>pairing_step\<close>, \<open>delivery_step\<close>), over
  which the invariants are proved. Loops are structural recursions or functions with a termination
  proof, so no fuel is used; the one loop that need not end, the reading of a directory in batches, is a
  partial function with an \<open>option\<close> result, which is shown to end for every positive batch. The calls of
  the importer to git are recorded in order, and each answer may depend on all the calls before it.

  \<^bold>\<open>What is shown.\<close> Validators are characterised by the contract they enforce; transition validators
  by the successors they admit and by what no chain of accepted writes can change; stores by
  round trips, by exact lists and by the row invariants every operation keeps; services by what every
  interleaving of their steps preserves and by the functional behaviour of each operation. The importer's
  stages are each shown exact or sound, and \<open>Import\<close> is shown to end, to touch git only behind every
  gate, and to commit the snapshot whatever else the workspace sent.

  \<^bold>\<open>Parameters.\<close> SHA-256, random bytes, the clock, the policy gates and configuration lookups, the
  notification provider, request handlers and job handlers, the Unicode fold of a path component, the
  answers of git to the importer and the JSON bytes and digest of an authorization are arguments of the definitions that use
  them; what a theorem needs of them is a named hypothesis, with a witness at a concrete function.

  \<^bold>\<open>Not modelled.\<close> The engine, the ward and the process, git, image and network layers: they drive
  external programs and services, and their logic is the order of those effects. Of the importer,
  the running of git with the parsing of its output, and the decoding of the handoff's JSON files; the
  volume is a tree of files that holds still while it is read. Ticker loops around
  a modelled pass, log output, JSON encoding beyond which values encode, and SQL beyond the
  statements the modelled operations issue.
\<close>

end
